(* ===== verification/Prelude.thy ===== *)
theory Prelude
  imports Main "HOL-Library.Word" "HOL-Library.Sublist"
begin

text \<open>
  Shared vocabulary of the development: the names of Go's fixed-width integer types, the
  result type of fallible functions, the theorem collections the components extend, and
  generic facts on lists, association by key and words that several components use.
\<close>

section \<open>Machine integers and results\<close>

text \<open>
  Go's \<open>uint8\<close>, \<open>uint32\<close> and \<open>uint64\<close> are words of their width, on which \<open>+\<close>
  wraps around. \<open>int64\<close> and \<open>int\<close> values that are only compared, stored or copied are
  \<open>int\<close>; where the code computes with them the component says why no value leaves the range.
\<close>

type_synonym uint8 = "8 word"
type_synonym uint32 = "32 word"
type_synonym uint64 = "64 word"
type_synonym bytes = "uint8 list"

text \<open>A call that returns \<open>(T, error)\<close> is \<open>Inl\<close> of the error or \<open>Inr\<close> of the value.\<close>

type_synonym ('e, 'a) result = "'e + 'a"

text \<open>
  \<open>step_defs\<close>: definitions of operations that proofs about whole runs unfold;
  \<open>inv_intros\<close>: preservation facts, one per operation;
  \<open>wire_simps\<close>: equations of the conversions to and from wire records.
\<close>

named_theorems step_defs
named_theorems inv_intros
named_theorems wire_simps

section \<open>Lists\<close>

lemma take_Suc_snoc: "i < length xs \<Longrightarrow> take (Suc i) xs = take i xs @ [xs ! i]"
  by (simp add: take_Suc_conv_app_nth)

lemma drop_nth_Cons: "i < length xs \<Longrightarrow> drop i xs = xs ! i # drop (Suc i) xs"
  by (simp add: Cons_nth_drop_Suc)

text \<open>Insertion at a position, the \<open>make\<close>/\<open>copy\<close>/\<open>copy\<close> idiom of the Go code.\<close>

definition insert_at :: "nat \<Rightarrow> 'a \<Rightarrow> 'a list \<Rightarrow> 'a list" where
  "insert_at i x xs = take i xs @ x # drop i xs"

lemma length_insert_at [simp]: "length (insert_at i x xs) = Suc (length xs)"
  by (simp add: insert_at_def)

lemma nth_insert_at [simp]: "i \<le> length xs \<Longrightarrow> insert_at i x xs ! i = x"
  by (simp add: insert_at_def nth_append)

lemma take_insert_at [simp]: "i \<le> length xs \<Longrightarrow> take i (insert_at i x xs) = take i xs"
  by (simp add: insert_at_def)

lemma drop_Suc_insert_at [simp]: "i \<le> length xs \<Longrightarrow> drop (Suc i) (insert_at i x xs) = drop i xs"
  by (simp add: insert_at_def)

lemma set_insert_at: "set (insert_at i x xs) = insert x (set xs)"
proof -
  have "set (take i xs) \<union> set (drop i xs) = set xs"
    by (metis append_take_drop_id set_append)
  then show ?thesis by (auto simp: insert_at_def)
qed

text \<open>\<open>copy(xs[d:d+n], ys)\<close>: the first \<open>min n (length ys)\<close> elements of \<open>ys\<close>, read before the first
  write, overwrite those of \<open>xs\<close> from position \<open>d\<close> on.\<close>

definition go_copy :: "nat \<Rightarrow> nat \<Rightarrow> 'a list \<Rightarrow> 'a list \<Rightarrow> 'a list" where
  "go_copy d n ys xs = take d xs @ take n ys @ drop (d + min n (length ys)) xs"

section \<open>Sums\<close>

lemma sum_case_Inr_iff:
  "(case x of Inl e \<Rightarrow> Inl e | Inr a \<Rightarrow> f a) = Inr b \<longleftrightarrow> (\<exists>a. x = Inr a \<and> f a = Inr b)"
  by (cases x) auto

section \<open>Words\<close>

lemma word_not_max_inc: "(x :: 'a::len word) \<noteq> - 1 \<Longrightarrow> x < x + 1"
  by (metis inc_less_eq_triv_imp linorder_less_linear word_le_less_eq)

lemma word_pos_iff: "0 < (x :: 'a::len word) \<longleftrightarrow> x \<noteq> 0"
  by (simp add: word_neq_0_conv)

end
