(* ===== verification/GoStd.thy ===== *)
theory GoStd
  imports Prelude
begin

text \<open>
  The parts of Go's standard library the modelled code calls: \<open>strings\<close> (Split, Cut,
  ReplaceAll, Trim, ToUpper), \<open>encoding/binary\<close> (big endian), \<open>encoding/hex\<close>, and
  decimal formatting and parsing of unsigned integers (\<open>fmt\<close>'s \<open>%d\<close>, \<open>strconv.ParseUint\<close>).
  A Go string is a sequence of bytes, so it is a \<open>string\<close> here.
\<close>

section \<open>Package strings\<close>

text \<open>\<open>strings.Split(s, sep)\<close> and \<open>strings.Cut(s, sep)\<close> for a separator of one byte.\<close>

fun go_split :: "char \<Rightarrow> string \<Rightarrow> string list" where
  "go_split c [] = [[]]"
| "go_split c (x # xs) =
     (if x = c then [] # go_split c xs
      else (case go_split c xs of [] \<Rightarrow> [[x]] | p # ps \<Rightarrow> (x # p) # ps))"

fun go_cut :: "char \<Rightarrow> string \<Rightarrow> (string \<times> string) option" where
  "go_cut c [] = None"
| "go_cut c (x # xs) =
     (if x = c then Some ([], xs) else map_option (\<lambda>(a, b). (x # a, b)) (go_cut c xs))"

text \<open>\<open>strings.Join(parts, sep)\<close>, and the loops that write a separator before every part but the first.\<close>

fun go_join :: "string \<Rightarrow> string list \<Rightarrow> string" where
  "go_join sep [] = []"
| "go_join sep [p] = p"
| "go_join sep (p # q # ps) = p @ sep @ go_join sep (q # ps)"

definition go_replace_char :: "char \<Rightarrow> string \<Rightarrow> string \<Rightarrow> string" where
  "go_replace_char c r s = concat (map (\<lambda>x. if x = c then r else [x]) s)"

definition go_trim_char :: "char \<Rightarrow> string \<Rightarrow> string" where
  "go_trim_char c s = rev (dropWhile (\<lambda>x. x = c) (rev (dropWhile (\<lambda>x. x = c) s)))"

text \<open>
  \<open>strings.ToUpper\<close> maps ASCII strings byte by byte; any other string goes through the
  Unicode tables, which are the parameter \<open>uni\<close>.
\<close>

definition char_code :: "char \<Rightarrow> nat" where
  "char_code c = of_char c"

definition is_ascii :: "string \<Rightarrow> bool" where
  "is_ascii s \<longleftrightarrow> list_all (\<lambda>c. char_code c < 128) s"

definition ascii_upper :: "char \<Rightarrow> char" where
  "ascii_upper c =
     (if char_code CHR ''a'' \<le> char_code c \<and> char_code c \<le> char_code CHR ''z''
      then char_of (char_code c - 32) else c)"

definition go_to_upper :: "(string \<Rightarrow> string) \<Rightarrow> string \<Rightarrow> string" where
  "go_to_upper uni s = (if is_ascii s then map ascii_upper s else uni s)"

section \<open>Package encoding/binary, big endian\<close>

text \<open>\<open>put_be n x\<close> are the \<open>n\<close> low bytes of \<open>x\<close>, most significant first.\<close>

fun put_be :: "nat \<Rightarrow> nat \<Rightarrow> bytes" where
  "put_be 0 x = []"
| "put_be (Suc n) x = put_be n (x div 256) @ [word_of_nat (x mod 256)]"

definition get_be :: "bytes \<Rightarrow> nat" where
  "get_be bs = foldl (\<lambda>a b. a * 256 + unat b) 0 bs"

definition be_PutUint64 :: "uint64 \<Rightarrow> bytes" where
  "be_PutUint64 x = put_be 8 (unat x)"

definition be_Uint64 :: "bytes \<Rightarrow> uint64" where
  "be_Uint64 bs = word_of_nat (get_be (take 8 bs))"

definition be_PutUint32 :: "uint32 \<Rightarrow> bytes" where
  "be_PutUint32 x = put_be 4 (unat x)"

definition be_Uint32 :: "bytes \<Rightarrow> uint32" where
  "be_Uint32 bs = word_of_nat (get_be (take 4 bs))"

section \<open>Package encoding/hex\<close>

definition hex_digit :: "nat \<Rightarrow> char" where
  "hex_digit n = ''0123456789abcdef'' ! n"

definition hex_value :: "char \<Rightarrow> nat option" where
  "hex_value c =
     (let k = char_code c in
      if 48 \<le> k \<and> k \<le> 57 then Some (k - 48)
      else if 97 \<le> k \<and> k \<le> 102 then Some (k - 87)
      else if 65 \<le> k \<and> k \<le> 70 then Some (k - 55)
      else None)"

definition hex_byte :: "uint8 \<Rightarrow> string" where
  "hex_byte b = [hex_digit (unat b div 16), hex_digit (unat b mod 16)]"

definition hex_EncodeToString :: "bytes \<Rightarrow> string" where
  "hex_EncodeToString bs = concat (map hex_byte bs)"

text \<open>\<open>None\<close> stands for both errors of the decoder, odd length and invalid byte.\<close>

fun hex_DecodeString :: "string \<Rightarrow> bytes option" where
  "hex_DecodeString [] = Some []"
| "hex_DecodeString [c] = None"
| "hex_DecodeString (c # d # cs) =
     (case (hex_value c, hex_value d) of
        (Some h, Some l) \<Rightarrow> map_option (\<lambda>bs. word_of_nat (16 * h + l) # bs) (hex_DecodeString cs)
      | _ \<Rightarrow> None)"

section \<open>Decimal numbers\<close>

definition dec_digit :: "nat \<Rightarrow> char" where
  "dec_digit n = char_of (48 + n)"

fun show_dec :: "nat \<Rightarrow> string" where
  "show_dec n = (if n < 10 then [dec_digit n] else show_dec (n div 10) @ [dec_digit (n mod 10)])"

declare show_dec.simps [simp del]

definition is_dec_digit :: "char \<Rightarrow> bool" where
  "is_dec_digit c \<longleftrightarrow> 48 \<le> char_code c \<and> char_code c \<le> 57"

definition dec_value :: "string \<Rightarrow> nat" where
  "dec_value s = foldl (\<lambda>a c. a * 10 + (char_code c - 48)) 0 s"

text \<open>
  \<open>strconv.ParseUint(s, 10, 64)\<close>: a syntax error for the empty string and for a byte that is
  no digit, a range error above \<open>2^64 - 1\<close>; \<open>None\<close> is either error.
\<close>

definition go_ParseUint64 :: "string \<Rightarrow> uint64 option" where
  "go_ParseUint64 s =
     (if s \<noteq> [] \<and> list_all is_dec_digit s \<and> dec_value s < 2 ^ 64
      then Some (word_of_nat (dec_value s)) else None)"

section \<open>Facts\<close>

subsection \<open>Splitting and joining\<close>

lemma go_split_not_Nil [simp]: "go_split c s \<noteq> []"
  by (induction s) (auto split: list.splits)

lemma go_split_no_sep: "c \<notin> set s \<Longrightarrow> go_split c s = [s]"
  by (induction s) auto

lemma go_split_append_sep: "c \<notin> set p \<Longrightarrow> go_split c (p @ c # s) = p # go_split c s"
  by (induction p) auto

lemma go_split_join:
  "ps \<noteq> [] \<Longrightarrow> (\<forall>p \<in> set ps. c \<notin> set p) \<Longrightarrow> go_split c (go_join [c] ps) = ps"
proof (induction "[c]" ps rule: go_join.induct)
  case (3 p q ps)
  then show ?case by (simp add: go_split_append_sep)
qed (simp_all add: go_split_no_sep)

lemma go_cut_append: "c \<notin> set a \<Longrightarrow> go_cut c (a @ c # b) = Some (a, b)"
  by (induction a) auto

lemma go_replace_char_id: "c \<notin> set s \<Longrightarrow> go_replace_char c r s = s"
  by (induction s) (auto simp: go_replace_char_def)

lemma go_replace_char_Nil: "go_replace_char c [] s = filter (\<lambda>x. x \<noteq> c) s"
  by (induction s) (auto simp: go_replace_char_def)

lemma go_trim_char_id: "c \<notin> set s \<Longrightarrow> go_trim_char c s = s"
proof -
  assume a: "c \<notin> set s"
  have d: "dropWhile (\<lambda>x. x = c) t = t" if "c \<notin> set t" for t
    using that by (cases t) auto
  show ?thesis using a by (simp add: go_trim_char_def d)
qed

subsection \<open>Big endian\<close>

lemma length_put_be [simp]: "length (put_be n x) = n"
  by (induction n arbitrary: x) auto

lemma get_be_snoc: "get_be (bs @ [b]) = get_be bs * 256 + unat b"
  by (simp add: get_be_def)

lemma unat_byte_mod: "unat (word_of_nat (x mod 256) :: uint8) = x mod 256"
  by (simp add: unat_of_nat)

lemma get_put_be: "get_be (put_be n x) = x mod 256 ^ n"
proof (induction n arbitrary: x)
  case 0
  then show ?case by (simp add: get_be_def)
next
  case (Suc n)
  have "get_be (put_be (Suc n) x) = (x div 256) mod 256 ^ n * 256 + x mod 256"
    by (simp add: get_be_snoc Suc.IH unat_byte_mod)
  also have "\<dots> = x mod (256 * 256 ^ n)"
    by (simp add: mod_mult2_eq)
  finally show ?case by simp
qed

lemma get_be_bound: "get_be bs < 256 ^ length bs"
proof (induction bs rule: rev_induct)
  case Nil
  then show ?case by (simp add: get_be_def)
next
  case (snoc b bs)
  have "unat b < 256" using unsigned_less [of b] by simp
  with snoc have "get_be bs * 256 + unat b < 256 ^ length bs * 256" by linarith
  then show ?case by (simp add: get_be_snoc)
qed

lemma put_get_be: "put_be (length bs) (get_be bs) = bs"
proof (induction bs rule: rev_induct)
  case Nil
  then show ?case by simp
next
  case (snoc b bs)
  have "unat b < 256" using unsigned_less [of b] by simp
  with snoc show ?case by (simp add: get_be_snoc)
qed

lemma be_Uint64_Put [simp]: "be_Uint64 (be_PutUint64 x) = x"
proof -
  have "unat x < 2 ^ 64" using unsigned_less [of x] by simp
  then show ?thesis by (simp add: be_Uint64_def be_PutUint64_def get_put_be)
qed

lemma be_PutUint64_get:
  assumes "length bs = 8"
  shows "be_PutUint64 (be_Uint64 bs) = bs"
proof -
  have "get_be bs < 2 ^ 64" using get_be_bound [of bs] assms by simp
  then have "unat (word_of_nat (get_be bs) :: uint64) = get_be bs"
    by (simp add: unat_of_nat)
  then show ?thesis using put_get_be [of bs] assms
    by (simp add: be_PutUint64_def be_Uint64_def)
qed

lemma be_Uint32_Put [simp]: "be_Uint32 (be_PutUint32 x) = x"
proof -
  have "unat x < 2 ^ 32" using unsigned_less [of x] by simp
  then show ?thesis by (simp add: be_Uint32_def be_PutUint32_def get_put_be)
qed

lemma length_be_PutUint64 [simp]: "length (be_PutUint64 x) = 8"
  by (simp add: be_PutUint64_def)

lemma length_be_PutUint32 [simp]: "length (be_PutUint32 x) = 4"
  by (simp add: be_PutUint32_def)

subsection \<open>Hexadecimal\<close>

lemma hex_value_digit: "n < 16 \<Longrightarrow> hex_value (hex_digit n) = Some n"
proof -
  assume "n < 16"
  then have "n \<in> set [0..<16]" by simp
  then show ?thesis
    by (auto simp: hex_value_def hex_digit_def char_code_def upt_rec numeral_nat)
qed

lemma hex_decode_encode: "hex_DecodeString (hex_EncodeToString bs) = Some bs"
proof (induction bs)
  case Nil
  then show ?case by (simp add: hex_EncodeToString_def)
next
  case (Cons b bs)
  have b: "unat b < 256" using unsigned_less [of b] by simp
  have "word_of_nat (16 * (unat b div 16) + unat b mod 16) = b"
    by (simp only: mult_div_mod_eq unat_of_nat) simp
  with Cons b show ?case
    by (simp add: hex_EncodeToString_def hex_byte_def hex_value_digit)
qed

lemma length_hex_EncodeToString [simp]: "length (hex_EncodeToString bs) = 2 * length bs"
  by (induction bs) (auto simp: hex_EncodeToString_def hex_byte_def)

lemma hex_digit_range: "n < 16 \<Longrightarrow> hex_digit n \<in> set ''0123456789abcdef''"
  unfolding hex_digit_def by (rule nth_mem) simp

lemma hex_byte_chars: "set (hex_byte b) \<subseteq> set ''0123456789abcdef''"
proof -
  have "unat b < 256" using unsigned_less [of b] by simp
  then have "hex_digit (unat b div 16) \<in> set ''0123456789abcdef''"
    and "hex_digit (unat b mod 16) \<in> set ''0123456789abcdef''"
    by (intro hex_digit_range; simp)+
  then show ?thesis unfolding hex_byte_def by simp
qed

lemma hex_EncodeToString_chars: "set (hex_EncodeToString bs) \<subseteq> set ''0123456789abcdef''"
proof (induction bs)
  case Nil
  then show ?case by (simp add: hex_EncodeToString_def)
next
  case (Cons b bs)
  have "set (hex_EncodeToString (b # bs)) = set (hex_byte b) \<union> set (hex_EncodeToString bs)"
    by (simp add: hex_EncodeToString_def)
  then show ?case using Cons hex_byte_chars by (metis Un_least)
qed

subsection \<open>Decimal\<close>

lemma char_code_dec_digit: "n < 10 \<Longrightarrow> char_code (dec_digit n) = 48 + n"
  by (simp add: char_code_def dec_digit_def)

lemma show_dec_not_Nil [simp]: "show_dec n \<noteq> []"
  by (subst show_dec.simps) simp

lemma show_dec_digits: "list_all is_dec_digit (show_dec n)"
proof (induction n rule: show_dec.induct)
  case (1 n)
  have d: "is_dec_digit (dec_digit k)" if "k < 10" for k
    using that by (simp add: is_dec_digit_def char_code_dec_digit)
  show ?case using 1 by (subst show_dec.simps) (simp add: d)
qed

lemma dec_value_snoc: "dec_value (s @ [c]) = dec_value s * 10 + (char_code c - 48)"
  by (simp add: dec_value_def)

lemma dec_value_show: "dec_value (show_dec n) = n"
proof (induction n rule: show_dec.induct)
  case (1 n)
  show ?case
  proof (cases "n < 10")
    case True
    then show ?thesis by (subst show_dec.simps) (simp add: dec_value_def char_code_dec_digit)
  next
    case False
    with 1 show ?thesis
      by (subst show_dec.simps) (simp add: dec_value_snoc char_code_dec_digit)
  qed
qed

lemma go_ParseUint64_show: "go_ParseUint64 (show_dec (unat x)) = Some x"
proof -
  have "unat x < 2 ^ 64" using unsigned_less [of x] by simp
  then show ?thesis
    by (simp add: go_ParseUint64_def show_dec_digits dec_value_show)
qed

lemma is_dec_digit_not: "is_dec_digit c \<Longrightarrow> c \<noteq> CHR '','' \<and> c \<noteq> CHR '':''"
  by (auto simp: is_dec_digit_def char_code_def)

end
