(* ===== verification/Vector.thy ===== *)
theory Vector
  imports GoStd
begin

text \<open>
  Version vectors, \<open>lib/protocol/vector.go\<close>: the counters of a vector are a slice kept in
  increasing order of device id. The theory models every method of \<open>Vector\<close> and shows that on
  ordered vectors \<open>Compare\<close> decides the pointwise order of the counters, \<open>Merge\<close> is the
  pointwise maximum, \<open>Update\<close> moves strictly up, and the text form reads back.

  Go's slices are shared, and \<open>Update\<close> and \<open>Merge\<close> may write into the receiver's array; their
  comments say so and callers use only the returned vector, which is what the model returns.
\<close>

section \<open>Data\<close>

record Counter =
  ID :: uint64
  Value :: uint64

record Vector =
  Counters :: "Counter list"

datatype Ordering = Equal | Greater | Lesser | ConcurrentLesser | ConcurrentGreater

definition Counter_zero :: Counter where
  "Counter_zero = \<lparr>ID = 0, Value = 0\<rparr>"

definition Vector_zero :: Vector where
  "Vector_zero = \<lparr>Counters = []\<rparr>"

section \<open>Operations\<close>

subsection \<open>Update\<close>

text \<open>The loop looks for the id in the rest \<open>cs\<close> of the counters; \<open>max\<close> is Go's builtin.\<close>

fun updateWithNow_loop :: "Counter list \<Rightarrow> uint64 \<Rightarrow> uint64 \<Rightarrow> Counter list" where
  "updateWithNow_loop [] i now = [\<lparr>ID = i, Value = max 1 now\<rparr>]"
| "updateWithNow_loop (c # cs) i now =
     (if ID c = i then c\<lparr>Value := max (Value c + 1) now\<rparr> # cs
      else if ID c > i then \<lparr>ID = i, Value = max 1 now\<rparr> # c # cs
      else c # updateWithNow_loop cs i now)"

definition updateWithNow :: "Vector \<Rightarrow> uint64 \<Rightarrow> uint64 \<Rightarrow> Vector" where
  "updateWithNow v i now = v\<lparr>Counters := updateWithNow_loop (Counters v) i now\<rparr>"

text \<open>\<open>Update\<close> reads the clock: \<open>unixNow\<close> is the \<open>int64\<close> of \<open>time.Now().Unix()\<close>.\<close>

definition Vector_Update :: "Vector \<Rightarrow> uint64 \<Rightarrow> int \<Rightarrow> Vector" where
  "Vector_Update v i unixNow = updateWithNow v i (word_of_int unixNow)"

subsection \<open>Merge\<close>

text \<open>
  One round of the loop at index \<open>vi\<close> of \<open>v\<close>, with \<open>bs\<close> the counters of \<open>b\<close> from \<open>bi\<close> on:
  insert, then raise, then advance \<open>bi\<close> if the ids agree, and \<open>vi\<close> always.
\<close>

function Merge_loop :: "Counter list \<Rightarrow> nat \<Rightarrow> Counter list \<Rightarrow> Counter list" where
  "Merge_loop vs vi [] = vs"
| "Merge_loop vs vi (b # bs) =
     (if vi \<ge> length vs then vs @ b # bs
      else
        let n = (if ID (vs ! vi) > ID b then insert_at vi b vs else vs);
            n' = (if ID (n ! vi) = ID b \<and> Value b > Value (n ! vi)
                  then n[vi := (n ! vi)\<lparr>Value := Value b\<rparr>] else n)
        in if ID (n' ! vi) = ID b then Merge_loop n' (Suc vi) bs
           else Merge_loop n' (Suc vi) (b # bs))"
  by pat_completeness auto
termination
  by (relation "measures [\<lambda>(vs, vi, bs). length bs, \<lambda>(vs, vi, bs). length vs - vi]")
    (auto simp: Let_def split: if_splits)

declare Merge_loop.simps(2) [simp del]

definition Merge :: "Vector \<Rightarrow> Vector \<Rightarrow> Vector" where
  "Merge v b = v\<lparr>Counters := Merge_loop (Counters v) 0 (Counters b)\<rparr>"

subsection \<open>Compare and the predicates on it\<close>

text \<open>
  The body of the switch: \<open>Inl\<close> is a \<open>return\<close> out of the loop, \<open>Inr\<close> the new \<open>result\<close>.
\<close>

definition Compare_switch ::
  "Counter \<Rightarrow> bool \<Rightarrow> Counter \<Rightarrow> bool \<Rightarrow> Ordering \<Rightarrow> Ordering + Ordering" where
  "Compare_switch av aMissing bv bMissing res =
     (if ID av = ID bv then
        (if Value av > Value bv then
           (if res = Lesser then Inl ConcurrentLesser else Inr Greater)
         else if Value av < Value bv then
           (if res = Greater then Inl ConcurrentGreater else Inr Lesser)
         else Inr res)
      else if \<not> aMissing \<and> ID av < ID bv \<or> bMissing then
        (if Value av > 0 then
           (if res = Lesser then Inl ConcurrentLesser else Inr Greater)
         else Inr res)
      else if \<not> bMissing \<and> ID bv < ID av \<or> aMissing then
        (if Value bv > 0 then
           (if res = Greater then Inl ConcurrentGreater else Inr Lesser)
         else Inr res)
      else Inr res)"

text \<open>\<open>as\<close> and \<open>bs\<close> are the counters from \<open>ai\<close> and \<open>bi\<close> on.\<close>

function Compare_loop :: "Counter list \<Rightarrow> Counter list \<Rightarrow> Ordering \<Rightarrow> Ordering" where
  "Compare_loop as bs res =
     (if as = [] \<and> bs = [] then res
      else
        let aMissing = (as = []); bMissing = (bs = []);
            av = (if aMissing then Counter_zero else hd as);
            bv = (if bMissing then Counter_zero else hd bs)
        in (case Compare_switch av aMissing bv bMissing res of
              Inl r \<Rightarrow> r
            | Inr res' \<Rightarrow>
                Compare_loop (if as \<noteq> [] \<and> (ID av \<le> ID bv \<or> bMissing) then tl as else as)
                  (if bs \<noteq> [] \<and> (ID bv \<le> ID av \<or> aMissing) then tl bs else bs) res'))"
  by pat_completeness auto
termination
proof (relation "measure (\<lambda>(as, bs, res). length as + length bs)", goal_cases)
  case (2 as bs res)
  then show ?case by (cases as; cases bs) auto
qed simp

declare Compare_loop.simps [simp del]

definition Compare :: "Vector \<Rightarrow> Vector \<Rightarrow> Ordering" where
  "Compare v b = Compare_loop (Counters v) (Counters b) Equal"

definition Vector_Equal :: "Vector \<Rightarrow> Vector \<Rightarrow> bool" where
  "Vector_Equal v b \<longleftrightarrow> Compare v b = Equal"

definition LesserEqual :: "Vector \<Rightarrow> Vector \<Rightarrow> bool" where
  "LesserEqual v b \<longleftrightarrow> (let comp = Compare v b in comp = Lesser \<or> comp = Equal)"

definition GreaterEqual :: "Vector \<Rightarrow> Vector \<Rightarrow> bool" where
  "GreaterEqual v b \<longleftrightarrow> (let comp = Compare v b in comp = Greater \<or> comp = Equal)"

definition Concurrent :: "Vector \<Rightarrow> Vector \<Rightarrow> bool" where
  "Concurrent v b \<longleftrightarrow> (let comp = Compare v b in comp = ConcurrentGreater \<or> comp = ConcurrentLesser)"

subsection \<open>Counter, IsEmpty, DropOthers, Copy\<close>

fun Counter_loop :: "Counter list \<Rightarrow> uint64 \<Rightarrow> uint64" where
  "Counter_loop [] i = 0"
| "Counter_loop (c # cs) i = (if ID c = i then Value c else Counter_loop cs i)"

definition Vector_Counter :: "Vector \<Rightarrow> uint64 \<Rightarrow> uint64" where
  "Vector_Counter v i = Counter_loop (Counters v) i"

definition Vector_IsEmpty :: "Vector \<Rightarrow> bool" where
  "Vector_IsEmpty v \<longleftrightarrow> length (Counters v) = 0"

fun DropOthers_loop :: "Counter list \<Rightarrow> uint64 \<Rightarrow> Counter list" where
  "DropOthers_loop [] i = []"
| "DropOthers_loop (c # cs) i = (if ID c = i then [c] else DropOthers_loop cs i)"

definition DropOthers :: "Vector \<Rightarrow> uint64 \<Rightarrow> Vector" where
  "DropOthers v i = \<lparr>Counters = DropOthers_loop (Counters v) i\<rparr>"

definition Vector_Copy :: "Vector \<Rightarrow> Vector" where
  "Vector_Copy v = \<lparr>Counters = Counters v\<rparr>"

subsection \<open>Text and wire forms\<close>

definition Counter_String :: "Counter \<Rightarrow> string" where
  "Counter_String c = hex_EncodeToString (be_PutUint64 (ID c)) @ '':'' @ show_dec (unat (Value c))"

definition Vector_String :: "Vector \<Rightarrow> string" where
  "Vector_String v = go_join '','' (map Counter_String (Counters v))"

text \<open>
  The errors of the parser, and the run-time panic of the slice expression
  \<open>idbs[8-len(idslice):]\<close> when the id has more than eight bytes.
\<close>

datatype VectorError = BadPair string | BadID string | BadVal string | PanicSliceBounds

definition Counter_FromString :: "string \<Rightarrow> (VectorError, Counter) result" where
  "Counter_FromString pair =
     (case go_cut (CHR '':'') pair of
        None \<Rightarrow> Inl (BadPair pair)
      | Some (idStr, valStr) \<Rightarrow>
          (case hex_DecodeString idStr of
             None \<Rightarrow> Inl (BadID pair)
           | Some idslice \<Rightarrow>
               (if length idslice > 8 then Inl PanicSliceBounds
                else
                  let idbs = replicate (8 - length idslice) 0 @ idslice
                  in (case go_ParseUint64 valStr of
                        None \<Rightarrow> Inl (BadVal pair)
                      | Some val \<Rightarrow> Inr \<lparr>ID = be_Uint64 idbs, Value = val\<rparr>))))"

fun VectorFromString_loop :: "string list \<Rightarrow> (VectorError, Counter list) result" where
  "VectorFromString_loop [] = Inr []"
| "VectorFromString_loop (p # ps) =
     (case Counter_FromString p of
        Inl e \<Rightarrow> Inl e
      | Inr c \<Rightarrow> (case VectorFromString_loop ps of Inl e \<Rightarrow> Inl e | Inr cs \<Rightarrow> Inr (c # cs)))"

definition VectorFromString :: "string \<Rightarrow> (VectorError, Vector) result" where
  "VectorFromString s =
     (case VectorFromString_loop (go_split (CHR '','') s) of
        Inl e \<Rightarrow> Inl e
      | Inr cs \<Rightarrow> Inr \<lparr>Counters = cs\<rparr>)"

text \<open>The wire records are those of the generated package \<open>bep\<close>, field for field.\<close>

record bep_Counter =
  bep_Id :: uint64
  bep_Value :: uint64

record bep_Vector =
  bep_Counters :: "bep_Counter list"

definition Counter_toWire :: "Counter \<Rightarrow> bep_Counter" where
  "Counter_toWire c = \<lparr>bep_Id = ID c, bep_Value = Value c\<rparr>"

definition counterFromWire :: "bep_Counter \<Rightarrow> Counter" where
  "counterFromWire w = \<lparr>ID = bep_Id w, Value = bep_Value w\<rparr>"

definition Vector_ToWire :: "Vector \<Rightarrow> bep_Vector" where
  "Vector_ToWire v = \<lparr>bep_Counters = map Counter_toWire (Counters v)\<rparr>"

text \<open>The argument is a pointer; \<open>None\<close> is nil.\<close>

definition VectorFromWire :: "bep_Vector option \<Rightarrow> Vector" where
  "VectorFromWire w =
     (case w of
        None \<Rightarrow> Vector_zero
      | Some w' \<Rightarrow>
          (if length (bep_Counters w') = 0 then Vector_zero
           else \<lparr>Counters = map counterFromWire (bep_Counters w')\<rparr>))"

section \<open>The invariant: ids in strictly increasing order\<close>

definition ordered :: "Counter list \<Rightarrow> bool" where
  "ordered cs \<longleftrightarrow> sorted_wrt (\<lambda>a b. ID a < ID b) cs"

definition Vector_invar :: "Vector \<Rightarrow> bool" where
  "Vector_invar v \<longleftrightarrow> ordered (Counters v)"

text \<open>Pointwise order of the counter values, the specification of \<open>Compare\<close>.\<close>

definition le_counters :: "Counter list \<Rightarrow> Counter list \<Rightarrow> bool" where
  "le_counters as bs \<longleftrightarrow> (\<forall>i. Counter_loop as i \<le> Counter_loop bs i)"

text \<open>The first id, in increasing order, at which the two differ has the larger value in \<open>as\<close>.\<close>

definition first_diff_greater :: "Counter list \<Rightarrow> Counter list \<Rightarrow> bool" where
  "first_diff_greater as bs \<longleftrightarrow>
     (\<exists>i. Counter_loop as i > Counter_loop bs i \<and> (\<forall>j < i. Counter_loop as j = Counter_loop bs j))"

section \<open>Lookup in ordered counters\<close>

lemma ordered_Nil [simp]: "ordered []"
  by (simp add: ordered_def)

lemma ordered_Cons [simp]: "ordered (c # cs) \<longleftrightarrow> (\<forall>x \<in> set cs. ID c < ID x) \<and> ordered cs"
  by (simp add: ordered_def)

lemma Counter_loop_absent: "\<forall>x \<in> set cs. ID x \<noteq> i \<Longrightarrow> Counter_loop cs i = 0"
  by (induction cs) auto

lemma Counter_loop_below: "\<forall>x \<in> set cs. i < ID x \<Longrightarrow> Counter_loop cs i = 0"
  by (rule Counter_loop_absent) auto

lemma Counter_loop_pos_mem: "0 < Counter_loop cs i \<Longrightarrow> \<exists>x \<in> set cs. ID x = i"
  using Counter_loop_absent by force

text \<open>
  One round of \<open>Compare\<close> consumes the least id \<open>i\<close> present on either side; what it leaves of a
  side is \<open>drop_id i\<close>.
\<close>

definition drop_id :: "uint64 \<Rightarrow> Counter list \<Rightarrow> Counter list" where
  "drop_id i cs = (if cs \<noteq> [] \<and> ID (hd cs) = i then tl cs else cs)"

definition least_id :: "Counter list \<Rightarrow> Counter list \<Rightarrow> uint64" where
  "least_id as bs =
     (if as = [] then ID (hd bs) else if bs = [] then ID (hd as) else min (ID (hd as)) (ID (hd bs)))"

definition ge_id :: "uint64 \<Rightarrow> Counter list \<Rightarrow> bool" where
  "ge_id i cs \<longleftrightarrow> ordered cs \<and> (cs \<noteq> [] \<longrightarrow> i \<le> ID (hd cs))"

lemma ge_id_least:
  assumes "ordered as" and "ordered bs"
  shows "ge_id (least_id as bs) as" and "ge_id (least_id as bs) bs"
  using assms by (auto simp: ge_id_def least_id_def)

lemma ge_id_above: "ge_id i cs \<Longrightarrow> x \<in> set (drop_id i cs) \<Longrightarrow> i < ID x"
  by (cases cs) (auto simp: ge_id_def drop_id_def split: if_splits)

lemma ordered_drop_id: "ordered cs \<Longrightarrow> ordered (drop_id i cs)"
  by (cases cs) (auto simp: drop_id_def)

lemma Counter_loop_drop_id:
  assumes "ge_id i cs"
  shows "Counter_loop (drop_id i cs) j = (if j = i then 0 else Counter_loop cs j)"
proof (cases "j = i")
  case True
  have "Counter_loop (drop_id i cs) i = 0"
    using ge_id_above [OF assms] by (intro Counter_loop_below) blast
  with True show ?thesis by simp
next
  case False
  then show ?thesis by (cases cs) (auto simp: drop_id_def)
qed

lemma Counter_loop_before: "ge_id i cs \<Longrightarrow> j < i \<Longrightarrow> Counter_loop cs j = 0"
  by (rule Counter_loop_below, cases cs) (auto simp: ge_id_def)

section \<open>Compare decides the pointwise order\<close>

text \<open>What the three branches of the switch have in common, over the values at the least id.\<close>

definition value_switch :: "uint64 \<Rightarrow> uint64 \<Rightarrow> Ordering \<Rightarrow> Ordering + Ordering" where
  "value_switch x y res =
     (if x > y then (if res = Lesser then Inl ConcurrentLesser else Inr Greater)
      else if x < y then (if res = Greater then Inl ConcurrentGreater else Inr Lesser)
      else Inr res)"

lemma Compare_loop_Nil [simp]: "Compare_loop [] [] res = res"
  by (subst Compare_loop.simps) simp

lemma Compare_loop_step:
  assumes "ordered as" and "ordered bs" and "as \<noteq> [] \<or> bs \<noteq> []"
  defines "i \<equiv> least_id as bs"
  shows "Compare_loop as bs res =
    (case value_switch (Counter_loop as i) (Counter_loop bs i) res of
       Inl r \<Rightarrow> r | Inr r \<Rightarrow> Compare_loop (drop_id i as) (drop_id i bs) r)"
proof (cases as)
  case Nil
  then obtain b bs' where bs: "bs = b # bs'" using assms(3) by (cases bs) auto
  then have i: "i = ID b" using Nil by (simp add: i_def least_id_def)
  show ?thesis unfolding Nil bs i
    by (subst Compare_loop.simps)
      (auto simp: Compare_switch_def value_switch_def Counter_zero_def drop_id_def Let_def
        word_pos_iff)
next
  case a: (Cons a as')
  show ?thesis
  proof (cases bs)
    case Nil
    then have i: "i = ID a" using a by (simp add: i_def least_id_def)
    show ?thesis unfolding Nil a i
      by (subst Compare_loop.simps)
        (auto simp: Compare_switch_def value_switch_def Counter_zero_def drop_id_def Let_def
          word_pos_iff)
  next
    case b: (Cons b bs')
    have less: "\<forall>x \<in> set bs'. ID b < ID x" "\<forall>x \<in> set as'. ID a < ID x"
      using assms(1,2) a b by auto
    consider "ID a = ID b" | "ID a < ID b" | "ID b < ID a" by (rule linorder_cases) auto
    then show ?thesis
    proof cases
      case 1
      then show ?thesis unfolding i_def a b
        by (subst Compare_loop.simps)
          (simp add: Compare_switch_def value_switch_def drop_id_def least_id_def Let_def)
    next
      case 2
      then have "Counter_loop bs' (ID a) = 0" using less by (intro Counter_loop_below) auto
      with 2 show ?thesis unfolding i_def a b
        by (subst Compare_loop.simps)
          (auto simp: Compare_switch_def value_switch_def drop_id_def least_id_def Let_def
            word_pos_iff min_def)
    next
      case 3
      then have "Counter_loop as' (ID b) = 0" using less by (intro Counter_loop_below) auto
      with 3 show ?thesis unfolding i_def a b
        by (subst Compare_loop.simps)
          (auto simp: Compare_switch_def value_switch_def drop_id_def least_id_def Let_def
            word_pos_iff min_def)
    qed
  qed
qed

lemma le_counters_step:
  assumes "ge_id i as" and "ge_id i bs"
  shows "le_counters as bs \<longleftrightarrow>
    Counter_loop as i \<le> Counter_loop bs i \<and> le_counters (drop_id i as) (drop_id i bs)"
  unfolding le_counters_def Counter_loop_drop_id [OF assms(1)] Counter_loop_drop_id [OF assms(2)]
  by (auto split: if_splits)

lemma first_diff_greater_step:
  assumes a: "ge_id i as" and b: "ge_id i bs"
  shows "first_diff_greater as bs \<longleftrightarrow>
    Counter_loop as i > Counter_loop bs i \<or>
    Counter_loop as i = Counter_loop bs i \<and> first_diff_greater (drop_id i as) (drop_id i bs)"
    (is "?l \<longleftrightarrow> ?g \<or> ?e \<and> ?r")
proof -
  note drop = Counter_loop_drop_id [OF a] Counter_loop_drop_id [OF b]
  have before: "Counter_loop as j = Counter_loop bs j" if "j < i" for j
    using that by (simp add: Counter_loop_before [OF a] Counter_loop_before [OF b])
  show ?thesis
  proof
    assume ?l
    then obtain k where k: "Counter_loop as k > Counter_loop bs k"
      and eq: "\<forall>j < k. Counter_loop as j = Counter_loop bs j"
      by (auto simp: first_diff_greater_def)
    consider "k = i" | "i < k" using before k by (metis linorder_neqE less_irrefl)
    then show "?g \<or> ?e \<and> ?r"
    proof cases
      case 2
      then have ?r using k eq by (auto simp: first_diff_greater_def drop intro!: exI [of _ k])
      with 2 eq show ?thesis by auto
    qed (use k in auto)
  next
    assume "?g \<or> ?e \<and> ?r"
    then show ?l
    proof
      assume ?g
      then show ?l using before by (auto simp: first_diff_greater_def)
    next
      assume e: "?e \<and> ?r"
      then obtain k where "Counter_loop (drop_id i as) k > Counter_loop (drop_id i bs) k"
        and "\<forall>j < k. Counter_loop (drop_id i as) j = Counter_loop (drop_id i bs) j"
        by (auto simp: first_diff_greater_def)
      with e show ?l unfolding first_diff_greater_def drop
        by (intro exI [of _ k]) (auto split: if_splits)
    qed
  qed
qed

text \<open>What \<open>Compare\<close> returns, from a given intermediate result, as a function of the order.\<close>

definition spec_compare :: "Counter list \<Rightarrow> Counter list \<Rightarrow> Ordering \<Rightarrow> Ordering" where
  "spec_compare as bs res =
     (case res of
        Greater \<Rightarrow> if le_counters bs as then Greater else ConcurrentGreater
      | Lesser \<Rightarrow> if le_counters as bs then Lesser else ConcurrentLesser
      | _ \<Rightarrow>
          (if le_counters as bs \<and> le_counters bs as then Equal
           else if le_counters bs as then Greater
           else if le_counters as bs then Lesser
           else if first_diff_greater as bs then ConcurrentGreater else ConcurrentLesser))"

lemma spec_compare_step:
  assumes a: "ge_id i as" and b: "ge_id i bs" and "res \<in> {Equal, Greater, Lesser}"
  shows "spec_compare as bs res =
    (case value_switch (Counter_loop as i) (Counter_loop bs i) res of
       Inl r \<Rightarrow> r | Inr r \<Rightarrow> spec_compare (drop_id i as) (drop_id i bs) r)"
  unfolding spec_compare_def le_counters_step [OF a b] le_counters_step [OF b a]
    first_diff_greater_step [OF a b] value_switch_def
  using assms(3) by (auto simp: not_le)

lemma value_switch_result:
  "res \<in> {Equal, Greater, Lesser} \<Longrightarrow> value_switch x y res = Inr r \<Longrightarrow> r \<in> {Equal, Greater, Lesser}"
  by (auto simp: value_switch_def split: if_splits)

lemma length_drop_id_least:
  "as \<noteq> [] \<or> bs \<noteq> [] \<Longrightarrow>
   length (drop_id (least_id as bs) as) + length (drop_id (least_id as bs) bs) < length as + length bs"
  by (cases as; cases bs) (auto simp: drop_id_def least_id_def min_def)

lemma Compare_loop_spec:
  "ordered as \<Longrightarrow> ordered bs \<Longrightarrow> res \<in> {Equal, Greater, Lesser} \<Longrightarrow>
   Compare_loop as bs res = spec_compare as bs res"
proof (induction "length as + length bs" arbitrary: as bs res rule: less_induct)
  case less
  show ?case
  proof (cases "as = [] \<and> bs = []")
    case True
    then show ?thesis using less.prems(3) by (auto simp: spec_compare_def le_counters_def)
  next
    case False
    define i where "i = least_id as bs"
    have IH: "Compare_loop (drop_id i as) (drop_id i bs) r = spec_compare (drop_id i as) (drop_id i bs) r"
      if "r \<in> {Equal, Greater, Lesser}" for r
      using that False less.prems
      by (intro less.hyps) (auto simp: i_def ordered_drop_id length_drop_id_least)
    have step: "Compare_loop as bs res =
      (case value_switch (Counter_loop as i) (Counter_loop bs i) res of
         Inl r \<Rightarrow> r | Inr r \<Rightarrow> Compare_loop (drop_id i as) (drop_id i bs) r)"
      unfolding i_def using False less.prems by (intro Compare_loop_step) auto
    show ?thesis
      unfolding step spec_compare_step [OF ge_id_least [OF less.prems(1,2)] less.prems(3), folded i_def]
      using value_switch_result [OF less.prems(3)] by (auto split: sum.split intro!: IH)
  qed
qed

section \<open>Merge\<close>

text \<open>The reference: a merge of two ordered lists.\<close>

fun merge_ref :: "Counter list \<Rightarrow> Counter list \<Rightarrow> Counter list" where
  "merge_ref vs [] = vs"
| "merge_ref [] bs = bs"
| "merge_ref (v # vs) (b # bs) =
     (if ID v > ID b then b # merge_ref (v # vs) bs
      else if ID v = ID b then v\<lparr>Value := max (Value v) (Value b)\<rparr> # merge_ref vs bs
      else v # merge_ref vs (b # bs))"

text \<open>One round, by how the two current ids compare.\<close>

lemma Merge_loop_greater:
  assumes "vi < length vs" and "ID (vs ! vi) > ID b"
  shows "Merge_loop vs vi (b # bs) = Merge_loop (insert_at vi b vs) (Suc vi) bs"
  using assms by (simp add: Let_def Merge_loop.simps(2) [of vs])

lemma Merge_loop_equal:
  assumes "vi < length vs" and "ID (vs ! vi) = ID b"
  shows "Merge_loop vs vi (b # bs) =
    Merge_loop (vs[vi := (vs ! vi)\<lparr>Value := max (Value (vs ! vi)) (Value b)\<rparr>]) (Suc vi) bs"
proof (cases "Value b > Value (vs ! vi)")
  case True
  with assms show ?thesis
    by (simp add: Let_def Merge_loop.simps(2) [of vs] max_absorb2 [OF less_imp_le])
next
  case False
  then have "max (Value (vs ! vi)) (Value b) = Value (vs ! vi)" by (simp add: max_absorb1 not_less)
  with assms False show ?thesis
    by (simp add: Let_def Merge_loop.simps(2) [of vs])
qed

lemma Merge_loop_less:
  assumes "vi < length vs" and "ID (vs ! vi) < ID b"
  shows "Merge_loop vs vi (b # bs) = Merge_loop vs (Suc vi) (b # bs)"
  using assms less_not_sym [OF assms(2)] less_imp_neq [OF assms(2)]
  by (simp add: Let_def Merge_loop.simps(2) [of vs])

lemmas Merge_loop_rounds = Merge_loop_greater Merge_loop_equal Merge_loop_less

lemma Merge_loop_ref:
  "vi \<le> length vs \<Longrightarrow> Merge_loop vs vi bs = take vi vs @ merge_ref (drop vi vs) bs"
proof (induction "length bs + (length vs - vi)" arbitrary: vs vi bs rule: less_induct)
  case less
  show ?case
  proof (cases bs)
    case b: (Cons b bs')
    show ?thesis
    proof (cases "vi < length vs")
      case False
      with less.prems b show ?thesis by (simp add: Merge_loop.simps(2))
    next
      case True
      note [simp] = drop_nth_Cons [OF True]
      consider "ID (vs ! vi) > ID b" | "ID (vs ! vi) = ID b" | "ID (vs ! vi) < ID b"
        by (rule linorder_cases) auto
      then show ?thesis
      proof cases
        case 3
        with True b show ?thesis using less_not_sym [OF 3] less_imp_neq [OF 3]
          by (simp add: Merge_loop_rounds less.hyps take_Suc_snoc)
      qed (use True b in \<open>simp_all add: Merge_loop_rounds less.hyps take_Suc_snoc\<close>)
    qed
  qed simp
qed

lemma merge_ref_Nil [simp]: "merge_ref [] bs = bs"
  by (cases bs) auto

lemma merge_ref_ids: "ID ` set (merge_ref vs bs) = ID ` set vs \<union> ID ` set bs"
  by (induction vs bs rule: merge_ref.induct) auto

lemma merge_ref_above:
  assumes "\<forall>x \<in> set vs. i < ID x" and "\<forall>x \<in> set bs. i < ID x"
  shows "\<forall>x \<in> set (merge_ref vs bs). i < ID x"
proof -
  have "\<forall>j \<in> ID ` set (merge_ref vs bs). i < j"
    unfolding merge_ref_ids using assms by auto
  then show ?thesis by auto
qed

lemma merge_ref_ordered: "ordered vs \<Longrightarrow> ordered bs \<Longrightarrow> ordered (merge_ref vs bs)"
proof (induction vs bs rule: merge_ref.induct)
  case (3 v vs b bs)
  have prems: "\<forall>x \<in> set vs. ID v < ID x" "\<forall>x \<in> set bs. ID b < ID x" "ordered vs" "ordered bs"
    using "3.prems" by auto
  consider (gt) "ID v > ID b" | (eq) "ID v = ID b" | (lt) "ID v < ID b"
    by (rule linorder_cases) auto
  then show ?case
  proof cases
    case gt
    have "ID b < ID x" if "x \<in> set (v # vs)" for x
      using that gt prems(1) order.strict_trans [OF gt] by auto
    then have "\<forall>x \<in> set (merge_ref (v # vs) bs). ID b < ID x"
      by (intro merge_ref_above prems(2)) blast
    moreover have "ordered (merge_ref (v # vs) bs)"
      using gt "3.prems"(1) prems(4) by (rule "3.IH"(1))
    ultimately show ?thesis unfolding merge_ref.simps if_P [OF gt] ordered_Cons by blast
  next
    case eq
    then show ?thesis using "3.IH"(2) prems merge_ref_above [of vs "ID v" bs] by simp
  next
    case lt
    have "ID v < ID x" if "x \<in> set (b # bs)" for x
      using that lt prems(2) order.strict_trans [OF lt] by auto
    then have "\<forall>x \<in> set (merge_ref vs (b # bs)). ID v < ID x"
      by (intro merge_ref_above prems(1)) blast
    moreover have "ordered (merge_ref vs (b # bs))"
      using less_not_sym [OF lt] less_imp_neq [OF lt] prems(3) "3.prems"(2) by (rule "3.IH"(3))
    ultimately show ?thesis
      unfolding merge_ref.simps if_not_P [OF less_not_sym [OF lt]] if_not_P [OF less_imp_neq [OF lt]]
        ordered_Cons by blast
  qed
qed auto

lemma merge_ref_Counter:
  "ordered vs \<Longrightarrow> ordered bs \<Longrightarrow>
   Counter_loop (merge_ref vs bs) i = max (Counter_loop vs i) (Counter_loop bs i)"
proof (induction vs bs rule: merge_ref.induct)
  case (3 v vs b bs)
  have v0: "Counter_loop bs (ID v) = 0" if "ID v < ID b"
    using 3 that by (intro Counter_loop_below) auto
  have b0: "Counter_loop vs (ID b) = 0" if "ID b < ID v"
    using 3 that by (intro Counter_loop_below) auto
  consider (gt) "ID v > ID b" | (eq) "ID v = ID b" | (lt) "ID v < ID b"
    by (rule linorder_cases) auto
  then show ?case
  proof cases
    case gt
    then show ?thesis using "3.IH"(1) "3.prems" b0 less_imp_neq [OF gt]
      by (cases "i = ID b") (auto simp: max_absorb2)
  next
    case eq
    then show ?thesis using "3.IH"(2) "3.prems" by simp
  next
    case lt
    then show ?thesis using "3.IH"(3) "3.prems" v0 less_not_sym [OF lt] less_imp_neq [OF lt]
      by (cases "i = ID v") (auto simp: max_absorb1)
  qed
qed (simp_all add: max_absorb1 max_absorb2)

section \<open>Exchanging the operands\<close>

fun flip_Ordering :: "Ordering \<Rightarrow> Ordering" where
  "flip_Ordering Equal = Equal"
| "flip_Ordering Greater = Lesser"
| "flip_Ordering Lesser = Greater"
| "flip_Ordering ConcurrentLesser = ConcurrentGreater"
| "flip_Ordering ConcurrentGreater = ConcurrentLesser"

lemma flip_flip [simp]: "flip_Ordering (flip_Ordering r) = r"
  by (cases r) auto

lemma flip_eq_iff [simp]:
  "flip_Ordering r = Equal \<longleftrightarrow> r = Equal"
  "flip_Ordering r = Greater \<longleftrightarrow> r = Lesser"
  "flip_Ordering r = Lesser \<longleftrightarrow> r = Greater"
  "flip_Ordering r = ConcurrentLesser \<longleftrightarrow> r = ConcurrentGreater"
  "flip_Ordering r = ConcurrentGreater \<longleftrightarrow> r = ConcurrentLesser"
  by (cases r; simp)+

lemma Compare_switch_flip:
  assumes "\<not> (aMissing \<and> bMissing)"
  shows "Compare_switch bv bMissing av aMissing (flip_Ordering res) =
    map_sum flip_Ordering flip_Ordering (Compare_switch av aMissing bv bMissing res)"
  using assms by (auto simp: Compare_switch_def dest: less_not_sym)

lemma Compare_loop_flip: "Compare_loop bs as (flip_Ordering res) = flip_Ordering (Compare_loop as bs res)"
proof (induction as bs res rule: Compare_loop.induct)
  case (1 as bs res)
  show ?case
  proof (cases "as = [] \<and> bs = []")
    case True
    then show ?thesis by simp
  next
    case False
    then have False': "\<not> (bs = [] \<and> as = [])" by blast
    define av where "av = (if as = [] then Counter_zero else hd as)"
    define bv where "bv = (if bs = [] then Counter_zero else hd bs)"
    have sw: "Compare_switch bv (bs = []) av (as = []) (flip_Ordering res) =
        map_sum flip_Ordering flip_Ordering (Compare_switch av (as = []) bv (bs = []) res)"
      using False by (intro Compare_switch_flip) simp
    have IH: "Compare_loop (if bs \<noteq> [] \<and> (ID bv \<le> ID av \<or> as = []) then tl bs else bs)
        (if as \<noteq> [] \<and> (ID av \<le> ID bv \<or> bs = []) then tl as else as) (flip_Ordering r) =
      flip_Ordering (Compare_loop (if as \<noteq> [] \<and> (ID av \<le> ID bv \<or> bs = []) then tl as else as)
        (if bs \<noteq> [] \<and> (ID bv \<le> ID av \<or> as = []) then tl bs else bs) r)"
      if "Compare_switch av (as = []) bv (bs = []) res = Inr r" for r
      using 1 [OF False refl refl refl refl] that by (simp add: av_def bv_def)
    have l: "Compare_loop as bs res = (case Compare_switch av (as = []) bv (bs = []) res of
        Inl r \<Rightarrow> r | Inr r \<Rightarrow> Compare_loop (if as \<noteq> [] \<and> (ID av \<le> ID bv \<or> bs = []) then tl as else as)
          (if bs \<noteq> [] \<and> (ID bv \<le> ID av \<or> as = []) then tl bs else bs) r)"
      using False by (subst Compare_loop.simps) (simp only: Let_def av_def bv_def if_False)
    have r: "Compare_loop bs as (flip_Ordering res) =
      (case Compare_switch bv (bs = []) av (as = []) (flip_Ordering res) of
        Inl r \<Rightarrow> r | Inr r \<Rightarrow> Compare_loop (if bs \<noteq> [] \<and> (ID bv \<le> ID av \<or> as = []) then tl bs else bs)
          (if as \<noteq> [] \<and> (ID av \<le> ID bv \<or> bs = []) then tl as else as) r)"
      using False' by (subst Compare_loop.simps) (simp only: Let_def av_def bv_def if_False)
    show ?thesis unfolding l r sw
      by (cases "Compare_switch av (as = []) bv (bs = []) res") (auto simp: IH)
  qed
qed

section \<open>Update\<close>

lemma update_ids: "ID ` set (updateWithNow_loop cs i now) = insert i (ID ` set cs)"
  by (induction cs) auto

lemma update_ordered: "ordered cs \<Longrightarrow> ordered (updateWithNow_loop cs i now)"
proof (induction cs)
  case (Cons c cs)
  have "\<forall>j \<in> ID ` set (updateWithNow_loop cs i now). ID c < j" if "ID c < i"
    unfolding update_ids using Cons.prems that by auto
  with Cons show ?case
    by (auto simp: not_less order.not_eq_order_implies_strict dest: order.strict_trans)
qed simp

lemma update_Counter:
  "ordered cs \<Longrightarrow> Counter_loop (updateWithNow_loop cs i now) j =
     (if j = i then max (Counter_loop cs i + 1) now else Counter_loop cs j)"
proof (induction cs)
  case (Cons c cs)
  have "Counter_loop cs i = 0" if "i < ID c"
    using Cons.prems that by (intro Counter_loop_below) (auto dest: order.strict_trans)
  with Cons show ?case by auto
qed simp

section \<open>The contract of a version order\<close>

text \<open>
  What the rest of the program relies on: \<open>cmp\<close> reports the pointwise order of the values
  \<open>val\<close> of well-formed versions, and exchanging the operands exchanges the answer. The
  clients are the conflict rules of file records and the choice of the global version in the
  database.
\<close>

locale version_order =
  fixes cmp :: "'v \<Rightarrow> 'v \<Rightarrow> Ordering"
    and val :: "'v \<Rightarrow> 'k \<Rightarrow> 'n::linorder"
    and ok :: "'v \<Rightarrow> bool"
  assumes cmp_le: "ok a \<Longrightarrow> ok b \<Longrightarrow> cmp a b \<in> {Lesser, Equal} \<longleftrightarrow> (\<forall>k. val a k \<le> val b k)"
    and cmp_flip: "cmp b a = flip_Ordering (cmp a b)"
begin

lemma cmp_ge: "ok a \<Longrightarrow> ok b \<Longrightarrow> cmp a b \<in> {Greater, Equal} \<longleftrightarrow> (\<forall>k. val b k \<le> val a k)"
  using cmp_le [of b a] cmp_flip [of a b] by auto

lemma cmp_equal: "ok a \<Longrightarrow> ok b \<Longrightarrow> cmp a b = Equal \<longleftrightarrow> val a = val b"
proof -
  assume ok: "ok a" "ok b"
  have "cmp a b = Equal \<longleftrightarrow> cmp a b \<in> {Lesser, Equal} \<and> cmp a b \<in> {Greater, Equal}" by auto
  also have "\<dots> \<longleftrightarrow> (\<forall>k. val a k = val b k)"
    unfolding cmp_le [OF ok] cmp_ge [OF ok] by (auto intro: antisym)
  finally show ?thesis by auto
qed

lemma cmp_refl [simp]: "cmp a a = Equal"
  using cmp_flip [of a a] by (cases "cmp a a") auto

lemma cmp_greater:
  "ok a \<Longrightarrow> ok b \<Longrightarrow>
   cmp a b = Greater \<longleftrightarrow> (\<forall>k. val b k \<le> val a k) \<and> (\<exists>k. val b k < val a k)"
proof -
  assume ok: "ok a" "ok b"
  have "cmp a b = Greater \<longleftrightarrow> cmp a b \<in> {Greater, Equal} \<and> \<not> cmp a b \<in> {Lesser, Equal}" by auto
  then show ?thesis unfolding cmp_le [OF ok] cmp_ge [OF ok] by (auto simp: not_le)
qed

lemma cmp_concurrent:
  "ok a \<Longrightarrow> ok b \<Longrightarrow>
   cmp a b \<in> {ConcurrentGreater, ConcurrentLesser} \<longleftrightarrow>
   (\<exists>k. val a k < val b k) \<and> (\<exists>k. val b k < val a k)"
proof -
  assume ok: "ok a" "ok b"
  have "cmp a b \<in> {ConcurrentGreater, ConcurrentLesser} \<longleftrightarrow>
      \<not> cmp a b \<in> {Lesser, Equal} \<and> \<not> cmp a b \<in> {Greater, Equal}"
    by (cases "cmp a b") auto
  then show ?thesis unfolding cmp_le [OF ok] cmp_ge [OF ok] by (auto simp: not_le)
qed

lemma cmp_trans:
  "ok a \<Longrightarrow> ok b \<Longrightarrow> ok c \<Longrightarrow> cmp a b \<in> {Lesser, Equal} \<Longrightarrow> cmp b c \<in> {Lesser, Equal} \<Longrightarrow>
   cmp a c \<in> {Lesser, Equal}"
  unfolding cmp_le by (meson order_trans)

lemma cmp_tie_break:
  "cmp a b \<in> {ConcurrentGreater, ConcurrentLesser} \<Longrightarrow>
   cmp a b = ConcurrentGreater \<longleftrightarrow> cmp b a \<noteq> ConcurrentGreater"
  unfolding cmp_flip [of b a] by auto

end

lemma Compare_spec: "Vector_invar v \<Longrightarrow> Vector_invar b \<Longrightarrow>
    Compare v b = spec_compare (Counters v) (Counters b) Equal"
  by (simp add: Compare_def Vector_invar_def Compare_loop_spec)

interpretation vo: version_order Compare Vector_Counter Vector_invar
proof
  show "Compare a b \<in> {Lesser, Equal} \<longleftrightarrow> (\<forall>k. Vector_Counter a k \<le> Vector_Counter b k)"
    if "Vector_invar a" and "Vector_invar b" for a b
    unfolding Compare_spec [OF that]
    by (auto simp: spec_compare_def Vector_Counter_def le_counters_def split: if_splits)
  show "Compare b a = flip_Ordering (Compare a b)" for a b
    using Compare_loop_flip [of "Counters b" "Counters a" Equal] by (simp add: Compare_def)
qed

section \<open>Preservation of the invariant\<close>

lemma Vector_invar_zero [inv_intros, simp]: "Vector_invar Vector_zero"
  by (simp add: Vector_invar_def Vector_zero_def)

lemma Vector_invar_update [inv_intros]: "Vector_invar v \<Longrightarrow> Vector_invar (updateWithNow v i now)"
  by (simp add: Vector_invar_def updateWithNow_def update_ordered)

lemma Vector_invar_Update [inv_intros]: "Vector_invar v \<Longrightarrow> Vector_invar (Vector_Update v i now)"
  by (simp add: Vector_Update_def Vector_invar_update)

lemma Vector_invar_Merge [inv_intros]: "Vector_invar v \<Longrightarrow> Vector_invar b \<Longrightarrow> Vector_invar (Merge v b)"
  by (simp add: Vector_invar_def Merge_def Merge_loop_ref merge_ref_ordered)

lemma DropOthers_loop_ordered: "ordered (DropOthers_loop cs i)"
  by (induction cs) auto

lemma Vector_invar_DropOthers [inv_intros]: "Vector_invar (DropOthers v i)"
  by (simp add: Vector_invar_def DropOthers_def DropOthers_loop_ordered)

lemma DropOthers_Counter: "Vector_Counter (DropOthers v i) j = (if j = i then Vector_Counter v i else 0)"
proof -
  have "Counter_loop (DropOthers_loop cs i) j = (if j = i then Counter_loop cs i else 0)" for cs
    by (induction cs) auto
  then show ?thesis by (simp add: Vector_Counter_def DropOthers_def)
qed

lemma Merge_Counter:
  "Vector_invar v \<Longrightarrow> Vector_invar b \<Longrightarrow>
   Vector_Counter (Merge v b) i = max (Vector_Counter v i) (Vector_Counter b i)"
  by (simp add: Vector_Counter_def Vector_invar_def Merge_def Merge_loop_ref merge_ref_Counter)

lemma updateWithNow_Counter:
  "Vector_invar v \<Longrightarrow> Vector_Counter (updateWithNow v i now) j =
     (if j = i then max (Vector_Counter v i + 1) now else Vector_Counter v j)"
  by (simp add: Vector_Counter_def Vector_invar_def updateWithNow_def update_Counter)

lemma Vector_ext:
  assumes "Counters v = Counters (b :: Vector)"
  shows "v = b"
  using assms by simp

section \<open>Text form\<close>

lemma Counter_String_chars: "CHR '','' \<notin> set (Counter_String c)"
proof -
  have "CHR '','' \<notin> set (hex_EncodeToString bs)" for bs
    using hex_EncodeToString_chars [of bs] by auto
  moreover have "CHR '','' \<notin> set (show_dec n)" for n
    using show_dec_digits [of n] is_dec_digit_not by (auto simp: list_all_iff)
  ultimately show ?thesis by (simp add: Counter_String_def)
qed

lemma Counter_String_read: "Counter_FromString (Counter_String c) = Inr c"
proof -
  have "CHR '':'' \<notin> set (hex_EncodeToString bs)" for bs
    using hex_EncodeToString_chars [of bs] by auto
  then have "go_cut (CHR '':'') (Counter_String c) =
      Some (hex_EncodeToString (be_PutUint64 (ID c)), show_dec (unat (Value c)))"
    unfolding Counter_String_def by (simp add: go_cut_append)
  then show ?thesis
    by (simp add: Counter_FromString_def hex_decode_encode go_ParseUint64_show Let_def)
qed

lemma VectorFromString_loop_map:
  "VectorFromString_loop (map Counter_String cs) = Inr cs"
  by (induction cs) (simp_all add: Counter_String_read)

section \<open>Properties\<close>

text \<open>C6. On well-formed vectors \<open>Compare\<close> decides the pointwise order of the counters:
  \<open>Equal\<close> exactly when every device's counter agrees, \<open>Greater\<close> (\<open>Lesser\<close>) exactly when no
  counter is smaller (larger) and one is larger (smaller), and concurrent exactly when one
  counter is larger and another smaller.\<close>

theorem Compare_decides_pointwise:
  assumes "Vector_invar v" and "Vector_invar b"
  shows "(Compare v b = Equal \<longleftrightarrow> (\<forall>i. Vector_Counter v i = Vector_Counter b i)) \<and>
    (Compare v b = Greater \<longleftrightarrow>
      (\<forall>i. Vector_Counter b i \<le> Vector_Counter v i) \<and> (\<exists>i. Vector_Counter b i < Vector_Counter v i)) \<and>
    (Compare v b = Lesser \<longleftrightarrow>
      (\<forall>i. Vector_Counter v i \<le> Vector_Counter b i) \<and> (\<exists>i. Vector_Counter v i < Vector_Counter b i)) \<and>
    (Concurrent v b \<longleftrightarrow>
      (\<exists>i. Vector_Counter v i < Vector_Counter b i) \<and> (\<exists>i. Vector_Counter b i < Vector_Counter v i))"
proof (intro conjI)
  show "Compare v b = Equal \<longleftrightarrow> (\<forall>i. Vector_Counter v i = Vector_Counter b i)"
    using vo.cmp_equal [OF assms] by auto
  show "Compare v b = Lesser \<longleftrightarrow>
      (\<forall>i. Vector_Counter v i \<le> Vector_Counter b i) \<and> (\<exists>i. Vector_Counter v i < Vector_Counter b i)"
    using vo.cmp_greater [OF assms(2,1)] vo.cmp_flip [of v b] by simp
qed (use vo.cmp_greater [OF assms] vo.cmp_concurrent [OF assms] in \<open>auto simp: Concurrent_def Let_def\<close>)

definition example_a :: Vector where
  "example_a = \<lparr>Counters = [\<lparr>ID = 1, Value = 2\<rparr>, \<lparr>ID = 3, Value = 4\<rparr>]\<rparr>"

definition example_b :: Vector where
  "example_b = \<lparr>Counters = [\<lparr>ID = 1, Value = 1\<rparr>, \<lparr>ID = 2, Value = 9\<rparr>]\<rparr>"

lemma example_invar: "Vector_invar example_a" "Vector_invar example_b"
  by (simp_all add: Vector_invar_def example_a_def example_b_def)

theorem Compare_decides_pointwise_witness:
  "Vector_invar example_a \<and> Vector_invar example_b \<and> Concurrent example_a example_b"
proof -
  have "Vector_Counter example_a 2 < Vector_Counter example_b 2"
    and "Vector_Counter example_b 1 < Vector_Counter example_a 1"
    by (simp_all add: Vector_Counter_def example_a_def example_b_def)
  then show ?thesis using Compare_decides_pointwise [OF example_invar] example_invar by blast
qed

text \<open>Exchanging the operands of \<open>Compare\<close> exchanges the verdict, for all vectors, ordered
  or not; two devices that compare the same versions in either order agree.\<close>

theorem Compare_flip: "Compare b v = flip_Ordering (Compare v b)"
  by (rule vo.cmp_flip)

text \<open>C17. \<open>Merge\<close> keeps vectors well formed and is their least upper bound in the order that
  \<open>LesserEqual\<close> decides.\<close>

theorem Merge_least_upper_bound:
  assumes "Vector_invar v" and "Vector_invar b"
  shows "Vector_invar (Merge v b) \<and> LesserEqual v (Merge v b) \<and> LesserEqual b (Merge v b) \<and>
    (\<forall>u. Vector_invar u \<longrightarrow> LesserEqual v u \<longrightarrow> LesserEqual b u \<longrightarrow> LesserEqual (Merge v b) u)"
proof -
  have le: "LesserEqual x y \<longleftrightarrow> (\<forall>i. Vector_Counter x i \<le> Vector_Counter y i)"
    if "Vector_invar x" and "Vector_invar y" for x y
    using vo.cmp_le [OF that] by (auto simp: LesserEqual_def Let_def)
  have m: "Vector_invar (Merge v b)" using assms by (rule Vector_invar_Merge)
  show ?thesis using assms m by (auto simp: le Merge_Counter)
qed

theorem Merge_least_upper_bound_witness:
  "Vector_invar example_a \<and> Vector_invar example_b \<and> LesserEqual example_b (Merge example_a example_b)"
  using Merge_least_upper_bound [OF example_invar] example_invar by blast

text \<open>C32. \<open>Update\<close> keeps a vector well formed, leaves the counters of the other devices alone
  and, unless this device's counter is at the largest 64-bit value, yields a version that
  \<open>Compare\<close> puts strictly above the old one, whatever the clock says.\<close>

theorem Update_strictly_greater:
  assumes "Vector_invar v" and "Vector_Counter v i \<noteq> - 1"
  shows "Vector_invar (Vector_Update v i unixNow) \<and>
    Compare (Vector_Update v i unixNow) v = Greater \<and>
    (\<forall>j. j \<noteq> i \<longrightarrow> Vector_Counter (Vector_Update v i unixNow) j = Vector_Counter v j)"
proof -
  have up: "Vector_Counter v i < max (Vector_Counter v i + 1) (word_of_int unixNow)"
    using word_not_max_inc [OF assms(2)] by (auto simp: max_def intro: less_le_trans)
  have inv: "Vector_invar (Vector_Update v i unixNow)"
    using assms(1) by (rule Vector_invar_Update)
  have "Compare (Vector_Update v i unixNow) v = Greater"
    unfolding vo.cmp_greater [OF inv assms(1)]
    using up by (auto simp: Vector_Update_def updateWithNow_Counter [OF assms(1)] intro: less_imp_le)
  with inv show ?thesis by (simp add: Vector_Update_def updateWithNow_Counter [OF assms(1)])
qed

theorem Update_strictly_greater_witness:
  "Vector_Counter example_a 3 \<noteq> - 1 \<and> Compare (Vector_Update example_a 3 2) example_a = Greater"
proof -
  have "Vector_Counter example_a 3 \<noteq> - 1" by (simp add: Vector_Counter_def example_a_def)
  then show ?thesis using Update_strictly_greater [OF example_invar(1)] by blast
qed

text \<open>The text form of a non-empty vector, as the database stores it, parses back to the
  same vector.\<close>

theorem Vector_String_roundtrip:
  assumes "\<not> Vector_IsEmpty v"
  shows "VectorFromString (Vector_String v) = Inr v"
proof -
  have "map Counter_String (Counters v) \<noteq> []" using assms by (simp add: Vector_IsEmpty_def)
  then have "go_split (CHR '','') (Vector_String v) = map Counter_String (Counters v)"
    unfolding Vector_String_def by (intro go_split_join) (auto simp: Counter_String_chars)
  then show ?thesis by (simp add: VectorFromString_def VectorFromString_loop_map)
qed

theorem Vector_String_roundtrip_witness:
  "\<not> Vector_IsEmpty example_a \<and> VectorFromString (Vector_String example_a) = Inr example_a"
proof -
  have "\<not> Vector_IsEmpty example_a" by (simp add: Vector_IsEmpty_def example_a_def)
  then show ?thesis using Vector_String_roundtrip by blast
qed

end
