(* ===== verification/GoTime.thy ===== *)
theory GoTime
  imports Prelude
begin

text \<open>
  Signed integers of fixed width and package \<open>time\<close>: instants as \<open>time.Unix\<close> makes them, their
  comparison, and \<open>Sub\<close>, whose result saturates at the ends of the 64-bit nanosecond range.
\<close>

section \<open>Signed wrap-around\<close>

definition wrap_signed :: "nat \<Rightarrow> int \<Rightarrow> int" where
  "wrap_signed w x = (x + 2 ^ (w - 1)) mod 2 ^ w - 2 ^ (w - 1)"

abbreviation "go_int32 \<equiv> wrap_signed 32"
abbreviation "go_int64 \<equiv> wrap_signed 64"

definition in_signed :: "nat \<Rightarrow> int \<Rightarrow> bool" where
  "in_signed w x \<longleftrightarrow> - (2 ^ (w - 1)) \<le> x \<and> x < 2 ^ (w - 1)"

lemma wrap_signed_id: "0 < w \<Longrightarrow> in_signed w x \<Longrightarrow> wrap_signed w x = x"
proof -
  assume w: "0 < w" and x: "in_signed w x"
  have "(2 :: int) ^ w = 2 * 2 ^ (w - 1)" using w by (cases w) auto
  then have "0 \<le> x + 2 ^ (w - 1) \<and> x + 2 ^ (w - 1) < 2 ^ w" using x by (auto simp: in_signed_def)
  then show ?thesis by (simp add: wrap_signed_def mod_pos_pos_trivial)
qed

lemma wrap_signed_range: "0 < w \<Longrightarrow> in_signed w (wrap_signed w x)"
proof -
  assume w: "0 < w"
  have e: "(2 :: int) ^ w = 2 * 2 ^ (w - 1)" using w by (cases w) auto
  have "0 \<le> (x + 2 ^ (w - 1)) mod 2 ^ w" and "(x + 2 ^ (w - 1)) mod 2 ^ w < 2 ^ w"
    by simp_all
  then show ?thesis using e by (auto simp: in_signed_def wrap_signed_def)
qed

section \<open>Instants\<close>

text \<open>
  \<open>time.Unix(sec, nsec)\<close> normalises the nanoseconds to \<open>[0, 10^9)\<close> and keeps the seconds in an
  \<open>int64\<close> counted from year 1, so that an extreme \<open>sec\<close> wraps around.
\<close>

record Time =
  t_sec :: int
  t_nsec :: int

definition unixToInternal :: int where
  "unixToInternal = 62135596800"

definition time_Unix :: "int \<Rightarrow> int \<Rightarrow> Time" where
  "time_Unix sec nsec =
     \<lparr>t_sec = go_int64 (go_int64 (sec + nsec div 1000000000) + unixToInternal),
      t_nsec = nsec mod 1000000000\<rparr>"

definition time_nanos :: "Time \<Rightarrow> int" where
  "time_nanos t = t_sec t * 1000000000 + t_nsec t"

definition time_After :: "Time \<Rightarrow> Time \<Rightarrow> bool" where
  "time_After t u \<longleftrightarrow> t_sec t > t_sec u \<or> t_sec t = t_sec u \<and> t_nsec t > t_nsec u"

definition time_Before :: "Time \<Rightarrow> Time \<Rightarrow> bool" where
  "time_Before t u \<longleftrightarrow> t_sec t < t_sec u \<or> t_sec t = t_sec u \<and> t_nsec t < t_nsec u"

definition time_Equal :: "Time \<Rightarrow> Time \<Rightarrow> bool" where
  "time_Equal t u \<longleftrightarrow> t_sec t = t_sec u \<and> t_nsec t = t_nsec u"

definition maxDuration :: int where
  "maxDuration = 2 ^ 63 - 1"

definition minDuration :: int where
  "minDuration = - (2 ^ 63)"

text \<open>\<open>Sub\<close> returns the exact difference where it is representable and saturates elsewhere.\<close>

definition time_Sub :: "Time \<Rightarrow> Time \<Rightarrow> int" where
  "time_Sub t u =
     (let d = time_nanos t - time_nanos u in
      if in_signed 64 d then d else if time_Before t u then minDuration else maxDuration)"

text \<open>\<open>UnixNano\<close> is the number of nanoseconds since 1970 in an \<open>int64\<close>.\<close>

definition time_UnixNano :: "Time \<Rightarrow> int" where
  "time_UnixNano t = go_int64 ((t_sec t - unixToInternal) * 1000000000 + t_nsec t)"

definition Time_ok :: "Time \<Rightarrow> bool" where
  "Time_ok t \<longleftrightarrow> 0 \<le> t_nsec t \<and> t_nsec t < 1000000000"

lemma Time_ok_Unix [simp]: "Time_ok (time_Unix s n)"
  by (simp add: Time_ok_def time_Unix_def)

lemma time_Before_nanos: "Time_ok t \<Longrightarrow> Time_ok u \<Longrightarrow> time_Before t u \<longleftrightarrow> time_nanos t < time_nanos u"
  by (auto simp: Time_ok_def time_Before_def time_nanos_def)

lemma time_After_nanos: "Time_ok t \<Longrightarrow> Time_ok u \<Longrightarrow> time_After t u \<longleftrightarrow> time_nanos u < time_nanos t"
  by (auto simp: Time_ok_def time_After_def time_nanos_def)

lemma time_Equal_nanos:
  assumes "Time_ok t" and "Time_ok u"
  shows "time_Equal t u \<longleftrightarrow> time_nanos t = time_nanos u"
proof -
  have "time_Equal t u \<longleftrightarrow> \<not> time_Before t u \<and> \<not> time_Before u t"
    by (auto simp: time_Equal_def time_Before_def)
  then show ?thesis using assms by (auto simp: time_Before_nanos)
qed

lemma time_After_Before: "time_After t u \<longleftrightarrow> time_Before u t"
  by (auto simp: time_After_def time_Before_def)

lemma time_Before_asym: "time_Before t u \<Longrightarrow> \<not> time_Before u t"
  by (auto simp: time_Before_def)

end
