(* ===== verification/FileInfo.thy ===== *)
theory FileInfo
  imports Vector GoTime
begin

text \<open>
  File records, \<open>lib/protocol/bep_fileinfo.go\<close>: the record a device keeps and announces for
  every item of a folder, its flags, the rules that decide whether two records describe the
  same item (\<open>isEquivalent\<close>), whether they conflict and which one wins, the choice of a block
  size, and the conversions to and from the wire and the database.
\<close>

unbundle bit_operations_syntax

section \<open>Local flags\<close>

type_synonym FlagLocal = uint32

definition FlagLocalUnsupported :: FlagLocal where "FlagLocalUnsupported = 1"
definition FlagLocalIgnored :: FlagLocal where "FlagLocalIgnored = 2"
definition FlagLocalMustRescan :: FlagLocal where "FlagLocalMustRescan = 4"
definition FlagLocalReceiveOnly :: FlagLocal where "FlagLocalReceiveOnly = 8"
definition FlagLocalGlobal :: FlagLocal where "FlagLocalGlobal = 16"
definition FlagLocalNeeded :: FlagLocal where "FlagLocalNeeded = 32"
definition FlagLocalRemoteInvalid :: FlagLocal where "FlagLocalRemoteInvalid = 64"

definition LocalInvalidFlags :: FlagLocal where
  "LocalInvalidFlags = FlagLocalUnsupported OR FlagLocalIgnored OR FlagLocalMustRescan
     OR FlagLocalReceiveOnly OR FlagLocalRemoteInvalid"

definition LocalConflictFlags :: FlagLocal where
  "LocalConflictFlags = FlagLocalUnsupported OR FlagLocalIgnored OR FlagLocalReceiveOnly"

definition FlagLocal_IsInvalid :: "FlagLocal \<Rightarrow> bool" where
  "FlagLocal_IsInvalid f \<longleftrightarrow> f AND LocalInvalidFlags \<noteq> 0"

section \<open>Block sizes\<close>

definition MinBlockSize :: int where "MinBlockSize = 128 * 2 ^ 10"
definition MaxBlockSize :: int where "MaxBlockSize = 16 * 2 ^ 20"
definition DesiredPerFileBlocks :: int where "DesiredPerFileBlocks = 2000"
definition SyntheticDirectorySize :: int where "SyntheticDirectorySize = 128"

text \<open>The loop of \<open>init\<close> that fills \<open>BlockSizes\<close>, doubling from the minimum to the maximum.\<close>

function BlockSizes_from :: "int \<Rightarrow> int list" where
  "BlockSizes_from bs = (if 0 < bs \<and> bs \<le> MaxBlockSize then bs # BlockSizes_from (bs * 2) else [])"
  by pat_completeness auto
termination
  by (relation "measure (\<lambda>bs. nat (MaxBlockSize + 1 - bs))") (auto simp: MaxBlockSize_def)

declare BlockSizes_from.simps [simp del]

definition BlockSizes :: "int list" where
  "BlockSizes = BlockSizes_from MinBlockSize"

text \<open>
  \<open>BlockSize\<close> ranges over the sizes with \<open>blockSize\<close> declared outside the loop: it breaks at the
  first size that fits and is left with the last one otherwise.
\<close>

fun BlockSize_loop :: "int \<Rightarrow> int \<Rightarrow> int list \<Rightarrow> int" where
  "BlockSize_loop fileSize blockSize [] = blockSize"
| "BlockSize_loop fileSize blockSize (b # bs) =
     (if fileSize < DesiredPerFileBlocks * b then b else BlockSize_loop fileSize b bs)"

definition BlockSize :: "int \<Rightarrow> int" where
  "BlockSize fileSize = BlockSize_loop fileSize 0 BlockSizes"

section \<open>Data\<close>

datatype FileInfoType =
  FileInfoTypeFile | FileInfoTypeDirectory | FileInfoTypeSymlinkFile
| FileInfoTypeSymlinkDirectory | FileInfoTypeSymlink

record BlockInfo =
  bi_Hash :: bytes
  bi_Offset :: int
  bi_Size :: int

record UnixData =
  OwnerName :: string
  GroupName :: string
  UID :: int
  GID :: int

record WindowsData =
  win_OwnerName :: string
  OwnerIsGroup :: bool

record Xattr =
  xattr_Name :: string
  xattr_Value :: bytes

record XattrData =
  Xattrs :: "Xattr list"

text \<open>The fields are pointers; \<open>None\<close> is nil.\<close>

record PlatformData =
  pd_Unix :: "UnixData option"
  pd_Windows :: "WindowsData option"
  pd_Linux :: "XattrData option"
  pd_Darwin :: "XattrData option"
  pd_FreeBSD :: "XattrData option"
  pd_NetBSD :: "XattrData option"

definition PlatformData_zero :: PlatformData where
  "PlatformData_zero = \<lparr>pd_Unix = None, pd_Windows = None, pd_Linux = None, pd_Darwin = None,
     pd_FreeBSD = None, pd_NetBSD = None\<rparr>"

record FileInfo =
  fi_Name :: string
  fi_Size :: int
  fi_ModifiedS :: int
  fi_ModifiedBy :: uint64
  fi_Version :: Vector
  fi_Sequence :: int
  fi_Blocks :: "BlockInfo list"
  fi_SymlinkTarget :: bytes
  fi_BlocksHash :: bytes
  fi_PreviousBlocksHash :: bytes
  fi_Encrypted :: bytes
  fi_Platform :: PlatformData
  fi_Type :: FileInfoType
  fi_Permissions :: uint32
  fi_ModifiedNs :: int
  fi_RawBlockSize :: int
  fi_LocalFlags :: FlagLocal
  fi_EncryptionTrailerSize :: int
  fi_Deleted :: bool
  fi_NoPermissions :: bool
  fi_truncated :: bool

definition FileInfo_zero :: FileInfo where
  "FileInfo_zero =
     \<lparr>fi_Name = '''', fi_Size = 0, fi_ModifiedS = 0, fi_ModifiedBy = 0, fi_Version = Vector_zero, fi_Sequence = 0, fi_Blocks = [],
      fi_SymlinkTarget = [], fi_BlocksHash = [], fi_PreviousBlocksHash = [], fi_Encrypted = [], fi_Platform = PlatformData_zero,
      fi_Type = FileInfoTypeFile, fi_Permissions = 0, fi_ModifiedNs = 0, fi_RawBlockSize = 0, fi_LocalFlags = 0,
      fi_EncryptionTrailerSize = 0, fi_Deleted = False, fi_NoPermissions = False, fi_truncated = False\<rparr>"

lemma FileInfo_zero_upd [simp]: "fi_Name FileInfo_zero = ''''"
  by (simp add: FileInfo_zero_def)

section \<open>Predicates and accessors\<close>

definition IsInvalid :: "FileInfo \<Rightarrow> bool" where
  "IsInvalid f \<longleftrightarrow> FlagLocal_IsInvalid (fi_LocalFlags f)"

definition IsUnsupported :: "FileInfo \<Rightarrow> bool" where
  "IsUnsupported f \<longleftrightarrow> fi_LocalFlags f AND FlagLocalUnsupported \<noteq> 0"

definition IsIgnored :: "FileInfo \<Rightarrow> bool" where
  "IsIgnored f \<longleftrightarrow> fi_LocalFlags f AND FlagLocalIgnored \<noteq> 0"

definition MustRescan :: "FileInfo \<Rightarrow> bool" where
  "MustRescan f \<longleftrightarrow> fi_LocalFlags f AND FlagLocalMustRescan \<noteq> 0"

definition IsReceiveOnlyChanged :: "FileInfo \<Rightarrow> bool" where
  "IsReceiveOnlyChanged f \<longleftrightarrow> fi_LocalFlags f AND FlagLocalReceiveOnly \<noteq> 0"

definition ShouldConflict :: "FileInfo \<Rightarrow> bool" where
  "ShouldConflict f \<longleftrightarrow> fi_LocalFlags f AND LocalConflictFlags \<noteq> 0"

definition IsDirectory :: "FileInfo \<Rightarrow> bool" where
  "IsDirectory f \<longleftrightarrow> fi_Type f = FileInfoTypeDirectory"

definition IsSymlink :: "FileInfo \<Rightarrow> bool" where
  "IsSymlink f \<longleftrightarrow>
     (case fi_Type f of
        FileInfoTypeSymlink \<Rightarrow> True
      | FileInfoTypeSymlinkDirectory \<Rightarrow> True
      | FileInfoTypeSymlinkFile \<Rightarrow> True
      | _ \<Rightarrow> False)"

definition FileSize :: "FileInfo \<Rightarrow> int" where
  "FileSize f =
     (if fi_Deleted f then 0
      else if IsDirectory f \<or> IsSymlink f then SyntheticDirectorySize
      else fi_Size f)"

definition FileInfo_BlockSize :: "FileInfo \<Rightarrow> int" where
  "FileInfo_BlockSize f =
     (if fi_RawBlockSize f < MinBlockSize then MinBlockSize else fi_RawBlockSize f)"

definition ModTime :: "FileInfo \<Rightarrow> Time" where
  "ModTime f = time_Unix (fi_ModifiedS f) (fi_ModifiedNs f)"

section \<open>Conflicts\<close>

definition InConflictWith :: "FileInfo \<Rightarrow> FileInfo \<Rightarrow> bool" where
  "InConflictWith f previous =
     (if GreaterEqual (fi_Version f) (fi_Version previous) then False
      else if length (fi_PreviousBlocksHash f) = 0 \<or> length (fi_BlocksHash f) = 0 then True
      else fi_PreviousBlocksHash f \<noteq> fi_BlocksHash previous)"

definition WinsConflict :: "FileInfo \<Rightarrow> FileInfo \<Rightarrow> bool" where
  "WinsConflict f other =
     (if IsInvalid f \<noteq> IsInvalid other then \<not> IsInvalid f
      else if time_After (ModTime f) (ModTime other) then True
      else if time_Before (ModTime f) (ModTime other) then False
      else Compare (fi_Version f) (fi_Version other) = ConcurrentGreater)"

section \<open>Equivalence\<close>

record FileInfoComparison =
  ModTimeWindow :: int
  IgnorePerms :: bool
  IgnoreBlocks :: bool
  IgnoreFlags :: FlagLocal
  IgnoreOwnership :: bool
  IgnoreXattrs :: bool

text \<open>Durations are \<open>int64\<close>: negating the smallest one gives it back.\<close>

definition ModTimeEqual :: "Time \<Rightarrow> Time \<Rightarrow> int \<Rightarrow> bool" where
  "ModTimeEqual a b modTimeWindow =
     (if time_Equal a b then True
      else
        let diff = time_Sub a b;
            diff' = (if diff < 0 then go_int64 (diff * - 1) else diff)
        in diff' < modTimeWindow)"

text \<open>\<open>isWindows\<close> is the build constant \<open>build.IsWindows\<close>.\<close>

definition PermsEqual :: "bool \<Rightarrow> uint32 \<Rightarrow> uint32 \<Rightarrow> bool" where
  "PermsEqual isWindows a b \<longleftrightarrow>
     (if isWindows then a AND 384 = b AND 384 else a AND 511 = b AND 511)"

fun blocksEqual_loop :: "BlockInfo list \<Rightarrow> BlockInfo list \<Rightarrow> bool" where
  "blocksEqual_loop (s # as) (b # bs) = (if bi_Hash s \<noteq> bi_Hash b then False else blocksEqual_loop as bs)"
| "blocksEqual_loop _ _ = True"

definition blocksEqual :: "BlockInfo list \<Rightarrow> BlockInfo list \<Rightarrow> bool" where
  "blocksEqual a b = (if length b \<noteq> length a then False else blocksEqual_loop a b)"

definition BlocksEqual :: "FileInfo \<Rightarrow> FileInfo \<Rightarrow> bool" where
  "BlocksEqual f other =
     (if length (fi_BlocksHash f) > 0 \<and> length (fi_BlocksHash other) > 0
         \<and> fi_BlocksHash f = fi_BlocksHash other
      then True else blocksEqual (fi_Blocks f) (fi_Blocks other))"

definition unixOwnershipEqual :: "UnixData option \<Rightarrow> UnixData option \<Rightarrow> bool" where
  "unixOwnershipEqual a b =
     (case (a, b) of
        (None, None) \<Rightarrow> True
      | (Some x, Some y) \<Rightarrow>
          (if UID x = UID y \<and> GID x = GID y then True
           else if OwnerName x = OwnerName y \<and> GroupName x = GroupName y then True
           else False)
      | _ \<Rightarrow> False)"

definition windowsOwnershipEqual :: "WindowsData option \<Rightarrow> WindowsData option \<Rightarrow> bool" where
  "windowsOwnershipEqual a b =
     (case (a, b) of
        (None, None) \<Rightarrow> True
      | (Some x, Some y) \<Rightarrow> win_OwnerName x = win_OwnerName y \<and> OwnerIsGroup x = OwnerIsGroup y
      | _ \<Rightarrow> False)"

fun xattrsEqual_loop :: "Xattr list \<Rightarrow> Xattr list \<Rightarrow> bool" where
  "xattrsEqual_loop (a # as) (b # bs) =
     (if xattr_Name a \<noteq> xattr_Name b then False
      else if xattr_Value a \<noteq> xattr_Value b then False
      else xattrsEqual_loop as bs)"
| "xattrsEqual_loop _ _ = True"

definition xattr_list :: "XattrData option \<Rightarrow> Xattr list" where
  "xattr_list a = (case a of None \<Rightarrow> [] | Some x \<Rightarrow> Xattrs x)"

definition xattrsEqual :: "XattrData option \<Rightarrow> XattrData option \<Rightarrow> bool" where
  "xattrsEqual a b =
     (let aEmpty = (xattr_list a = []); bEmpty = (xattr_list b = []) in
      if aEmpty \<and> bEmpty then True
      else if aEmpty \<or> bEmpty then False
      else if length (xattr_list a) \<noteq> length (xattr_list b) then False
      else xattrsEqual_loop (xattr_list a) (xattr_list b))"

text \<open>
  \<open>f.Platform != other.Platform\<close> compares pointers in Go. Pointers that are equal lead to equal
  data, on which the guarded checks succeed, so comparing the data instead gives the same
  answer. \<open>&^=\<close> clears bits.
\<close>

definition isEquivalent :: "bool \<Rightarrow> FileInfo \<Rightarrow> FileInfo \<Rightarrow> FileInfoComparison \<Rightarrow> bool" where
  "isEquivalent isWindows f0 other0 cmp =
     (if MustRescan f0 \<or> MustRescan other0 then False
      else
        let f = f0\<lparr>fi_LocalFlags := fi_LocalFlags f0 AND NOT (IgnoreFlags cmp)\<rparr>;
            other = other0\<lparr>fi_LocalFlags := fi_LocalFlags other0 AND NOT (IgnoreFlags cmp)\<rparr>;
            p = fi_Platform f; q = fi_Platform other
        in
        if fi_Name f \<noteq> fi_Name other \<or> fi_Type f \<noteq> fi_Type other
           \<or> fi_Deleted f \<noteq> fi_Deleted other \<or> IsInvalid f \<noteq> IsInvalid other then False
        else if \<not> IgnoreOwnership cmp \<and> p \<noteq> q
                \<and> (\<not> unixOwnershipEqual (pd_Unix p) (pd_Unix q)
                   \<or> \<not> windowsOwnershipEqual (pd_Windows p) (pd_Windows q)) then False
        else if \<not> IgnoreXattrs cmp \<and> p \<noteq> q
                \<and> (\<not> xattrsEqual (pd_Linux p) (pd_Linux q)
                   \<or> \<not> xattrsEqual (pd_Darwin p) (pd_Darwin q)
                   \<or> \<not> xattrsEqual (pd_FreeBSD p) (pd_FreeBSD q)
                   \<or> \<not> xattrsEqual (pd_NetBSD p) (pd_NetBSD q)) then False
        else if \<not> IgnorePerms cmp \<and> \<not> fi_NoPermissions f \<and> \<not> fi_NoPermissions other
                \<and> \<not> PermsEqual isWindows (fi_Permissions f) (fi_Permissions other) then False
        else (case fi_Type f of
                FileInfoTypeFile \<Rightarrow>
                  fi_Size f = fi_Size other
                  \<and> ModTimeEqual (ModTime f) (ModTime other) (ModTimeWindow cmp)
                  \<and> (IgnoreBlocks cmp \<or> BlocksEqual f other)
              | FileInfoTypeSymlink \<Rightarrow> fi_SymlinkTarget f = fi_SymlinkTarget other
              | FileInfoTypeDirectory \<Rightarrow> True
              | _ \<Rightarrow> False))"

definition IsEquivalent :: "bool \<Rightarrow> FileInfo \<Rightarrow> FileInfo \<Rightarrow> int \<Rightarrow> bool" where
  "IsEquivalent isWindows f other modTimeWindow =
     isEquivalent isWindows f other
       \<lparr>ModTimeWindow = modTimeWindow, IgnorePerms = False, IgnoreBlocks = False, IgnoreFlags = 0,
        IgnoreOwnership = False, IgnoreXattrs = False\<rparr>"

definition IsEquivalentOptional :: "bool \<Rightarrow> FileInfo \<Rightarrow> FileInfo \<Rightarrow> FileInfoComparison \<Rightarrow> bool" where
  "IsEquivalentOptional isWindows f other cmp = isEquivalent isWindows f other cmp"

section \<open>Mutators\<close>

definition setNoContent :: "FileInfo \<Rightarrow> FileInfo" where
  "setNoContent f = f\<lparr>fi_Blocks := [], fi_BlocksHash := [], fi_Size := 0\<rparr>"

definition setLocalFlags :: "FlagLocal \<Rightarrow> FileInfo \<Rightarrow> FileInfo" where
  "setLocalFlags flags f = setNoContent (f\<lparr>fi_LocalFlags := flags\<rparr>)"

definition SetMustRescan :: "FileInfo \<Rightarrow> FileInfo" where
  "SetMustRescan f = setLocalFlags FlagLocalMustRescan f"

definition SetIgnored :: "FileInfo \<Rightarrow> FileInfo" where
  "SetIgnored f = setLocalFlags FlagLocalIgnored f"

definition SetUnsupported :: "FileInfo \<Rightarrow> FileInfo" where
  "SetUnsupported f = setLocalFlags FlagLocalUnsupported f"

text \<open>\<open>unixNow\<close> is the clock, read once for the version and once for the modification time.\<close>

definition SetDeleted :: "uint64 \<Rightarrow> int \<Rightarrow> int \<Rightarrow> FileInfo \<Rightarrow> FileInfo" where
  "SetDeleted dev unixNow unixNow' f =
     setNoContent
       (f\<lparr>fi_ModifiedBy := dev, fi_Deleted := True,
          fi_Version := Vector_Update (fi_Version f) dev unixNow,
          fi_ModifiedS := unixNow'\<rparr>)"

section \<open>Blocks and hashes\<close>

text \<open>For each block size, the SHA-256 of a block of zeroes: the table of the source.\<close>

definition sha256OfEmptyBlock :: "(int \<times> bytes) list" where
  "sha256OfEmptyBlock =
     [(128 * 2 ^ 10, [250, 67, 35, 155, 206, 231, 185, 124, 166, 47, 0, 124, 198, 132, 135, 86,
        10, 57, 225, 159, 116, 243, 221, 231, 72, 109, 179, 249, 141, 248, 228, 113]),
      (256 * 2 ^ 10, [138, 57, 210, 171, 211, 153, 154, 183, 60, 52, 219, 36, 118, 132, 156, 221,
        243, 3, 206, 56, 155, 53, 130, 104, 80, 249, 167, 0, 88, 155, 74, 144]),
      (512 * 2 ^ 10, [7, 133, 77, 47, 239, 41, 122, 6, 186, 129, 104, 94, 102, 12, 51, 45,
        227, 109, 93, 24, 213, 70, 146, 125, 48, 218, 173, 109, 127, 218, 21, 65]),
      (1 * 2 ^ 20, [48, 225, 73, 85, 235, 241, 53, 34, 102, 220, 47, 248, 6, 126, 104, 16,
        70, 7, 231, 80, 171, 185, 211, 179, 101, 130, 184, 175, 144, 159, 203, 88]),
      (2 * 2 ^ 20, [86, 71, 240, 94, 193, 137, 88, 148, 125, 50, 135, 78, 235, 120, 143, 163,
        150, 160, 93, 11, 171, 124, 27, 113, 241, 18, 206, 183, 233, 179, 30, 238]),
      (4 * 2 ^ 20, [187, 159, 141, 246, 20, 116, 210, 94, 113, 250, 0, 114, 35, 24, 205, 56,
        115, 150, 202, 23, 54, 96, 94, 18, 72, 130, 28, 192, 222, 61, 58, 248]),
      (8 * 2 ^ 20, [45, 174, 177, 243, 96, 149, 180, 75, 49, 132, 16, 179, 244, 232, 181, 217,
        137, 220, 199, 187, 2, 61, 20, 38, 196, 146, 218, 176, 163, 5, 62, 116]),
      (16 * 2 ^ 20, [8, 10, 207, 53, 165, 7, 172, 152, 73, 207, 203, 164, 125, 194, 173, 131,
        224, 27, 117, 102, 58, 81, 98, 121, 200, 185, 210, 67, 183, 25, 100, 62])]"

definition BlockInfo_IsEmpty :: "BlockInfo \<Rightarrow> bool" where
  "BlockInfo_IsEmpty b =
     (case map_of sha256OfEmptyBlock (bi_Size b) of Some v \<Rightarrow> bi_Hash b = v | None \<Rightarrow> False)"

text \<open>\<open>sha256\<close> is the hash of the bytes written to it.\<close>

definition BlocksHash :: "(bytes \<Rightarrow> bytes) \<Rightarrow> BlockInfo list \<Rightarrow> bytes" where
  "BlocksHash sha256 bs = sha256 (concat (map bi_Hash bs))"

definition VectorHash :: "(bytes \<Rightarrow> bytes) \<Rightarrow> Vector \<Rightarrow> bytes" where
  "VectorHash sha256 v =
     sha256 (concat (map (\<lambda>c. be_PutUint64 (ID c) @ be_PutUint64 (Value c)) (Counters v)))"

section \<open>Platform data\<close>

text \<open>The operating system of the build: \<open>build.IsLinux\<close>, \<open>build.IsDarwin\<close> and so on.\<close>

datatype GOOS = OS_Linux | OS_Darwin | OS_FreeBSD | OS_NetBSD | OS_Windows | OS_Other

definition PlatformData_Xattrs :: "GOOS \<Rightarrow> PlatformData \<Rightarrow> Xattr list" where
  "PlatformData_Xattrs os p =
     (case os of
        OS_Linux \<Rightarrow> xattr_list (pd_Linux p)
      | OS_Darwin \<Rightarrow> xattr_list (pd_Darwin p)
      | OS_FreeBSD \<Rightarrow> xattr_list (pd_FreeBSD p)
      | OS_NetBSD \<Rightarrow> xattr_list (pd_NetBSD p)
      | _ \<Rightarrow> [])"

definition SetXattrs :: "GOOS \<Rightarrow> Xattr list \<Rightarrow> PlatformData \<Rightarrow> PlatformData" where
  "SetXattrs os xattrs p =
     (case os of
        OS_Linux \<Rightarrow> p\<lparr>pd_Linux := Some \<lparr>Xattrs = xattrs\<rparr>\<rparr>
      | OS_Darwin \<Rightarrow> p\<lparr>pd_Darwin := Some \<lparr>Xattrs = xattrs\<rparr>\<rparr>
      | OS_FreeBSD \<Rightarrow> p\<lparr>pd_FreeBSD := Some \<lparr>Xattrs = xattrs\<rparr>\<rparr>
      | OS_NetBSD \<Rightarrow> p\<lparr>pd_NetBSD := Some \<lparr>Xattrs = xattrs\<rparr>\<rparr>
      | _ \<Rightarrow> p)"

definition MergeWith :: "PlatformData \<Rightarrow> PlatformData \<Rightarrow> PlatformData" where
  "MergeWith p other =
     (let pick = (\<lambda>a b. if a = None then b else a) in
      p\<lparr>pd_Unix := (if pd_Unix p = None then pd_Unix other else pd_Unix p),
        pd_Windows := (if pd_Windows p = None then pd_Windows other else pd_Windows p),
        pd_Linux := pick (pd_Linux p) (pd_Linux other),
        pd_Darwin := pick (pd_Darwin p) (pd_Darwin other),
        pd_FreeBSD := pick (pd_FreeBSD p) (pd_FreeBSD other),
        pd_NetBSD := pick (pd_NetBSD p) (pd_NetBSD other)\<rparr>)"

section \<open>Wire and database forms\<close>

text \<open>The records of the generated package \<open>bep\<close>; its \<open>int32\<close> fields hold wrapped values.\<close>

record bep_BlockInfo =
  wbi_Hash :: bytes
  wbi_Offset :: int
  wbi_Size :: int

record bep_UnixData =
  w_OwnerName :: string
  w_GroupName :: string
  w_Uid :: int
  w_Gid :: int

record bep_Xattr =
  wx_Name :: string
  wx_Value :: bytes

record bep_XattrData =
  wx_Xattrs :: "bep_Xattr list"

record bep_PlatformData =
  w_Unix :: "bep_UnixData option"
  w_Windows :: "WindowsData option"
  w_Linux :: "bep_XattrData option"
  w_Darwin :: "bep_XattrData option"
  w_Freebsd :: "bep_XattrData option"
  w_Netbsd :: "bep_XattrData option"

record bep_FileInfo =
  w_Name :: string
  w_Size :: int
  w_ModifiedS :: int
  w_ModifiedBy :: uint64
  w_Version :: "bep_Vector option"
  w_Sequence :: int
  w_Blocks :: "bep_BlockInfo list"
  w_SymlinkTarget :: bytes
  w_BlocksHash :: bytes
  w_PreviousBlocksHash :: bytes
  w_Encrypted :: bytes
  w_Type :: FileInfoType
  w_Permissions :: uint32
  w_ModifiedNs :: int
  w_BlockSize :: int
  w_Platform :: "bep_PlatformData option"
  w_LocalFlags :: uint32
  w_EncryptionTrailerSize :: int
  w_Deleted :: bool
  w_Invalid :: bool
  w_NoPermissions :: bool

definition BlockInfo_ToWire :: "BlockInfo \<Rightarrow> bep_BlockInfo" where
  "BlockInfo_ToWire b =
     \<lparr>wbi_Hash = bi_Hash b, wbi_Offset = bi_Offset b, wbi_Size = go_int32 (bi_Size b)\<rparr>"

definition BlockInfoFromWire :: "bep_BlockInfo \<Rightarrow> BlockInfo" where
  "BlockInfoFromWire w = \<lparr>bi_Hash = wbi_Hash w, bi_Offset = wbi_Offset w, bi_Size = wbi_Size w\<rparr>"

definition UnixData_toWire :: "UnixData option \<Rightarrow> bep_UnixData option" where
  "UnixData_toWire u = map_option (\<lambda>u. \<lparr>w_OwnerName = OwnerName u, w_GroupName = GroupName u,
     w_Uid = go_int32 (UID u), w_Gid = go_int32 (GID u)\<rparr>) u"

definition unixDataFromWire :: "bep_UnixData option \<Rightarrow> UnixData option" where
  "unixDataFromWire w = map_option (\<lambda>w. \<lparr>OwnerName = w_OwnerName w, GroupName = w_GroupName w,
     UID = w_Uid w, GID = w_Gid w\<rparr>) w"

definition Xattr_toWire :: "Xattr \<Rightarrow> bep_Xattr" where
  "Xattr_toWire a = \<lparr>wx_Name = xattr_Name a, wx_Value = xattr_Value a\<rparr>"

definition xattrFromWire :: "bep_Xattr \<Rightarrow> Xattr" where
  "xattrFromWire w = \<lparr>xattr_Name = wx_Name w, xattr_Value = wx_Value w\<rparr>"

definition XattrData_toWire :: "XattrData option \<Rightarrow> bep_XattrData option" where
  "XattrData_toWire x = map_option (\<lambda>x. \<lparr>wx_Xattrs = map Xattr_toWire (Xattrs x)\<rparr>) x"

definition xattrDataFromWire :: "bep_XattrData option \<Rightarrow> XattrData option" where
  "xattrDataFromWire w = map_option (\<lambda>w. \<lparr>Xattrs = map xattrFromWire (wx_Xattrs w)\<rparr>) w"

definition PlatformData_toWire :: "PlatformData \<Rightarrow> bep_PlatformData" where
  "PlatformData_toWire p =
     \<lparr>w_Unix = UnixData_toWire (pd_Unix p), w_Windows = pd_Windows p,
      w_Linux = XattrData_toWire (pd_Linux p), w_Darwin = XattrData_toWire (pd_Darwin p),
      w_Freebsd = XattrData_toWire (pd_FreeBSD p), w_Netbsd = XattrData_toWire (pd_NetBSD p)\<rparr>"

definition platformDataFromWire :: "bep_PlatformData option \<Rightarrow> PlatformData" where
  "platformDataFromWire w =
     (case w of
        None \<Rightarrow> PlatformData_zero
      | Some w \<Rightarrow>
          \<lparr>pd_Unix = unixDataFromWire (w_Unix w), pd_Windows = w_Windows w,
           pd_Linux = xattrDataFromWire (w_Linux w), pd_Darwin = xattrDataFromWire (w_Darwin w),
           pd_FreeBSD = xattrDataFromWire (w_Freebsd w), pd_NetBSD = xattrDataFromWire (w_Netbsd w)\<rparr>)"

datatype FileInfoPanic = PanicTruncated

definition FileInfo_ToWire :: "FileInfo \<Rightarrow> bool \<Rightarrow> (FileInfoPanic, bep_FileInfo) result" where
  "FileInfo_ToWire f withInternalFields =
     (if fi_truncated f \<and> \<not> (fi_Deleted f \<or> IsInvalid f \<or> IsIgnored f) then Inl PanicTruncated
      else Inr
       \<lparr>w_Name = fi_Name f, w_Size = fi_Size f, w_ModifiedS = fi_ModifiedS f,
        w_ModifiedBy = fi_ModifiedBy f, w_Version = Some (Vector_ToWire (fi_Version f)),
        w_Sequence = fi_Sequence f, w_Blocks = map BlockInfo_ToWire (fi_Blocks f),
        w_SymlinkTarget = fi_SymlinkTarget f, w_BlocksHash = fi_BlocksHash f,
        w_PreviousBlocksHash = fi_PreviousBlocksHash f, w_Encrypted = fi_Encrypted f,
        w_Type = fi_Type f, w_Permissions = fi_Permissions f, w_ModifiedNs = fi_ModifiedNs f,
        w_BlockSize = fi_RawBlockSize f, w_Platform = Some (PlatformData_toWire (fi_Platform f)),
        w_LocalFlags = (if withInternalFields then fi_LocalFlags f else 0),
        w_EncryptionTrailerSize =
          (if withInternalFields then go_int32 (fi_EncryptionTrailerSize f) else 0),
        w_Deleted = fi_Deleted f, w_Invalid = IsInvalid f,
        w_NoPermissions = fi_NoPermissions f\<rparr>)"

definition fileInfoFromWireWithBlocks :: "bep_FileInfo \<Rightarrow> BlockInfo list \<Rightarrow> FileInfo" where
  "fileInfoFromWireWithBlocks w blocks =
     \<lparr>fi_Name = w_Name w, fi_Size = w_Size w, fi_ModifiedS = w_ModifiedS w,
      fi_ModifiedBy = w_ModifiedBy w, fi_Version = VectorFromWire (w_Version w),
      fi_Sequence = w_Sequence w, fi_Blocks = blocks, fi_SymlinkTarget = w_SymlinkTarget w,
      fi_BlocksHash = w_BlocksHash w, fi_PreviousBlocksHash = w_PreviousBlocksHash w,
      fi_Encrypted = w_Encrypted w, fi_Platform = platformDataFromWire (w_Platform w),
      fi_Type = w_Type w, fi_Permissions = w_Permissions w, fi_ModifiedNs = w_ModifiedNs w,
      fi_RawBlockSize = w_BlockSize w,
      fi_LocalFlags = (if w_Invalid w then FlagLocalRemoteInvalid else 0),
      fi_EncryptionTrailerSize = 0, fi_Deleted = w_Deleted w,
      fi_NoPermissions = w_NoPermissions w, fi_truncated = False\<rparr>"

definition FileInfoFromWire :: "bep_FileInfo \<Rightarrow> FileInfo" where
  "FileInfoFromWire w = fileInfoFromWireWithBlocks w (map BlockInfoFromWire (w_Blocks w))"

definition FileInfoFromDB :: "bep_FileInfo \<Rightarrow> FileInfo" where
  "FileInfoFromDB w =
     (FileInfoFromWire w)
       \<lparr>fi_LocalFlags := w_LocalFlags w, fi_EncryptionTrailerSize := w_EncryptionTrailerSize w\<rparr>"

definition FileInfoFromDBTruncated :: "bep_FileInfo \<Rightarrow> FileInfo" where
  "FileInfoFromDBTruncated w =
     (fileInfoFromWireWithBlocks w [])
       \<lparr>fi_LocalFlags := w_LocalFlags w, fi_EncryptionTrailerSize := w_EncryptionTrailerSize w,
        fi_truncated := True\<rparr>"

section \<open>Block sizes stay in bounds\<close>

lemma BlockSizes_eq:
  "BlockSizes = [131072, 262144, 524288, 1048576, 2097152, 4194304, 8388608, 16777216]"
  by (simp add: BlockSizes_def MinBlockSize_def BlockSizes_from.simps MaxBlockSize_def)

lemma BlockSize_cases:
  "BlockSize n =
     (if n < 262144000 then 131072 else if n < 524288000 then 262144
      else if n < 1048576000 then 524288 else if n < 2097152000 then 1048576
      else if n < 4194304000 then 2097152 else if n < 8388608000 then 4194304
      else if n < 16777216000 then 8388608 else 16777216)"
  by (simp add: BlockSize_def BlockSizes_eq DesiredPerFileBlocks_def)

section \<open>Round trips\<close>

text \<open>The parts of a record that the \<open>int32\<close> fields of the wire form can carry.\<close>

definition UnixData_fits :: "UnixData option \<Rightarrow> bool" where
  "UnixData_fits u = (case u of None \<Rightarrow> True | Some u \<Rightarrow> in_signed 32 (UID u) \<and> in_signed 32 (GID u))"

definition FileInfo_fits :: "FileInfo \<Rightarrow> bool" where
  "FileInfo_fits f \<longleftrightarrow> list_all (\<lambda>b. in_signed 32 (bi_Size b)) (fi_Blocks f)
     \<and> UnixData_fits (pd_Unix (fi_Platform f))"

lemma Vector_wire [wire_simps]: "VectorFromWire (Some (Vector_ToWire v)) = v"
proof -
  have "counterFromWire (Counter_toWire c) = c" for c
    by (simp add: counterFromWire_def Counter_toWire_def)
  then show ?thesis
    by (simp add: VectorFromWire_def Vector_ToWire_def Vector_zero_def comp_def)
qed

lemma BlockInfo_wire [wire_simps]: "in_signed 32 (bi_Size b) \<Longrightarrow> BlockInfoFromWire (BlockInfo_ToWire b) = b"
  by (simp add: BlockInfoFromWire_def BlockInfo_ToWire_def wrap_signed_id)

lemma blocks_wire [wire_simps]:
  "list_all (\<lambda>b. in_signed 32 (bi_Size b)) bs \<Longrightarrow> map (BlockInfoFromWire \<circ> BlockInfo_ToWire) bs = bs"
  by (induction bs) (simp_all add: BlockInfo_wire)

lemma Unix_wire [wire_simps]: "UnixData_fits u \<Longrightarrow> unixDataFromWire (UnixData_toWire u) = u"
  by (cases u) (simp_all add: unixDataFromWire_def UnixData_toWire_def UnixData_fits_def wrap_signed_id)

lemma Xattr_wire [wire_simps]: "xattrDataFromWire (XattrData_toWire x) = x"
proof -
  have "map (xattrFromWire \<circ> Xattr_toWire) xs = xs" for xs
    by (induction xs) (simp_all add: xattrFromWire_def Xattr_toWire_def)
  then show ?thesis by (cases x) (simp_all add: xattrDataFromWire_def XattrData_toWire_def)
qed

lemma PlatformData_wire [wire_simps]:
  "UnixData_fits (pd_Unix p) \<Longrightarrow> platformDataFromWire (Some (PlatformData_toWire p)) = p"
  by (simp add: platformDataFromWire_def PlatformData_toWire_def wire_simps)

section \<open>Facts on equivalence\<close>

lemma ModTimeEqual_near:
  assumes "Time_ok a" and "Time_ok b" and "\<bar>time_nanos a - time_nanos b\<bar> < 2 ^ 63"
  shows "ModTimeEqual a b w \<longleftrightarrow> time_nanos a = time_nanos b \<or> \<bar>time_nanos a - time_nanos b\<bar> < w"
proof -
  have s: "in_signed 64 (time_nanos a - time_nanos b)" "in_signed 64 (time_nanos b - time_nanos a)"
    using assms(3) by (auto simp: in_signed_def)
  have e: "time_Equal a b \<longleftrightarrow> time_nanos a = time_nanos b"
    using assms(1,2) by (rule time_Equal_nanos)
  show ?thesis
    using s e by (auto simp: ModTimeEqual_def time_Sub_def Let_def wrap_signed_id)
qed

lemma ModTimeEqual_refl [simp]: "ModTimeEqual a a w"
  by (simp add: ModTimeEqual_def time_Equal_def)

lemma blocksEqual_loop_refl [simp]: "blocksEqual_loop bs bs"
  by (induction bs) auto

lemma blocksEqual_loop_iff:
  "length as = length bs \<Longrightarrow> blocksEqual_loop as bs \<longleftrightarrow> map bi_Hash as = map bi_Hash bs"
  by (induction as bs rule: blocksEqual_loop.induct) auto

lemma blocksEqual_iff: "blocksEqual as bs \<longleftrightarrow> map bi_Hash as = map bi_Hash bs"
proof (cases "length as = length bs")
  case True
  then show ?thesis by (simp add: blocksEqual_def blocksEqual_loop_iff)
next
  case False
  then show ?thesis using map_eq_imp_length_eq [of bi_Hash as bi_Hash bs] by (auto simp: blocksEqual_def)
qed

lemma xattrsEqual_loop_iff: "length as = length bs \<Longrightarrow> xattrsEqual_loop as bs \<longleftrightarrow> as = bs"
  by (induction as bs rule: xattrsEqual_loop.induct) auto

lemma xattrsEqual_iff: "xattrsEqual a b \<longleftrightarrow> xattr_list a = xattr_list b"
  unfolding xattrsEqual_def Let_def using xattrsEqual_loop_iff by auto

lemma ownership_refl [simp]: "unixOwnershipEqual u u" "windowsOwnershipEqual w w"
  by (auto simp: unixOwnershipEqual_def windowsOwnershipEqual_def split: option.split)

lemma BlocksEqual_refl [simp]: "BlocksEqual f f"
  by (simp add: BlocksEqual_def blocksEqual_iff)

lemma flags_update_simps [simp]:
  "ModTime (f\<lparr>fi_LocalFlags := l\<rparr>) = ModTime f"
  "BlocksEqual (f\<lparr>fi_LocalFlags := l\<rparr>) g = BlocksEqual f g"
  "BlocksEqual f (g\<lparr>fi_LocalFlags := l\<rparr>) = BlocksEqual f g"
  by (simp_all add: ModTime_def BlocksEqual_def)

text \<open>The checks of \<open>isEquivalent\<close> as one conjunction.\<close>

lemma isEquivalent_iff:
  "isEquivalent isWindows f g cmp \<longleftrightarrow>
     \<not> MustRescan f \<and> \<not> MustRescan g \<and>
     fi_Name f = fi_Name g \<and> fi_Type f = fi_Type g \<and> fi_Deleted f = fi_Deleted g \<and>
     (FlagLocal_IsInvalid (fi_LocalFlags f AND NOT (IgnoreFlags cmp)) \<longleftrightarrow>
      FlagLocal_IsInvalid (fi_LocalFlags g AND NOT (IgnoreFlags cmp))) \<and>
     (IgnoreOwnership cmp \<or>
      unixOwnershipEqual (pd_Unix (fi_Platform f)) (pd_Unix (fi_Platform g)) \<and>
      windowsOwnershipEqual (pd_Windows (fi_Platform f)) (pd_Windows (fi_Platform g))) \<and>
     (IgnoreXattrs cmp \<or>
      xattrsEqual (pd_Linux (fi_Platform f)) (pd_Linux (fi_Platform g)) \<and>
      xattrsEqual (pd_Darwin (fi_Platform f)) (pd_Darwin (fi_Platform g)) \<and>
      xattrsEqual (pd_FreeBSD (fi_Platform f)) (pd_FreeBSD (fi_Platform g)) \<and>
      xattrsEqual (pd_NetBSD (fi_Platform f)) (pd_NetBSD (fi_Platform g))) \<and>
     (IgnorePerms cmp \<or> fi_NoPermissions f \<or> fi_NoPermissions g \<or>
      PermsEqual isWindows (fi_Permissions f) (fi_Permissions g)) \<and>
     (case fi_Type f of
        FileInfoTypeFile \<Rightarrow>
          fi_Size f = fi_Size g \<and> ModTimeEqual (ModTime f) (ModTime g) (ModTimeWindow cmp)
          \<and> (IgnoreBlocks cmp \<or> BlocksEqual f g)
      | FileInfoTypeSymlink \<Rightarrow> fi_SymlinkTarget f = fi_SymlinkTarget g
      | FileInfoTypeDirectory \<Rightarrow> True
      | _ \<Rightarrow> False)"
  unfolding isEquivalent_def Let_def IsInvalid_def
  by (cases "fi_Platform f = fi_Platform g")
    (simp_all add: xattrsEqual_iff cong: FileInfoType.case_cong, blast+)

lemma WinsConflict_asym: "WinsConflict f g \<Longrightarrow> \<not> WinsConflict g f"
  using vo.cmp_flip [of "fi_Version f" "fi_Version g"]
  by (auto simp: WinsConflict_def time_After_Before dest: time_Before_asym split: if_splits)

section \<open>Properties\<close>

text \<open>C33. Of two records with concurrent versions exactly one wins the conflict, whatever their
  flags and modification times are, so every device keeps the same one.\<close>

theorem WinsConflict_decides:
  assumes "Concurrent (fi_Version f) (fi_Version g)"
  shows "WinsConflict f g \<longleftrightarrow> \<not> WinsConflict g f"
proof -
  have "WinsConflict g f" if "\<not> WinsConflict f g"
    using that assms vo.cmp_flip [of "fi_Version f" "fi_Version g"]
    by (auto simp: WinsConflict_def Concurrent_def Let_def time_After_Before
        dest: time_Before_asym split: if_splits)
  then show ?thesis using WinsConflict_asym by blast
qed

definition example_file :: FileInfo where
  "example_file =
     \<lparr>fi_Name = ''a'', fi_Size = 5, fi_ModifiedS = 1000, fi_ModifiedBy = 1, fi_Version = example_a,
      fi_Sequence = 1, fi_Blocks = [\<lparr>bi_Hash = [7], bi_Offset = 0, bi_Size = 5\<rparr>],
      fi_SymlinkTarget = [], fi_BlocksHash = [9], fi_PreviousBlocksHash = [], fi_Encrypted = [],
      fi_Platform = PlatformData_zero, fi_Type = FileInfoTypeFile, fi_Permissions = 420,
      fi_ModifiedNs = 0, fi_RawBlockSize = 0, fi_LocalFlags = 0, fi_EncryptionTrailerSize = 0,
      fi_Deleted = False, fi_NoPermissions = False, fi_truncated = False\<rparr>"

theorem WinsConflict_decides_witness:
  "Concurrent example_a example_b \<and>
   (WinsConflict example_file (example_file\<lparr>fi_Version := example_b\<rparr>) \<longleftrightarrow>
    \<not> WinsConflict (example_file\<lparr>fi_Version := example_b\<rparr>) example_file)"
proof -
  have c: "Concurrent example_a example_b"
    by (simp add: Concurrent_def Compare_def Compare_loop.simps Compare_switch_def example_a_def
        example_b_def)
  then have "Concurrent (fi_Version example_file) (fi_Version (example_file\<lparr>fi_Version := example_b\<rparr>))"
    by (simp add: example_file_def)
  from WinsConflict_decides [OF this] c show ?thesis by simp
qed

text \<open>C34. A record whose version was made by \<open>Update\<close> from the version of the previous record is
  never in conflict with it; a record that is concurrent is in conflict unless it was
  built on the contents we hold.\<close>

theorem InConflictWith_versions:
  assumes "Vector_invar (fi_Version g)" and "Vector_Counter (fi_Version g) i \<noteq> - 1"
  shows "(fi_Version f = Vector_Update (fi_Version g) i now \<longrightarrow> \<not> InConflictWith f g) \<and>
    (Concurrent (fi_Version h) (fi_Version g) \<longrightarrow>
      (InConflictWith h g \<longleftrightarrow>
        fi_PreviousBlocksHash h = [] \<or> fi_BlocksHash h = [] \<or>
        fi_PreviousBlocksHash h \<noteq> fi_BlocksHash g))"
proof (intro conjI impI)
  assume f: "fi_Version f = Vector_Update (fi_Version g) i now"
  have inv: "Vector_invar (Vector_Update (fi_Version g) i now)"
    using assms(1) by (rule Vector_invar_Update)
  have "Vector_Counter (fi_Version g) j \<le> Vector_Counter (Vector_Update (fi_Version g) i now) j" for j
    using less_imp_le [OF word_not_max_inc [OF assms(2)]]
    by (auto simp: Vector_Update_def updateWithNow_Counter [OF assms(1)] le_max_iff_disj)
  then have "GreaterEqual (fi_Version f) (fi_Version g)"
    unfolding f GreaterEqual_def using vo.cmp_ge [OF inv assms(1)] by (auto simp: Let_def)
  then show "\<not> InConflictWith f g" by (simp add: InConflictWith_def)
next
  assume "Concurrent (fi_Version h) (fi_Version g)"
  then show "InConflictWith h g \<longleftrightarrow>
        fi_PreviousBlocksHash h = [] \<or> fi_BlocksHash h = [] \<or>
        fi_PreviousBlocksHash h \<noteq> fi_BlocksHash g"
    by (auto simp: InConflictWith_def GreaterEqual_def Concurrent_def Let_def)
qed

theorem InConflictWith_versions_witness:
  "\<not> InConflictWith (example_file\<lparr>fi_Version := Vector_Update example_a 3 7\<rparr>) example_file"
proof -
  have "Vector_invar (fi_Version example_file)" "Vector_Counter (fi_Version example_file) 3 \<noteq> - 1"
    using example_invar by (simp_all add: example_file_def Vector_Counter_def example_a_def)
  from InConflictWith_versions [OF this, of "example_file\<lparr>fi_Version := Vector_Update example_a 3 7\<rparr>" 7]
  show ?thesis by (simp add: example_file_def)
qed

text \<open>\<open>isEquivalent\<close> holds of a record and itself, for the three item types in use and unless
  it must be rescanned, and relaxing the comparison (ignoring more, or a wider
  modification time window) keeps equivalent records equivalent.\<close>

theorem isEquivalent_refl_mono:
  assumes "\<not> MustRescan f"
    and "fi_Type f \<in> {FileInfoTypeFile, FileInfoTypeSymlink, FileInfoTypeDirectory}"
    and "isEquivalent isWindows g h c" and "ModTimeWindow c \<le> ModTimeWindow c'"
    and "IgnoreFlags c' = IgnoreFlags c"
    and "IgnorePerms c \<longrightarrow> IgnorePerms c'" and "IgnoreBlocks c \<longrightarrow> IgnoreBlocks c'"
    and "IgnoreOwnership c \<longrightarrow> IgnoreOwnership c'" and "IgnoreXattrs c \<longrightarrow> IgnoreXattrs c'"
  shows "isEquivalent isWindows f f c \<and> isEquivalent isWindows g h c'"
proof
  show "isEquivalent isWindows f f c"
    using assms(1,2) unfolding isEquivalent_iff by (auto simp: xattrsEqual_iff PermsEqual_def)
  have "ModTimeEqual a b (ModTimeWindow c')" if "ModTimeEqual a b (ModTimeWindow c)" for a b
    using that assms(4) by (auto simp: ModTimeEqual_def Let_def split: if_splits)
  with assms(3,5-) show "isEquivalent isWindows g h c'"
    unfolding isEquivalent_iff by (auto split: FileInfoType.splits)
qed

theorem isEquivalent_refl_mono_witness:
  "isEquivalent False example_file (example_file\<lparr>fi_Permissions := 7\<rparr>)
     \<lparr>ModTimeWindow = 3, IgnorePerms = True, IgnoreBlocks = True, IgnoreFlags = 0,
      IgnoreOwnership = False, IgnoreXattrs = True\<rparr>"
proof -
  let ?c = "\<lparr>ModTimeWindow = 0, IgnorePerms = True, IgnoreBlocks = False, IgnoreFlags = 0,
      IgnoreOwnership = False, IgnoreXattrs = False\<rparr>"
  have "isEquivalent False example_file (example_file\<lparr>fi_Permissions := 7\<rparr>) ?c"
    unfolding isEquivalent_iff
    by (simp add: example_file_def MustRescan_def xattrsEqual_iff ModTime_def BlocksEqual_def)
  from isEquivalent_refl_mono [of example_file, OF _ _ this] show ?thesis
    by (simp add: example_file_def MustRescan_def)
qed

text \<open>Two modification times less than 2^63 nanoseconds (about 292 years) apart compare
  equal exactly when they are equal or closer than the window, in either order.\<close>

theorem ModTimeEqual_window:
  assumes "\<bar>time_nanos (ModTime f) - time_nanos (ModTime g)\<bar> < 2 ^ 63"
  shows "(ModTimeEqual (ModTime f) (ModTime g) w \<longleftrightarrow>
      time_nanos (ModTime f) = time_nanos (ModTime g) \<or>
      \<bar>time_nanos (ModTime f) - time_nanos (ModTime g)\<bar> < w) \<and>
    (ModTimeEqual (ModTime g) (ModTime f) w \<longleftrightarrow> ModTimeEqual (ModTime f) (ModTime g) w)"
proof -
  have ok: "Time_ok (ModTime f)" "Time_ok (ModTime g)" by (simp_all add: ModTime_def)
  have sym: "\<bar>time_nanos (ModTime g) - time_nanos (ModTime f)\<bar> =
      \<bar>time_nanos (ModTime f) - time_nanos (ModTime g)\<bar>"
    by (rule abs_minus_commute)
  note near = ModTimeEqual_near [OF ok assms] ModTimeEqual_near [OF ok(2,1), unfolded sym, OF assms]
  show ?thesis unfolding near by auto
qed

theorem ModTimeEqual_window_witness:
  "\<bar>time_nanos (ModTime example_file) - time_nanos (ModTime (example_file\<lparr>fi_ModifiedNs := 5\<rparr>))\<bar> < 2 ^ 63
   \<and> ModTimeEqual (ModTime example_file) (ModTime (example_file\<lparr>fi_ModifiedNs := 5\<rparr>)) 6"
proof -
  have d: "time_nanos (ModTime example_file) - time_nanos (ModTime (example_file\<lparr>fi_ModifiedNs := 5\<rparr>)) = - 5"
    by (simp add: ModTime_def example_file_def time_nanos_def time_Unix_def wrap_signed_def
        unixToInternal_def)
  have "\<bar>time_nanos (ModTime example_file) - time_nanos (ModTime (example_file\<lparr>fi_ModifiedNs := 5\<rparr>))\<bar> < 2 ^ 63"
    unfolding d by simp
  from ModTimeEqual_window [OF this, of 6] this show ?thesis unfolding d by simp
qed

text \<open>Beyond that distance the comparison depends on the order of its arguments: a record
  dated 1601 is reported to have the same modification time as one dated 2024 even for a
  window of zero, but not the other way round.\<close>

theorem ModTimeEqual_far_apart:
  "\<exists>f g. fi_ModifiedS f = - 11644473600 \<and> fi_ModifiedS g = 1704067200 \<and>
     ModTimeEqual (ModTime f) (ModTime g) 0 \<and> \<not> ModTimeEqual (ModTime g) (ModTime f) 0"
proof (intro exI conjI)
  let ?f = "example_file\<lparr>fi_ModifiedS := - 11644473600\<rparr>"
  let ?g = "example_file\<lparr>fi_ModifiedS := 1704067200\<rparr>"
  show "fi_ModifiedS ?f = - 11644473600" and "fi_ModifiedS ?g = 1704067200" by simp_all
  show "ModTimeEqual (ModTime ?f) (ModTime ?g) 0" and "\<not> ModTimeEqual (ModTime ?g) (ModTime ?f) 0"
    by (simp_all add: ModTimeEqual_def ModTime_def time_Unix_def example_file_def time_Equal_def
        time_Sub_def time_nanos_def in_signed_def time_Before_def wrap_signed_def unixToInternal_def
        minDuration_def maxDuration_def Let_def)
qed

text \<open>The block size chosen for a file is one of the valid sizes; the file has at most 2000
  blocks unless the size is the largest, and more than 999 unless it is the smallest.\<close>

theorem BlockSize_bounds:
  "BlockSize n \<in> set BlockSizes \<and>
   (n \<le> DesiredPerFileBlocks * BlockSize n \<or> BlockSize n = MaxBlockSize) \<and>
   (1000 * BlockSize n \<le> n \<or> BlockSize n = MinBlockSize)"
  unfolding BlockSize_cases
  by (simp add: BlockSizes_eq MaxBlockSize_def MinBlockSize_def DesiredPerFileBlocks_def)

text \<open>C31. Storing a complete record in the database form and loading it gives the record back,
  for block sizes and owner ids that fit the 32-bit fields; sent to a peer it arrives
  with all fields but the local ones, which are reduced to the invalid bit.\<close>

theorem FileInfo_wire_roundtrip:
  assumes "\<not> fi_truncated f" and "FileInfo_fits f" and "in_signed 32 (fi_EncryptionTrailerSize f)"
  shows "(\<exists>w. FileInfo_ToWire f True = Inr w \<and> FileInfoFromDB w = f) \<and>
    (\<exists>w. FileInfo_ToWire f False = Inr w \<and>
      FileInfoFromWire w =
        f\<lparr>fi_LocalFlags := (if IsInvalid f then FlagLocalRemoteInvalid else 0),
          fi_EncryptionTrailerSize := 0\<rparr>)"
  using assms
  by (simp add: FileInfo_ToWire_def FileInfoFromDB_def FileInfoFromWire_def
      fileInfoFromWireWithBlocks_def FileInfo_fits_def wire_simps wrap_signed_id)

theorem FileInfo_wire_roundtrip_witness:
  "\<exists>w. FileInfo_ToWire example_file True = Inr w \<and> FileInfoFromDB w = example_file"
proof -
  have "\<not> fi_truncated example_file" "FileInfo_fits example_file"
    "in_signed 32 (fi_EncryptionTrailerSize example_file)"
    by (simp_all add: example_file_def FileInfo_fits_def UnixData_fits_def in_signed_def
        PlatformData_zero_def)
  from FileInfo_wire_roundtrip [OF this] show ?thesis by blast
qed

end
