(* ===== verification/ScanBlocks.thy ===== *)
theory ScanBlocks
  imports FileInfo
begin

text \<open>
  Blockwise hashing of files: \<open>Blocks\<close> and \<open>Validate\<close> (\<open>lib/scanner/blocks.go\<close>), \<open>HashFile\<close> and the
  work of one hasher (\<open>lib/scanner/blockqueue.go\<close>). The hash function is a parameter. What a file
  delivers when it is read is the bytes up to the end or to an error of the reader.
\<close>

section \<open>Blocks\<close>

definition SHA256OfNothing :: bytes where
  "SHA256OfNothing = [227, 176, 196, 66, 152, 252, 28, 20, 154, 251, 244, 200, 153, 111, 185, 36,
     39, 174, 65, 228, 100, 155, 147, 76, 164, 149, 153, 27, 120, 82, 184, 85]"

text \<open>
  The loop, with the bytes not yet read. \<open>io.CopyBuffer\<close> takes at most \<open>blocksize\<close> bytes; it meets
  the end of the reader, and so its error, only when it got fewer. \<open>cancelled n\<close> says whether
  the context is done before the block \<open>n\<close>.
\<close>

function blocks_loop ::
  "(bytes \<Rightarrow> bytes) \<Rightarrow> (nat \<Rightarrow> string option) \<Rightarrow> string option \<Rightarrow> nat \<Rightarrow> nat \<Rightarrow> int \<Rightarrow> bytes \<Rightarrow> (string, BlockInfo list) result" where
  "blocks_loop sha256 cancelled readErr blocksize n offset rest =
     (case cancelled n of
        Some e \<Rightarrow> Inl e
      | None \<Rightarrow>
          (let chunk = take blocksize rest in
           if length chunk < blocksize \<and> readErr \<noteq> None then Inl (the readErr)
           else if chunk = [] then Inr []
           else
             (case blocks_loop sha256 cancelled readErr blocksize (n + 1) (offset + int (length chunk)) (drop blocksize rest) of
                Inl e \<Rightarrow> Inl e
              | Inr bs \<Rightarrow> Inr (\<lparr>bi_Hash = sha256 chunk, bi_Offset = offset, bi_Size = int (length chunk)\<rparr> # bs))))"
  by pat_completeness auto
termination
  by (relation "measure (\<lambda>(_, _, _, _, _, _, rest). length rest)") auto

declare blocks_loop.simps [simp del]

text \<open>The reader is limited to \<open>sizehint\<close> bytes when that is not negative; the limit hides an error after them.\<close>

definition Blocks ::
  "(bytes \<Rightarrow> bytes) \<Rightarrow> (nat \<Rightarrow> string option) \<Rightarrow> bytes \<Rightarrow> string option \<Rightarrow> int \<Rightarrow> int \<Rightarrow> (string, BlockInfo list) result" where
  "Blocks sha256 cancelled content readErr blocksize sizehint =
     (let limited = (sizehint \<ge> 0 \<and> nat sizehint \<le> length content);
          rest = (if sizehint \<ge> 0 then take (nat sizehint) content else content);
          err = (if limited then None else readErr)
      in case blocks_loop sha256 cancelled err (nat blocksize) 0 0 rest of
           Inl e \<Rightarrow> Inl e
         | Inr [] \<Rightarrow> Inr [\<lparr>bi_Hash = SHA256OfNothing, bi_Offset = 0, bi_Size = 0\<rparr>]
         | Inr bs \<Rightarrow> Inr bs)"

definition Validate :: "(bytes \<Rightarrow> bytes) \<Rightarrow> bytes \<Rightarrow> bytes \<Rightarrow> bool" where
  "Validate sha256 buf hash = (if length hash > 0 then sha256 buf = hash else True)"

section \<open>Files\<close>

text \<open>What the calls of \<open>HashFile\<close> return: the size and the time of modification before and after.\<close>

record hash_access =
  ha_Open :: "string option"
  ha_StatBefore :: "(string, int \<times> Time) result"
  ha_readErr :: "string option"
  ha_cancelled :: "nat \<Rightarrow> string option"
  ha_StatAfter :: "(string, int \<times> Time) result"

definition HashFile :: "(bytes \<Rightarrow> bytes) \<Rightarrow> hash_access \<Rightarrow> bytes \<Rightarrow> int \<Rightarrow> (string, BlockInfo list) result" where
  "HashFile sha256 ha content blockSize =
     (case ha_Open ha of
        Some e \<Rightarrow> Inl e
      | None \<Rightarrow>
        (case ha_StatBefore ha of
           Inl e \<Rightarrow> Inl e
         | Inr (size1, modTime) \<Rightarrow>
           (case Blocks sha256 (ha_cancelled ha) content (ha_readErr ha) blockSize size1 of
              Inl e \<Rightarrow> Inl e
            | Inr blocks \<Rightarrow>
              (case ha_StatAfter ha of
                 Inl e \<Rightarrow> Inl e
               | Inr (size2, modTime2) \<Rightarrow>
                   if size1 \<noteq> size2 \<or> \<not> time_Equal modTime modTime2 then Inl ''file changed during hashing''
                   else Inr blocks))))"

text \<open>One file taken from the inbox of the hasher: \<open>None\<close> is the panic, \<open>Inl\<close> the error handed on.\<close>

definition hashFiles :: "(bytes \<Rightarrow> bytes) \<Rightarrow> hash_access \<Rightarrow> bytes \<Rightarrow> FileInfo \<Rightarrow> (string, FileInfo) result option" where
  "hashFiles sha256 ha content f =
     (if IsDirectory f \<or> fi_Deleted f then None
      else
        (case HashFile sha256 ha content (FileInfo_BlockSize f) of
           Inl e \<Rightarrow> Some (Inl e)
         | Inr blocks \<Rightarrow>
             Some (Inr (f\<lparr>fi_Blocks := blocks, fi_BlocksHash := BlocksHash sha256 blocks,
                          fi_Size := sum_list (map bi_Size blocks)\<rparr>))))"

section \<open>What the blocks say about the content\<close>

text \<open>Block \<open>i\<close> of some content, from offset \<open>off\<close> on.\<close>

definition chunk_at :: "nat \<Rightarrow> bytes \<Rightarrow> nat \<Rightarrow> bytes" where
  "chunk_at blocksize content i = take blocksize (drop (i * blocksize) content)"

definition block_at :: "(bytes \<Rightarrow> bytes) \<Rightarrow> nat \<Rightarrow> int \<Rightarrow> bytes \<Rightarrow> nat \<Rightarrow> BlockInfo" where
  "block_at sha256 blocksize off content i =
     \<lparr>bi_Hash = sha256 (chunk_at blocksize content i), bi_Offset = off + int (i * blocksize),
      bi_Size = int (length (chunk_at blocksize content i))\<rparr>"

text \<open>A collision of the hash at the same block of two contents.\<close>

definition collision :: "(bytes \<Rightarrow> bytes) \<Rightarrow> int \<Rightarrow> bytes \<Rightarrow> bytes \<Rightarrow> bool" where
  "collision sha256 blocksize a b \<longleftrightarrow>
     (\<exists>i. chunk_at (nat blocksize) a i \<noteq> chunk_at (nat blocksize) b i \<and>
       sha256 (chunk_at (nat blocksize) a i) = sha256 (chunk_at (nat blocksize) b i))"

lemma chunk_at_Suc: "chunk_at k (drop k content) i = chunk_at k content (Suc i)"
  by (simp add: chunk_at_def add.commute)

text \<open>The number of blocks, and which indexes are below it.\<close>

definition block_num :: "nat \<Rightarrow> bytes \<Rightarrow> nat" where
  "block_num k content = (length content + k - 1) div k"

lemma less_block_num: "0 < k \<Longrightarrow> i < block_num k content \<longleftrightarrow> i * k < length content"
  unfolding block_num_def by (subst Suc_le_eq [symmetric]) (auto simp: less_eq_div_iff_mult_less_eq)

lemma block_num_Nil [simp]: "0 < k \<Longrightarrow> block_num k [] = 0"
  using less_block_num [of k 0 "[]"] by simp

lemma block_count:
  assumes "content \<noteq> []" and "0 < k"
  shows "block_num k content = Suc (block_num k (drop k content))"
proof -
  have "i < block_num k content \<longleftrightarrow> i < Suc (block_num k (drop k content))" for i
    using assms by (cases i) (auto simp: less_block_num)
  then show ?thesis by (meson linorder_neqE_nat order_less_irrefl)
qed

lemma map_upt_Suc: "map f [0..<Suc n] = f 0 # map (\<lambda>i. f (Suc i)) [0..<n]"
  by (simp add: upt_conv_Cons map_Suc_upt [symmetric] o_def del: upt_Suc map_Suc_upt)

lemma take_of_take: "take (length (take n xs)) xs = take n xs"
  by (simp add: min_def)

lemma blocks_loop_spec:
  assumes "blocks_loop sha256 cancelled err k n off rest = Inr bs" and "0 < k"
  shows "bs = map (block_at sha256 k off rest) [0..<block_num k rest]"
  using assms
proof (induction sha256 cancelled err k n off rest arbitrary: bs rule: blocks_loop.induct)
  case (1 sha256 cancelled err k n off rest)
  have c: "cancelled n = None" and e: "\<not> (length (take k rest) < k \<and> err \<noteq> None)"
    using "1.prems" by (subst (asm) blocks_loop.simps; auto simp: Let_def split: option.splits if_splits)+
  show ?case
  proof (cases "rest = []")
    case True
    then show ?thesis using "1.prems" c e by (subst (asm) blocks_loop.simps) auto
  next
    case False
    then have ne: "take k rest \<noteq> []" using \<open>0 < k\<close> by simp
    obtain bs' where l: "blocks_loop sha256 cancelled err k (n + 1) (off + int (length (take k rest))) (drop k rest) = Inr bs'"
      and bs: "bs = \<lparr>bi_Hash = sha256 (take k rest), bi_Offset = off, bi_Size = int (length (take k rest))\<rparr> # bs'"
      using "1.prems" c e ne by (subst (asm) blocks_loop.simps) (auto simp: Let_def split: sum.splits)
    have bs': "bs' = map (block_at sha256 k (off + int (length (take k rest))) (drop k rest)) [0..<block_num k (drop k rest)]"
      using "1.IH" [OF c refl _ ne l \<open>0 < k\<close>] e by blast
    have "bs' = map (\<lambda>i. block_at sha256 k off rest (Suc i)) [0..<block_num k (drop k rest)]"
    proof (cases "length rest \<le> k")
      case True
      then show ?thesis using bs' \<open>0 < k\<close> by simp
    next
      case False
      then show ?thesis unfolding bs' by (simp add: block_at_def chunk_at_Suc)
    qed
    then show ?thesis unfolding bs block_count [OF False \<open>0 < k\<close>] map_upt_Suc
      by (simp add: block_at_def [of _ _ _ _ 0] chunk_at_def [of _ _ 0])
  qed
qed

lemma chunks_cover:
  assumes "0 < k"
  shows "concat (map (chunk_at k content) [0..<block_num k content]) = content"
  using assms
proof (induction "length content" arbitrary: content rule: less_induct)
  case less
  show ?case
  proof (cases "content = []")
    case True
    then show ?thesis using \<open>0 < k\<close> by simp
  next
    case False
    have "concat (map (chunk_at k (drop k content)) [0..<block_num k (drop k content)]) = drop k content"
      using less.hyps [of "drop k content"] less.prems False by simp
    then show ?thesis unfolding block_count [OF False \<open>0 < k\<close>] map_upt_Suc
      by (simp add: ext [where f = "chunk_at k (drop k content)", OF chunk_at_Suc] chunk_at_def [of _ _ 0])
  qed
qed

lemma blocks_sizes:
  assumes "0 < k"
  shows "sum_list (map (\<lambda>i. bi_Size (block_at sha256 k off content i)) [0..<block_num k content]) = int (length content)"
proof -
  let ?is = "[0..<block_num k content]"
  have "int (length (concat (map (chunk_at k content) ?is))) = sum_list (map (\<lambda>i. int (length (chunk_at k content i))) ?is)"
    by (simp add: length_concat o_def sum_list_of_nat [symmetric] del: sum_list_of_nat)
  then show ?thesis by (simp add: chunks_cover [OF assms] block_at_def o_def)
qed

text \<open>The reader got to the end of the content when it was not limited, or limited to its length.\<close>

definition whole :: "bytes \<Rightarrow> int \<Rightarrow> bool" where
  "whole content sizehint \<longleftrightarrow> sizehint < 0 \<or> int (length content) \<le> sizehint"

lemma Blocks_spec:
  assumes "Blocks sha256 cancelled content err blocksize sizehint = Inr bs" and "whole content sizehint" and "0 < blocksize"
  shows "bs = (if content = [] then [\<lparr>bi_Hash = SHA256OfNothing, bi_Offset = 0, bi_Size = 0\<rparr>]
    else map (block_at sha256 (nat blocksize) 0 content) [0..<block_num (nat blocksize) content])"
proof -
  have r: "(if sizehint \<ge> 0 then take (nat sizehint) content else content) = content"
    using assms(2) by (auto simp: whole_def)
  have pos: "0 < nat blocksize" using assms(3) by simp
  obtain bs' e where l: "blocks_loop sha256 cancelled e (nat blocksize) 0 0 content = Inr bs'"
    and bs: "bs = (case bs' of [] \<Rightarrow> [\<lparr>bi_Hash = SHA256OfNothing, bi_Offset = 0, bi_Size = 0\<rparr>] | _ \<Rightarrow> bs')"
    using assms(1) unfolding Blocks_def Let_def r by (auto split: sum.splits list.splits)
  note s = blocks_loop_spec [OF l pos]
  show ?thesis
  proof (cases "content = []")
    case True
    then show ?thesis using s pos by (simp add: bs)
  next
    case False
    then show ?thesis using s by (simp add: bs block_count [OF False pos] del: upt_Suc split: list.splits) 
  qed
qed

lemma chunks_equal:
  assumes "map (block_at sha256 (nat k) 0 a) [0..<n] = map (block_at sha256 (nat k) 0 b) [0..<n]"
    and "\<not> collision sha256 k a b"
  shows "map (chunk_at (nat k) a) [0..<n] = map (chunk_at (nat k) b) [0..<n]"
proof (rule map_cong [OF refl])
  fix i assume "i \<in> set [0..<n]"
  then have "block_at sha256 (nat k) 0 a i = block_at sha256 (nat k) 0 b i" using assms(1) by (simp add: map_eq_conv)
  then show "chunk_at (nat k) a i = chunk_at (nat k) b i" using assms(2) by (auto simp: block_at_def collision_def)
qed

section \<open>Properties\<close>

text \<open>C39. The block list of a file describes its content: the blocks lie one after the other from
  offset 0, their sizes add up to the length, all but the last have the block size, and each
  has the hash of the bytes it covers (an empty file has one empty block). Two files with the same
  list of blocks have the same content, unless a block of one and the same block of the other are
  different and have the same hash.\<close>

theorem Blocks_describe_content:
  assumes "Blocks sha256 c1 a e1 blocksize s1 = Inr bs" and "whole a s1" and "0 < blocksize"
  shows "sum_list (map bi_Size bs) = int (length a) \<and>
    (\<forall>i<length bs. bi_Offset (bs ! i) = int i * blocksize \<and> 0 \<le> bi_Size (bs ! i) \<and> bi_Size (bs ! i) \<le> blocksize \<and>
       (i + 1 < length bs \<longrightarrow> bi_Size (bs ! i) = blocksize) \<and>
       (a \<noteq> [] \<longrightarrow> bi_Hash (bs ! i) = sha256 (take (nat (bi_Size (bs ! i))) (drop (nat (bi_Offset (bs ! i))) a)))) \<and>
    (\<forall>c2 b e2 s2. Blocks sha256 c2 b e2 blocksize s2 = Inr bs \<and> whole b s2 \<longrightarrow>
       a = b \<or> collision sha256 blocksize a b)"
proof (cases "a = []")
  case True
  have bs: "bs = [\<lparr>bi_Hash = SHA256OfNothing, bi_Offset = 0, bi_Size = 0\<rparr>]"
    using Blocks_spec [OF assms] True by simp
  have "b = []" if "Blocks sha256 c2 b e2 blocksize s2 = Inr bs" "whole b s2" for c2 b e2 s2
  proof (rule ccontr)
    assume ne: "b \<noteq> []"
    have "bs ! 0 = block_at sha256 (nat blocksize) 0 b 0"
      using Blocks_spec [OF that assms(3)] ne block_count [OF ne, of "nat blocksize"] assms(3) by (simp add: map_upt_Suc del: upt_Suc)
    then show False using ne assms(3) by (auto simp: bs block_at_def chunk_at_def min_def split: if_splits)
  qed
  then show ?thesis using True assms(3) by (auto simp: bs)
next
  case False
  let ?k = "nat blocksize"
  have pos: "0 < ?k" using assms(3) by simp
  note bs = Blocks_spec [OF assms, unfolded if_not_P [OF False]]
  have nth: "bs ! i = block_at sha256 ?k 0 a i" if "i < length bs" for i using that by (simp add: bs)
  have len: "length bs = block_num ?k a" by (simp add: bs)
  have sizes: "length (chunk_at ?k a i) = ?k" if "i + 1 < length bs" for i
    using that less_block_num [OF pos, of "i + 1" a] len by (auto simp: chunk_at_def algebra_simps)
  have hashes: "bi_Hash (bs ! i) = sha256 (take (nat (bi_Size (bs ! i))) (drop (nat (bi_Offset (bs ! i))) a))"
    if "i < length bs" for i
    using take_of_take [of ?k "drop (i * ?k) a"] assms(3)
    by (simp add: nth [OF that] block_at_def chunk_at_def nat_mult_distrib del: length_take length_drop)
  have same: "a = b" if b: "Blocks sha256 c2 b e2 blocksize s2 = Inr bs" "whole b s2"
    and inj: "\<not> collision sha256 blocksize a b" for c2 b e2 s2
  proof (cases "b = []")
    case True
    have "bs ! 0 = block_at sha256 ?k 0 a 0" using block_count [OF False pos] nth len by simp
    then show ?thesis using Blocks_spec [OF b assms(3)] True False pos
      by (auto simp: block_at_def chunk_at_def min_def split: if_splits)
  next
    case ne: False
    note bs2 = Blocks_spec [OF b assms(3), unfolded if_not_P [OF ne]]
    then have n: "block_num ?k b = block_num ?k a" using len by simp
    have "map (chunk_at ?k a) [0..<block_num ?k a] = map (chunk_at ?k b) [0..<block_num ?k b]"
      unfolding n by (rule chunks_equal [OF _ inj]) (use bs bs2 n in simp)
    then show ?thesis by (metis chunks_cover [OF pos])
  qed
  have "bi_Offset (bs ! i) = int i * blocksize \<and> 0 \<le> bi_Size (bs ! i) \<and> bi_Size (bs ! i) \<le> blocksize \<and>
      (i + 1 < length bs \<longrightarrow> bi_Size (bs ! i) = blocksize)" if "i < length bs" for i
    using nth [OF that] sizes [of i] assms(3) by (auto simp: block_at_def chunk_at_def)
  moreover have "sum_list (map bi_Size bs) = int (length a)"
    using blocks_sizes [OF pos, of sha256 0 a] by (simp add: bs o_def)
  ultimately show ?thesis using hashes same by blast
qed

theorem Blocks_describe_content_witness:
  "\<exists>bs. Blocks (\<lambda>x. x) (\<lambda>_. None) [1, 2, 3] None 2 (-1) = Inr bs \<and> length bs = 2 \<and> sum_list (map bi_Size bs) = 3 \<and>
     (\<forall>b. Blocks (\<lambda>x. x) (\<lambda>_. None) b None 2 (-1) = Inr bs \<longrightarrow> [1, 2, 3] = b)"
proof -
  obtain bs where r: "Blocks (\<lambda>x. x) (\<lambda>_. None) [1, 2, 3] None 2 (-1) = Inr bs" and l: "length bs = 2"
    by (simp add: Blocks_def blocks_loop.simps)
  have w: "whole b (-1)" for b by (simp add: whole_def)
  note c = Blocks_describe_content [OF r w, simplified]
  have "sum_list (map bi_Size bs) = 3" using c by simp
  moreover have "[1, 2, 3] = b" if "Blocks (\<lambda>x. x) (\<lambda>_. None) b None 2 (-1) = Inr bs" for b
  proof -
    have "\<not> collision (\<lambda>x. x) 2 [1, 2, 3] b" by (simp add: collision_def)
    then show ?thesis using c that w by blast
  qed
  ultimately show ?thesis using r l by blast
qed

end
