(* ===== verification/GoPath.thy ===== *)
theory GoPath
  imports GoStd
begin

text \<open>
  Package \<open>path/filepath\<close> on systems with \<open>/\<close> as separator: \<open>Clean\<close>, \<open>Dir\<close> and \<open>Base\<close> as the
  sources use them on slash separated names.
\<close>

definition is_rooted :: "string \<Rightarrow> bool" where
  "is_rooted s = (s \<noteq> [] \<and> hd s = CHR ''/'')"

text \<open>One element of a path: empty ones and \<open>.\<close> are dropped, \<open>..\<close> removes its predecessor.\<close>

definition clean_step :: "bool \<Rightarrow> string list \<Rightarrow> string \<Rightarrow> string list" where
  "clean_step rooted out c =
     (if c = [] \<or> c = ''.'' then out
      else if c = ''..'' then
        (if out \<noteq> [] \<and> last out \<noteq> ''..'' then butlast out else if rooted then out else out @ [c])
      else out @ [c])"

definition filepath_Clean :: "string \<Rightarrow> string" where
  "filepath_Clean s =
     (let out = foldl (clean_step (is_rooted s)) [] (go_split (CHR ''/'') s) in
      if is_rooted s then CHR ''/'' # go_join ''/'' out
      else if out = [] then ''.'' else go_join ''/'' out)"

text \<open>The parts of a name before and after the last separator; the first includes it.\<close>

definition path_split :: "string \<Rightarrow> string \<times> string" where
  "path_split s =
     (let r = rev s in
      (rev (dropWhile (\<lambda>c. c \<noteq> CHR ''/'') r), rev (takeWhile (\<lambda>c. c \<noteq> CHR ''/'') r)))"

definition filepath_Dir :: "string \<Rightarrow> string" where
  "filepath_Dir s = filepath_Clean (fst (path_split s))"

definition filepath_Base :: "string \<Rightarrow> string" where
  "filepath_Base s =
     (if s = [] then ''.''
      else
        let t = rev (dropWhile (\<lambda>c. c = CHR ''/'') (rev s)) in
        if t = [] then ''/'' else snd (path_split t))"

lemma path_split_append: "fst (path_split s) @ snd (path_split s) = s"
  unfolding path_split_def Let_def
  by (simp flip: rev_append)

lemma while_no_slash:
  assumes "CHR ''/'' \<notin> set b"
  shows "takeWhile (\<lambda>c. c \<noteq> CHR ''/'') (rev b @ ys) = rev b @ takeWhile (\<lambda>c. c \<noteq> CHR ''/'') ys"
    and "dropWhile (\<lambda>c. c \<noteq> CHR ''/'') (rev b @ ys) = dropWhile (\<lambda>c. c \<noteq> CHR ''/'') ys"
  by (rule takeWhile_append2 dropWhile_append2, use assms in auto)+

lemma path_split_file: "CHR ''/'' \<notin> set b \<Longrightarrow> path_split (d @ CHR ''/'' # b) = (d @ ''/'', b)"
  by (simp add: path_split_def Let_def while_no_slash)

lemma path_split_plain: "CHR ''/'' \<notin> set b \<Longrightarrow> path_split b = ([], b)"
  using while_no_slash [of b "[]"]
  by (simp add: path_split_def Let_def del: takeWhile_eq_all_conv dropWhile_eq_Nil_conv)

definition filepath_Join :: "string list \<Rightarrow> string" where
  "filepath_Join elems =
     (let es = filter (\<lambda>e. e \<noteq> []) elems in if es = [] then [] else filepath_Clean (go_join ''/'' es))"

section \<open>The elements of a clean path\<close>

definition plain_elem :: "string \<Rightarrow> bool" where
  "plain_elem c \<longleftrightarrow> c \<noteq> [] \<and> c \<noteq> ''.'' \<and> c \<noteq> ''..'' \<and> CHR ''/'' \<notin> set c"

text \<open>What \<open>Clean\<close> leaves: plain elements, after some \<open>..\<close> unless the path is rooted.\<close>

definition clean_elems :: "bool \<Rightarrow> string list \<Rightarrow> bool" where
  "clean_elems rooted out \<longleftrightarrow>
     (\<exists>k rest. out = replicate k ''..'' @ rest \<and> list_all plain_elem rest \<and> (rooted \<longrightarrow> k = 0))"

lemma go_split_append: "go_split c (a @ c # b) = go_split c a @ go_split c b"
  by (induction a) (auto split: list.splits)

lemma go_split_no_sep_elems: "p \<in> set (go_split c s) \<Longrightarrow> c \<notin> set p"
  by (induction s arbitrary: p) (auto split: list.splits if_splits)

lemma clean_step_elems:
  assumes "clean_elems r out" and "CHR ''/'' \<notin> set c"
  shows "clean_elems r (clean_step r out c)"
proof -
  obtain k rest where o: "out = replicate k ''..'' @ rest" "list_all plain_elem rest" "r \<longrightarrow> k = 0"
    using assms(1) by (auto simp: clean_elems_def)
  consider (skip) "c = [] \<or> c = ''.''" | (up) "c = ''..''" | (plain) "plain_elem c"
    using assms(2) by (auto simp: plain_elem_def)
  then show ?thesis
  proof cases
    case skip
    then show ?thesis using assms(1) by (auto simp: clean_step_def)
  next
    case plain
    then have "clean_step r out c = replicate k ''..'' @ (rest @ [c])"
      by (simp add: clean_step_def plain_elem_def o(1))
    then show ?thesis unfolding clean_elems_def using o plain
      by (intro exI [of _ k] exI [of _ "rest @ [c]"]) simp
  next
    case up
    show ?thesis
    proof (cases "rest = []")
      case True
      then have l: "out = [] \<or> last out = ''..''" using o(1) by (cases k) auto
      then have "clean_step r out c = (if r then out else out @ [c])" using up by (auto simp: clean_step_def)
      then show ?thesis using o True up unfolding clean_elems_def
        by (auto intro!: exI [of _ "Suc k"] simp: replicate_append_same)
    next
      case False
      then have "last out = last rest" "last rest \<in> set rest" using o(1) by auto
      then have "last out \<noteq> ''..''" using o(2) by (auto simp: list_all_iff plain_elem_def)
      then have "clean_step r out c = replicate k ''..'' @ butlast rest"
        using up o(1) False by (simp add: clean_step_def butlast_append)
      then show ?thesis using o(2,3) unfolding clean_elems_def
        by (auto intro!: exI [of _ k] simp: list_all_iff dest: in_set_butlastD)
    qed
  qed
qed

lemma foldl_clean_elems:
  "clean_elems r out \<Longrightarrow> \<forall>c \<in> set cs. CHR ''/'' \<notin> set c \<Longrightarrow> clean_elems r (foldl (clean_step r) out cs)"
  by (induction cs arbitrary: out) (simp_all add: clean_step_elems)

definition path_elems :: "string \<Rightarrow> string list" where
  "path_elems s = foldl (clean_step (is_rooted s)) [] (go_split (CHR ''/'') s)"

lemma clean_elems_Nil [simp]: "clean_elems r []"
  unfolding clean_elems_def by (intro exI [of _ 0] exI [of _ "[]"]) simp

lemma path_elems_clean: "clean_elems (is_rooted s) (path_elems s)"
  unfolding path_elems_def
  by (rule foldl_clean_elems) (simp_all add: go_split_no_sep_elems)

lemma filepath_Clean_elems:
  "filepath_Clean s =
     (if is_rooted s then CHR ''/'' # go_join ''/'' (path_elems s)
      else if path_elems s = [] then ''.'' else go_join ''/'' (path_elems s))"
  by (simp add: filepath_Clean_def path_elems_def Let_def)

lemma clean_elems_no_slash: "clean_elems r out \<Longrightarrow> c \<in> set out \<Longrightarrow> c \<noteq> [] \<and> CHR ''/'' \<notin> set c"
proof -
  assume "clean_elems r out" and c: "c \<in> set out"
  then obtain k rest where o: "out = replicate k ''..'' @ rest" "list_all plain_elem rest"
    unfolding clean_elems_def by blast
  consider "c = ''..''" | "c \<in> set rest" using c o(1) by (auto split: if_splits)
  then show ?thesis using o(2) by cases (simp_all add: list_all_iff plain_elem_def)
qed

lemma foldl_clean_plain:
  "list_all plain_elem cs \<Longrightarrow> foldl (clean_step r) out cs = out @ cs"
  by (induction cs arbitrary: out) (simp_all add: clean_step_def plain_elem_def)

end
