(* ===== verification/SharedPuller.thy ===== *)
theory SharedPuller
  imports FileInfo GoPath "HOL-Library.Multiset"
begin

text \<open>
  The state of one file being pulled, \<open>lib/model/sharedpullerstate.go\<close>, and \<open>inWritableDir\<close> of
  \<open>lib/model/util.go\<close>. Each method holds the mutex, so it is one function on the state. The
  results of the calls to the filesystem are the argument \<open>fs_outcome\<close> and the calls made are
  listed in order; the protobuf encoder and Unicode normalisation are arguments.
\<close>

unbundle bit_operations_syntax

section \<open>The filesystem as seen by the puller\<close>

datatype fs_call =
  CallStat string | CallChmod string uint32 | CallOpenFile string uint32 uint32 | CallHide string
| CallUnhide string | CallTruncate int | CallRemove string | CallWriteAt bytes int | CallSync | CallClose

text \<open>What each kind of call returns: an error, or none. \<open>o_Stat\<close> says whether the item is a
  directory and its mode.\<close>

record fs_outcome =
  o_Stat :: "(string, bool \<times> uint32) result"
  o_ChmodParent :: "string option"
  o_Chmod :: "string option"
  o_OpenFile :: "string option"
  o_Truncate :: "string option"
  o_WriteAt :: "string option"
  o_Close :: "string option"
  o_IsPermission :: "string \<Rightarrow> bool"

definition permBits :: uint32 where
  "permBits = 511 OR push_bit 23 1 OR push_bit 22 1 OR push_bit 20 1"

text \<open>How a call ends other than by returning: with an error, or with a panic.\<close>

datatype exc = Err string | Panic

text \<open>
  \<open>inWritableDir\<close> runs \<open>fn\<close>, given by its calls and its error; the deferred \<open>Chmod\<close> that restores
  the mode of the directory is the last call.
\<close>

definition inWritableDir :: "fs_outcome \<Rightarrow> (string \<Rightarrow> fs_call list \<times> exc option) \<Rightarrow> string \<Rightarrow> fs_call list \<times> exc option" where
  "inWritableDir fsys fn path =
     (let dir = filepath_Dir path in
      case o_Stat fsys of
        Inl err \<Rightarrow> ([CallStat dir], Some (Err err))
      | Inr (isDir, infoMode) \<Rightarrow>
          if \<not> isDir then ([CallStat dir], Some (Err (''Not a directory: '' @ path)))
          else
            let mode = infoMode AND permBits;
                readOnly = (mode AND 128 = 0);
                parentErr = (if readOnly then o_ChmodParent fsys else None);
                (calls, err) = fn path;
                err' = (case err of
                          Some (Err e) \<Rightarrow>
                            if o_IsPermission fsys e \<and> parentErr \<noteq> None
                            then Some (Err (''error after failing to make parent directory writable: '' @ e))
                            else Some (Err e)
                        | _ \<Rightarrow> err)
            in ([CallStat dir]
                @ (if readOnly then [CallChmod dir (mode OR 448)] else [])
                @ calls
                @ (if readOnly \<and> parentErr = None then [CallChmod dir mode] else []),
                err'))"

section \<open>State\<close>

text \<open>\<open>sp_writer\<close> says whether the temporary file is open.\<close>

record sharedPullerState =
  sp_file :: FileInfo
  sp_folder :: string
  sp_tempName :: string
  sp_realName :: string
  sp_reused :: int
  sp_ignorePerms :: bool
  sp_hasCurFile :: bool
  sp_curFile :: FileInfo
  sp_curFileBlocks :: "bytes \<rightharpoonup> nat"
  sp_sparse :: bool
  sp_created :: Time
  sp_fsync :: bool
  sp_err :: "string option"
  sp_writer :: bool
  sp_copyTotal :: int
  sp_pullTotal :: int
  sp_copyOrigin :: int
  sp_copyNeeded :: int
  sp_pullNeeded :: int
  sp_updated :: Time
  sp_closed :: bool
  sp_available :: "int list"
  sp_availableUpdated :: Time

text \<open>A later block with the same hash overwrites the entry of an earlier one.\<close>

definition curFileBlocks_of :: "BlockInfo list \<Rightarrow> bytes \<rightharpoonup> nat" where
  "curFileBlocks_of bs = foldl (\<lambda>m (idx, b). m(bi_Hash b \<mapsto> idx)) Map.empty (enumerate 0 bs)"

definition newSharedPullerState ::
  "Time \<Rightarrow> FileInfo \<Rightarrow> string \<Rightarrow> string \<Rightarrow> BlockInfo list \<Rightarrow> int list \<Rightarrow> bool \<Rightarrow> bool \<Rightarrow> FileInfo \<Rightarrow> bool \<Rightarrow> bool
     \<Rightarrow> sharedPullerState" where
  "newSharedPullerState now file folderID tempName blocks reused ignorePerms hasCurFile curFile sparse fsync =
     \<lparr>sp_file = file, sp_folder = folderID, sp_tempName = tempName, sp_realName = fi_Name file,
      sp_reused = int (length reused), sp_ignorePerms = ignorePerms, sp_hasCurFile = hasCurFile,
      sp_curFile = curFile, sp_curFileBlocks = curFileBlocks_of (fi_Blocks curFile), sp_sparse = sparse,
      sp_created = now, sp_fsync = fsync, sp_err = None, sp_writer = False,
      sp_copyTotal = int (length blocks), sp_pullTotal = 0, sp_copyOrigin = 0,
      sp_copyNeeded = int (length blocks), sp_pullNeeded = 0, sp_updated = now, sp_closed = False,
      sp_available = reused, sp_availableUpdated = now\<rparr>"

section \<open>The temporary file\<close>

definition OptReadWrite :: uint32 where "OptReadWrite = 2"
definition OptCreate :: uint32 where "OptCreate = 64"
definition OptExclusive :: uint32 where "OptExclusive = 128"

text \<open>\<open>ToWire\<close> panics on a record loaded without its blocks.\<close>

definition encryptionTrailerSize :: "(bep_FileInfo \<Rightarrow> nat) \<Rightarrow> FileInfo \<Rightarrow> (exc, int) result" where
  "encryptionTrailerSize psize file =
     (case FileInfo_ToWire file False of Inl _ \<Rightarrow> Inl Panic | Inr w \<Rightarrow> Inr (int (psize w) + 4))"

text \<open>
  The result is the calls and the error; without an error the writer is set by the caller,
  \<open>addWriterLocked\<close>.
\<close>

definition tempFileInWritableDir ::
  "(bep_FileInfo \<Rightarrow> nat) \<Rightarrow> fs_outcome \<Rightarrow> sharedPullerState \<Rightarrow> fs_call list \<times> exc option" where
  "tempFileInWritableDir psize fsys s =
     (let mode = (if sp_ignorePerms s then 438 else fi_Permissions (sp_file s) OR 384);
          flags = (if sp_reused s = 0 then OptReadWrite OR OptCreate OR OptExclusive else OptReadWrite);
          rechmod = (sp_reused s \<noteq> 0 \<and> \<not> sp_ignorePerms s);
          calls1 = (if rechmod then [CallChmod (sp_tempName s) mode] else []) in
      case (if rechmod then o_Chmod fsys else None) of
        Some err \<Rightarrow> (calls1, Some (Err (''setting perms on temp file: '' @ err)))
      | None \<Rightarrow>
        (let calls2 = calls1 @ [CallOpenFile (sp_tempName s) flags mode] in
         case o_OpenFile fsys of
           Some err \<Rightarrow> (calls2, Some (Err (''opening temp file: '' @ err)))
         | None \<Rightarrow>
           (let calls3 = calls2 @ [CallHide (sp_tempName s)] in
            if sp_sparse s \<and> \<not> IsSymlink (sp_file s) then
              (case (if length (fi_Encrypted (sp_file s)) > 0 then encryptionTrailerSize psize (sp_file s)
                     else Inr 0) of
                 Inl e \<Rightarrow> (calls3, Some e)
               | Inr trailer \<Rightarrow>
                   (let calls4 = calls3 @ [CallTruncate (fi_Size (sp_file s) + trailer)] in
                    case o_Truncate fsys of
                      Some err \<Rightarrow>
                        if sp_reused s > 0 then (calls4 @ [CallClose, CallRemove (sp_tempName s)], Some (Err err))
                        else (calls4, None)
                    | None \<Rightarrow> (calls4, None)))
            else (calls3, None))))"

definition addWriterLocked ::
  "(bep_FileInfo \<Rightarrow> nat) \<Rightarrow> fs_outcome \<Rightarrow> sharedPullerState \<Rightarrow> fs_call list \<times> exc option \<times> sharedPullerState" where
  "addWriterLocked psize fsys s =
     (let (calls, err) = inWritableDir fsys (\<lambda>_. tempFileInWritableDir psize fsys s) (sp_tempName s)
      in (calls, err, if err = None then s\<lparr>sp_writer := True\<rparr> else s))"

definition failLocked :: "string option \<Rightarrow> sharedPullerState \<Rightarrow> sharedPullerState" where
  "failLocked err s = (if sp_err s \<noteq> None \<or> err = None then s else s\<lparr>sp_err := err\<rparr>)"

definition puller_fail :: "string option \<Rightarrow> sharedPullerState \<Rightarrow> sharedPullerState" where
  "puller_fail err s = failLocked err s"

definition puller_failed :: "sharedPullerState \<Rightarrow> string option" where
  "puller_failed s = sp_err s"

definition tempFile ::
  "(bep_FileInfo \<Rightarrow> nat) \<Rightarrow> fs_outcome \<Rightarrow> sharedPullerState \<Rightarrow> fs_call list \<times> exc option \<times> sharedPullerState" where
  "tempFile psize fsys s =
     (case sp_err s of
        Some e \<Rightarrow> ([], Some (Err e), s)
      | None \<Rightarrow>
          if sp_writer s then ([], None, s)
          else
            let (calls, err, s') = addWriterLocked psize fsys s in
            (case err of
               Some (Err e) \<Rightarrow> (calls, Some (Err e), failLocked (Some e) s')
             | _ \<Rightarrow> (calls, err, s')))"

section \<open>Counters\<close>

text \<open>\<open>quot\<close>: Go's division truncates towards zero. Offsets are not negative.\<close>

definition go_quot :: "int \<Rightarrow> int \<Rightarrow> int" where
  "go_quot a b = sgn a * sgn b * (\<bar>a\<bar> div \<bar>b\<bar>)"

definition go_rem :: "int \<Rightarrow> int \<Rightarrow> int" where
  "go_rem a b = a - b * go_quot a b"

definition copyDone :: "Time \<Rightarrow> BlockInfo \<Rightarrow> sharedPullerState \<Rightarrow> sharedPullerState" where
  "copyDone now block s =
     s\<lparr>sp_copyNeeded := sp_copyNeeded s - 1, sp_updated := now,
       sp_available := sp_available s @ [go_quot (bi_Offset block) (FileInfo_BlockSize (sp_file s))],
       sp_availableUpdated := now\<rparr>"

definition copiedFromOrigin :: "Time \<Rightarrow> sharedPullerState \<Rightarrow> sharedPullerState" where
  "copiedFromOrigin now s = s\<lparr>sp_copyOrigin := sp_copyOrigin s + 1, sp_updated := now\<rparr>"

definition skippedSparseBlock :: "Time \<Rightarrow> sharedPullerState \<Rightarrow> sharedPullerState" where
  "skippedSparseBlock now s = s\<lparr>sp_copyOrigin := sp_copyOrigin s + 1, sp_updated := now\<rparr>"

definition pullStarted :: "Time \<Rightarrow> sharedPullerState \<Rightarrow> sharedPullerState" where
  "pullStarted now s =
     s\<lparr>sp_copyTotal := sp_copyTotal s - 1, sp_copyNeeded := sp_copyNeeded s - 1,
       sp_pullTotal := sp_pullTotal s + 1, sp_pullNeeded := sp_pullNeeded s + 1, sp_updated := now\<rparr>"

definition pullDone :: "Time \<Rightarrow> BlockInfo \<Rightarrow> sharedPullerState \<Rightarrow> sharedPullerState" where
  "pullDone now block s =
     s\<lparr>sp_pullNeeded := sp_pullNeeded s - 1, sp_updated := now,
       sp_available := sp_available s @ [go_quot (bi_Offset block) (FileInfo_BlockSize (sp_file s))],
       sp_availableUpdated := now\<rparr>"

section \<open>Closing\<close>

text \<open>
  The trailer is the encoded record and its length as four bytes; \<open>normalize\<close> is
  \<open>osutil.NormalizedFilename\<close> and \<open>marshal\<close> the encoder, of whose output \<open>protoSize\<close> is the length.
\<close>

record proto_codec =
  protoSize :: "bep_FileInfo \<Rightarrow> nat"
  marshal :: "bep_FileInfo \<Rightarrow> (string, bytes) result"
  normalize :: "string \<Rightarrow> string"

definition MarshalTo :: "proto_codec \<Rightarrow> nat \<Rightarrow> bep_FileInfo \<Rightarrow> (string, bytes) result" where
  "MarshalTo pc buflen w =
     (if buflen < protoSize pc w then Inl ''buffer too small''
      else if protoSize pc w = 0 then Inr []
      else marshal pc w)"

definition writeEncryptionTrailer ::
  "proto_codec \<Rightarrow> fs_outcome \<Rightarrow> FileInfo \<Rightarrow> (fs_call list \<times> (string, int) result) option" where
  "writeEncryptionTrailer pc fsys file =
     (let wireFile = file\<lparr>fi_Name := normalize pc (fi_Name file)\<rparr> in
      case FileInfo_ToWire wireFile False of
        Inl _ \<Rightarrow> None
      | Inr w \<Rightarrow>
          (let trailerSize = protoSize pc w + 4 in
           case MarshalTo pc trailerSize w of
             Inl err \<Rightarrow> Some ([], Inl err)
           | Inr bs \<Rightarrow>
               (let call = CallWriteAt (bs @ be_PutUint32 (word_of_nat (length bs))) (fi_Size wireFile) in
                case o_WriteAt fsys of
                  Some err \<Rightarrow> Some ([call], Inl err)
                | None \<Rightarrow> Some ([call], Inr (int trailerSize)))))"

definition finalizeEncrypted ::
  "proto_codec \<Rightarrow> fs_outcome \<Rightarrow> sharedPullerState \<Rightarrow> (fs_call list \<times> string option \<times> sharedPullerState) option" where
  "finalizeEncrypted pc fsys s =
     (case writeEncryptionTrailer pc fsys (sp_file s) of
        None \<Rightarrow> None
      | Some (calls, Inl err) \<Rightarrow> Some (calls, Some err, s)
      | Some (calls, Inr trailerSize) \<Rightarrow>
          Some (calls, None,
            s\<lparr>sp_file := (sp_file s)\<lparr>fi_Size := fi_Size (sp_file s) + trailerSize,
                fi_EncryptionTrailerSize := trailerSize\<rparr>\<rparr>))"

text \<open>\<open>err != nil && s.err == nil\<close> then \<open>s.err = err\<close>.\<close>

definition keepFirst :: "string option \<Rightarrow> sharedPullerState \<Rightarrow> sharedPullerState" where
  "keepFirst err s = (if err \<noteq> None \<and> sp_err s = None then s\<lparr>sp_err := err\<rparr> else s)"

text \<open>\<open>None\<close> is a panic.\<close>

definition finalClose ::
  "proto_codec \<Rightarrow> fs_outcome \<Rightarrow> sharedPullerState
     \<Rightarrow> (fs_call list \<times> (bool \<times> string option) \<times> sharedPullerState) option" where
  "finalClose pc fsys s =
     (if sp_closed s then Some ([], (False, None), s)
      else if sp_pullNeeded s + sp_copyNeeded s \<noteq> 0 \<and> sp_err s = None then Some ([], (False, None), s)
      else
        case (if sp_writer s then ([], None, s) else addWriterLocked (protoSize pc) fsys s) of
          (calls1, Some Panic, s1) \<Rightarrow> None
        | (calls1, Some (Err err), s1) \<Rightarrow> Some (calls1, (False, Some err), s1)
        | (calls1, None, s1) \<Rightarrow>
            (case (if length (fi_Encrypted (sp_file s1)) > 0 then finalizeEncrypted pc fsys s1
                   else Some ([], None, s1)) of
               None \<Rightarrow> None
             | Some (calls2, err2, s2) \<Rightarrow>
                 (let s3 = keepFirst err2 s2;
                      s4 = (keepFirst (o_Close fsys) s3)\<lparr>sp_writer := False\<rparr>;
                      s5 = s4\<lparr>sp_closed := True\<rparr>
                  in Some (calls1 @ calls2 @ (if sp_fsync s3 then [CallSync] else []) @ [CallClose]
                             @ [CallUnhide (sp_tempName s5)], (True, sp_err s5), s5))))"

section \<open>Progress\<close>

record PullerProgress =
  Total :: int
  Reused :: int
  CopiedFromOrigin :: int
  CopiedFromOriginShifted :: int
  CopiedFromElsewhere :: int
  Pulled :: int
  Pulling :: int
  BytesDone :: int
  BytesTotal :: int

definition blocksToSize :: "int \<Rightarrow> int \<Rightarrow> int \<Rightarrow> int \<Rightarrow> int" where
  "blocksToSize blocks blocksInFile blockSize fileSize =
     (if blocksInFile = 0 then 0
      else blocks * blockSize - go_quot ((blockSize - go_rem fileSize blockSize) * blocks) blocksInFile)"

definition Progress :: "sharedPullerState \<Rightarrow> PullerProgress" where
  "Progress s =
     (let total = sp_reused s + sp_copyTotal s + sp_pullTotal s;
          done = total - sp_copyNeeded s - sp_pullNeeded s;
          file = int (length (fi_Blocks (sp_file s)))
      in \<lparr>Total = total, Reused = sp_reused s, CopiedFromOrigin = sp_copyOrigin s,
          CopiedFromOriginShifted = 0,
          CopiedFromElsewhere = sp_copyTotal s - sp_copyNeeded s - sp_copyOrigin s,
          Pulled = sp_pullTotal s - sp_pullNeeded s, Pulling = sp_pullNeeded s,
          BytesDone = blocksToSize done file (FileInfo_BlockSize (sp_file s)) (fi_Size (sp_file s)),
          BytesTotal = blocksToSize total file (FileInfo_BlockSize (sp_file s)) (fi_Size (sp_file s))\<rparr>)"

definition Updated :: "sharedPullerState \<Rightarrow> Time" where
  "Updated s = sp_updated s"

definition AvailableUpdated :: "sharedPullerState \<Rightarrow> Time" where
  "AvailableUpdated s = sp_availableUpdated s"

definition Available :: "sharedPullerState \<Rightarrow> int list" where
  "Available s = sp_available s"

section \<open>Concurrent use\<close>

text \<open>
  The copier and puller routines call the methods in any interleaving. A system is the state,
  the blocks the copiers still have, those handed to the pullers, those finished, and the
  number of times \<open>finalClose\<close> has told its caller to finish the file. A block is either copied
  (\<open>copyDone\<close>) or handed to the pullers (\<open>pullStarted\<close>, then \<open>pullDone\<close>); after an error blocks
  may stay where they are.
\<close>

record pull_sys =
  ps_state :: sharedPullerState
  ps_copying :: "BlockInfo list"
  ps_pulling :: "BlockInfo list"
  ps_finished :: "BlockInfo list"
  ps_closes :: nat

inductive pull_step :: "proto_codec \<Rightarrow> pull_sys \<Rightarrow> pull_sys \<Rightarrow> bool" for pc where
  step_copyDone: "b \<in> set (ps_copying \<sigma>) \<Longrightarrow>
    pull_step pc \<sigma> (\<sigma>\<lparr>ps_state := copyDone now b (ps_state \<sigma>), ps_copying := remove1 b (ps_copying \<sigma>),
      ps_finished := ps_finished \<sigma> @ [b]\<rparr>)"
| step_origin: "pull_step pc \<sigma> (\<sigma>\<lparr>ps_state := copiedFromOrigin now (ps_state \<sigma>)\<rparr>)"
| step_sparse: "pull_step pc \<sigma> (\<sigma>\<lparr>ps_state := skippedSparseBlock now (ps_state \<sigma>)\<rparr>)"
| step_pullStarted: "b \<in> set (ps_copying \<sigma>) \<Longrightarrow>
    pull_step pc \<sigma> (\<sigma>\<lparr>ps_state := pullStarted now (ps_state \<sigma>), ps_copying := remove1 b (ps_copying \<sigma>),
      ps_pulling := b # ps_pulling \<sigma>\<rparr>)"
| step_pullDone: "b \<in> set (ps_pulling \<sigma>) \<Longrightarrow>
    pull_step pc \<sigma> (\<sigma>\<lparr>ps_state := pullDone now b (ps_state \<sigma>), ps_pulling := remove1 b (ps_pulling \<sigma>),
      ps_finished := ps_finished \<sigma> @ [b]\<rparr>)"
| step_fail: "pull_step pc \<sigma> (\<sigma>\<lparr>ps_state := puller_fail err (ps_state \<sigma>)\<rparr>)"
| step_tempFile: "tempFile (protoSize pc) fsys (ps_state \<sigma>) = (calls, err, s) \<Longrightarrow>
    pull_step pc \<sigma> (\<sigma>\<lparr>ps_state := s\<rparr>)"
| step_finalClose: "finalClose pc fsys (ps_state \<sigma>) = Some (calls, (finish, err), s) \<Longrightarrow>
    pull_step pc \<sigma> (\<sigma>\<lparr>ps_state := s, ps_closes := ps_closes \<sigma> + (if finish then 1 else 0)\<rparr>)"

definition pull_start :: "sharedPullerState \<Rightarrow> BlockInfo list \<Rightarrow> pull_sys" where
  "pull_start s blocks =
     \<lparr>ps_state = s, ps_copying = blocks, ps_pulling = [], ps_finished = [], ps_closes = 0\<rparr>"

definition blockIndex :: "FileInfo \<Rightarrow> BlockInfo \<Rightarrow> int" where
  "blockIndex f b = go_quot (bi_Offset b) (FileInfo_BlockSize f)"

definition pull_inv :: "int list \<Rightarrow> BlockInfo list \<Rightarrow> FileInfo \<Rightarrow> pull_sys \<Rightarrow> bool" where
  "pull_inv reused blocks file \<sigma> \<longleftrightarrow>
     (let s = ps_state \<sigma> in
      sp_copyNeeded s = int (length (ps_copying \<sigma>)) \<and> sp_pullNeeded s = int (length (ps_pulling \<sigma>)) \<and>
      sp_copyTotal s + sp_pullTotal s = int (length blocks) \<and>
      sp_reused s = int (length reused) \<and>
      mset (ps_copying \<sigma>) + mset (ps_pulling \<sigma>) + mset (ps_finished \<sigma>) = mset blocks \<and>
      FileInfo_BlockSize (sp_file s) = FileInfo_BlockSize file \<and>
      sp_available s = reused @ map (blockIndex file) (ps_finished \<sigma>) \<and>
      ps_closes \<sigma> = (if sp_closed s then 1 else 0) \<and>
      (sp_closed s \<and> sp_err s = None \<longrightarrow> ps_copying \<sigma> = [] \<and> ps_pulling \<sigma> = []))"

text \<open>The parts of the state the methods on the temporary file leave alone.\<close>

definition same_work :: "sharedPullerState \<Rightarrow> sharedPullerState \<Rightarrow> bool" where
  "same_work s t \<longleftrightarrow>
     sp_copyNeeded t = sp_copyNeeded s \<and> sp_pullNeeded t = sp_pullNeeded s \<and>
     sp_copyTotal t = sp_copyTotal s \<and> sp_pullTotal t = sp_pullTotal s \<and> sp_reused t = sp_reused s \<and>
     sp_available t = sp_available s \<and> FileInfo_BlockSize (sp_file t) = FileInfo_BlockSize (sp_file s) \<and>
     (sp_err t = None \<longrightarrow> sp_err s = None)"

lemma same_work_refl [simp]: "same_work s s"
  by (simp add: same_work_def)

lemma same_work_trans: "same_work s t \<Longrightarrow> same_work t u \<Longrightarrow> same_work s u"
  by (simp add: same_work_def)

lemma failLocked_same: "same_work s (failLocked e s)" "sp_closed (failLocked e s) = sp_closed s"
  by (auto simp: same_work_def failLocked_def)

lemma addWriterLocked_same:
  assumes "addWriterLocked psize fsys s = (calls, err, t)"
  shows "same_work s t" and "sp_closed t = sp_closed s" and "sp_err t = sp_err s"
  using assms by (auto simp: addWriterLocked_def same_work_def Let_def case_prod_beta split: if_splits)

lemma tempFile_same:
  assumes "tempFile psize fsys s = (calls, err, t)"
  shows "same_work s t" and "sp_closed t = sp_closed s"
  using assms addWriterLocked_same [of psize fsys s] failLocked_same same_work_trans
  by (auto simp: tempFile_def Let_def split: option.splits prod.splits exc.splits if_splits; blast)+

lemma keepFirst_same: "same_work s (keepFirst e s)" "sp_closed (keepFirst e s) = sp_closed s"
  by (auto simp: same_work_def keepFirst_def)

lemma finalizeEncrypted_same:
  assumes "finalizeEncrypted pc fsys s = Some (calls, err, t)"
  shows "same_work s t" and "sp_closed t = sp_closed s"
  using assms
  by (auto simp: finalizeEncrypted_def same_work_def FileInfo_BlockSize_def split: option.splits sum.splits)

lemma finalClose_cases:
  assumes "finalClose pc fsys s = Some (calls, (finish, err), t)"
  shows "same_work s t \<and>
    (if finish then \<not> sp_closed s \<and> sp_closed t \<and> err = sp_err t \<and>
       (sp_err s = None \<longrightarrow> sp_pullNeeded s + sp_copyNeeded s = 0)
     else sp_closed t = sp_closed s \<and> sp_err t = sp_err s)"
proof (cases "sp_closed s \<or> sp_pullNeeded s + sp_copyNeeded s \<noteq> 0 \<and> sp_err s = None")
  case True
  then have "finalClose pc fsys s = Some ([], (False, None), s)" by (auto simp: finalClose_def)
  then show ?thesis using assms by auto
next
  case False
  obtain calls1 e1 s1 where w: "(if sp_writer s then ([], None, s) else addWriterLocked (protoSize pc) fsys s) = (calls1, e1, s1)"
    by (cases "if sp_writer s then ([], None, s) else addWriterLocked (protoSize pc) fsys s")
  have s1: "same_work s s1" "sp_closed s1 = sp_closed s" "sp_err s1 = sp_err s"
    using w addWriterLocked_same by (auto split: if_splits)
  show ?thesis
  proof (cases e1)
    case (Some e)
    then show ?thesis using assms False w s1 by (cases e) (auto simp: finalClose_def)
  next
    case None
    then obtain calls2 e2 s2 where
      z: "(if length (fi_Encrypted (sp_file s1)) > 0 then finalizeEncrypted pc fsys s1 else Some ([], None, s1))
            = Some (calls2, e2, s2)"
      and t: "t = (keepFirst (o_Close fsys) (keepFirst e2 s2))\<lparr>sp_writer := False, sp_closed := True\<rparr>"
        "finish" "err = sp_err t"
      using assms False w by (auto simp: finalClose_def Let_def split: option.splits)
    have "same_work s1 s2" using z finalizeEncrypted_same by (auto split: if_splits)
    then have "same_work s (keepFirst (o_Close fsys) (keepFirst e2 s2))"
      by (intro same_work_trans [OF s1(1)] same_work_trans [OF _ keepFirst_same(1)])
    then show ?thesis using t False by (auto simp: same_work_def)
  qed
qed

lemma pull_inv_same:
  assumes "pull_inv reused blocks file \<sigma>" and "same_work (ps_state \<sigma>) t" and "sp_closed t = sp_closed (ps_state \<sigma>)"
  shows "pull_inv reused blocks file (\<sigma>\<lparr>ps_state := t\<rparr>)"
  using assms by (auto simp: pull_inv_def same_work_def Let_def)

lemma pull_inv_start:
  "pull_inv reused blocks file (pull_start (newSharedPullerState now file folderID tempName blocks reused ip h cur sp fs) blocks)"
  by (simp add: pull_inv_def pull_start_def newSharedPullerState_def Let_def)

lemma length_remove1_int: "b \<in> set xs \<Longrightarrow> int (length (remove1 b xs)) = int (length xs) - 1"
  by (induction xs) (auto simp: length_remove1)

lemma int_lengths_zero: "int (length xs) + int (length ys) = 0 \<longleftrightarrow> xs = [] \<and> ys = []"
  by (metis add_is_0 length_0_conv of_nat_0_eq_iff of_nat_add)

lemma pull_inv_sub:
  assumes "pull_inv reused blocks file \<sigma>"
  shows "set (ps_copying \<sigma>) \<union> set (ps_pulling \<sigma>) \<subseteq> set blocks"
proof -
  have "set_mset (mset (ps_copying \<sigma>) + mset (ps_pulling \<sigma>) + mset (ps_finished \<sigma>)) = set_mset (mset blocks)"
    using assms by (simp only: pull_inv_def Let_def)
  then show ?thesis by auto
qed

lemma pull_inv_step:
  assumes "pull_step pc \<sigma> \<tau>" and "pull_inv reused blocks file \<sigma>"
  shows "pull_inv reused blocks file \<tau>"
  using assms
proof (cases rule: pull_step.cases)
  case (step_copyDone b now)
  have "b \<in> set blocks" using pull_inv_sub [OF assms(2)] step_copyDone(2) by blast
  then show ?thesis using assms(2) step_copyDone
    by (auto simp: pull_inv_def copyDone_def Let_def length_remove1_int blockIndex_def)
next
  case (step_pullStarted b now)
  have "b \<in> set blocks" using pull_inv_sub [OF assms(2)] step_pullStarted(2) by blast
  then show ?thesis using assms(2) step_pullStarted
    by (auto simp: pull_inv_def pullStarted_def Let_def length_remove1_int)
next
  case (step_pullDone b now)
  have "b \<in> set blocks" using pull_inv_sub [OF assms(2)] step_pullDone(2) by blast
  then show ?thesis using assms(2) step_pullDone
    by (auto simp: pull_inv_def pullDone_def Let_def length_remove1_int blockIndex_def)
next
  case (step_finalClose fsys calls finish err s)
  note c = finalClose_cases [OF step_finalClose(2)]
  show ?thesis
  proof (cases finish)
    case True
    then show ?thesis using c assms(2) unfolding step_finalClose(1)
      by (auto simp: pull_inv_def same_work_def Let_def int_lengths_zero)
  next
    case False
    then show ?thesis using c pull_inv_same [OF assms(2), of s] unfolding step_finalClose(1) by simp
  qed
next
  case step_origin
  then show ?thesis using pull_inv_same [OF assms(2)] by (simp add: copiedFromOrigin_def same_work_def)
next
  case step_sparse
  then show ?thesis using pull_inv_same [OF assms(2)] by (simp add: skippedSparseBlock_def same_work_def)
next
  case step_fail
  then show ?thesis using pull_inv_same [OF assms(2)] failLocked_same by (simp add: puller_fail_def)
next
  case step_tempFile
  then show ?thesis using pull_inv_same [OF assms(2)] tempFile_same by blast
qed

lemma pull_inv_reach:
  assumes "(pull_step pc)\<^sup>*\<^sup>* \<sigma> \<tau>" and "pull_inv reused blocks file \<sigma>"
  shows "pull_inv reused blocks file \<tau>"
  using assms by (induction rule: rtranclp_induct) (auto intro: pull_inv_step)

section \<open>Properties\<close>

text \<open>C18. Whatever the interleaving of the routines, \<open>finalClose\<close> tells at most one of them to
  finish the file; if it did and no error is recorded, every block of the job was copied or
  pulled and the indexes announced as available are the reused ones and those of the
  blocks, each once; and the total of the progress report never changes.\<close>

theorem pull_finished_once:
  assumes "\<sigma> = pull_start (newSharedPullerState now file folderID tempName blocks reused ip h cur sp fs) blocks"
    and "(pull_step pc)\<^sup>*\<^sup>* \<sigma> \<tau>"
  shows "ps_closes \<tau> \<le> 1 \<and>
    (ps_closes \<tau> = 1 \<and> puller_failed (ps_state \<tau>) = None \<longrightarrow>
       mset (ps_finished \<tau>) = mset blocks \<and>
       mset (Available (ps_state \<tau>)) = mset reused + mset (map (blockIndex file) blocks)) \<and>
    Total (Progress (ps_state \<tau>)) = int (length reused + length blocks)"
proof -
  have "pull_inv reused blocks file \<tau>"
    using pull_inv_reach [OF assms(2)] pull_inv_start unfolding assms(1) by blast
  then show ?thesis
    by (auto simp: pull_inv_def Let_def Progress_def puller_failed_def Available_def split: if_splits)
qed

definition example_codec :: proto_codec where
  "example_codec = \<lparr>protoSize = (\<lambda>_. 1), marshal = (\<lambda>_. Inr [0]), normalize = (\<lambda>s. s)\<rparr>"

definition example_outcome :: fs_outcome where
  "example_outcome = \<lparr>o_Stat = Inr (True, 320), o_ChmodParent = None, o_Chmod = None, o_OpenFile = None,
     o_Truncate = None, o_WriteAt = None, o_Close = None, o_IsPermission = (\<lambda>_. False)\<rparr>"

abbreviation example_puller :: "BlockInfo list \<Rightarrow> sharedPullerState" where
  "example_puller blocks \<equiv> newSharedPullerState (time_Unix 0 0) example_file ''f'' ''d/t'' blocks [] False False
     example_file True False"

theorem pull_finished_once_witness:
  "\<exists>\<tau>. (pull_step example_codec)\<^sup>*\<^sup>* (pull_start (example_puller (fi_Blocks example_file)) (fi_Blocks example_file)) \<tau> \<and>
     ps_closes \<tau> = 1 \<and> mset (ps_finished \<tau>) = mset (fi_Blocks example_file)"
proof -
  let ?bs = "fi_Blocks example_file" and ?b = "hd (fi_Blocks example_file)" and ?t = "time_Unix 0 0"
  define \<sigma> where "\<sigma> = pull_start (example_puller ?bs) ?bs"
  define \<sigma>1 where "\<sigma>1 = \<sigma>\<lparr>ps_state := pullStarted ?t (ps_state \<sigma>), ps_copying := remove1 ?b (ps_copying \<sigma>),
      ps_pulling := ?b # ps_pulling \<sigma>\<rparr>"
  define \<sigma>2 where "\<sigma>2 = \<sigma>1\<lparr>ps_state := pullDone ?t ?b (ps_state \<sigma>1), ps_pulling := remove1 ?b (ps_pulling \<sigma>1),
      ps_finished := ps_finished \<sigma>1 @ [?b]\<rparr>"
  have s1: "pull_step example_codec \<sigma> \<sigma>1" unfolding \<sigma>1_def
    by (rule step_pullStarted) (simp add: \<sigma>_def pull_start_def example_file_def)
  have s2: "pull_step example_codec \<sigma>1 \<sigma>2" unfolding \<sigma>2_def
    by (rule step_pullDone) (simp add: \<sigma>1_def)
  obtain calls s where f: "finalClose example_codec example_outcome (ps_state \<sigma>2) = Some (calls, (True, None), s)"
    "sp_err s = None"
    by (simp add: finalClose_def \<sigma>2_def \<sigma>1_def \<sigma>_def pull_start_def newSharedPullerState_def pullStarted_def
        pullDone_def addWriterLocked_def inWritableDir_def tempFileInWritableDir_def example_outcome_def
        example_file_def keepFirst_def IsSymlink_def Let_def)
  define \<tau> where "\<tau> = \<sigma>2\<lparr>ps_state := s, ps_closes := ps_closes \<sigma>2 + (if True then 1 else 0)\<rparr>"
  have s3: "pull_step example_codec \<sigma>2 \<tau>" unfolding \<tau>_def by (rule step_finalClose [OF f(1)])
  have reach: "(pull_step example_codec)\<^sup>*\<^sup>* \<sigma> \<tau>" using s1 s2 s3 by (meson rtranclp.intros)
  have c: "ps_closes \<tau> = 1" "puller_failed (ps_state \<tau>) = None"
    using f(2) by (simp_all add: \<tau>_def \<sigma>2_def \<sigma>1_def \<sigma>_def pull_start_def puller_failed_def)
  from pull_finished_once [OF \<sigma>_def reach] c reach show ?thesis unfolding \<sigma>_def by blast
qed

text \<open>Creating the temporary file in a directory that is not writable leaves the mode of the
  directory as it was: when \<open>inWritableDir\<close> managed to make it writable, its last call sets the
  permission bits found at the start, whether the wrapped function succeeded or not; when the
  directory is writable, it makes no \<open>Chmod\<close> of its own.\<close>

theorem inWritableDir_restores:
  assumes "inWritableDir fsys fn path = (calls, err)" and "o_Stat fsys = Inr (True, mode)"
  shows "((mode AND permBits) AND 128 = 0 \<and> o_ChmodParent fsys = None \<longrightarrow>
      (\<exists>c. calls = [CallStat (filepath_Dir path), CallChmod (filepath_Dir path) (mode AND permBits OR 448)] @ fst (fn path)
             @ [CallChmod (filepath_Dir path) c] \<and> c = mode AND permBits)) \<and>
    ((mode AND permBits) AND 128 \<noteq> 0 \<longrightarrow> calls = CallStat (filepath_Dir path) # fst (fn path) \<and> err = snd (fn path))"
  using assms
  by (auto simp: inWritableDir_def Let_def case_prod_beta split: option.splits exc.splits if_splits)

theorem inWritableDir_restores_witness:
  "\<exists>calls err. inWritableDir example_outcome (\<lambda>_. ([CallHide ''x''], Some (Err ''e''))) ''d/t'' = (calls, err) \<and>
     last calls = CallChmod (filepath_Dir ''d/t'') 320"
proof -
  let ?fn = "\<lambda>_. ([CallHide ''x''], Some (Err ''e''))"
  obtain calls err where r: "inWritableDir example_outcome ?fn ''d/t'' = (calls, err)"
    by (cases "inWritableDir example_outcome ?fn ''d/t''")
  have o: "o_Stat example_outcome = Inr (True, 320)" "o_ChmodParent example_outcome = None"
    by (simp_all add: example_outcome_def)
  have b: "(320 :: uint32) AND permBits = 320" "(320 :: uint32) AND 128 = 0"
    by (simp_all add: permBits_def)
  show ?thesis using inWritableDir_restores [OF r o(1)] r o(2) unfolding b by auto
qed

text \<open>
  When the last block is done but the temporary file was never opened (everything was skipped
  as sparse) and cannot be created, \<open>finalClose\<close> returns an error with the flag that means
  "nothing to finish now", and leaves the state as it was, the error not recorded.
\<close>

lemma finalClose_error_not_recorded:
  assumes "\<not> sp_closed s" and "sp_pullNeeded s + sp_copyNeeded s = 0" and "\<not> sp_writer s"
    and "addWriterLocked (protoSize pc) fsys s = (calls, Some (Err e), s')"
  shows "finalClose pc fsys s = Some (calls, (False, Some e), s)"
proof -
  have "s' = s" using assms(4) by (auto simp: addWriterLocked_def Let_def case_prod_beta)
  then show ?thesis using assms by (simp add: finalClose_def)
qed

end
