(* ===== verification/DeviceID.thy ===== *)
theory DeviceID
  imports GoStd
begin

text \<open>
  Device identifiers, \<open>lib/protocol/deviceid.go\<close> and \<open>lib/protocol/luhn.go\<close>: the 32 byte hash
  of a certificate, its canonical text form (base 32, four check digits, groups of seven
  separated by dashes) and the tolerant parser of that form.
\<close>

section \<open>Package encoding/base32\<close>

text \<open>
  The standard alphabet with padding. A quantum of up to five bytes is the number its bits
  spell, padded with zero bytes, written as eight digits in base 32.
\<close>

definition luhnBase32 :: string where
  "luhnBase32 = ''ABCDEFGHIJKLMNOPQRSTUVWXYZ234567''"

fun digits32 :: "nat \<Rightarrow> nat \<Rightarrow> nat list" where
  "digits32 0 x = []"
| "digits32 (Suc n) x = digits32 n (x div 32) @ [x mod 32]"

definition undigits32 :: "nat list \<Rightarrow> nat" where
  "undigits32 ds = foldl (\<lambda>a d. a * 32 + d) 0 ds"

definition b32_encode_quantum :: "bytes \<Rightarrow> string" where
  "b32_encode_quantum bs =
     (let n = length bs;
          k = (8 * n + 4) div 5;
          ds = digits32 8 (get_be (bs @ replicate (5 - n) 0))
      in map (\<lambda>d. luhnBase32 ! d) (take k ds) @ replicate (8 - k) (CHR ''=''))"

function b32_EncodeToString :: "bytes \<Rightarrow> string" where
  "b32_EncodeToString bs =
     (if bs = [] then [] else b32_encode_quantum (take 5 bs) @ b32_EncodeToString (drop 5 bs))"
  by pat_completeness auto
termination
  by (relation "measure length") (auto simp: neq_Nil_conv)

declare b32_EncodeToString.simps [simp del]

definition b32_value :: "char \<Rightarrow> nat option" where
  "b32_value c =
     (let k = char_code c in
      if 65 \<le> k \<and> k \<le> 90 then Some (k - 65)
      else if 50 \<le> k \<and> k \<le> 55 then Some (k - 24)
      else None)"

text \<open>
  One quantum of the decoder: up to eight digits, or fewer followed by padding at the end of
  the input. The result is the digits, the rest of the input and whether padding was met.
\<close>

fun b32_quantum :: "nat \<Rightarrow> string \<Rightarrow> nat list \<Rightarrow> (nat list \<times> string \<times> bool) option" where
  "b32_quantum 0 src dbuf = Some (dbuf, src, False)"
| "b32_quantum (Suc left) [] dbuf = None"
| "b32_quantum (Suc left) (c # src) dbuf =
     (if c = CHR ''='' \<and> length dbuf \<ge> 2 \<and> length src < 8 then
        (if length src + length dbuf < 7 then None
         else if \<exists>k < 7 - length dbuf. k < length src \<and> src ! k \<noteq> CHR ''='' then None
         else if length dbuf = 1 \<or> length dbuf = 3 \<or> length dbuf = 6 then None
         else Some (dbuf, src, True))
      else
        (case b32_value c of
           None \<Rightarrow> None
         | Some v \<Rightarrow> b32_quantum left src (dbuf @ [v])))"

lemma b32_quantum_shorter:
  "b32_quantum left src dbuf = Some (ds, rest, e) \<Longrightarrow> length rest + (if left = 0 then 0 else 1) \<le> length src"
proof (induction left src dbuf rule: b32_quantum.induct)
  case (3 left c src dbuf)
  then show ?case by (auto split: if_splits option.splits)
qed auto

text \<open>The bytes of the digits read: missing digits count as zero and only whole bytes are kept.\<close>

definition b32_quantum_bytes :: "nat list \<Rightarrow> bytes" where
  "b32_quantum_bytes ds =
     take (length ds * 5 div 8) (put_be 5 (undigits32 (ds @ replicate (8 - length ds) 0)))"

function b32_decode :: "string \<Rightarrow> bytes option" where
  "b32_decode src =
     (if src = [] then Some []
      else
        (case b32_quantum 8 src [] of
           None \<Rightarrow> None
         | Some (ds, rest, e) \<Rightarrow>
             (if e then Some (b32_quantum_bytes ds)
              else map_option (\<lambda>bs. b32_quantum_bytes ds @ bs) (b32_decode rest))))"
  by pat_completeness auto
termination
  by (relation "measure length") (auto dest!: b32_quantum_shorter)

declare b32_decode.simps [simp del]

definition b32_DecodeString :: "string \<Rightarrow> bytes option" where
  "b32_DecodeString s = b32_decode (filter (\<lambda>c. char_code c \<noteq> 10 \<and> char_code c \<noteq> 13) s)"

section \<open>Check digits\<close>

definition codepoint32 :: "char \<Rightarrow> int" where
  "codepoint32 b =
     (let k = char_code b in
      if 65 \<le> k \<and> k \<le> 90 then int (k - 65)
      else if 50 \<le> k \<and> k \<le> 55 then int (k + 26 - 50)
      else - 1)"

datatype IDError = BadDigit char | BadLuhnLength | BadCheckDigit | BadBase32 | BadLength
  | BadByteLength | TooShort | PanicLuhnifyLength | PanicMakeSlice

text \<open>The loop of \<open>luhn32\<close>: the factor alternates between one and two.\<close>

fun luhn32_loop :: "int \<Rightarrow> int \<Rightarrow> string \<Rightarrow> (IDError, int) result" where
  "luhn32_loop factor acc [] = Inr acc"
| "luhn32_loop factor acc (c # s) =
     (let codepoint = codepoint32 c in
      if codepoint = - 1 then Inl (BadDigit c)
      else
        let addend = factor * codepoint;
            factor' = (if factor = 2 then 1 else 2);
            addend' = addend div 32 + addend mod 32
        in luhn32_loop factor' (acc + addend') s)"

definition luhn32 :: "string \<Rightarrow> (IDError, char) result" where
  "luhn32 s =
     (case luhn32_loop 1 0 s of
        Inl e \<Rightarrow> Inl e
      | Inr acc \<Rightarrow>
          (let remainder = acc mod 32; checkCodepoint = (32 - remainder) mod 32
           in Inr (luhnBase32 ! nat checkCodepoint)))"

fun luhnify_loop :: "nat \<Rightarrow> string \<Rightarrow> (IDError, string) result" where
  "luhnify_loop 0 s = Inr []"
| "luhnify_loop (Suc n) s =
     (let p = take 13 s in
      case luhn32 p of
        Inl e \<Rightarrow> Inl e
      | Inr l \<Rightarrow>
          (case luhnify_loop n (drop 13 s) of
             Inl e \<Rightarrow> Inl e
           | Inr rest \<Rightarrow> Inr (p @ l # rest)))"

definition luhnify :: "string \<Rightarrow> (IDError, string) result" where
  "luhnify s = (if length s \<noteq> 52 then Inl PanicLuhnifyLength else luhnify_loop 4 s)"

fun unluhnify_loop :: "nat \<Rightarrow> string \<Rightarrow> (IDError, string) result" where
  "unluhnify_loop 0 s = Inr []"
| "unluhnify_loop (Suc n) s =
     (let p = take 13 s in
      case luhn32 p of
        Inl e \<Rightarrow> Inl e
      | Inr l \<Rightarrow>
          (if s ! 13 \<noteq> l then Inl BadCheckDigit
           else
             (case unluhnify_loop n (drop 14 s) of
                Inl e \<Rightarrow> Inl e
              | Inr rest \<Rightarrow> Inr (p @ rest))))"

definition unluhnify :: "string \<Rightarrow> (IDError, string) result" where
  "unluhnify s = (if length s \<noteq> 56 then Inl BadLuhnLength else unluhnify_loop 4 s)"

section \<open>Grouping\<close>

text \<open>
  \<open>chunkify\<close> copies the full groups of seven and puts a dash between them; with no full group
  \<open>make\<close> is asked for a slice of length \<open>-1\<close> and panics.
\<close>

definition chunkify :: "string \<Rightarrow> (IDError, string) result" where
  "chunkify s =
     (let chunks = length s div 7 in
      if chunks = 0 then Inl PanicMakeSlice
      else Inr (go_join ''-'' (map (\<lambda>i. take 7 (drop (i * 7) s)) [0..<chunks])))"

definition unchunkify :: "string \<Rightarrow> string" where
  "unchunkify s = go_replace_char (CHR '' '') [] (go_replace_char (CHR ''-'') [] s)"

definition untypeoify :: "string \<Rightarrow> string" where
  "untypeoify s =
     go_replace_char (CHR ''8'') ''B'' (go_replace_char (CHR ''1'') ''I''
       (go_replace_char (CHR ''0'') ''O'' s))"

section \<open>Device identifiers\<close>

text \<open>An array of 32 bytes is a list of that length, which is the invariant \<open>DeviceID_ok\<close>.\<close>

type_synonym DeviceID = bytes

definition DeviceIDLength :: nat where
  "DeviceIDLength = 32"

definition DeviceID_ok :: "DeviceID \<Rightarrow> bool" where
  "DeviceID_ok n \<longleftrightarrow> length n = DeviceIDLength"

definition repeatedDeviceID :: "uint8 \<Rightarrow> DeviceID" where
  "repeatedDeviceID v = replicate DeviceIDLength v"

definition LocalDeviceID :: DeviceID where
  "LocalDeviceID = repeatedDeviceID 255"

definition GlobalDeviceID :: DeviceID where
  "GlobalDeviceID = repeatedDeviceID 248"

definition EmptyDeviceID :: DeviceID where
  "EmptyDeviceID = replicate DeviceIDLength 0"

definition NewDeviceID :: "(bytes \<Rightarrow> bytes) \<Rightarrow> bytes \<Rightarrow> DeviceID" where
  "NewDeviceID sha256 rawCert = sha256 rawCert"

definition DeviceIDFromBytes :: "bytes \<Rightarrow> (IDError, DeviceID) result" where
  "DeviceIDFromBytes bs = (if length bs \<noteq> DeviceIDLength then Inl BadByteLength else Inr bs)"

definition DeviceID_String :: "DeviceID \<Rightarrow> (IDError, string) result" where
  "DeviceID_String n =
     (if n = EmptyDeviceID then Inr []
      else
        (case luhnify (go_trim_char (CHR ''='') (b32_EncodeToString n)) of
           Inl e \<Rightarrow> Inl e
         | Inr s \<Rightarrow> chunkify s))"

definition DeviceID_Short :: "DeviceID \<Rightarrow> uint64" where
  "DeviceID_Short n = be_Uint64 n"

definition ShortID_String :: "uint64 \<Rightarrow> string" where
  "ShortID_String s = (if s = 0 then [] else take 7 (b32_EncodeToString (be_PutUint64 s)))"

text \<open>
  \<open>UnmarshalText\<close> overwrites the receiver \<open>n\<close>: \<open>copy\<close> writes as many bytes as were decoded and
  leaves the rest. \<open>uni\<close> is the Unicode part of \<open>strings.ToUpper\<close>.
\<close>

definition decode_into :: "DeviceID \<Rightarrow> string \<Rightarrow> (IDError, DeviceID) result" where
  "decode_into n s =
     (case b32_DecodeString (s @ ''===='') of
        None \<Rightarrow> Inl BadBase32
      | Some dec \<Rightarrow> Inr (take (length n) dec @ drop (length dec) n))"

definition UnmarshalText :: "(string \<Rightarrow> string) \<Rightarrow> DeviceID \<Rightarrow> string \<Rightarrow> (IDError, DeviceID) result" where
  "UnmarshalText uni n bs =
     (let s = unchunkify (untypeoify (go_to_upper uni (go_trim_char (CHR ''='') bs))) in
      if length s = 0 then Inr EmptyDeviceID
      else if length s = 56 then
        (case unluhnify s of Inl e \<Rightarrow> Inl e | Inr s' \<Rightarrow> decode_into n s')
      else if length s = 52 then decode_into n s
      else Inl BadLength)"

definition DeviceIDFromString :: "(string \<Rightarrow> string) \<Rightarrow> string \<Rightarrow> (IDError, DeviceID) result" where
  "DeviceIDFromString uni s = UnmarshalText uni EmptyDeviceID s"

definition DeviceID_MarshalTo :: "DeviceID \<Rightarrow> bytes \<Rightarrow> (IDError, bytes) result" where
  "DeviceID_MarshalTo n bs =
     (if length bs < DeviceIDLength then Inl TooShort else Inr (n @ drop DeviceIDLength bs))"

definition DeviceID_Unmarshal :: "bytes \<Rightarrow> (IDError, DeviceID) result" where
  "DeviceID_Unmarshal bs =
     (if length bs < DeviceIDLength then Inl TooShort else Inr (take DeviceIDLength bs))"

section \<open>Base 32 reads back\<close>

lemma length_digits32 [simp]: "length (digits32 n x) = n"
  by (induction n arbitrary: x) auto

lemma digits32_bound: "\<forall>d \<in> set (digits32 n x). d < 32"
  by (induction n arbitrary: x) auto

lemma undigits32_snoc: "undigits32 (ds @ [d]) = undigits32 ds * 32 + d"
  by (simp add: undigits32_def)

lemma undigits32_digits32: "undigits32 (digits32 n x) = x mod 32 ^ n"
proof (induction n arbitrary: x)
  case 0
  then show ?case by (simp add: undigits32_def)
next
  case (Suc n)
  then show ?case by (simp add: undigits32_snoc mod_mult2_eq)
qed

lemma char_code_luhnBase32:
  assumes "d < 32"
  shows "char_code (luhnBase32 ! d) = (if d < 26 then 65 + d else 24 + d)"
proof -
  have "\<forall>d \<in> {0..<32}. char_code (luhnBase32 ! d) = (if d < 26 then 65 + d else 24 + d)"
    by (simp add: atLeastLessThan_upt upt_rec luhnBase32_def char_code_def)
  then show ?thesis using assms by simp
qed

lemma b32_value_digit: "d < 32 \<Longrightarrow> b32_value (luhnBase32 ! d) = Some d"
  by (auto simp: b32_value_def Let_def char_code_luhnBase32)

lemma luhnBase32_not_pad: "d < 32 \<Longrightarrow> luhnBase32 ! d \<noteq> CHR ''=''"
  using char_code_luhnBase32 [of d] by (auto simp: char_code_def split: if_splits)

lemma b32_quantum_digits:
  "\<forall>d \<in> set ds. d < 32 \<Longrightarrow> length ds \<le> left \<Longrightarrow>
   b32_quantum left (map (\<lambda>d. luhnBase32 ! d) ds @ rest) dbuf =
   b32_quantum (left - length ds) rest (dbuf @ ds)"
proof (induction ds arbitrary: left dbuf)
  case (Cons d ds)
  then obtain l where "left = Suc l" by (cases left) auto
  with Cons show ?case by (simp add: b32_value_digit luhnBase32_not_pad Let_def)
qed simp

lemma digits32_append: "digits32 (m + n) x = digits32 m (x div 32 ^ n) @ digits32 n x"
  by (induction n arbitrary: x) (simp_all add: div_mult2_eq)

lemma digits32_multiple: "digits32 n (k * 32 ^ n) = replicate n 0"
proof (induction n arbitrary: k)
  case (Suc n)
  have "k * 32 ^ Suc n div 32 = k * 32 ^ n" and "k * 32 ^ Suc n mod 32 = 0" by simp_all
  with Suc show ?case by (simp add: replicate_append_same)
qed simp

lemma b32_quantum_bytes_encode:
  assumes "length bs \<in> {2, 5}"
  shows "b32_quantum_bytes (take ((8 * length bs + 4) div 5)
      (digits32 8 (get_be (bs @ replicate (5 - length bs) 0)))) = bs"
proof -
  let ?x = "get_be (bs @ replicate (5 - length bs) 0)"
  have len: "length (bs @ replicate (5 - length bs) (0 :: uint8)) = 5" using assms by auto
  have bound: "?x < 32 ^ 8" using get_be_bound [of "bs @ replicate (5 - length bs) 0"] len by simp
  have put: "put_be 5 ?x = bs @ replicate (5 - length bs) 0"
    using put_get_be [of "bs @ replicate (5 - length bs) 0"] len by simp
  consider (five) "length bs = 5" | (two) "length bs = 2" using assms by auto
  then show ?thesis
  proof cases
    case five
    then show ?thesis using put bound by (simp add: b32_quantum_bytes_def undigits32_digits32)
  next
    case two
    then obtain a b where bs: "bs = [a, b]" by (auto simp: numeral_2_eq_2 length_Suc_conv)
    have "get_be (bs @ replicate 3 0) = ((unat a * 256 + unat b) * 16) * 32 ^ 4"
      by (simp add: bs get_be_def numeral_3_eq_3)
    then have x: "?x = ((unat a * 256 + unat b) * 16) * 32 ^ 4" using two by simp
    have "digits32 8 ?x = digits32 4 (?x div 32 ^ 4) @ digits32 4 ?x"
      using digits32_append [of 4 4] by simp
    moreover have "digits32 4 ?x = replicate 4 0" unfolding x by (rule digits32_multiple)
    ultimately have "take 4 (digits32 8 ?x) @ replicate 4 0 = digits32 8 ?x" by simp
    then show ?thesis using put bound two
      by (simp add: b32_quantum_bytes_def undigits32_digits32)
  qed
qed

lemma b32_encode_five:
  assumes "length bs = 5"
  shows "b32_encode_quantum bs = map (\<lambda>d. luhnBase32 ! d) (digits32 8 (get_be bs))"
  using assms by (simp add: b32_encode_quantum_def Let_def)

lemma b32_decode_five:
  assumes "length bs = 5" and "b32_decode s = Some cs"
  shows "b32_decode (b32_encode_quantum bs @ s) = Some (bs @ cs)"
proof -
  have q: "b32_quantum 8 (b32_encode_quantum bs @ s) [] = Some (digits32 8 (get_be bs), s, False)"
    using b32_quantum_digits [OF digits32_bound, of 8 "get_be bs" 8 s "[]"] assms
    by (simp add: b32_encode_five)
  have ne: "b32_encode_quantum bs @ s \<noteq> []"
    using length_digits32 [of 8 "get_be bs"] by (auto simp: b32_encode_five [OF assms(1)] dest!: arg_cong [where f = length])
  have "b32_quantum_bytes (digits32 8 (get_be bs)) = bs"
    using b32_quantum_bytes_encode [of bs] assms(1) by simp
  with q ne assms(2) show ?thesis by (subst b32_decode.simps) auto
qed

lemma b32_quantum_pad: "length ds = 4 \<Longrightarrow> b32_quantum (Suc 3) ''===='' ds = Some (ds, ''==='', True)"
proof -
  assume len: "length ds = 4"
  have "''==='' ! k = CHR ''=''" if "k < 3" for k
    using that by (auto simp: numeral_3_eq_3 less_Suc_eq)
  with len show ?thesis unfolding b32_quantum.simps(3) by auto
qed

lemma b32_encode_two:
  assumes "length bs = 2"
  shows "b32_encode_quantum bs =
    map (\<lambda>d. luhnBase32 ! d) (take 4 (digits32 8 (get_be (bs @ replicate 3 0)))) @ ''====''"
proof -
  have "replicate 4 (CHR ''='') = ''====''" by (simp add: numeral_nat)
  then show ?thesis using assms by (simp add: b32_encode_quantum_def Let_def)
qed

lemma b32_decode_two:
  assumes "length bs = 2"
  shows "b32_decode (b32_encode_quantum bs) = Some bs"
proof -
  define ds where "ds = take 4 (digits32 8 (get_be (bs @ replicate 3 0)))"
  have enc: "b32_encode_quantum bs = map (\<lambda>d. luhnBase32 ! d) ds @ ''===='' "
    unfolding ds_def by (rule b32_encode_two [OF assms])
  have len: "length ds = 4" by (simp add: ds_def)
  have b: "\<forall>d \<in> set ds. d < 32" unfolding ds_def using digits32_bound by (meson in_set_takeD)
  have "b32_quantum 8 (b32_encode_quantum bs) [] = b32_quantum (Suc 3) ''===='' ds"
    unfolding enc using b32_quantum_digits [OF b, of 8 "''====''" "[]"] len by simp
  with b32_quantum_pad [OF len]
  have q: "b32_quantum 8 (b32_encode_quantum bs) [] = Some (ds, ''==='', True)" by simp
  have "b32_quantum_bytes ds = bs"
    using b32_quantum_bytes_encode [of bs] assms by (simp add: ds_def)
  with q show ?thesis by (subst b32_decode.simps) (simp add: enc)
qed

lemma b32_decode_encode:
  "length bs mod 5 \<in> {0, 2} \<Longrightarrow> b32_decode (b32_EncodeToString bs) = Some bs"
proof (induction bs rule: b32_EncodeToString.induct)
  case (1 bs)
  show ?case
  proof (cases "length bs < 5")
    case True
    show ?thesis
    proof (cases "bs = []")
      case True
      then show ?thesis by (simp add: b32_EncodeToString.simps [of "[]"] b32_decode.simps [of "[]"])
    next
      case False
      with True 1(2) have "length bs = 2" by auto
      with False show ?thesis
        by (subst b32_EncodeToString.simps) (simp add: b32_EncodeToString.simps [of "[]"] b32_decode_two)
    qed
  next
    case False
    then have "bs \<noteq> []" by auto
    moreover have "length (drop 5 bs) mod 5 \<in> {0, 2}"
      using 1(2) False le_mod_geq [of 5 "length bs"] by simp
    ultimately have "b32_decode (b32_EncodeToString (drop 5 bs)) = Some (drop 5 bs)" by (rule 1(1))
    then show ?thesis using False b32_decode_five [of "take 5 bs"] \<open>bs \<noteq> []\<close>
      by (subst b32_EncodeToString.simps) simp
  qed
qed

section \<open>The characters of the text form\<close>

lemma nth_luhnBase32_mem: "d < 32 \<Longrightarrow> luhnBase32 ! d \<in> set luhnBase32"
  by (rule nth_mem) (simp add: luhnBase32_def)

lemma alphabet_chars:
  assumes "c \<in> insert (CHR ''-'') (set luhnBase32)"
  shows "char_code c < 128 \<and> ascii_upper c = c \<and> char_code c \<noteq> 10 \<and> char_code c \<noteq> 13 \<and>
    c \<notin> set ''=018 ''"
proof -
  have "\<forall>c \<in> set (CHR ''-'' # luhnBase32). char_code c < 128 \<and> ascii_upper c = c \<and>
      char_code c \<noteq> 10 \<and> char_code c \<noteq> 13 \<and> c \<notin> set ''=018 ''"
    by (simp add: luhnBase32_def ascii_upper_def char_code_def)
  moreover have "c \<in> set (CHR ''-'' # luhnBase32)" using assms by simp
  ultimately show ?thesis by blast
qed

lemma dash_not_alphabet: "CHR ''-'' \<notin> set luhnBase32"
  by (simp add: luhnBase32_def)

lemma b32_encode_shape:
  "length bs mod 5 = 2 \<Longrightarrow>
   \<exists>body. b32_EncodeToString bs = body @ ''===='' \<and> set body \<subseteq> set luhnBase32 \<and>
     length body = (8 * length bs + 4) div 5"
proof (induction bs rule: b32_EncodeToString.induct)
  case (1 bs)
  have alpha: "set (map (\<lambda>d. luhnBase32 ! d) ds) \<subseteq> set luhnBase32" if "\<forall>d \<in> set ds. d < 32" for ds
    using that nth_luhnBase32_mem by auto
  have ne: "bs \<noteq> []" using 1(2) by auto
  show ?case
  proof (cases "length bs < 5")
    case True
    then have two: "length bs = 2" using 1(2) by simp
    have "\<forall>d \<in> set (take 4 (digits32 8 (get_be (bs @ replicate 3 0)))). d < 32"
      using digits32_bound by (meson in_set_takeD)
    from alpha [OF this] show ?thesis using two ne
      by (subst b32_EncodeToString.simps)
        (simp add: b32_encode_two b32_EncodeToString.simps [of "[]"])
  next
    case False
    then have "length (drop 5 bs) mod 5 = 2" using 1(2) le_mod_geq [of 5 "length bs"] by simp
    from 1(1) [OF ne this] obtain body where body: "b32_EncodeToString (drop 5 bs) = body @ ''===='' "
      "set body \<subseteq> set luhnBase32" "length body = (8 * length (drop 5 bs) + 4) div 5" by blast
    let ?pre = "map (\<lambda>d. luhnBase32 ! d) (digits32 8 (get_be (take 5 bs)))"
    have "b32_EncodeToString bs = (?pre @ body) @ ''===='' "
      using ne False body(1) by (subst b32_EncodeToString.simps) (simp add: b32_encode_five)
    moreover have "set (?pre @ body) \<subseteq> set luhnBase32" using alpha [OF digits32_bound] body(2) by simp
    moreover have "length (?pre @ body) = (8 * length bs + 4) div 5" using False body(3) by simp
    ultimately show ?thesis by blast
  qed
qed

lemma go_trim_char_suffix:
  assumes "c \<notin> set s"
  shows "go_trim_char c (s @ replicate k c) = s"
proof -
  have d: "dropWhile (\<lambda>x. x = c) (replicate k c @ t) = t" if "c \<notin> set t" for t
    using that by (induction k) (auto simp: dropWhile_eq_self_iff neq_Nil_conv)
  have e: "dropWhile (\<lambda>x. x = c) (replicate k c) = []" by (induction k) auto
  show ?thesis
  proof (cases "s = []")
    case True
    then show ?thesis by (simp add: go_trim_char_def e)
  next
    case False
    with assms have "dropWhile (\<lambda>x. x = c) (s @ replicate k c) = s @ replicate k c"
      by (cases s) auto
    then show ?thesis using assms by (simp add: go_trim_char_def d)
  qed
qed

section \<open>Check digits\<close>

lemma codepoint32_alphabet:
  assumes "c \<in> set luhnBase32"
  shows "0 \<le> codepoint32 c" "codepoint32 c < 32"
proof -
  have "\<forall>c \<in> set luhnBase32. 0 \<le> codepoint32 c \<and> codepoint32 c < 32"
    by (simp add: luhnBase32_def codepoint32_def char_code_def)
  then show "0 \<le> codepoint32 c" "codepoint32 c < 32" using assms by blast+
qed

lemma luhn32_loop_alphabet: "set s \<subseteq> set luhnBase32 \<Longrightarrow> \<exists>r. luhn32_loop f a s = Inr r"
proof (induction s arbitrary: f a)
  case (Cons c s)
  then have "codepoint32 c \<noteq> - 1" using codepoint32_alphabet [of c] by auto
  with Cons show ?case by (simp add: Let_def)
qed simp

lemma luhn32_alphabet:
  assumes "set s \<subseteq> set luhnBase32"
  obtains l where "luhn32 s = Inr l" and "l \<in> set luhnBase32"
proof -
  obtain r where "luhn32_loop 1 0 s = Inr r" using luhn32_loop_alphabet [OF assms] by blast
  moreover have "luhnBase32 ! nat ((32 - r mod 32) mod 32) \<in> set luhnBase32"
    by (rule nth_luhnBase32_mem) (simp add: nat_less_iff)
  ultimately show ?thesis using that by (simp add: luhn32_def Let_def)
qed

lemma luhnify_loop_read:
  "set s \<subseteq> set luhnBase32 \<Longrightarrow> length s = 13 * n \<Longrightarrow>
   \<exists>t. luhnify_loop n s = Inr t \<and> length t = 14 * n \<and> set t \<subseteq> set luhnBase32 \<and>
     unluhnify_loop n t = Inr s"
proof (induction n arbitrary: s)
  case (Suc n)
  have p: "set (take 13 s) \<subseteq> set luhnBase32" by (rule subset_trans [OF set_take_subset Suc.prems(1)])
  obtain l where l: "luhn32 (take 13 s) = Inr l" "l \<in> set luhnBase32" by (rule luhn32_alphabet [OF p])
  have "length (drop 13 s) = 13 * n" using Suc.prems(2) by simp
  from Suc.IH [OF subset_trans [OF set_drop_subset Suc.prems(1)] this] obtain t where t: "luhnify_loop n (drop 13 s) = Inr t" "length t = 14 * n"
    "set t \<subseteq> set luhnBase32" "unluhnify_loop n t = Inr (drop 13 s)" by blast
  have len: "length (take 13 s) = 13" using Suc.prems(2) by simp
  have parts: "take 13 (take 13 s @ l # t) = take 13 s" "drop 14 (take 13 s @ l # t) = t"
    "(take 13 s @ l # t) ! 13 = l"
    using len by (simp_all add: nth_append)
  have "luhnify_loop (Suc n) s = Inr (take 13 s @ l # t)" using l t by simp
  moreover have "unluhnify_loop (Suc n) (take 13 s @ l # t) = Inr s"
    unfolding unluhnify_loop.simps Let_def parts l(1) by (simp add: t(4))
  moreover have "length (take 13 s @ l # t) = 14 * Suc n" using len t(2) by simp
  moreover have "set (take 13 s @ l # t) \<subseteq> set luhnBase32" using p t(3) l(2) by simp
  ultimately show ?case by blast
qed simp

text \<open>Every value of the running sum shifts the result, so a changed digit changes the check.\<close>

definition luhn_weight :: "int \<Rightarrow> char \<Rightarrow> int" where
  "luhn_weight f c = f * codepoint32 c div 32 + f * codepoint32 c mod 32"

lemma luhn32_loop_Cons:
  "luhn32_loop f a (c # s) =
     (if codepoint32 c = - 1 then Inl (BadDigit c)
      else luhn32_loop (if f = 2 then 1 else 2) (a + luhn_weight f c) s)"
  by (simp add: Let_def luhn_weight_def)

lemma luhn32_loop_shift:
  "luhn32_loop f a s = Inr r \<Longrightarrow> luhn32_loop f (a + d) s = Inr (r + d)"
proof (induction s arbitrary: f a)
  case (Cons c s)
  let ?g = "if f = 2 then 1 else 2 :: int"
  have c: "codepoint32 c \<noteq> - 1" "luhn32_loop ?g (a + luhn_weight f c) s = Inr r"
    using Cons.prems by (auto simp: luhn32_loop_Cons simp del: luhn32_loop.simps(2) split: if_splits)
  from Cons.IH [OF c(2)] have "luhn32_loop ?g (a + d + luhn_weight f c) s = Inr (r + d)"
    by (simp only: ac_simps)
  with c(1) show ?case by (simp add: luhn32_loop_Cons del: luhn32_loop.simps(2))
qed simp

lemma codepoint32_inj:
  assumes "codepoint32 c = codepoint32 d" and "codepoint32 c \<noteq> - 1"
  shows "c = d"
proof -
  have "char_code c = char_code d"
    using assms by (auto simp: codepoint32_def Let_def split: if_splits)
  then show ?thesis by (simp add: char_code_def)
qed

lemma codepoint32_range: "codepoint32 c \<noteq> - 1 \<Longrightarrow> 0 \<le> codepoint32 c \<and> codepoint32 c < 32"
  by (auto simp: codepoint32_def Let_def split: if_splits)

lemma doubled_digit: "16 \<le> x \<Longrightarrow> x < 32 \<Longrightarrow> 2 * x div 32 = 1 \<and> 2 * x mod 32 = 2 * x - 32" for x :: int
  by presburger

lemma luhn_weight_inj:
  assumes "f = 1 \<or> f = 2" and "codepoint32 c \<noteq> - 1" and "codepoint32 d \<noteq> - 1"
    and "luhn_weight f c mod 32 = luhn_weight f d mod 32"
  shows "c = d"
proof -
  have w: "luhn_weight f e = (if f = 1 \<or> codepoint32 e < 16 then f * codepoint32 e else 2 * codepoint32 e - 31)"
    if "codepoint32 e \<noteq> - 1" for e
    using codepoint32_range [OF that] assms(1) doubled_digit [of "codepoint32 e"]
    by (cases "codepoint32 e < 16") (auto simp: luhn_weight_def)
  have r: "0 \<le> luhn_weight f e \<and> luhn_weight f e < 32" if "codepoint32 e \<noteq> - 1" for e
    using codepoint32_range [OF that] assms(1) by (auto simp: w [OF that])
  have "luhn_weight f c = luhn_weight f d" using r [OF assms(2)] r [OF assms(3)] assms(4) by simp
  then have "codepoint32 c = codepoint32 d"
    using assms(1) codepoint32_range [OF assms(2)] codepoint32_range [OF assms(3)]
    unfolding w [OF assms(2)] w [OF assms(3)] by (auto split: if_splits) presburger+
  then show ?thesis using codepoint32_inj assms(2) by blast
qed

lemma luhn32_loop_differs:
  assumes "f = 1 \<or> f = 2"
    and "luhn32_loop f a (xs @ c # ys) = Inr r" and "luhn32_loop f a (xs @ d # ys) = Inr r'" and "c \<noteq> d"
  shows "r mod 32 \<noteq> r' mod 32"
  using assms(1-3)
proof (induction xs arbitrary: f a)
  case Nil
  then have cd: "codepoint32 c \<noteq> - 1" "codepoint32 d \<noteq> - 1"
    by (auto simp: luhn32_loop_Cons simp del: luhn32_loop.simps(2) split: if_splits)
  let ?g = "if f = 2 then 1 else 2 :: int"
  have "luhn32_loop ?g (a + luhn_weight f c) ys = Inr r"
    using Nil(2) cd by (simp add: luhn32_loop_Cons del: luhn32_loop.simps(2))
  from luhn32_loop_shift [OF this, of "luhn_weight f d - luhn_weight f c"]
  have "luhn32_loop ?g (a + luhn_weight f d) ys = Inr (r + (luhn_weight f d - luhn_weight f c))" by simp
  then have r': "r' = r + (luhn_weight f d - luhn_weight f c)"
    using Nil(3) cd by (simp add: luhn32_loop_Cons del: luhn32_loop.simps(2))
  show ?case
  proof
    assume "r mod 32 = r' mod 32"
    then have "luhn_weight f c mod 32 = luhn_weight f d mod 32"
      unfolding r' by (simp add: mod_eq_dvd_iff)
    then show False using luhn_weight_inj [OF Nil(1) cd] assms(4) by blast
  qed
next
  case (Cons x xs)
  let ?g = "if f = 2 then 1 else 2 :: int"
  have "luhn32_loop ?g (a + luhn_weight f x) (xs @ c # ys) = Inr r"
    and "luhn32_loop ?g (a + luhn_weight f x) (xs @ d # ys) = Inr r'"
    using Cons.prems(2,3) by (auto simp: luhn32_loop_Cons simp del: luhn32_loop.simps(2) split: if_splits)
  then show ?case by (intro Cons.IH [of ?g]) auto
qed

lemma luhnBase32_inj: "i < 32 \<Longrightarrow> j < 32 \<Longrightarrow> luhnBase32 ! i = luhnBase32 ! j \<Longrightarrow> i = j"
  by (metis b32_value_digit option.inject)

lemma luhn32_differs:
  assumes "luhn32 (xs @ c # ys) = Inr l" and "luhn32 (xs @ d # ys) = Inr l'" and "c \<noteq> d"
  shows "l \<noteq> l'"
proof
  assume eq: "l = l'"
  obtain r r' where r: "luhn32_loop 1 0 (xs @ c # ys) = Inr r" "luhn32_loop 1 0 (xs @ d # ys) = Inr r'"
    and l: "l = luhnBase32 ! nat ((32 - r mod 32) mod 32)" "l' = luhnBase32 ! nat ((32 - r' mod 32) mod 32)"
    using assms(1,2) by (auto simp: luhn32_def Let_def split: sum.splits)
  have "nat ((32 - r mod 32) mod 32) = nat ((32 - r' mod 32) mod 32)"
    by (rule luhnBase32_inj) (use eq l in \<open>simp_all add: nat_less_iff\<close>)
  then have "(32 - r mod 32) mod 32 = (32 - r' mod 32) mod 32" by (simp add: eq_nat_nat_iff)
  then have "(32 - r) mod 32 = (32 - r') mod 32" by (simp only: mod_diff_right_eq)
  then have "32 dvd r' - r" by (simp only: mod_eq_dvd_iff) simp
  then have "r mod 32 = r' mod 32" by (simp add: mod_eq_dvd_iff dvd_diff_commute)
  with luhn32_loop_differs [OF _ r assms(3)] show False by simp
qed

lemma unluhnify_loop_substitution:
  "unluhnify_loop n s = Inr t \<Longrightarrow> length s = 14 * n \<Longrightarrow> i < length s \<Longrightarrow> d \<noteq> s ! i \<Longrightarrow>
   \<exists>e. unluhnify_loop n (s[i := d]) = Inl e"
proof (induction n arbitrary: s t i)
  case (Suc n)
  obtain l rest where l: "luhn32 (take 13 s) = Inr l" "s ! 13 = l" "unluhnify_loop n (drop 14 s) = Inr rest"
    using Suc.prems(1) by (auto simp: Let_def split: sum.splits if_splits)
  have len: "length (drop 14 s) = 14 * n" using Suc.prems(2) by simp
  consider (digit) "i < 13" | (check) "i = 13" | (later) "14 \<le> i" by linarith
  then show ?case
  proof cases
    case digit
    define xs where "xs = take i s"
    define ys where "ys = drop (Suc i) (take 13 s)"
    have i: "i < length (take 13 s)" and xs: "take i (take 13 s) = xs"
      using digit Suc.prems(2) by (simp_all add: xs_def min_def)
    have "take 13 s = xs @ take 13 s ! i # ys"
      unfolding ys_def xs [symmetric] by (rule id_take_nth_drop [OF i])
    moreover have "take 13 (s[i := d]) = xs @ d # ys"
      unfolding take_update_swap upd_conv_take_nth_drop [OF i] xs ys_def ..
    ultimately have split: "take 13 s = xs @ s ! i # ys" "take 13 (s[i := d]) = xs @ d # ys"
      using digit by simp_all
    have s13: "s[i := d] ! 13 = l" using digit l(2) by simp
    show ?thesis
    proof (cases "luhn32 (take 13 (s[i := d]))")
      case (Inr l')
      then have "l \<noteq> l'" using luhn32_differs [of xs "s ! i" ys l d l'] l(1) split Suc.prems(4) by simp
      with Inr s13 show ?thesis by (simp add: Let_def)
    qed (simp add: Let_def)
  next
    case check
    then have "s[i := d] ! 13 = d" using Suc.prems(2) by simp
    then show ?thesis using l Suc.prems(4) check by (simp add: Let_def)
  next
    case later
    have "d \<noteq> drop 14 s ! (i - 14)" and "i - 14 < length (drop 14 s)"
      using later Suc.prems(2-4) by (simp_all add: less_diff_conv2)
    then obtain e where "unluhnify_loop n ((drop 14 s)[i - 14 := d]) = Inl e"
      using Suc.IH [OF l(3) len, of "i - 14"] by blast
    moreover have "drop 14 (s[i := d]) = (drop 14 s)[i - 14 := d]" "s[i := d] ! 13 = l"
      using later l(2) by (simp_all add: drop_update_swap)
    ultimately show ?thesis using later l(1) by (simp add: Let_def)
  qed
qed simp

section \<open>Grouping\<close>

lemma concat_chunks: "concat (map (\<lambda>i. take k (drop (i * k) s)) [0..<n]) = take (n * k) s"
proof (induction n)
  case (Suc n)
  have "take (Suc n * k) s = take (n * k) s @ take k (drop (n * k) s)"
    using take_add [of "n * k" k s] by (simp add: add.commute)
  with Suc show ?case by simp
qed simp

lemma filter_join:
  "\<forall>p \<in> set ps. c \<notin> set p \<Longrightarrow> filter (\<lambda>x. x \<noteq> c) (go_join [c] ps) = concat ps"
proof (induction "[c]" ps rule: go_join.induct)
  case (3 p q ps)
  moreover have "filter (\<lambda>x. x \<noteq> c) p = p" using 3 by (intro filter_True) auto
  ultimately show ?case by simp
qed (auto intro!: filter_True)

lemma set_go_join: "set (go_join [c] ps) \<subseteq> insert c (\<Union> (set ` set ps))"
  by (induction "[c]" ps rule: go_join.induct) auto

lemma chunkify_read:
  assumes "length s = 56" and "set s \<subseteq> set luhnBase32"
  obtains t where "chunkify s = Inr t" and "filter (\<lambda>x. x \<noteq> CHR ''-'') t = s"
    and "set t \<subseteq> insert (CHR ''-'') (set luhnBase32)"
proof -
  let ?ps = "map (\<lambda>i. take 7 (drop (i * 7) s)) [0..<8]"
  have sub: "set p \<subseteq> set luhnBase32" if "p \<in> set ?ps" for p
  proof -
    from that obtain i where "p = take 7 (drop (i * 7) s)" by auto
    then show ?thesis using assms(2) by (meson in_set_dropD in_set_takeD subsetD subsetI)
  qed
  then have "\<forall>p \<in> set ?ps. CHR ''-'' \<notin> set p" using dash_not_alphabet by blast
  from filter_join [OF this] have "filter (\<lambda>x. x \<noteq> CHR ''-'') (go_join ''-'' ?ps) = s"
    using concat_chunks [of 7 s 8] assms(1) by simp
  moreover have "chunkify s = Inr (go_join ''-'' ?ps)" using assms(1) by (simp add: chunkify_def)
  moreover have "set (go_join ''-'' ?ps) \<subseteq> insert (CHR ''-'') (set luhnBase32)"
    using set_go_join [of "CHR ''-''" ?ps] sub by blast
  ultimately show ?thesis using that by blast
qed

lemma canonical_text_unchanged:
  assumes "set t \<subseteq> insert (CHR ''-'') (set luhnBase32)"
  shows "unchunkify (untypeoify (go_to_upper uni (go_trim_char (CHR ''='') t))) =
    filter (\<lambda>x. x \<noteq> CHR ''-'') t"
proof -
  have c: "char_code c < 128 \<and> ascii_upper c = c \<and> c \<notin> set ''=018 ''" if "c \<in> set t" for c
    using alphabet_chars [of c] that assms by blast
  then have n: "CHR ''='' \<notin> set t" "CHR ''0'' \<notin> set t" "CHR ''1'' \<notin> set t" "CHR ''8'' \<notin> set t"
    "CHR '' '' \<notin> set t"
    by (metis list.set_intros)+
  have up: "go_to_upper uni t = t"
    using c by (simp add: go_to_upper_def is_ascii_def list_all_iff map_idI)
  show ?thesis
    using n by (auto simp: go_trim_char_id up untypeoify_def go_replace_char_id unchunkify_def
        go_replace_char_Nil intro!: filter_cong)
qed

section \<open>Properties\<close>

text \<open>C30. Every device id has a canonical text form (no panic, no error), and parsing that form
  gives the id back.\<close>

theorem DeviceID_String_roundtrip:
  assumes "DeviceID_ok n"
  shows "\<exists>s. DeviceID_String n = Inr s \<and> DeviceIDFromString uni s = Inr n"
proof (cases "n = EmptyDeviceID")
  case True
  have "DeviceIDFromString uni [] = Inr EmptyDeviceID"
    unfolding DeviceIDFromString_def UnmarshalText_def
    using canonical_text_unchanged [of "[]" uni] by (simp only: Let_def) simp
  then show ?thesis unfolding True DeviceID_String_def by simp
next
  case False
  have len: "length n = 32" using assms by (simp add: DeviceID_ok_def DeviceIDLength_def)
  obtain body where body: "b32_EncodeToString n = body @ ''===='' " "set body \<subseteq> set luhnBase32"
    "length body = 52"
    using b32_encode_shape [of n] len by auto
  have "CHR ''='' \<notin> set body" using alphabet_chars [of "CHR ''=''"] body(2) by auto
  from go_trim_char_suffix [OF this, of 4]
  have trim: "go_trim_char (CHR ''='') (b32_EncodeToString n) = body"
    using body(1) by (simp add: numeral_nat)
  obtain l where l: "luhnify body = Inr l" "length l = 56" "set l \<subseteq> set luhnBase32" "unluhnify l = Inr body"
    using luhnify_loop_read [OF body(2), of 4] body(3) by (auto simp: luhnify_def unluhnify_def)
  obtain t where t: "chunkify l = Inr t" "filter (\<lambda>x. x \<noteq> CHR ''-'') t = l"
    "set t \<subseteq> insert (CHR ''-'') (set luhnBase32)"
    using l(2,3) by (rule chunkify_read)
  have nl: "filter (\<lambda>c. char_code c \<noteq> 10 \<and> char_code c \<noteq> 13) (body @ ''===='') = body @ ''===='' "
    using alphabet_chars body(2) by (auto simp: char_code_def intro!: filter_True)
  have "b32_DecodeString (body @ ''===='') = Some n"
    unfolding b32_DecodeString_def nl using b32_decode_encode [of n] body(1) len by simp
  then have "decode_into EmptyDeviceID body = Inr n"
    using len by (simp add: decode_into_def EmptyDeviceID_def DeviceIDLength_def)
  then have "DeviceIDFromString uni t = Inr n"
    unfolding DeviceIDFromString_def UnmarshalText_def Let_def canonical_text_unchanged [OF t(3)] t(2)
    using l(2,4) by simp
  then show ?thesis using False trim l(1) t(1) by (simp add: DeviceID_String_def)
qed

theorem DeviceID_String_roundtrip_witness:
  "DeviceID_ok LocalDeviceID \<and>
   (\<exists>s. DeviceID_String LocalDeviceID = Inr s \<and> DeviceIDFromString (\<lambda>x. x) s = Inr LocalDeviceID)"
proof -
  have "DeviceID_ok LocalDeviceID"
    by (simp add: DeviceID_ok_def LocalDeviceID_def repeatedDeviceID_def)
  then show ?thesis using DeviceID_String_roundtrip by blast
qed

text \<open>C38. The check digits catch every single mistyped character: replacing one character of a
  56 character id that \<open>unluhnify\<close> accepts, check digit or not, makes it an error.\<close>

theorem unluhnify_detects_substitution:
  assumes "unluhnify s = Inr t" and "i < 56" and "d \<noteq> s ! i"
  shows "\<exists>e. unluhnify (s[i := d]) = Inl e"
proof -
  have len: "length s = 56" and ok: "unluhnify_loop 4 s = Inr t"
    using assms(1) by (auto simp: unluhnify_def split: if_splits)
  then show ?thesis
    using unluhnify_loop_substitution [OF ok, of i d] assms(2,3) by (simp add: unluhnify_def)
qed

theorem unluhnify_detects_substitution_witness:
  "unluhnify (replicate 56 (CHR ''A'')) = Inr (replicate 52 (CHR ''A'')) \<and>
   (\<exists>e. unluhnify ((replicate 56 (CHR ''A''))[20 := CHR ''B'']) = Inl e)"
proof -
  have "unluhnify (replicate 56 (CHR ''A'')) = Inr (replicate 52 (CHR ''A''))" by code_simp
  from this unluhnify_detects_substitution [OF this, of 20 "CHR ''B''"] show ?thesis by simp
qed

end
