(* ===== verification/BlockPull.thy ===== *)
theory BlockPull
  imports FileInfo DeviceID "HOL-Library.List_Lexorder" "HOL-Library.Multiset"
begin

text \<open>
  The order in which the blocks of a file are pulled, \<open>lib/model/blockpullreorderer.go\<close>, and the
  choice of the device to pull from, \<open>lib/model/deviceactivity.go\<close>. The random permutation
  \<open>rand.Shuffle\<close> is a parameter; what is relied on is that it permutes its argument.
\<close>

section \<open>Reordering\<close>

datatype BlockPullOrder = BlockPullOrderStandard | BlockPullOrderRandom | BlockPullOrderInOrder

record standardBlockPullReorderer =
  myIndex :: nat
  deviceCount :: nat

datatype blockPullReorderer =
  inOrderBlockPullReorderer | randomOrderBlockPullReorderer | Standard standardBlockPullReorderer

text \<open>
  \<open>DeviceID.Compare\<close> is \<open>bytes.Compare\<close>, the lexicographic order; ids that compare equal are
  equal, so any sorting algorithm returns the same list. \<open>None\<close> is the panic.
\<close>

fun find_index_loop :: "'a \<Rightarrow> nat \<Rightarrow> 'a list \<Rightarrow> nat option" where
  "find_index_loop x i [] = None"
| "find_index_loop x i (y # ys) = (if y = x then Some i else find_index_loop x (i + 1) ys)"

definition newStandardBlockPullReorderer :: "DeviceID \<Rightarrow> DeviceID list \<Rightarrow> standardBlockPullReorderer option" where
  "newStandardBlockPullReorderer myID otherDevices =
     (let allDevices = sort (otherDevices @ [myID]) in
      map_option (\<lambda>i. \<lparr>myIndex = i, deviceCount = length allDevices\<rparr>) (find_index_loop myID 0 allDevices))"

definition newBlockPullReorderer :: "BlockPullOrder \<Rightarrow> DeviceID \<Rightarrow> DeviceID list \<Rightarrow> blockPullReorderer option" where
  "newBlockPullReorderer order myID otherDevices =
     (case order of
        BlockPullOrderRandom \<Rightarrow> Some randomOrderBlockPullReorderer
      | BlockPullOrderInOrder \<Rightarrow> Some inOrderBlockPullReorderer
      | _ \<Rightarrow> map_option Standard (newStandardBlockPullReorderer myID otherDevices))"

text \<open>
  The loop of \<open>chunk\<close> from index \<open>i\<close>. Its step is positive whenever the loop is entered, since
  then there is at least one block (\<open>chunkSize_pos\<close>); the test for a zero step, which would loop
  forever, makes the function total and is never taken.
\<close>

function chunk_loop :: "nat \<Rightarrow> 'a list \<Rightarrow> nat \<Rightarrow> 'a list list" where
  "chunk_loop chunkSize blocks i =
     (if i < length blocks \<and> 0 < chunkSize then
        (let end = (if i + chunkSize > length blocks then length blocks else i + chunkSize)
         in take (end - i) (drop i blocks) # chunk_loop chunkSize blocks (i + chunkSize))
      else [])"
  by pat_completeness auto
termination
  by (relation "measure (\<lambda>(c, b, i). length b - i)") auto

declare chunk_loop.simps [simp del]

definition chunk :: "'a list \<Rightarrow> nat \<Rightarrow> 'a list list" where
  "chunk blocks partCount =
     (if partCount = 0 then [blocks]
      else chunk_loop ((length blocks + partCount - 1) div partCount) blocks 0)"

definition standard_Reorder :: "(nat list \<Rightarrow> nat list) \<Rightarrow> standardBlockPullReorderer \<Rightarrow> 'a list \<Rightarrow> 'a list" where
  "standard_Reorder shuffle p blocks =
     (if length blocks = 0 then blocks
      else
        let chunks = chunk blocks (deviceCount p);
            newBlocks = (if myIndex p < length chunks then chunks ! myIndex p else []);
            indexes = shuffle (filter (\<lambda>i. i \<noteq> myIndex p) [0..<length chunks])
        in newBlocks @ concat (map (\<lambda>idx. chunks ! idx) indexes))"

definition Reorder ::
  "(BlockInfo list \<Rightarrow> BlockInfo list) \<Rightarrow> (nat list \<Rightarrow> nat list) \<Rightarrow> blockPullReorderer \<Rightarrow> BlockInfo list \<Rightarrow> BlockInfo list" where
  "Reorder shuffle_blocks shuffle r blocks =
     (case r of
        inOrderBlockPullReorderer \<Rightarrow> blocks
      | randomOrderBlockPullReorderer \<Rightarrow> shuffle_blocks blocks
      | Standard p \<Rightarrow> standard_Reorder shuffle p blocks)"

section \<open>Device activity\<close>

record Availability =
  av_ID :: DeviceID
  av_FromTemporary :: bool

text \<open>A map from devices to counts, zero where there is no entry; counts do not reach 2^63.\<close>

type_synonym deviceActivity = "DeviceID \<Rightarrow> int"

definition newDeviceActivity :: deviceActivity where
  "newDeviceActivity = (\<lambda>_. 0)"

fun leastBusy_loop :: "deviceActivity \<Rightarrow> int \<Rightarrow> int \<Rightarrow> int \<Rightarrow> Availability list \<Rightarrow> int" where
  "leastBusy_loop act low best i [] = best"
| "leastBusy_loop act low best i (a # as) =
     (let usage = act (av_ID a) in
      if usage < low then leastBusy_loop act usage i (i + 1) as
      else leastBusy_loop act low best (i + 1) as)"

definition leastBusy :: "deviceActivity \<Rightarrow> Availability list \<Rightarrow> int" where
  "leastBusy m availability = leastBusy_loop m (2 * 2 ^ 30 - 1) (- 1) 0 availability"

definition using_device :: "Availability \<Rightarrow> deviceActivity \<Rightarrow> deviceActivity" where
  "using_device a m = m(av_ID a := m (av_ID a) + 1)"

definition done_device :: "Availability \<Rightarrow> deviceActivity \<Rightarrow> deviceActivity" where
  "done_device a m = m(av_ID a := m (av_ID a) - 1)"

section \<open>Chunks\<close>

lemma chunkSize_pos: "0 < n \<Longrightarrow> 0 < c \<Longrightarrow> 0 < (n + c - 1) div (c :: nat)"
  by (simp add: div_greater_zero_iff)

lemma concat_chunk_loop: "0 < c \<Longrightarrow> concat (chunk_loop c xs i) = drop i xs"
proof (induction c xs i rule: chunk_loop.induct)
  case (1 c xs i)
  show ?case
  proof (cases "i < length xs")
    case True
    have e: "take ((if length xs < i + c then length xs else i + c) - i) (drop i xs) = take c (drop i xs)"
      by auto
    have "concat (chunk_loop c xs (i + c)) = drop (i + c) xs"
      using 1 True by blast
    moreover have "take c (drop i xs) @ drop (i + c) xs = drop i xs"
      using append_take_drop_id [of c "drop i xs"] by (simp add: add.commute)
    ultimately show ?thesis
      using True \<open>0 < c\<close> by (subst chunk_loop.simps) (simp add: Let_def e)
  next
    case False
    then show ?thesis by (subst chunk_loop.simps) simp
  qed
qed

lemma chunk_loop_Nil [simp]: "chunk_loop c [] i = []"
  by (subst chunk_loop.simps) simp

lemma concat_chunk: "concat (chunk xs n) = xs"
proof (cases "xs = [] \<or> n = 0")
  case True
  then show ?thesis by (auto simp: chunk_def chunk_loop_Nil)
next
  case False
  then have "0 < (length xs + n - 1) div n" by (intro chunkSize_pos) auto
  then show ?thesis using False by (simp add: chunk_def concat_chunk_loop)
qed

lemma length_chunk_loop:
  "0 < c \<Longrightarrow> length xs \<le> i + k * c \<Longrightarrow> length (chunk_loop c xs i) \<le> k"
proof (induction k arbitrary: i)
  case (Suc k)
  then show ?case by (subst chunk_loop.simps) (simp add: Let_def)
qed (subst chunk_loop.simps, simp)

lemma length_chunk: "0 < n \<Longrightarrow> length (chunk xs n) \<le> n"
proof (cases "xs = []")
  case False
  assume n: "0 < n"
  have pos: "0 < (length xs + n - 1) div n" using False n by (intro chunkSize_pos) auto
  have "length xs \<le> n * ((length xs + n - 1) div n)"
    using mult_div_mod_eq [of n "length xs + n - 1"] mod_less_divisor [OF n, of "length xs + n - 1"]
    by linarith
  then show ?thesis using length_chunk_loop [OF pos, of xs 0 n] n by (simp add: chunk_def)
qed (simp add: chunk_def)

lemma mset_concat: "mset (concat xss) = sum_list (map mset xss)"
  by (induction xss) auto

lemma mset_nths:
  "mset (concat (map (\<lambda>i. xss ! i) [0..<length xss])) = mset (concat xss)"
  by (simp add: map_nth)

lemma find_index_loop_found:
  "x \<in> set ys \<Longrightarrow> \<exists>k < length ys. find_index_loop x i ys = Some (i + k) \<and> ys ! k = x"
proof (induction ys arbitrary: i)
  case (Cons y ys)
  show ?case
  proof (cases "y = x")
    case False
    then obtain k where "k < length ys" "find_index_loop x (i + 1) ys = Some (i + 1 + k)" "ys ! k = x"
      using Cons.IH [of "i + 1"] Cons.prems by auto
    then show ?thesis using False by (intro exI [of _ "Suc k"]) simp
  qed auto
qed simp

lemma concat_partition_index:
  assumes "k < length xss"
  shows "mset (xss ! k) + mset (concat (map (\<lambda>i. xss ! i) (filter (\<lambda>i. i \<noteq> k) [0..<length xss]))) = mset (concat xss)"
proof -
  let ?n = "length xss"
  have "[0..<?n] = [0..<k] @ k # [Suc k..<?n]" using assms by (metis upt_conv_Cons upt_add_eq_append zero_le le_add_diff_inverse less_imp_le)
  moreover have "filter (\<lambda>i. i \<noteq> k) [0..<?n] = [0..<k] @ [Suc k..<?n]"
    unfolding calculation by (simp add: filter_id_conv)
  ultimately show ?thesis
    using mset_nths [of xss] by (simp add: ac_simps)
qed

lemma mset_map_concat_perm: "mset is = mset js \<Longrightarrow> mset (concat (map f is)) = mset (concat (map f js))"
  unfolding mset_concat map_map by (metis mset_map sum_mset_sum_list)

lemma mset_standard_Reorder:
  assumes "\<And>xs. mset (shuffle xs) = mset xs"
  shows "mset (standard_Reorder shuffle p blocks) = mset blocks"
proof -
  let ?c = "chunk blocks (deviceCount p)"
  have perm: "mset (concat (map (\<lambda>i. ?c ! i) (shuffle xs))) = mset (concat (map (\<lambda>i. ?c ! i) xs))" for xs
    by (rule mset_map_concat_perm) (rule assms)
  show ?thesis
  proof (cases "myIndex p < length ?c")
    case True
    from concat_partition_index [OF this] show ?thesis
      using True unfolding standard_Reorder_def Let_def by (simp add: perm concat_chunk)
  next
    case False
    then have "filter (\<lambda>i. i \<noteq> myIndex p) [0..<length ?c] = [0..<length ?c]" by (simp add: filter_id_conv)
    then show ?thesis using False unfolding standard_Reorder_def Let_def
      by (simp add: perm mset_nths concat_chunk)
  qed
qed

lemma newStandardBlockPullReorderer_found:
  "\<exists>p. newStandardBlockPullReorderer d others = Some p \<and> deviceCount p = length others + 1 \<and>
     myIndex p < deviceCount p \<and> sort (others @ [d]) ! myIndex p = d"
  using find_index_loop_found [of d "sort (others @ [d])" 0]
  by (auto simp: newStandardBlockPullReorderer_def Let_def)

section \<open>Properties\<close>

text \<open>Whatever the configured order and the devices, a reorderer is made without a panic and
  it returns a permutation of the blocks: every block is pulled exactly once.\<close>

theorem Reorder_permutes:
  assumes "\<And>xs. mset (shuffle xs) = mset xs" and "\<And>xs. mset (shuffle_blocks xs) = mset xs"
  shows "\<exists>r. newBlockPullReorderer order myID others = Some r \<and>
    mset (Reorder shuffle_blocks shuffle r blocks) = mset blocks"
  using newStandardBlockPullReorderer_found [of myID others]
  by (cases order) (auto simp: newBlockPullReorderer_def Reorder_def assms mset_standard_Reorder)

theorem Reorder_permutes_witness:
  "\<exists>r. newBlockPullReorderer BlockPullOrderStandard [2] [[1], [3]] = Some r \<and>
     mset (Reorder rev rev r (fi_Blocks example_file)) = mset (fi_Blocks example_file)"
  by (rule Reorder_permutes) simp_all



section \<open>The least busy device\<close>

lemma leastBusy_loop_min:
  assumes "leastBusy_loop m low best i as = r"
  shows "(r = best \<and> (\<forall>a \<in> set as. low \<le> m (av_ID a))) \<or>
    (\<exists>k < length as. r = i + int k \<and> m (av_ID (as ! k)) < low \<and>
      (\<forall>a \<in> set as. m (av_ID (as ! k)) \<le> m (av_ID a)))"
  using assms
proof (induction as arbitrary: low best i)
  case (Cons a as)
  show ?case
  proof (cases "m (av_ID a) < low")
    case True
    then have "leastBusy_loop m (m (av_ID a)) i (i + 1) as = r" using Cons.prems by (simp add: Let_def)
    from Cons.IH [OF this] show ?thesis
    proof (elim disjE exE conjE)
      assume "r = i" "\<forall>a' \<in> set as. m (av_ID a) \<le> m (av_ID a')"
      then show ?thesis using True by (intro disjI2 exI [of _ 0]) auto
    next
      fix k assume "k < length as" "r = i + 1 + int k" "m (av_ID (as ! k)) < m (av_ID a)"
        "\<forall>a \<in> set as. m (av_ID (as ! k)) \<le> m (av_ID a)"
      then show ?thesis using True by (intro disjI2 exI [of _ "Suc k"]) auto
    qed
  next
    case False
    then have "leastBusy_loop m low best (i + 1) as = r" using Cons.prems by (simp add: Let_def)
    from Cons.IH [OF this] show ?thesis
    proof (elim disjE exE conjE)
      fix k assume "k < length as" "r = i + 1 + int k" "m (av_ID (as ! k)) < low"
        "\<forall>a \<in> set as. m (av_ID (as ! k)) \<le> m (av_ID a)"
      then show ?thesis using False by (intro disjI2 exI [of _ "Suc k"]) auto
    qed (use False in auto)
  qed
qed simp

lemma leastBusy_min:
  assumes "\<exists>a \<in> set as. m (av_ID a) < 2 * 2 ^ 30 - 1"
  shows "\<exists>k < length as. leastBusy m as = int k \<and> (\<forall>a \<in> set as. m (av_ID (as ! k)) \<le> m (av_ID a))"
  using leastBusy_loop_min [OF refl, of m "2 * 2 ^ 30 - 1" "- 1" 0 as] assms
  unfolding leastBusy_def by (force simp: not_less)

text \<open>A request that ends undoes the count of its start, whatever happened in between.\<close>

lemma done_device_using: "done_device a (using_device a m) = m"
  by (simp add: done_device_def using_device_def)

end
