(* ===== verification/FsPath.thy ===== *)
theory FsPath
  imports GoPath
begin

text \<open>
  Names of files: temporary names (\<open>lib/fs/tempname.go\<close>), internal names and canonical relative
  paths (\<open>lib/fs/filesystem.go\<close>), path relations and the names Windows refuses
  (\<open>lib/fs/util.go\<close>), and the lower-casing of ASCII names (\<open>lib/fs/folding.go\<close>). The build is
  one whose path separator is the slash, except that \<open>WindowsInvalidFilename\<close> is what runs on
  Windows.
\<close>

definition go_HasPrefix :: "string \<Rightarrow> string \<Rightarrow> bool" where
  "go_HasPrefix s p \<longleftrightarrow> take (length p) s = p"

definition go_HasSuffix :: "string \<Rightarrow> string \<Rightarrow> bool" where
  "go_HasSuffix s p \<longleftrightarrow> length p \<le> length s \<and> drop (length s - length p) s = p"

section \<open>Temporary names\<close>

definition WindowsTempPrefix :: string where "WindowsTempPrefix = ''~syncthing~''"
definition UnixTempPrefix :: string where "UnixTempPrefix = ''.syncthing.''"

definition maxFilenameLength :: nat where
  "maxFilenameLength = 160 - length UnixTempPrefix - length ''.tmp''"

definition tempPrefix :: "bool \<Rightarrow> string" where
  "tempPrefix isWindows = (if isWindows then WindowsTempPrefix else UnixTempPrefix)"

definition IsTemporary :: "string \<Rightarrow> bool" where
  "IsTemporary name =
     (let b = filepath_Base name in go_HasPrefix b WindowsTempPrefix \<or> go_HasPrefix b UnixTempPrefix)"

text \<open>\<open>sha256\<close> is a parameter; \<open>%x\<close> prints its 32 bytes in hexadecimal.\<close>

definition bytes_of_string :: "string \<Rightarrow> bytes" where
  "bytes_of_string s = map (\<lambda>c. word_of_nat (char_code c)) s"

definition TempNameWithPrefix :: "(bytes \<Rightarrow> bytes) \<Rightarrow> string \<Rightarrow> string \<Rightarrow> string" where
  "TempNameWithPrefix sha256 name prefix0 =
     (let tdir = filepath_Dir name;
          tbase = filepath_Base name;
          tname = (if length tbase > maxFilenameLength
                   then prefix0 @ hex_EncodeToString (sha256 (bytes_of_string tbase)) @ ''.tmp''
                   else prefix0 @ tbase @ ''.tmp'')
      in filepath_Join [tdir, tname])"

definition TempName :: "bool \<Rightarrow> (bytes \<Rightarrow> bytes) \<Rightarrow> string \<Rightarrow> string" where
  "TempName isWindows sha256 name = TempNameWithPrefix sha256 name (tempPrefix isWindows)"

section \<open>Relations between paths\<close>

text \<open>The expressions \<open>parent[len(parent)-1]\<close> and \<open>path[len(parent)]\<close> are in range where they stand.\<close>

definition IsParent :: "string \<Rightarrow> string \<Rightarrow> bool" where
  "IsParent path parent =
     (if parent = path then False
      else if is_rooted path \<noteq> is_rooted parent then False
      else if parent = [] \<or> parent = ''.'' then path \<noteq> [] \<and> path \<noteq> ''.''
      else if parent = ''/'' then path \<noteq> ''/''
      else if last parent = CHR ''/'' then go_HasPrefix path parent
      else if \<not> go_HasPrefix path parent then False
      else if length path \<le> length parent then False
      else path ! length parent = CHR ''/'')"

definition internals :: "string list" where
  "internals = [''.stfolder'', ''.stignore'', ''.stversions'']"

fun IsInternal_loop :: "string \<Rightarrow> string list \<Rightarrow> bool" where
  "IsInternal_loop file [] = False"
| "IsInternal_loop file (internal # rest) =
     (if file = internal then True
      else if IsParent file internal then True
      else IsInternal_loop file rest)"

definition IsInternal :: "string \<Rightarrow> bool" where
  "IsInternal file = IsInternal_loop file internals"

datatype path_error = errPathInvalid | errPathTraversingUpwards

definition Canonicalize :: "string \<Rightarrow> (path_error, string) result" where
  "Canonicalize file0 =
     (if go_HasPrefix file0 ''//'' then Inl errPathInvalid
      else
        let file = filepath_Clean file0 in
        if file = ''..'' then Inl errPathTraversingUpwards
        else if go_HasPrefix file ''../'' then Inl errPathTraversingUpwards
        else if go_HasPrefix file ''/'' then (if file = ''/'' then Inr ''.'' else Inr (drop 1 file))
        else Inr file)"

definition PathComponents :: "string \<Rightarrow> string list" where
  "PathComponents path = go_split (CHR ''/'') path"

fun common_loop :: "string list \<Rightarrow> string list \<Rightarrow> string list" where
  "common_loop (a # as) (b # bs) = (if a \<noteq> b then [] else a # common_loop as bs)"
| "common_loop _ _ = []"

definition CommonPrefix :: "string \<Rightarrow> string \<Rightarrow> string" where
  "CommonPrefix first second =
     (if is_rooted first \<noteq> is_rooted second then []
      else
        let common = common_loop (PathComponents (filepath_Clean first)) (PathComponents (filepath_Clean second))
        in if is_rooted first \<and> is_rooted second \<and> length common = 1 then ''/''
           else if length common = 0 then []
           else filepath_Clean (go_join ''/'' common))"

section \<open>Names refused on Windows\<close>

definition windowsDisallowedCharacters :: "char list" where
  "windowsDisallowedCharacters = ''<>:|?*'' @ CHR 0x22 # map (\<lambda>n. char_of n) [0 ..< 32]"

definition reserved_names :: "string list" where
  "reserved_names = [''CON'', ''PRN'', ''AUX'', ''NUL'',
     ''COM0'', ''COM1'', ''COM2'', ''COM3'', ''COM4'', ''COM5'', ''COM6'', ''COM7'', ''COM8'', ''COM9'',
     ''LPT0'', ''LPT1'', ''LPT2'', ''LPT3'', ''LPT4'', ''LPT5'', ''LPT6'', ''LPT7'', ''LPT8'', ''LPT9'']"

definition windowsReservedNamePart :: "(string \<Rightarrow> string) \<Rightarrow> string \<Rightarrow> string" where
  "windowsReservedNamePart uni part0 =
     (let part = takeWhile (\<lambda>c. c \<noteq> CHR ''.'') part0 in
      if length part \<noteq> 3 \<and> length part \<noteq> 4 then []
      else if go_to_upper uni part \<in> set reserved_names then part else [])"

datatype filename_error = ReservedChar char | SpacePeriod | ReservedName string

text \<open>The loop over the parts separated by backslashes; empty parts are skipped.\<close>

fun WindowsInvalid_parts :: "(string \<Rightarrow> string) \<Rightarrow> string list \<Rightarrow> filename_error option" where
  "WindowsInvalid_parts uni [] = None"
| "WindowsInvalid_parts uni (part # rest) =
     (if part = [] then WindowsInvalid_parts uni rest
      else if last part = CHR '' '' \<or> last part = CHR ''.'' then Some SpacePeriod
      else if windowsReservedNamePart uni part \<noteq> [] then Some (ReservedName (windowsReservedNamePart uni part))
      else WindowsInvalid_parts uni rest)"

definition WindowsInvalidFilename :: "(string \<Rightarrow> string) \<Rightarrow> string \<Rightarrow> filename_error option" where
  "WindowsInvalidFilename uni name =
     (case dropWhile (\<lambda>c. c \<notin> set windowsDisallowedCharacters) name of
        c # _ \<Rightarrow> Some (ReservedChar c)
      | [] \<Rightarrow> WindowsInvalid_parts uni (go_split (CHR 0x5C) name))"

section \<open>Lower-casing\<close>

definition is_upper_ascii :: "char \<Rightarrow> bool" where
  "is_upper_ascii c \<longleftrightarrow> 65 \<le> char_code c \<and> char_code c \<le> 90"

text \<open>The pair is whether the name is ASCII and, as far as looked at, lower case.\<close>

fun isASCII_loop :: "bool \<Rightarrow> string \<Rightarrow> bool \<times> bool" where
  "isASCII_loop isLower [] = (True, isLower)"
| "isASCII_loop isLower (b # bs) =
     (if char_code b > 127 then (False, isLower)
      else isASCII_loop (if is_upper_ascii b then False else isLower) bs)"

definition isASCII :: "string \<Rightarrow> bool \<times> bool" where
  "isASCII s = isASCII_loop True s"

text \<open>The loop copies the stretches between upper case letters from \<open>s\<close>, from \<open>pos\<close> on.\<close>

fun toLowerASCII_loop :: "string \<Rightarrow> nat \<Rightarrow> nat \<Rightarrow> string \<Rightarrow> string \<Rightarrow> nat \<times> string" where
  "toLowerASCII_loop s i pos b [] = (pos, b)"
| "toLowerASCII_loop s i pos b (c # cs) =
     (if \<not> is_upper_ascii c then toLowerASCII_loop s (i + 1) pos b cs
      else toLowerASCII_loop s (i + 1) (i + 1)
             (b @ (if pos < i then take (i - pos) (drop pos s) else []) @ [char_of (char_code c + 32)]) cs)"

definition toLowerASCII :: "string \<Rightarrow> string" where
  "toLowerASCII s =
     (case toLowerASCII_loop s 0 0 [] s of (pos, b) \<Rightarrow> if pos \<noteq> length s then b @ drop pos s else b)"

definition UnicodeLowercaseNormalized :: "(string \<Rightarrow> string) \<Rightarrow> string \<Rightarrow> string" where
  "UnicodeLowercaseNormalized toLowerUnicode s =
     (case isASCII s of
        (True, isLower) \<Rightarrow> if isLower then s else toLowerASCII s
      | (False, _) \<Rightarrow> toLowerUnicode s)"

section \<open>Lemmas\<close>

lemma go_HasPrefix_iff: "go_HasPrefix s p \<longleftrightarrow> prefix p s"
  unfolding go_HasPrefix_def by (metis append_eq_conv_conj append_take_drop_id prefix_def)

lemma clean_elems_no_up:
  assumes "clean_elems r out" and "out \<noteq> []" and "hd out \<noteq> ''..''"
  shows "list_all plain_elem out"
proof -
  obtain k rest where o: "out = replicate k ''..'' @ rest" "list_all plain_elem rest"
    using assms(1) by (auto simp: clean_elems_def)
  then have "k = 0" using assms(2,3) by (cases k) auto
  then show ?thesis using o by simp
qed

lemma clean_elems_rooted: "clean_elems True out \<Longrightarrow> list_all plain_elem out"
  by (auto simp: clean_elems_def)

lemma hd_go_join: "hd ps \<noteq> [] \<Longrightarrow> ps \<noteq> [] \<Longrightarrow> hd (go_join s ps) = hd (hd ps) \<and> go_join s ps \<noteq> []"
  by (cases "(s, ps)" rule: go_join.cases) auto

lemma join_plain_not_rooted:
  assumes "list_all plain_elem out" and "out \<noteq> []"
  shows "\<not> is_rooted (go_join ''/'' out)" and "go_join ''/'' out \<noteq> []"
    and "go_split (CHR ''/'') (go_join ''/'' out) = out"
proof -
  have h: "hd out \<noteq> []" "CHR ''/'' \<notin> set (hd out)"
    using assms by (cases out; simp add: plain_elem_def)+
  then have "hd (hd out) \<noteq> CHR ''/''" using hd_in_set [OF h(1)] by metis
  then show "\<not> is_rooted (go_join ''/'' out)" and "go_join ''/'' out \<noteq> []"
    using hd_go_join [OF h(1) assms(2), of "''/''"] by (auto simp: is_rooted_def)
  show "go_split (CHR ''/'') (go_join ''/'' out) = out"
    using assms by (intro go_split_join) (auto simp: list_all_iff plain_elem_def)
qed

lemma Clean_join_plain:
  assumes "list_all plain_elem out" and "out \<noteq> []"
  shows "filepath_Clean (go_join ''/'' out) = go_join ''/'' out"
  using join_plain_not_rooted [OF assms] foldl_clean_plain [OF assms(1), of False "[]"] assms(2)
  by (simp add: filepath_Clean_elems path_elems_def)

lemma join_up_prefix:
  assumes "out \<noteq> []" and "hd out = ''..''"
  shows "go_join ''/'' out = ''..'' \<or> prefix ''../'' (go_join ''/'' out)"
  using assms by (cases "(''/'', out)" rule: go_join.cases) auto

lemma prefix_up_hd:
  assumes "list_all plain_elem out" and "out \<noteq> []"
  shows "go_join ''/'' out \<noteq> ''..''" and "\<not> prefix ''../'' (go_join ''/'' out)"
proof -
  note sp = join_plain_not_rooted(3) [OF assms]
  have hd: "hd out \<noteq> ''..''" using assms by (cases out) (auto simp: plain_elem_def)
  show "go_join ''/'' out \<noteq> ''..''" using sp hd by (auto simp: go_split.simps)
  show "\<not> prefix ''../'' (go_join ''/'' out)"
  proof
    assume "prefix ''../'' (go_join ''/'' out)"
    then obtain t where "go_join ''/'' out = ''..'' @ CHR ''/'' # t" by (auto simp: prefix_def)
    then have "out = ''..'' # go_split (CHR ''/'') t"
      using sp go_split_append_sep [of "CHR ''/''" "''..''" t] by simp
    then show False using hd by simp
  qed
qed

text \<open>The accepted names are \<open>.\<close> and the joins of plain elements.\<close>

lemma Canonicalize_elems:
  assumes "Canonicalize name = Inr p"
  shows "p = ''.'' \<or> (\<exists>out. p = go_join ''/'' out \<and> out \<noteq> [] \<and> list_all plain_elem out)"
proof (cases "is_rooted name")
  case True
  have plain: "list_all plain_elem (path_elems name)"
    using path_elems_clean [of name] True clean_elems_rooted by simp
  have "p = (if path_elems name = [] then ''.'' else go_join ''/'' (path_elems name))"
    using assms True plain join_plain_not_rooted(2) [OF plain]
    by (auto simp: Canonicalize_def Let_def go_HasPrefix_def filepath_Clean_elems split: if_splits)
  then show ?thesis using plain by auto
next
  case False
  show ?thesis
  proof (cases "path_elems name = []")
    case True
    then show ?thesis using assms False
      by (auto simp: Canonicalize_def Let_def go_HasPrefix_def filepath_Clean_elems split: if_splits)
  next
    case nonempty: False
    then have c: "filepath_Clean name = go_join ''/'' (path_elems name)"
      using False by (simp add: filepath_Clean_elems)
    have "hd (path_elems name) \<noteq> ''..''"
      using join_up_prefix [OF nonempty] assms
      by (auto simp: Canonicalize_def Let_def go_HasPrefix_iff c split: if_splits)
    then have plain: "list_all plain_elem (path_elems name)"
      using clean_elems_no_up [OF path_elems_clean nonempty] by simp
    then have "\<not> go_HasPrefix (go_join ''/'' (path_elems name)) ''/''"
      using join_plain_not_rooted(1,2) [OF plain nonempty]
      by (cases "go_join ''/'' (path_elems name)") (auto simp: go_HasPrefix_def is_rooted_def)
    then have "p = go_join ''/'' (path_elems name)"
      using assms c by (auto simp: Canonicalize_def Let_def split: if_splits)
    then show ?thesis using plain nonempty by blast
  qed
qed

lemma Canonicalize_plain:
  assumes "list_all plain_elem out" and "out \<noteq> []"
  shows "Canonicalize (go_join ''/'' out) = Inr (go_join ''/'' out)"
proof -
  have "\<not> prefix ''/'' (go_join ''/'' out)" and "\<not> prefix ''//'' (go_join ''/'' out)"
    using join_plain_not_rooted(1,2) [OF assms] by (auto simp: is_rooted_def prefix_def)
  then show ?thesis
    using prefix_up_hd [OF assms] Clean_join_plain [OF assms]
    by (simp add: Canonicalize_def Let_def go_HasPrefix_iff)
qed

lemma Base_join:
  assumes "plain_elem t"
  shows "filepath_Base (d @ CHR ''/'' # t) = t" and "filepath_Base t = t"
proof -
  have t: "t \<noteq> []" "CHR ''/'' \<notin> set t" using assms by (auto simp: plain_elem_def)
  then have l: "last t \<noteq> CHR ''/''" using last_in_set by metis
  have d: "rev (dropWhile (\<lambda>c. c = CHR ''/'') (rev (x @ t))) = x @ t" for x
    using t(1) l by (cases t rule: rev_cases) auto
  show "filepath_Base (d @ CHR ''/'' # t) = t"
    using d [of "d @ ''/''"] path_split_file [OF t(2), of d] t(1) by (simp add: filepath_Base_def)
  show "filepath_Base t = t"
    using d [of "[]"] path_split_plain [OF t(2)] t(1) by (simp add: filepath_Base_def)
qed

lemma foldl_clean_id:
  assumes "clean_elems r cs"
  shows "foldl (clean_step r) [] cs = cs"
proof -
  obtain k rest where o: "cs = replicate k ''..'' @ rest" "list_all plain_elem rest" "r \<longrightarrow> k = 0"
    using assms by (auto simp: clean_elems_def)
  have "foldl (clean_step r) (replicate j ''..'') (replicate k ''..'') = replicate (j + k) ''..''" if "r \<longrightarrow> k = 0" for j
    using that
  proof (induction k arbitrary: j)
    case (Suc k)
    have "clean_step r (replicate j ''..'') ''..'' = replicate (Suc j) ''..''"
      using Suc.prems by (cases j) (auto simp: clean_step_def replicate_append_same)
    then show ?case using Suc.IH [of "Suc j"] Suc.prems by (simp del: replicate.simps add: replicate_Suc [of k])
  qed simp
  from this [of 0] o(3) have "foldl (clean_step r) [] (replicate k ''..'') = replicate k ''..''" by simp
  then show ?thesis using o(1,2) by (simp add: foldl_clean_plain)
qed

lemma split_join_clean: "clean_elems r es \<Longrightarrow> es \<noteq> [] \<Longrightarrow> go_split (CHR ''/'') (go_join ''/'' es) = es"
  using clean_elems_no_slash by (intro go_split_join) blast+

lemma join_clean_not_rooted: "clean_elems r es \<Longrightarrow> es \<noteq> [] \<Longrightarrow> \<not> is_rooted (go_join ''/'' es) \<and> go_join ''/'' es \<noteq> []"
proof -
  assume a: "clean_elems r es" "es \<noteq> []"
  have h: "hd es \<noteq> []" "CHR ''/'' \<notin> set (hd es)"
    using clean_elems_no_slash [OF a(1), of "hd es"] a(2) by auto
  then have "hd (hd es) \<noteq> CHR ''/''" using hd_in_set [OF h(1)] by metis
  then show ?thesis using hd_go_join [OF h(1) a(2), of "''/''"] by (auto simp: is_rooted_def)
qed

lemma is_rooted_Clean: "is_rooted (filepath_Clean s) = is_rooted s"
  using join_clean_not_rooted [OF path_elems_clean, of s] by (auto simp: filepath_Clean_elems is_rooted_def)

lemma Clean_not_Nil [simp]: "filepath_Clean s \<noteq> []"
  using join_clean_not_rooted [OF path_elems_clean, of s] by (auto simp: filepath_Clean_elems)

lemma path_elems_Clean: "path_elems (filepath_Clean s) = path_elems s"
proof -
  let ?es = "path_elems s"
  have id: "foldl (clean_step (is_rooted s)) [] ?es = ?es" by (rule foldl_clean_id [OF path_elems_clean])
  show ?thesis
  proof (cases "?es = []")
    case True
    then show ?thesis unfolding path_elems_def [of "filepath_Clean s"] is_rooted_Clean
      by (simp add: filepath_Clean_elems clean_step_def)
  next
    case False
    show ?thesis unfolding path_elems_def [of "filepath_Clean s"] is_rooted_Clean
      using split_join_clean [OF path_elems_clean False] id False
      by (cases "is_rooted s") (simp_all add: filepath_Clean_elems clean_step_def)
  qed
qed

lemma path_elems_snoc:
  assumes "plain_elem t" and "d \<noteq> []"
  shows "path_elems (d @ CHR ''/'' # t) = path_elems d @ [t]"
proof -
  have r: "is_rooted (d @ CHR ''/'' # t) = is_rooted d" using assms(2) by (simp add: is_rooted_def)
  have "go_split (CHR ''/'') t = [t]" using assms(1) by (intro go_split_no_sep) (simp add: plain_elem_def)
  then show ?thesis unfolding path_elems_def r go_split_append
    using assms(1) by (simp add: clean_step_def plain_elem_def)
qed

lemma go_join_snoc: "go_join s (es @ [t]) = (if es = [] then t else go_join s es @ s @ t)"
  by (induction s es rule: go_join.induct) auto

lemma Clean_simple: "filepath_Clean [] = ''.''" "filepath_Clean ''/'' = ''/''" "filepath_Clean ''.'' = ''.''"
  by (simp_all add: filepath_Clean_def is_rooted_def clean_step_def)

text \<open>A plain name put into a clean directory: its base is the name and its directory that one.\<close>

lemma Join_Base_Dir:
  assumes "plain_elem t" and "d = filepath_Clean x"
  shows "filepath_Base (filepath_Join [d, t]) = t" and "filepath_Dir (filepath_Join [d, t]) = d"
proof -
  let ?es = "path_elems x" and ?r = "is_rooted x"
  have dt: "d \<noteq> []" "t \<noteq> []" using assms by (auto simp: plain_elem_def)
  have r: "is_rooted (d @ CHR ''/'' # t) = ?r" using assms(2) dt is_rooted_Clean [of x] by (simp add: is_rooted_def)
  have "filepath_Join [d, t] = filepath_Clean (d @ CHR ''/'' # t)" using dt by (simp add: filepath_Join_def)
  also have "\<dots> = (if ?r then ''/'' else []) @ go_join ''/'' (?es @ [t])"
    unfolding filepath_Clean_elems [of "d @ CHR ''/'' # t"] r
    using path_elems_snoc [OF assms(1) dt(1)] assms(2) by (simp add: path_elems_Clean)
  finally have j: "filepath_Join [d, t] = (if ?r then ''/'' else []) @ go_join ''/'' (?es @ [t])" .
  have dd: "d = (if ?r then CHR ''/'' # go_join ''/'' ?es else if ?es = [] then ''.'' else go_join ''/'' ?es)"
    using assms(2) by (simp add: filepath_Clean_elems)
  have deepj: "filepath_Join [d, t] = d @ CHR ''/'' # t" if "?es \<noteq> []"
    unfolding j using that by (subst dd) (simp add: go_join_snoc)
  have ns: "CHR ''/'' \<notin> set t" using assms(1) by (simp add: plain_elem_def)
  consider (bare) "?es = []" "\<not> ?r" | (root) "?es = []" ?r | (deep) "?es \<noteq> []" by blast
  then have "filepath_Base (filepath_Join [d, t]) = t \<and> filepath_Dir (filepath_Join [d, t]) = d"
  proof cases
    case bare
    have "filepath_Join [d, t] = t" unfolding j using bare by simp
    moreover have "d = ''.''" by (subst dd) (simp add: bare)
    ultimately show ?thesis
      using path_split_plain [OF ns] Base_join(2) [OF assms(1)] by (simp add: filepath_Dir_def Clean_simple)
  next
    case root
    have "filepath_Join [d, t] = [] @ CHR ''/'' # t" unfolding j using root by simp
    moreover have "d = ''/''" by (subst dd) (simp add: root)
    ultimately show ?thesis
      using path_split_file [OF ns, of "[]"] Base_join(1) [OF assms(1), of "[]"]
      by (simp add: filepath_Dir_def Clean_simple)
  next
    case deep
    have "filepath_Dir (filepath_Join [d, t]) = filepath_Clean (d @ ''/'')"
      unfolding deepj [OF deep] using path_split_file [OF ns, of d] by (simp add: filepath_Dir_def)
    moreover have "path_elems (d @ ''/'') = ?es"
      using dt path_elems_Clean [of x] assms(2) unfolding path_elems_def
      by (simp add: go_split_append [of _ _ "[]"] is_rooted_def clean_step_def)
    moreover have "is_rooted (d @ ''/'') = ?r" using dt is_rooted_Clean [of x] assms(2) by (simp add: is_rooted_def)
    ultimately have "filepath_Dir (filepath_Join [d, t]) = d" using deep by (subst dd) (simp add: filepath_Clean_elems)
    then show ?thesis using Base_join(1) [OF assms(1), of d] unfolding deepj [OF deep] by simp
  qed
  then show "filepath_Base (filepath_Join [d, t]) = t" and "filepath_Dir (filepath_Join [d, t]) = d" by simp_all
qed

lemma hd_go_split: "hd (go_split c s) = takeWhile (\<lambda>x. x \<noteq> c) s"
  by (induction s) (auto split: list.splits)

lemma takeWhile_sep:
  assumes "c \<notin> set i"
  shows "f = i \<or> (\<exists>r. f = i @ c # r) \<longleftrightarrow> takeWhile (\<lambda>x. x \<noteq> c) f = i"
proof
  have "takeWhile (\<lambda>x. x \<noteq> c) (i @ ys) = i @ takeWhile (\<lambda>x. x \<noteq> c) ys" for ys
    by (rule takeWhile_append2) (use assms in auto)
  from this [of "[]"] this [of "c # _"] show "f = i \<or> (\<exists>r. f = i @ c # r) \<Longrightarrow> takeWhile (\<lambda>x. x \<noteq> c) f = i"
    by (auto simp del: takeWhile_eq_all_conv)
  assume t: "takeWhile (\<lambda>x. x \<noteq> c) f = i"
  show "f = i \<or> (\<exists>r. f = i @ c # r)"
  proof (cases "dropWhile (\<lambda>x. x \<noteq> c) f")
    case Nil
    then show ?thesis using t takeWhile_dropWhile_id [of "\<lambda>x. x \<noteq> c" f] by (metis append_Nil2)
  next
    case (Cons y ys)
    then have "y = c" using hd_dropWhile [of "\<lambda>x. x \<noteq> c" f] by simp
    then show ?thesis using t Cons takeWhile_dropWhile_id [of "\<lambda>x. x \<noteq> c" f] by metis
  qed
qed

lemma IsParent_elem:
  assumes "plain_elem i" and "\<not> is_rooted f"
  shows "f = i \<or> IsParent f i \<longleftrightarrow> hd (PathComponents f) = i"
proof -
  have i: "i \<noteq> []" "CHR ''/'' \<notin> set i" "i \<noteq> ''.''" using assms(1) by (auto simp: plain_elem_def)
  have "hd i \<noteq> CHR ''/''" and l: "last i \<noteq> CHR ''/''"
    using hd_in_set [OF i(1)] last_in_set [OF i(1)] i(2) by metis+
  then have nr: "\<not> is_rooted i" "i \<noteq> ''/''" by (auto simp: is_rooted_def)
  have pre: "go_HasPrefix f i \<and> length i < length f \<and> f ! length i = CHR ''/'' \<longleftrightarrow> (\<exists>r. f = i @ CHR ''/'' # r)"
    by (auto simp: go_HasPrefix_def nth_append) (metis append_take_drop_id drop_nth_Cons)
  have "f = i \<or> IsParent f i \<longleftrightarrow> f = i \<or> (\<exists>r. f = i @ CHR ''/'' # r)"
    using i(1,3) nr l assms(2) pre by (auto simp: IsParent_def not_le)
  also have "\<dots> \<longleftrightarrow> takeWhile (\<lambda>x. x \<noteq> CHR ''/'') f = i"
    by (rule takeWhile_sep [OF i(2)])
  finally show ?thesis by (simp add: PathComponents_def hd_go_split)
qed

lemma internals_plain: "list_all plain_elem internals"
  by (simp add: internals_def plain_elem_def)

lemma IsInternal_loop_iff: "IsInternal_loop f is \<longleftrightarrow> (\<exists>i \<in> set is. f = i \<or> IsParent f i)"
  by (induction "is") auto

lemma toLowerASCII_loop_spec:
  assumes "s = pre @ rest" and "i = length pre" and "pos \<le> i"
  shows "(case toLowerASCII_loop s i pos b rest of (p, r) \<Rightarrow> p \<le> length s \<and> r @ drop p s =
    b @ take (i - pos) (drop pos s) @ map (\<lambda>c. if is_upper_ascii c then char_of (char_code c + 32) else c) rest)"
  using assms
proof (induction rest arbitrary: pre i pos b)
  case (Cons c cs)
  have s: "s = (pre @ [c]) @ cs" "i + 1 = length (pre @ [c])" using Cons.prems by simp_all
  have nth: "drop pos s = take (i - pos) (drop pos s) @ c # cs"
    using Cons.prems by simp
  show ?case
  proof (cases "is_upper_ascii c")
    case True
    let ?b = "b @ take (i - pos) (drop pos s) @ [char_of (char_code c + 32)]"
    have "(if pos < i then take (i - pos) (drop pos s) else []) = take (i - pos) (drop pos s)" by simp
    then show ?thesis using Cons.IH [OF s, of "i + 1" ?b] True by (simp only: toLowerASCII_loop.simps) simp
  next
    case False
    have "take (i + 1 - pos) (drop pos s) = take (i - pos) (drop pos s) @ [c]"
      using Cons.prems by (simp add: Suc_diff_le)
    then show ?thesis using Cons.IH [OF s, of pos b] False Cons.prems(3) by simp
  qed
qed simp

lemma isASCII_loop_lower: "isASCII_loop l s = (True, True) \<Longrightarrow> l \<and> (\<forall>c \<in> set s. \<not> is_upper_ascii c)"
  by (induction l s rule: isASCII_loop.induct) (auto split: if_splits)

section \<open>Properties\<close>

text \<open>C29. A name that \<open>Canonicalize\<close> accepts stays below the folder root: it is relative and no
  element of it is \<open>..\<close> or empty; and accepted names are accepted again unchanged.\<close>

theorem Canonicalize_confined:
  assumes "Canonicalize name = Inr p"
  shows "\<not> is_rooted p \<and> p \<noteq> [] \<and> ''..'' \<notin> set (PathComponents p) \<and> [] \<notin> set (PathComponents p) \<and>
    Canonicalize p = Inr p"
  using Canonicalize_elems [OF assms]
proof (elim disjE exE conjE)
  assume "p = ''.''"
  then show ?thesis
    by (simp add: is_rooted_def PathComponents_def Canonicalize_def go_HasPrefix_def Clean_simple)
next
  fix out assume p: "p = go_join ''/'' out" and out: "out \<noteq> []" "list_all plain_elem out"
  have "''..'' \<notin> set out \<and> [] \<notin> set out" using out(2) by (auto simp: list_all_iff plain_elem_def)
  then show ?thesis
    using join_plain_not_rooted [OF out(2,1)] Canonicalize_plain [OF out(2,1)] p by (simp add: PathComponents_def)
qed

theorem Canonicalize_confined_witness:
  "Canonicalize ''a/../b//c/.'' = Inr ''b/c'' \<and> ''..'' \<notin> set (PathComponents ''b/c'')"
proof -
  have "Canonicalize ''a/../b//c/.'' = Inr ''b/c''" by code_simp
  from this Canonicalize_confined [OF this] show ?thesis by blast
qed

text \<open>The internal names are, among relative names, those whose first element is one of the
  three reserved ones; nothing inside these directories escapes and nothing else is caught.\<close>

theorem IsInternal_first_element:
  assumes "\<not> is_rooted f"
  shows "IsInternal f \<longleftrightarrow> hd (PathComponents f) \<in> set internals"
proof -
  have "IsInternal f \<longleftrightarrow> (\<exists>i \<in> set internals. hd (PathComponents f) = i)"
    unfolding IsInternal_def IsInternal_loop_iff
    using IsParent_elem [OF _ assms] internals_plain by (auto simp: list_all_iff)
  then show ?thesis by blast
qed

theorem IsInternal_first_element_witness: "IsInternal ''.stversions/a'' \<and> \<not> IsInternal ''.stversionsx/a''"
proof -
  have r: "\<not> is_rooted ''.stversions/a''" "\<not> is_rooted ''.stversionsx/a''" by (simp_all add: is_rooted_def)
  show ?thesis unfolding IsInternal_first_element [OF r(1)] IsInternal_first_element [OF r(2)]
    by (simp add: PathComponents_def internals_def)
qed

text \<open>The temporary name of a file lies in the directory of the file, is recognised as
  temporary, and its last element has at most 160 bytes, however long the name is.\<close>

theorem TempName_recognised:
  assumes "filepath_Base name \<noteq> ''/''" and "\<And>bs. length (sha256 bs) = 32"
  shows "IsTemporary (TempName w sha256 name) \<and>
    filepath_Dir (TempName w sha256 name) = filepath_Dir name \<and>
    length (filepath_Base (TempName w sha256 name)) \<le> 160"
proof -
  let ?b = "filepath_Base name"
  let ?t = "if length ?b > maxFilenameLength then tempPrefix w @ hex_EncodeToString (sha256 (bytes_of_string ?b)) @ ''.tmp''
    else tempPrefix w @ ?b @ ''.tmp''"
  have "CHR ''/'' \<notin> set (snd (path_split s))" for s
    by (auto simp: path_split_def Let_def dest: set_takeWhileD)
  then have nb: "CHR ''/'' \<notin> set ?b" using assms(1) by (auto simp: filepath_Base_def Let_def split: if_splits)
  have nh: "CHR ''/'' \<notin> set (hex_EncodeToString h)" for h using hex_EncodeToString_chars [of h] by auto
  have plain: "plain_elem ?t"
    using nb nh by (auto simp: plain_elem_def tempPrefix_def WindowsTempPrefix_def UnixTempPrefix_def)
  have name: "TempName w sha256 name = filepath_Join [filepath_Dir name, ?t]"
    by (simp add: TempName_def TempNameWithPrefix_def Let_def)
  note bd = Join_Base_Dir [OF plain, of "filepath_Dir name", unfolded filepath_Dir_def, OF refl, folded filepath_Dir_def]
  have "go_HasPrefix ?t WindowsTempPrefix \<or> go_HasPrefix ?t UnixTempPrefix"
    by (simp add: go_HasPrefix_iff tempPrefix_def)
  moreover have "length ?t \<le> 160"
    using assms(2) by (auto simp: maxFilenameLength_def tempPrefix_def WindowsTempPrefix_def UnixTempPrefix_def)
  ultimately show ?thesis unfolding IsTemporary_def Let_def name bd by simp
qed

theorem TempName_recognised_witness: "IsTemporary (TempName False (\<lambda>_. replicate 32 0) ''d/f'')"
proof -
  have "filepath_Base ''d/f'' \<noteq> ''/''" by code_simp
  then show ?thesis using TempName_recognised [of "''d/f''" "\<lambda>_. replicate 32 0"] by simp
qed

text \<open>On ASCII names \<open>UnicodeLowercaseNormalized\<close>, whose loop copies unchanged stretches in one
  piece, replaces each upper case letter by its lower case form and nothing else.\<close>

theorem UnicodeLowercaseNormalized_ascii:
  assumes "is_ascii s"
  shows "UnicodeLowercaseNormalized toLowerUnicode s =
    map (\<lambda>c. if is_upper_ascii c then char_of (char_code c + 32) else c) s"
proof -
  have "fst (isASCII_loop l s)" for l
    using assms by (induction s arbitrary: l) (auto simp: is_ascii_def)
  then obtain l where l: "isASCII s = (True, l)" unfolding isASCII_def by (metis prod.collapse)
  have low: "toLowerASCII s = map (\<lambda>c. if is_upper_ascii c then char_of (char_code c + 32) else c) s"
    using toLowerASCII_loop_spec [of s "[]" s 0 0 "[]"]
    by (auto simp: toLowerASCII_def split: prod.splits)
  show ?thesis
  proof (cases l)
    case True
    then have "\<forall>c \<in> set s. \<not> is_upper_ascii c" using isASCII_loop_lower l by (simp add: isASCII_def)
    then show ?thesis using l True by (simp add: UnicodeLowercaseNormalized_def map_idI)
  next
    case False
    then show ?thesis using l low by (simp add: UnicodeLowercaseNormalized_def)
  qed
qed

theorem UnicodeLowercaseNormalized_ascii_witness: "UnicodeLowercaseNormalized (\<lambda>s. s) ''aBcD'' = ''abcd''"
proof -
  have "is_ascii ''aBcD''" by code_simp
  from UnicodeLowercaseNormalized_ascii [OF this] show ?thesis by code_simp
qed

end
