(* ===== verification/DownloadState.thy ===== *)
theory DownloadState
  imports SharedPuller
begin

text \<open>
  Announcing the blocks of files still being downloaded. The sender keeps, per device and
  folder, what it has announced (\<open>lib/model/sentdownloadstate.go\<close>) and derives the updates to
  send from the current pullers; the receiver applies them to its picture of the remote device
  (\<open>lib/model/devicedownloadstate.go\<close>). The locale \<open>announcer\<close> states what makes such a pair
  work and its interpretation shows that the two components fit.
\<close>

section \<open>Updates\<close>

datatype FileDownloadProgressUpdateType =
  FileDownloadProgressUpdateTypeAppend | FileDownloadProgressUpdateTypeForget

record FileDownloadProgressUpdate =
  u_UpdateType :: FileDownloadProgressUpdateType
  u_Name :: string
  u_Version :: Vector
  u_BlockIndexes :: "int list"
  u_BlockSize :: int

section \<open>The receiver\<close>

record deviceFolderFileDownloadState =
  d_blockIndexes :: "int list"
  d_version :: Vector
  d_blockSize :: int

type_synonym deviceFolderDownloadState = "string \<rightharpoonup> deviceFolderFileDownloadState"

definition folder_Has :: "deviceFolderDownloadState \<Rightarrow> string \<Rightarrow> Vector \<Rightarrow> int \<Rightarrow> bool" where
  "folder_Has p file version index =
     (case p file of
        None \<Rightarrow> False
      | Some local \<Rightarrow>
          if \<not> Vector_Equal (d_version local) version then False
          else index \<in> set (d_blockIndexes local))"

definition folder_Update1 :: "deviceFolderDownloadState \<Rightarrow> FileDownloadProgressUpdate \<Rightarrow> deviceFolderDownloadState" where
  "folder_Update1 p update =
     (case u_UpdateType update of
        FileDownloadProgressUpdateTypeForget \<Rightarrow>
          (case p (u_Name update) of
             Some local \<Rightarrow>
               if Vector_Equal (d_version local) (u_Version update) then p(u_Name update := None) else p
           | None \<Rightarrow> p)
      | FileDownloadProgressUpdateTypeAppend \<Rightarrow>
          (let local' =
             (case p (u_Name update) of
                None \<Rightarrow> \<lparr>d_blockIndexes = u_BlockIndexes update, d_version = u_Version update,
                         d_blockSize = u_BlockSize update\<rparr>
              | Some local \<Rightarrow>
                  if \<not> Vector_Equal (d_version local) (u_Version update)
                  then \<lparr>d_blockIndexes = u_BlockIndexes update, d_version = u_Version update,
                        d_blockSize = u_BlockSize update\<rparr>
                  else local\<lparr>d_blockIndexes := d_blockIndexes local @ u_BlockIndexes update\<rparr>)
           in p(u_Name update \<mapsto> local')))"

definition folder_Update :: "deviceFolderDownloadState \<Rightarrow> FileDownloadProgressUpdate list \<Rightarrow> deviceFolderDownloadState" where
  "folder_Update p updates = foldl folder_Update1 p updates"

text \<open>Sums over the map do not depend on the iteration order, given here as the list \<open>names\<close>.\<close>

definition folder_BytesDownloaded :: "string list \<Rightarrow> deviceFolderDownloadState \<Rightarrow> int" where
  "folder_BytesDownloaded names p =
     sum_list (map (\<lambda>n. case p n of
        None \<Rightarrow> 0
      | Some state \<Rightarrow>
          if d_blockSize state \<noteq> 0 then int (length (d_blockIndexes state)) * d_blockSize state
          else int (length (d_blockIndexes state)) * MinBlockSize) names)"

definition folder_GetBlockCounts :: "deviceFolderDownloadState \<Rightarrow> string \<rightharpoonup> nat" where
  "folder_GetBlockCounts p = (\<lambda>n. map_option (\<lambda>state. length (d_blockIndexes state)) (p n))"

text \<open>All folders of a device; a nil receiver is \<open>None\<close>.\<close>

type_synonym deviceDownloadState = "string \<rightharpoonup> deviceFolderDownloadState"

definition newDeviceDownloadState :: deviceDownloadState where
  "newDeviceDownloadState = Map.empty"

definition device_Update ::
  "deviceDownloadState option \<Rightarrow> string \<Rightarrow> FileDownloadProgressUpdate list \<Rightarrow> deviceDownloadState option" where
  "device_Update t folder updates =
     (case t of
        None \<Rightarrow> None
      | Some folders \<Rightarrow>
          (let f = (case folders folder of None \<Rightarrow> Map.empty | Some f \<Rightarrow> f)
           in Some (folders(folder \<mapsto> folder_Update f updates))))"

definition device_Has :: "deviceDownloadState option \<Rightarrow> string \<Rightarrow> string \<Rightarrow> Vector \<Rightarrow> int \<Rightarrow> bool" where
  "device_Has t folder file version index =
     (case t of
        None \<Rightarrow> False
      | Some folders \<Rightarrow>
          (case folders folder of None \<Rightarrow> False | Some f \<Rightarrow> folder_Has f file version index))"

definition device_GetBlockCounts :: "deviceDownloadState option \<Rightarrow> string \<Rightarrow> (string \<rightharpoonup> nat)" where
  "device_GetBlockCounts t folder =
     (case t of
        None \<Rightarrow> Map.empty
      | Some folders \<Rightarrow> (case folders folder of None \<Rightarrow> Map.empty | Some f \<Rightarrow> folder_GetBlockCounts f))"

definition device_BytesDownloaded :: "string list \<Rightarrow> deviceDownloadState option \<Rightarrow> string \<Rightarrow> int" where
  "device_BytesDownloaded names t folder =
     (case t of
        None \<Rightarrow> 0
      | Some folders \<Rightarrow> (case folders folder of None \<Rightarrow> 0 | Some f \<Rightarrow> folder_BytesDownloaded names f))"

section \<open>The sender\<close>

record sentFolderFileDownloadState =
  s_blockIndexes :: "int list"
  s_version :: Vector
  s_updated :: Time
  s_created :: Time
  s_blockSize :: int

type_synonym sentFolderDownloadState = "string \<rightharpoonup> sentFolderFileDownloadState"

definition append_update :: "string \<Rightarrow> Vector \<Rightarrow> int list \<Rightarrow> int \<Rightarrow> FileDownloadProgressUpdate" where
  "append_update n v bs sz = \<lparr>u_UpdateType = FileDownloadProgressUpdateTypeAppend, u_Name = n, u_Version = v,
     u_BlockIndexes = bs, u_BlockSize = sz\<rparr>"

definition forget_update :: "string \<Rightarrow> Vector \<Rightarrow> FileDownloadProgressUpdate" where
  "forget_update n v = \<lparr>u_UpdateType = FileDownloadProgressUpdateTypeForget, u_Name = n, u_Version = v,
     u_BlockIndexes = [], u_BlockSize = 0\<rparr>"

text \<open>
  One puller: the new state and the updates. \<open>None\<close> is the panic of
  \<open>pullerBlockIndexes[len(localFile.blockIndexes):]\<close> when the puller has fewer blocks than were
  announced. Slices are values here: \<open>append\<close> writes past the end of the announced list, into
  an array it may share with the puller, the very elements that are there.
\<close>

definition sent_update1 ::
  "sentFolderDownloadState \<Rightarrow> sharedPullerState \<Rightarrow> (sentFolderDownloadState \<times> FileDownloadProgressUpdate list) option" where
  "sent_update1 s puller =
     (let name = fi_Name (sp_file puller);
          pullerBlockIndexes = Available puller;
          pullerVersion = fi_Version (sp_file puller);
          pullerBlockIndexesUpdated = AvailableUpdated puller;
          pullerCreated = sp_created puller;
          pullerBlockSize = FileInfo_BlockSize (sp_file puller);
          fresh = \<lparr>s_blockIndexes = pullerBlockIndexes, s_version = pullerVersion,
            s_updated = pullerBlockIndexesUpdated, s_created = pullerCreated, s_blockSize = pullerBlockSize\<rparr> in
      case s name of
        None \<Rightarrow>
          if length pullerBlockIndexes > 0
          then Some (s(name \<mapsto> fresh), [append_update name pullerVersion pullerBlockIndexes pullerBlockSize])
          else Some (s, [])
      | Some localFile \<Rightarrow>
          if time_Equal pullerBlockIndexesUpdated (s_updated localFile)
             \<and> Vector_Equal pullerVersion (s_version localFile) then Some (s, [])
          else if \<not> Vector_Equal pullerVersion (s_version localFile)
                  \<or> \<not> time_Equal pullerCreated (s_created localFile) then
            Some (s(name \<mapsto> fresh),
              [forget_update name (s_version localFile),
               append_update name pullerVersion pullerBlockIndexes pullerBlockSize])
          else if length (s_blockIndexes localFile) > length pullerBlockIndexes then None
          else
            (let newBlocks = drop (length (s_blockIndexes localFile)) pullerBlockIndexes;
                 s' = s(name \<mapsto> localFile\<lparr>s_blockIndexes := s_blockIndexes localFile @ newBlocks,
                        s_updated := pullerBlockIndexesUpdated\<rparr>)
             in if length newBlocks > 0
                then Some (s', [append_update name (s_version localFile) newBlocks pullerBlockSize])
                else Some (s', [])))"

fun sent_update_loop ::
  "sentFolderDownloadState \<Rightarrow> sharedPullerState list \<Rightarrow> (sentFolderDownloadState \<times> FileDownloadProgressUpdate list) option" where
  "sent_update_loop s [] = Some (s, [])"
| "sent_update_loop s (puller # pullers) =
     (case sent_update1 s puller of
        None \<Rightarrow> None
      | Some (s', us) \<Rightarrow>
          map_option (\<lambda>(s'', us'). (s'', us @ us')) (sent_update_loop s' pullers))"

text \<open>
  The loops over \<open>s.files\<close> that forget: the list \<open>order\<close> is the order in which Go visits the keys
  of the map, which it picks at random.
\<close>

fun forget_loop ::
  "(string \<Rightarrow> bool) \<Rightarrow> sentFolderDownloadState \<Rightarrow> string list \<Rightarrow> sentFolderDownloadState \<times> FileDownloadProgressUpdate list" where
  "forget_loop seen s [] = (s, [])"
| "forget_loop seen s (name # names) =
     (case s name of
        None \<Rightarrow> forget_loop seen s names
      | Some info \<Rightarrow>
          if \<not> seen name then
            (let (s', us) = forget_loop seen (s(name := None)) names
             in (s', forget_update name (s_version info) # us))
          else forget_loop seen s names)"

definition sent_update ::
  "string list \<Rightarrow> sentFolderDownloadState \<Rightarrow> sharedPullerState list
     \<Rightarrow> (sentFolderDownloadState \<times> FileDownloadProgressUpdate list) option" where
  "sent_update order s pullers =
     (case sent_update_loop s pullers of
        None \<Rightarrow> None
      | Some (s', us) \<Rightarrow>
          (let seen = (\<lambda>n. n \<in> set (map (\<lambda>p. fi_Name (sp_file p)) pullers));
               (s'', us') = forget_loop seen s' order
           in Some (s'', us @ us')))"

definition sent_destroy ::
  "string list \<Rightarrow> sentFolderDownloadState \<Rightarrow> sentFolderDownloadState \<times> FileDownloadProgressUpdate list" where
  "sent_destroy order s = forget_loop (\<lambda>_. False) s order"

text \<open>All folders of a device.\<close>

type_synonym sentDownloadState = "string \<rightharpoonup> sentFolderDownloadState"

definition sentDownloadState_update ::
  "string list \<Rightarrow> sentDownloadState \<Rightarrow> string \<Rightarrow> sharedPullerState list
     \<Rightarrow> (sentDownloadState \<times> FileDownloadProgressUpdate list) option" where
  "sentDownloadState_update order s folder pullers =
     (let fs = (case s folder of None \<Rightarrow> Map.empty | Some fs \<Rightarrow> fs) in
      map_option (\<lambda>(fs', us). (s(folder \<mapsto> fs'), us)) (sent_update order fs pullers))"

definition sentDownloadState_cleanup ::
  "string list \<Rightarrow> sentDownloadState \<Rightarrow> string \<Rightarrow> sentDownloadState \<times> FileDownloadProgressUpdate list" where
  "sentDownloadState_cleanup order s folder =
     (case s folder of
        Some fs \<Rightarrow> (s(folder := None), snd (sent_destroy order fs))
      | None \<Rightarrow> (s, []))"

section \<open>The contract between sender and receiver\<close>

text \<open>
  What one component announces and the other applies: \<open>mirror s\<close> is the picture a receiver
  should have of a sender in state \<open>s\<close>.
\<close>

locale announcer =
  fixes send :: "'s \<Rightarrow> 'c \<Rightarrow> ('s \<times> 'u list) option"
    and recv :: "'r \<Rightarrow> 'u list \<Rightarrow> 'r"
    and mirror :: "'s \<Rightarrow> 'r"
  assumes recv_Nil: "recv r [] = r"
    and recv_append: "recv r (us @ vs) = recv (recv r us) vs"
    and send_mirror: "send s c = Some (s', us) \<Longrightarrow> recv (mirror s) us = mirror s'"
begin

fun send_all :: "'s \<Rightarrow> 'c list \<Rightarrow> ('s \<times> 'u list) option" where
  "send_all s [] = Some (s, [])"
| "send_all s (c # cs) =
     (case send s c of
        None \<Rightarrow> None
      | Some (s', us) \<Rightarrow> map_option (\<lambda>(s'', vs). (s'', us @ vs)) (send_all s' cs))"

lemma send_all_mirror: "send_all s cs = Some (s', us) \<Longrightarrow> recv (mirror s) us = mirror s'"
  by (induction cs arbitrary: s us)
    (auto simp: recv_Nil recv_append send_mirror split: option.splits prod.splits)

text \<open>However the stream of updates is cut into messages, the receiver ends in the same state.\<close>

lemma recv_concat: "foldl recv r uss = recv r (concat uss)"
  by (induction uss arbitrary: r) (simp_all add: recv_Nil recv_append)

end

definition mirror1 :: "sentFolderFileDownloadState \<Rightarrow> deviceFolderFileDownloadState" where
  "mirror1 l = \<lparr>d_blockIndexes = s_blockIndexes l, d_version = s_version l, d_blockSize = s_blockSize l\<rparr>"

definition mirror :: "sentFolderDownloadState \<Rightarrow> deviceFolderDownloadState" where
  "mirror s = (\<lambda>n. map_option mirror1 (s n))"

lemma Vector_Equal_refl [simp]: "Vector_Equal v v"
  by (simp add: Vector_Equal_def vo.cmp_refl)

lemma Vector_Equal_sym: "Vector_Equal v w \<longleftrightarrow> Vector_Equal w v"
  using vo.cmp_flip [of v w] vo.cmp_flip [of w v] by (auto simp: Vector_Equal_def)

lemma mirror_upd: "mirror (s(n \<mapsto> l)) = (mirror s)(n \<mapsto> mirror1 l)" "mirror (s(n := None)) = (mirror s)(n := None)"
  by (auto simp: mirror_def)

lemma folder_Update_simps [simp]:
  "folder_Update p [] = p" "folder_Update p (u # us) = folder_Update (folder_Update1 p u) us"
  "folder_Update p (us @ vs) = folder_Update (folder_Update p us) vs"
  by (simp_all add: folder_Update_def)

lemma forget_mirror: "s n = Some l \<Longrightarrow> folder_Update1 (mirror s) (forget_update n (s_version l)) = mirror (s(n := None))"
  by (auto simp: folder_Update1_def forget_update_def mirror_def mirror1_def)

lemma append_new_mirror:
  "s n = None \<Longrightarrow> folder_Update1 (mirror s) (append_update n (s_version l) (s_blockIndexes l) (s_blockSize l)) = mirror (s(n \<mapsto> l))"
  by (auto simp: folder_Update1_def append_update_def mirror_def mirror1_def)

lemma append_more_mirror:
  "s n = Some l \<Longrightarrow> folder_Update1 (mirror s) (append_update n (s_version l) bs sz) =
   mirror (s(n \<mapsto> l\<lparr>s_blockIndexes := s_blockIndexes l @ bs, s_updated := t\<rparr>))"
  by (auto simp: folder_Update1_def append_update_def mirror_def mirror1_def)

lemma touch_mirror: "s n = Some l \<Longrightarrow> mirror (s(n \<mapsto> l\<lparr>s_updated := t\<rparr>)) = mirror s"
  by (auto simp: mirror_def mirror1_def)

text \<open>The state a puller is announced with when there is nothing to build on.\<close>

definition fresh_sent :: "sharedPullerState \<Rightarrow> sentFolderFileDownloadState" where
  "fresh_sent p = \<lparr>s_blockIndexes = Available p, s_version = fi_Version (sp_file p),
     s_updated = AvailableUpdated p, s_created = sp_created p, s_blockSize = FileInfo_BlockSize (sp_file p)\<rparr>"

lemma sent_update1_mirror:
  assumes "sent_update1 s p = Some (s', us)"
  shows "folder_Update (mirror s) us = mirror s'"
proof (cases "s (fi_Name (sp_file p))")
  case None
  note new = append_new_mirror [of s "fi_Name (sp_file p)" "fresh_sent p", OF None]
  show ?thesis using assms None new
    by (auto simp: sent_update1_def Let_def fresh_sent_def split: if_splits)
next
  case (Some l)
  let ?n = "fi_Name (sp_file p)"
  have cleared: "(s(?n := None)) ?n = None" by simp
  note again = append_new_mirror [of "s(?n := None)" ?n "fresh_sent p", OF cleared] forget_mirror [of s ?n l, OF Some]
  show ?thesis using assms Some again append_more_mirror [of s ?n l, OF Some] touch_mirror [of s ?n l, OF Some]
    by (auto simp: sent_update1_def Let_def fresh_sent_def split: if_splits)
qed

lemma sent_update_loop_mirror:
  "sent_update_loop s ps = Some (s', us) \<Longrightarrow> folder_Update (mirror s) us = mirror s'"
  by (induction ps arbitrary: s us)
    (auto dest!: sent_update1_mirror split: option.splits)

lemma forget_loop_mirror:
  "forget_loop seen s names = (s', us) \<Longrightarrow> folder_Update (mirror s) us = mirror s'"
  by (induction names arbitrary: s us)
    (auto simp: forget_mirror Let_def split: option.splits if_splits prod.splits)

lemma sent_update_mirror:
  "sent_update order s ps = Some (s', us) \<Longrightarrow> folder_Update (mirror s) us = mirror s'"
  by (auto simp: sent_update_def Let_def sent_update_loop_mirror forget_loop_mirror
      split: option.splits prod.splits)

interpretation ann: announcer "\<lambda>s (order, ps). sent_update order s ps" folder_Update mirror
  by unfold_locales (auto intro: sent_update_mirror)

lemma forget_loop_result:
  "fst (forget_loop seen s names) = (\<lambda>n. if n \<in> set names \<and> \<not> seen n then None else s n)"
  by (induction names arbitrary: s)
    (auto simp: Let_def case_prod_beta split: option.splits)

section \<open>The announced blocks\<close>

abbreviation puller_name :: "sharedPullerState \<Rightarrow> string" where
  "puller_name p \<equiv> fi_Name (sp_file p)"

text \<open>
  What the sender relies on: of the same download (same version, same creation time) the list of
  available blocks only grows, and an unchanged time stamp means an unchanged list.
\<close>

definition puller_consistent :: "sentFolderDownloadState \<Rightarrow> sharedPullerState \<Rightarrow> bool" where
  "puller_consistent s p \<longleftrightarrow>
     (case s (puller_name p) of
        None \<Rightarrow> True
      | Some l \<Rightarrow>
          Vector_Equal (fi_Version (sp_file p)) (s_version l) \<longrightarrow>
            (time_Equal (AvailableUpdated p) (s_updated l) \<longrightarrow> s_blockIndexes l = Available p) \<and>
            (time_Equal (sp_created p) (s_created l) \<longrightarrow> prefix (s_blockIndexes l) (Available p)))"

definition announced :: "sentFolderDownloadState \<Rightarrow> sharedPullerState \<Rightarrow> bool" where
  "announced s p \<longleftrightarrow>
     (case s (puller_name p) of
        None \<Rightarrow> Available p = []
      | Some l \<Rightarrow> Vector_Equal (s_version l) (fi_Version (sp_file p)) \<and> s_blockIndexes l = Available p)"

lemma sent_update1_announced:
  assumes "puller_consistent s p"
  shows "\<exists>s' us. sent_update1 s p = Some (s', us) \<and> announced s' p \<and> (\<forall>n. n \<noteq> puller_name p \<longrightarrow> s' n = s n)"
proof (cases "s (puller_name p)")
  case None
  then show ?thesis by (auto simp: sent_update1_def announced_def Let_def)
next
  case (Some l)
  then show ?thesis using assms
    by (auto simp: sent_update1_def announced_def puller_consistent_def Let_def Vector_Equal_sym
        dest: prefix_length_le elim!: prefixE)
qed

lemma announced_cong: "s (puller_name p) = t (puller_name p) \<Longrightarrow> announced s p = announced t p"
  by (simp add: announced_def)

lemma puller_consistent_cong: "s (puller_name p) = t (puller_name p) \<Longrightarrow> puller_consistent s p = puller_consistent t p"
  by (simp add: puller_consistent_def)

lemma sent_update_loop_announced:
  "distinct (map puller_name ps) \<Longrightarrow> \<forall>p \<in> set ps. puller_consistent s p \<Longrightarrow>
   \<exists>s' us. sent_update_loop s ps = Some (s', us) \<and> (\<forall>p \<in> set ps. announced s' p) \<and>
     (\<forall>n. n \<notin> puller_name ` set ps \<longrightarrow> s' n = s n)"
proof (induction ps arbitrary: s)
  case (Cons p ps)
  obtain s1 us1 where s1: "sent_update1 s p = Some (s1, us1)" "announced s1 p"
    "\<forall>n. n \<noteq> puller_name p \<longrightarrow> s1 n = s n"
    using sent_update1_announced [of s p] Cons.prems(2) by auto
  have "puller_consistent s1 q" if "q \<in> set ps" for q
  proof -
    have "puller_name q \<in> puller_name ` set ps" using that by (rule imageI)
    then have "puller_name q \<noteq> puller_name p" using Cons.prems(1) by auto
    then have "s1 (puller_name q) = s (puller_name q)" using s1(3) by blast
    then show ?thesis using Cons.prems(2) that puller_consistent_cong by (metis list.set_intros(2))
  qed
  then obtain s2 us2 where s2: "sent_update_loop s1 ps = Some (s2, us2)" "\<forall>p \<in> set ps. announced s2 p"
    "\<forall>n. n \<notin> puller_name ` set ps \<longrightarrow> s2 n = s1 n"
    using Cons.IH [of s1] Cons.prems(1) by auto
  have "s2 (puller_name p) = s1 (puller_name p)" using s2(3) Cons.prems(1) by auto
  then have "announced s2 p" using s1(2) announced_cong by metis
  then show ?case using s1 s2 by auto
qed simp

lemma announced_Has:
  "announced s p \<Longrightarrow> folder_Has (mirror s) (puller_name p) (fi_Version (sp_file p)) i \<longleftrightarrow> i \<in> set (Available p)"
  by (auto simp: announced_def folder_Has_def mirror_def mirror1_def split: option.splits)

text \<open>Rounds of the sender, each with the pullers of the moment.\<close>

fun sent_rounds ::
  "sentFolderDownloadState \<Rightarrow> (string list \<times> sharedPullerState list) list
     \<Rightarrow> (sentFolderDownloadState \<times> FileDownloadProgressUpdate list) option" where
  "sent_rounds s [] = Some (s, [])"
| "sent_rounds s ((order, ps) # rounds) =
     (case sent_update order s ps of
        None \<Rightarrow> None
      | Some (s', us) \<Rightarrow> map_option (\<lambda>(s'', vs). (s'', us @ vs)) (sent_rounds s' rounds))"

lemma sent_rounds_send_all: "sent_rounds s rounds = ann.send_all s rounds"
  by (induction s rounds rule: sent_rounds.induct) (auto split: option.splits)

section \<open>Properties\<close>

text \<open>C19. A device that applies the updates it is sent has exactly the sender's picture: after any
  number of rounds, each with the pullers of that moment and whatever the iteration order of
  the sender's map, the updates concatenated (however they are cut into messages) turn the
  mirror of the sender's first state into the mirror of its last.\<close>

theorem download_progress_mirrored:
  assumes "sent_rounds s rounds = Some (s', us)" and "concat messages = us"
  shows "foldl folder_Update (mirror s) messages = mirror s'"
  using ann.send_all_mirror [OF assms(1) [unfolded sent_rounds_send_all]] ann.recv_concat [of "mirror s" messages]
    assms(2) by simp

definition example_sender :: "int list \<Rightarrow> int \<Rightarrow> sharedPullerState" where
  "example_sender av t = (example_puller (fi_Blocks example_file))\<lparr>sp_available := av, sp_availableUpdated := time_Unix t 0\<rparr>"

lemmas example_sender_simps = example_sender_def newSharedPullerState_def example_file_def sent_update1_def
  Available_def AvailableUpdated_def time_Equal_def time_Unix_def wrap_signed_def unixToInternal_def Let_def

theorem download_progress_mirrored_witness:
  "\<exists>s us. sent_rounds Map.empty [([], [example_sender [3] 1]), ([''a''], [example_sender [3, 5] 2]), ([''a''], [])] = Some (s, us) \<and>
     length us = 3 \<and> foldl folder_Update (mirror Map.empty) [take 1 us, drop 1 us] = mirror s"
proof -
  obtain s us where r: "sent_rounds Map.empty [([], [example_sender [3] 1]), ([''a''], [example_sender [3, 5] 2]), ([''a''], [])]
      = Some (s, us)" "length us = 3"
    by (simp add: sent_update_def example_sender_simps)
  have "concat [take 1 us, drop 1 us] = us" by simp
  from download_progress_mirrored [OF r(1) this] r show ?thesis by blast
qed

text \<open>C37. If the pullers have distinct names and only ever gained blocks since they were announced,
  a round succeeds, and afterwards the receiver offers for each of them exactly the blocks it
  has available, in the version being downloaded, and nothing for any other file.\<close>

theorem download_progress_exact:
  assumes "distinct (map puller_name ps)" and "\<forall>p \<in> set ps. puller_consistent s p" and "dom s \<subseteq> set order"
  shows "\<exists>s' us. sent_update order s ps = Some (s', us) \<and> folder_Update (mirror s) us = mirror s' \<and>
    (\<forall>p \<in> set ps. \<forall>i. folder_Has (mirror s') (puller_name p) (fi_Version (sp_file p)) i \<longleftrightarrow> i \<in> set (Available p)) \<and>
    (\<forall>n v i. n \<notin> puller_name ` set ps \<longrightarrow> \<not> folder_Has (mirror s') n v i)"
proof -
  obtain s1 us1 where s1: "sent_update_loop s ps = Some (s1, us1)" "\<forall>p \<in> set ps. announced s1 p"
    "\<forall>n. n \<notin> puller_name ` set ps \<longrightarrow> s1 n = s n"
    using sent_update_loop_announced [OF assms(1,2)] by blast
  let ?seen = "\<lambda>n. n \<in> set (map puller_name ps)"
  obtain s' us2 where s2: "forget_loop ?seen s1 order = (s', us2)" by (cases "forget_loop ?seen s1 order")
  have s': "s' n = (if n \<in> set order \<and> n \<notin> puller_name ` set ps then None else s1 n)" for n
    using forget_loop_result [of ?seen s1 order] s2 by (simp add: image_iff)
  have u: "sent_update order s ps = Some (s', us1 @ us2)" using s1(1) s2 by (simp add: sent_update_def)
  have "announced s' p" if "p \<in> set ps" for p
    using s1(2) that s' announced_cong [of s' p s1] by simp
  moreover have "s' n = None" if "n \<notin> puller_name ` set ps" for n
    using that s' s1(3) assms(3) by (auto simp: domIff)
  ultimately show ?thesis using u sent_update_mirror [OF u] announced_Has
    by (intro exI [of _ s'] exI [of _ "us1 @ us2"]) (auto simp: folder_Has_def mirror_def)
qed

theorem download_progress_exact_witness:
  "\<exists>s' us. sent_update [''b''] [''b'' \<mapsto> fresh_sent (example_sender [1] 1)] [example_sender [3, 5] 2] = Some (s', us) \<and>
     folder_Has (mirror s') ''a'' example_a 5 \<and> \<not> folder_Has (mirror s') ''b'' example_a 1"
proof -
  let ?s = "[''b'' \<mapsto> fresh_sent (example_sender [1] 1)]" and ?p = "example_sender [3, 5] 2"
  have n: "puller_name ?p = ''a''" "fi_Version (sp_file ?p) = example_a" "Available ?p = [3, 5]"
    by (simp_all add: example_sender_simps)
  have "distinct (map puller_name [?p])" "\<forall>p \<in> set [?p]. puller_consistent ?s p" "dom ?s \<subseteq> set [''b'']"
    by (simp_all add: puller_consistent_def n)
  from download_progress_exact [OF this] show ?thesis by (force simp: n)
qed

end
