(* ===== verification/Wire.thy ===== *)
theory Wire
  imports FileInfo DeviceID DownloadState
begin

text \<open>
  The messages of the block exchange protocol and their wire records: \<open>lib/protocol\<close>,
  \<open>bep_clusterconfig.go\<close>, \<open>bep_index_updates.go\<close>, \<open>bep_request_response.go\<close>,
  \<open>bep_download_progress.go\<close>, \<open>bep_hello.go\<close>, \<open>errors.go\<close> and \<open>indexid.go\<close>. The wire records
  are those of the generated package \<open>bep\<close>, field for field; its enumerations are open, so their
  values are integers.
\<close>

section \<open>Cluster configuration\<close>

type_synonym Compression = int

definition CompressionMetadata :: Compression where "CompressionMetadata = 0"
definition CompressionNever :: Compression where "CompressionNever = 1"
definition CompressionAlways :: Compression where "CompressionAlways = 2"

type_synonym FolderType = int

definition FolderTypeSendReceive :: FolderType where "FolderTypeSendReceive = 0"
definition FolderTypeSendOnly :: FolderType where "FolderTypeSendOnly = 1"
definition FolderTypeReceiveOnly :: FolderType where "FolderTypeReceiveOnly = 2"
definition FolderTypeReceiveEncrypted :: FolderType where "FolderTypeReceiveEncrypted = 3"

type_synonym FolderStopReason = int

definition FolderStopReasonRunning :: FolderStopReason where "FolderStopReasonRunning = 0"
definition FolderStopReasonPaused :: FolderStopReason where "FolderStopReasonPaused = 1"

type_synonym IndexID = uint64

record Device =
  d_ID :: DeviceID
  d_Name :: string
  d_Addresses :: "string list"
  d_Compression :: Compression
  d_CertName :: string
  d_MaxSequence :: int
  d_Introducer :: bool
  d_IndexID :: IndexID
  d_SkipIntroductionRemovals :: bool
  d_EncryptionPasswordToken :: bytes

record bep_Device =
  wd_Id :: bytes
  wd_Name :: string
  wd_Addresses :: "string list"
  wd_Compression :: int
  wd_CertName :: string
  wd_MaxSequence :: int
  wd_Introducer :: bool
  wd_IndexId :: uint64
  wd_SkipIntroductionRemovals :: bool
  wd_EncryptionPasswordToken :: bytes

definition Device_toWire :: "Device \<Rightarrow> bep_Device" where
  "Device_toWire d =
     \<lparr>wd_Id = d_ID d, wd_Name = d_Name d, wd_Addresses = d_Addresses d, wd_Compression = d_Compression d,
      wd_CertName = d_CertName d, wd_MaxSequence = d_MaxSequence d, wd_Introducer = d_Introducer d,
      wd_IndexId = d_IndexID d, wd_SkipIntroductionRemovals = d_SkipIntroductionRemovals d,
      wd_EncryptionPasswordToken = d_EncryptionPasswordToken d\<rparr>"

text \<open>The conversion of the slice to an array panics if it is shorter than the array.\<close>

datatype wire_panic = PanicShortDeviceID

definition deviceFromWire :: "bep_Device \<Rightarrow> (wire_panic, Device) result" where
  "deviceFromWire w =
     (if length (wd_Id w) < DeviceIDLength then Inl PanicShortDeviceID
      else Inr \<lparr>d_ID = take DeviceIDLength (wd_Id w), d_Name = wd_Name w, d_Addresses = wd_Addresses w, d_Compression = wd_Compression w,
        d_CertName = wd_CertName w, d_MaxSequence = wd_MaxSequence w, d_Introducer = wd_Introducer w,
        d_IndexID = wd_IndexId w, d_SkipIntroductionRemovals = wd_SkipIntroductionRemovals w,
        d_EncryptionPasswordToken = wd_EncryptionPasswordToken w\<rparr>)"

text \<open>A loop that fills a slice by a conversion which may panic.\<close>

fun map_result :: "('a \<Rightarrow> ('e, 'b) result) \<Rightarrow> 'a list \<Rightarrow> ('e, 'b list) result" where
  "map_result f [] = Inr []"
| "map_result f (x # xs) =
     (case f x of Inl e \<Rightarrow> Inl e | Inr y \<Rightarrow> (case map_result f xs of Inl e \<Rightarrow> Inl e | Inr ys \<Rightarrow> Inr (y # ys)))"

record Folder =
  fo_ID :: string
  fo_Label :: string
  fo_Type :: FolderType
  fo_StopReason :: FolderStopReason
  fo_Devices :: "Device list"

record bep_Folder =
  wf_Id :: string
  wf_Label :: string
  wf_Type :: int
  wf_StopReason :: int
  wf_Devices :: "bep_Device list"

definition Folder_toWire :: "Folder \<Rightarrow> bep_Folder" where
  "Folder_toWire f =
     \<lparr>wf_Id = fo_ID f, wf_Label = fo_Label f, wf_Type = fo_Type f, wf_StopReason = fo_StopReason f,
      wf_Devices = map Device_toWire (fo_Devices f)\<rparr>"

definition folderFromWire :: "bep_Folder \<Rightarrow> (wire_panic, Folder) result" where
  "folderFromWire w =
     (case map_result deviceFromWire (wf_Devices w) of
        Inl e \<Rightarrow> Inl e
      | Inr devices \<Rightarrow>
          Inr \<lparr>fo_ID = wf_Id w, fo_Label = wf_Label w, fo_Type = wf_Type w, fo_StopReason = wf_StopReason w, fo_Devices = devices\<rparr>)"

definition Folder_IsRunning :: "Folder \<Rightarrow> bool" where
  "Folder_IsRunning f = (if fo_StopReason f = FolderStopReasonPaused then False else True)"

record ClusterConfig =
  cc_Folders :: "Folder list"
  cc_Secondary :: bool

record bep_ClusterConfig =
  wcc_Folders :: "bep_Folder list"
  wcc_Secondary :: bool

definition ClusterConfig_toWire :: "ClusterConfig \<Rightarrow> bep_ClusterConfig" where
  "ClusterConfig_toWire c = \<lparr>wcc_Folders = map Folder_toWire (cc_Folders c), wcc_Secondary = cc_Secondary c\<rparr>"

definition clusterConfigFromWire :: "bep_ClusterConfig \<Rightarrow> (wire_panic, ClusterConfig) result" where
  "clusterConfigFromWire w =
     (case map_result folderFromWire (wcc_Folders w) of
        Inl e \<Rightarrow> Inl e
      | Inr folders \<Rightarrow> Inr \<lparr>cc_Folders = folders, cc_Secondary = wcc_Secondary w\<rparr>)"

section \<open>Index messages\<close>

record Index =
  ix_Folder :: string
  ix_Files :: "FileInfo list"
  ix_LastSequence :: int

record IndexUpdate = Index +
  ix_PrevSequence :: int

record bep_Index =
  wix_Folder :: string
  wix_Files :: "bep_FileInfo list"
  wix_LastSequence :: int

record bep_IndexUpdate = bep_Index +
  wix_PrevSequence :: int

definition Index_toWire :: "Index \<Rightarrow> (FileInfoPanic, bep_Index) result" where
  "Index_toWire i =
     (case map_result (\<lambda>f. FileInfo_ToWire f False) (ix_Files i) of
        Inl e \<Rightarrow> Inl e
      | Inr files \<Rightarrow> Inr \<lparr>wix_Folder = ix_Folder i, wix_Files = files, wix_LastSequence = ix_LastSequence i\<rparr>)"

definition indexFromWire :: "bep_Index \<Rightarrow> Index" where
  "indexFromWire w = \<lparr>ix_Folder = wix_Folder w, ix_Files = map FileInfoFromWire (wix_Files w), ix_LastSequence = wix_LastSequence w\<rparr>"

definition IndexUpdate_toWire :: "IndexUpdate \<Rightarrow> (FileInfoPanic, bep_IndexUpdate) result" where
  "IndexUpdate_toWire i =
     (case map_result (\<lambda>f. FileInfo_ToWire f False) (ix_Files i) of
        Inl e \<Rightarrow> Inl e
      | Inr files \<Rightarrow> Inr \<lparr>wix_Folder = ix_Folder i, wix_Files = files, wix_LastSequence = ix_LastSequence i,
                          wix_PrevSequence = ix_PrevSequence i\<rparr>)"

definition indexUpdateFromWire :: "bep_IndexUpdate \<Rightarrow> IndexUpdate" where
  "indexUpdateFromWire w =
     \<lparr>ix_Folder = wix_Folder w, ix_Files = map FileInfoFromWire (wix_Files w), ix_LastSequence = wix_LastSequence w,
      ix_PrevSequence = wix_PrevSequence w\<rparr>"

section \<open>Requests and responses\<close>

type_synonym ErrorCode = int

definition ErrorCodeNoError :: ErrorCode where "ErrorCodeNoError = 0"
definition ErrorCodeGeneric :: ErrorCode where "ErrorCodeGeneric = 1"
definition ErrorCodeNoSuchFile :: ErrorCode where "ErrorCodeNoSuchFile = 2"
definition ErrorCodeInvalidFile :: ErrorCode where "ErrorCodeInvalidFile = 3"

record Request =
  rq_ID :: int
  rq_Folder :: string
  rq_Name :: string
  rq_Offset :: int
  rq_Size :: int
  rq_Hash :: bytes
  rq_FromTemporary :: bool
  rq_BlockNo :: int

text \<open>The wire record has the same fields; \<open>ID\<close>, \<open>Size\<close> and \<open>BlockNo\<close> are \<open>int32\<close> there.\<close>

definition Request_toWire :: "Request \<Rightarrow> Request" where
  "Request_toWire r = r\<lparr>rq_ID := go_int32 (rq_ID r), rq_Size := go_int32 (rq_Size r), rq_BlockNo := go_int32 (rq_BlockNo r)\<rparr>"

definition requestFromWire :: "Request \<Rightarrow> Request" where
  "requestFromWire w = w"

record Response =
  rs_ID :: int
  rs_Data :: bytes
  rs_Code :: ErrorCode

definition Response_toWire :: "Response \<Rightarrow> Response" where
  "Response_toWire r = r\<lparr>rs_ID := go_int32 (rs_ID r)\<rparr>"

definition responseFromWire :: "Response \<Rightarrow> Response" where
  "responseFromWire w = w"

text \<open>The errors of the package, and any other error by its text; \<open>wraps e s\<close> is \<open>errors.Is\<close>.\<close>

datatype proto_error = ErrGeneric | ErrNoSuchFile | ErrInvalid | OtherError string

definition codeToError :: "ErrorCode \<Rightarrow> proto_error option" where
  "codeToError code =
     (if code = ErrorCodeNoError then None
      else if code = ErrorCodeNoSuchFile then Some ErrNoSuchFile
      else if code = ErrorCodeInvalidFile then Some ErrInvalid
      else Some ErrGeneric)"

definition errorToCode :: "(proto_error \<Rightarrow> proto_error \<Rightarrow> bool) \<Rightarrow> proto_error option \<Rightarrow> ErrorCode" where
  "errorToCode wraps err =
     (case err of
        None \<Rightarrow> ErrorCodeNoError
      | Some e \<Rightarrow> if wraps e ErrNoSuchFile then ErrorCodeNoSuchFile
                  else if wraps e ErrInvalid then ErrorCodeInvalidFile else ErrorCodeGeneric)"

section \<open>Download progress\<close>

record bep_FileDownloadProgressUpdate =
  wu_UpdateType :: FileDownloadProgressUpdateType
  wu_Name :: string
  wu_Version :: "bep_Vector option"
  wu_BlockIndexes :: "int list"
  wu_BlockSize :: int

definition FileDownloadProgressUpdate_toWire :: "FileDownloadProgressUpdate \<Rightarrow> bep_FileDownloadProgressUpdate" where
  "FileDownloadProgressUpdate_toWire f =
     \<lparr>wu_UpdateType = u_UpdateType f, wu_Name = u_Name f, wu_Version = Some (Vector_ToWire (u_Version f)),
      wu_BlockIndexes = map go_int32 (u_BlockIndexes f), wu_BlockSize = go_int32 (u_BlockSize f)\<rparr>"

definition fileDownloadProgressUpdateFromWire :: "bep_FileDownloadProgressUpdate \<Rightarrow> FileDownloadProgressUpdate" where
  "fileDownloadProgressUpdateFromWire w =
     \<lparr>u_UpdateType = wu_UpdateType w, u_Name = wu_Name w, u_Version = VectorFromWire (wu_Version w),
      u_BlockIndexes = wu_BlockIndexes w, u_BlockSize = wu_BlockSize w\<rparr>"

record DownloadProgress =
  dp_Folder :: string
  dp_Updates :: "FileDownloadProgressUpdate list"

record bep_DownloadProgress =
  wdp_Folder :: string
  wdp_Updates :: "bep_FileDownloadProgressUpdate list"

definition DownloadProgress_toWire :: "DownloadProgress \<Rightarrow> bep_DownloadProgress" where
  "DownloadProgress_toWire d = \<lparr>wdp_Folder = dp_Folder d, wdp_Updates = map FileDownloadProgressUpdate_toWire (dp_Updates d)\<rparr>"

definition downloadProgressFromWire :: "bep_DownloadProgress \<Rightarrow> DownloadProgress" where
  "downloadProgressFromWire w = \<lparr>dp_Folder = wdp_Folder w, dp_Updates = map fileDownloadProgressUpdateFromWire (wdp_Updates w)\<rparr>"

section \<open>Index identifiers\<close>

definition IndexID_Marshal :: "IndexID \<Rightarrow> bytes" where
  "IndexID_Marshal i = be_PutUint64 i"

text \<open>\<open>None\<close> is the error; the receiver is left as it is then.\<close>

definition IndexID_Unmarshal :: "bytes \<Rightarrow> IndexID option" where
  "IndexID_Unmarshal bs = (if length bs \<noteq> 8 then None else Some (be_Uint64 bs))"

end
