(* ===== verification/PullBlocks.thy ===== *)
theory PullBlocks
  imports ScanBlocks SharedPuller BlockPull FsPath Wire
begin

text \<open>
  How the puller fetches the blocks of one file (\<open>lib/model/folder_sendrecv.go\<close>): \<open>handleFile\<close> with
  \<open>reuseBlocks\<close>, the copier routine with the places it copies blocks from, the puller routine with
  its requests to other devices, and the finisher. The routines run concurrently; each is a
  \<open>task\<close>, a tree of atomic steps on the shared state, so that every interleaving is covered. The
  state of the disk, of the network and of the context is \<open>'w\<close>, which may change at any time and
  is looked at through the functions of \<open>block_env\<close>.
\<close>

section \<open>Which blocks are there already\<close>

fun block_diff_loop :: "BlockInfo list \<Rightarrow> BlockInfo list \<Rightarrow> BlockInfo list \<times> BlockInfo list" where
  "block_diff_loop src [] = ([], [])"
| "block_diff_loop [] tgt = ([], tgt)"
| "block_diff_loop (s # src) (t # tgt) =
     (let (have, need) = block_diff_loop src tgt in
      if bi_Hash t \<noteq> bi_Hash s then (have, t # need) else (t # have, need))"

definition blockDiff :: "BlockInfo list \<Rightarrow> BlockInfo list \<Rightarrow> BlockInfo list \<times> BlockInfo list" where
  "blockDiff src tgt =
     (if length tgt = 0 then ([], [])
      else if length src = 0 then ([], tgt)
      else block_diff_loop src tgt)"

fun populate_loop :: "int \<Rightarrow> BlockInfo list \<Rightarrow> BlockInfo list" where
  "populate_loop offset [] = []"
| "populate_loop offset (b # bs) = b\<lparr>bi_Offset := offset\<rparr> # populate_loop (offset + bi_Size b) bs"

definition populateOffsets :: "BlockInfo list \<Rightarrow> BlockInfo list" where
  "populateOffsets bs = populate_loop 0 bs"

definition show_int :: "int \<Rightarrow> string" where
  "show_int n = (if n < 0 then CHR ''-'' # show_dec (nat (- n)) else show_dec (nat n))"

definition BlockInfo_String :: "BlockInfo \<Rightarrow> string" where
  "BlockInfo_String b =
     ''Block{'' @ show_int (bi_Offset b) @ ''/'' @ show_int (bi_Size b) @ ''/'' @ hex_EncodeToString (bi_Hash b) @ ''}''"

fun reuse_loop :: "string set \<Rightarrow> int \<Rightarrow> BlockInfo list \<Rightarrow> BlockInfo list \<times> int list" where
  "reuse_loop existing i [] = ([], [])"
| "reuse_loop existing i (b # bs) =
     (let (blocks, reused) = reuse_loop existing (i + 1) bs in
      if BlockInfo_String b \<notin> existing then (b # blocks, reused) else (blocks, i # reused))"

section \<open>The surroundings\<close>

text \<open>
  \<open>be_HashTemp\<close> are the calls to hash the temporary file; when \<open>be_TempConflict\<close> holds, the error is
  a \<open>CaseConflictError\<close>, \<open>be_RenameTemp\<close> the result of renaming the real file, \<open>be_RealTemp\<close> its
  content and \<open>be_HashRenamed\<close> the second attempt. \<open>be_ReadAt\<close> opens a file of a folder and reads
  a block of it, \<open>be_CopyRange\<close> is what \<open>fs.CopyRange\<close> copies; \<open>be_Write\<close> is the error of a write
  and the number of bytes written before it. \<open>be_LocalBlocks\<close> is \<open>AllLocalBlocksWithHash\<close>: names and
  offsets, up to an error. \<open>be_ctx\<close> is the error of the context once it is done.
\<close>

record 'w block_env =
  be_sha256 :: "bytes \<Rightarrow> bytes"
  be_isWindows :: bool
  be_ID :: string
  be_Type :: FolderType
  be_DisableSparseFiles :: bool
  be_DisableFsync :: bool
  be_IgnorePerms :: bool
  be_BlockIndexing :: bool
  be_CopyRangeMethodStandard :: bool
  be_otherFolders :: "string list"
  be_codec :: proto_codec
  be_reorderer :: blockPullReorderer
  be_shuffleBlocks :: "BlockInfo list \<Rightarrow> BlockInfo list"
  be_shuffle :: "nat list \<Rightarrow> nat list"
  be_now :: "'w \<Rightarrow> Time"
  be_GetDeviceFile :: "string \<Rightarrow> 'w \<Rightarrow> (string, FileInfo option) result"
  be_HashTemp :: "'w \<Rightarrow> hash_access"
  be_TempConflict :: "'w \<Rightarrow> bool"
  be_RenameTemp :: "'w \<Rightarrow> string option"
  be_RealTemp :: "'w \<Rightarrow> bytes"
  be_HashRenamed :: "'w \<Rightarrow> hash_access"
  be_RemoveTemp :: "'w \<Rightarrow> string option"
  be_fs :: "'w \<Rightarrow> fs_outcome"
  be_ReadAt :: "string \<Rightarrow> string \<Rightarrow> int \<Rightarrow> int \<Rightarrow> 'w \<Rightarrow> (string, bytes) result"
  be_LocalBlocks :: "string \<Rightarrow> bytes \<Rightarrow> 'w \<Rightarrow> (string \<times> int) list"
  be_CopyRange :: "string \<Rightarrow> string \<Rightarrow> int \<Rightarrow> int \<Rightarrow> 'w \<Rightarrow> string option \<times> bytes"
  be_writeLimiter :: "'w \<Rightarrow> string option"
  be_Write :: "'w \<Rightarrow> (string \<times> nat) option"
  be_requestLimiter :: "'w \<Rightarrow> string option"
  be_blockAvailability :: "FileInfo \<Rightarrow> BlockInfo \<Rightarrow> 'w \<Rightarrow> Availability list"
  be_RequestGlobal :: "DeviceID \<Rightarrow> string \<Rightarrow> string \<Rightarrow> int \<Rightarrow> int \<Rightarrow> int \<Rightarrow> bytes \<Rightarrow> bool \<Rightarrow> 'w \<Rightarrow> (string, bytes) result"
  be_ctx :: "'w \<Rightarrow> string option"

section \<open>Taking up a file\<close>

text \<open>\<open>temp\<close> is the content of the temporary file; the result has it after a rename.\<close>

definition reuseBlocks ::
  "'w block_env \<Rightarrow> 'w \<Rightarrow> bytes \<Rightarrow> BlockInfo list \<Rightarrow> int list \<Rightarrow> FileInfo \<Rightarrow> (BlockInfo list \<times> int list) \<times> bytes" where
  "reuseBlocks E w temp blocks reused file =
     (let first = HashFile (be_sha256 E) (be_HashTemp E w) temp (FileInfo_BlockSize file);
          renamed = (isl first \<and> be_TempConflict E w \<and> be_RenameTemp E w = None);
          temp' = (if renamed then be_RealTemp E w else temp);
          second = (if renamed then HashFile (be_sha256 E) (be_HashRenamed E w) temp' (FileInfo_BlockSize file) else first)
      in case second of
           Inl _ \<Rightarrow> ((blocks, reused), temp')
         | Inr tempBlocks \<Rightarrow>
             (let tempCopyBlocks = fst (blockDiff tempBlocks (fi_Blocks file));
                  existingBlocks = set (map BlockInfo_String tempCopyBlocks);
                  (blocks', new) = reuse_loop existingBlocks 0 (fi_Blocks file)
              in ((blocks', reused @ new), temp')))"

record copyBlocksState =
  cs_state :: sharedPullerState
  cs_blocks :: "BlockInfo list"
  cs_have :: nat

text \<open>
  The temporary file is removed when nothing of it is reused; the result of the removal is
  ignored. \<open>inWritableDir\<close> changes nothing else that matters here.
\<close>

definition handleFile ::
  "'w block_env \<Rightarrow> 'w \<Rightarrow> bytes \<Rightarrow> FileInfo \<Rightarrow> (string, copyBlocksState \<times> bytes) result" where
  "handleFile E w temp file0 =
     (case be_GetDeviceFile E (fi_Name file0) w of
        Inl e \<Rightarrow> Inl e
      | Inr r \<Rightarrow>
          (let hasCurFile = (r \<noteq> None);
               curFile = (case r of Some f \<Rightarrow> f | None \<Rightarrow> FileInfo_zero);
               have = fst (blockDiff (fi_Blocks curFile) (fi_Blocks file0));
               file = file0\<lparr>fi_Blocks := populateOffsets (fi_Blocks file0)\<rparr>;
               ((blocks, reused), temp1) =
                 (if be_Type E \<noteq> FolderTypeReceiveEncrypted then reuseBlocks E w temp (fi_Blocks file) [] file
                  else ((fi_Blocks file, []), temp));
               temp2 = (if length reused = 0 \<and> be_RemoveTemp E w = None then [] else temp1);
               blocks' = Reorder (be_shuffleBlocks E) (be_shuffle E) (be_reorderer E) blocks;
               s = newSharedPullerState (be_now E w) file (be_ID E) (TempName (be_isWindows E) (be_sha256 E) (fi_Name file)) blocks' reused
                     (be_IgnorePerms E \<or> fi_NoPermissions file) hasCurFile curFile
                     (\<not> be_DisableSparseFiles E) (\<not> be_DisableFsync E)
           in Inr (\<lparr>cs_state = s, cs_blocks = blocks', cs_have = length have\<rparr>, temp2)))"

section \<open>Shared state and tasks\<close>

text \<open>
  The state of the file (with the work still to be done, as in \<open>pull_sys\<close>), the content of its
  temporary file, all blocks sent to the pullers so far, the number of messages sent to the
  finisher, what \<open>finalClose\<close> returned to it each time, the load of the devices and the rest of
  the world. A task ends by sending the state to the finisher, as every path through the
  routines does.
\<close>

record 'w pulling =
  pl_sys :: pull_sys
  pl_temp :: bytes
  pl_pullChan :: "BlockInfo list"
  pl_out :: nat
  pl_closing :: "(bool \<times> string option) list"
  pl_activity :: deviceActivity
  pl_world :: 'w

datatype 'w task = SendOut | Step "'w pulling \<Rightarrow> 'w pulling" "'w pulling \<Rightarrow> 'w task"

definition act :: "('w pulling \<Rightarrow> 'a \<times> 'w pulling) \<Rightarrow> ('a \<Rightarrow> 'w task) \<Rightarrow> 'w task" where
  "act f k = Step (\<lambda>p. snd (f p)) (\<lambda>p. k (fst (f p)))"

definition ask :: "('w \<Rightarrow> 'a) \<Rightarrow> ('a \<Rightarrow> 'w task) \<Rightarrow> 'w task" where
  "ask g k = act (\<lambda>p. (g (pl_world p), p)) k"

abbreviation pl_state :: "'w pulling \<Rightarrow> sharedPullerState" where
  "pl_state p \<equiv> ps_state (pl_sys p)"

definition on_state :: "(sharedPullerState \<Rightarrow> sharedPullerState) \<Rightarrow> 'w pulling \<Rightarrow> 'w pulling" where
  "on_state f p = p\<lparr>pl_sys := (pl_sys p)\<lparr>ps_state := f (pl_state p)\<rparr>\<rparr>"

definition do_fail :: "string \<Rightarrow> 'w task \<Rightarrow> 'w task" where
  "do_fail e k = act (\<lambda>p. ((), on_state (puller_fail (Some e)) p)) (\<lambda>_. k)"

definition ask_failed :: "(bool \<Rightarrow> 'w task) \<Rightarrow> 'w task" where
  "ask_failed k = act (\<lambda>p. (puller_failed (pl_state p) \<noteq> None, p)) k"

definition do_copyDone :: "'w block_env \<Rightarrow> BlockInfo \<Rightarrow> 'w task \<Rightarrow> 'w task" where
  "do_copyDone E b k = act (\<lambda>p. ((), p\<lparr>pl_sys := (pl_sys p)\<lparr>ps_state := copyDone (be_now E (pl_world p)) b (pl_state p),
     ps_copying := remove1 b (ps_copying (pl_sys p)), ps_finished := ps_finished (pl_sys p) @ [b]\<rparr>\<rparr>)) (\<lambda>_. k)"

definition do_pullStarted :: "'w block_env \<Rightarrow> BlockInfo \<Rightarrow> 'w task \<Rightarrow> 'w task" where
  "do_pullStarted E b k = act (\<lambda>p. ((), p\<lparr>pl_sys := (pl_sys p)\<lparr>ps_state := pullStarted (be_now E (pl_world p)) (pl_state p),
     ps_copying := remove1 b (ps_copying (pl_sys p)), ps_pulling := b # ps_pulling (pl_sys p)\<rparr>\<rparr>)) (\<lambda>_. k)"

definition do_pullDone :: "'w block_env \<Rightarrow> BlockInfo \<Rightarrow> 'w task \<Rightarrow> 'w task" where
  "do_pullDone E b k = act (\<lambda>p. ((), p\<lparr>pl_sys := (pl_sys p)\<lparr>ps_state := pullDone (be_now E (pl_world p)) b (pl_state p),
     ps_pulling := remove1 b (ps_pulling (pl_sys p)), ps_finished := ps_finished (pl_sys p) @ [b]\<rparr>\<rparr>)) (\<lambda>_. k)"

definition do_origin :: "'w block_env \<Rightarrow> 'w task \<Rightarrow> 'w task" where
  "do_origin E k = act (\<lambda>p. ((), on_state (copiedFromOrigin (be_now E (pl_world p))) p)) (\<lambda>_. k)"

definition do_sparse :: "'w block_env \<Rightarrow> 'w task \<Rightarrow> 'w task" where
  "do_sparse E k = act (\<lambda>p. ((), on_state (skippedSparseBlock (be_now E (pl_world p))) p)) (\<lambda>_. k)"

definition do_send :: "BlockInfo \<Rightarrow> 'w task \<Rightarrow> 'w task" where
  "do_send b k = act (\<lambda>p. ((), p\<lparr>pl_pullChan := pl_pullChan p @ [b]\<rparr>)) (\<lambda>_. k)"

subsection \<open>The temporary file\<close>

text \<open>
  What the calls listed by \<open>tempFile\<close> and \<open>finalClose\<close> do to the content: an exclusive create
  starts empty, a truncation that succeeds sets the length, and the trailer is written.
\<close>

definition resize :: "int \<Rightarrow> bytes \<Rightarrow> bytes" where
  "resize n c = take (nat n) c @ replicate (nat n - length c) 0"

definition write_at :: "int \<Rightarrow> bytes \<Rightarrow> bytes \<Rightarrow> bytes" where
  "write_at offset bs c =
     (if bs = [] then c
      else take (nat offset) (c @ replicate (nat offset - length c) 0) @ bs @ drop (nat offset + length bs) c)"

fun temp_call :: "fs_outcome \<Rightarrow> fs_call \<Rightarrow> bytes \<Rightarrow> bytes" where
  "temp_call fsys (CallOpenFile name flags mode) c =
     (if o_OpenFile fsys = None \<and> flags = OptReadWrite OR OptCreate OR OptExclusive then [] else c)"
| "temp_call fsys (CallTruncate n) c = (if o_Truncate fsys = None then resize n c else c)"
| "temp_call fsys (CallWriteAt bs offset) c = (if o_WriteAt fsys = None then write_at offset bs c else c)"
| "temp_call fsys (CallRemove name) c = []"
| "temp_call fsys call c = c"

definition temp_calls :: "fs_outcome \<Rightarrow> fs_call list \<Rightarrow> bytes \<Rightarrow> bytes" where
  "temp_calls fsys calls c = foldl (\<lambda>c call. temp_call fsys call c) c calls"

definition op_tempFile :: "'w block_env \<Rightarrow> 'w pulling \<Rightarrow> exc option \<times> 'w pulling" where
  "op_tempFile E p =
     (let fsys = be_fs E (pl_world p);
          (calls, err, s) = tempFile (protoSize (be_codec E)) fsys (pl_state p)
      in (err, p\<lparr>pl_sys := (pl_sys p)\<lparr>ps_state := s\<rparr>, pl_temp := temp_calls fsys calls (pl_temp p)\<rparr>))"

text \<open>A panic ends the process; there is no more to this task then.\<close>

definition do_tempFile :: "'w block_env \<Rightarrow> (string option \<Rightarrow> 'w task) \<Rightarrow> 'w task" where
  "do_tempFile E k = act (op_tempFile E) (\<lambda>err. case err of None \<Rightarrow> k None | Some (Err e) \<Rightarrow> k (Some e) | Some Panic \<Rightarrow> SendOut)"

text \<open>Writing to a file that has been closed, or at a negative offset, is an error.\<close>

definition op_write :: "'w block_env \<Rightarrow> bytes \<Rightarrow> int \<Rightarrow> 'w pulling \<Rightarrow> string option \<times> 'w pulling" where
  "op_write E bs offset p =
     (if \<not> sp_writer (pl_state p) then (Some ''file already closed'', p)
      else if offset < 0 then (Some ''negative offset'', p)
      else
        (case be_Write E (pl_world p) of
           None \<Rightarrow> (None, p\<lparr>pl_temp := write_at offset bs (pl_temp p)\<rparr>)
         | Some (e, n) \<Rightarrow> (Some e, p\<lparr>pl_temp := write_at offset (take n bs) (pl_temp p)\<rparr>)))"

definition limitedWriteAt :: "'w block_env \<Rightarrow> bytes \<Rightarrow> int \<Rightarrow> (string option \<Rightarrow> 'w task) \<Rightarrow> 'w task" where
  "limitedWriteAt E bs offset k =
     ask (be_writeLimiter E) (\<lambda>l. case l of Some e \<Rightarrow> k (Some e) | None \<Rightarrow> act (op_write E bs offset) k)"

text \<open>What is done with the error of a write: fail with it, or go on.\<close>

definition after_write :: "string \<Rightarrow> 'w task \<Rightarrow> 'w task \<Rightarrow> string option \<Rightarrow> 'w task" where
  "after_write msg failed written err = (case err of Some e \<Rightarrow> do_fail (msg @ e) failed | None \<Rightarrow> written)"

definition op_copyRange :: "'w block_env \<Rightarrow> string \<Rightarrow> string \<Rightarrow> int \<Rightarrow> BlockInfo \<Rightarrow> 'w pulling \<Rightarrow> string option \<times> 'w pulling" where
  "op_copyRange E folder srcName srcOffset block p =
     (if \<not> sp_writer (pl_state p) then (Some ''file already closed'', p)
      else
        (let (err, bs) = be_CopyRange E folder srcName srcOffset (bi_Size block) (pl_world p)
         in (err, p\<lparr>pl_temp := write_at (bi_Offset block) bs (pl_temp p)\<rparr>)))"

section \<open>Copying blocks\<close>

definition verifyBuffer :: "(bytes \<Rightarrow> bytes) \<Rightarrow> bytes \<Rightarrow> BlockInfo \<Rightarrow> string option" where
  "verifyBuffer sha256 buf block =
     (if int (length buf) \<noteq> bi_Size block then Some ''length mismatch''
      else if sha256 buf \<noteq> bi_Hash block then Some ''hash mismatch''
      else None)"

definition copyBlockFromFile ::
  "'w block_env \<Rightarrow> string \<Rightarrow> string \<Rightarrow> int \<Rightarrow> BlockInfo \<Rightarrow> (bool \<Rightarrow> 'w task) \<Rightarrow> 'w task" where
  "copyBlockFromFile E folder srcName srcOffset block k =
     ask (be_ReadAt E folder srcName srcOffset (bi_Size block)) (\<lambda>r.
       case r of
         Inl _ \<Rightarrow> k False
       | Inr buf \<Rightarrow>
           if be_Type E \<noteq> FolderTypeReceiveEncrypted \<and> verifyBuffer (be_sha256 E) buf block \<noteq> None then k False
           else do_tempFile E (\<lambda>err.
             if err \<noteq> None then k False
             else
               (let check = after_write ''dst write: '' (k False) (k True)
                in if \<not> be_CopyRangeMethodStandard E
                   then ask (be_writeLimiter E) (\<lambda>l. case l of
                          Some e \<Rightarrow> check (Some e)
                        | None \<Rightarrow> act (op_copyRange E folder srcName srcOffset block) check)
                   else limitedWriteAt E buf (bi_Offset block) check)))"

text \<open>The entries the database has for the hash, in order; an error ends the list.\<close>

fun copy_entries ::
  "'w block_env \<Rightarrow> string \<Rightarrow> sharedPullerState \<Rightarrow> BlockInfo \<Rightarrow> (bool \<Rightarrow> 'w task) \<Rightarrow> (string \<times> int) list \<Rightarrow> 'w task" where
  "copy_entries E folder st block k [] = k False"
| "copy_entries E folder st block k ((fileName, offset) # es) =
     copyBlockFromFile E folder fileName offset block (\<lambda>ok.
       if \<not> ok then ask_failed (\<lambda>failed. if failed then k False else copy_entries E folder st block k es)
       else if fileName = fi_Name (sp_file st) then do_origin E (k True)
       else k True)"

definition copyBlockFromFolder ::
  "'w block_env \<Rightarrow> string \<Rightarrow> sharedPullerState \<Rightarrow> BlockInfo \<Rightarrow> (bool \<Rightarrow> 'w task) \<Rightarrow> 'w task" where
  "copyBlockFromFolder E folder st block k = ask (be_LocalBlocks E folder (bi_Hash block)) (copy_entries E folder st block k)"

fun copy_others ::
  "'w block_env \<Rightarrow> sharedPullerState \<Rightarrow> BlockInfo \<Rightarrow> (bool \<Rightarrow> 'w task) \<Rightarrow> string list \<Rightarrow> 'w task" where
  "copy_others E st block k [] = k False"
| "copy_others E st block k (folder # folders) =
     copyBlockFromFolder E folder st block (\<lambda>ok.
       if ok then k True
       else ask_failed (\<lambda>failed. if failed then k False else copy_others E st block k folders))"

definition copyBlock :: "'w block_env \<Rightarrow> sharedPullerState \<Rightarrow> BlockInfo \<Rightarrow> (bool \<Rightarrow> 'w task) \<Rightarrow> 'w task" where
  "copyBlock E st block k =
     (let others = copy_others E st block k (be_otherFolders E);
          indexed = (if be_BlockIndexing E
                     then copyBlockFromFolder E (be_ID E) st block (\<lambda>ok.
                            if ok then k True else ask_failed (\<lambda>failed. if failed then k False else others))
                     else others)
      in case sp_curFileBlocks st (bi_Hash block) of
           Some idx \<Rightarrow>
             copyBlockFromFile E (be_ID E) (fi_Name (sp_curFile st)) (bi_Offset (fi_Blocks (sp_curFile st) ! idx)) block (\<lambda>ok.
               if ok then do_origin E (k True)
               else ask_failed (\<lambda>failed. if failed then k False else indexed))
         | None \<Rightarrow> indexed)"

text \<open>The loop over the blocks of a file; \<open>break\<close> is \<open>k\<close>.\<close>

fun copier_blocks :: "'w block_env \<Rightarrow> sharedPullerState \<Rightarrow> 'w task \<Rightarrow> BlockInfo list \<Rightarrow> 'w task" where
  "copier_blocks E st k [] = k"
| "copier_blocks E st k (block # blocks) =
     ask (be_ctx E) (\<lambda>done. case done of
       Some e \<Rightarrow> do_fail (''folder stopped: '' @ e) k
     | None \<Rightarrow>
         if bi_Size block = 0 then do_copyDone E block (copier_blocks E st k blocks)
         else if \<not> be_DisableSparseFiles E \<and> sp_reused st = 0 \<and> BlockInfo_IsEmpty block
         then do_sparse E (do_copyDone E block (copier_blocks E st k blocks))
         else copyBlock E st block (\<lambda>ok.
           if ok then do_copyDone E block (copier_blocks E st k blocks)
           else ask_failed (\<lambda>failed.
             if failed then k
             else do_pullStarted E block (do_send block (copier_blocks E st k blocks)))))"

definition copierRoutine :: "'w block_env \<Rightarrow> copyBlocksState \<Rightarrow> 'w task" where
  "copierRoutine E cs =
     copier_blocks E (cs_state cs)
       (if length (cs_blocks cs) = 0
        then do_tempFile E (\<lambda>err. case err of Some e \<Rightarrow> do_fail e SendOut | None \<Rightarrow> SendOut)
        else SendOut)
       (cs_blocks cs)"

section \<open>Pulling blocks\<close>

text \<open>
  The loop over the candidates; each turn takes one away. \<open>leastBusy\<close> finds none among none, so the
  test for an empty list adds nothing.
\<close>

function pull_loop :: "'w block_env \<Rightarrow> sharedPullerState \<Rightarrow> BlockInfo \<Rightarrow> Availability list \<Rightarrow> string option \<Rightarrow> 'w task" where
  "pull_loop E st block candidates lastError =
     ask (be_ctx E) (\<lambda>done. case done of
       Some e \<Rightarrow> do_fail (''folder stopped: '' @ e) SendOut
     | None \<Rightarrow>
         act (\<lambda>p. (leastBusy (pl_activity p) candidates, p)) (\<lambda>found.
           if found = - 1 \<or> candidates = [] then
             (case lastError of
                Some e \<Rightarrow> do_fail (''pull: '' @ e) SendOut
              | None \<Rightarrow> do_fail ''pull: peers who had this file went away, or the file has changed while syncing. will retry later'' SendOut)
           else
             (let selected = candidates ! nat found;
                  candidates' = butlast (candidates[nat found := last candidates]);
                  blockNo = go_quot (bi_Offset block) (FileInfo_BlockSize (sp_file st)) in
              act (\<lambda>p. ((), p\<lparr>pl_activity := using_device selected (pl_activity p)\<rparr>)) (\<lambda>_.
              ask (be_RequestGlobal E (av_ID selected) (be_ID E) (fi_Name (sp_file st)) blockNo (bi_Offset block) (bi_Size block)
                     (bi_Hash block) (av_FromTemporary selected)) (\<lambda>r.
              act (\<lambda>p. ((), p\<lparr>pl_activity := done_device selected (pl_activity p)\<rparr>)) (\<lambda>_.
                case r of
                  Inl e \<Rightarrow> pull_loop E st block candidates' (Some e)
                | Inr buf \<Rightarrow>
                    (case (if be_Type E \<noteq> FolderTypeReceiveEncrypted then verifyBuffer (be_sha256 E) buf block else None) of
                       Some e \<Rightarrow> pull_loop E st block candidates' (Some e)
                     | None \<Rightarrow>
                         limitedWriteAt E buf (bi_Offset block)
                           (after_write ''save: '' SendOut (do_pullDone E block SendOut)))))))))"
  by pat_completeness auto
termination
  by (relation "measure (\<lambda>(_, _, _, candidates, _). length candidates)") auto

declare pull_loop.simps [simp del]

definition pullBlock :: "'w block_env \<Rightarrow> sharedPullerState \<Rightarrow> BlockInfo \<Rightarrow> 'w task" where
  "pullBlock E st block =
     do_tempFile E (\<lambda>err.
       if err \<noteq> None then SendOut
       else if BlockInfo_IsEmpty block then
         (let check = after_write ''save: '' SendOut (do_pullDone E block SendOut)
          in if sp_reused st \<noteq> 0 \<or> be_DisableSparseFiles E
             then limitedWriteAt E (replicate (nat (bi_Size block)) 0) (bi_Offset block) check
             else check None)
       else ask (be_blockAvailability E (sp_file st) block) (\<lambda>candidates. pull_loop E st block candidates None))"

text \<open>What the puller routine does with a block it received.\<close>

definition pullerRoutine :: "'w block_env \<Rightarrow> sharedPullerState \<Rightarrow> BlockInfo \<Rightarrow> 'w task" where
  "pullerRoutine E st block =
     ask_failed (\<lambda>failed.
       if failed then SendOut
       else if bi_Size block = 0 then do_pullDone E block SendOut
       else ask (be_requestLimiter E) (\<lambda>err. case err of
         Some e \<Rightarrow> do_fail e SendOut
       | None \<Rightarrow> pullBlock E st block))"

section \<open>All together\<close>

text \<open>
  The finisher's \<open>finalClose\<close>; a panic, which ends the process, changes nothing. What follows a
  successful close is \<open>performFinish\<close>.
\<close>

definition op_finalClose :: "'w block_env \<Rightarrow> 'w pulling \<Rightarrow> 'w pulling" where
  "op_finalClose E p =
     (let fsys = be_fs E (pl_world p) in
      case finalClose (be_codec E) fsys (pl_state p) of
        None \<Rightarrow> p
      | Some (calls, (closed, err), s) \<Rightarrow>
          p\<lparr>pl_sys := (pl_sys p)\<lparr>ps_state := s, ps_closes := ps_closes (pl_sys p) + (if closed then 1 else 0)\<rparr>,
            pl_temp := temp_calls fsys calls (pl_temp p), pl_closing := pl_closing p @ [(closed, err)]\<rparr>)"

text \<open>
  One file being pulled: the copier's task, and the pullers' in the order they received their
  blocks; \<open>None\<close> is a task that has ended. Any of them can take the next step, the pull channel
  can hand over its next block, the finisher can take up its next message, and the world and the
  load of the devices can change.
\<close>

record 'w pull_run =
  pr_state :: "'w pulling"
  pr_copier :: "'w task option"
  pr_pullers :: "'w task option list"

inductive run_step :: "'w block_env \<Rightarrow> sharedPullerState \<Rightarrow> 'w pull_run \<Rightarrow> 'w pull_run \<Rightarrow> bool" for E st where
  run_copier: "pr_copier r = Some (Step u k) \<Longrightarrow>
    run_step E st r (r\<lparr>pr_state := u (pr_state r), pr_copier := Some (k (pr_state r))\<rparr>)"
| run_copier_out: "pr_copier r = Some SendOut \<Longrightarrow>
    run_step E st r (r\<lparr>pr_state := (pr_state r)\<lparr>pl_out := pl_out (pr_state r) + 1\<rparr>, pr_copier := None\<rparr>)"
| run_receive: "length (pr_pullers r) < length (pl_pullChan (pr_state r)) \<Longrightarrow>
    run_step E st r (r\<lparr>pr_pullers := pr_pullers r @ [Some (pullerRoutine E st (pl_pullChan (pr_state r) ! length (pr_pullers r)))]\<rparr>)"
| run_puller: "i < length (pr_pullers r) \<Longrightarrow> pr_pullers r ! i = Some (Step u k) \<Longrightarrow>
    run_step E st r (r\<lparr>pr_state := u (pr_state r), pr_pullers := (pr_pullers r)[i := Some (k (pr_state r))]\<rparr>)"
| run_puller_out: "i < length (pr_pullers r) \<Longrightarrow> pr_pullers r ! i = Some SendOut \<Longrightarrow>
    run_step E st r (r\<lparr>pr_state := (pr_state r)\<lparr>pl_out := pl_out (pr_state r) + 1\<rparr>, pr_pullers := (pr_pullers r)[i := None]\<rparr>)"
| run_finisher: "length (pl_closing (pr_state r)) < pl_out (pr_state r) \<Longrightarrow>
    run_step E st r (r\<lparr>pr_state := op_finalClose E (pr_state r)\<rparr>)"
| run_world: "run_step E st r (r\<lparr>pr_state := (pr_state r)\<lparr>pl_world := w, pl_activity := a\<rparr>\<rparr>)"

definition run_start :: "'w block_env \<Rightarrow> 'w \<Rightarrow> deviceActivity \<Rightarrow> copyBlocksState \<Rightarrow> bytes \<Rightarrow> 'w pull_run" where
  "run_start E w a cs temp =
     \<lparr>pr_state = \<lparr>pl_sys = pull_start (cs_state cs) (cs_blocks cs), pl_temp = temp, pl_pullChan = [], pl_out = 0, pl_closing = [],
        pl_activity = a, pl_world = w\<rparr>,
      pr_copier = Some (copierRoutine E cs), pr_pullers = []\<rparr>"

end
