(* ===== verification/PullOwner.thy ===== *)
theory PullOwner
  imports PullBlocks
begin

text \<open>
  How the tasks of the puller share a temporary file, by the rely-guarantee method: every task keeps
  its hands off the blocks of the others, and what a task knows about its own block survives the
  steps of the others. Here are the rules for tasks, the regions of the file, what each operation
  keeps, and the copying of a block.
\<close>

section \<open>Tasks among others\<close>

text \<open>
  \<open>R\<close> is what the others may do, \<open>G\<close> what the steps of the task do, \<open>I\<close> the invariant and \<open>Q\<close> what
  holds when the task ends. \<open>sat\<close> says this for a task started where \<open>P\<close> holds.
\<close>

inductive safe ::
  "('w pulling \<Rightarrow> 'w pulling \<Rightarrow> bool) \<Rightarrow> ('w pulling \<Rightarrow> 'w pulling \<Rightarrow> bool) \<Rightarrow> ('w pulling \<Rightarrow> bool) \<Rightarrow> ('w pulling \<Rightarrow> bool) \<Rightarrow>
     'w task \<Rightarrow> 'w pulling \<Rightarrow> bool" for R G I Q where
  safe_SendOut: "(\<And>q. R p q \<Longrightarrow> I q \<Longrightarrow> Q q) \<Longrightarrow> safe R G I Q SendOut p"
| safe_Step: "(\<And>q. R p q \<Longrightarrow> I q \<Longrightarrow> G q (u q) \<and> I (u q)) \<Longrightarrow> (\<And>q. R p q \<Longrightarrow> I q \<Longrightarrow> safe R G I Q (k q) (u q)) \<Longrightarrow>
    safe R G I Q (Step u k) p"

inductive_cases safe_SendOutE: "safe R G I Q SendOut p"
inductive_cases safe_StepE: "safe R G I Q (Step u k) p"

definition sat ::
  "('w pulling \<Rightarrow> 'w pulling \<Rightarrow> bool) \<Rightarrow> ('w pulling \<Rightarrow> 'w pulling \<Rightarrow> bool) \<Rightarrow> ('w pulling \<Rightarrow> bool) \<Rightarrow> ('w pulling \<Rightarrow> bool) \<Rightarrow>
     ('w pulling \<Rightarrow> bool) \<Rightarrow> 'w task \<Rightarrow> bool" where
  "sat R G I Q P t \<longleftrightarrow> (\<forall>p. P p \<longrightarrow> I p \<longrightarrow> safe R G I Q t p)"

definition stable :: "('w pulling \<Rightarrow> 'w pulling \<Rightarrow> bool) \<Rightarrow> ('w pulling \<Rightarrow> bool) \<Rightarrow> ('w pulling \<Rightarrow> bool) \<Rightarrow> bool" where
  "stable R I P \<longleftrightarrow> (\<forall>p q. P p \<longrightarrow> I p \<longrightarrow> R p q \<longrightarrow> I q \<longrightarrow> P q)"

lemma satD: "sat R G I Q P t \<Longrightarrow> P p \<Longrightarrow> I p \<Longrightarrow> safe R G I Q t p"
  by (simp add: sat_def)

lemma sat_weaken: "sat R G I Q P t \<Longrightarrow> (\<And>p. P' p \<Longrightarrow> P p) \<Longrightarrow> sat R G I Q P' t"
  by (simp add: sat_def)

lemma sat_SendOut: "stable R I P \<Longrightarrow> (\<And>p. P p \<Longrightarrow> I p \<Longrightarrow> Q p) \<Longrightarrow> sat R G I Q P SendOut"
  unfolding sat_def stable_def by (intro allI impI safe_SendOut) blast

lemma sat_act:
  assumes "stable R I P"
    and "\<And>p x q. P p \<Longrightarrow> I p \<Longrightarrow> f p = (x, q) \<Longrightarrow> G p q \<and> I q \<and> P' x q"
    and "\<And>x. sat R G I Q (P' x) (k x)"
  shows "sat R G I Q P (act f k)"
  unfolding sat_def act_def
proof (intro allI impI safe_Step)
  fix p q assume "P p" "I p" "R p q" "I q"
  then have "P q" using assms(1) unfolding stable_def by blast
  then have g: "G q (snd (f q)) \<and> I (snd (f q)) \<and> P' (fst (f q)) (snd (f q))"
    using assms(2) [OF _ \<open>I q\<close>, of "fst (f q)" "snd (f q)"] by simp
  then show "G q (snd (f q)) \<and> I (snd (f q))" by blast
  show "safe R G I Q (k (fst (f q))) (snd (f q))" using assms(3) g unfolding sat_def by blast
qed

lemma sat_ask:
  assumes "stable R I P" and "\<And>p. G p p" and "\<And>x. sat R G I Q P (k x)"
  shows "sat R G I Q P (ask g k)"
  unfolding ask_def using assms by (intro sat_act [where P' = "\<lambda>_. P"]) auto

lemma safe_R:
  assumes "safe R G I Q t p" and "R p q" and "\<And>p q r. R p q \<Longrightarrow> R q r \<Longrightarrow> R p r"
  shows "safe R G I Q t q"
  using assms(1)
proof (cases rule: safe.cases)
  case safe_SendOut
  show ?thesis unfolding safe_SendOut(1)
    by (rule safe.safe_SendOut) (use assms(2,3) safe_SendOut(2) in blast)
next
  case (safe_Step u k)
  show ?thesis unfolding safe_Step(1)
  proof (rule safe.safe_Step)
    fix r assume r: "R q r" "I r"
    then have "R p r" using assms(2,3) by blast
    then show "G r (u r) \<and> I (u r)" "safe R G I Q (k r) (u r)" using safe_Step(2,3) r(2) by blast+
  qed
qed

section \<open>Regions of the temporary file\<close>

definition region :: "bytes \<Rightarrow> BlockInfo \<Rightarrow> bytes" where
  "region c b = take (nat (bi_Size b)) (drop (nat (bi_Offset b)) c)"

definition within :: "bytes \<Rightarrow> BlockInfo \<Rightarrow> bool" where
  "within c b \<longleftrightarrow> nat (bi_Offset b) + nat (bi_Size b) \<le> length c"

definition stored :: "(bytes \<Rightarrow> bytes) \<Rightarrow> bytes \<Rightarrow> BlockInfo \<Rightarrow> bool" where
  "stored sha256 c b \<longleftrightarrow> within c b \<and> sha256 (region c b) = bi_Hash b"

definition blank :: "bytes \<Rightarrow> BlockInfo \<Rightarrow> bool" where
  "blank c b \<longleftrightarrow> within c b \<and> region c b = replicate (nat (bi_Size b)) 0"

definition same_region :: "bytes \<Rightarrow> bytes \<Rightarrow> BlockInfo \<Rightarrow> bool" where
  "same_region c d b \<longleftrightarrow> (within c b \<longrightarrow> within d b \<and> region d b = region c b)"

lemma same_region_refl [simp]: "same_region c c b"
  by (simp add: same_region_def)

lemma same_region_trans: "same_region c d b \<Longrightarrow> same_region d e b \<Longrightarrow> same_region c e b"
  by (auto simp: same_region_def)

lemma same_region_stored: "same_region c d b \<Longrightarrow> stored sha256 c b \<Longrightarrow> stored sha256 d b"
  by (auto simp: same_region_def stored_def)

lemma same_region_blank: "same_region c d b \<Longrightarrow> blank c b \<Longrightarrow> blank d b"
  by (auto simp: same_region_def blank_def)

definition disjoint :: "BlockInfo \<Rightarrow> BlockInfo \<Rightarrow> bool" where
  "disjoint b d \<longleftrightarrow> bi_Offset b + bi_Size b \<le> bi_Offset d \<or> bi_Offset d + bi_Size d \<le> bi_Offset b"

lemma length_write_at:
  "length (write_at off bs c) = (if bs = [] then length c else max (length c) (nat off + length bs))"
  by (auto simp: write_at_def)

lemma nth_write_at:
  assumes "i < length (write_at off bs c)"
  shows "write_at off bs c ! i =
    (if nat off \<le> i \<and> i < nat off + length bs then bs ! (i - nat off) else if i < length c then c ! i else 0)"
  using assms by (auto simp: write_at_def nth_append min_def split: if_splits)

lemma region_nth: "within c b \<Longrightarrow> i < nat (bi_Size b) \<Longrightarrow> region c b ! i = c ! (nat (bi_Offset b) + i)"
  by (simp add: region_def within_def)

lemma length_region: "within c b \<Longrightarrow> length (region c b) = nat (bi_Size b)"
  by (simp add: region_def within_def)

lemma write_at_stored:
  assumes "length bs = nat (bi_Size b)"
  shows "within (write_at (bi_Offset b) bs c) b \<or> bs = []" and "bs \<noteq> [] \<Longrightarrow> region (write_at (bi_Offset b) bs c) b = bs"
proof -
  show w: "within (write_at (bi_Offset b) bs c) b \<or> bs = []" using assms by (auto simp: within_def length_write_at)
  assume "bs \<noteq> []"
  then have w: "within (write_at (bi_Offset b) bs c) b" using w by blast
  show "region (write_at (bi_Offset b) bs c) b = bs"
  proof (rule nth_equalityI)
    show "length (region (write_at (bi_Offset b) bs c) b) = length bs" using length_region [OF w] assms by simp
    fix i assume "i < length (region (write_at (bi_Offset b) bs c) b)"
    then have i: "i < nat (bi_Size b)" using length_region [OF w] by simp
    show "region (write_at (bi_Offset b) bs c) b ! i = bs ! i"
      unfolding region_nth [OF w i] using w i assms by (subst nth_write_at) (auto simp: within_def)
  qed
qed

lemma write_at_other:
  assumes "length bs \<le> nat (bi_Size b)" and "disjoint b d" and "0 \<le> bi_Offset b" and "0 \<le> bi_Offset d"
    and "0 \<le> bi_Size b" and "0 \<le> bi_Size d"
  shows "same_region c (write_at (bi_Offset b) bs c) d"
  unfolding same_region_def
proof (intro impI conjI)
  assume w: "within c d"
  then show w2: "within (write_at (bi_Offset b) bs c) d" by (auto simp: within_def length_write_at)
  show "region (write_at (bi_Offset b) bs c) d = region c d"
  proof (rule nth_equalityI)
    show "length (region (write_at (bi_Offset b) bs c) d) = length (region c d)"
      using length_region [OF w] length_region [OF w2] by simp
    fix i assume "i < length (region (write_at (bi_Offset b) bs c) d)"
    then have i: "i < nat (bi_Size d)" using length_region [OF w2] by simp
    have "\<not> (nat (bi_Offset b) \<le> nat (bi_Offset d) + i \<and> nat (bi_Offset d) + i < nat (bi_Offset b) + length bs)"
      using assms i unfolding disjoint_def by linarith
    then show "region (write_at (bi_Offset b) bs c) d ! i = region c d ! i"
      unfolding region_nth [OF w i] region_nth [OF w2 i] using w w2 i
      by (subst nth_write_at) (auto simp: within_def)
  qed
qed

section \<open>The job\<close>

record 'w pull_job =
  jb_E :: "'w block_env"
  jb_st :: sharedPullerState
  jb_blocks :: "BlockInfo list"
  jb_reused :: "int list"
  jb_temp :: bytes

abbreviation jb_file :: "'w pull_job \<Rightarrow> FileInfo" where "jb_file J \<equiv> sp_file (jb_st J)"

abbreviation jb_sparse :: "'w pull_job \<Rightarrow> bool" where "jb_sparse J \<equiv> \<not> be_DisableSparseFiles (jb_E J)"

text \<open>Blocks lie inside the file, do not overlap, and are different.\<close>

definition laid_out :: "BlockInfo list \<Rightarrow> int \<Rightarrow> bool" where
  "laid_out bs size0 \<longleftrightarrow> distinct bs \<and> (\<forall>b\<in>set bs. 0 \<le> bi_Offset b \<and> 0 \<le> bi_Size b \<and> bi_Offset b + bi_Size b \<le> size0) \<and>
     (\<forall>b\<in>set bs. \<forall>d\<in>set bs. b \<noteq> d \<longrightarrow> disjoint b d)"

text \<open>
  A job as \<open>handleFile\<close> sets it up: blocks that are not to be fetched are stored in the temporary
  file. \<open>zero_hashes\<close> and the success of \<open>Truncate\<close> are what the code relies on elsewhere.
\<close>

definition zero_hashes :: "(bytes \<Rightarrow> bytes) \<Rightarrow> bool" where
  "zero_hashes sha256 \<longleftrightarrow> (\<forall>(n, h)\<in>set sha256OfEmptyBlock. sha256 (replicate (nat n) 0) = h)"

definition job_ok :: "'w pull_job \<Rightarrow> bool" where
  "job_ok J \<longleftrightarrow>
     be_Type (jb_E J) \<noteq> FolderTypeReceiveEncrypted \<and> be_CopyRangeMethodStandard (jb_E J) \<and> zero_hashes (be_sha256 (jb_E J)) \<and>
     (jb_sparse J \<longrightarrow> (\<forall>w. o_Truncate (be_fs (jb_E J) w) = None)) \<and>
     sp_sparse (jb_st J) = jb_sparse J \<and> \<not> IsSymlink (jb_file J) \<and> fi_Encrypted (jb_file J) = [] \<and>
     laid_out (fi_Blocks (jb_file J)) (fi_Size (jb_file J)) \<and> 0 \<le> fi_Size (jb_file J) \<and>
     set (jb_blocks J) \<subseteq> set (fi_Blocks (jb_file J)) \<and> distinct (jb_blocks J) \<and>
     sp_reused (jb_st J) = int (length (jb_reused J)) \<and>
     (jb_reused J = [] \<longrightarrow> set (fi_Blocks (jb_file J)) \<subseteq> set (jb_blocks J)) \<and>
     (\<forall>b\<in>set (fi_Blocks (jb_file J)) - set (jb_blocks J). stored (be_sha256 (jb_E J)) (jb_temp J) b)"

definition skippable :: "'w pull_job \<Rightarrow> BlockInfo \<Rightarrow> bool" where
  "skippable J b \<longleftrightarrow> jb_sparse J \<and> jb_reused J = [] \<and> BlockInfo_IsEmpty b"

text \<open>The content once the temporary file has been opened.\<close>

definition opened :: "'w pull_job \<Rightarrow> bytes" where
  "opened J = (let c = (if jb_reused J = [] then [] else jb_temp J) in
     if jb_sparse J then resize (fi_Size (jb_file J)) c else c)"

definition content_ok :: "'w pull_job \<Rightarrow> BlockInfo list \<Rightarrow> bytes \<Rightarrow> bool" where
  "content_ok J finished c \<longleftrightarrow>
     (\<forall>b\<in>set (fi_Blocks (jb_file J)) - set (jb_blocks J) \<union> set finished. bi_Size b = 0 \<or> stored (be_sha256 (jb_E J)) c b) \<and>
     (jb_sparse J \<or> jb_reused J = [] \<longrightarrow> length c \<le> nat (fi_Size (jb_file J))) \<and>
     (jb_sparse J \<longrightarrow> length c = nat (fi_Size (jb_file J)))"

abbreviation live :: "'w pulling \<Rightarrow> bool" where
  "live p \<equiv> sp_err (pl_state p) = None \<and> \<not> sp_closed (pl_state p)"

definition fixed :: "'w pull_job \<Rightarrow> sharedPullerState \<Rightarrow> bool" where
  "fixed J s \<longleftrightarrow> sp_file s = jb_file J \<and> sp_reused s = sp_reused (jb_st J) \<and> sp_sparse s = sp_sparse (jb_st J)"

definition job_inv :: "'w pull_job \<Rightarrow> 'w pulling \<Rightarrow> bool" where
  "job_inv J p \<longleftrightarrow>
     pull_inv (jb_reused J) (jb_blocks J) (jb_file J) (pl_sys p) \<and> fixed J (pl_state p) \<and>
     distinct (pl_pullChan p) \<and> set (pl_pullChan p) \<inter> set (ps_copying (pl_sys p)) = {} \<and>
     set (pl_pullChan p) \<subseteq> set (jb_blocks J) \<and> (\<forall>b\<in>set (pl_pullChan p). \<not> skippable J b) \<and>
     length (pl_closing p) \<le> pl_out p \<and> (sp_closed (pl_state p) \<longrightarrow> pl_closing p \<noteq> []) \<and>
     (sp_err (pl_state p) = None \<longrightarrow>
        (if sp_writer (pl_state p) \<or> sp_closed (pl_state p) then content_ok J (ps_finished (pl_sys p)) (pl_temp p)
         else pl_temp p = jb_temp J \<and> (\<forall>b\<in>set (ps_finished (pl_sys p)). bi_Size b = 0 \<or> skippable J b)))"

lemma IsEmpty_blank:
  assumes "zero_hashes sha256" and "BlockInfo_IsEmpty b"
  shows "sha256 (replicate (nat (bi_Size b)) 0) = bi_Hash b"
proof -
  obtain v where "(bi_Size b, v) \<in> set sha256OfEmptyBlock" "bi_Hash b = v"
    using assms(2) by (auto simp: BlockInfo_IsEmpty_def split: option.splits dest: map_of_SomeD)
  then show ?thesis using assms(1) unfolding zero_hashes_def by fastforce
qed

lemma blank_stored:
  assumes "zero_hashes sha256" and "BlockInfo_IsEmpty b" and "blank c b"
  shows "stored sha256 c b"
  using IsEmpty_blank [OF assms(1,2)] assms(3) by (simp add: blank_def stored_def)

section \<open>Opening the temporary file\<close>

lemma temp_calls_append: "temp_calls fsys (xs @ ys) c = temp_calls fsys ys (temp_calls fsys xs c)"
  by (simp add: temp_calls_def)

lemma temp_calls_simps [simp]:
  "temp_calls fsys [] c = c" "temp_calls fsys (x # xs) c = temp_calls fsys xs (temp_call fsys x c)"
  by (simp_all add: temp_calls_def)

lemma temp_calls_inWritableDir:
  assumes "inWritableDir fsys fn path = (calls, err)"
  shows "(temp_calls fsys calls c = temp_calls fsys (fst (fn path)) c \<and> (err = None \<longleftrightarrow> snd (fn path) = None)) \<or>
    temp_calls fsys calls c = c \<and> err \<noteq> None"
  using assms
  by (auto simp: inWritableDir_def Let_def temp_calls_append split: sum.splits prod.splits if_splits option.splits exc.splits)

lemma tempFileInWritableDir_temp:
  assumes "tempFileInWritableDir psize fsys s = (calls, err)" and "fi_Encrypted (sp_file s) = []" and "\<not> IsSymlink (sp_file s)"
    and "sp_sparse s \<longrightarrow> o_Truncate fsys = None"
  shows "if err = None then temp_calls fsys calls c =
      (let d = (if sp_reused s = 0 then [] else c) in if sp_sparse s then resize (fi_Size (sp_file s)) d else d)
    else temp_calls fsys calls c = c \<and> err \<noteq> Some Panic"
proof -
  have f: "OptReadWrite \<noteq> OptReadWrite OR OptCreate OR OptExclusive"
    by (simp add: OptReadWrite_def OptCreate_def OptExclusive_def)
  show ?thesis using assms f
    by (auto simp: tempFileInWritableDir_def Let_def temp_calls_append split: if_splits option.splits)
qed

lemma addWriterLocked_temp:
  assumes "addWriterLocked psize fsys s = (calls, err, t)" and "fi_Encrypted (sp_file s) = []" and "\<not> IsSymlink (sp_file s)"
    and "sp_sparse s \<longrightarrow> o_Truncate fsys = None"
  shows "if err = None then t = s\<lparr>sp_writer := True\<rparr> \<and> temp_calls fsys calls c =
      (let d = (if sp_reused s = 0 then [] else c) in if sp_sparse s then resize (fi_Size (sp_file s)) d else d)
    else t = s \<and> temp_calls fsys calls c = c \<and> err \<noteq> Some Panic"
proof -
  obtain calls' err' where i: "inWritableDir fsys (\<lambda>_. tempFileInWritableDir psize fsys s) (sp_tempName s) = (calls', err')"
    by fastforce
  obtain cs e where t: "tempFileInWritableDir psize fsys s = (cs, e)" by fastforce
  have eq: "calls = calls'" "err = err'" "t = (if err = None then s\<lparr>sp_writer := True\<rparr> else s)"
    using assms(1) by (auto simp: addWriterLocked_def i)
  have "err' \<noteq> Some Panic \<or> e = Some Panic"
    using i by (auto simp: inWritableDir_def t Let_def split: sum.splits prod.splits if_splits option.splits exc.splits)
  then show ?thesis
    using temp_calls_inWritableDir [OF i, of c] tempFileInWritableDir_temp [OF t assms(2-4), of c] unfolding eq t
    by (auto simp: t split: if_splits)
qed

lemma resize_props:
  "length (resize n c) = nat n" "i < nat n \<Longrightarrow> resize n c ! i = (if i < length c then c ! i else 0)"
  by (auto simp: resize_def nth_append)

lemma resize_same_region:
  assumes "bi_Offset b + bi_Size b \<le> n" and "0 \<le> bi_Offset b" and "0 \<le> bi_Size b"
  shows "same_region c (resize n c) b"
  unfolding same_region_def
proof (intro impI conjI)
  assume w: "within c b"
  have n: "nat (bi_Offset b) + nat (bi_Size b) \<le> nat n" using assms by linarith
  then show w2: "within (resize n c) b" by (simp add: within_def resize_props)
  show "region (resize n c) b = region c b"
  proof (rule nth_equalityI)
    show "length (region (resize n c) b) = length (region c b)" using length_region [OF w] length_region [OF w2] by simp
    fix i assume "i < length (region (resize n c) b)"
    then have i: "i < nat (bi_Size b)" using length_region [OF w2] by simp
    then have "nat (bi_Offset b) + i < nat n" "nat (bi_Offset b) + i < length c" using n w by (auto simp: within_def)
    then show "region (resize n c) b ! i = region c b ! i"
      by (simp add: region_nth [OF w i] region_nth [OF w2 i] resize_props)
  qed
qed

lemma resize_blank:
  assumes "bi_Offset b + bi_Size b \<le> n" and "0 \<le> bi_Offset b" and "0 \<le> bi_Size b"
  shows "blank (resize n []) b"
proof -
  have n: "nat (bi_Offset b) + nat (bi_Size b) \<le> nat n" using assms by linarith
  then show ?thesis by (simp add: blank_def within_def region_def resize_def)
qed

lemma laid_outD:
  assumes "job_ok J" and "b \<in> set (fi_Blocks (jb_file J))"
  shows "0 \<le> bi_Offset b" "0 \<le> bi_Size b" "bi_Offset b + bi_Size b \<le> fi_Size (jb_file J)"
  using assms by (auto simp: job_ok_def laid_out_def)

lemma job_blocks: "job_ok J \<Longrightarrow> b \<in> set (jb_blocks J) \<Longrightarrow> b \<in> set (fi_Blocks (jb_file J))"
  by (auto simp: job_ok_def)

lemma opened_blank:
  assumes "job_ok J" and "skippable J b" and "b \<in> set (jb_blocks J)"
  shows "blank (opened J) b"
  using assms(2) resize_blank [OF laid_outD(3,1,2) [OF assms(1) job_blocks [OF assms(1,3)]]]
  by (simp add: opened_def skippable_def)

lemma opened_ok:
  assumes "job_ok J" and "\<forall>b\<in>set finished. bi_Size b = 0 \<or> skippable J b" and "set finished \<subseteq> set (jb_blocks J)"
  shows "content_ok J finished (opened J)"
proof -
  have z: "zero_hashes (be_sha256 (jb_E J))" using assms(1) by (simp add: job_ok_def)
  have "stored (be_sha256 (jb_E J)) (opened J) b" if "b \<in> set finished" "bi_Size b \<noteq> 0" for b
  proof -
    have "skippable J b" "b \<in> set (jb_blocks J)" using that assms(2,3) by auto
    then show ?thesis using blank_stored [OF z _ opened_blank [OF assms(1)]] by (simp add: skippable_def)
  qed
  moreover have "stored (be_sha256 (jb_E J)) (opened J) b" if b: "b \<in> set (fi_Blocks (jb_file J)) - set (jb_blocks J)" for b
  proof -
    have r: "jb_reused J \<noteq> []" and s: "stored (be_sha256 (jb_E J)) (jb_temp J) b"
      using assms(1) b by (auto simp: job_ok_def)
    have "same_region (jb_temp J) (resize (fi_Size (jb_file J)) (jb_temp J)) b"
      using resize_same_region laid_outD [OF assms(1)] b by simp
    then show ?thesis using r s same_region_stored by (auto simp: opened_def Let_def)
  qed
  moreover have "jb_sparse J \<longrightarrow> length (opened J) = nat (fi_Size (jb_file J))" "jb_reused J = [] \<and> \<not> jb_sparse J \<longrightarrow> opened J = []"
    by (auto simp: opened_def Let_def resize_props)
  ultimately show ?thesis unfolding content_ok_def by auto
qed

section \<open>Rely and guarantee\<close>

definition later :: "'w pulling \<Rightarrow> 'w pulling \<Rightarrow> bool" where
  "later p q \<longleftrightarrow> (sp_err (pl_state q) = None \<longrightarrow> sp_err (pl_state p) = None) \<and> (sp_closed (pl_state p) \<longrightarrow> sp_closed (pl_state q))"

definition keeps_regions :: "BlockInfo set \<Rightarrow> 'w pulling \<Rightarrow> 'w pulling \<Rightarrow> bool" where
  "keeps_regions B p q \<longleftrightarrow> (live q \<and> sp_writer (pl_state p) \<longrightarrow>
     sp_writer (pl_state q) \<and> (\<forall>b\<in>B. same_region (pl_temp p) (pl_temp q) b))"

definition opens_blank :: "'w pull_job \<Rightarrow> BlockInfo set \<Rightarrow> 'w pulling \<Rightarrow> 'w pulling \<Rightarrow> bool" where
  "opens_blank J B p q \<longleftrightarrow> (live q \<and> \<not> sp_writer (pl_state p) \<and> sp_writer (pl_state q) \<longrightarrow>
     (\<forall>b\<in>B. skippable J b \<longrightarrow> blank (pl_temp q) b))"

definition rely_puller :: "BlockInfo \<Rightarrow> 'w pulling \<Rightarrow> 'w pulling \<Rightarrow> bool" where
  "rely_puller b p q \<longleftrightarrow> later p q \<and> keeps_regions {b} p q \<and> set (pl_pullChan p) \<subseteq> set (pl_pullChan q) \<and>
     (b \<in> set (ps_pulling (pl_sys q)) \<longleftrightarrow> b \<in> set (ps_pulling (pl_sys p)))"

definition rely_copier :: "'w pull_job \<Rightarrow> 'w pulling \<Rightarrow> 'w pulling \<Rightarrow> bool" where
  "rely_copier J p q \<longleftrightarrow> later p q \<and> keeps_regions (set (ps_copying (pl_sys p))) p q \<and> opens_blank J (set (ps_copying (pl_sys p))) p q \<and>
     ps_copying (pl_sys q) = ps_copying (pl_sys p) \<and> pl_pullChan q = pl_pullChan p \<and>
     set (ps_pulling (pl_sys q)) \<subseteq> set (ps_pulling (pl_sys p)) \<and>
     set (ps_pulling (pl_sys p)) \<subseteq> set (ps_pulling (pl_sys q)) \<union> set (pl_pullChan p) \<and>
     (pl_pullChan p = [] \<and> pl_out p = 0 \<longrightarrow> pl_out q = 0)"

text \<open>What all steps of tasks have in common; \<open>B\<close> are the blocks the task may write.\<close>

definition guar :: "'w pull_job \<Rightarrow> BlockInfo set \<Rightarrow> 'w pulling \<Rightarrow> 'w pulling \<Rightarrow> bool" where
  "guar J B p q \<longleftrightarrow> later p q \<and> sp_closed (pl_state q) = sp_closed (pl_state p) \<and> pl_out q = pl_out p \<and> pl_closing q = pl_closing p \<and>
     keeps_regions (set (jb_blocks J) - B) p q \<and> opens_blank J (set (jb_blocks J)) p q"

definition guar_puller :: "'w pull_job \<Rightarrow> BlockInfo \<Rightarrow> 'w pulling \<Rightarrow> 'w pulling \<Rightarrow> bool" where
  "guar_puller J b p q \<longleftrightarrow> guar J {b} p q \<and> ps_copying (pl_sys q) = ps_copying (pl_sys p) \<and> pl_pullChan q = pl_pullChan p \<and>
     set (ps_pulling (pl_sys q)) \<subseteq> set (ps_pulling (pl_sys p)) \<and>
     set (ps_pulling (pl_sys p)) \<subseteq> insert b (set (ps_pulling (pl_sys q)))"

definition guar_copier :: "'w pull_job \<Rightarrow> 'w pulling \<Rightarrow> 'w pulling \<Rightarrow> bool" where
  "guar_copier J p q \<longleftrightarrow> guar J (set (ps_copying (pl_sys p))) p q \<and>
     set (ps_pulling (pl_sys p)) \<subseteq> set (ps_pulling (pl_sys q)) \<and>
     set (ps_pulling (pl_sys q)) \<subseteq> set (ps_pulling (pl_sys p)) \<union> set (ps_copying (pl_sys p)) \<and>
     (pl_pullChan q = pl_pullChan p \<or> (\<exists>b. pl_pullChan q = pl_pullChan p @ [b] \<and> b \<in> set (ps_pulling (pl_sys p))))"

lemma keeps_regions_refl [simp]: "keeps_regions B p p"
  by (simp add: keeps_regions_def)

lemma keeps_regions_trans:
  assumes "keeps_regions B p q" and "keeps_regions B q r" and "later q r"
  shows "keeps_regions B p r"
  using assms same_region_trans unfolding keeps_regions_def later_def by metis

lemma keeps_regions_mono: "keeps_regions B p q \<Longrightarrow> A \<subseteq> B \<Longrightarrow> keeps_regions A p q"
  by (auto simp: keeps_regions_def)

lemma rely_puller_trans: "rely_puller b p q \<Longrightarrow> rely_puller b q r \<Longrightarrow> rely_puller b p r"
  unfolding rely_puller_def using keeps_regions_trans [of "{b}" p q r] by (auto simp: later_def)

lemma rely_copier_trans:
  assumes "rely_copier J p q" and "rely_copier J q r"
  shows "rely_copier J p r"
proof -
  have c: "ps_copying (pl_sys q) = ps_copying (pl_sys p)" "pl_pullChan q = pl_pullChan p"
    using assms(1) by (auto simp: rely_copier_def)
  have "keeps_regions (set (ps_copying (pl_sys p))) p r"
    using assms keeps_regions_trans [of "set (ps_copying (pl_sys p))" p q r] unfolding rely_copier_def c by blast
  moreover have "opens_blank J (set (ps_copying (pl_sys p))) p r"
    using assms same_region_blank unfolding rely_copier_def c opens_blank_def keeps_regions_def later_def by metis
  ultimately show ?thesis using assms unfolding rely_copier_def by (auto simp: later_def)
qed

section \<open>The operations\<close>

lemma invD:
  assumes "job_inv J p"
  shows "pull_inv (jb_reused J) (jb_blocks J) (jb_file J) (pl_sys p)" "fixed J (pl_state p)"
    "set (ps_copying (pl_sys p)) \<union> set (ps_pulling (pl_sys p)) \<subseteq> set (jb_blocks J)"
    "set (ps_finished (pl_sys p)) \<subseteq> set (jb_blocks J)"
proof -
  show i: "pull_inv (jb_reused J) (jb_blocks J) (jb_file J) (pl_sys p)" and "fixed J (pl_state p)"
    using assms by (simp_all add: job_inv_def)
  show "set (ps_copying (pl_sys p)) \<union> set (ps_pulling (pl_sys p)) \<subseteq> set (jb_blocks J)" by (rule pull_inv_sub [OF i])
  have "set_mset (mset (ps_copying (pl_sys p)) + mset (ps_pulling (pl_sys p)) + mset (ps_finished (pl_sys p))) = set_mset (mset (jb_blocks J))"
    using i by (simp only: pull_inv_def Let_def)
  then show "set (ps_finished (pl_sys p)) \<subseteq> set (jb_blocks J)" by auto
qed

lemma distinct_work:
  assumes "job_inv J p" and "job_ok J"
  shows "distinct (ps_copying (pl_sys p) @ ps_pulling (pl_sys p) @ ps_finished (pl_sys p))"
proof -
  have "mset (ps_copying (pl_sys p) @ ps_pulling (pl_sys p) @ ps_finished (pl_sys p)) = mset (jb_blocks J)"
    using invD(1) [OF assms(1)] by (simp add: pull_inv_def Let_def add.assoc)
  then show ?thesis using assms(2) mset_eq_imp_distinct_iff unfolding job_ok_def by blast
qed

lemma guar_refl [simp]: "guar J B p p"
  by (simp add: guar_def later_def opens_blank_def)

lemma inv_busy:
  assumes "job_inv J p" and "b \<in> set (ps_copying (pl_sys p)) \<union> set (ps_pulling (pl_sys p))" and "sp_err (pl_state p) = None"
  shows "\<not> sp_closed (pl_state p)"
  using invD(1) [OF assms(1)] assms(2,3) by (auto simp: pull_inv_def Let_def)

lemma op_tempFile_ok:
  assumes op: "op_tempFile (jb_E J) p = (err, q)" and i: "job_inv J p" and J: "job_ok J"
    and busy: "sp_err (pl_state p) = None \<Longrightarrow> \<not> sp_closed (pl_state p)"
  shows "job_inv J q \<and> guar J B p q \<and> ps_copying (pl_sys q) = ps_copying (pl_sys p) \<and> ps_pulling (pl_sys q) = ps_pulling (pl_sys p) \<and>
    ps_finished (pl_sys q) = ps_finished (pl_sys p) \<and>
    pl_pullChan q = pl_pullChan p \<and> pl_out q = pl_out p \<and> err \<noteq> Some Panic \<and>
    (err = None \<longrightarrow> sp_writer (pl_state q) \<and> live q) \<and> (err \<noteq> None \<longrightarrow> sp_err (pl_state q) \<noteq> None)"
proof -
  define fsys where "fsys = be_fs (jb_E J) (pl_world p)"
  obtain calls err' s where t: "tempFile (protoSize (be_codec (jb_E J))) fsys (pl_state p) = (calls, err', s)"
    by (metis prod_cases3)
  have e: "err' = err" and q: "q = p\<lparr>pl_sys := (pl_sys p)\<lparr>ps_state := s\<rparr>, pl_temp := temp_calls fsys calls (pl_temp p)\<rparr>"
    using op t by (auto simp: op_tempFile_def fsys_def Let_def)
  have step: "pull_step (be_codec (jb_E J)) (pl_sys p) (pl_sys q)"
    using step_tempFile [OF t] by (simp add: q)
  have pi: "pull_inv (jb_reused J) (jb_blocks J) (jb_file J) (pl_sys q)" by (rule pull_inv_step [OF step invD(1) [OF i]])
  consider (failed) x where "sp_err (pl_state p) = Some x" | (open_) "sp_err (pl_state p) = None" "sp_writer (pl_state p)"
    | (new) "sp_err (pl_state p) = None" "\<not> sp_writer (pl_state p)" by fastforce
  then show ?thesis
  proof cases
    case failed
    then have "q = p" "err = Some (Err x)" using t e by (auto simp: tempFile_def q)
    then show ?thesis using i failed by simp
  next
    case open_
    then have "q = p" "err = None" using t e by (auto simp: tempFile_def q)
    then show ?thesis using i open_ busy by simp
  next
    case new
    have c: "\<not> sp_closed (pl_state p)" using busy new by simp
    obtain calls2 err2 s2 where a: "addWriterLocked (protoSize (be_codec (jb_E J))) fsys (pl_state p) = (calls2, err2, s2)"
      by (metis prod_cases3)
    have f: "sp_file (pl_state p) = jb_file J" "sp_reused (pl_state p) = int (length (jb_reused J))" "sp_sparse (pl_state p) = jb_sparse J"
      using invD(2) [OF i] J by (auto simp: fixed_def job_ok_def)
    note w = addWriterLocked_temp [OF a, unfolded f, of "pl_temp p"]
    have w: "if err2 = None then s2 = (pl_state p)\<lparr>sp_writer := True\<rparr> \<and> temp_calls fsys calls2 (pl_temp p) = opened J
        else s2 = pl_state p \<and> temp_calls fsys calls2 (pl_temp p) = pl_temp p \<and> err2 \<noteq> Some Panic"
      using w J i new c by (auto simp: job_ok_def fsys_def opened_def job_inv_def Let_def split: if_splits)
    show ?thesis
    proof (cases err2)
      case None
      then have q2: "q = p\<lparr>pl_sys := (pl_sys p)\<lparr>ps_state := (pl_state p)\<lparr>sp_writer := True\<rparr>\<rparr>, pl_temp := opened J\<rparr>" "err = None"
        using t e new a w by (auto simp: tempFile_def q)
      have fin: "\<forall>b\<in>set (ps_finished (pl_sys p)). bi_Size b = 0 \<or> skippable J b" using i new c by (simp add: job_inv_def)
      have "content_ok J (ps_finished (pl_sys p)) (opened J)" by (rule opened_ok [OF J fin invD(4) [OF i]])
      then have "job_inv J q" using i pi new c by (simp add: job_inv_def q2 fixed_def)
      moreover have "guar J B p q" using opened_blank [OF J] new
        by (simp add: guar_def q2 later_def keeps_regions_def opens_blank_def)
      ultimately show ?thesis using q2 new c by simp
    next
      case (Some x)
      then obtain m where m: "x = Err m" using w by (cases x) auto
      then have q2: "q = p\<lparr>pl_sys := (pl_sys p)\<lparr>ps_state := (pl_state p)\<lparr>sp_err := Some m\<rparr>\<rparr>\<rparr>" "err = Some (Err m)"
        using t e new a w Some by (auto simp: tempFile_def q failLocked_def)
      then show ?thesis using i pi new by (simp add: job_inv_def fixed_def guar_def later_def keeps_regions_def opens_blank_def)
    qed
  qed
qed

lemma blocks_disjoint:
  assumes "job_ok J" and "b \<in> set (fi_Blocks (jb_file J))" and "d \<in> set (fi_Blocks (jb_file J))" and "b \<noteq> d"
  shows "disjoint b d"
  using assms by (auto simp: job_ok_def laid_out_def)

lemma write_content_ok:
  assumes J: "job_ok J" and b: "b \<in> set (jb_blocks J)" and nf: "b \<notin> set finished" and f: "set finished \<subseteq> set (jb_blocks J)"
    and len: "length bs \<le> nat (bi_Size b)" and c: "content_ok J finished c"
  shows "content_ok J finished (write_at (bi_Offset b) bs c)"
proof -
  note l = laid_outD [OF J job_blocks [OF J b]]
  have "nat (bi_Offset b) + length bs \<le> nat (fi_Size (jb_file J))" using l len by linarith
  then have "length (write_at (bi_Offset b) bs c) \<le> max (length c) (nat (fi_Size (jb_file J)))" "length c \<le> length (write_at (bi_Offset b) bs c)"
    by (auto simp: length_write_at)
  moreover have "same_region c (write_at (bi_Offset b) bs c) d"
    if d: "d \<in> set (fi_Blocks (jb_file J)) - set (jb_blocks J) \<union> set finished" for d
  proof -
    have "d \<in> set (fi_Blocks (jb_file J))" "b \<noteq> d" using d b nf f job_blocks [OF J] by auto
    then show ?thesis using write_at_other [OF len] blocks_disjoint [OF J job_blocks [OF J b]] l laid_outD [OF J] by blast
  qed
  then have "\<forall>d\<in>set (fi_Blocks (jb_file J)) - set (jb_blocks J) \<union> set finished. bi_Size d = 0 \<or>
      stored (be_sha256 (jb_E J)) (write_at (bi_Offset b) bs c) d"
    using c same_region_stored unfolding content_ok_def by blast
  ultimately show ?thesis using c unfolding content_ok_def by auto
qed

lemma op_write_ok:
  assumes op: "op_write (jb_E J) bs (bi_Offset b) p = (err, q)" and i: "job_inv J p" and J: "job_ok J"
    and b: "b \<in> set (ps_copying (pl_sys p)) \<union> set (ps_pulling (pl_sys p))" and len: "length bs = nat (bi_Size b)"
  shows "job_inv J q \<and> guar J {b} p q \<and> pl_sys q = pl_sys p \<and> pl_pullChan q = pl_pullChan p \<and>
    (err = None \<longrightarrow> sp_writer (pl_state q) \<and> (bi_Size b > 0 \<longrightarrow> within (pl_temp q) b \<and> region (pl_temp q) b = bs))"
proof -
  have bb: "b \<in> set (jb_blocks J)" using invD(3) [OF i] b by blast
  note l = laid_outD [OF J job_blocks [OF J bb]]
  have nf: "b \<notin> set (ps_finished (pl_sys p))" using distinct_work [OF i J] b by auto
  have w: "job_inv J (p\<lparr>pl_temp := write_at (bi_Offset b) bs' (pl_temp p)\<rparr>) \<and> guar J {b} p (p\<lparr>pl_temp := write_at (bi_Offset b) bs' (pl_temp p)\<rparr>)"
    if "length bs' \<le> nat (bi_Size b)" "sp_writer (pl_state p)" for bs'
  proof
    show "job_inv J (p\<lparr>pl_temp := write_at (bi_Offset b) bs' (pl_temp p)\<rparr>)"
      using i that write_content_ok [OF J bb nf invD(4) [OF i] that(1)] by (simp add: job_inv_def)
    have "same_region (pl_temp p) (write_at (bi_Offset b) bs' (pl_temp p)) d" if "d \<in> set (jb_blocks J) - {b}" for d
    proof -
      have d: "d \<in> set (fi_Blocks (jb_file J))" "b \<noteq> d" using that job_blocks [OF J] by auto
      show ?thesis using write_at_other [OF \<open>length bs' \<le> nat (bi_Size b)\<close> blocks_disjoint [OF J job_blocks [OF J bb] d]] l laid_outD [OF J d(1)]
        by blast
    qed
    then show "guar J {b} p (p\<lparr>pl_temp := write_at (bi_Offset b) bs' (pl_temp p)\<rparr>)" using that
      by (simp add: guar_def later_def keeps_regions_def opens_blank_def)
  qed
  have r: "bi_Size b > 0 \<longrightarrow> within (write_at (bi_Offset b) bs (pl_temp p)) b \<and> region (write_at (bi_Offset b) bs (pl_temp p)) b = bs"
    using write_at_stored [OF len] len by fastforce
  show ?thesis
  proof (cases "sp_writer (pl_state p) \<and> \<not> bi_Offset b < 0")
    case True
    show ?thesis
    proof (cases "be_Write (jb_E J) (pl_world p)")
      case None
      then show ?thesis using op True w [of bs] r len by (auto simp: op_write_def)
    next
      case (Some x)
      then obtain e n where "be_Write (jb_E J) (pl_world p) = Some (e, n)" by (cases x) auto
      then show ?thesis using op True w [of "take n bs"] len by (auto simp: op_write_def)
    qed
  next
    case False
    then have "q = p" "err \<noteq> None" using op by (auto simp: op_write_def split: if_splits)
    then show ?thesis using i by auto
  qed
qed

text \<open>Operations on the counters and the error leave the content alone.\<close>

lemma inv_state:
  assumes "job_inv J p" and "pull_step pc (pl_sys p) \<sigma>" and "fixed J (ps_state \<sigma>)"
    and "sp_writer (ps_state \<sigma>) = sp_writer (pl_state p)" and "sp_closed (ps_state \<sigma>) = sp_closed (pl_state p)"
    and "sp_err (ps_state \<sigma>) = None \<longrightarrow> sp_err (pl_state p) = None"
    and "set (ps_copying \<sigma>) \<subseteq> set (ps_copying (pl_sys p))"
    and "\<forall>b\<in>set (ps_finished \<sigma>) - set (ps_finished (pl_sys p)). bi_Size b = 0 \<or> skippable J b \<and> \<not> sp_writer (pl_state p) \<and> \<not> sp_closed (pl_state p) \<or>
      sp_err (ps_state \<sigma>) \<noteq> None \<or> sp_writer (pl_state p) \<and> stored (be_sha256 (jb_E J)) (pl_temp p) b"
  shows "job_inv J (p\<lparr>pl_sys := \<sigma>\<rparr>)"
proof -
  have "pull_inv (jb_reused J) (jb_blocks J) (jb_file J) \<sigma>" by (rule pull_inv_step [OF assms(2) invD(1) [OF assms(1)]])
  moreover have "content_ok J (ps_finished \<sigma>) (pl_temp p)"
    if "sp_err (ps_state \<sigma>) = None" "sp_writer (pl_state p) \<or> sp_closed (pl_state p)"
  proof -
    have c: "content_ok J (ps_finished (pl_sys p)) (pl_temp p)" using assms(1,6) that by (auto simp: job_inv_def)
    have "bi_Size b = 0 \<or> stored (be_sha256 (jb_E J)) (pl_temp p) b" if "b \<in> set (ps_finished \<sigma>)" for b
      using c assms(8) that \<open>sp_err (ps_state \<sigma>) = None\<close> \<open>sp_writer (pl_state p) \<or> sp_closed (pl_state p)\<close> unfolding content_ok_def by blast
    then show ?thesis using c unfolding content_ok_def by blast
  qed
  moreover have "pl_temp p = jb_temp J \<and> (\<forall>b\<in>set (ps_finished \<sigma>). bi_Size b = 0 \<or> skippable J b)"
    if "sp_err (ps_state \<sigma>) = None" "\<not> sp_writer (pl_state p)" "\<not> sp_closed (pl_state p)"
  proof -
    have "pl_temp p = jb_temp J \<and> (\<forall>b\<in>set (ps_finished (pl_sys p)). bi_Size b = 0 \<or> skippable J b)"
      using assms(1,6) that by (simp add: job_inv_def)
    then show ?thesis using assms(8) that by blast
  qed
  ultimately show ?thesis using assms(1,3-7) unfolding job_inv_def by (auto split: if_splits)
qed

lemma guar_state:
  assumes "sp_writer (ps_state \<sigma>) = sp_writer (pl_state p)" and "sp_closed (ps_state \<sigma>) = sp_closed (pl_state p)"
    and "sp_err (ps_state \<sigma>) = None \<longrightarrow> sp_err (pl_state p) = None"
  shows "guar J B p (p\<lparr>pl_sys := \<sigma>\<rparr>)"
  using assms by (auto simp: guar_def later_def keeps_regions_def opens_blank_def)

section \<open>Working on a block\<close>

definition quiet_step :: "'w pull_job \<Rightarrow> BlockInfo \<Rightarrow> 'w pulling \<Rightarrow> 'w pulling \<Rightarrow> bool" where
  "quiet_step J b p q \<longleftrightarrow> guar J {b} p q \<and> ps_copying (pl_sys q) = ps_copying (pl_sys p) \<and>
     ps_pulling (pl_sys q) = ps_pulling (pl_sys p) \<and> pl_pullChan q = pl_pullChan p"

text \<open>
  A task owns a block where \<open>P\<close> holds: it has the block in hand, the others leave it alone, and
  the task may do what concerns only this block.
\<close>

definition owns :: "'w pull_job \<Rightarrow> BlockInfo \<Rightarrow> ('w pulling \<Rightarrow> 'w pulling \<Rightarrow> bool) \<Rightarrow> ('w pulling \<Rightarrow> 'w pulling \<Rightarrow> bool) \<Rightarrow>
    ('w pulling \<Rightarrow> bool) \<Rightarrow> bool" where
  "owns J b R G P \<longleftrightarrow> job_ok J \<and> stable R (job_inv J) P \<and>
     (\<forall>p q. P p \<longrightarrow> R p q \<longrightarrow> later p q \<and> keeps_regions {b} p q) \<and>
     (\<forall>p q. P p \<longrightarrow> job_inv J p \<longrightarrow> quiet_step J b p q \<longrightarrow> job_inv J q \<longrightarrow> G p q \<and> P q) \<and> (\<forall>p. G p p) \<and>
     (\<forall>p. P p \<longrightarrow> b \<in> set (ps_copying (pl_sys p)) \<union> set (ps_pulling (pl_sys p)))"

definition is_open :: "('w pulling \<Rightarrow> bool) \<Rightarrow> 'w pulling \<Rightarrow> bool" where
  "is_open P p \<longleftrightarrow> P p \<and> (live p \<longrightarrow> sp_writer (pl_state p))"

definition has_block :: "'w pull_job \<Rightarrow> BlockInfo \<Rightarrow> ('w pulling \<Rightarrow> bool) \<Rightarrow> 'w pulling \<Rightarrow> bool" where
  "has_block J b P p \<longleftrightarrow> P p \<and> (live p \<longrightarrow> sp_writer (pl_state p) \<and> (bi_Size b > 0 \<longrightarrow> stored (be_sha256 (jb_E J)) (pl_temp p) b))"

definition has_failed :: "('w pulling \<Rightarrow> bool) \<Rightarrow> 'w pulling \<Rightarrow> bool" where
  "has_failed P p \<longleftrightarrow> P p \<and> sp_err (pl_state p) \<noteq> None"

lemma ownsD:
  assumes "owns J b R G P"
  shows "job_ok J" "stable R (job_inv J) P" "P p \<Longrightarrow> R p q \<Longrightarrow> later p q \<and> keeps_regions {b} p q"
    "P p \<Longrightarrow> job_inv J p \<Longrightarrow> quiet_step J b p q \<Longrightarrow> job_inv J q \<Longrightarrow> G p q \<and> P q" "G p p"
    "P p \<Longrightarrow> b \<in> set (ps_copying (pl_sys p)) \<union> set (ps_pulling (pl_sys p))"
  using assms unfolding owns_def by blast+

lemma stable_owned:
  assumes "owns J b R G P" and "\<And>p q. later p q \<Longrightarrow> keeps_regions {b} p q \<Longrightarrow> X p \<Longrightarrow> X q"
  shows "stable R (job_inv J) (\<lambda>p. P p \<and> X p)"
  using assms(2) ownsD(2,3) [OF assms(1)] unfolding stable_def by blast

lemma stable_is_open: "owns J b R G P \<Longrightarrow> stable R (job_inv J) (is_open P)"
  unfolding is_open_def by (erule stable_owned) (auto simp: later_def keeps_regions_def)

lemma stable_has_block: "owns J b R G P \<Longrightarrow> stable R (job_inv J) (has_block J b P)"
  unfolding has_block_def
  by (erule stable_owned) (auto simp: later_def keeps_regions_def intro: same_region_stored)

lemma stable_has_failed: "owns J b R G P \<Longrightarrow> stable R (job_inv J) (has_failed P)"
  unfolding has_failed_def by (erule stable_owned) (auto simp: later_def)

lemma quiet_refl [simp]: "quiet_step J b p p"
  by (simp add: quiet_step_def)

lemma sat_do_tempFile:
  assumes o: "owns J b R G P" and k: "sat R G (job_inv J) Q (is_open P) (k None)" "\<And>e. sat R G (job_inv J) Q (has_failed P) (k (Some e))"
  shows "sat R G (job_inv J) Q P (do_tempFile (jb_E J) k)"
  unfolding do_tempFile_def
proof (rule sat_act [where P' = "\<lambda>err q. err \<noteq> Some Panic \<and> (if err = None then is_open P q else has_failed P q)"])
  show "stable R (job_inv J) P" by (rule ownsD(2) [OF o])
next
  fix p x q assume p: "P p" "job_inv J p" and op: "op_tempFile (jb_E J) p = (x, q)"
  note t = op_tempFile_ok [OF op p(2) ownsD(1) [OF o] inv_busy [OF p(2) ownsD(6) [OF o p(1)]], of "{b}"]
  then have "G p q \<and> P q" using ownsD(4) [OF o p] by (simp add: quiet_step_def)
  then show "G p q \<and> job_inv J q \<and> (x \<noteq> Some Panic \<and> (if x = None then is_open P q else has_failed P q))"
    using t by (auto simp: is_open_def has_failed_def)
next
  fix x show "sat R G (job_inv J) Q (\<lambda>q. x \<noteq> Some Panic \<and> (if x = None then is_open P q else has_failed P q))
      (case x of None \<Rightarrow> k None | Some (Err e) \<Rightarrow> k (Some e) | Some Panic \<Rightarrow> SendOut)"
    using k by (auto simp: sat_def split: option.splits exc.splits)
qed

lemma sat_limitedWriteAt:
  assumes o: "owns J b R G P" and bs: "length bs = nat (bi_Size b)" "be_sha256 (jb_E J) bs = bi_Hash b"
    and k: "sat R G (job_inv J) Q (has_block J b P) (k None)" "\<And>e. sat R G (job_inv J) Q P (k (Some e))"
  shows "sat R G (job_inv J) Q (is_open P) (limitedWriteAt (jb_E J) bs (bi_Offset b) k)"
  unfolding limitedWriteAt_def
proof (rule sat_ask [OF stable_is_open [OF o]])
  show "G p p" for p by (rule ownsD(5) [OF o])
  fix l
  have w: "sat R G (job_inv J) Q (is_open P) (act (op_write (jb_E J) bs (bi_Offset b)) k)"
  proof (rule sat_act [where P' = "\<lambda>err q. if err = None then has_block J b P q else P q", OF stable_is_open [OF o]])
    fix p x q assume p: "is_open P p" "job_inv J p" and op: "op_write (jb_E J) bs (bi_Offset b) p = (x, q)"
    have P: "P p" using p(1) by (simp add: is_open_def)
    note t = op_write_ok [OF op p(2) ownsD(1) [OF o] ownsD(6) [OF o P] bs(1)]
    then have "G p q \<and> P q" using ownsD(4) [OF o P p(2)] by (simp add: quiet_step_def)
    then show "G p q \<and> job_inv J q \<and> (if x = None then has_block J b P q else P q)"
      using t bs(2) by (auto simp: has_block_def stored_def)
  next
    show "sat R G (job_inv J) Q (\<lambda>q. if x = None then has_block J b P q else P q) (k x)" for x
      using k by (cases x) auto
  qed
  show "sat R G (job_inv J) Q (is_open P) (case l of None \<Rightarrow> act (op_write (jb_E J) bs (bi_Offset b)) k | Some e \<Rightarrow> k (Some e))"
    using w sat_weaken [OF k(2), of "is_open P"] by (auto simp: is_open_def split: option.splits)
qed

lemma sat_quiet_act:
  assumes o: "owns J b R G P" and "\<And>p. job_inv J p \<Longrightarrow> quiet_step J b p (u p) \<and> job_inv J (u p)"
    and "sat R G (job_inv J) Q P k"
  shows "sat R G (job_inv J) Q P (act (\<lambda>p. ((), u p)) (\<lambda>_. k))"
  by (rule sat_act [where P' = "\<lambda>_. P", OF ownsD(2) [OF o]]) (use assms ownsD(4) [OF o] in auto)

lemma fixed_state [simp]:
  "fixed J (puller_fail e s) = fixed J s" "fixed J (copiedFromOrigin n s) = fixed J s" "fixed J (skippedSparseBlock n s) = fixed J s"
  "fixed J (copyDone n b s) = fixed J s" "fixed J (pullDone n b s) = fixed J s" "fixed J (pullStarted n s) = fixed J s"
  by (simp_all add: fixed_def puller_fail_def failLocked_def copiedFromOrigin_def skippedSparseBlock_def copyDone_def pullDone_def
      pullStarted_def)

lemma fail_state [simp]:
  "sp_writer (puller_fail e s) = sp_writer s" "sp_closed (puller_fail e s) = sp_closed s"
  "\<exists>y. sp_err (puller_fail (Some m) s) = Some y" "sp_err (puller_fail e s) = None \<Longrightarrow> sp_err s = None"
  by (auto simp: puller_fail_def failLocked_def split: if_splits)

lemma on_state_step:
  assumes "job_inv J p" and "\<And>\<sigma>. pull_step pc \<sigma> (\<sigma>\<lparr>ps_state := f (ps_state \<sigma>)\<rparr>)" and "fixed J (f (pl_state p))"
    and "sp_writer (f (pl_state p)) = sp_writer (pl_state p)" and "sp_closed (f (pl_state p)) = sp_closed (pl_state p)"
    and "sp_err (f (pl_state p)) = None \<longrightarrow> sp_err (pl_state p) = None"
  shows "quiet_step J b p (on_state f p) \<and> job_inv J (on_state f p)"
proof -
  have "guar J {b} p (on_state f p)" unfolding on_state_def by (rule guar_state) (use assms in auto)
  moreover have "job_inv J (on_state f p)" unfolding on_state_def
    by (rule inv_state [OF assms(1) assms(2)]) (use assms in auto)
  ultimately show ?thesis by (simp add: quiet_step_def on_state_def)
qed

lemma fail_step: "job_inv J p \<Longrightarrow> quiet_step J b p (on_state (puller_fail e) p) \<and> job_inv J (on_state (puller_fail e) p)"
  by (rule on_state_step [OF _ step_fail]) (auto simp: job_inv_def)

lemma origin_step: "job_inv J p \<Longrightarrow> quiet_step J b p (on_state (copiedFromOrigin n) p) \<and> job_inv J (on_state (copiedFromOrigin n) p)"
  by (rule on_state_step [OF _ step_origin]) (auto simp: job_inv_def, auto simp: copiedFromOrigin_def)

lemma sparse_step: "job_inv J p \<Longrightarrow> quiet_step J b p (on_state (skippedSparseBlock n) p) \<and> job_inv J (on_state (skippedSparseBlock n) p)"
  by (rule on_state_step [OF _ step_sparse]) (auto simp: job_inv_def, auto simp: skippedSparseBlock_def)

lemma sat_do_fail:
  assumes o: "owns J b R G P" and k: "sat R G (job_inv J) Q (has_failed P) k"
  shows "sat R G (job_inv J) Q P (do_fail e k)"
  unfolding do_fail_def
proof (rule sat_act [where P' = "\<lambda>_. has_failed P", OF ownsD(2) [OF o]])
  fix p x q assume p: "P p" "job_inv J p" and f: "((), on_state (puller_fail (Some e)) p) = (x, q)"
  have q: "quiet_step J b p q \<and> job_inv J q" using fail_step [OF p(2)] f by auto
  then have "G p q \<and> P q" using ownsD(4) [OF o p] by blast
  then show "G p q \<and> job_inv J q \<and> has_failed P q" using q f fail_state(3) [of e "pl_state p"]
    by (auto simp: has_failed_def on_state_def)
qed (rule k)

lemma sat_ask_failed:
  assumes o: "owns J b R G P" and "sat R G (job_inv J) Q (has_failed P) (k True)" and "sat R G (job_inv J) Q P (k False)"
  shows "sat R G (job_inv J) Q P (ask_failed k)"
  unfolding ask_failed_def
proof (rule sat_act [where P' = "\<lambda>f q. if f then has_failed P q else P q", OF ownsD(2) [OF o]])
  show "sat R G (job_inv J) Q (\<lambda>q. if x then has_failed P q else P q) (k x)" for x using assms by (cases x) auto
qed (use ownsD(5) [OF o] in \<open>auto simp: has_failed_def puller_failed_def\<close>)

lemma sat_failed_weaken: "sat R G I Q P t \<Longrightarrow> sat R G I Q (has_failed P) t"
  by (erule sat_weaken) (simp add: has_failed_def)

lemma sat_retry:
  assumes o: "owns J b R G P" and k: "sat R G (job_inv J) Q P t1" and t: "sat R G (job_inv J) Q P t2"
  shows "sat R G (job_inv J) Q P (ask_failed (\<lambda>failed. if failed then t1 else t2))"
  by (rule sat_ask_failed [OF o]) (use sat_failed_weaken [OF k] t in auto)

lemma sat_after_write:
  assumes o: "owns J b R G P" and "sat R G (job_inv J) Q (has_failed P) failed" and "sat R G (job_inv J) Q (has_block J b P) written"
  shows "sat R G (job_inv J) Q (has_block J b P) (after_write msg failed written None)"
    "sat R G (job_inv J) Q P (after_write msg failed written (Some e))"
  using assms(3) sat_do_fail [OF o assms(2)] by (simp_all add: after_write_def)

text \<open>The block is in place when the copy has succeeded; a copy that has not succeeded did no harm.\<close>

lemma sat_copyBlockFromFile:
  assumes o: "owns J b R G P" and k: "sat R G (job_inv J) Q (has_block J b P) (k True)" "sat R G (job_inv J) Q P (k False)"
  shows "sat R G (job_inv J) Q P (copyBlockFromFile (jb_E J) folder srcName srcOffset b k)"
  unfolding copyBlockFromFile_def
proof (rule sat_ask [OF ownsD(2,5) [OF o]])
  fix r :: "(string, bytes) result"
  have J: "be_Type (jb_E J) \<noteq> FolderTypeReceiveEncrypted" "be_CopyRangeMethodStandard (jb_E J)"
    using ownsD(1) [OF o] by (simp_all add: job_ok_def)
  let ?check = "after_write ''dst write: '' (k False) (k True)"
  note c = sat_after_write [OF o sat_failed_weaken [OF k(2)] k(1)]
  have w: "sat R G (job_inv J) Q P (do_tempFile (jb_E J) (\<lambda>err. if err \<noteq> None then k False else limitedWriteAt (jb_E J) buf (bi_Offset b) ?check))"
    if "verifyBuffer (be_sha256 (jb_E J)) buf b = None" for buf
  proof (rule sat_do_tempFile [OF o])
    have "length buf = nat (bi_Size b)" "be_sha256 (jb_E J) buf = bi_Hash b"
      using that by (auto simp: verifyBuffer_def split: if_splits)
    then show "sat R G (job_inv J) Q (is_open P) (if None \<noteq> None then k False else limitedWriteAt (jb_E J) buf (bi_Offset b) ?check)"
      using sat_limitedWriteAt [OF o _ _ c] by simp
  qed (use k sat_failed_weaken in auto)
  show "sat R G (job_inv J) Q P (case r of Inl x \<Rightarrow> k False
     | Inr buf \<Rightarrow>
         if be_Type (jb_E J) \<noteq> FolderTypeReceiveEncrypted \<and> verifyBuffer (be_sha256 (jb_E J)) buf b \<noteq> None then k False
         else do_tempFile (jb_E J) (\<lambda>err. if err \<noteq> None then k False else
           (let check = ?check in
            if \<not> be_CopyRangeMethodStandard (jb_E J)
            then ask (be_writeLimiter (jb_E J)) (\<lambda>l. case l of None \<Rightarrow> act (op_copyRange (jb_E J) folder srcName srcOffset b) check
                   | Some e \<Rightarrow> check (Some e))
            else limitedWriteAt (jb_E J) buf (bi_Offset b) check)))"
    using k(2) J w by (auto simp: Let_def cong: if_cong split: sum.splits)
qed

lemma sat_do_origin:
  assumes o: "owns J b R G P" and k: "sat R G (job_inv J) Q (has_block J b P) k"
  shows "sat R G (job_inv J) Q (has_block J b P) (do_origin E k)"
  unfolding do_origin_def
proof (rule sat_act [where P' = "\<lambda>_. has_block J b P", OF stable_has_block [OF o]])
  fix p x q assume p: "has_block J b P p" "job_inv J p" and f: "((), on_state (copiedFromOrigin (be_now E (pl_world p))) p) = (x, q)"
  have q: "quiet_step J b p q \<and> job_inv J q" using origin_step [OF p(2)] f by auto
  then have "G p q \<and> P q" using ownsD(4) [OF o _ p(2)] p(1) by (simp add: has_block_def)
  then show "G p q \<and> job_inv J q \<and> has_block J b P q" using q f p(1)
    by (auto simp: has_block_def on_state_def copiedFromOrigin_def)
qed (rule k)

lemma sat_copy_entries:
  assumes o: "owns J b R G P" and k: "sat R G (job_inv J) Q (has_block J b P) (k True)" "sat R G (job_inv J) Q P (k False)"
  shows "sat R G (job_inv J) Q P (copy_entries (jb_E J) folder st b k es)"
proof (induction es)
  case Nil
  then show ?case using k(2) by simp
next
  case (Cons e es)
  obtain fileName offset where e: "e = (fileName, offset)" by (cases e)
  show ?case unfolding e copy_entries.simps
  proof (rule sat_copyBlockFromFile [OF o])
    show "sat R G (job_inv J) Q (has_block J b P) (if \<not> True then ask_failed (\<lambda>failed. if failed then k False else copy_entries (jb_E J) folder st b k es)
       else if fileName = fi_Name (sp_file st) then do_origin (jb_E J) (k True) else k True)"
      using sat_do_origin [OF o k(1)] k(1) by simp
    show "sat R G (job_inv J) Q P (if \<not> False then ask_failed (\<lambda>failed. if failed then k False else copy_entries (jb_E J) folder st b k es)
       else if fileName = fi_Name (sp_file st) then do_origin (jb_E J) (k True) else k True)"
      using sat_retry [OF o k(2) Cons] by simp
  qed
qed

lemma sat_copyBlockFromFolder:
  assumes o: "owns J b R G P" and k: "sat R G (job_inv J) Q (has_block J b P) (k True)" "sat R G (job_inv J) Q P (k False)"
  shows "sat R G (job_inv J) Q P (copyBlockFromFolder (jb_E J) folder st b k)"
  unfolding copyBlockFromFolder_def by (rule sat_ask [OF ownsD(2,5) [OF o]]) (rule sat_copy_entries [OF assms])

lemma sat_copy_others:
  assumes o: "owns J b R G P" and k: "sat R G (job_inv J) Q (has_block J b P) (k True)" "sat R G (job_inv J) Q P (k False)"
  shows "sat R G (job_inv J) Q P (copy_others (jb_E J) st b k folders)"
proof (induction folders)
  case (Cons folder folders)
  then show ?case using sat_copyBlockFromFolder [OF o] sat_retry [OF o k(2)] k(1) by simp
qed (use k(2) in simp)

lemma sat_copyBlock:
  assumes o: "owns J b R G P" and k: "sat R G (job_inv J) Q (has_block J b P) (k True)" "sat R G (job_inv J) Q P (k False)"
  shows "sat R G (job_inv J) Q P (copyBlock (jb_E J) st b k)"
proof -
  note others = sat_copy_others [OF assms, of st "be_otherFolders (jb_E J)"]
  then have indexed: "sat R G (job_inv J) Q P (if be_BlockIndexing (jb_E J)
      then copyBlockFromFolder (jb_E J) (be_ID (jb_E J)) st b (\<lambda>ok. if ok then k True else
        ask_failed (\<lambda>failed. if failed then k False else copy_others (jb_E J) st b k (be_otherFolders (jb_E J))))
      else copy_others (jb_E J) st b k (be_otherFolders (jb_E J)))"
    using sat_copyBlockFromFolder [OF o] sat_retry [OF o k(2) others] k(1) by simp
  show ?thesis
  proof (cases "sp_curFileBlocks st (bi_Hash b)")
    case None
    then show ?thesis using indexed unfolding copyBlock_def Let_def by simp
  next
    case (Some idx)
    then show ?thesis unfolding copyBlock_def Let_def option.case(2) Some
      by (intro sat_copyBlockFromFile [OF o]) (simp_all only: if_True if_False sat_do_origin [OF o k(1)] sat_retry [OF o k(2) indexed])
  qed
qed

end
