(* ===== verification/PullVerify.thy ===== *)
theory PullVerify
  imports PullOwner
begin

text \<open>
  A file that was pulled without error has the content its blocks say: the copier and the pullers
  as tasks among others, and all runs of them together.
\<close>

section \<open>The puller of a block\<close>

definition held :: "BlockInfo \<Rightarrow> 'w pulling \<Rightarrow> bool" where
  "held b p \<longleftrightarrow> b \<in> set (ps_pulling (pl_sys p)) \<and> b \<in> set (pl_pullChan p)"

definition puller_done :: "BlockInfo \<Rightarrow> 'w pulling \<Rightarrow> bool" where
  "puller_done b p \<longleftrightarrow> sp_err (pl_state p) \<noteq> None \<or> b \<notin> set (ps_pulling (pl_sys p))"

abbreviation puller_sat :: "'w pull_job \<Rightarrow> BlockInfo \<Rightarrow> ('w pulling \<Rightarrow> bool) \<Rightarrow> 'w task \<Rightarrow> bool" where
  "puller_sat J b \<equiv> sat (rely_puller b) (guar_puller J b) (job_inv J) (puller_done b)"

lemma guar_puller_refl [simp]: "guar_puller J b p p"
  by (auto simp: guar_puller_def)

lemma activity_update [simp]:
  "job_inv J (p\<lparr>pl_activity := a\<rparr>) = job_inv J p" "guar_puller J b p (p\<lparr>pl_activity := a\<rparr>)"
  by (auto simp: job_inv_def guar_puller_def guar_def later_def keeps_regions_def opens_blank_def)

lemma puller_owns: "job_ok J \<Longrightarrow> owns J b (rely_puller b) (guar_puller J b) (held b)"
  by (auto simp: owns_def stable_def held_def rely_puller_def quiet_step_def guar_puller_def)

lemma puller_SendOut: "puller_sat J b (puller_done b) SendOut"
  by (rule sat_SendOut) (auto simp: stable_def puller_done_def rely_puller_def later_def)

lemma puller_failed_SendOut: "puller_sat J b (has_failed P) SendOut"
  by (rule sat_weaken [OF puller_SendOut]) (simp add: has_failed_def puller_done_def)

definition placed :: "'w pull_job \<Rightarrow> BlockInfo \<Rightarrow> 'w pulling \<Rightarrow> bool" where
  "placed J b p \<longleftrightarrow> held b p \<and> (live p \<and> bi_Size b \<noteq> 0 \<longrightarrow> sp_writer (pl_state p) \<and> stored (be_sha256 (jb_E J)) (pl_temp p) b)"

lemma puller_pullDone:
  assumes J: "job_ok J"
  shows "puller_sat J b (placed J b) (do_pullDone E b SendOut)"
  unfolding do_pullDone_def
proof (rule sat_act [where P' = "\<lambda>_. puller_done b"])
  show "stable (rely_puller b) (job_inv J) (placed J b)" unfolding placed_def
    by (rule stable_owned [OF puller_owns [OF J]]) (auto simp: later_def keeps_regions_def intro: same_region_stored)
next
  fix p x q
  assume p: "placed J b p" "job_inv J p"
    and f: "((), p\<lparr>pl_sys := (pl_sys p)\<lparr>ps_state := pullDone (be_now E (pl_world p)) b (pl_state p),
       ps_pulling := remove1 b (ps_pulling (pl_sys p)), ps_finished := ps_finished (pl_sys p) @ [b]\<rparr>\<rparr>) = (x, q)"
  define \<sigma> where "\<sigma> = (pl_sys p)\<lparr>ps_state := pullDone (be_now E (pl_world p)) b (pl_state p),
       ps_pulling := remove1 b (ps_pulling (pl_sys p)), ps_finished := ps_finished (pl_sys p) @ [b]\<rparr>"
  have b: "b \<in> set (ps_pulling (pl_sys p))" using p(1) by (simp add: placed_def held_def)
  have q: "q = p\<lparr>pl_sys := \<sigma>\<rparr>" using f by (simp add: \<sigma>_def)
  have st: "sp_writer (ps_state \<sigma>) = sp_writer (pl_state p)" "sp_closed (ps_state \<sigma>) = sp_closed (pl_state p)"
    "sp_err (ps_state \<sigma>) = sp_err (pl_state p)" by (simp_all add: \<sigma>_def pullDone_def)
  have step: "pull_step (be_codec E) (pl_sys p) \<sigma>" unfolding \<sigma>_def by (rule step_pullDone [OF b])
  have "job_inv J (p\<lparr>pl_sys := \<sigma>\<rparr>)"
  proof (rule inv_state [OF p(2) step])
    show "fixed J (ps_state \<sigma>)" using invD(2) [OF p(2)] by (simp add: \<sigma>_def)
    show "set (ps_copying \<sigma>) \<subseteq> set (ps_copying (pl_sys p))" by (simp add: \<sigma>_def)
    have c: "sp_err (pl_state p) = None \<Longrightarrow> \<not> sp_closed (pl_state p)" using inv_busy [OF p(2)] b by blast
    show "\<forall>b\<in>set (ps_finished \<sigma>) - set (ps_finished (pl_sys p)). bi_Size b = 0 \<or> skippable J b \<and> \<not> sp_writer (pl_state p) \<and> \<not> sp_closed (pl_state p) \<or>
      sp_err (ps_state \<sigma>) \<noteq> None \<or> sp_writer (pl_state p) \<and> stored (be_sha256 (jb_E J)) (pl_temp p) b"
      using p(1) c st(3) by (auto simp: \<sigma>_def placed_def)
  qed (use st in auto)
  moreover have "guar J {b} p (p\<lparr>pl_sys := \<sigma>\<rparr>)" by (rule guar_state) (use st in auto)
  moreover have "distinct (ps_pulling (pl_sys p))" using distinct_work [OF p(2) J] by simp
  ultimately show "guar_puller J b p q \<and> job_inv J q \<and> puller_done b q"
    unfolding q by (auto simp: guar_puller_def puller_done_def \<sigma>_def)
qed (rule puller_SendOut)

lemma puller_written:
  assumes "job_ok J"
  shows "puller_sat J b (has_block J b (held b)) (do_pullDone E b SendOut)"
proof -
  have "placed J b p" if "has_block J b (held b) p" "job_inv J p" for p
  proof -
    have "b \<in> set (jb_blocks J)" using invD(3) [OF that(2)] that(1) by (auto simp: has_block_def held_def)
    then show ?thesis using that(1) laid_outD(2) [OF assms job_blocks [OF assms]] by (force simp: has_block_def placed_def)
  qed
  then show ?thesis using puller_pullDone [OF assms, of b E] unfolding sat_def by blast
qed

lemma puller_pull_loop:
  assumes J: "job_ok J"
  shows "puller_sat J b (is_open (held b)) (pull_loop (jb_E J) st b candidates lastError)"
proof (induction "length candidates" arbitrary: candidates lastError rule: less_induct)
  case less
  note o = puller_owns [OF J, of b]
  note st = stable_is_open [OF o]
  have fail: "puller_sat J b (is_open (held b)) (do_fail e SendOut)" for e
    by (rule sat_weaken [OF sat_do_fail [OF o puller_failed_SendOut]]) (simp add: is_open_def)
  have wr: "puller_sat J b (is_open (held b)) (limitedWriteAt (jb_E J) buf (bi_Offset b) (after_write ''save: '' SendOut (do_pullDone (jb_E J) b SendOut)))"
    if "verifyBuffer (be_sha256 (jb_E J)) buf b = None" for buf
    by (rule sat_limitedWriteAt [OF o _ _ sat_after_write [OF o puller_failed_SendOut puller_written [OF J]]])
      (use that in \<open>auto simp: verifyBuffer_def split: if_splits\<close>)
  have quiet: "puller_sat J b (is_open (held b)) (act (\<lambda>p. ((), p\<lparr>pl_activity := f (pl_activity p)\<rparr>)) (\<lambda>_. k))"
    if "puller_sat J b (is_open (held b)) k" for f k
    by (rule sat_act [where P' = "\<lambda>_. is_open (held b)", OF st])
      (use that in \<open>auto simp: is_open_def held_def\<close>)
  have J2: "be_Type (jb_E J) \<noteq> FolderTypeReceiveEncrypted" using J by (simp add: job_ok_def)
  have again: "puller_sat J b (is_open (held b)) (pull_loop (jb_E J) st b (butlast (candidates[n := last candidates])) e)"
    if "candidates \<noteq> []" for n e
    using less that by simp
  show ?case
    by (subst pull_loop.simps)
      (intro sat_ask [OF st guar_puller_refl],
        auto simp: Let_def J2 intro!: fail quiet wr again sat_ask [OF st guar_puller_refl]
          sat_act [where P' = "\<lambda>_. is_open (held b)", OF st] split: option.splits sum.splits)
qed

lemma puller_pullerRoutine:
  assumes J: "job_ok J" and ns: "\<not> skippable J b" and st: "sp_reused st = int (length (jb_reused J))"
  shows "puller_sat J b (held b) (pullerRoutine (jb_E J) st b)"
proof -
  note o = puller_owns [OF J, of b]
  have zero: "puller_sat J b (held b) (do_pullDone (jb_E J) b SendOut)" if "bi_Size b = 0"
    by (rule sat_weaken [OF puller_pullDone [OF J]]) (use that in \<open>simp add: placed_def\<close>)
  have empty: "puller_sat J b (is_open (held b)) (limitedWriteAt (jb_E J) (replicate (nat (bi_Size b)) 0) (bi_Offset b)
      (after_write ''save: '' SendOut (do_pullDone (jb_E J) b SendOut)))" if "BlockInfo_IsEmpty b"
    by (rule sat_limitedWriteAt [OF o _ _ sat_after_write [OF o puller_failed_SendOut puller_written [OF J]]])
      (use IsEmpty_blank [OF _ that] J in \<open>auto simp: job_ok_def\<close>)
  have "sp_reused st \<noteq> 0 \<or> be_DisableSparseFiles (jb_E J)" if "BlockInfo_IsEmpty b"
    using ns that st by (auto simp: skippable_def)
  then have "puller_sat J b (held b) (pullBlock (jb_E J) st b)" unfolding pullBlock_def
    by (intro sat_do_tempFile [OF o])
      (auto simp: Let_def puller_failed_SendOut intro!: empty puller_pull_loop [OF J] sat_ask [OF stable_is_open [OF o] guar_puller_refl])
  then show ?thesis unfolding pullerRoutine_def
    by (intro sat_ask_failed [OF o])
      (auto simp: puller_failed_SendOut intro!: zero sat_ask [OF ownsD(2) [OF o] guar_puller_refl] sat_do_fail [OF o puller_failed_SendOut]
        split: option.splits)
qed

section \<open>The copier\<close>

text \<open>
  What the copier knows with the blocks \<open>bs\<close> still to do: they are all it has, what is being pulled
  was sent, and zero blocks it will skip are zero in the temporary file.
\<close>

definition fresh :: "'w pull_job \<Rightarrow> BlockInfo list \<Rightarrow> 'w pulling \<Rightarrow> bool" where
  "fresh J bs p \<longleftrightarrow> (\<forall>b\<in>set bs. live p \<and> sp_writer (pl_state p) \<and> skippable J b \<longrightarrow> blank (pl_temp p) b)"

definition at_blocks :: "'w pull_job \<Rightarrow> BlockInfo list \<Rightarrow> 'w pulling \<Rightarrow> bool" where
  "at_blocks J bs p \<longleftrightarrow> ps_copying (pl_sys p) = bs \<and> set (ps_pulling (pl_sys p)) \<subseteq> set (pl_pullChan p) \<and> fresh J bs p"

definition at_block :: "'w pull_job \<Rightarrow> BlockInfo \<Rightarrow> BlockInfo list \<Rightarrow> 'w pulling \<Rightarrow> bool" where
  "at_block J b bs p \<longleftrightarrow> ps_copying (pl_sys p) = b # bs \<and> set (ps_pulling (pl_sys p)) \<subseteq> set (pl_pullChan p) \<and> fresh J bs p"

definition copier_done :: "'w pulling \<Rightarrow> bool" where
  "copier_done p \<longleftrightarrow> sp_err (pl_state p) \<noteq> None \<or>
     ps_copying (pl_sys p) = [] \<and> set (ps_pulling (pl_sys p)) \<subseteq> set (pl_pullChan p)"

abbreviation copier_sat :: "'w pull_job \<Rightarrow> ('w pulling \<Rightarrow> bool) \<Rightarrow> 'w task \<Rightarrow> bool" where
  "copier_sat J \<equiv> sat (rely_copier J) (guar_copier J) (job_inv J) copier_done"

lemma guar_copier_refl [simp]: "guar_copier J p p"
  by (auto simp: guar_copier_def)

lemma fresh_later:
  assumes "fresh J bs p" and "later p q" and "keeps_regions (set bs) p q" and "opens_blank J (set bs) p q"
  shows "fresh J bs q"
  unfolding fresh_def
proof (intro ballI impI)
  fix b assume b: "b \<in> set bs" and q: "live q \<and> sp_writer (pl_state q) \<and> skippable J b"
  then have p: "live p" using assms(2) by (auto simp: later_def)
  show "blank (pl_temp q) b"
  proof (cases "sp_writer (pl_state p)")
    case True
    then have "blank (pl_temp p) b" using assms(1) b p q by (simp add: fresh_def)
    then show ?thesis using assms(3) True b q same_region_blank by (auto simp: keeps_regions_def)
  next
    case False
    then show ?thesis using assms(4) b q by (simp add: opens_blank_def)
  qed
qed

lemma opens_blank_mono: "opens_blank J B p q \<Longrightarrow> A \<subseteq> B \<Longrightarrow> opens_blank J A p q"
  by (auto simp: opens_blank_def)

lemma fresh_rely:
  assumes "fresh J bs p" and "rely_copier J p q" and "set bs \<subseteq> set (ps_copying (pl_sys p))"
  shows "fresh J bs q"
  by (rule fresh_later [OF assms(1)])
    (use assms(2,3) in \<open>auto simp: rely_copier_def intro: keeps_regions_mono opens_blank_mono\<close>)

lemma fresh_guar:
  assumes "fresh J bs p" and "guar J B p q" and "set bs \<subseteq> set (jb_blocks J) - B"
  shows "fresh J bs q"
  by (rule fresh_later [OF assms(1)])
    (use assms(2,3) in \<open>auto simp: guar_def intro: keeps_regions_mono opens_blank_mono\<close>)

lemma copier_owns:
  assumes J: "job_ok J"
  shows "owns J b (rely_copier J) (guar_copier J) (at_block J b bs)"
  unfolding owns_def
proof (intro conjI allI impI)
  show "stable (rely_copier J) (job_inv J) (at_block J b bs)" unfolding stable_def
  proof (intro allI impI)
    fix p q assume p: "at_block J b bs p" and r: "rely_copier J p q"
    have "fresh J bs q" by (rule fresh_rely [OF _ r]) (use p in \<open>auto simp: at_block_def\<close>)
    then show "at_block J b bs q" using p r by (auto simp: at_block_def rely_copier_def)
  qed
next
  fix p q assume "at_block J b bs p" "rely_copier J p q"
  then show "later p q" "keeps_regions {b} p q"
    by (auto simp: rely_copier_def at_block_def intro: keeps_regions_mono)
next
  fix p q assume p: "at_block J b bs p" "job_inv J p" and s: "quiet_step J b p q"
  have bs: "set bs \<subseteq> set (jb_blocks J) - {b}"
    using distinct_work [OF p(2) J] invD(3) [OF p(2)] p(1) by (auto simp: at_block_def)
  have "keeps_regions (set (jb_blocks J) - set (ps_copying (pl_sys p))) p q"
    by (rule keeps_regions_mono [of "set (jb_blocks J) - {b}"]) (use s p(1) in \<open>auto simp: quiet_step_def guar_def at_block_def\<close>)
  then show "guar_copier J p q" using s by (auto simp: quiet_step_def guar_copier_def guar_def)
  show "at_block J b bs q" using p(1) s fresh_guar [OF _ _ bs] by (auto simp: at_block_def quiet_step_def)
qed (use J in \<open>auto simp: at_block_def\<close>)

lemma copier_SendOut: "copier_sat J copier_done SendOut"
  by (rule sat_SendOut) (auto simp: stable_def copier_done_def rely_copier_def later_def)

lemma copier_failed_SendOut: "copier_sat J (has_failed P) SendOut"
  by (rule sat_weaken [OF copier_SendOut]) (simp add: has_failed_def copier_done_def)

text \<open>The block is in the temporary file, or will be once that is opened.\<close>

definition settled_block :: "'w pull_job \<Rightarrow> BlockInfo \<Rightarrow> BlockInfo list \<Rightarrow> 'w pulling \<Rightarrow> bool" where
  "settled_block J b bs p \<longleftrightarrow> at_block J b bs p \<and> (live p \<and> bi_Size b \<noteq> 0 \<longrightarrow>
     (if sp_writer (pl_state p) then stored (be_sha256 (jb_E J)) (pl_temp p) b else skippable J b))"

lemma stable_settled:
  assumes J: "job_ok J"
  shows "stable (rely_copier J) (job_inv J) (settled_block J b bs)"
  unfolding stable_def
proof (intro allI impI)
  fix p q assume p: "settled_block J b bs p" "job_inv J p" and R: "rely_copier J p q" and i: "job_inv J q"
  have a: "at_block J b bs q" using ownsD(2) [OF copier_owns [OF J]] p R i unfolding stable_def settled_block_def by blast
  have b: "b \<in> set (ps_copying (pl_sys p))" using p(1) by (simp add: settled_block_def at_block_def)
  have z: "zero_hashes (be_sha256 (jb_E J))" using J by (simp add: job_ok_def)
  have "stored (be_sha256 (jb_E J)) (pl_temp q) b" if q: "live q" "bi_Size b \<noteq> 0" "sp_writer (pl_state q)"
  proof (cases "sp_writer (pl_state p)")
    case True
    then show ?thesis using p(1) R q b same_region_stored by (auto simp: settled_block_def rely_copier_def later_def keeps_regions_def)
  next
    case False
    then have "skippable J b" using p(1) R q by (auto simp: settled_block_def rely_copier_def later_def)
    moreover have "blank (pl_temp q) b" using False R q b calculation by (auto simp: rely_copier_def opens_blank_def)
    ultimately show ?thesis using blank_stored [OF z] by (simp add: skippable_def)
  qed
  moreover have "skippable J b" if q: "live q" "bi_Size b \<noteq> 0" "\<not> sp_writer (pl_state q)"
    using p(1) R q by (auto simp: settled_block_def rely_copier_def later_def keeps_regions_def split: if_splits)
  ultimately show "settled_block J b bs q" using a by (simp add: settled_block_def)
qed

lemma copier_copyDone:
  assumes J: "job_ok J" and k: "copier_sat J (at_blocks J bs) k"
  shows "copier_sat J (settled_block J b bs) (do_copyDone E b k)"
  unfolding do_copyDone_def
proof (rule sat_act [where P' = "\<lambda>_. at_blocks J bs", OF stable_settled [OF J]])
  fix p x q
  assume p: "settled_block J b bs p" "job_inv J p"
    and f: "((), p\<lparr>pl_sys := (pl_sys p)\<lparr>ps_state := copyDone (be_now E (pl_world p)) b (pl_state p),
       ps_copying := remove1 b (ps_copying (pl_sys p)), ps_finished := ps_finished (pl_sys p) @ [b]\<rparr>\<rparr>) = (x, q)"
  define \<sigma> where "\<sigma> = (pl_sys p)\<lparr>ps_state := copyDone (be_now E (pl_world p)) b (pl_state p),
       ps_copying := remove1 b (ps_copying (pl_sys p)), ps_finished := ps_finished (pl_sys p) @ [b]\<rparr>"
  have b: "ps_copying (pl_sys p) = b # bs" using p(1) by (simp add: settled_block_def at_block_def)
  have q: "q = p\<lparr>pl_sys := \<sigma>\<rparr>" using f by (simp add: \<sigma>_def)
  have st: "sp_writer (ps_state \<sigma>) = sp_writer (pl_state p)" "sp_closed (ps_state \<sigma>) = sp_closed (pl_state p)"
    "sp_err (ps_state \<sigma>) = sp_err (pl_state p)" by (simp_all add: \<sigma>_def copyDone_def)
  have step: "pull_step (be_codec E) (pl_sys p) \<sigma>" unfolding \<sigma>_def by (rule step_copyDone) (simp add: b)
  have i: "job_inv J q" unfolding q
  proof (rule inv_state [OF p(2) step])
    show "fixed J (ps_state \<sigma>)" using invD(2) [OF p(2)] by (simp add: \<sigma>_def)
    show "set (ps_copying \<sigma>) \<subseteq> set (ps_copying (pl_sys p))" using b by (auto simp: \<sigma>_def)
    have c: "sp_err (pl_state p) = None \<Longrightarrow> \<not> sp_closed (pl_state p)" using inv_busy [OF p(2), of b] b by simp
    show "\<forall>b\<in>set (ps_finished \<sigma>) - set (ps_finished (pl_sys p)). bi_Size b = 0 \<or> skippable J b \<and> \<not> sp_writer (pl_state p) \<and> \<not> sp_closed (pl_state p) \<or>
      sp_err (ps_state \<sigma>) \<noteq> None \<or> sp_writer (pl_state p) \<and> stored (be_sha256 (jb_E J)) (pl_temp p) b"
      using p(1) c st(3) by (auto simp: \<sigma>_def settled_block_def split: if_splits)
  qed (use st in auto)
  have "guar J B p q" for B unfolding q by (rule guar_state) (use st in auto)
  moreover have "at_blocks J bs q" using p(1) b st by (auto simp: q at_blocks_def settled_block_def at_block_def fresh_def \<sigma>_def)
  ultimately show "guar_copier J p q \<and> job_inv J q \<and> at_blocks J bs q" using i b
    by (auto simp: guar_copier_def q \<sigma>_def)
qed (rule k)

lemma copier_hand_over:
  assumes J: "job_ok J" and k: "copier_sat J (at_blocks J bs) k" and ns: "\<not> skippable J b"
  shows "copier_sat J (at_block J b bs) (do_pullStarted E b (do_send b k))"
proof -
  let ?sent = "\<lambda>p. ps_copying (pl_sys p) = bs \<and> fresh J bs p \<and> set (ps_pulling (pl_sys p)) \<subseteq> insert b (set (pl_pullChan p)) \<and>
     b \<in> set (ps_pulling (pl_sys p)) \<and> b \<notin> set (pl_pullChan p)"
  have "copier_sat J ?sent (do_send b k)" unfolding do_send_def
  proof (rule sat_act [where P' = "\<lambda>_. at_blocks J bs"])
    show "stable (rely_copier J) (job_inv J) ?sent" unfolding stable_def
    proof (intro allI impI)
      fix p q assume p: "?sent p" and r: "rely_copier J p q"
      have "fresh J bs q" by (rule fresh_rely [OF _ r]) (use p in auto)
      then show "?sent q" using p r by (auto simp: rely_copier_def)
    qed
  next
    fix p x q assume p: "?sent p" "job_inv J p" and f: "((), p\<lparr>pl_pullChan := pl_pullChan p @ [b]\<rparr>) = (x, q)"
    have q: "q = p\<lparr>pl_pullChan := pl_pullChan p @ [b]\<rparr>" using f by simp
    have "b \<notin> set (ps_copying (pl_sys p))" using distinct_work [OF p(2) J] p(1) by auto
    moreover have "b \<in> set (jb_blocks J)" using invD(3) [OF p(2)] p(1) by blast
    ultimately have "job_inv J q" using p ns by (auto simp: q job_inv_def)
    moreover have "guar_copier J p q" using p(1)
      by (auto simp: q guar_copier_def guar_def later_def keeps_regions_def opens_blank_def)
    moreover have "at_blocks J bs q" using p(1) by (auto simp: q at_blocks_def fresh_def)
    ultimately show "guar_copier J p q \<and> job_inv J q \<and> at_blocks J bs q" by blast
  qed (rule k)
  then show ?thesis unfolding do_pullStarted_def
  proof (intro sat_act [where P' = "\<lambda>_. ?sent", OF ownsD(2) [OF copier_owns [OF J]]])
    fix p x q
    assume p: "at_block J b bs p" "job_inv J p"
      and f: "((), p\<lparr>pl_sys := (pl_sys p)\<lparr>ps_state := pullStarted (be_now E (pl_world p)) (pl_state p),
         ps_copying := remove1 b (ps_copying (pl_sys p)), ps_pulling := b # ps_pulling (pl_sys p)\<rparr>\<rparr>) = (x, q)"
    define \<sigma> where "\<sigma> = (pl_sys p)\<lparr>ps_state := pullStarted (be_now E (pl_world p)) (pl_state p),
         ps_copying := remove1 b (ps_copying (pl_sys p)), ps_pulling := b # ps_pulling (pl_sys p)\<rparr>"
    have b: "ps_copying (pl_sys p) = b # bs" using p(1) by (simp add: at_block_def)
    have q: "q = p\<lparr>pl_sys := \<sigma>\<rparr>" using f by (simp add: \<sigma>_def)
    have st: "sp_writer (ps_state \<sigma>) = sp_writer (pl_state p)" "sp_closed (ps_state \<sigma>) = sp_closed (pl_state p)"
      "sp_err (ps_state \<sigma>) = sp_err (pl_state p)" by (simp_all add: \<sigma>_def pullStarted_def)
    have step: "pull_step (be_codec E) (pl_sys p) \<sigma>" unfolding \<sigma>_def by (rule step_pullStarted) (simp add: b)
    have "job_inv J q" unfolding q
      by (rule inv_state [OF p(2) step]) (use st b invD(2) [OF p(2)] in \<open>auto simp: \<sigma>_def\<close>)
    moreover have "guar J B p q" for B unfolding q by (rule guar_state) (use st in auto)
    moreover have "b \<notin> set (pl_pullChan p)" using p(2) b by (auto simp: job_inv_def)
    ultimately show "guar_copier J p q \<and> job_inv J q \<and> ?sent q" using p(1) st b
      by (auto simp: guar_copier_def q \<sigma>_def at_block_def fresh_def)
  qed
qed

lemma stable_at_blocks: "stable (rely_copier J) (job_inv J) (at_blocks J bs)"
  unfolding stable_def
proof (intro allI impI)
  fix p q assume p: "at_blocks J bs p" and r: "rely_copier J p q"
  have "fresh J bs q" by (rule fresh_rely [OF _ r]) (use p in \<open>auto simp: at_blocks_def\<close>)
  then show "at_blocks J bs q" using p r by (auto simp: at_blocks_def rely_copier_def)
qed

lemma copier_sparse:
  assumes J: "job_ok J" and k: "copier_sat J (settled_block J b bs) k"
  shows "copier_sat J (settled_block J b bs) (do_sparse E k)"
  unfolding do_sparse_def
proof (rule sat_act [where P' = "\<lambda>_. settled_block J b bs", OF stable_settled [OF J]])
  fix p x q
  assume p: "settled_block J b bs p" "job_inv J p" and f: "((), on_state (skippedSparseBlock (be_now E (pl_world p))) p) = (x, q)"
  have q: "quiet_step J b p q \<and> job_inv J q" using sparse_step [OF p(2)] f by auto
  then have "guar_copier J p q \<and> at_block J b bs q" using ownsD(4) [OF copier_owns [OF J, of b bs] _ p(2)] p(1) unfolding settled_block_def by blast
  then show "guar_copier J p q \<and> job_inv J q \<and> settled_block J b bs q" using q f p(1)
    by (auto simp: settled_block_def on_state_def skippedSparseBlock_def)
qed (rule k)

lemma copier_blocks_sat:
  assumes J: "job_ok J" and st: "sp_reused st = int (length (jb_reused J))"
  shows "copier_sat J (at_blocks J bs) (copier_blocks (jb_E J) st SendOut bs)"
proof (induction bs)
  case Nil
  show ?case by (simp, rule sat_weaken [OF copier_SendOut]) (simp add: at_blocks_def copier_done_def)
next
  case (Cons b bs)
  note o = copier_owns [OF J, of b bs]
  have at: "at_block J b bs p" if "at_blocks J (b # bs) p" for p
    using that by (auto simp: at_blocks_def at_block_def fresh_def)
  have block: "copier_sat J (at_block J b bs) (copyBlock (jb_E J) st b (\<lambda>ok.
      if ok then do_copyDone (jb_E J) b (copier_blocks (jb_E J) st SendOut bs)
      else ask_failed (\<lambda>failed. if failed then SendOut
        else do_pullStarted (jb_E J) b (do_send b (copier_blocks (jb_E J) st SendOut bs)))))" if ns: "\<not> skippable J b"
  proof (rule sat_copyBlock [OF o])
    have "copier_sat J (has_block J b (at_block J b bs)) (do_copyDone (jb_E J) b (copier_blocks (jb_E J) st SendOut bs))"
      unfolding sat_def
    proof (intro allI impI)
      fix p assume p: "has_block J b (at_block J b bs) p" "job_inv J p"
      have "b \<in> set (jb_blocks J)" using invD(3) [OF p(2)] p(1) by (auto simp: has_block_def at_block_def)
      then have "settled_block J b bs p" using p(1) laid_outD(2) [OF J job_blocks [OF J]] by (force simp: has_block_def settled_block_def)
      then show "safe (rely_copier J) (guar_copier J) (job_inv J) copier_done (do_copyDone (jb_E J) b (copier_blocks (jb_E J) st SendOut bs)) p"
        by (rule satD [OF copier_copyDone [OF J Cons] _ p(2)])
    qed
    then show "copier_sat J (has_block J b (at_block J b bs)) (if True then do_copyDone (jb_E J) b (copier_blocks (jb_E J) st SendOut bs)
      else ask_failed (\<lambda>failed. if failed then SendOut
        else do_pullStarted (jb_E J) b (do_send b (copier_blocks (jb_E J) st SendOut bs))))" by simp
    have "copier_sat J (at_block J b bs) (ask_failed (\<lambda>failed. if failed then SendOut
        else do_pullStarted (jb_E J) b (do_send b (copier_blocks (jb_E J) st SendOut bs))))"
      by (rule sat_ask_failed [OF o]) (use copier_failed_SendOut copier_hand_over [OF J Cons ns] in auto)
    then show "copier_sat J (at_block J b bs) (if False then do_copyDone (jb_E J) b (copier_blocks (jb_E J) st SendOut bs)
      else ask_failed (\<lambda>failed. if failed then SendOut
        else do_pullStarted (jb_E J) b (do_send b (copier_blocks (jb_E J) st SendOut bs))))" by simp
  qed
  have zero: "copier_sat J (at_blocks J (b # bs)) (do_copyDone (jb_E J) b (copier_blocks (jb_E J) st SendOut bs))" if "bi_Size b = 0"
    by (rule sat_weaken [OF copier_copyDone [OF J Cons]]) (use that at in \<open>simp add: settled_block_def\<close>)
  have z: "zero_hashes (be_sha256 (jb_E J))" using J by (simp add: job_ok_def)
  have skip: "copier_sat J (at_blocks J (b # bs)) (do_sparse (jb_E J) (do_copyDone (jb_E J) b (copier_blocks (jb_E J) st SendOut bs)))"
    if s: "skippable J b"
    by (rule sat_weaken [OF copier_sparse [OF J copier_copyDone [OF J Cons]]])
      (use s at blank_stored [OF z] in \<open>auto simp: settled_block_def at_blocks_def fresh_def skippable_def\<close>)
  have sk: "skippable J b \<longleftrightarrow> \<not> be_DisableSparseFiles (jb_E J) \<and> sp_reused st = 0 \<and> BlockInfo_IsEmpty b"
    by (simp add: skippable_def st)
  have fail: "copier_sat J (at_blocks J (b # bs)) (do_fail e SendOut)" for e
    by (rule sat_weaken [OF sat_do_fail [OF o copier_failed_SendOut] at])
  show ?case unfolding copier_blocks.simps
    by (rule sat_ask [OF stable_at_blocks guar_copier_refl])
      (auto simp del: copier_blocks.simps simp: sk [symmetric] intro!: zero skip fail sat_weaken [OF block at] split: option.split)
qed

text \<open>A job with no blocks to do only opens the temporary file.\<close>

definition no_blocks :: "'w pulling \<Rightarrow> bool" where
  "no_blocks p \<longleftrightarrow> ps_copying (pl_sys p) = [] \<and> ps_pulling (pl_sys p) = [] \<and> pl_pullChan p = [] \<and> pl_out p = 0"

lemma copier_no_blocks:
  assumes J: "job_ok J"
  shows "copier_sat J no_blocks (do_tempFile (jb_E J) (\<lambda>err. case err of Some e \<Rightarrow> do_fail e SendOut | None \<Rightarrow> SendOut))"
proof -
  have fail: "copier_sat J (\<lambda>p. copier_done p \<and> ps_copying (pl_sys p) = []) (do_fail e SendOut)" for e
    unfolding do_fail_def
  proof (rule sat_act [where P' = "\<lambda>_. copier_done"])
    fix p x q assume p: "copier_done p \<and> ps_copying (pl_sys p) = []" "job_inv J p" and f: "((), on_state (puller_fail (Some e)) p) = (x, q)"
    have "guar J B p q" for B using f guar_state [of "(pl_sys p)\<lparr>ps_state := puller_fail (Some e) (pl_state p)\<rparr>" p J B]
      by (auto simp: on_state_def)
    then show "guar_copier J p q \<and> job_inv J q \<and> copier_done q" using fail_step [OF p(2)] f p(1)
      by (auto simp: guar_copier_def on_state_def copier_done_def)
  next
    show "stable (rely_copier J) (job_inv J) (\<lambda>p. copier_done p \<and> ps_copying (pl_sys p) = [])"
      by (auto simp: stable_def copier_done_def rely_copier_def later_def)
  qed (rule copier_SendOut)
  show ?thesis unfolding do_tempFile_def
  proof (rule sat_act [where P' = "\<lambda>x p. x \<noteq> Some Panic \<and> copier_done p \<and> ps_copying (pl_sys p) = []"])
    show "stable (rely_copier J) (job_inv J) no_blocks" by (auto simp: stable_def no_blocks_def rely_copier_def)
  next
    fix p x q assume p: "no_blocks p" "job_inv J p" and op: "op_tempFile (jb_E J) p = (x, q)"
    have "\<not> sp_closed (pl_state p)" using p by (auto simp: no_blocks_def job_inv_def)
    then show "guar_copier J p q \<and> job_inv J q \<and> x \<noteq> Some Panic \<and> copier_done q \<and> ps_copying (pl_sys q) = []"
      using op_tempFile_ok [OF op p(2) J, of "{}"] p(1) by (auto simp: guar_copier_def no_blocks_def copier_done_def)
  next
    show "copier_sat J (\<lambda>p. x \<noteq> Some Panic \<and> copier_done p \<and> ps_copying (pl_sys p) = [])
        (case x of None \<Rightarrow> (case None of None \<Rightarrow> SendOut | Some e \<Rightarrow> do_fail e SendOut)
         | Some (Err e) \<Rightarrow> (case Some e of None \<Rightarrow> SendOut | Some e \<Rightarrow> do_fail e SendOut) | Some Panic \<Rightarrow> SendOut)" for x
      by (auto split: option.split exc.split intro: sat_weaken [OF copier_SendOut] sat_weaken [OF fail])
  qed
qed

section \<open>The tasks among each other\<close>

lemma guar_copier_rely:
  assumes "guar_copier J p q" and "job_inv J p" and "b \<in> set (pl_pullChan p)"
  shows "rely_puller b p q"
proof -
  have "b \<in> set (jb_blocks J) - set (ps_copying (pl_sys p))" using assms(2,3) by (auto simp: job_inv_def)
  then show ?thesis using assms(1) by (auto simp: guar_copier_def guar_def rely_puller_def intro: keeps_regions_mono)
qed

lemma guar_puller_rely:
  assumes "guar_puller J b p q" and "job_inv J p" and "b \<in> set (pl_pullChan p)"
  shows "rely_copier J p q"
proof -
  have "set (ps_copying (pl_sys p)) \<subseteq> set (jb_blocks J) - {b}" using assms(2,3) invD(3) [OF assms(2)] by (auto simp: job_inv_def)
  then show ?thesis using assms(1,3)
    by (auto simp: guar_puller_def guar_def rely_copier_def intro: keeps_regions_mono opens_blank_mono)
qed

lemma guar_puller_other:
  assumes "guar_puller J b p q" and "job_inv J p" and "d \<in> set (pl_pullChan p)" and "b \<noteq> d"
  shows "rely_puller d p q"
proof -
  have "d \<in> set (jb_blocks J) - {b}" using assms(2,3,4) by (auto simp: job_inv_def)
  then show ?thesis using assms(1,4) by (auto simp: guar_puller_def guar_def rely_puller_def intro: keeps_regions_mono)
qed

section \<open>The finisher\<close>

lemma finalClose_result:
  assumes i: "job_inv J p" and J: "job_ok J" and f: "finalClose (be_codec (jb_E J)) fsys (pl_state p) = r" and w: "fsys = be_fs (jb_E J) (pl_world p)"
  shows "\<exists>calls closed err s. r = Some (calls, (closed, err), s) \<and>
    (if closed then \<not> sp_closed (pl_state p) \<and> (sp_err (pl_state p) = None \<longrightarrow> sp_pullNeeded (pl_state p) + sp_copyNeeded (pl_state p) = 0) \<and>
       sp_closed s \<and> err = sp_err s \<and> fixed J s \<and> (sp_err s = None \<longrightarrow> sp_err (pl_state p) = None) \<and>
       (sp_err (pl_state p) = None \<longrightarrow> content_ok J (ps_finished (pl_sys p)) (temp_calls fsys calls (pl_temp p)))
     else s = pl_state p \<and> temp_calls fsys calls (pl_temp p) = pl_temp p \<and>
       (err = None \<longrightarrow> sp_closed (pl_state p) \<or> sp_pullNeeded (pl_state p) + sp_copyNeeded (pl_state p) \<noteq> 0 \<and> sp_err (pl_state p) = None))"
proof (cases "sp_closed (pl_state p) \<or> sp_pullNeeded (pl_state p) + sp_copyNeeded (pl_state p) \<noteq> 0 \<and> sp_err (pl_state p) = None")
  case True
  then have "finalClose (be_codec (jb_E J)) fsys (pl_state p) = Some ([], (False, None), pl_state p)" by (auto simp: finalClose_def)
  then show ?thesis using True f
    by (intro exI [of _ "[]"] exI [of _ False] exI [of _ None] exI [of _ "pl_state p"]) auto
next
  case False
  have fx: "sp_file (pl_state p) = jb_file J" "sp_reused (pl_state p) = int (length (jb_reused J))" "sp_sparse (pl_state p) = jb_sparse J"
    using invD(2) [OF i] J by (auto simp: fixed_def job_ok_def)
  have enc: "fi_Encrypted (jb_file J) = []" "\<not> IsSymlink (jb_file J)" "jb_sparse J \<longrightarrow> o_Truncate fsys = None"
    using J w by (auto simp: job_ok_def)
  obtain calls1 e1 s1 where a: "(if sp_writer (pl_state p) then ([], None, pl_state p)
      else addWriterLocked (protoSize (be_codec (jb_E J))) fsys (pl_state p)) = (calls1, e1, s1)"
    by (metis prod_cases3)
  have open_: "if e1 = None then s1 = (pl_state p)\<lparr>sp_writer := True\<rparr> \<and>
      (if sp_writer (pl_state p) then temp_calls fsys calls1 (pl_temp p) = pl_temp p
       else sp_err (pl_state p) = None \<longrightarrow> temp_calls fsys calls1 (pl_temp p) = opened J)
    else s1 = pl_state p \<and> temp_calls fsys calls1 (pl_temp p) = pl_temp p \<and> e1 \<noteq> Some Panic"
  proof (cases "sp_writer (pl_state p)")
    case True
    then show ?thesis using a by auto
  next
    case nw: False
    then have "addWriterLocked (protoSize (be_codec (jb_E J))) fsys (pl_state p) = (calls1, e1, s1)" using a by simp
    note t = addWriterLocked_temp [OF this, unfolded fx, OF enc, of "pl_temp p"]
    have "sp_err (pl_state p) = None \<Longrightarrow> pl_temp p = jb_temp J" using i nw False by (simp add: job_inv_def)
    then show ?thesis using t nw by (auto simp: opened_def Let_def split: if_splits)
  qed
  show ?thesis
  proof (cases e1)
    case (Some x)
    then obtain e where "x = Err e" using open_ by (cases x) auto
    then have "finalClose (be_codec (jb_E J)) fsys (pl_state p) = Some (calls1, (False, Some e), s1)"
      using False a Some by (auto simp: finalClose_def)
    then show ?thesis using f open_ Some
      by (intro exI [of _ calls1] exI [of _ False] exI [of _ "Some e"] exI [of _ s1]) simp
  next
    case None
    then have s1: "s1 = (pl_state p)\<lparr>sp_writer := True\<rparr>" using open_ by simp
    define s where "s = (keepFirst (o_Close fsys) s1)\<lparr>sp_writer := False, sp_closed := True\<rparr>"
    define calls where "calls = calls1 @ (if sp_fsync s1 then [CallSync] else []) @ [CallClose] @ [CallUnhide (sp_tempName s)]"
    have r: "finalClose (be_codec (jb_E J)) fsys (pl_state p) = Some (calls, (True, sp_err s), s)"
    proof -
      have nc: "\<not> sp_closed (pl_state p)" "\<not> (sp_pullNeeded (pl_state p) + sp_copyNeeded (pl_state p) \<noteq> 0 \<and> sp_err (pl_state p) = None)"
        using False by blast+
      have k: "keepFirst None t = t" for t by (simp add: keepFirst_def)
      have e: "fi_Encrypted (sp_file s1) = []" by (simp add: s1 fx enc)
      show ?thesis unfolding finalClose_def if_not_P [OF nc(1)] if_not_P [OF nc(2)] a None
        by (simp add: e k Let_def s_def calls_def)
    qed
    have t: "temp_calls fsys calls (pl_temp p) = temp_calls fsys calls1 (pl_temp p)"
      by (auto simp: calls_def temp_calls_append)
    have c: "content_ok J (ps_finished (pl_sys p)) (temp_calls fsys calls1 (pl_temp p))" if e: "sp_err (pl_state p) = None"
    proof (cases "sp_writer (pl_state p)")
      case True
      then show ?thesis using i e open_ None by (simp add: job_inv_def)
    next
      case nw: False
      then have "\<forall>b\<in>set (ps_finished (pl_sys p)). bi_Size b = 0 \<or> skippable J b" using i e False by (simp add: job_inv_def)
      then show ?thesis using opened_ok [OF J _ invD(4) [OF i]] open_ None nw e by simp
    qed
    have "fixed J s" "sp_closed s" "sp_err s = None \<longrightarrow> sp_err (pl_state p) = None"
      using invD(2) [OF i] by (auto simp: s_def s1 fixed_def keepFirst_def)
    moreover have "sp_err (pl_state p) = None \<longrightarrow> sp_pullNeeded (pl_state p) + sp_copyNeeded (pl_state p) = 0" "\<not> sp_closed (pl_state p)"
      using False by auto
    ultimately show ?thesis using r f t c
      by (intro exI [of _ calls] exI [of _ True] exI [of _ "sp_err s"] exI [of _ s]) simp
  qed
qed

lemma op_finalClose_ok:
  assumes i: "job_inv J p" and J: "job_ok J" and o: "length (pl_closing p) < pl_out p" and q: "q = op_finalClose (jb_E J) p"
  shows "job_inv J q \<and> rely_copier J p q \<and> rely_puller b p q \<and> ps_copying (pl_sys q) = ps_copying (pl_sys p) \<and>
    ps_pulling (pl_sys q) = ps_pulling (pl_sys p) \<and> ps_finished (pl_sys q) = ps_finished (pl_sys p) \<and> pl_pullChan q = pl_pullChan p \<and> pl_out q = pl_out p \<and>
    (\<exists>closed err. pl_closing q = pl_closing p @ [(closed, err)] \<and>
       (closed \<longrightarrow> sp_closed (pl_state q) \<and> err = sp_err (pl_state q)) \<and>
       (\<not> closed \<and> err = None \<longrightarrow> sp_closed (pl_state q) \<or> sp_pullNeeded (pl_state p) + sp_copyNeeded (pl_state p) \<noteq> 0 \<and> sp_err (pl_state p) = None))"
proof -
  define fsys where "fsys = be_fs (jb_E J) (pl_world p)"
  obtain calls closed err s where f: "finalClose (be_codec (jb_E J)) fsys (pl_state p) = Some (calls, (closed, err), s)"
    and r: "if closed then \<not> sp_closed (pl_state p) \<and> (sp_err (pl_state p) = None \<longrightarrow> sp_pullNeeded (pl_state p) + sp_copyNeeded (pl_state p) = 0) \<and>
       sp_closed s \<and> err = sp_err s \<and> fixed J s \<and> (sp_err s = None \<longrightarrow> sp_err (pl_state p) = None) \<and>
       (sp_err (pl_state p) = None \<longrightarrow> content_ok J (ps_finished (pl_sys p)) (temp_calls fsys calls (pl_temp p)))
     else s = pl_state p \<and> temp_calls fsys calls (pl_temp p) = pl_temp p \<and>
       (err = None \<longrightarrow> sp_closed (pl_state p) \<or> sp_pullNeeded (pl_state p) + sp_copyNeeded (pl_state p) \<noteq> 0 \<and> sp_err (pl_state p) = None)"
    using finalClose_result [OF i J refl fsys_def] by blast
  define \<sigma> where "\<sigma> = (pl_sys p)\<lparr>ps_state := s, ps_closes := ps_closes (pl_sys p) + (if closed then 1 else 0)\<rparr>"
  have q: "q = p\<lparr>pl_sys := \<sigma>, pl_temp := temp_calls fsys calls (pl_temp p), pl_closing := pl_closing p @ [(closed, err)]\<rparr>"
    using f unfolding q op_finalClose_def Let_def fsys_def \<sigma>_def by simp
  have "pull_step (be_codec (jb_E J)) (pl_sys p) \<sigma>" unfolding \<sigma>_def by (rule step_finalClose [OF f])
  then have pi: "pull_inv (jb_reused J) (jb_blocks J) (jb_file J) \<sigma>" by (rule pull_inv_step [OF _ invD(1) [OF i]])
  show ?thesis
  proof (cases closed)
    case True
    then have r: "\<not> sp_closed (pl_state p)" "sp_closed s" "err = sp_err s" "fixed J s" "sp_err s = None \<Longrightarrow> sp_err (pl_state p) = None"
      "sp_err (pl_state p) = None \<Longrightarrow> content_ok J (ps_finished (pl_sys p)) (temp_calls fsys calls (pl_temp p))"
      using r by simp_all
    have s: "ps_state \<sigma> = s" "ps_copying \<sigma> = ps_copying (pl_sys p)" "ps_finished \<sigma> = ps_finished (pl_sys p)" "ps_pulling \<sigma> = ps_pulling (pl_sys p)"
      by (simp_all add: \<sigma>_def)
    have "job_inv J q" using i pi o r unfolding q job_inv_def by (simp add: s)
    then show ?thesis using r True unfolding q rely_copier_def rely_puller_def later_def keeps_regions_def opens_blank_def
      by (auto simp: s)
  next
    case False
    then have r: "s = pl_state p" "temp_calls fsys calls (pl_temp p) = pl_temp p"
      "err = None \<Longrightarrow> sp_closed (pl_state p) \<or> sp_pullNeeded (pl_state p) + sp_copyNeeded (pl_state p) \<noteq> 0 \<and> sp_err (pl_state p) = None"
      using r by simp_all
    have \<sigma>: "\<sigma> = pl_sys p" using False r by (simp add: \<sigma>_def)
    have "job_inv J q" using i o unfolding q job_inv_def \<sigma> r(2) by simp
    then show ?thesis using r(3) False unfolding q \<sigma> r(2) rely_copier_def rely_puller_def later_def keeps_regions_def opens_blank_def
      by auto
  qed
qed

section \<open>All runs\<close>

text \<open>What is left to happen, and how it has ended when nothing is.\<close>

definition pending :: "'w pull_run \<Rightarrow> bool" where
  "pending r \<longleftrightarrow> pr_copier r \<noteq> None \<or> length (pr_pullers r) < length (pl_pullChan (pr_state r)) \<or>
     (\<exists>t\<in>set (pr_pullers r). t \<noteq> None) \<or> length (pl_closing (pr_state r)) < pl_out (pr_state r)"

definition reported :: "'w pulling \<Rightarrow> bool" where
  "reported p \<longleftrightarrow> sp_closed (pl_state p) \<or> (\<exists>e. pl_closing p \<noteq> [] \<and> last (pl_closing p) = (False, Some e))"

definition copier_ok :: "'w pull_job \<Rightarrow> 'w task option \<Rightarrow> 'w pulling \<Rightarrow> bool" where
  "copier_ok J t p \<longleftrightarrow> (case t of Some t' \<Rightarrow> safe (rely_copier J) (guar_copier J) (job_inv J) copier_done t' p | None \<Rightarrow> copier_done p)"

definition puller_ok :: "'w pull_job \<Rightarrow> BlockInfo \<Rightarrow> 'w task option \<Rightarrow> 'w pulling \<Rightarrow> bool" where
  "puller_ok J b t p \<longleftrightarrow>
     (case t of Some t' \<Rightarrow> safe (rely_puller b) (guar_puller J b) (job_inv J) (puller_done b) t' p | None \<Rightarrow> puller_done b p)"

definition run_inv :: "'w pull_job \<Rightarrow> 'w pull_run \<Rightarrow> bool" where
  "run_inv J r \<longleftrightarrow> job_inv J (pr_state r) \<and> copier_ok J (pr_copier r) (pr_state r) \<and>
     length (pr_pullers r) \<le> length (pl_pullChan (pr_state r)) \<and>
     (\<forall>i<length (pr_pullers r). puller_ok J (pl_pullChan (pr_state r) ! i) (pr_pullers r ! i) (pr_state r)) \<and>
     (\<forall>i<length (pl_pullChan (pr_state r)). length (pr_pullers r) \<le> i \<longrightarrow> pl_pullChan (pr_state r) ! i \<in> set (ps_pulling (pl_sys (pr_state r)))) \<and>
     (reported (pr_state r) \<or> pending r)"

lemma copier_ok_rely: "copier_ok J t p \<Longrightarrow> rely_copier J p q \<Longrightarrow> copier_ok J t q"
  unfolding copier_ok_def
  by (auto split: option.splits intro: safe_R rely_copier_trans) (auto simp: copier_done_def rely_copier_def later_def)

lemma puller_ok_rely: "puller_ok J b t p \<Longrightarrow> rely_puller b p q \<Longrightarrow> puller_ok J b t q"
  unfolding puller_ok_def
  by (auto split: option.splits intro: safe_R rely_puller_trans) (auto simp: puller_done_def rely_puller_def later_def)

lemma rely_refl [simp]: "rely_copier J p p" "rely_puller b p p"
  by (auto simp: rely_copier_def rely_puller_def later_def opens_blank_def)

lemma copier_ok_step:
  assumes "copier_ok J (Some (Step u k)) p" and "job_inv J p"
  shows "guar_copier J p (u p) \<and> job_inv J (u p) \<and> copier_ok J (Some (k p)) (u p)"
  using assms by (auto simp: copier_ok_def elim!: safe_StepE)

lemma puller_ok_step:
  assumes "puller_ok J b (Some (Step u k)) p" and "job_inv J p"
  shows "guar_puller J b p (u p) \<and> job_inv J (u p) \<and> puller_ok J b (Some (k p)) (u p)"
  using assms by (auto simp: puller_ok_def elim!: safe_StepE)

lemma ok_out:
  "copier_ok J (Some SendOut) p \<Longrightarrow> job_inv J p \<Longrightarrow> copier_done p"
  "puller_ok J b (Some SendOut) p \<Longrightarrow> job_inv J p \<Longrightarrow> puller_done b p"
  by (auto simp: copier_ok_def puller_ok_def elim!: safe_SendOutE)

lemma chan_distinct:
  assumes "job_inv J p" and "i < length (pl_pullChan p)" and "j < length (pl_pullChan p)" and "i \<noteq> j"
  shows "pl_pullChan p ! i \<noteq> pl_pullChan p ! j"
  using assms nth_eq_iff_index_eq by (fastforce simp: job_inv_def)

lemma run_inv_frame:
  assumes r: "run_inv J r" and i: "job_inv J q"
    and c: "copier_ok J c q" and ch: "pl_pullChan q = pl_pullChan (pr_state r) @ new" "set new \<subseteq> set (ps_pulling (pl_sys q))"
    and rel: "\<And>i. i < length (pl_pullChan (pr_state r)) \<Longrightarrow> rely_puller (pl_pullChan (pr_state r) ! i) (pr_state r) q"
    and e: "reported q \<or> pending (r\<lparr>pr_state := q, pr_copier := c\<rparr>)"
  shows "run_inv J (r\<lparr>pr_state := q, pr_copier := c\<rparr>)"
proof -
  let ?ch = "pl_pullChan (pr_state r)"
  have "puller_ok J (pl_pullChan q ! i) (pr_pullers r ! i) q" if "i < length (pr_pullers r)" for i
  proof -
    have l: "i < length ?ch" using r that by (simp add: run_inv_def)
    then have "puller_ok J (?ch ! i) (pr_pullers r ! i) q" using r that puller_ok_rely [OF _ rel [OF l]] by (simp add: run_inv_def)
    then show ?thesis using l by (simp add: ch nth_append)
  qed
  moreover have "pl_pullChan q ! i \<in> set (ps_pulling (pl_sys q))" if "i < length (pl_pullChan q)" "length (pr_pullers r) \<le> i" for i
  proof (cases "i < length ?ch")
    case True
    then have "?ch ! i \<in> set (ps_pulling (pl_sys (pr_state r)))" using r that by (simp add: run_inv_def)
    then show ?thesis using rel [OF True] True by (simp add: ch nth_append rely_puller_def)
  next
    case False
    then show ?thesis using that ch by (auto simp: nth_append)
  qed
  ultimately show ?thesis using r i c e by (simp add: run_inv_def ch)
qed

lemma run_inv_puller:
  assumes r: "run_inv J r" and i: "job_inv J q" and n: "n < length (pr_pullers r)" and t: "puller_ok J (pl_pullChan (pr_state r) ! n) t q"
    and ch: "pl_pullChan q = pl_pullChan (pr_state r)" and rel: "rely_copier J (pr_state r) q"
    and others: "\<And>i. i < length (pl_pullChan (pr_state r)) \<Longrightarrow> i \<noteq> n \<Longrightarrow> rely_puller (pl_pullChan (pr_state r) ! i) (pr_state r) q"
    and e: "reported q \<or> pending (r\<lparr>pr_state := q, pr_pullers := (pr_pullers r)[n := t]\<rparr>)"
  shows "run_inv J (r\<lparr>pr_state := q, pr_pullers := (pr_pullers r)[n := t]\<rparr>)"
proof -
  let ?ch = "pl_pullChan (pr_state r)"
  have "puller_ok J (?ch ! i) ((pr_pullers r)[n := t] ! i) q" if "i < length (pr_pullers r)" for i
  proof (cases "i = n")
    case False
    then show ?thesis using r that puller_ok_rely [OF _ others [of i]] by (simp add: run_inv_def)
  qed (use t n in simp)
  moreover have "?ch ! i \<in> set (ps_pulling (pl_sys q))" if "i < length ?ch" "length (pr_pullers r) \<le> i" for i
    using others [of i] r that n by (auto simp: run_inv_def rely_puller_def)
  moreover have "copier_ok J (pr_copier r) q" using r copier_ok_rely [OF _ rel] by (simp add: run_inv_def)
  ultimately show ?thesis using r i e by (simp add: run_inv_def ch)
qed

lemma out_step [simp]:
  "job_inv J p \<Longrightarrow> job_inv J (p\<lparr>pl_out := Suc (pl_out p)\<rparr>)" "rely_puller b p (p\<lparr>pl_out := n\<rparr>)"
  "pl_pullChan p \<noteq> [] \<Longrightarrow> rely_copier J p (p\<lparr>pl_out := n\<rparr>)"
  "copier_done (p\<lparr>pl_out := n\<rparr>) = copier_done p" "puller_done b (p\<lparr>pl_out := n\<rparr>) = puller_done b p"
  by (auto simp: job_inv_def rely_puller_def rely_copier_def later_def keeps_regions_def opens_blank_def copier_done_def puller_done_def)

lemma quiet_end:
  assumes r: "run_inv J r" and c: "pr_copier r = None" and t: "\<forall>t\<in>set (pr_pullers r). t = None"
    and l: "length (pl_pullChan (pr_state r)) \<le> length (pr_pullers r)" and e: "sp_err (pl_state (pr_state r)) = None"
  shows "sp_pullNeeded (pl_state (pr_state r)) + sp_copyNeeded (pl_state (pr_state r)) = 0"
proof -
  have "pl_pullChan (pr_state r) ! i \<notin> set (ps_pulling (pl_sys (pr_state r)))" if "i < length (pl_pullChan (pr_state r))" for i
  proof -
    have n: "i < length (pr_pullers r)" using that l by simp
    then have "pr_pullers r ! i = None" using t nth_mem by blast
    then have "puller_ok J (pl_pullChan (pr_state r) ! i) None (pr_state r)" using r n by (metis run_inv_def)
    then show ?thesis using e by (simp add: puller_ok_def puller_done_def)
  qed
  then have "set (ps_pulling (pl_sys (pr_state r))) \<inter> set (pl_pullChan (pr_state r)) = {}" by (metis disjoint_iff in_set_conv_nth)
  moreover have "copier_done (pr_state r)" using r c by (simp add: run_inv_def copier_ok_def)
  then have "ps_copying (pl_sys (pr_state r)) = []" "set (ps_pulling (pl_sys (pr_state r))) \<subseteq> set (pl_pullChan (pr_state r))"
    using e by (auto simp: copier_done_def)
  ultimately have "ps_copying (pl_sys (pr_state r)) = []" "ps_pulling (pl_sys (pr_state r)) = []" by (metis Int_absorb2 set_empty)+
  then show ?thesis using r by (simp add: run_inv_def job_inv_def pull_inv_def Let_def)
qed

lemma run_inv_step:
  assumes r: "run_inv J r" and J: "job_ok J" and s: "run_step (jb_E J) (jb_st J) r r'"
  shows "run_inv J r'"
proof -
  have i: "job_inv J (pr_state r)" and c: "copier_ok J (pr_copier r) (pr_state r)" using r by (auto simp: run_inv_def)
  have mem: "i < length (pl_pullChan (pr_state r)) \<Longrightarrow> pl_pullChan (pr_state r) ! i \<in> set (pl_pullChan (pr_state r))" for i by simp
  show ?thesis using s
  proof (cases rule: run_step.cases)
    case (run_copier u k)
    note g = copier_ok_step [OF c [unfolded run_copier(2)] i]
    obtain new where "pl_pullChan (u (pr_state r)) = pl_pullChan (pr_state r) @ new" "set new \<subseteq> set (ps_pulling (pl_sys (u (pr_state r))))"
      using g by (force simp: guar_copier_def)
    then show ?thesis unfolding run_copier(1)
      by (intro run_inv_frame [OF r]) (use g guar_copier_rely [OF _ i] in \<open>auto simp: pending_def\<close>)
  next
    case run_copier_out
    have "copier_ok J None ((pr_state r)\<lparr>pl_out := pl_out (pr_state r) + 1\<rparr>)"
      using ok_out(1) [OF c [unfolded run_copier_out(2)] i] by (simp add: copier_ok_def)
    then show ?thesis unfolding run_copier_out(1)
      by (intro run_inv_frame [OF r, of _ _ "[]"]) (use i in \<open>auto simp: pending_def job_inv_def\<close>)
  next
    case run_receive
    let ?b = "pl_pullChan (pr_state r) ! length (pr_pullers r)"
    have "held ?b (pr_state r)" "\<not> skippable J ?b" using r run_receive(2) i by (auto simp: held_def run_inv_def job_inv_def)
    moreover have "sp_reused (jb_st J) = int (length (jb_reused J))" using J by (simp add: job_ok_def)
    ultimately have "puller_ok J ?b (Some (pullerRoutine (jb_E J) (jb_st J) ?b)) (pr_state r)"
      using satD [OF puller_pullerRoutine [OF J] _ i] by (simp add: puller_ok_def)
    then show ?thesis using r run_receive(2) unfolding run_receive(1) by (auto simp: run_inv_def nth_append less_Suc_eq pending_def)
  next
    case (run_puller n u k)
    let ?b = "pl_pullChan (pr_state r) ! n"
    have l: "n < length (pl_pullChan (pr_state r))" using r run_puller(2) by (simp add: run_inv_def)
    have "puller_ok J ?b (Some (Step u k)) (pr_state r)" using r run_puller(2,3) by (metis run_inv_def)
    note g = puller_ok_step [OF this i]
    have oth: "rely_puller (pl_pullChan (pr_state r) ! m) (pr_state r) (u (pr_state r))" if "m < length (pl_pullChan (pr_state r))" "m \<noteq> n" for m
      using guar_puller_other [OF _ i mem [OF that(1)]] g chan_distinct [OF i l that(1)] that(2) by blast
    show ?thesis unfolding run_puller(1)
      by (rule run_inv_puller [OF r])
        (use g run_puller(2) oth guar_puller_rely [OF _ i mem [OF l]] in \<open>auto simp: pending_def guar_puller_def intro: set_update_memI\<close>)
  next
    case (run_puller_out n)
    let ?b = "pl_pullChan (pr_state r) ! n"
    have l: "n < length (pl_pullChan (pr_state r))" using r run_puller_out(2) by (simp add: run_inv_def)
    have "puller_ok J ?b (Some SendOut) (pr_state r)" using r run_puller_out(2,3) by (metis run_inv_def)
    then have d: "puller_done ?b (pr_state r)" using ok_out(2) i by blast
    have ne: "pl_pullChan (pr_state r) \<noteq> []" using l by auto
    show ?thesis unfolding run_puller_out(1)
      by (rule run_inv_puller [OF r])
        (use run_puller_out(2) d ne i in \<open>auto simp: puller_ok_def pending_def, auto simp: job_inv_def\<close>)
  next
    case run_finisher
    define q where "q = op_finalClose (jb_E J) (pr_state r)"
    note f = op_finalClose_ok [OF i J run_finisher(2) q_def]
    have "copier_ok J (pr_copier r) q" using copier_ok_rely [OF c] f by blast
    moreover have "reported q \<or> pending (r\<lparr>pr_state := q, pr_copier := pr_copier r\<rparr>)"
    proof (cases "pr_copier r = None \<and> (\<forall>t\<in>set (pr_pullers r). t = None) \<and> length (pl_pullChan (pr_state r)) \<le> length (pr_pullers r)")
      case True
      then have "sp_err (pl_state (pr_state r)) = None \<Longrightarrow> sp_pullNeeded (pl_state (pr_state r)) + sp_copyNeeded (pl_state (pr_state r)) = 0"
        using quiet_end [OF r] by blast
      moreover obtain closed err where "pl_closing q = pl_closing (pr_state r) @ [(closed, err)]" "closed \<longrightarrow> sp_closed (pl_state q)"
        "\<not> closed \<and> err = None \<longrightarrow> sp_closed (pl_state q) \<or>
           sp_pullNeeded (pl_state (pr_state r)) + sp_copyNeeded (pl_state (pr_state r)) \<noteq> 0 \<and> sp_err (pl_state (pr_state r)) = None"
        using f by blast
      ultimately show ?thesis by (cases closed; cases err) (auto simp: reported_def)
    next
      case False
      then show ?thesis using f by (auto simp: pending_def not_le)
    qed
    ultimately have "run_inv J (r\<lparr>pr_state := q, pr_copier := pr_copier r\<rparr>)"
      by (intro run_inv_frame [OF r, of _ _ "[]"]) (use op_finalClose_ok [OF i J run_finisher(2) q_def] in auto)
    then show ?thesis unfolding run_finisher(1) q_def by simp
  next
    case (run_world a w)
    let ?q = "(pr_state r)\<lparr>pl_world := w, pl_activity := a\<rparr>"
    have q: "job_inv J ?q" "rely_copier J (pr_state r) ?q" "rely_puller b (pr_state r) ?q" for b
      using i by (auto simp: job_inv_def rely_copier_def rely_puller_def later_def keeps_regions_def opens_blank_def)
    have "run_inv J (r\<lparr>pr_state := ?q, pr_copier := pr_copier r\<rparr>)"
      by (rule run_inv_frame [OF r q(1) copier_ok_rely [OF c q(2)], of "[]"])
        (use q(3) r in \<open>auto simp: run_inv_def reported_def pending_def\<close>)
    then show ?thesis unfolding run_world by simp
  qed
qed

lemma run_inv_reach:
  assumes "(run_step (jb_E J) (jb_st J))\<^sup>*\<^sup>* r r'" and "run_inv J r" and "job_ok J"
  shows "run_inv J r'"
  using assms by (induction rule: rtranclp_induct) (auto intro: run_inv_step)

end
