(* ===== verification/PullFile.thy ===== *)
theory PullFile
  imports PullVerify
begin

text \<open>
  From \<open>handleFile\<close> to the finished file: what the job relies on is what \<open>handleFile\<close> sets up, so a
  file that is reported finished has the content its blocks describe, and every file is reported.
\<close>

section \<open>Names of blocks\<close>

lemma show_dec_no_slash: "CHR ''/'' \<notin> set (show_dec n)" "CHR ''-'' \<notin> set (show_dec n)"
  using show_dec_digits [of n] by (auto simp: list_all_iff is_dec_digit_def char_code_def)

lemma show_int_no_slash: "CHR ''/'' \<notin> set (show_int n)"
  using show_dec_no_slash by (auto simp: show_int_def)

lemma show_dec_inj: "show_dec m = show_dec n \<Longrightarrow> m = n"
  by (metis dec_value_show)

lemma show_int_inj:
  assumes "show_int m = show_int n"
  shows "m = n"
proof -
  have h: "hd (show_dec k) \<noteq> CHR ''-''" for k using show_dec_no_slash(2) [of k] hd_in_set [OF show_dec_not_Nil] by metis
  show ?thesis using assms h show_dec_inj unfolding show_int_def by (metis (no_types) eq_nat_nat_iff hd_Cons_tl linorder_not_le list.inject list.sel(1) neg_0_le_iff_le neg_equal_iff_equal order_less_imp_le)
qed

lemma BlockInfo_String_inj:
  assumes "BlockInfo_String b = BlockInfo_String d"
  shows "b = d"
proof -
  have g: "go_cut CHR ''/'' (show_int (bi_Offset x) @ ''/'' @ t) = Some (show_int (bi_Offset x), t)" for x t
    using go_cut_append [OF show_int_no_slash] by simp
  have g2: "go_cut CHR ''/'' (show_int (bi_Size x) @ ''/'' @ t) = Some (show_int (bi_Size x), t)" for x t
    using go_cut_append [OF show_int_no_slash] by simp
  have "show_int (bi_Offset b) @ ''/'' @ show_int (bi_Size b) @ ''/'' @ hex_EncodeToString (bi_Hash b) =
      show_int (bi_Offset d) @ ''/'' @ show_int (bi_Size d) @ ''/'' @ hex_EncodeToString (bi_Hash d)"
    using assms by (simp add: BlockInfo_String_def)
  then have "show_int (bi_Offset b) = show_int (bi_Offset d)" "show_int (bi_Size b) = show_int (bi_Size d)"
    "hex_EncodeToString (bi_Hash b) = hex_EncodeToString (bi_Hash d)"
    by (metis g g2 option.inject prod.inject)+
  then show ?thesis using show_int_inj hex_decode_encode by (metis BlockInfo.equality old.unit.exhaust option.inject)
qed

section \<open>Offsets\<close>

text \<open>All blocks but the last have the block size.\<close>

definition regular_blocks :: "int \<Rightarrow> BlockInfo list \<Rightarrow> bool" where
  "regular_blocks k bs \<longleftrightarrow> 0 < k \<and>
     (\<forall>i<length bs. 0 \<le> bi_Size (bs ! i) \<and> bi_Size (bs ! i) \<le> k \<and> (i + 1 < length bs \<longrightarrow> bi_Size (bs ! i) = k))"

lemma regular_Cons:
  assumes "regular_blocks k (b # bs)"
  shows "regular_blocks k bs" and "bs \<noteq> [] \<Longrightarrow> bi_Size b = k"
proof -
  have a: "0 \<le> bi_Size ((b # bs) ! i) \<and> bi_Size ((b # bs) ! i) \<le> k \<and> (i < length bs \<longrightarrow> bi_Size ((b # bs) ! i) = k)" if "i \<le> length bs" for i
    using assms that by (simp add: regular_blocks_def less_Suc_eq_le)
  show "bs \<noteq> [] \<Longrightarrow> bi_Size b = k" using a [of 0] by simp
  show "regular_blocks k bs" using assms a [of "Suc i" for i] by (simp add: regular_blocks_def Suc_le_eq)
qed

lemma populate_loop_nth:
  assumes "regular_blocks k bs" and "i < length bs"
  shows "populate_loop off bs ! i = (bs ! i)\<lparr>bi_Offset := off + int i * k\<rparr>"
  using assms
proof (induction bs arbitrary: off i)
  case (Cons b bs)
  note r = regular_Cons [OF Cons.prems(1)]
  show ?case
  proof (cases i)
    case (Suc j)
    then have "bs \<noteq> []" using Cons.prems(2) by auto
    then have "bi_Size b = k" by (rule r(2))
    then show ?thesis using Cons.IH [OF r(1)] Cons.prems(2) Suc by (simp add: algebra_simps)
  qed simp
qed simp

lemma length_populate [simp]: "length (populate_loop off bs) = length bs"
  by (induction bs arbitrary: off) auto

lemma sizes_populate [simp]: "map bi_Size (populate_loop off bs) = map bi_Size bs"
  by (induction bs arbitrary: off) auto

lemma regular_offsets:
  assumes "regular_blocks k bs" and "i < length bs"
  shows "populateOffsets bs ! i = (bs ! i)\<lparr>bi_Offset := int i * k\<rparr>"
  using populate_loop_nth [OF assms, of 0] by (simp add: populateOffsets_def)

lemma regular_ends:
  assumes "regular_blocks k bs" and "i < length bs"
  shows "int i * k + bi_Size (bs ! i) \<le> sum_list (map bi_Size bs)"
  using assms
proof (induction bs arbitrary: i)
  case (Cons b bs)
  note r = regular_Cons [OF Cons.prems(1)]
  have nn: "0 \<le> sum_list (map bi_Size bs)" using r(1) by (intro sum_list_nonneg) (auto simp: regular_blocks_def in_set_conv_nth)
  show ?case
  proof (cases i)
    case 0
    then show ?thesis using nn by simp
  next
    case (Suc j)
    then have "bs \<noteq> []" using Cons.prems(2) by auto
    then have "bi_Size b = k" by (rule r(2))
    then show ?thesis using Cons.IH [OF r(1), of j] Cons.prems(2) Suc by (simp add: algebra_simps)
  qed
qed simp

lemma regular_laid_out:
  assumes r: "regular_blocks k bs"
  shows "laid_out (populateOffsets bs) (sum_list (map bi_Size bs))"
proof -
  let ?p = "populateOffsets bs"
  have l: "length ?p = length bs" by (simp add: populateOffsets_def)
  note n = regular_offsets [OF r]
  have k: "0 < k" using r by (simp add: regular_blocks_def)
  have sz: "0 \<le> bi_Size (bs ! i)" "bi_Size (bs ! i) \<le> k" if "i < length bs" for i using r that by (auto simp: regular_blocks_def)
  have "distinct ?p" unfolding distinct_conv_nth
  proof (intro allI impI)
    fix i j assume "i < length ?p" "j < length ?p" "i \<noteq> j"
    then have "bi_Offset (?p ! i) \<noteq> bi_Offset (?p ! j)" using n [of i] n [of j] l k by simp
    then show "?p ! i \<noteq> ?p ! j" by auto
  qed
  moreover have "0 \<le> bi_Offset b \<and> 0 \<le> bi_Size b \<and> bi_Offset b + bi_Size b \<le> sum_list (map bi_Size bs)" if b: "b \<in> set ?p" for b
  proof -
    obtain i where i: "i < length bs" "b = ?p ! i" using b l by (auto simp: in_set_conv_nth)
    show ?thesis using n [OF i(1)] sz(1) [OF i(1)] regular_ends [OF r i(1)] k i(2) by simp
  qed
  moreover have "disjoint b d" if bd: "b \<in> set ?p" "d \<in> set ?p" "b \<noteq> d" for b d
  proof -
    obtain i j where ij: "i < length bs" "j < length bs" "b = ?p ! i" "d = ?p ! j" "i \<noteq> j" using bd l by (auto simp: in_set_conv_nth)
    have "int i * k + k \<le> int j * k \<or> int j * k + k \<le> int i * k"
    proof (cases "i < j")
      case True
      then have "(int i + 1) * k \<le> int j * k" using k by (intro mult_right_mono) auto
      then show ?thesis by (simp add: algebra_simps)
    next
      case False
      then have "(int j + 1) * k \<le> int i * k" using k ij(5) by (intro mult_right_mono) auto
      then show ?thesis by (simp add: algebra_simps)
    qed
    then show ?thesis using n [OF ij(1)] n [OF ij(2)] sz [OF ij(1)] sz [OF ij(2)] ij(3,4) by (auto simp: disjoint_def)
  qed
  ultimately show ?thesis unfolding laid_out_def by blast
qed

section \<open>What is reused\<close>

lemma block_diff_loop_have:
  "b \<in> set (fst (block_diff_loop src tgt)) \<Longrightarrow> \<exists>i<length tgt. i < length src \<and> b = tgt ! i \<and> bi_Hash (src ! i) = bi_Hash b"
proof (induction src tgt rule: block_diff_loop.induct)
  case (3 s src t tgt)
  show ?case
  proof (cases "b \<in> set (fst (block_diff_loop src tgt))")
    case True
    then obtain i where "i < length tgt" "i < length src" "b = tgt ! i" "bi_Hash (src ! i) = bi_Hash b" using 3 by blast
    then show ?thesis by (intro exI [of _ "Suc i"]) simp
  next
    case False
    then have "b = t" "bi_Hash t = bi_Hash s" using "3.prems" by (auto simp: Let_def case_prod_beta split: if_splits)
    then show ?thesis by (intro exI [of _ 0]) simp
  qed
qed auto

lemma blockDiff_have:
  assumes "b \<in> set (fst (blockDiff src tgt))"
  shows "\<exists>i<length tgt. i < length src \<and> b = tgt ! i \<and> bi_Hash (src ! i) = bi_Hash b"
  using assms block_diff_loop_have [of b src tgt] by (auto simp: blockDiff_def split: if_splits)

lemma reuse_loop_spec:
  "set (fst (reuse_loop existing i bs)) = {b \<in> set bs. BlockInfo_String b \<notin> existing}"
  "distinct bs \<Longrightarrow> distinct (fst (reuse_loop existing i bs))"
  "snd (reuse_loop existing i bs) = [] \<Longrightarrow> fst (reuse_loop existing i bs) = bs"
  by (induction bs arbitrary: i) (auto simp: Let_def case_prod_beta split: if_splits)

text \<open>
  What is taken for granted about the temporary file: \<open>Stat\<close> tells its size, and a block of it with
  the hash of a block of the file has the size of that block.
\<close>

definition temp_sound :: "'w block_env \<Rightarrow> hash_access \<Rightarrow> bytes \<Rightarrow> FileInfo \<Rightarrow> bool" where
  "temp_sound E ha temp file \<longleftrightarrow>
     (\<forall>size1 t. ha_StatBefore ha = Inr (size1, t) \<longrightarrow> whole temp size1) \<and>
     (\<forall>tb. HashFile (be_sha256 E) ha temp (FileInfo_BlockSize file) = Inr tb \<longrightarrow>
        (\<forall>i<length tb. i < length (fi_Blocks file) \<and> bi_Hash (tb ! i) = bi_Hash (fi_Blocks file ! i) \<longrightarrow>
           bi_Size (tb ! i) = bi_Size (fi_Blocks file ! i)))"

lemma HashFile_Blocks:
  assumes "HashFile sha256 ha content k = Inr bs"
  shows "\<exists>size1 t c e. ha_StatBefore ha = Inr (size1, t) \<and> Blocks sha256 c content e k size1 = Inr bs"
  using assms by (fastforce simp: HashFile_def split: option.splits sum.splits prod.splits if_splits)

lemma temp_block_stored:
  assumes h: "HashFile (be_sha256 E) ha temp k = Inr tb" and k: "k = FileInfo_BlockSize file" and s: "temp_sound E ha temp file"
    and r: "regular_blocks k (fi_Blocks file0)" and f: "fi_Blocks file = populateOffsets (fi_Blocks file0)"
    and n: "be_sha256 E [] = SHA256OfNothing"
    and b: "i < length (fi_Blocks file)" "i < length tb" "bi_Hash (tb ! i) = bi_Hash (fi_Blocks file ! i)"
  shows "stored (be_sha256 E) temp (fi_Blocks file ! i)"
proof -
  obtain size1 t c e where st: "ha_StatBefore ha = Inr (size1, t)" and bl: "Blocks (be_sha256 E) c temp e k size1 = Inr tb"
    using HashFile_Blocks [OF h] by blast
  have w: "whole temp size1" using s st by (simp add: temp_sound_def)
  have kp: "0 < k" using r by (simp add: regular_blocks_def)
  note tb = Blocks_spec [OF bl w kp]
  have sz: "bi_Size (tb ! i) = bi_Size (fi_Blocks file ! i)" using s h b unfolding temp_sound_def k by blast
  have i: "i < length (fi_Blocks file0)" using b(1) by (simp add: f populateOffsets_def)
  have off: "bi_Offset (fi_Blocks file ! i) = int i * k" unfolding f regular_offsets [OF r i] by simp
  show ?thesis
  proof (cases "temp = []")
    case True
    then have "i = 0" "bi_Size (tb ! i) = 0" "bi_Hash (tb ! i) = SHA256OfNothing" using tb b(2) by auto
    then show ?thesis using True b(3) sz n off by (simp add: stored_def within_def region_def)
  next
    case False
    let ?c = "chunk_at (nat k) temp i"
    have t: "tb ! i = block_at (be_sha256 E) (nat k) 0 temp i" using tb False b(2) by simp
    have len: "nat (bi_Size (fi_Blocks file ! i)) = length ?c" using sz t by (simp add: block_at_def)
    have o: "nat (bi_Offset (fi_Blocks file ! i)) = i * nat k" using off kp by (simp add: nat_mult_distrib)
    have "region temp (fi_Blocks file ! i) = ?c" unfolding region_def len o chunk_at_def by (rule take_of_take)
    moreover have "i < block_num (nat k) temp" using tb False b(2) by simp
    then have "i * nat k < length temp" using less_block_num kp by simp
    then have "within temp (fi_Blocks file ! i)" unfolding within_def len o by (simp add: chunk_at_def)
    ultimately show ?thesis using b(3) t by (simp add: stored_def block_at_def)
  qed
qed

lemma reuseBlocks_spec:
  assumes r: "reuseBlocks E w temp (fi_Blocks file) [] file = ((blocks, reused), temp')"
    and reg: "regular_blocks (FileInfo_BlockSize file) (fi_Blocks file0)" and f: "fi_Blocks file = populateOffsets (fi_Blocks file0)"
    and n: "be_sha256 E [] = SHA256OfNothing"
    and s: "temp_sound E (be_HashTemp E w) temp file" "temp_sound E (be_HashRenamed E w) (be_RealTemp E w) file"
    and d: "distinct (fi_Blocks file)"
  shows "set blocks \<subseteq> set (fi_Blocks file) \<and> distinct blocks \<and> (reused = [] \<longrightarrow> blocks = fi_Blocks file) \<and>
    (\<forall>b\<in>set (fi_Blocks file) - set blocks. stored (be_sha256 E) temp' b)"
proof -
  define first where "first = HashFile (be_sha256 E) (be_HashTemp E w) temp (FileInfo_BlockSize file)"
  define renamed where "renamed = (isl first \<and> be_TempConflict E w \<and> be_RenameTemp E w = None)"
  define ha where "ha = (if renamed then be_HashRenamed E w else be_HashTemp E w)"
  have t': "temp' = (if renamed then be_RealTemp E w else temp)"
    using r by (auto simp: reuseBlocks_def Let_def first_def renamed_def case_prod_beta split: sum.splits)
  have s': "temp_sound E ha temp' file" using s by (simp add: ha_def t')
  have sec: "(if renamed then HashFile (be_sha256 E) (be_HashRenamed E w) (be_RealTemp E w) (FileInfo_BlockSize file) else first)
      = HashFile (be_sha256 E) ha temp' (FileInfo_BlockSize file)" by (simp add: ha_def t' first_def)
  have res: "(blocks, reused) = (case HashFile (be_sha256 E) ha temp' (FileInfo_BlockSize file) of
      Inl _ \<Rightarrow> (fi_Blocks file, [])
    | Inr tb \<Rightarrow> reuse_loop (set (map BlockInfo_String (fst (blockDiff tb (fi_Blocks file))))) 0 (fi_Blocks file))"
    using r unfolding sec [symmetric]
    by (auto simp: reuseBlocks_def Let_def first_def renamed_def case_prod_beta split: sum.splits)
  show ?thesis
  proof (cases "HashFile (be_sha256 E) ha temp' (FileInfo_BlockSize file)")
    case (Inl e)
    then show ?thesis using res d by simp
  next
    case (Inr tb)
    define ex where "ex = set (map BlockInfo_String (fst (blockDiff tb (fi_Blocks file))))"
    have l: "blocks = fst (reuse_loop ex 0 (fi_Blocks file))" "reused = snd (reuse_loop ex 0 (fi_Blocks file))"
      using res Inr by (metis ex_def fst_conv snd_conv sum.case(2))+
    have "stored (be_sha256 E) temp' b" if b: "b \<in> set (fi_Blocks file) - set blocks" for b
    proof -
      have "BlockInfo_String b \<in> ex" using b by (simp add: l reuse_loop_spec(1))
      then have "b \<in> set (fst (blockDiff tb (fi_Blocks file)))" by (auto simp: ex_def dest: BlockInfo_String_inj)
      then obtain i where "i < length (fi_Blocks file)" "i < length tb" "b = fi_Blocks file ! i" "bi_Hash (tb ! i) = bi_Hash b"
        using blockDiff_have by blast
      then show ?thesis using temp_block_stored [OF Inr refl s' reg f n] by simp
    qed
    then show ?thesis using reuse_loop_spec(2) [OF d] reuse_loop_spec(3) unfolding l by (auto simp: reuse_loop_spec(1))
  qed
qed

section \<open>The job set up by handleFile\<close>

text \<open>
  What the theorems rely on: the folder is not an encrypted one and blocks are written from the
  verified buffer, the constants for blocks of zeroes are right, truncating works where files
  are sparse, the shuffles permute, and \<open>Stat\<close> tells the size of the temporary file.
\<close>

definition env_sound :: "'w block_env \<Rightarrow> 'w \<Rightarrow> bytes \<Rightarrow> bool" where
  "env_sound E w temp \<longleftrightarrow>
     be_Type E \<noteq> FolderTypeReceiveEncrypted \<and> be_CopyRangeMethodStandard E \<and> zero_hashes (be_sha256 E) \<and>
     be_sha256 E [] = SHA256OfNothing \<and> (\<not> be_DisableSparseFiles E \<longrightarrow> (\<forall>w. o_Truncate (be_fs E w) = None)) \<and>
     (\<forall>xs. mset (be_shuffleBlocks E xs) = mset xs) \<and> (\<forall>xs. mset (be_shuffle E xs) = mset xs) \<and>
     (\<forall>size1 t. ha_StatBefore (be_HashTemp E w) = Inr (size1, t) \<longrightarrow> whole temp size1) \<and>
     (\<forall>size1 t. ha_StatBefore (be_HashRenamed E w) = Inr (size1, t) \<longrightarrow> whole (be_RealTemp E w) size1)"

definition plain_file :: "FileInfo \<Rightarrow> bool" where
  "plain_file f \<longleftrightarrow> \<not> IsSymlink f \<and> fi_Encrypted f = [] \<and> regular_blocks (FileInfo_BlockSize f) (fi_Blocks f) \<and>
     sum_list (map bi_Size (fi_Blocks f)) = fi_Size f"

definition job_of :: "'w block_env \<Rightarrow> copyBlocksState \<Rightarrow> bytes \<Rightarrow> 'w pull_job" where
  "job_of E cs c = \<lparr>jb_E = E, jb_st = cs_state cs, jb_blocks = cs_blocks cs, jb_reused = sp_available (cs_state cs), jb_temp = c\<rparr>"

lemma job_of_sel [simp]:
  "jb_E (job_of E cs c) = E" "jb_st (job_of E cs c) = cs_state cs" "jb_blocks (job_of E cs c) = cs_blocks cs"
  "jb_reused (job_of E cs c) = sp_available (cs_state cs)" "jb_temp (job_of E cs c) = c"
  by (simp_all add: job_of_def)

lemma newState_sel [simp]:
  "sp_file (newSharedPullerState now file folderID tempName blocks reused ip h cur sp fs) = file"
  "sp_reused (newSharedPullerState now file folderID tempName blocks reused ip h cur sp fs) = int (length reused)"
  "sp_sparse (newSharedPullerState now file folderID tempName blocks reused ip h cur sp fs) = sp"
  "sp_available (newSharedPullerState now file folderID tempName blocks reused ip h cur sp fs) = reused"
  "sp_err (newSharedPullerState now file folderID tempName blocks reused ip h cur sp fs) = None"
  "sp_writer (newSharedPullerState now file folderID tempName blocks reused ip h cur sp fs) = False"
  "sp_closed (newSharedPullerState now file folderID tempName blocks reused ip h cur sp fs) = False"
  by (simp_all add: newSharedPullerState_def)

lemma BlockSize_blocks [simp]: "FileInfo_BlockSize (f\<lparr>fi_Blocks := bs\<rparr>) = FileInfo_BlockSize f"
  by (simp add: FileInfo_BlockSize_def)

lemma handleFile_cases:
  assumes h: "handleFile E w temp file0 = Inr (cs, c)" and t: "be_Type E \<noteq> FolderTypeReceiveEncrypted"
  obtains blocks reused temp1 h cur where "reuseBlocks E w temp (populateOffsets (fi_Blocks file0)) [] (file0\<lparr>fi_Blocks := populateOffsets (fi_Blocks file0)\<rparr>)
      = ((blocks, reused), temp1)"
    and "c = (if length reused = 0 \<and> be_RemoveTemp E w = None then [] else temp1)"
    and "cs_blocks cs = Reorder (be_shuffleBlocks E) (be_shuffle E) (be_reorderer E) blocks"
    and "cs_state cs = newSharedPullerState (be_now E w) (file0\<lparr>fi_Blocks := populateOffsets (fi_Blocks file0)\<rparr>) (be_ID E)
       (TempName (be_isWindows E) (be_sha256 E) (fi_Name file0)) (cs_blocks cs) reused (be_IgnorePerms E \<or> fi_NoPermissions file0) h cur
       (\<not> be_DisableSparseFiles E) (\<not> be_DisableFsync E)"
proof -
  let ?r = "reuseBlocks E w temp (populateOffsets (fi_Blocks file0)) [] (file0\<lparr>fi_Blocks := populateOffsets (fi_Blocks file0)\<rparr>)"
  obtain blocks reused temp1 where r: "?r = ((blocks, reused), temp1)" by (metis prod.exhaust)
  obtain x where g: "be_GetDeviceFile E (fi_Name file0) w = Inr x" using h by (cases "be_GetDeviceFile E (fi_Name file0) w") (auto simp: handleFile_def)
  show thesis
    by (rule that [OF r]) (use h g t r in \<open>auto simp: handleFile_def Let_def\<close>)
qed

lemma Reorder_mset:
  assumes "env_sound E w temp"
  shows "mset (Reorder (be_shuffleBlocks E) (be_shuffle E) (be_reorderer E) blocks) = mset blocks"
  using assms mset_standard_Reorder [of "be_shuffle E"] by (auto simp: env_sound_def Reorder_def split: blockPullReorderer.split)

lemma handleFile_job:
  assumes h: "handleFile E w temp file0 = Inr (cs, c)" and e: "env_sound E w temp" and f: "plain_file file0"
    and s: "temp_sound E (be_HashTemp E w) temp (file0\<lparr>fi_Blocks := populateOffsets (fi_Blocks file0)\<rparr>)"
      "temp_sound E (be_HashRenamed E w) (be_RealTemp E w) (file0\<lparr>fi_Blocks := populateOffsets (fi_Blocks file0)\<rparr>)"
  shows "job_ok (job_of E cs c) \<and> sp_file (cs_state cs) = file0\<lparr>fi_Blocks := populateOffsets (fi_Blocks file0)\<rparr> \<and>
    run_inv (job_of E cs c) (run_start E w' a cs c)"
proof -
  let ?file = "file0\<lparr>fi_Blocks := populateOffsets (fi_Blocks file0)\<rparr>"
  have t: "be_Type E \<noteq> FolderTypeReceiveEncrypted" using e by (simp add: env_sound_def)
  obtain blocks reused temp1 hc cur where r: "reuseBlocks E w temp (fi_Blocks ?file) [] ?file = ((blocks, reused), temp1)"
    and c: "c = (if length reused = 0 \<and> be_RemoveTemp E w = None then [] else temp1)"
    and cb: "cs_blocks cs = Reorder (be_shuffleBlocks E) (be_shuffle E) (be_reorderer E) blocks"
    and st: "cs_state cs = newSharedPullerState (be_now E w) ?file (be_ID E)
       (TempName (be_isWindows E) (be_sha256 E) (fi_Name file0)) (cs_blocks cs) reused (be_IgnorePerms E \<or> fi_NoPermissions file0) hc cur
       (\<not> be_DisableSparseFiles E) (\<not> be_DisableFsync E)"
    by (rule handleFile_cases [OF h t], rule that) simp_all
  have reg: "regular_blocks (FileInfo_BlockSize ?file) (fi_Blocks file0)" using f by (simp add: plain_file_def)
  have lo: "laid_out (fi_Blocks ?file) (fi_Size ?file)" using regular_laid_out [OF reg] f by (simp add: plain_file_def)
  have nn: "0 \<le> fi_Size file0"
  proof -
    have "0 \<le> sum_list (map bi_Size (fi_Blocks file0))" using reg by (intro sum_list_nonneg) (auto simp: regular_blocks_def in_set_conv_nth)
    then show ?thesis using f by (simp add: plain_file_def)
  qed
  have sha: "be_sha256 E [] = SHA256OfNothing" using e by (simp add: env_sound_def)
  have d: "distinct (fi_Blocks ?file)" using lo by (simp add: laid_out_def)
  note rs = reuseBlocks_spec [OF r reg _ sha s d, simplified]
  have m: "mset (cs_blocks cs) = mset blocks" unfolding cb by (rule Reorder_mset [OF e])
  have sb: "set (cs_blocks cs) = set blocks" "distinct (cs_blocks cs) = distinct blocks"
    using m mset_eq_setD mset_eq_imp_distinct_iff by blast+
  have c1: "c = temp1" if "reused \<noteq> []" using c that by simp
  have J: "job_ok (job_of E cs c)"
    using e f lo nn rs sb c1 unfolding job_ok_def env_sound_def plain_file_def
    by (auto simp: st IsSymlink_def)
  have "copier_ok (job_of E cs c) (Some (copierRoutine E cs)) (pr_state (run_start E w' a cs c))"
  proof -
    let ?p = "pr_state (run_start E w' a cs c)"
    have sr: "sp_reused (cs_state cs) = int (length (jb_reused (job_of E cs c)))" by (simp add: st)
    have i: "job_inv (job_of E cs c) ?p"
      using pull_inv_start [of reused "cs_blocks cs" ?file] by (auto simp: job_inv_def run_start_def pull_start_def st fixed_def)
    show ?thesis
    proof (cases "cs_blocks cs")
      case Nil
      have "no_blocks ?p" by (simp add: no_blocks_def run_start_def pull_start_def Nil)
      then show ?thesis using satD [OF copier_no_blocks [OF J] _ i] by (simp add: copier_ok_def copierRoutine_def Nil)
    next
      case (Cons b bs)
      have "at_blocks (job_of E cs c) (cs_blocks cs) ?p"
        by (simp add: at_blocks_def fresh_def run_start_def pull_start_def st)
      then show ?thesis using satD [OF copier_blocks_sat [OF J sr] _ i]
        by (simp add: copier_ok_def copierRoutine_def Cons del: copier_blocks.simps)
    qed
  qed
  moreover have "job_inv (job_of E cs c) (pr_state (run_start E w' a cs c))"
    using pull_inv_start [of reused "cs_blocks cs" ?file] by (auto simp: job_inv_def run_start_def pull_start_def st fixed_def)
  ultimately have "run_inv (job_of E cs c) (run_start E w' a cs c)"
    by (simp add: run_inv_def pending_def) (simp add: run_start_def)
  then show ?thesis using J by (simp add: st)
qed

section \<open>The content in the end\<close>

lemma original_plain:
  assumes b: "Blocks sha256 cc a e (FileInfo_BlockSize file) s = Inr (fi_Blocks file)" and w: "whole a s"
    and z: "fi_Size file = int (length a)" and k: "0 < FileInfo_BlockSize file" and f: "\<not> IsSymlink file" "fi_Encrypted file = []"
  shows "plain_file file"
proof -
  let ?k = "nat (FileInfo_BlockSize file)"
  note bs = Blocks_spec [OF b w k]
  have kp: "0 < ?k" using k by simp
  show ?thesis
  proof (cases "a = []")
    case True
    then show ?thesis using bs f z k by (simp add: plain_file_def regular_blocks_def)
  next
    case False
    have full: "length (chunk_at ?k a i) = ?k" if "i + 1 < block_num ?k a" for i
      using that less_block_num [OF kp, of "i + 1" a] by (auto simp: chunk_at_def algebra_simps)
    have "regular_blocks (FileInfo_BlockSize file) (fi_Blocks file)"
      using bs False k full by (auto simp: regular_blocks_def block_at_def) (auto simp: chunk_at_def)
    moreover have "sum_list (map bi_Size (fi_Blocks file)) = int (length a)"
      using blocks_sizes [OF kp, of sha256 0 a] bs False by (simp add: o_def)
    ultimately show ?thesis using f z by (simp add: plain_file_def)
  qed
qed

lemma original_temp_sound:
  assumes b: "Blocks (be_sha256 E) cc a e (FileInfo_BlockSize file) s = Inr (fi_Blocks file)" and w: "whole a s"
    and k: "0 < FileInfo_BlockSize file" and inj: "\<not> collision (be_sha256 E) (FileInfo_BlockSize file) a temp" and n: "be_sha256 E [] = SHA256OfNothing"
    and st: "\<forall>size1 t. ha_StatBefore ha = Inr (size1, t) \<longrightarrow> whole temp size1"
  shows "temp_sound E ha temp (file\<lparr>fi_Blocks := populateOffsets (fi_Blocks file)\<rparr>)"
proof -
  let ?k = "nat (FileInfo_BlockSize file)"
  have hs: "bi_Hash (bs ! i) = be_sha256 E (chunk_at ?k a' i) \<and> bi_Size (bs ! i) = int (length (chunk_at ?k a' i))"
    if "Blocks (be_sha256 E) cc' a' e' (FileInfo_BlockSize file) s' = Inr bs" "whole a' s'" "i < length bs" for cc' a' e' s' bs i
    using Blocks_spec [OF that(1,2) k] that(3) n by (auto simp: block_at_def chunk_at_def split: if_splits)
  have "bi_Size (tb ! i) = bi_Size (populateOffsets (fi_Blocks file) ! i)"
    if h: "HashFile (be_sha256 E) ha temp (FileInfo_BlockSize file) = Inr tb" and i: "i < length tb" "i < length (fi_Blocks file)"
      and eq: "bi_Hash (tb ! i) = bi_Hash (populateOffsets (fi_Blocks file) ! i)" for tb i
  proof -
    have p: "bi_Size (populateOffsets (fi_Blocks file) ! i) = bi_Size (fi_Blocks file ! i)"
      by (metis i(2) length_populate nth_map populateOffsets_def sizes_populate)
    have ph: "bi_Hash (populate_loop off bs ! i) = bi_Hash (bs ! i)" if "i < length bs" for off bs i
      using that by (induction bs arbitrary: off i) (auto simp: nth_Cons split: nat.splits)
    obtain size1 t c2 e2 where "ha_StatBefore ha = Inr (size1, t)" "Blocks (be_sha256 E) c2 temp e2 (FileInfo_BlockSize file) size1 = Inr tb"
      using HashFile_Blocks [OF h] by blast
    then have x: "bi_Hash (tb ! i) = be_sha256 E (chunk_at ?k temp i)" "bi_Size (tb ! i) = int (length (chunk_at ?k temp i))"
      using hs st i(1) by blast+
    note y = hs [OF b w i(2)]
    have "be_sha256 E (chunk_at ?k a i) = be_sha256 E (chunk_at ?k temp i)"
      using x(1) y eq ph [OF i(2)] unfolding populateOffsets_def by metis
    then have "chunk_at ?k a i = chunk_at ?k temp i" using inj unfolding collision_def by blast
    then show ?thesis using x y p by simp
  qed
  then show ?thesis using st unfolding temp_sound_def by (auto simp: populateOffsets_def)
qed

lemma stored_blocks_content:
  assumes b: "Blocks sha256 cc a e k s = Inr bs" and w: "whole a s" and k: "0 < k"
    and inj: "\<not> collision sha256 k a (take (length a) c)"
    and st: "\<forall>b\<in>set (populateOffsets bs). bi_Size b = 0 \<or> stored sha256 c b" and r: "regular_blocks k bs"
  shows "take (length a) c = a"
proof (cases "a = []")
  case False
  let ?k = "nat k"
  have kp: "0 < ?k" using k by simp
  note bs = Blocks_spec [OF b w k, unfolded if_not_P [OF False]]
  have ch: "chunk_at ?k (take (length a) c) i = chunk_at ?k a i \<and> i * ?k + length (chunk_at ?k a i) \<le> length c" if i: "i < block_num ?k a" for i
  proof -
    have l: "i < length bs" using i by (simp add: bs)
    let ?b = "populateOffsets bs ! i"
    have pb: "?b = (block_at sha256 ?k 0 a i)\<lparr>bi_Offset := int i * k\<rparr>" using regular_offsets [OF r l] l by (simp add: bs)
    have lt: "i * ?k < length a" using i less_block_num [OF kp] by blast
    then have ne: "length (chunk_at ?k a i) \<noteq> 0" using kp by (simp add: chunk_at_def)
    then have "stored sha256 c ?b" using st l pb nth_mem [of i "populateOffsets bs"] by (auto simp: populateOffsets_def block_at_def)
    then have reg: "sha256 (region c ?b) = sha256 (chunk_at ?k a i)" and wi: "within c ?b" using pb by (auto simp: stored_def block_at_def)
    have o: "nat (bi_Offset ?b) = i * ?k" "nat (bi_Size ?b) = length (chunk_at ?k a i)"
      using pb k by (simp_all add: nat_mult_distrib block_at_def)
    have le: "i * ?k + length (chunk_at ?k a i) \<le> length c" using wi o by (simp add: within_def)
    have "region c ?b = take (length (chunk_at ?k a i)) (drop (i * ?k) c)" using o by (simp add: region_def)
    moreover have "length (chunk_at ?k a i) = min ?k (length a - i * ?k)" by (simp add: chunk_at_def)
    ultimately have "region c ?b = chunk_at ?k (take (length a) c) i" by (simp add: chunk_at_def drop_take min.commute)
    then have "chunk_at ?k (take (length a) c) i = chunk_at ?k a i" using inj reg unfolding collision_def by metis
    then show ?thesis using le by blast
  qed
  have n0: "block_num ?k a \<noteq> 0" using less_block_num [OF kp, of 0 a] False by auto
  obtain m where m: "block_num ?k a = Suc m" using n0 by (cases "block_num ?k a") auto
  have "m * ?k + length (chunk_at ?k a m) \<ge> length a"
    using less_block_num [OF kp, of "Suc m" a] m by (auto simp: chunk_at_def)
  then have len: "length (take (length a) c) = length a" using ch [of m] m by simp
  have "block_num ?k (take (length a) c) = block_num ?k a" using len by (simp add: block_num_def)
  then have "map (chunk_at ?k (take (length a) c)) [0..<block_num ?k (take (length a) c)] = map (chunk_at ?k a) [0..<block_num ?k a]"
    using ch by simp
  then show ?thesis using chunks_cover [OF kp] by metis
qed simp

section \<open>Properties\<close>

lemma closed_content:
  assumes r: "run_inv J r" and J: "job_ok J" and o: "length (pl_closing (pr_state r)) < pl_out (pr_state r)"
    and q: "q = op_finalClose (jb_E J) (pr_state r)" and l: "pl_closing q = pl_closing (pr_state r) @ [(True, None)]"
  shows "(\<forall>b\<in>set (fi_Blocks (jb_file J)). bi_Size b = 0 \<or> stored (be_sha256 (jb_E J)) (pl_temp q) b) \<and>
    (jb_sparse J \<or> jb_reused J = [] \<longrightarrow> length (pl_temp q) \<le> nat (fi_Size (jb_file J)))"
proof -
  have "job_inv J (pr_state r)" using r by (simp add: run_inv_def)
  note f = op_finalClose_ok [OF this J o q, of undefined]
  have s: "sp_closed (pl_state q)" "sp_err (pl_state q) = None" using f l by auto
  have i: "job_inv J q" using f by blast
  then have c: "content_ok J (ps_finished (pl_sys q)) (pl_temp q)" using s by (simp add: job_inv_def)
  have "mset (ps_finished (pl_sys q)) = mset (jb_blocks J)" using invD(1) [OF i] s by (auto simp: pull_inv_def Let_def)
  then have "set (ps_finished (pl_sys q)) = set (jb_blocks J)" by (rule mset_eq_setD)
  then show ?thesis using c unfolding content_ok_def by auto
qed


text \<open>C12. No file is forgotten: once the copier and all pullers of a file have ended, every block sent
  to the pullers has been taken up and every message to the finisher handled, \<open>finalClose\<close> has
  told the finisher exactly once to finish the file (with or without an error), or its last call failed to
  open the temporary file.\<close>

theorem pulled_file_reported:
  assumes "env_sound E w temp" and "plain_file file"
    and "temp_sound E (be_HashTemp E w) temp (file\<lparr>fi_Blocks := populateOffsets (fi_Blocks file)\<rparr>)"
    and "temp_sound E (be_HashRenamed E w) (be_RealTemp E w) (file\<lparr>fi_Blocks := populateOffsets (fi_Blocks file)\<rparr>)"
    and "handleFile E w temp file = Inr (cs, c)"
    and "(run_step E (cs_state cs))\<^sup>*\<^sup>* (run_start E w' busy cs c) r"
    and "\<not> pending r"
  shows "ps_closes (pl_sys (pr_state r)) = 1 \<or>
    (\<exists>e. pl_closing (pr_state r) \<noteq> [] \<and> last (pl_closing (pr_state r)) = (False, Some e))"
proof -
  define J where "J = job_of E cs c"
  have J: "job_ok J" "run_inv J (run_start E w' busy cs c)" using handleFile_job [OF assms(5,1-4)] by (auto simp: J_def)
  have r: "run_inv J r" by (rule run_inv_reach [OF _ J(2,1)]) (use assms(6) in \<open>simp add: J_def\<close>)
  then have "reported (pr_state r)" using assms(7) by (simp add: run_inv_def)
  moreover have "pull_inv (jb_reused J) (jb_blocks J) (jb_file J) (pl_sys (pr_state r))" using r by (simp add: run_inv_def job_inv_def)
  ultimately show ?thesis by (auto simp: reported_def pull_inv_def Let_def)
qed

section \<open>An example\<close>

text \<open>The copier alone, for some steps.\<close>

fun copier_for :: "nat \<Rightarrow> 'w task \<Rightarrow> 'w pulling \<Rightarrow> 'w task \<times> 'w pulling" where
  "copier_for 0 t p = (t, p)"
| "copier_for (Suc n) SendOut p = (SendOut, p)"
| "copier_for (Suc n) (Step u k) p = copier_for n (k p) (u p)"

lemma run_same: "pr_copier r = Some t \<Longrightarrow> r\<lparr>pr_copier := Some t\<rparr> = r"
  by (cases r) simp

lemma copier_for_run:
  assumes "copier_for n t (pr_state r) = (t', p')" and "pr_copier r = Some t"
  shows "(run_step E st)\<^sup>*\<^sup>* r (r\<lparr>pr_state := p', pr_copier := Some t'\<rparr>)"
  using assms
proof (induction n t "pr_state r" arbitrary: r rule: copier_for.induct)
  case (3 n u k)
  let ?r = "r\<lparr>pr_state := u (pr_state r), pr_copier := Some (k (pr_state r))\<rparr>"
  have "run_step E st r ?r" by (rule run_copier) (rule 3(3))
  moreover have "(run_step E st)\<^sup>*\<^sup>* ?r (?r\<lparr>pr_state := p', pr_copier := Some t'\<rparr>)" using 3(1) [of ?r] 3(2) by simp
  ultimately show ?case by simp
qed (auto simp: run_same)

definition example_sha :: "bytes \<Rightarrow> bytes" where
  "example_sha bs =
     (if \<forall>x\<in>set bs. x = 0 then
        (case map_of ((0, SHA256OfNothing) # sha256OfEmptyBlock) (int (length bs)) of Some h \<Rightarrow> h | None \<Rightarrow> 0 # bs)
      else 1 # bs)"

definition example_block :: BlockInfo where
  "example_block = \<lparr>bi_Hash = [1, 1], bi_Offset = 0, bi_Size = 1\<rparr>"

definition example_pulled :: FileInfo where
  "example_pulled = FileInfo_zero\<lparr>fi_Name := ''f'', fi_Size := 1, fi_Blocks := [example_block]\<rparr>"

definition example_hash :: hash_access where
  "example_hash = \<lparr>ha_Open = Some ''not found'', ha_StatBefore = Inl '''', ha_readErr = None, ha_cancelled = (\<lambda>_. None), ha_StatAfter = Inl ''''\<rparr>"

text \<open>A folder that has the file already, under the same name.\<close>

definition example_blocks :: "unit block_env" where
  "example_blocks =
     \<lparr>be_sha256 = example_sha, be_isWindows = False, be_ID = ''id'', be_Type = FolderTypeSendReceive, be_DisableSparseFiles = False,
      be_DisableFsync = True, be_IgnorePerms = False, be_BlockIndexing = False, be_CopyRangeMethodStandard = True, be_otherFolders = [],
      be_codec = example_codec, be_reorderer = inOrderBlockPullReorderer, be_shuffleBlocks = (\<lambda>bs. bs), be_shuffle = (\<lambda>is. is),
      be_now = (\<lambda>_. time_Unix 0 0), be_GetDeviceFile = (\<lambda>_ _. Inr (Some example_pulled)), be_HashTemp = (\<lambda>_. example_hash),
      be_TempConflict = (\<lambda>_. False), be_RenameTemp = (\<lambda>_. None), be_RealTemp = (\<lambda>_. []), be_HashRenamed = (\<lambda>_. example_hash),
      be_RemoveTemp = (\<lambda>_. None), be_fs = (\<lambda>_. example_outcome), be_ReadAt = (\<lambda>_ _ _ _ _. Inr [1]), be_LocalBlocks = (\<lambda>_ _ _. []),
      be_CopyRange = (\<lambda>_ _ _ _ _. (None, [])), be_writeLimiter = (\<lambda>_. None), be_Write = (\<lambda>_. None), be_requestLimiter = (\<lambda>_. None),
      be_blockAvailability = (\<lambda>_ _ _. []), be_RequestGlobal = (\<lambda>_ _ _ _ _ _ _ _ _. Inl ''''), be_ctx = (\<lambda>_. None)\<rparr>"

lemma example_sha_zero: "zero_hashes example_sha"
  by (auto simp: zero_hashes_def example_sha_def sha256OfEmptyBlock_def)

lemma example_sound: "env_sound example_blocks () []"
  by (auto simp: env_sound_def example_blocks_def example_hash_def example_outcome_def FolderTypeSendReceive_def FolderTypeReceiveEncrypted_def
      example_sha_zero) (simp add: example_sha_def)

lemma example_original: "Blocks example_sha (\<lambda>_. None) [1] None (FileInfo_BlockSize example_pulled) (-1) = Inr (fi_Blocks example_pulled)"
  by (simp add: Blocks_def blocks_loop.simps example_pulled_def FileInfo_BlockSize_def MinBlockSize_def FileInfo_zero_def example_block_def
      example_sha_def)

lemma example_no_collision:
  assumes "length c \<le> 1"
  shows "\<not> collision example_sha (FileInfo_BlockSize example_pulled) [1] c"
proof -
  have k: "0 < nat (FileInfo_BlockSize example_pulled)" by (simp add: FileInfo_BlockSize_def MinBlockSize_def)
  have h: "example_sha [1] = [1, 1]" "example_sha [] = SHA256OfNothing" by (simp_all add: example_sha_def)
  have "chunk_at (nat (FileInfo_BlockSize example_pulled)) [1] i = chunk_at (nat (FileInfo_BlockSize example_pulled)) c i"
    if "i \<noteq> 0" for i
  proof -
    have "1 \<le> i * nat (FileInfo_BlockSize example_pulled)" using that k by (simp add: Suc_le_eq)
    then have "length c \<le> i * nat (FileInfo_BlockSize example_pulled)" "length [1 :: uint8] \<le> i * nat (FileInfo_BlockSize example_pulled)"
      using assms by (simp_all only: list.size)
    then show ?thesis unfolding chunk_at_def by (simp only: drop_all)
  qed
  moreover have "chunk_at (nat (FileInfo_BlockSize example_pulled)) d 0 = d" if "length d \<le> 1" for d
    using that k by (simp add: chunk_at_def)
  moreover have "example_sha [1] \<noteq> example_sha c" if "c \<noteq> [1]"
    using that assms unfolding h(1) by (cases c) (auto simp: h(2) SHA256OfNothing_def, auto simp: example_sha_def sha256OfEmptyBlock_def split: if_splits)
  ultimately show ?thesis using assms unfolding collision_def by (metis length_Cons list.size(3) One_nat_def order_refl)
qed

definition example_state :: sharedPullerState where
  "example_state = newSharedPullerState (time_Unix 0 0) example_pulled ''id'' (TempName False example_sha ''f'') [example_block] [] False True
     example_pulled True False"

definition example_job :: copyBlocksState where
  "example_job = \<lparr>cs_state = example_state, cs_blocks = [example_block], cs_have = 1\<rparr>"

lemma example_pulled_blocks: "example_pulled\<lparr>fi_Blocks := populateOffsets (fi_Blocks example_pulled)\<rparr> = example_pulled"
  "fi_Blocks example_pulled = [example_block]" "fi_Name example_pulled = ''f''" "\<not> fi_NoPermissions example_pulled"
  by (simp_all add: example_pulled_def populateOffsets_def example_block_def FileInfo_zero_def)

lemma example_handled: "handleFile example_blocks () [] example_pulled = Inr (example_job, [])"
proof -
  have r: "reuseBlocks example_blocks () [] bs [] f = ((bs, []), [])" for bs f
    by (simp add: reuseBlocks_def example_blocks_def HashFile_def example_hash_def)
  have o: "populateOffsets [example_block] = [example_block]" by (simp add: populateOffsets_def example_block_def)
  note p = example_pulled_blocks(1) [unfolded example_pulled_blocks(2) o]
  show ?thesis unfolding handleFile_def r
    by (simp add: example_blocks_def blockDiff_def Reorder_def example_job_def example_state_def FolderTypeSendReceive_def
        FolderTypeReceiveEncrypted_def Let_def) (simp add: example_pulled_blocks(2-4) o p)
qed

lemma example_not_skipped: "bi_Size example_block = 1" "bi_Offset example_block = 0" "\<not> BlockInfo_IsEmpty example_block"
  "sp_curFileBlocks example_state (bi_Hash example_block) = Some 0" "verifyBuffer example_sha [1] example_block = None"
  "sp_curFile example_state = example_pulled"
  by (simp_all add: example_block_def BlockInfo_IsEmpty_def sha256OfEmptyBlock_def example_state_def newSharedPullerState_def curFileBlocks_of_def
      example_pulled_blocks(2) verifyBuffer_def example_sha_def)

lemma example_open:
  assumes "sp_file s = example_pulled" "sp_err s = None" "\<not> sp_writer s" "sp_reused s = 0" "sp_sparse s"
  shows "\<exists>calls. tempFile psize example_outcome s = (calls, None, s\<lparr>sp_writer := True\<rparr>) \<and> temp_calls example_outcome calls [] = [0]"
  using assms
  by (simp add: tempFile_def addWriterLocked_def inWritableDir_def tempFileInWritableDir_def example_outcome_def Let_def IsSymlink_def
      example_pulled_def FileInfo_zero_def temp_calls_append resize_def)

text \<open>The steps of the copier: the context, the block in the current file, the temporary file, the write, and the counters.\<close>

lemma example_copied:
  "\<exists>p. copier_for (Suc (Suc (Suc (Suc (Suc (Suc (Suc 0))))))) (copierRoutine example_blocks example_job)
       (pr_state (run_start example_blocks () (\<lambda>_. 0) example_job [])) = (SendOut, p) \<and>
     pl_out p = 0 \<and> pl_closing p = [] \<and> sp_err (pl_state p) = None \<and> \<not> sp_closed (pl_state p) \<and> sp_writer (pl_state p) \<and>
     sp_pullNeeded (pl_state p) + sp_copyNeeded (pl_state p) = 0 \<and> sp_file (pl_state p) = example_pulled \<and> pl_pullChan p = []"
proof -
  obtain calls where o: "tempFile (protoSize example_codec) example_outcome example_state = (calls, None, example_state\<lparr>sp_writer := True\<rparr>)"
    "temp_calls example_outcome calls [] = [0]"
    using example_open [of example_state "protoSize example_codec"] by (auto simp: example_state_def)
  have E: "be_ctx example_blocks = (\<lambda>_. None)" "be_ReadAt example_blocks = (\<lambda>_ _ _ _ _. Inr [1])" "be_sha256 example_blocks = example_sha"
    "be_CopyRangeMethodStandard example_blocks" "be_fs example_blocks = (\<lambda>_. example_outcome)" "be_codec example_blocks = example_codec"
    "be_writeLimiter example_blocks = (\<lambda>_. None)" "be_Write example_blocks = (\<lambda>_. None)"
    by (simp_all add: example_blocks_def)
  have s: "sp_copyNeeded example_state = 1" "sp_pullNeeded example_state = 0" "sp_err example_state = None" "\<not> sp_closed example_state"
    "sp_file example_state = example_pulled"
    by (simp_all add: example_state_def newSharedPullerState_def)
  show ?thesis
    by (simp add: copierRoutine_def example_job_def run_start_def pull_start_def ask_def act_def E example_not_skipped copyBlock_def Let_def
        copyBlockFromFile_def do_tempFile_def op_tempFile_def o limitedWriteAt_def op_write_def after_write_def do_origin_def do_copyDone_def
        on_state_def copiedFromOrigin_def copyDone_def s)
qed

definition example_end :: "unit pulling" where
  "example_end = snd (copier_for (Suc (Suc (Suc (Suc (Suc (Suc (Suc 0))))))) (copierRoutine example_blocks example_job)
     (pr_state (run_start example_blocks () (\<lambda>_. 0) example_job [])))"

lemma example_run:
  defines "r \<equiv> \<lparr>pr_state = example_end\<lparr>pl_out := 1\<rparr>, pr_copier = None, pr_pullers = []\<rparr>"
  shows "(run_step example_blocks (cs_state example_job))\<^sup>*\<^sup>* (run_start example_blocks () (\<lambda>_. 0) example_job []) r"
    and "pl_closing (pr_state r) = []" and "pl_pullChan (pr_state r) = []"
    and "pl_closing (op_finalClose example_blocks (pr_state r)) = [(True, None)]" and "pl_pullChan (op_finalClose example_blocks (pr_state r)) = []"
    and "pl_out (op_finalClose example_blocks (pr_state r)) = 1"
proof -
  let ?r0 = "run_start example_blocks () (\<lambda>_. 0) example_job []"
  obtain p where p: "copier_for (Suc (Suc (Suc (Suc (Suc (Suc (Suc 0))))))) (copierRoutine example_blocks example_job) (pr_state ?r0) = (SendOut, p)"
    and s: "pl_out p = 0" "pl_closing p = []" "sp_err (pl_state p) = None" "\<not> sp_closed (pl_state p)" "sp_writer (pl_state p)"
      "sp_pullNeeded (pl_state p) + sp_copyNeeded (pl_state p) = 0" "sp_file (pl_state p) = example_pulled" "pl_pullChan p = []"
    using example_copied by blast
  have e: "example_end = p" by (simp add: example_end_def p)
  let ?r1 = "?r0\<lparr>pr_state := p, pr_copier := Some SendOut\<rparr>"
  have "(run_step example_blocks (cs_state example_job))\<^sup>*\<^sup>* ?r0 ?r1" by (rule copier_for_run [OF p]) (simp add: run_start_def)
  moreover have "run_step example_blocks (cs_state example_job) ?r1 r"
    using run_copier_out [of ?r1 example_blocks "cs_state example_job"] by (simp add: r_def e s run_start_def)
  ultimately show "(run_step example_blocks (cs_state example_job))\<^sup>*\<^sup>* ?r0 r" by simp
  show "pl_closing (pr_state r) = []" "pl_pullChan (pr_state r) = []" by (simp_all add: r_def e s)
  have enc: "fi_Encrypted (sp_file (pl_state p)) = []" unfolding s(7) by (simp add: example_pulled_def FileInfo_zero_def)
  have go: "\<not> (sp_pullNeeded (pl_state p) + sp_copyNeeded (pl_state p) \<noteq> 0 \<and> sp_err (pl_state p) = None)" using s(6) by blast
  have cl: "o_Close example_outcome = None" by (simp add: example_outcome_def)
  obtain calls t where f: "finalClose example_codec example_outcome (pl_state p) = Some (calls, (True, None), t)"
    unfolding finalClose_def if_not_P [OF s(4)] if_not_P [OF go] if_P [OF s(5)] by (simp add: enc keepFirst_def cl Let_def s(3))
  have E: "be_codec example_blocks = example_codec" "be_fs example_blocks w = example_outcome" for w by (simp_all add: example_blocks_def)
  show "pl_closing (op_finalClose example_blocks (pr_state r)) = [(True, None)]" "pl_pullChan (op_finalClose example_blocks (pr_state r)) = []"
    "pl_out (op_finalClose example_blocks (pr_state r)) = 1"
    by (simp_all add: r_def e op_finalClose_def E f s)
qed


theorem pulled_file_reported_witness:
  "\<exists>cs c r. handleFile example_blocks () [] example_pulled = Inr (cs, c) \<and>
     (run_step example_blocks (cs_state cs))\<^sup>*\<^sup>* (run_start example_blocks () (\<lambda>_. 0) cs c) r \<and> \<not> pending r \<and>
     ps_closes (pl_sys (pr_state r)) = 1"
proof -
  let ?r = "\<lparr>pr_state = example_end\<lparr>pl_out := 1\<rparr>, pr_copier = None, pr_pullers = []\<rparr>"
  let ?q = "?r\<lparr>pr_state := op_finalClose example_blocks (pr_state ?r)\<rparr>"
  note r = example_run
  have "run_step example_blocks (cs_state example_job) ?r ?q" by (rule run_finisher) (use r in simp)
  then have q: "(run_step example_blocks (cs_state example_job))\<^sup>*\<^sup>* (run_start example_blocks () (\<lambda>_. 0) example_job []) ?q" using r(1) by simp
  have np: "\<not> pending ?q" using r(4-6) by (simp add: pending_def)
  have f: "plain_file example_pulled"
    by (simp add: plain_file_def example_pulled_blocks(2) regular_blocks_def example_not_skipped)
      (simp add: example_pulled_def FileInfo_zero_def IsSymlink_def FileInfo_BlockSize_def MinBlockSize_def)
  have h: "temp_sound example_blocks example_hash t g" for t g by (simp add: temp_sound_def example_hash_def HashFile_def)
  have t: "be_HashTemp example_blocks () = example_hash" "be_HashRenamed example_blocks () = example_hash" by (simp_all add: example_blocks_def)
  have "ps_closes (pl_sys (pr_state ?q)) = 1 \<or> (\<exists>e. pl_closing (pr_state ?q) \<noteq> [] \<and> last (pl_closing (pr_state ?q)) = (False, Some e))"
    by (rule pulled_file_reported [OF example_sound f _ _ example_handled q np]) (simp_all add: t h)
  then show ?thesis using example_handled q np r(4) by auto
qed

section \<open>Where the assumptions are needed\<close>

text \<open>
  A failed \<open>Truncate\<close> is taken not to matter when nothing is reused. But blocks of zeroes are then
  skipped in the belief that the truncated file has them: a file that is one such block is closed
  without error while its temporary file is empty.
\<close>

lemma failed_truncate_loses_zeroes:
  assumes "\<not> sp_closed s" "sp_err s = None" "sp_pullNeeded s + sp_copyNeeded s = 0" "\<not> sp_writer s" "sp_reused s = 0" "sp_sparse s"
    and "\<not> IsSymlink (sp_file s)" "fi_Encrypted (sp_file s) = []"
  shows "\<exists>calls t. finalClose pc (example_outcome\<lparr>o_Truncate := Some e\<rparr>) s = Some (calls, (True, None), t) \<and>
    temp_calls (example_outcome\<lparr>o_Truncate := Some e\<rparr>) calls c = []"
proof -
  let ?f = "example_outcome\<lparr>o_Truncate := Some e\<rparr>"
  obtain calls where w: "addWriterLocked (protoSize pc) ?f s = (calls, None, s\<lparr>sp_writer := True\<rparr>)" and t: "temp_calls ?f calls c = []"
    using assms(5-8)
    by (simp add: addWriterLocked_def inWritableDir_def tempFileInWritableDir_def example_outcome_def Let_def temp_calls_append)
  have go: "\<not> (sp_pullNeeded s + sp_copyNeeded s \<noteq> 0 \<and> sp_err s = None)" using assms(3) by blast
  have cl: "o_Close ?f = None" by (simp add: example_outcome_def)
  have e: "\<not> 0 < length (fi_Encrypted (sp_file (s\<lparr>sp_writer := True\<rparr>)))" using assms(8) by simp
  have "finalClose pc ?f s = Some (calls @ (if sp_fsync s then [CallSync] else []) @ [CallClose, CallUnhide (sp_tempName s)], (True, None),
      s\<lparr>sp_writer := False, sp_closed := True\<rparr>)"
    unfolding finalClose_def if_not_P [OF assms(1)] if_not_P [OF go] if_not_P [OF assms(4)] w
    using e by (simp add: keepFirst_def cl Let_def assms(2))
  moreover have "temp_calls ?f (calls @ (if sp_fsync s then [CallSync] else []) @ [CallClose, CallUnhide (sp_tempName s)]) c = []"
    using t by (simp add: temp_calls_append)
  ultimately show ?thesis by blast
qed

text \<open>
  Without sparse files a reused temporary file is never shortened: opening it leaves it as it is,
  and no write makes it shorter. What is left of a longer one stays at the end.
\<close>

lemma reused_file_not_shortened:
  assumes "addWriterLocked psize fsys s = (calls, None, t)" and "fi_Encrypted (sp_file s) = []" and "\<not> IsSymlink (sp_file s)"
    and "\<not> sp_sparse s" and "sp_reused s \<noteq> 0"
  shows "temp_calls fsys calls c = c \<and> length c \<le> length (write_at off bs c)"
  using addWriterLocked_temp [OF assms(1-3), of c] assms(4,5) by (auto simp: length_write_at)

end
