(* ===== verification/IgnoreResult.thy ===== *)
theory IgnoreResult
  imports FsPath
begin

text \<open>
  The result of matching a name against the ignore patterns,
  \<open>lib/ignore/ignoreresult/ignoreresult.go\<close>, and the shard excludes of
  \<open>lib/ignore/ignore_shards.go\<close>, which ignore names by the position of their hash.
\<close>

unbundle bit_operations_syntax

section \<open>Result bits\<close>

type_synonym R = uint8

definition ignoreBit :: R where "ignoreBit = 1"
definition deletableBit :: R where "deletableBit = 2"
definition foldCaseBit :: R where "foldCaseBit = 4"
definition canSkipDirBit :: R where "canSkipDirBit = 8"

definition NotIgnored :: R where "NotIgnored = 0"

text \<open>On Windows and macOS patterns fold case by default; \<open>foldOS\<close> says so.\<close>

definition Ignored :: "bool \<Rightarrow> R" where
  "Ignored foldOS = (if foldOS then ignoreBit OR foldCaseBit else ignoreBit)"

definition IgnoredDeletable :: "bool \<Rightarrow> R" where
  "IgnoredDeletable foldOS = Ignored foldOS OR deletableBit"

definition IgnoreAndSkip :: "bool \<Rightarrow> R" where
  "IgnoreAndSkip foldOS = Ignored foldOS OR canSkipDirBit"

definition R_IsIgnored :: "R \<Rightarrow> bool" where
  "R_IsIgnored r \<longleftrightarrow> r AND ignoreBit \<noteq> 0"

definition R_IsDeletable :: "R \<Rightarrow> bool" where
  "R_IsDeletable r \<longleftrightarrow> R_IsIgnored r \<and> r AND deletableBit \<noteq> 0"

definition R_IsCaseFolded :: "R \<Rightarrow> bool" where
  "R_IsCaseFolded r \<longleftrightarrow> r AND foldCaseBit \<noteq> 0"

definition R_CanSkipDir :: "R \<Rightarrow> bool" where
  "R_CanSkipDir r \<longleftrightarrow> R_IsIgnored r \<and> r AND canSkipDirBit \<noteq> 0"

definition ToggleIgnored :: "R \<Rightarrow> R" where
  "ToggleIgnored r = r XOR ignoreBit"

definition WithDeletable :: "R \<Rightarrow> R" where
  "WithDeletable r = r OR deletableBit"

definition WithFoldCase :: "R \<Rightarrow> R" where
  "WithFoldCase r = r OR foldCaseBit"

definition WithSkipDir :: "R \<Rightarrow> R" where
  "WithSkipDir r = r OR canSkipDirBit"

lemmas R_defs = ignoreBit_def deletableBit_def foldCaseBit_def canSkipDirBit_def NotIgnored_def Ignored_def
  IgnoredDeletable_def IgnoreAndSkip_def R_IsIgnored_def R_IsDeletable_def R_IsCaseFolded_def R_CanSkipDir_def
  ToggleIgnored_def WithDeletable_def WithFoldCase_def WithSkipDir_def

section \<open>Shard excludes\<close>

fun HashIsBelowStart :: "bytes \<Rightarrow> bytes \<Rightarrow> bool" where
  "HashIsBelowStart (h # hs) (r # rs) =
     (if h < r then True else if h > r then False else HashIsBelowStart hs rs)"
| "HashIsBelowStart _ _ = False"

fun HashIsAboveEnd :: "bytes \<Rightarrow> bytes \<Rightarrow> bool" where
  "HashIsAboveEnd (h # hs) (r # rs) =
     (if h > r then True else if h < r then False else HashIsAboveEnd hs rs)"
| "HashIsAboveEnd _ _ = False"

record SingleShardRange =
  start_incl :: bytes
  end_incl :: bytes

definition IsInRange :: "SingleShardRange \<Rightarrow> bytes \<Rightarrow> bool" where
  "IsInRange s hash \<longleftrightarrow> \<not> HashIsBelowStart hash (start_incl s) \<and> \<not> HashIsAboveEnd hash (end_incl s)"

record ShardExclude =
  excludes :: "SingleShardRange list"
  ignoreR :: R

definition MatchHash :: "ShardExclude \<Rightarrow> bytes \<Rightarrow> bool" where
  "MatchHash s hash = foldl (\<lambda>excluded ex. excluded \<or> IsInRange ex hash) False (excludes s)"

definition ShardExclude_Match :: "(bytes \<Rightarrow> bytes) \<Rightarrow> ShardExclude \<Rightarrow> string \<Rightarrow> bool" where
  "ShardExclude_Match sha256 s name = MatchHash s (sha256 (bytes_of_string name))"

definition ShardRangeParseStartHex :: "string \<Rightarrow> bytes option" where
  "ShardRangeParseStartHex s =
     hex_DecodeString (if length s mod 2 \<noteq> 0 then s @ ''0'' else s)"

definition ShardRangeParseEndHex :: "string \<Rightarrow> bytes option" where
  "ShardRangeParseEndHex s =
     hex_DecodeString (if length s mod 2 \<noteq> 0 then s @ ''f'' else s)"

definition ShardExcludePrefixCommon :: string where "ShardExcludePrefixCommon = ''#shard-exclude''"
definition ShardExcludePrefix :: string where "ShardExcludePrefix = ShardExcludePrefixCommon @ '':''"
definition ShardExcludePurgePrefix :: string where "ShardExcludePurgePrefix = ShardExcludePrefixCommon @ ''-purge:''"

text \<open>The loop over the parts of a line; the error texts are the two messages of the source.\<close>

fun ShardExclude_parts :: "SingleShardRange list \<Rightarrow> string list \<Rightarrow> (string, SingleShardRange list) result" where
  "ShardExclude_parts acc [] = Inr acc"
| "ShardExclude_parts acc (part # rest) =
     (if part = [] then ShardExclude_parts acc rest
      else
        let ps = go_split (CHR ''-'') part in
        if length ps \<noteq> 2 then Inl ''invalid shard exclude line''
        else
          (case (ShardRangeParseStartHex (ps ! 0), ShardRangeParseEndHex (ps ! 1)) of
             (Some a, Some b) \<Rightarrow> ShardExclude_parts (acc @ [\<lparr>start_incl = a, end_incl = b\<rparr>]) rest
           | _ \<Rightarrow> Inl ''invalid shard exclude line''))"

definition ShardExcludeParse :: "bool \<Rightarrow> string \<Rightarrow> (string, ShardExclude) result" where
  "ShardExcludeParse foldOS line =
     (if go_HasPrefix line ShardExcludePrefix then
        map_sum id (\<lambda>es. \<lparr>excludes = es, ignoreR = Ignored foldOS\<rparr>)
          (ShardExclude_parts [] (go_split (CHR '','') (drop (length ShardExcludePrefix) line)))
      else if go_HasPrefix line ShardExcludePurgePrefix then
        map_sum id (\<lambda>es. \<lparr>excludes = es, ignoreR = IgnoredDeletable foldOS\<rparr>)
          (ShardExclude_parts [] (go_split (CHR '','') (drop (length ShardExcludePurgePrefix) line)))
      else Inl ''not a shard exclude line'')"

section \<open>Ranges as numbers\<close>

lemma get_be_Cons: "get_be (h # hs) = unat h * 256 ^ length hs + get_be hs"
proof -
  let ?f = "\<lambda>a b. a * 256 + unat (b :: uint8)"
  have "foldl ?f n hs = n * 256 ^ length hs + foldl ?f 0 hs" for n
  proof (induction hs arbitrary: n)
    case (Cons b hs)
    have "foldl ?f n (b # hs) = (n * 256 + unat b) * 256 ^ length hs + foldl ?f 0 hs"
      using Cons [of "n * 256 + unat b"] by simp
    moreover have "foldl ?f 0 (b # hs) = unat b * 256 ^ length hs + foldl ?f 0 hs" using Cons [of "unat b"] by simp
    ultimately show ?case by (simp add: algebra_simps)
  qed simp
  from this [of "unat h"] show ?thesis by (simp add: get_be_def)
qed

lemma be_less_aux:
  assumes "a < b" and "x < 256 ^ k"
  shows "a * 256 ^ k + x < b * 256 ^ k + (y :: nat)"
proof -
  have "Suc a * 256 ^ k \<le> b * 256 ^ k" using assms(1) by (intro mult_right_mono) auto
  then show ?thesis using assms(2) by simp
qed

lemma HashIsBelowStart_num:
  "length h = length r \<Longrightarrow> HashIsBelowStart h r \<longleftrightarrow> get_be h < get_be r"
proof (induction h r rule: HashIsBelowStart.induct)
  case (1 h hs r rs)
  then have len: "length hs = length rs" by simp
  have b: "get_be hs < 256 ^ length rs" "get_be rs < 256 ^ length rs"
    using get_be_bound [of hs] get_be_bound [of rs] len by simp_all
  consider (lt) "unat h < unat r" | (eq) "h = r" | (gt) "unat r < unat h"
    by (metis linorder_neqE_nat word_unat_eq_iff)
  then show ?case
  proof cases
    case lt
    then show ?thesis using be_less_aux [OF lt b(1), of "get_be rs"] len by (simp add: get_be_Cons word_less_nat_alt)
  next
    case eq
    then show ?thesis using 1 len by (simp add: get_be_Cons)
  next
    case gt
    then show ?thesis using be_less_aux [OF gt b(2), of "get_be hs"] len by (simp add: get_be_Cons word_less_nat_alt)
  qed
qed auto

lemma HashIsAboveEnd_num:
  "length h = length r \<Longrightarrow> HashIsAboveEnd h r \<longleftrightarrow> get_be r < get_be h"
proof -
  have "HashIsAboveEnd h r = HashIsBelowStart r h" by (induction h r rule: HashIsAboveEnd.induct) auto
  then show "length h = length r \<Longrightarrow> ?thesis" by (simp add: HashIsBelowStart_num)
qed

text \<open>Only as many bytes as both have are compared.\<close>

lemma HashIsBelowStart_take: "length r \<le> length h \<Longrightarrow> HashIsBelowStart h r = HashIsBelowStart (take (length r) h) r"
  by (induction h r rule: HashIsBelowStart.induct) auto

lemma HashIsAboveEnd_take: "length r \<le> length h \<Longrightarrow> HashIsAboveEnd h r = HashIsAboveEnd (take (length r) h) r"
  by (induction h r rule: HashIsAboveEnd.induct) auto

lemma MatchHash_iff: "MatchHash s hash \<longleftrightarrow> (\<exists>ex \<in> set (excludes s). IsInRange ex hash)"
proof -
  have "foldl (\<lambda>excluded ex. excluded \<or> IsInRange ex hash) b es \<longleftrightarrow> b \<or> (\<exists>ex \<in> set es. IsInRange ex hash)" for b es
    by (induction es arbitrary: b) auto
  then show ?thesis by (simp add: MatchHash_def)
qed

lemma IsInRange_num:
  assumes "length (start_incl s) \<le> length h" and "length (end_incl s) \<le> length h"
  shows "IsInRange s h \<longleftrightarrow>
    get_be (start_incl s) \<le> get_be (take (length (start_incl s)) h) \<and>
    get_be (take (length (end_incl s)) h) \<le> get_be (end_incl s)"
  unfolding IsInRange_def HashIsBelowStart_take [OF assms(1)] HashIsAboveEnd_take [OF assms(2)]
  using assms by (simp add: HashIsBelowStart_num HashIsAboveEnd_num not_less)

section \<open>Properties\<close>

text \<open>Shards that follow one another (the start of each is one more than the end of the one
  before, from all zeroes to all ones, in bounds of \<open>n\<close> bytes) divide the names among them: the
  hash of every name is in exactly one of two adjacent shards, or outside of both.\<close>

theorem shard_ranges_partition:
  assumes "length s = n" "length e = n" "length s' = n" "length e' = n" and "get_be s' = get_be e + 1"
    and "get_be s \<le> get_be e" "get_be s' \<le> get_be e'" and "n \<le> length hash"
  shows "\<not> (IsInRange \<lparr>start_incl = s, end_incl = e\<rparr> hash \<and> IsInRange \<lparr>start_incl = s', end_incl = e'\<rparr> hash) \<and>
    (MatchHash \<lparr>excludes = [\<lparr>start_incl = s, end_incl = e\<rparr>, \<lparr>start_incl = s', end_incl = e'\<rparr>], ignoreR = r\<rparr> hash \<longleftrightarrow>
     IsInRange \<lparr>start_incl = s, end_incl = e'\<rparr> hash)"
  using assms by (auto simp: MatchHash_iff IsInRange_num)

theorem shard_ranges_partition_witness:
  "\<not> (IsInRange \<lparr>start_incl = [0], end_incl = [127]\<rparr> [127, 9] \<and> IsInRange \<lparr>start_incl = [128], end_incl = [255]\<rparr> [127, 9])"
  using shard_ranges_partition [of "[0]" 1 "[127]" "[128]" "[255]" "[127, 9]" 0] by (simp add: get_be_def)

end
