(* ===== verification/JobQueue.thy ===== *)
theory JobQueue
  imports GoTime "HOL-Library.Multiset"
begin

text \<open>
  The queue of files waiting to be pulled and the list of those being pulled,
  \<open>lib/model/queue.go\<close>. Each method holds the mutex from its first to its last access, so it is
  one function on the state. The contract of the queue against its clients (the copier and
  finisher routines) is the locale \<open>job_queue\<close>.
\<close>

section \<open>State and operations\<close>

record jobQueueEntry =
  jq_name :: string
  jq_size :: int
  jq_modified :: int

record jobQueue =
  jq_progress :: "string list"
  jq_queued :: "jobQueueEntry list"

definition newJobQueue :: jobQueue where
  "newJobQueue = \<lparr>jq_progress = [], jq_queued = []\<rparr>"

definition Push :: "string \<Rightarrow> int \<Rightarrow> Time \<Rightarrow> jobQueue \<Rightarrow> jobQueue" where
  "Push file sz modified q =
     q\<lparr>jq_queued := jq_queued q @
         [\<lparr>jq_name = file, jq_size = sz, jq_modified = time_UnixNano modified\<rparr>]\<rparr>"

text \<open>The pair of a name and \<open>ok\<close> is an option.\<close>

definition Pop :: "jobQueue \<Rightarrow> string option \<times> jobQueue" where
  "Pop q =
     (if length (jq_queued q) = 0 then (None, q)
      else
        let f = jq_name (jq_queued q ! 0) in
        (Some f, q\<lparr>jq_queued := drop 1 (jq_queued q), jq_progress := jq_progress q @ [f]\<rparr>))"

text \<open>
  The range loops of \<open>BringToFront\<close> and \<open>Done\<close> act on the first match and return: the argument
  \<open>i\<close> is the loop index and the list the part of the slice still to be visited.
\<close>

fun BringToFront_loop :: "string \<Rightarrow> nat \<Rightarrow> jobQueueEntry list \<Rightarrow> jobQueueEntry list \<Rightarrow> jobQueueEntry list" where
  "BringToFront_loop filename i [] queued = queued"
| "BringToFront_loop filename i (cur # rest) queued =
     (if jq_name cur = filename then
        (if i > 0 then (go_copy 1 i queued queued)[0 := cur] else queued)
      else BringToFront_loop filename (i + 1) rest queued)"

definition BringToFront :: "string \<Rightarrow> jobQueue \<Rightarrow> jobQueue" where
  "BringToFront filename q =
     q\<lparr>jq_queued := BringToFront_loop filename 0 (jq_queued q) (jq_queued q)\<rparr>"

fun Done_loop :: "string \<Rightarrow> nat \<Rightarrow> string list \<Rightarrow> string list \<Rightarrow> string list" where
  "Done_loop file i [] progress = progress"
| "Done_loop file i (p # rest) progress =
     (if p = file then
        take (length progress - 1) (go_copy i (length progress - i) (drop (i + 1) progress) progress)
      else Done_loop file (i + 1) rest progress)"

definition Done :: "string \<Rightarrow> jobQueue \<Rightarrow> jobQueue" where
  "Done file q = q\<lparr>jq_progress := Done_loop file 0 (jq_progress q) (jq_progress q)\<rparr>"

definition Reset :: "jobQueue \<Rightarrow> jobQueue" where
  "Reset q = q\<lparr>jq_progress := [], jq_queued := []\<rparr>"

definition lenQueued :: "jobQueue \<Rightarrow> nat" where
  "lenQueued q = length (jq_queued q)"

definition lenProgress :: "jobQueue \<Rightarrow> nat" where
  "lenProgress q = length (jq_progress q)"

text \<open>
  \<open>Jobs\<close> computes with \<open>int\<close> (64 bits). \<open>None\<close> is a panic: \<open>make\<close> with a negative length or a
  slice expression out of range.
\<close>

definition go_slice :: "int \<Rightarrow> int \<Rightarrow> 'a list \<Rightarrow> 'a list option" where
  "go_slice i j xs =
     (if 0 \<le> i \<and> i \<le> j \<and> j \<le> int (length xs) then Some (take (nat (j - i)) (drop (nat i) xs)) else None)"

definition Jobs_queued :: "jobQueue \<Rightarrow> int \<Rightarrow> int \<Rightarrow> string list option" where
  "Jobs_queued q toSkip n =
     (if n < 0 then None
      else
        map_option (map jq_name) (go_slice toSkip (toSkip + n) (jq_queued q)))"

definition Jobs :: "int \<Rightarrow> int \<Rightarrow> jobQueue \<Rightarrow> (string list \<times> string list \<times> int) option" where
  "Jobs page perpage q =
     (let toSkip = go_int64 ((page - 1) * perpage);
          plen = int (length (jq_progress q));
          qlen = int (length (jq_queued q)) in
      if plen + qlen \<le> toSkip then Some ([], [], plen + qlen)
      else if plen \<ge> go_int64 (toSkip + perpage) then
        (if perpage < 0 then None
         else map_option (\<lambda>progress. (progress, [], toSkip))
                (go_slice toSkip (go_int64 (toSkip + perpage)) (jq_progress q)))
      else
        (case (if plen > toSkip
               then map_option (\<lambda>progress. (progress, 0)) (go_slice toSkip plen (jq_progress q))
               else Some ([], toSkip - plen)) of
           None \<Rightarrow> None
         | Some (progress, toSkip') \<Rightarrow>
             (let n = (if qlen - toSkip' < perpage - int (length progress)
                       then qlen - toSkip' else perpage - int (length progress)) in
              map_option (\<lambda>queued. (progress, queued, go_int64 ((page - 1) * perpage)))
                (Jobs_queued q toSkip' n))))"

text \<open>The calls of the puller routines, in the order they take the mutex.\<close>

datatype job_op = OpPush string int Time | OpPop | OpBringToFront string | OpDone string

fun job_step :: "job_op \<Rightarrow> jobQueue \<Rightarrow> jobQueue" where
  "job_step (OpPush f s t) q = Push f s t q"
| "job_step OpPop q = snd (Pop q)"
| "job_step (OpBringToFront f) q = BringToFront f q"
| "job_step (OpDone f) q = Done f q"

abbreviation queued_names :: "jobQueue \<Rightarrow> string list" where
  "queued_names q \<equiv> map jq_name (jq_queued q)"

section \<open>The contract\<close>

text \<open>
  What the clients rely on: a first-in first-out queue whose elements may be moved to the
  front, with popped elements kept in a list until they are done.
\<close>

locale job_queue =
  fixes queued :: "'q \<Rightarrow> 'n list" and progress :: "'q \<Rightarrow> 'n list"
    and push :: "'n \<Rightarrow> 'i \<Rightarrow> 'q \<Rightarrow> 'q" and pop :: "'q \<Rightarrow> 'n option \<times> 'q"
    and front :: "'n \<Rightarrow> 'q \<Rightarrow> 'q" and finish :: "'n \<Rightarrow> 'q \<Rightarrow> 'q"
  assumes push: "queued (push n i q) = queued q @ [n]" "progress (push n i q) = progress q"
    and pop_Nil: "queued q = [] \<Longrightarrow> pop q = (None, q)"
    and pop_Cons: "queued q = n # ns \<Longrightarrow>
      fst (pop q) = Some n \<and> queued (snd (pop q)) = ns \<and> progress (snd (pop q)) = progress q @ [n]"
    and front: "queued (front n q) = (if n \<in> set (queued q) then n # remove1 n (queued q) else queued q)"
      "progress (front n q) = progress q"
    and finish: "queued (finish n q) = queued q" "progress (finish n q) = remove1 n (progress q)"
begin

definition pending :: "'q \<Rightarrow> 'n multiset" where
  "pending q = mset (queued q) + mset (progress q)"

lemma pending_push: "pending (push n i q) = add_mset n (pending q)"
  by (simp add: pending_def push)

lemma pending_pop: "pending (snd (pop q)) = pending q"
proof (cases "queued q")
  case Nil
  then show ?thesis by (simp add: pop_Nil)
next
  case (Cons n ns)
  then show ?thesis using pop_Cons [OF Cons] by (simp add: pending_def)
qed

lemma pending_front: "pending (front n q) = pending q"
  by (auto simp: pending_def front)

lemma pending_finish: "n \<in> set (progress q) \<Longrightarrow> pending q = add_mset n (pending (finish n q))"
  by (simp add: pending_def finish)

text \<open>An element brought to the front is what the next \<open>pop\<close> returns.\<close>

lemma pop_front:
  assumes "n \<in> set (queued q)"
  shows "fst (pop (front n q)) = Some n" and "queued (snd (pop (front n q))) = remove1 n (queued q)"
  using pop_Cons [of "front n q" n "remove1 n (queued q)"] assms by (simp_all add: front)

text \<open>Popping as often as there are elements returns them in order and empties the queue.\<close>

fun pops :: "nat \<Rightarrow> 'q \<Rightarrow> 'n list \<times> 'q" where
  "pops 0 q = ([], q)"
| "pops (Suc k) q =
     (case pop q of (None, q') \<Rightarrow> ([], q')
      | (Some n, q') \<Rightarrow> (case pops k q' of (ns, r) \<Rightarrow> (n # ns, r)))"

lemma pops_drain:
  "fst (pops k q) = take k (queued q) \<and> queued (snd (pops k q)) = drop k (queued q) \<and>
   progress (snd (pops k q)) = progress q @ take k (queued q)"
proof (induction k arbitrary: q)
  case (Suc k)
  show ?case
  proof (cases "queued q")
    case Nil
    then show ?thesis by (simp add: pop_Nil)
  next
    case (Cons n ns)
    obtain x q' where p: "pop q = (x, q')" by (cases "pop q")
    have q': "x = Some n" "queued q' = ns" "progress q' = progress q @ [n]"
      using pop_Cons [OF Cons] p by simp_all
    show ?thesis using Suc.IH [of q'] q' p Cons by (simp add: case_prod_beta)
  qed
qed simp

end
section \<open>The model satisfies the contract\<close>

lemma go_copy_shift:
  "pre \<noteq> [] \<Longrightarrow> (go_copy 1 (length pre) (pre @ x # rest) (pre @ x # rest))[0 := x] = x # pre @ rest"
  by (cases pre) (simp_all add: go_copy_def)

lemma BringToFront_loop_names:
  "queued = pre @ rest \<Longrightarrow> i = length pre \<Longrightarrow> filename \<notin> set (map jq_name pre) \<Longrightarrow>
   map jq_name (BringToFront_loop filename i rest queued) =
     (if filename \<in> set (map jq_name queued) then filename # remove1 filename (map jq_name queued)
      else map jq_name queued)"
proof (induction rest arbitrary: pre i)
  case (Cons cur rest)
  show ?case
  proof (cases "jq_name cur = filename")
    case True
    then show ?thesis using Cons.prems
      by (cases "pre = []") (simp_all add: go_copy_shift remove1_append del: One_nat_def)
  next
    case False
    then show ?thesis using Cons.prems Cons.IH [of "pre @ [cur]" "i + 1"] by simp
  qed
qed auto

lemma Done_loop_remove1:
  "progress = pre @ rest \<Longrightarrow> i = length pre \<Longrightarrow> file \<notin> set pre \<Longrightarrow>
   Done_loop file i rest progress = remove1 file progress"
proof (induction rest arbitrary: pre i)
  case (Cons p rest)
  show ?case
  proof (cases "p = file")
    case True
    then show ?thesis using Cons.prems by (simp add: go_copy_def remove1_append)
  next
    case False
    then show ?thesis using Cons.prems Cons.IH [of "pre @ [p]" "i + 1"] by simp
  qed
qed (simp add: remove1_idem)

lemma Pop_Cons:
  "queued_names q = n # ns \<Longrightarrow>
   fst (Pop q) = Some n \<and> queued_names (snd (Pop q)) = ns \<and> jq_progress (snd (Pop q)) = jq_progress q @ [n]"
  by (cases "jq_queued q") (auto simp: Pop_def Let_def)

lemma Pop_Nil: "queued_names q = [] \<Longrightarrow> Pop q = (None, q)"
  by (simp add: Pop_def)

interpretation jq: job_queue queued_names jq_progress "\<lambda>n (s, t). Push n s t" Pop BringToFront Done
  by unfold_locales
    (simp_all add: Push_def Pop_Nil Pop_Cons BringToFront_def Done_def case_prod_beta
      BringToFront_loop_names [of _ "[]"] Done_loop_remove1 [of _ "[]"] del: map_is_Nil_conv map_eq_Cons_conv)

section \<open>Runs\<close>

fun pushed :: "job_op list \<Rightarrow> string multiset" where
  "pushed [] = {#}"
| "pushed (OpPush f s t # ops) = add_mset f (pushed ops)"
| "pushed (_ # ops) = pushed ops"

text \<open>The calls of \<open>Done\<close> that found their file among those in progress.\<close>

fun finished :: "job_op list \<Rightarrow> jobQueue \<Rightarrow> string multiset" where
  "finished [] q = {#}"
| "finished (OpDone f # ops) q =
     (if f \<in> set (jq_progress q) then {#f#} else {#}) + finished ops (Done f q)"
| "finished (p # ops) q = finished ops (job_step p q)"

lemma Push_pending: "jq.pending (Push f s t q) = add_mset f (jq.pending q)"
  using jq.pending_push [of f "(s, t)" q] by simp

lemma Done_pending:
  "jq.pending q = (if f \<in> set (jq_progress q) then {#f#} else {#}) + jq.pending (Done f q)"
proof (cases "f \<in> set (jq_progress q)")
  case True
  then show ?thesis using jq.pending_finish [of f q] by simp
next
  case False
  then show ?thesis by (simp add: jq.pending_def jq.finish remove1_idem)
qed

lemma run_pending:
  "jq.pending (fold job_step ops q) + finished ops q = pushed ops + jq.pending q"
proof (induction ops arbitrary: q)
  case (Cons op ops)
  show ?case
  proof (cases op)
    case (OpDone f)
    then show ?thesis using Cons.IH Done_pending [of q f] by (simp add: add_ac)
  qed (simp_all add: Cons.IH Push_pending jq.pending_pop jq.pending_front)
qed simp

section \<open>Properties\<close>

text \<open>C22. No file is lost or pulled twice: over any run of the queue's operations from the empty
  queue, the files pushed are exactly those still queued, those in progress and those
  reported done while in progress, each as often; and from any state, bringing a queued
  file to the front makes it the next one popped and leaves the others in order.\<close>

theorem jobs_conserved:
  "mset (queued_names (fold job_step ops newJobQueue)) + mset (jq_progress (fold job_step ops newJobQueue))
     + finished ops newJobQueue = pushed ops \<and>
   (f \<in> set (queued_names q) \<longrightarrow>
      fst (Pop (BringToFront f q)) = Some f \<and>
      queued_names (snd (Pop (BringToFront f q))) = remove1 f (queued_names q))"
proof (intro conjI impI)
  show "mset (queued_names (fold job_step ops newJobQueue)) + mset (jq_progress (fold job_step ops newJobQueue))
     + finished ops newJobQueue = pushed ops"
    using run_pending [of ops newJobQueue] by (simp add: jq.pending_def newJobQueue_def)
  assume "f \<in> set (queued_names q)"
  then show "fst (Pop (BringToFront f q)) = Some f"
    and "queued_names (snd (Pop (BringToFront f q))) = remove1 f (queued_names q)"
    by (rule jq.pop_front)+
qed

definition example_queue :: jobQueue where
  "example_queue = \<lparr>jq_progress = [''p''],
     jq_queued = [\<lparr>jq_name = ''a'', jq_size = 1, jq_modified = 0\<rparr>, \<lparr>jq_name = ''b'', jq_size = 2, jq_modified = 0\<rparr>,
       \<lparr>jq_name = ''c'', jq_size = 3, jq_modified = 0\<rparr>]\<rparr>"

theorem jobs_conserved_witness:
  "''c'' \<in> set (queued_names example_queue) \<and> fst (Pop (BringToFront ''c'' example_queue)) = Some ''c'' \<and>
   queued_names (snd (Pop (BringToFront ''c'' example_queue))) = [''a'', ''b'']"
  using jobs_conserved [of "[]" "''c''" example_queue] by (simp add: example_queue_def)

lemma go_slice_nat: "i \<le> j \<Longrightarrow> j \<le> length xs \<Longrightarrow> go_slice (int i) (int j) xs = Some (take (j - i) (drop i xs))"
  by (simp add: go_slice_def nat_diff_distrib)

lemma Jobs_queued_nat:
  "s + m \<le> length (jq_queued q) \<Longrightarrow> Jobs_queued q (int s) (int m) = Some (take m (drop s (queued_names q)))"
  using go_slice_nat [of s "s + m" "jq_queued q"] by (simp add: Jobs_queued_def take_map drop_map)

text \<open>For the pages the interface asks for (\<open>page\<close> and \<open>perpage\<close> at least one) and as long as the
  position of the last entry fits 64 bits, \<open>Jobs\<close> does not panic, and returns the requested
  window of the list of files in progress followed by the queued ones, split at the
  boundary between the two, with the number of entries skipped.\<close>

theorem Jobs_page:
  assumes "1 \<le> page" and "1 \<le> perpage" and "int page * int perpage < 2 ^ 63"
  shows "Jobs (int page) (int perpage) q =
    (let k = (page - 1) * perpage in
     Some (take perpage (drop k (jq_progress q)),
       take (perpage - length (take perpage (drop k (jq_progress q))))
         (drop (k - length (jq_progress q)) (queued_names q)),
       int (min k (length (jq_progress q) + length (jq_queued q)))))"
proof -
  define k where "k = (page - 1) * perpage"
  have k: "(int page - 1) * int perpage = int k" and kp: "k + perpage = page * perpage"
    using assms(1) by (simp_all add: k_def of_nat_diff algebra_simps)
  have "int k + int perpage < 2 ^ 63" using assms(3) kp by (metis of_nat_add of_nat_mult)
  then have wrap: "go_int64 (int k) = int k" "go_int64 (int k + int perpage) = int k + int perpage"
    by (auto intro!: wrap_signed_id simp: in_signed_def)
  let ?p = "jq_progress q" and ?q = "jq_queued q"
  consider (none) "length ?p + length ?q \<le> k" | (first) "k < length ?p + length ?q" "k + perpage \<le> length ?p"
    | (both) "k < length ?p" "length ?p < k + perpage" | (second) "length ?p \<le> k" "k < length ?p + length ?q"
    by linarith
  then show ?thesis
  proof cases
    case none
    then show ?thesis unfolding Jobs_def k wrap Let_def k_def [symmetric] by simp
  next
    case first
    then have "perpage - min (length ?p - k) perpage = 0" by simp
    then show ?thesis unfolding Jobs_def k wrap Let_def k_def [symmetric]
      using first go_slice_nat [of k "k + perpage" ?p] by simp
  next
    case both
    have m: "(if int (length ?q) - 0 < int perpage - int (length (drop k ?p)) then int (length ?q) - 0
         else int perpage - int (length (drop k ?p))) = int (min (length ?q) (perpage - length (drop k ?p)))"
      using both by auto
    show ?thesis unfolding Jobs_def k wrap Let_def k_def [symmetric]
      using both go_slice_nat [of k "length ?p" ?p] m
        Jobs_queued_nat [of 0 "min (length ?q) (perpage - length (drop k ?p))" q]
      by (simp add: min_def)
  next
    case second
    then obtain s where s: "k = length ?p + s" and sq: "s < length ?q" by (auto simp: le_iff_add)
    show ?thesis
    proof (cases "length ?q - s < perpage")
      case True
      then have "int (length ?q) - int s < int perpage" by linarith
      then show ?thesis unfolding Jobs_def k wrap Let_def k_def [symmetric]
        using True s sq assms(2) Jobs_queued_nat [of s "length ?q - s" q] by (simp add: of_nat_diff)
    next
      case False
      then have "\<not> int (length ?q) - int s < int perpage" using sq by linarith
      then show ?thesis unfolding Jobs_def k wrap Let_def k_def [symmetric]
        using False s sq assms(2) Jobs_queued_nat [of s perpage q] by simp
    qed
  qed
qed

theorem Jobs_page_witness: "Jobs 2 2 example_queue = Some ([], [''b'', ''c''], 2)"
  using Jobs_page [of 2 2 example_queue] by (simp add: example_queue_def)

text \<open>Beyond that bound the skip count wraps to a negative number and the slice expression panics.\<close>

lemma Jobs_overflow_panics: "Jobs (2 ^ 62 + 1) 2 example_queue = None"
  by (simp add: Jobs_def example_queue_def wrap_signed_def go_slice_def Let_def)

end
