(* ===== verification/PullFs.thy ===== *)
theory PullFs
  imports FsPath IgnoreResult Wire JobQueue "HOL-Library.State_Monad"
begin

text \<open>
  The filesystem as the handlers of the puller use it, and the helpers between the two:
  \<open>osutil.TraversesSymlink\<close>, \<open>osutil.RenameOrCopy\<close> and \<open>osutil.Copy\<close> (\<open>lib/osutil\<close>),
  \<open>inWritableDir\<close> (\<open>lib/model/util.go\<close>), \<open>scanner.CreateFileInfo\<close> (\<open>lib/scanner/walk.go\<close>) and the
  recursive walk (\<open>lib/fs/walkfs.go\<close>). The filesystem itself is a parameter: \<open>'w\<close> is the state of
  the disk, \<open>pe_exec\<close> carries out a call that changes it and the other functions look at it. Every
  call that may change the disk is kept in a list with its outcome.
\<close>

unbundle bit_operations_syntax

section \<open>Errors\<close>

datatype fs_error = ErrNotExist | ErrPermission | CaseConflictError string | ErrXattrsNotSupported | OtherFsError string

text \<open>
  The errors of the puller; \<open>EWrap\<close> is \<open>fmt.Errorf\<close> with \<open>%w\<close>, through which \<open>errors.Is\<close> and
  \<open>errors.As\<close> see the cause.
\<close>

datatype pull_error =
  EFs fs_error | EPath path_error | TraversesSymlinkError string | NotADirectoryError string | EMsg string | EDb string
| errModified | errDirHasToBeScanned | errDirHasIgnored | errDirNotEmpty | errUnexpectedDirOnFileDel | errIncompatibleSymlink
| errNotAvailable | ESkipDir | ErrInfiniteRecursion | EOutOfFuel | EContextDone | EWrap string pull_error

primrec cause :: "pull_error \<Rightarrow> pull_error" where
  "cause (EFs e) = EFs e" | "cause (EPath e) = EPath e" | "cause (TraversesSymlinkError p) = TraversesSymlinkError p"
| "cause (NotADirectoryError p) = NotADirectoryError p" | "cause (EMsg m) = EMsg m" | "cause (EDb m) = EDb m"
| "cause errModified = errModified" | "cause errDirHasToBeScanned = errDirHasToBeScanned" | "cause errDirHasIgnored = errDirHasIgnored"
| "cause errDirNotEmpty = errDirNotEmpty" | "cause errUnexpectedDirOnFileDel = errUnexpectedDirOnFileDel"
| "cause errIncompatibleSymlink = errIncompatibleSymlink" | "cause errNotAvailable = errNotAvailable" | "cause ESkipDir = ESkipDir"
| "cause ErrInfiniteRecursion = ErrInfiniteRecursion" | "cause EOutOfFuel = EOutOfFuel" | "cause EContextDone = EContextDone"
| "cause (EWrap m e) = cause e"

definition IsNotExist :: "pull_error \<Rightarrow> bool" where "IsNotExist e \<longleftrightarrow> cause e = EFs ErrNotExist"
definition IsPermission :: "pull_error \<Rightarrow> bool" where "IsPermission e \<longleftrightarrow> cause e = EFs ErrPermission"

definition IsErrCaseConflict :: "pull_error \<Rightarrow> bool" where
  "IsErrCaseConflict e \<longleftrightarrow> (case cause e of EFs (CaseConflictError _) \<Rightarrow> True | _ \<Rightarrow> False)"

section \<open>The filesystem\<close>

text \<open>\<open>fs.FileInfo\<close>, what \<open>Lstat\<close> and \<open>Stat\<close> return.\<close>

record file_stat =
  st_Mode :: uint32
  st_Size :: int
  st_ModTime :: Time
  st_IsDir :: bool
  st_IsRegular :: bool
  st_IsSymlink :: bool
  st_Owner :: int
  st_Group :: int

text \<open>
  The calls that change something. \<open>FsArchive\<close> is the versioner's \<open>Archive\<close>; \<open>FsCopy\<close> stands for
  \<open>copyFileContents\<close>, the calls that copy the bytes of a file; \<open>FsWriteTrailer\<close> for the write of
  \<open>writeEncryptionTrailer\<close>, whose length \<open>pe_trailerSize\<close> gives.
\<close>

datatype fs_op =
  FsRemove string | FsRename string string | FsMkdir string uint32 | FsMkdirAll string uint32 | FsChmod string uint32
| FsCreateSymlink bytes string | FsSetXattr string "Xattr list" | FsLchown string string string | FsChtimes string Time
| FsArchive string | FsCopy string string | FsOpenFile string | FsWriteTrailer string FileInfo | FsTruncate string int

record 'w pull_env =
  pe_exec :: "fs_op \<Rightarrow> 'w \<Rightarrow> fs_error option \<times> 'w"
  pe_Lstat :: "string \<Rightarrow> 'w \<Rightarrow> (fs_error, file_stat) result"
  pe_Stat :: "string \<Rightarrow> 'w \<Rightarrow> (fs_error, file_stat) result"
  pe_DirNames :: "string \<Rightarrow> 'w \<Rightarrow> (fs_error, string list) result"
  pe_Glob :: "string \<Rightarrow> 'w \<Rightarrow> string list"
  pe_PlatformData :: "string \<Rightarrow> bool \<Rightarrow> bool \<Rightarrow> 'w \<Rightarrow> (fs_error, PlatformData) result"
  pe_ReadSymlink :: "string \<Rightarrow> 'w \<Rightarrow> (fs_error, bytes) result"
  pe_SameFile :: "file_stat \<Rightarrow> file_stat \<Rightarrow> bool"
  pe_checkInfiniteRecursion :: bool
  pe_os :: GOOS
  pe_isAndroid :: bool
  pe_equalFold :: "string \<Rightarrow> string \<Rightarrow> bool"
  pe_lookupUser :: "string \<Rightarrow> string option"
  pe_lookupGroup :: "string \<Rightarrow> string option"
  pe_lookupUserAndGroup :: "string \<Rightarrow> bool \<Rightarrow> (fs_error, string \<times> string) result"
  pe_sha256 :: "bytes \<Rightarrow> bytes"
  pe_now :: string
  pe_IgnorePerms :: bool
  pe_IgnoreDelete :: bool
  pe_SyncOwnership :: bool
  pe_SyncXattrs :: bool
  pe_CopyOwnershipFromParent :: bool
  pe_Type :: FolderType
  pe_MaxConflicts :: int
  pe_modTimeWindow :: int
  pe_versioner :: bool
  pe_trailerSize :: "FileInfo \<Rightarrow> int"
  pe_CheckAvailableSpace :: "int \<Rightarrow> pull_error option"
  pe_GetDeviceFile :: "string \<Rightarrow> (string, FileInfo option) result"
  pe_ignores :: "string \<Rightarrow> R"

definition pe_isWindows :: "'w pull_env \<Rightarrow> bool" where
  "pe_isWindows E \<longleftrightarrow> pe_os E = OS_Windows"

text \<open>What the handlers send to the database and to the scanner, and the errors they record.\<close>

datatype dbUpdateType =
  dbUpdateHandleDir | dbUpdateDeleteDir | dbUpdateHandleFile | dbUpdateDeleteFile | dbUpdateShortcutFile | dbUpdateHandleSymlink
| dbUpdateInvalidate

type_synonym dbUpdateJob = "FileInfo \<times> dbUpdateType"

record 'w puller =
  pu_fs :: 'w
  pu_calls :: "(fs_op \<times> fs_error option) list"
  pu_updates :: "dbUpdateJob list"
  pu_scans :: "string list"
  pu_errors :: "string \<rightharpoonup> pull_error"
  pu_queue :: jobQueue

section \<open>Steps\<close>

type_synonym ('w, 'a) pm = "('w puller, 'a) state"

definition fs_do :: "'w pull_env \<Rightarrow> fs_op \<Rightarrow> ('w, pull_error option) pm" where
  "fs_do E op = State (\<lambda>s. case pe_exec E op (pu_fs s) of
     (e, w) \<Rightarrow> (map_option EFs e, s\<lparr>pu_fs := w, pu_calls := pu_calls s @ [(op, e)]\<rparr>))"

definition look :: "('w \<Rightarrow> 'a) \<Rightarrow> ('w, 'a) pm" where
  "look f = State (\<lambda>s. (f (pu_fs s), s))"

definition send_update :: "dbUpdateJob \<Rightarrow> ('w, unit) pm" where
  "send_update j = State (\<lambda>s. ((), s\<lparr>pu_updates := pu_updates s @ [j]\<rparr>))"

definition send_scan :: "string \<Rightarrow> ('w, unit) pm" where
  "send_scan n = State (\<lambda>s. ((), s\<lparr>pu_scans := pu_scans s @ [n]\<rparr>))"

definition queue_done :: "string \<Rightarrow> ('w, unit) pm" where
  "queue_done n = State (\<lambda>s. ((), s\<lparr>pu_queue := Done n (pu_queue s)\<rparr>))"

definition newPullError :: "string \<Rightarrow> pull_error \<Rightarrow> ('w, unit) pm" where
  "newPullError path err = State (\<lambda>s. ((),
     if cause err = EContextDone then s
     else if pu_errors s path \<noteq> None then s
     else s\<lparr>pu_errors := (pu_errors s)(path \<mapsto> EWrap ''syncing'' err)\<rparr>))"

text \<open>Go's \<open>if err := m; err != nil { return err }\<close> before \<open>k\<close>.\<close>

definition orReturn :: "('w, pull_error option) pm \<Rightarrow> ('w, pull_error option) pm \<Rightarrow> ('w, pull_error option) pm" where
  "orReturn m k = do { e \<leftarrow> m; case e of Some _ \<Rightarrow> State_Monad.return e | None \<Rightarrow> k }"

definition wrapErr :: "string \<Rightarrow> ('w, pull_error option) pm \<Rightarrow> ('w, pull_error option) pm" where
  "wrapErr msg m = do { e \<leftarrow> m; State_Monad.return (map_option (EWrap msg) e) }"

definition Lstat :: "'w pull_env \<Rightarrow> string \<Rightarrow> ('w, (pull_error, file_stat) result) pm" where
  "Lstat E n = look (\<lambda>w. case pe_Lstat E n w of Inl e \<Rightarrow> Inl (EFs e) | Inr st \<Rightarrow> Inr st)"

section \<open>Helpers\<close>

fun traverses_loop :: "'w pull_env \<Rightarrow> 'w \<Rightarrow> string \<Rightarrow> string list \<Rightarrow> pull_error option" where
  "traverses_loop E w path [] = None"
| "traverses_loop E w path (part # parts) =
     (let path' = filepath_Join [path, part] in
      case pe_Lstat E path' w of
        Inl e \<Rightarrow> if e = ErrNotExist then None else Some (EFs e)
      | Inr info \<Rightarrow>
          if st_IsSymlink info then Some (TraversesSymlinkError path')
          else if \<not> st_IsDir info then Some (NotADirectoryError path')
          else traverses_loop E w path' parts)"

definition TraversesSymlink :: "'w pull_env \<Rightarrow> string \<Rightarrow> ('w, pull_error option) pm" where
  "TraversesSymlink E name =
     (case Canonicalize name of
        Inl e \<Rightarrow> State_Monad.return (Some (EPath e))
      | Inr n \<Rightarrow>
          if n = ''.'' then State_Monad.return None
          else look (\<lambda>w. traverses_loop E w '''' (PathComponents n)))"

definition in_writable_dir :: "'w pull_env \<Rightarrow> (string \<Rightarrow> ('w, pull_error option) pm) \<Rightarrow> string \<Rightarrow> ('w, pull_error option) pm" where
  "in_writable_dir E fn path = do {
     let dir = filepath_Dir path;
     st \<leftarrow> look (pe_Stat E dir);
     case st of
       Inl e \<Rightarrow> State_Monad.return (Some (EFs e))
     | Inr info \<Rightarrow>
         if \<not> st_IsDir info then State_Monad.return (Some (EMsg (''Not a directory: '' @ path)))
         else do {
           let mode = st_Mode info AND permBits;
           let readOnly = (mode AND 128 = 0);
           parentErr \<leftarrow> (if readOnly then fs_do E (FsChmod dir (mode OR 448)) else State_Monad.return None);
           err \<leftarrow> fn path;
           (if readOnly \<and> parentErr = None then fs_do E (FsChmod dir mode) else State_Monad.return None);
           State_Monad.return
             (case err of
                Some e \<Rightarrow> if IsPermission e \<and> parentErr \<noteq> None
                           then Some (EWrap ''error after failing to make parent directory writable'' e) else Some e
              | None \<Rightarrow> None)
         }
   }"

definition withPreparedTarget :: "'w pull_env \<Rightarrow> string \<Rightarrow> string \<Rightarrow> ('w, pull_error option) pm \<Rightarrow> ('w, pull_error option) pm" where
  "withPreparedTarget E src dst f = do {
     let toDir = filepath_Dir dst;
     st \<leftarrow> look (pe_Stat E toDir);
     let tweak = (case st of Inr info \<Rightarrow> st_IsDir info \<and> st_Mode info AND 128 = 0 | Inl _ \<Rightarrow> False);
     (if tweak then fs_do E (FsChmod toDir 493) else State_Monad.return None);
     err \<leftarrow> (if pe_isWindows E then do {
                fs_do E (FsChmod dst 438);
                e \<leftarrow> (if \<not> pe_equalFold E src dst then fs_do E (FsRemove dst) else State_Monad.return None);
                case e of
                  Some er \<Rightarrow> if IsNotExist er then f else State_Monad.return e
                | None \<Rightarrow> f
              } else f);
     (case st of
        Inr info \<Rightarrow> if tweak then fs_do E (FsChmod toDir (st_Mode info)) else State_Monad.return None
      | Inl _ \<Rightarrow> State_Monad.return None);
     State_Monad.return err
   }"

text \<open>Source and destination are the same filesystem here, for which \<open>RenameOrCopy\<close> renames.\<close>

definition RenameOrCopy :: "'w pull_env \<Rightarrow> string \<Rightarrow> string \<Rightarrow> ('w, pull_error option) pm" where
  "RenameOrCopy E src dst = withPreparedTarget E src dst (fs_do E (FsRename src dst))"

definition osutil_Copy :: "'w pull_env \<Rightarrow> string \<Rightarrow> string \<Rightarrow> ('w, pull_error option) pm" where
  "osutil_Copy E src dst = withPreparedTarget E src dst (fs_do E (FsCopy src dst))"

definition time_seconds :: "Time \<Rightarrow> int" where
  "time_seconds t = go_int64 (t_sec t - unixToInternal)"

definition ModePerm :: uint32 where "ModePerm = 511"

definition CreateFileInfo :: "'w pull_env \<Rightarrow> file_stat \<Rightarrow> string \<Rightarrow> 'w \<Rightarrow> (pull_error, FileInfo) result" where
  "CreateFileInfo E fi name w =
     (let f = FileInfo_zero\<lparr>fi_Name := name\<rparr>;
          plat = (if pe_SyncOwnership E \<or> pe_SyncXattrs E
                  then pe_PlatformData E name (pe_SyncOwnership E) (pe_SyncXattrs E) w else Inr PlatformData_zero)
      in (case plat of
            Inl e \<Rightarrow> Inl (EWrap ''reading platform data'' (EFs e))
          | Inr p \<Rightarrow>
              (let f1 = f\<lparr>fi_Platform := p\<rparr> in
               if st_IsSymlink fi then
                 (case pe_ReadSymlink E name w of
                    Inl e \<Rightarrow> Inl (EFs e)
                  | Inr target \<Rightarrow> Inr (f1\<lparr>fi_Type := FileInfoTypeSymlink, fi_SymlinkTarget := target, fi_NoPermissions := True\<rparr>))
               else
                 let f2 = f1\<lparr>fi_Permissions := st_Mode fi AND ModePerm, fi_ModifiedS := time_seconds (st_ModTime fi),
                             fi_ModifiedNs := t_nsec (st_ModTime fi)\<rparr>
                 in if st_IsDir fi then Inr (f2\<lparr>fi_Type := FileInfoTypeDirectory\<rparr>)
                    else Inr (f2\<lparr>fi_Size := st_Size fi, fi_Type := FileInfoTypeFile\<rparr>))))"

section \<open>Walking a directory\<close>

text \<open>
  \<open>fn\<close> is the function called for each item, with a state of type \<open>'a\<close> of its own. Directories may
  be nested arbitrarily deep, so the recursion has fuel; running out of it is an error of its own.
\<close>

fun walk ::
  "nat \<Rightarrow> 'w pull_env \<Rightarrow> (string \<Rightarrow> file_stat option \<Rightarrow> pull_error option \<Rightarrow> 'a \<Rightarrow> ('w, pull_error option \<times> 'a) pm)
     \<Rightarrow> string \<Rightarrow> file_stat \<Rightarrow> file_stat list \<Rightarrow> 'a \<Rightarrow> ('w, pull_error option \<times> 'a) pm"
and walk_names ::
  "nat \<Rightarrow> 'w pull_env \<Rightarrow> (string \<Rightarrow> file_stat option \<Rightarrow> pull_error option \<Rightarrow> 'a \<Rightarrow> ('w, pull_error option \<times> 'a) pm)
     \<Rightarrow> string \<Rightarrow> file_stat list \<Rightarrow> string list \<Rightarrow> 'a \<Rightarrow> ('w, pull_error option \<times> 'a) pm" where
  "walk 0 E fn path info ancestors acc = State_Monad.return (Some EOutOfFuel, acc)"
| "walk (Suc k) E fn path info ancestors acc =
     (case Canonicalize path of
        Inl e \<Rightarrow> State_Monad.return (Some (EPath e), acc)
      | Inr p \<Rightarrow> do {
          (err, acc1) \<leftarrow> fn p (Some info) None acc;
          case err of
            Some e \<Rightarrow> if st_IsDir info \<and> cause e = ESkipDir then State_Monad.return (None, acc1)
                       else State_Monad.return (Some e, acc1)
          | None \<Rightarrow>
              if \<not> st_IsDir info \<and> p \<noteq> ''.'' then State_Monad.return (None, acc1)
              else if pe_checkInfiniteRecursion E \<and> list_ex (pe_SameFile E info) ancestors
              then fn p (Some info) (Some ErrInfiniteRecursion) acc1
              else do {
                names \<leftarrow> look (pe_DirNames E p);
                case names of
                  Inl e \<Rightarrow> fn p (Some info) (Some (EFs e)) acc1
                | Inr ns \<Rightarrow> walk_names k E fn p (if pe_checkInfiniteRecursion E then ancestors @ [info] else ancestors) ns acc1
              }
        })"
| "walk_names k E fn path ancestors [] acc = State_Monad.return (None, acc)"
| "walk_names k E fn path ancestors (name # names) acc = do {
     let filename = filepath_Join [path, name];
     st \<leftarrow> Lstat E filename;
     (err, acc1) \<leftarrow> (case st of
         Inl e \<Rightarrow> fn filename None (Some e) acc
       | Inr info \<Rightarrow> walk k E fn filename info ancestors acc);
     case err of
       Some e \<Rightarrow>
         if cause e \<noteq> ESkipDir \<or> (case st of Inr info \<Rightarrow> \<not> st_IsDir info | Inl _ \<Rightarrow> False)
         then State_Monad.return (Some e, acc1)
         else walk_names k E fn path ancestors names acc1
     | None \<Rightarrow> walk_names k E fn path ancestors names acc1
   }"

definition Walk ::
  "nat \<Rightarrow> 'w pull_env \<Rightarrow> (string \<Rightarrow> file_stat option \<Rightarrow> pull_error option \<Rightarrow> 'a \<Rightarrow> ('w, pull_error option \<times> 'a) pm)
     \<Rightarrow> string \<Rightarrow> 'a \<Rightarrow> ('w, pull_error option \<times> 'a) pm" where
  "Walk k E fn root acc = do {
     st \<leftarrow> Lstat E root;
     case st of
       Inl e \<Rightarrow> fn root None (Some e) acc
     | Inr info \<Rightarrow> walk k E fn root info [] acc
   }"

section \<open>Reasoning about steps\<close>

definition triple :: "('s \<Rightarrow> bool) \<Rightarrow> ('s, 'a) state \<Rightarrow> ('a \<Rightarrow> 's \<Rightarrow> bool) \<Rightarrow> bool" where
  "triple P m Q \<longleftrightarrow> (\<forall>s. P s \<longrightarrow> (case run_state m s of (a, t) \<Rightarrow> Q a t))"

named_theorems hoare

lemma tripleD: "triple P m Q \<Longrightarrow> P s \<Longrightarrow> run_state m s = (a, t) \<Longrightarrow> Q a t"
  by (fastforce simp: triple_def)

lemma triple_return [hoare]: "(\<And>s. P s \<Longrightarrow> Q x s) \<Longrightarrow> triple P (State_Monad.return x) Q"
  by (simp add: triple_def)

lemma triple_bind [hoare]:
  assumes "triple P m R" and "\<And>a. triple (R a) (f a) Q"
  shows "triple P (m \<bind> f) Q"
  unfolding triple_def
proof (intro allI impI)
  fix s assume "P s"
  obtain a t where m: "run_state m s = (a, t)" by fastforce
  have "R a t" by (rule tripleD [OF assms(1) \<open>P s\<close> m])
  then show "case run_state (m \<bind> f) s of (a, t) \<Rightarrow> Q a t"
    using assms(2) [of a] m by (simp add: triple_def)
qed

lemma triple_weaken: "triple P m R \<Longrightarrow> (\<And>a s. R a s \<Longrightarrow> Q a s) \<Longrightarrow> triple P m Q"
  by (fastforce simp: triple_def)

lemma triple_strengthen: "triple R m Q \<Longrightarrow> (\<And>s. P s \<Longrightarrow> R s) \<Longrightarrow> triple P m Q"
  by (fastforce simp: triple_def)

lemma triple_look: "(\<And>s. P s \<Longrightarrow> Q (f (pu_fs s)) s) \<Longrightarrow> triple P (look f) Q"
  by (simp add: triple_def look_def)

lemma triple_Lstat: "(\<And>s. P s \<Longrightarrow> Q (case pe_Lstat E n (pu_fs s) of Inl e \<Rightarrow> Inl (EFs e) | Inr st \<Rightarrow> Inr st) s) \<Longrightarrow> triple P (Lstat E n) Q"
  by (simp add: Lstat_def triple_look)

lemma triple_orReturn:
  assumes "triple P m R" and "triple (R None) k Q" and "\<And>e s. R (Some e) s \<Longrightarrow> Q (Some e) s"
  shows "triple P (orReturn m k) Q"
  unfolding orReturn_def
proof (rule triple_bind [OF assms(1)])
  fix a show "triple (R a) (case a of None \<Rightarrow> k | Some x \<Rightarrow> State_Monad.return a) Q"
    using assms(2,3) by (cases a) (auto intro: triple_return)
qed

lemma triple_wrapErr: "triple P m (\<lambda>e. Q (map_option (EWrap msg) e)) \<Longrightarrow> triple P (wrapErr msg m) Q"
  unfolding wrapErr_def by (rule triple_bind, assumption) (rule triple_return)

lemma triple_split [hoare]:
  "(b \<Longrightarrow> triple P m Q) \<Longrightarrow> (\<not> b \<Longrightarrow> triple P m' Q) \<Longrightarrow> triple P (if b then m else m') Q"
  "(r = None \<Longrightarrow> triple P m Q) \<Longrightarrow> (\<And>x. r = Some x \<Longrightarrow> triple P (f x) Q) \<Longrightarrow> triple P (case r of None \<Rightarrow> m | Some x \<Rightarrow> f x) Q"
  "(\<And>x. q = Inl x \<Longrightarrow> triple P (g x) Q) \<Longrightarrow> (\<And>y. q = Inr y \<Longrightarrow> triple P (h y) Q) \<Longrightarrow> triple P (case q of Inl x \<Rightarrow> g x | Inr y \<Rightarrow> h y) Q"
  by (simp_all split: option.split sum.split)

text \<open>
  \<open>M\<close> says of the outcome what \<open>H\<close> leads to; it is kept by the changes to the directory around the
  call, and holds of any error if \<open>H\<close> does.
\<close>

lemma in_writable_dir_triple:
  assumes fn: "triple H (fn p) M" and err: "\<And>e s. H s \<Longrightarrow> M (Some e) s" "\<And>e e' s. M (Some e) s \<Longrightarrow> M (Some e') s"
    and chmod: "\<And>m. triple H (fs_do E (FsChmod (filepath_Dir p) m)) (\<lambda>_. H)"
      "\<And>e m. triple (M e) (fs_do E (FsChmod (filepath_Dir p) m)) (\<lambda>_. M e)"
  shows "triple H (in_writable_dir E fn p) M"
proof -
  have ret: "triple (M e) (State_Monad.return (case e of
      Some er \<Rightarrow> if g er then Some (EWrap msg er) else Some er | None \<Rightarrow> None)) M" for e g msg
    by (rule triple_return) (auto intro: err split: option.split)
  have prep: "triple H (if b then fs_do E (FsChmod (filepath_Dir p) m) else State_Monad.return None) (\<lambda>_. H)"
    "triple (M e) (if b then fs_do E (FsChmod (filepath_Dir p) m) else State_Monad.return None) (\<lambda>_. M e)" for b m e
    by (intro triple_split triple_return chmod; assumption)+
  show ?thesis unfolding in_writable_dir_def Let_def
    by (rule triple_bind [OF triple_look [where Q = "\<lambda>_. H"]], assumption)
      (intro triple_split triple_return triple_bind [OF prep(1)] triple_bind [OF fn] triple_bind [OF prep(2)] ret; erule err)
qed

lemma withPreparedTarget_triple:
  assumes f: "triple H f M" and err: "\<And>e s. H s \<Longrightarrow> M (Some e) s"
    and keep: "\<And>op. triple H (fs_do E op) (\<lambda>_. H)" "\<And>e op. triple (M e) (fs_do E op) (\<lambda>_. M e)"
  shows "triple H (withPreparedTarget E src dst f) M"
proof -
  have opt: "triple H (if b then fs_do E op else State_Monad.return None) (\<lambda>_. H)"
    "triple (M e) (if b then fs_do E op else State_Monad.return None) (\<lambda>_. M e)" for b op e
    by (intro triple_split triple_return keep; assumption)+
  have win: "triple H (if pe_isWindows E then fs_do E (FsChmod dst 438) \<bind> (\<lambda>_. (if \<not> pe_equalFold E src dst then fs_do E (FsRemove dst)
      else State_Monad.return None) \<bind> (\<lambda>e. case e of Some er \<Rightarrow> if IsNotExist er then f else State_Monad.return e | None \<Rightarrow> f)) else f) M"
    by (intro triple_split triple_bind [OF keep(1)] triple_bind [OF opt(1)] f triple_return) (simp add: err)
  have last: "triple (M e) ((case st of Inr info \<Rightarrow> if g st then fs_do E (FsChmod (filepath_Dir dst) (st_Mode info)) else State_Monad.return None
      | Inl _ \<Rightarrow> State_Monad.return None) \<bind> (\<lambda>_. State_Monad.return e)) M" for st e g
  proof (rule triple_bind [where R = "\<lambda>_. M e"])
    show "triple (M e) (case st of Inr info \<Rightarrow> if g st then fs_do E (FsChmod (filepath_Dir dst) (st_Mode info)) else State_Monad.return None
      | Inl _ \<Rightarrow> State_Monad.return None) (\<lambda>_. M e)" by (intro triple_split opt(2) triple_return keep; assumption)
  qed (rule triple_return)
  show ?thesis unfolding withPreparedTarget_def Let_def
    by (rule triple_bind [OF triple_look [where Q = "\<lambda>_. H"]], assumption)
      (intro triple_bind [OF opt(1)] triple_bind [OF win] last)
qed

text \<open>A walk keeps what the function called keeps of the state and of its own state.\<close>

lemma walk_names_triple:
  assumes fn: "\<And>path info err a. triple (J a) (fn path info err a) (\<lambda>x. J (snd x))"
    and wk: "\<And>path info anc a. triple (J a) (walk k E fn path info anc a) (\<lambda>x. J (snd x))"
  shows "triple (J acc) (walk_names k E fn path ancestors names acc) (\<lambda>x. J (snd x))"
proof (induction names arbitrary: acc)
  case (Cons n ns)
  have first: "triple (J acc) (case st of Inl e \<Rightarrow> fn (filepath_Join [path, n]) None (Some e) acc
      | Inr info \<Rightarrow> walk k E fn (filepath_Join [path, n]) info ancestors acc) (\<lambda>x. J (snd x))" for st
    by (intro triple_split fn wk)
  show ?case unfolding walk_names.simps Let_def case_prod_beta
    by (rule triple_bind [OF triple_Lstat [where Q = "\<lambda>_. J acc"]], assumption, rule triple_bind [OF first],
      intro triple_split triple_return Cons.IH) simp
qed (simp add: triple_def)

lemma walk_triple:
  assumes fn: "\<And>path info err a. triple (J a) (fn path info err a) (\<lambda>x. J (snd x))"
  shows "triple (J acc) (walk k E fn path info ancestors acc) (\<lambda>x. J (snd x))"
proof (induction k arbitrary: path info ancestors acc)
  case (Suc k)
  have names: "triple (J a) (walk_names k E fn p anc ns a) (\<lambda>x. J (snd x))" for p anc ns a
    by (rule walk_names_triple [OF fn Suc.IH])
  have list: "triple (J a) (look (pe_DirNames E p) \<bind> case_sum (\<lambda>e. fn p (Some info) (Some (EFs e)) a)
      (\<lambda>ns. walk_names k E fn p anc ns a)) (\<lambda>x. J (snd x))" for p a anc
    by (rule triple_bind [OF triple_look [where Q = "\<lambda>_. J a"]], assumption, intro triple_split fn names)
  show ?case unfolding walk.simps case_prod_beta
    by (intro triple_split triple_return, simp, rule triple_bind [OF fn], intro triple_split triple_return list fn; simp)
qed (simp add: triple_def)

lemma Walk_triple:
  assumes fn: "\<And>path info err a. triple (J a) (fn path info err a) (\<lambda>x. J (snd x))"
  shows "triple (J acc) (Walk k E fn root acc) (\<lambda>x. J (snd x))"
  unfolding Walk_def
  by (rule triple_bind [OF triple_Lstat [where Q = "\<lambda>_. J acc"]], assumption, intro triple_split fn walk_triple [OF fn])

subsection \<open>Which calls are made\<close>

text \<open>
  A property \<open>C\<close> of the disk holds and, since the calls \<open>old\<close>, only calls in \<open>A\<close> were made.
  \<open>keeps C A m\<close>: \<open>m\<close> keeps this.
\<close>

definition made :: "('w \<Rightarrow> bool) \<Rightarrow> (fs_op \<Rightarrow> bool) \<Rightarrow> (fs_op \<times> fs_error option) list \<Rightarrow> 'w puller \<Rightarrow> bool" where
  "made C A old s \<longleftrightarrow> C (pu_fs s) \<and> (\<exists>new. pu_calls s = old @ new \<and> (\<forall>c \<in> set new. A (fst c)))"

definition keeps :: "('w \<Rightarrow> bool) \<Rightarrow> (fs_op \<Rightarrow> bool) \<Rightarrow> ('w, 'a) pm \<Rightarrow> bool" where
  "keeps C A m \<longleftrightarrow> (\<forall>old. triple (made C A old) m (\<lambda>_. made C A old))"

named_theorems keeps_rules

lemma keepsD: "keeps C A m \<Longrightarrow> triple (made C A old) m (\<lambda>_. made C A old)"
  by (simp add: keeps_def)

lemma keeps_return [keeps_rules]: "keeps C A (State_Monad.return x)"
  by (simp add: keeps_def triple_def)

lemma keeps_bind [keeps_rules]: "keeps C A m \<Longrightarrow> (\<And>a. keeps C A (f a)) \<Longrightarrow> keeps C A (m \<bind> f)"
  unfolding keeps_def by (intro allI, rule triple_bind) auto

lemma keeps_look [keeps_rules]: "keeps C A (look f)"
  by (simp add: keeps_def triple_look)

lemma keeps_look_bind: "(\<And>w. keeps C A (g (f w))) \<Longrightarrow> keeps C A (look f \<bind> g)"
  by (auto simp: keeps_def triple_def look_def)

lemma keeps_Lstat [keeps_rules]: "keeps C A (Lstat E n)"
  by (simp add: Lstat_def keeps_look)

lemma keeps_send [keeps_rules]:
  "keeps C A (send_update j)" "keeps C A (send_scan n)" "keeps C A (queue_done n)" "keeps C A (newPullError n e)"
  by (simp_all add: keeps_def triple_def made_def send_update_def send_scan_def queue_done_def newPullError_def)

lemma keeps_orReturn [keeps_rules]: "keeps C A m \<Longrightarrow> keeps C A k \<Longrightarrow> keeps C A (orReturn m k)"
  unfolding orReturn_def by (rule keeps_bind) (auto intro: keeps_return split: option.split)

lemma keeps_wrapErr [keeps_rules]: "keeps C A m \<Longrightarrow> keeps C A (wrapErr msg m)"
  unfolding wrapErr_def by (rule keeps_bind, assumption) (rule keeps_return)

lemma keeps_split [keeps_rules]:
  "(b \<Longrightarrow> keeps C A m) \<Longrightarrow> (\<not> b \<Longrightarrow> keeps C A m') \<Longrightarrow> keeps C A (if b then m else m')"
  "(r = None \<Longrightarrow> keeps C A m) \<Longrightarrow> (\<And>x. r = Some x \<Longrightarrow> keeps C A (f x)) \<Longrightarrow> keeps C A (case r of None \<Rightarrow> m | Some x \<Rightarrow> f x)"
  "(\<And>x. q = Inl x \<Longrightarrow> keeps C A (g x)) \<Longrightarrow> (\<And>y. q = Inr y \<Longrightarrow> keeps C A (h y)) \<Longrightarrow> keeps C A (case q of Inl x \<Rightarrow> g x | Inr y \<Rightarrow> h y)"
  "(\<And>x y. p = (x, y) \<Longrightarrow> keeps C A (k x y)) \<Longrightarrow> keeps C A (case p of (x, y) \<Rightarrow> k x y)"
  by (simp_all split: option.split sum.split prod.split)

lemma keeps_fs_do:
  assumes "A op" and "\<And>w. C w \<Longrightarrow> C (snd (pe_exec E op w))"
  shows "keeps C A (fs_do E op)"
  unfolding keeps_def triple_def
proof (intro allI impI)
  fix old s assume "made C A old s"
  then obtain new where n: "C (pu_fs s)" "pu_calls s = old @ new" "\<forall>c \<in> set new. A (fst c)" by (auto simp: made_def)
  obtain e w where x: "pe_exec E op (pu_fs s) = (e, w)" by fastforce
  have "C w" using assms(2) [OF n(1)] x by simp
  then show "case run_state (fs_do E op) s of (a, t) \<Rightarrow> made C A old t"
    using n x assms(1) by (auto simp: fs_do_def made_def intro!: exI [of _ "new @ [(op, e)]"])
qed

lemma keeps_in_writable_dir [keeps_rules]:
  assumes "\<And>m. keeps C A (fs_do E (FsChmod (filepath_Dir path) m))" and "keeps C A (fn path)"
  shows "keeps C A (in_writable_dir E fn path)"
  unfolding in_writable_dir_def Let_def by (intro keeps_rules assms)

lemma keeps_TraversesSymlink [keeps_rules]: "keeps C A (TraversesSymlink E n)"
  unfolding TraversesSymlink_def by (intro keeps_rules)

lemma keeps_withPreparedTarget [keeps_rules]:
  assumes "\<And>m. keeps C A (fs_do E (FsChmod (filepath_Dir dst) m))" and "keeps C A f"
    and "pe_isWindows E \<Longrightarrow> keeps C A (fs_do E (FsChmod dst 438))" and "pe_isWindows E \<Longrightarrow> keeps C A (fs_do E (FsRemove dst))"
  shows "keeps C A (withPreparedTarget E src dst f)"
  unfolding withPreparedTarget_def Let_def by (intro keeps_rules assms)

lemma Walk_keeps [keeps_rules]:
  assumes "\<And>path info err acc. keeps C A (fn path info err acc)"
  shows "keeps C A (Walk k E fn root acc)"
proof -
  have "triple (made C A old) (Walk k E fn root acc) (\<lambda>_. made C A old)" for old
    by (rule Walk_triple [where J = "\<lambda>_. made C A old"]) (rule keepsD [OF assms])
  then show ?thesis by (simp add: keeps_def)
qed

subsection \<open>What is told to the database\<close>

text \<open>\<open>quiet m\<close>: \<open>m\<close> sends no update.\<close>

definition quiet :: "('w, 'a) pm \<Rightarrow> bool" where
  "quiet m \<longleftrightarrow> (\<forall>s. pu_updates (snd (run_state m s)) = pu_updates s)"

named_theorems quiet_rules

lemma quietD: "quiet m \<Longrightarrow> run_state m s = (a, t) \<Longrightarrow> pu_updates t = pu_updates s"
  unfolding quiet_def by (metis snd_conv)

lemma quiet_return [quiet_rules]: "quiet (State_Monad.return x)"
  by (simp add: quiet_def)

lemma quiet_bind [quiet_rules]: "quiet m \<Longrightarrow> (\<And>a. quiet (f a)) \<Longrightarrow> quiet (m \<bind> f)"
  by (simp add: quiet_def case_prod_beta)

lemma quiet_steps [quiet_rules]:
  "quiet (look g)" "quiet (Lstat E n)" "quiet (fs_do E op)" "quiet (send_scan n)" "quiet (queue_done n)" "quiet (newPullError n e)"
  by (simp_all add: quiet_def look_def Lstat_def fs_do_def send_scan_def queue_done_def newPullError_def case_prod_beta)

lemma quiet_split [quiet_rules]:
  "(b \<Longrightarrow> quiet m) \<Longrightarrow> (\<not> b \<Longrightarrow> quiet m') \<Longrightarrow> quiet (if b then m else m')"
  "(r = None \<Longrightarrow> quiet m) \<Longrightarrow> (\<And>x. r = Some x \<Longrightarrow> quiet (f x)) \<Longrightarrow> quiet (case r of None \<Rightarrow> m | Some x \<Rightarrow> f x)"
  "(\<And>x. q = Inl x \<Longrightarrow> quiet (g x)) \<Longrightarrow> (\<And>y. q = Inr y \<Longrightarrow> quiet (h y)) \<Longrightarrow> quiet (case q of Inl x \<Rightarrow> g x | Inr y \<Rightarrow> h y)"
  "(\<And>x y. p = (x, y) \<Longrightarrow> quiet (k x y)) \<Longrightarrow> quiet (case p of (x, y) \<Rightarrow> k x y)"
  by (simp_all split: option.split sum.split prod.split)

lemma quiet_orReturn [quiet_rules]: "quiet m \<Longrightarrow> quiet k \<Longrightarrow> quiet (orReturn m k)"
  unfolding orReturn_def by (intro quiet_rules)

lemma quiet_wrapErr [quiet_rules]: "quiet m \<Longrightarrow> quiet (wrapErr msg m)"
  unfolding wrapErr_def by (intro quiet_rules)

lemma quiet_in_writable_dir [quiet_rules]: "quiet (fn path) \<Longrightarrow> quiet (in_writable_dir E fn path)"
  unfolding in_writable_dir_def Let_def by (intro quiet_rules)

lemma quiet_helpers [quiet_rules]:
  "quiet (TraversesSymlink E n)" "quiet f \<Longrightarrow> quiet (withPreparedTarget E src dst f)"
  unfolding TraversesSymlink_def withPreparedTarget_def Let_def by (intro quiet_rules)+

lemma quiet_triple: "quiet m \<longleftrightarrow> (\<forall>u. triple (\<lambda>s. pu_updates s = u) m (\<lambda>_ s. pu_updates s = u))"
  by (auto simp: quiet_def triple_def case_prod_beta)

lemma quiet_Walk [quiet_rules]:
  assumes "\<And>path info err acc. quiet (fn path info err acc)"
  shows "quiet (Walk k E fn root acc)"
proof -
  have "triple (\<lambda>s. pu_updates s = u) (Walk k E fn root acc) (\<lambda>_ s. pu_updates s = u)" for u
    by (rule Walk_triple [where J = "\<lambda>_ s. pu_updates s = u"]) (use assms in \<open>simp add: quiet_triple\<close>)
  then show ?thesis by (simp add: quiet_triple)
qed

end
