(* ===== verification/ScanWalk.thy ===== *)
theory ScanWalk
  imports PullFs ScanBlocks
begin

text \<open>
  The scanner, \<open>lib/scanner/walk.go\<close>: the function called for every item of a folder, which decides
  from name, ignore patterns and the recorded state whether the item is skipped, reported or sent to
  the hashers, and the walks over a folder that call it. The filesystem is the one of the puller's
  handlers; Unicode normalisation and the clock are parameters, and \<open>wc_done\<close> says at which of the
  checks the context is done.
\<close>

unbundle bit_operations_syntax

section \<open>Standard library\<close>

text \<open>\<open>utf8.ValidString\<close>: no overlong forms, no surrogates, nothing above U+10FFFF.\<close>

definition utf8_cont :: "nat \<Rightarrow> bool" where "utf8_cont b \<longleftrightarrow> 128 \<le> b \<and> b \<le> 191"

fun utf8_valid :: "nat list \<Rightarrow> bool" where
  "utf8_valid [] = True"
| "utf8_valid (a # s) =
     (if a < 128 then utf8_valid s
      else if 194 \<le> a \<and> a \<le> 223 then (case s of b # t \<Rightarrow> utf8_cont b \<and> utf8_valid t | _ \<Rightarrow> False)
      else if 224 \<le> a \<and> a \<le> 239 then
        (case s of b # c # t \<Rightarrow> utf8_cont b \<and> (a = 224 \<longrightarrow> 160 \<le> b) \<and> (a = 237 \<longrightarrow> b \<le> 159) \<and> utf8_cont c \<and> utf8_valid t | _ \<Rightarrow> False)
      else if 240 \<le> a \<and> a \<le> 244 then
        (case s of b # c # d # t \<Rightarrow> utf8_cont b \<and> (a = 240 \<longrightarrow> 144 \<le> b) \<and> (a = 244 \<longrightarrow> b \<le> 143) \<and> utf8_cont c \<and> utf8_cont d \<and> utf8_valid t
         | _ \<Rightarrow> False)
      else False)"

definition utf8_ValidString :: "string \<Rightarrow> bool" where
  "utf8_ValidString s = utf8_valid (map char_code s)"

definition go_TrimPrefix :: "string \<Rightarrow> string \<Rightarrow> string" where
  "go_TrimPrefix s p = (if go_HasPrefix s p then drop (length p) s else s)"

text \<open>\<open>Time.Add\<close> with a duration in nanoseconds, for times and durations that do not overflow the seconds.\<close>

definition time_Add :: "Time \<Rightarrow> int \<Rightarrow> Time" where
  "time_Add t d = \<lparr>t_sec = t_sec t + (t_nsec t + d) div 1000000000, t_nsec = (t_nsec t + d) mod 1000000000\<rparr>"

section \<open>Configuration and results\<close>

record walk_config =
  wc_Subs :: "string list"
  wc_TempLifetime :: int
  wc_IgnorePerms :: bool
  wc_AutoNormalize :: bool
  wc_ShortID :: uint64
  wc_LocalFlags :: FlagLocal
  wc_ModTimeWindow :: int
  wc_ScanOwnership :: bool
  wc_ScanXattrs :: bool
  wc_NFC :: "string \<Rightarrow> string"
  wc_NFD :: "string \<Rightarrow> string"
  wc_isIOS :: bool
  wc_now :: Time
  wc_unixNow :: "nat \<Rightarrow> int"
  wc_done :: "nat \<Rightarrow> bool"

datatype ScanResult = ScanFile FileInfo | ScanErr string pull_error

text \<open>The variable of the closure, what was sent on the two channels, and the number of looks at the context.\<close>

record walk_acc =
  wa_ignoredParent :: string
  wa_toHash :: "FileInfo list"
  wa_finished :: "ScanResult list"
  wa_tick :: nat

abbreviation (input) errUTF8Invalid :: pull_error where "errUTF8Invalid \<equiv> EMsg ''item is not in UTF8 encoding''"
abbreviation (input) errUTF8Normalization :: pull_error where
  "errUTF8Normalization \<equiv> EMsg ''item is not in the correct UTF8 normalization form''"
abbreviation (input) errUTF8Conflict :: pull_error where
  "errUTF8Conflict \<equiv> EMsg ''item has UTF8 encoding conflict with another item''"

text \<open>A send that gives up when the context is done.\<close>

definition offer :: "walk_config \<Rightarrow> (walk_acc \<Rightarrow> walk_acc) \<Rightarrow> walk_acc \<Rightarrow> pull_error option \<times> walk_acc" where
  "offer c send acc =
     (let acc1 = acc\<lparr>wa_tick := wa_tick acc + 1\<rparr> in
      if wc_done c (wa_tick acc) then (Some EContextDone, acc1) else (None, send acc1))"

definition send_toHash :: "walk_config \<Rightarrow> FileInfo \<Rightarrow> walk_acc \<Rightarrow> pull_error option \<times> walk_acc" where
  "send_toHash c f = offer c (\<lambda>acc. acc\<lparr>wa_toHash := wa_toHash acc @ [f]\<rparr>)"

definition send_finished :: "walk_config \<Rightarrow> ScanResult \<Rightarrow> walk_acc \<Rightarrow> pull_error option \<times> walk_acc" where
  "send_finished c r = offer c (\<lambda>acc. acc\<lparr>wa_finished := wa_finished acc @ [r]\<rparr>)"

definition handleError :: "walk_config \<Rightarrow> string \<Rightarrow> string \<Rightarrow> pull_error \<Rightarrow> walk_acc \<Rightarrow> walk_acc" where
  "handleError c context path err acc = snd (send_finished c (ScanErr path (EWrap context err)) acc)"

section \<open>Items\<close>

definition CurrentFile :: "'w pull_env \<Rightarrow> string \<Rightarrow> FileInfo \<times> bool" where
  "CurrentFile E name =
     (case pe_GetDeviceFile E name of Inr (Some fi) \<Rightarrow> (fi, True) | _ \<Rightarrow> (FileInfo_zero, False))"

definition updateFileInfo :: "walk_config \<Rightarrow> bool \<Rightarrow> int \<Rightarrow> FileInfo \<Rightarrow> FileInfo \<Rightarrow> FileInfo" where
  "updateFileInfo c isWindows unixNow dst src =
     (let dst1 = (if fi_Type dst = FileInfoTypeFile \<and> isWindows
                  then dst\<lparr>fi_Permissions := fi_Permissions dst OR (fi_Permissions src AND 73)\<rparr> else dst)
      in dst1\<lparr>fi_Version := Vector_Update (fi_Version src) (wc_ShortID c) unixNow,
              fi_ModifiedBy := wc_ShortID c, fi_LocalFlags := wc_LocalFlags c,
              fi_PreviousBlocksHash := fi_BlocksHash src,
              fi_Platform := MergeWith (fi_Platform dst1) (fi_Platform src)\<rparr>)"

definition scan_comparison :: "walk_config \<Rightarrow> FileInfoComparison" where
  "scan_comparison c =
     \<lparr>ModTimeWindow = wc_ModTimeWindow c, IgnorePerms = wc_IgnorePerms c, IgnoreBlocks = True, IgnoreFlags = wc_LocalFlags c,
      IgnoreOwnership = \<not> wc_ScanOwnership c, IgnoreXattrs = \<not> wc_ScanXattrs c\<rparr>"

text \<open>The comparison with the recorded item in the three functions below; \<open>None\<close> for no change.\<close>

definition compare_current :: "walk_config \<Rightarrow> bool \<Rightarrow> FileInfo \<Rightarrow> bool \<Rightarrow> FileInfo \<Rightarrow> FileInfo option" where
  "compare_current c isWindows curFile hasCurFile f =
     (if hasCurFile then
        if IsEquivalentOptional isWindows curFile f (scan_comparison c) then None
        else if ShouldConflict curFile \<and> \<not> ShouldConflict f then Some (f\<lparr>fi_Version := DropOthers (fi_Version f) (wc_ShortID c)\<rparr>)
        else Some f
      else Some f)"

text \<open>\<open>CreateFileInfo\<close> takes the two switches as arguments.\<close>

definition scan_CreateFileInfo :: "walk_config \<Rightarrow> 'w pull_env \<Rightarrow> file_stat \<Rightarrow> string \<Rightarrow> 'w \<Rightarrow> (pull_error, FileInfo) result" where
  "scan_CreateFileInfo c E =
     CreateFileInfo (E\<lparr>pe_SyncOwnership := wc_ScanOwnership c, pe_SyncXattrs := wc_ScanXattrs c\<rparr>)"

definition retained_blockSize :: "int \<Rightarrow> FileInfo \<Rightarrow> bool \<Rightarrow> int" where
  "retained_blockSize size0 curFile hasCurFile =
     (let blockSize = BlockSize size0; curBlockSize = FileInfo_BlockSize curFile in
      if hasCurFile \<and> (blockSize > curBlockSize \<and> blockSize div curBlockSize \<le> 2 \<or> curBlockSize > blockSize \<and> curBlockSize div blockSize \<le> 2)
      then curBlockSize else blockSize)"

definition walkRegular :: "walk_config \<Rightarrow> 'w pull_env \<Rightarrow> string \<Rightarrow> file_stat \<Rightarrow> walk_acc \<Rightarrow> ('w, pull_error option \<times> walk_acc) pm" where
  "walkRegular c E relPath info acc = do {
     let (curFile, hasCurFile) = CurrentFile E relPath;
     r \<leftarrow> look (scan_CreateFileInfo c E info relPath);
     State_Monad.return (case r of
       Inl e \<Rightarrow> (Some e, acc)
     | Inr f0 \<Rightarrow>
         (let f = (updateFileInfo c (pe_isWindows E) (wc_unixNow c (wa_tick acc)) f0 curFile)
                    \<lparr>fi_NoPermissions := wc_IgnorePerms c, fi_RawBlockSize := go_int32 (retained_blockSize (st_Size info) curFile hasCurFile)\<rparr>
          in case compare_current c (pe_isWindows E) curFile hasCurFile f of
               None \<Rightarrow> (None, acc)
             | Some f1 \<Rightarrow> send_toHash c f1 acc))
   }"

definition walkDir :: "walk_config \<Rightarrow> 'w pull_env \<Rightarrow> string \<Rightarrow> file_stat \<Rightarrow> walk_acc \<Rightarrow> ('w, pull_error option \<times> walk_acc) pm" where
  "walkDir c E relPath info acc = do {
     let (curFile, hasCurFile) = CurrentFile E relPath;
     r \<leftarrow> look (scan_CreateFileInfo c E info relPath);
     State_Monad.return (case r of
       Inl e \<Rightarrow> (Some e, acc)
     | Inr f0 \<Rightarrow>
         (let f = (updateFileInfo c (pe_isWindows E) (wc_unixNow c (wa_tick acc)) f0 curFile)\<lparr>fi_NoPermissions := wc_IgnorePerms c\<rparr>
          in case compare_current c (pe_isWindows E) curFile hasCurFile f of
               None \<Rightarrow> (None, acc)
             | Some f1 \<Rightarrow> send_finished c (ScanFile f1) acc))
   }"

definition walkSymlink :: "walk_config \<Rightarrow> 'w pull_env \<Rightarrow> string \<Rightarrow> file_stat \<Rightarrow> walk_acc \<Rightarrow> ('w, pull_error option \<times> walk_acc) pm" where
  "walkSymlink c E relPath info acc =
     (if pe_isWindows E then State_Monad.return (None, acc)
      else do {
        r \<leftarrow> look (scan_CreateFileInfo c E info relPath);
        State_Monad.return (case r of
          Inl e \<Rightarrow> (Some e, acc)
        | Inr f0 \<Rightarrow>
            (let (curFile, hasCurFile) = CurrentFile E relPath;
                 f = updateFileInfo c (pe_isWindows E) (wc_unixNow c (wa_tick acc)) f0 curFile
             in case compare_current c (pe_isWindows E) curFile hasCurFile f of
                  None \<Rightarrow> (None, acc)
                | Some f1 \<Rightarrow> send_finished c (ScanFile f1) acc))
      })"

definition handleItem :: "walk_config \<Rightarrow> 'w pull_env \<Rightarrow> string \<Rightarrow> file_stat \<Rightarrow> walk_acc \<Rightarrow> ('w, pull_error option \<times> walk_acc) pm" where
  "handleItem c E path info acc =
     (if st_IsSymlink info then do {
        (err, acc1) \<leftarrow> walkSymlink c E path info acc;
        State_Monad.return (case err of Some e \<Rightarrow> (Some e, acc1) | None \<Rightarrow> (if st_IsDir info then Some ESkipDir else None, acc1))
      }
      else if st_IsDir info then walkDir c E path info acc
      else if st_IsRegular info then walkRegular c E path info acc
      else State_Monad.return (None, acc))"

section \<open>The walk function\<close>

definition normalizePath :: "walk_config \<Rightarrow> GOOS \<Rightarrow> string \<Rightarrow> string" where
  "normalizePath c os path = (if os = OS_Darwin \<or> wc_isIOS c then wc_NFD c path else wc_NFC c path)"

text \<open>\<open>SameFile\<close> is false on the nil info of a failed \<open>Lstat\<close>.\<close>

definition applyNormalization :: "'w pull_env \<Rightarrow> string \<Rightarrow> string \<Rightarrow> file_stat \<Rightarrow> ('w, (pull_error, string) result) pm" where
  "applyNormalization E path normPath info = do {
     st \<leftarrow> Lstat E normPath;
     if (case st of Inl e \<Rightarrow> IsNotExist e | Inr _ \<Rightarrow> False) then do {
       err \<leftarrow> fs_do E (FsRename path normPath);
       State_Monad.return (case err of Some e \<Rightarrow> Inl e | None \<Rightarrow> Inr normPath)
     }
     else if (case st of Inl _ \<Rightarrow> False | Inr normInfo \<Rightarrow> pe_SameFile E info normInfo) then do {
       let tempPath = TempNameWithPrefix (pe_sha256 E) normPath '''';
       err \<leftarrow> fs_do E (FsRename path tempPath);
       case err of
         Some e \<Rightarrow> State_Monad.return (Inl e)
       | None \<Rightarrow> do {
           err2 \<leftarrow> fs_do E (FsRename tempPath normPath);
           State_Monad.return (Inr (case err2 of Some _ \<Rightarrow> tempPath | None \<Rightarrow> normPath))
         }
     }
     else State_Monad.return (Inl errUTF8Conflict)
   }"

text \<open>The loop over the ignored parents of an item that is not ignored; it says whether it failed.\<close>

fun handle_parents ::
  "walk_config \<Rightarrow> 'w pull_env \<Rightarrow> string \<Rightarrow> string list \<Rightarrow> walk_acc \<Rightarrow> ('w, bool \<times> walk_acc) pm" where
  "handle_parents c E path [] acc = State_Monad.return (False, acc)"
| "handle_parents c E path (name # names) acc = do {
     let acc1 = acc\<lparr>wa_ignoredParent := filepath_Join [wa_ignoredParent acc, name]\<rparr>;
     st \<leftarrow> Lstat E (wa_ignoredParent acc1);
     case st of
       Inl e \<Rightarrow> State_Monad.return (True, handleError c ''scan'' (wa_ignoredParent acc1) e acc1)
     | Inr info \<Rightarrow> do {
         (err, acc2) \<leftarrow> handleItem c E (wa_ignoredParent acc1) info acc1;
         case err of
           Some e \<Rightarrow> State_Monad.return (True, handleError c ''scan'' path e acc2)
         | None \<Rightarrow> handle_parents c E path names acc2
       }
   }"

definition skip_of :: "file_stat option \<Rightarrow> pull_error option" where
  "skip_of info = (case info of Some i \<Rightarrow> if st_IsDir i then Some ESkipDir else None | None \<Rightarrow> None)"

text \<open>An item that is neither ignored nor internal, with the path it has after normalisation.\<close>

definition scan_item ::
  "walk_config \<Rightarrow> 'w pull_env \<Rightarrow> string \<Rightarrow> file_stat \<Rightarrow> walk_acc \<Rightarrow> ('w, pull_error option \<times> walk_acc) pm" where
  "scan_item c E path info acc =
     (let rel = go_TrimPrefix path (wa_ignoredParent acc @ ''/'') in
      if wa_ignoredParent acc = '''' \<or> rel = path then do {
        (err, acc1) \<leftarrow> handleItem c E path info (acc\<lparr>wa_ignoredParent := ''''\<rparr>);
        State_Monad.return (case err of Some e \<Rightarrow> (skip_of (Some info), handleError c ''scan'' path e acc1) | None \<Rightarrow> (None, acc1))
      }
      else do {
        (failed, acc1) \<leftarrow> handle_parents c E path ('''' # PathComponents rel) acc;
        State_Monad.return (if failed then (skip_of (Some info), acc1) else (None, acc1\<lparr>wa_ignoredParent := ''''\<rparr>))
      })"

text \<open>The walk gives an item that has no info only with an error.\<close>

definition walkAndHashFiles ::
  "walk_config \<Rightarrow> 'w pull_env \<Rightarrow> string \<Rightarrow> file_stat option \<Rightarrow> pull_error option \<Rightarrow> walk_acc \<Rightarrow> ('w, pull_error option \<times> walk_acc) pm" where
  "walkAndHashFiles c E path info err acc0 =
     (let acc = acc0\<lparr>wa_tick := wa_tick acc0 + 1\<rparr>; skip = skip_of info; norm = normalizePath c (pe_os E) path; m = pe_ignores E norm in
      if wc_done c (wa_tick acc0) then State_Monad.return (Some EContextDone, acc)
      else if \<not> utf8_ValidString path then State_Monad.return (skip, handleError c ''scan'' path errUTF8Invalid acc)
      else if IsTemporary path then do {
        (case info of
           Some i \<Rightarrow>
             if err = None \<and> st_IsRegular i \<and> time_Before (time_Add (st_ModTime i) (wc_TempLifetime c)) (wc_now c)
             then fs_do E (FsRemove path) else State_Monad.return None
         | None \<Rightarrow> State_Monad.return None);
        State_Monad.return (None, acc)
      }
      else if IsInternal path then State_Monad.return (skip, acc)
      else if R_IsIgnored m then
        (case info of
           Some i \<Rightarrow>
             if err \<noteq> None \<or> R_CanSkipDir m \<or> st_IsSymlink i then State_Monad.return (skip, acc)
             else if st_IsDir i \<and> (wa_ignoredParent acc = '''' \<or> \<not> IsParent norm (wa_ignoredParent acc))
             then State_Monad.return (None, acc\<lparr>wa_ignoredParent := norm\<rparr>)
             else State_Monad.return (None, acc)
         | None \<Rightarrow> State_Monad.return (skip, acc))
      else
        (case (err, info) of
           (Some e, _) \<Rightarrow> State_Monad.return (skip, if IsNotExist e then acc else handleError c ''scan'' norm e acc)
         | (None, None) \<Rightarrow> State_Monad.return (skip, acc)
         | (None, Some i) \<Rightarrow>
             if norm = ''.'' then State_Monad.return (None, acc)
             else do {
               r \<leftarrow> (if norm = path then State_Monad.return (Inr norm)
                     else if \<not> wc_AutoNormalize c then State_Monad.return (Inl errUTF8Normalization)
                     else applyNormalization E path norm i);
               case r of
                 Inl e \<Rightarrow> State_Monad.return (skip, handleError c ''normalizing path'' path e acc)
               | Inr p \<Rightarrow> scan_item c E p i acc
             }))"

section \<open>Walks\<close>

definition walk_start :: walk_acc where
  "walk_start = \<lparr>wa_ignoredParent = '''', wa_toHash = [], wa_finished = [], wa_tick = 0\<rparr>"

fun scan_subs :: "nat \<Rightarrow> walk_config \<Rightarrow> 'w pull_env \<Rightarrow> string list \<Rightarrow> walk_acc \<Rightarrow> ('w, walk_acc) pm" where
  "scan_subs k c E [] acc = State_Monad.return acc"
| "scan_subs k c E (sub # subs) acc = do {
     e \<leftarrow> TraversesSymlink E (filepath_Dir sub);
     case e of
       Some _ \<Rightarrow> scan_subs k c E subs acc
     | None \<Rightarrow> do {
         (err, acc1) \<leftarrow> Walk k E (walkAndHashFiles c E) sub acc;
         scan_subs k c E subs acc1
       }
   }"

text \<open>An error of a walk is logged.\<close>

definition scan :: "nat \<Rightarrow> walk_config \<Rightarrow> 'w pull_env \<Rightarrow> ('w, walk_acc) pm" where
  "scan k c E =
     (if wc_Subs c = [] then do { (err, acc) \<leftarrow> Walk k E (walkAndHashFiles c E) ''.'' walk_start; State_Monad.return acc }
      else scan_subs k c E (wc_Subs c) walk_start)"

text \<open>
  What comes out of the two kinds of walks: the results of the walk itself and, for the files sent to
  the hashers, what these make of them, or the files as they are. \<open>None\<close> is the hasher's panic.
\<close>

definition hash_result :: "(bytes \<Rightarrow> bytes) \<Rightarrow> hash_access \<Rightarrow> bytes \<Rightarrow> FileInfo \<Rightarrow> ScanResult option" where
  "hash_result sha256 ha content f =
     map_option (\<lambda>r. case r of Inl e \<Rightarrow> ScanErr (fi_Name f) (EWrap ''hashing'' (EMsg e)) | Inr g \<Rightarrow> ScanFile g) (hashFiles sha256 ha content f)"

definition walk_results :: "(FileInfo \<Rightarrow> ScanResult option) \<Rightarrow> walk_acc \<Rightarrow> ScanResult option list" where
  "walk_results hasher acc = map Some (wa_finished acc) @ map hasher (wa_toHash acc)"

definition walkWithoutHashing_results :: "walk_acc \<Rightarrow> ScanResult list" where
  "walkWithoutHashing_results acc = wa_finished acc @ map ScanFile (wa_toHash acc)"

section \<open>What a scan does to the disk\<close>

text \<open>
  \<open>calm A m\<close>: all calls that \<open>m\<close> makes are in \<open>A\<close>, and without a call the state is as before.
\<close>

definition calm :: "(fs_op \<Rightarrow> bool) \<Rightarrow> ('w, 'a) pm \<Rightarrow> bool" where
  "calm A m \<longleftrightarrow> (\<forall>s. \<exists>new. pu_calls (snd (run_state m s)) = pu_calls s @ new \<and> (\<forall>x\<in>set new. A (fst x)) \<and>
     (new = [] \<longrightarrow> snd (run_state m s) = s))"

named_theorems calm_rules

lemma calmD:
  assumes "calm A m" and "run_state m s = (a, t)"
  obtains new where "pu_calls t = pu_calls s @ new" "\<forall>x\<in>set new. A (fst x)" "new = [] \<Longrightarrow> t = s"
  using assms unfolding calm_def by (metis snd_conv)

lemma calm_return [calm_rules]: "calm A (State_Monad.return x)"
  by (simp add: calm_def)

lemma calm_look [calm_rules]: "calm A (look f)"
  by (simp add: calm_def look_def)

lemma calm_Lstat [calm_rules]: "calm A (Lstat E n)"
  by (simp add: Lstat_def calm_look)

lemma calm_bind [calm_rules]:
  assumes "calm A m" and "\<And>a. calm A (f a)"
  shows "calm A (m \<bind> f)"
  unfolding calm_def
proof
  fix s
  obtain a t where m: "run_state m s = (a, t)" by fastforce
  obtain b u where f: "run_state (f a) t = (b, u)" by fastforce
  obtain n1 where n1: "pu_calls t = pu_calls s @ n1" "\<forall>x\<in>set n1. A (fst x)" "n1 = [] \<Longrightarrow> t = s" using calmD [OF assms(1) m] by blast
  obtain n2 where n2: "pu_calls u = pu_calls t @ n2" "\<forall>x\<in>set n2. A (fst x)" "n2 = [] \<Longrightarrow> u = t" using calmD [OF assms(2) f] by blast
  show "\<exists>new. pu_calls (snd (run_state (m \<bind> f) s)) = pu_calls s @ new \<and> (\<forall>x\<in>set new. A (fst x)) \<and>
      (new = [] \<longrightarrow> snd (run_state (m \<bind> f) s) = s)"
    using n1 n2 by (auto simp: m f intro!: exI [of _ "n1 @ n2"])
qed

lemma calm_split [calm_rules]:
  "(b \<Longrightarrow> calm A m) \<Longrightarrow> (\<not> b \<Longrightarrow> calm A m') \<Longrightarrow> calm A (if b then m else m')"
  "(r = None \<Longrightarrow> calm A m) \<Longrightarrow> (\<And>x. r = Some x \<Longrightarrow> calm A (f x)) \<Longrightarrow> calm A (case r of None \<Rightarrow> m | Some x \<Rightarrow> f x)"
  "(\<And>x. q = Inl x \<Longrightarrow> calm A (g x)) \<Longrightarrow> (\<And>y. q = Inr y \<Longrightarrow> calm A (h y)) \<Longrightarrow> calm A (case q of Inl x \<Rightarrow> g x | Inr y \<Rightarrow> h y)"
  "(\<And>x y. p = (x, y) \<Longrightarrow> calm A (k x y)) \<Longrightarrow> calm A (case p of (x, y) \<Rightarrow> k x y)"
  by (simp_all split: option.split sum.split prod.split)

lemma calm_fs_do: "A op \<Longrightarrow> calm A (fs_do E op)"
  by (auto simp: calm_def fs_do_def split: prod.split)

lemma calm_walk_names:
  assumes "\<And>path info err a. calm A (fn path info err a)" and "\<And>path info anc a. calm A (walk k E fn path info anc a)"
  shows "calm A (walk_names k E fn path anc names a)"
  by (induction names arbitrary: a) (auto simp: Let_def intro!: calm_rules assms)

lemma calm_walk [calm_rules]:
  assumes "\<And>path info err a. calm A (fn path info err a)"
  shows "calm A (walk k E fn path info anc a)"
proof (induction k arbitrary: path info anc a)
  case (Suc k)
  note names = calm_walk_names [where E = E, OF assms Suc.IH]
  show ?case unfolding walk.simps by (intro calm_rules assms names)
qed (simp add: calm_return)

lemma calm_Walk:
  assumes "\<And>path info err a. calm A (fn path info err a)"
  shows "calm A (Walk k E fn root a)"
  unfolding Walk_def by (intro calm_rules assms)

lemma calm_TraversesSymlink [calm_rules]: "calm A (TraversesSymlink E n)"
  unfolding TraversesSymlink_def by (intro calm_rules)

text \<open>The calls of a scan: temporary files are removed and names are normalised.\<close>

definition scan_call :: "walk_config \<Rightarrow> 'w pull_env \<Rightarrow> fs_op \<Rightarrow> bool" where
  "scan_call c E op \<longleftrightarrow>
     (\<exists>p. op = FsRemove p \<and> IsTemporary p) \<or>
     wc_AutoNormalize c \<and> (\<exists>p n. n = normalizePath c (pe_os E) p \<and> n \<noteq> p \<and>
       op \<in> {FsRename p n, FsRename p (TempNameWithPrefix (pe_sha256 E) n ''''), FsRename (TempNameWithPrefix (pe_sha256 E) n '''') n})"

lemma calm_handleItem [calm_rules]: "calm A (handleItem c E path info acc)"
  unfolding handleItem_def walkSymlink_def walkDir_def walkRegular_def Let_def by (intro calm_rules)

lemma calm_handle_parents [calm_rules]: "calm A (handle_parents c E path names acc)"
  by (induction names arbitrary: acc) (auto simp: Let_def intro!: calm_rules)

lemma calm_scan_item [calm_rules]: "calm A (scan_item c E path info acc)"
  unfolding scan_item_def Let_def by (intro calm_rules)

lemma calm_applyNormalization:
  assumes "wc_AutoNormalize c" and "normalizePath c (pe_os E) path \<noteq> path"
  shows "calm (scan_call c E) (applyNormalization E path (normalizePath c (pe_os E) path) info)"
  unfolding applyNormalization_def Let_def
  by (intro calm_rules calm_fs_do) (use assms in \<open>auto simp: scan_call_def\<close>)

lemma calm_walkAndHashFiles: "calm (scan_call c E) (walkAndHashFiles c E path info err acc)"
proof -
  have t: "calm (scan_call c E) (fs_do E (FsRemove path))" if "IsTemporary path"
    using that by (intro calm_fs_do) (auto simp: scan_call_def)
  show ?thesis unfolding walkAndHashFiles_def Let_def
    by (intro calm_rules t calm_applyNormalization) (auto split: prod.split option.split intro!: calm_rules calm_applyNormalization t)
qed

section \<open>What a walk reaches\<close>

text \<open>Paths as the walk makes them: the elements below the root of the folder.\<close>

definition path_of :: "string list \<Rightarrow> string" where
  "path_of es = (if es = [] then ''.'' else go_join ''/'' es)"

lemma path_of_Canonicalize: "list_all plain_elem es \<Longrightarrow> Canonicalize (path_of es) = Inr (path_of es)"
  by (cases "es = []") (simp_all add: path_of_def Canonicalize_plain, simp add: Canonicalize_def Clean_simple go_HasPrefix_def)

lemma path_of_Join:
  assumes "list_all plain_elem es" and "plain_elem n"
  shows "filepath_Join [path_of es, n] = path_of (es @ [n])"
proof (cases "es = []")
  case True
  have n: "n \<noteq> []" "\<not> is_rooted n" using assms(2) join_plain_not_rooted(1) [of "[n]"] by (auto simp: plain_elem_def)
  have "path_elems (''.'' @ CHR ''/'' # n) = [n]" using path_elems_snoc [OF assms(2), of "''.''"]
    by (simp add: path_elems_def is_rooted_def clean_step_def)
  then show ?thesis using True n by (simp add: filepath_Join_def path_of_def filepath_Clean_elems is_rooted_def)
next
  case False
  have "list_all plain_elem (es @ [n])" using assms by simp
  then have "filepath_Clean (go_join ''/'' (es @ [n])) = go_join ''/'' (es @ [n])" by (rule Clean_join_plain) simp
  then show ?thesis using False assms join_plain_not_rooted(2) [OF assms(1) False]
    by (simp add: filepath_Join_def path_of_def go_join_snoc plain_elem_def)
qed

text \<open>The tree below an item has at most \<open>k\<close> levels, its directories list plain names, and its paths are in \<open>N\<close>.\<close>

fun tree_fits :: "(string list \<Rightarrow> bool) \<Rightarrow> nat \<Rightarrow> 'w pull_env \<Rightarrow> 'w \<Rightarrow> string list \<Rightarrow> file_stat \<Rightarrow> bool" where
  "tree_fits N 0 E w es info = False"
| "tree_fits N (Suc k) E w es info =
     (N es \<and> (st_IsDir info \<or> es = [] \<longrightarrow>
       (case pe_DirNames E (path_of es) w of
          Inl _ \<Rightarrow> True
        | Inr ns \<Rightarrow> \<forall>n\<in>set ns. plain_elem n \<and>
            (case pe_Lstat E (path_of (es @ [n])) w of Inl _ \<Rightarrow> True | Inr i \<Rightarrow> tree_fits N k E w (es @ [n]) i))))"

text \<open>The items found from \<open>es\<close> on by going down the directories in \<open>D\<close>.\<close>

inductive found :: "(string list \<Rightarrow> file_stat \<Rightarrow> bool) \<Rightarrow> 'w pull_env \<Rightarrow> 'w \<Rightarrow> string list \<Rightarrow> file_stat \<Rightarrow> string list \<Rightarrow> file_stat \<Rightarrow> bool"
  for D E w where
  found_here: "found D E w es i es i"
| found_below: "found D E w es i fs j"
  if "D es i" and "st_IsDir i \<or> es = []" and "pe_DirNames E (path_of es) w = Inr ns" and "n \<in> set ns"
    and "pe_Lstat E (path_of (es @ [n])) w = Inr m" and "found D E w (es @ [n]) m fs j"

lemma calm_bindE:
  assumes "run_state (m \<bind> f) s = (b, u)" and "pu_calls u = pu_calls s" and "calm A m" and "\<And>a. calm A (f a)"
  obtains a where "run_state m s = (a, s)" "run_state (f a) s = (b, u)"
proof -
  obtain a t where m: "run_state m s = (a, t)" by fastforce
  have f: "run_state (f a) t = (b, u)" using assms(1) m by simp
  obtain n1 where n1: "pu_calls t = pu_calls s @ n1" "n1 = [] \<Longrightarrow> t = s" using calmD [OF assms(3) m] by metis
  obtain n2 where n2: "pu_calls u = pu_calls t @ n2" using calmD [OF assms(4) f] by metis
  have "t = s" using n1 n2 assms(2) by simp
  then show ?thesis using that m f by blast
qed

lemma calm_end: "calm A m \<Longrightarrow> run_state m s = (a, t) \<Longrightarrow> pu_calls t = pu_calls s \<Longrightarrow> t = s"
  by (elim calmD) auto

text \<open>
  A walk on a disk that stays as it is: the function called keeps \<open>J\<close> and only adds to its state,
  \<open>P\<close> holds of an item it was called for, and where it did not want to go on below a directory of \<open>D\<close>, \<open>F\<close>
  does. Then \<open>P\<close> holds of every item found, or \<open>F\<close> of a directory above it.
\<close>

locale tree_walk =
  fixes A :: "fs_op \<Rightarrow> bool" and N :: "string list \<Rightarrow> bool" and E :: "'w pull_env" and s :: "'w puller"
    and fn :: "string \<Rightarrow> file_stat option \<Rightarrow> pull_error option \<Rightarrow> 'a \<Rightarrow> ('w, pull_error option \<times> 'a) pm"
    and J :: "'a \<Rightarrow> bool" and le :: "'a \<Rightarrow> 'a \<Rightarrow> bool" and D :: "string list \<Rightarrow> file_stat \<Rightarrow> bool"
    and P :: "'a \<Rightarrow> string list \<Rightarrow> file_stat \<Rightarrow> bool" and F :: "'a \<Rightarrow> string list \<Rightarrow> bool"
  assumes no_junctions: "\<not> pe_checkInfiniteRecursion E"
    and fn_calm: "calm A (fn p io eo a)"
    and le_refl: "le a a" and le_trans: "le a b \<Longrightarrow> le b d \<Longrightarrow> le a d"
    and P_mono: "le a b \<Longrightarrow> P a es i \<Longrightarrow> P b es i" and F_mono: "le a b \<Longrightarrow> F a es \<Longrightarrow> F b es"
    and fn_item: "J a \<Longrightarrow> N es \<Longrightarrow> list_all plain_elem es \<Longrightarrow> pe_Lstat E (path_of es) (pu_fs s) = Inr i \<Longrightarrow>
      run_state (fn (path_of es) (Some i) None a) s = ((e, b), s) \<Longrightarrow>
      J b \<and> le a b \<and> P b es i \<and> (e = None \<or> e = Some ESkipDir \<and> st_IsDir i \<and> (D es i \<longrightarrow> F b es))"
    and fn_error: "J a \<Longrightarrow> run_state (fn p io (Some er) a) s = ((e, b), s) \<Longrightarrow>
      J b \<and> le a b \<and> (e = None \<or> e = Some ESkipDir \<and> (\<exists>i. io = Some i \<and> st_IsDir i))"
begin

definition covers :: "'a \<Rightarrow> string list \<Rightarrow> string list \<Rightarrow> file_stat \<Rightarrow> bool" where
  "covers b es fs j \<longleftrightarrow> P b fs j \<or> (\<exists>ds. prefix es ds \<and> strict_prefix ds fs \<and> F b ds)"

definition walked :: "'a \<Rightarrow> 'a \<Rightarrow> string list \<Rightarrow> file_stat \<Rightarrow> bool" where
  "walked a b es i \<longleftrightarrow> J b \<and> le a b \<and> (\<forall>fs j. found D E (pu_fs s) es i fs j \<longrightarrow> covers b es fs j)"

lemma cover_mono: "le a b \<Longrightarrow> covers a es fs j \<Longrightarrow> covers b es fs j"
  unfolding covers_def using P_mono F_mono by blast

lemma walk_calm: "calm A (walk k E fn p i anc a)"
  by (rule calm_walk [OF fn_calm])

lemma names_calm: "calm A (walk_names k E fn p anc ns a)"
  by (rule calm_walk_names [OF fn_calm walk_calm])

lemma found_longer: "found D E w es i fs j \<Longrightarrow> prefix es fs"
  by (induction rule: found.induct) (auto dest: append_prefixD)

lemma walk_names_covers:
  assumes wk: "\<And>es i a e b t. tree_fits N k E (pu_fs s) es i \<Longrightarrow> J a \<Longrightarrow> list_all plain_elem es \<Longrightarrow>
      pe_Lstat E (path_of es) (pu_fs s) = Inr i \<Longrightarrow> run_state (walk k E fn (path_of es) i anc a) s = ((e, b), t) \<Longrightarrow>
      pu_calls t = pu_calls s \<Longrightarrow> walked a b es i \<and> (e = None \<or> e = Some ESkipDir \<and> st_IsDir i)"
    and ns: "\<forall>n\<in>set ns. plain_elem n \<and>
      (case pe_Lstat E (path_of (es @ [n])) (pu_fs s) of Inl _ \<Rightarrow> True | Inr i \<Rightarrow> tree_fits N k E (pu_fs s) (es @ [n]) i)"
    and es: "list_all plain_elem es" and J: "J a"
    and run: "run_state (walk_names k E fn (path_of es) anc ns a) s = ((e, b), t)" and calls: "pu_calls t = pu_calls s"
  shows "e = None \<and> J b \<and> le a b \<and> (\<forall>n\<in>set ns. \<forall>m. pe_Lstat E (path_of (es @ [n])) (pu_fs s) = Inr m \<longrightarrow>
    (\<forall>fs j. found D E (pu_fs s) (es @ [n]) m fs j \<longrightarrow> covers b es fs j))"
  using ns J run
proof (induction ns arbitrary: a)
  case Nil
  then show ?case by (simp add: le_refl)
next
  case (Cons n ns)
  let ?p = "path_of (es @ [n])"
  have n: "plain_elem n" and p: "filepath_Join [path_of es, n] = ?p" using Cons.prems(1) path_of_Join [OF es] by auto
  have pl: "list_all plain_elem (es @ [n])" using es n by simp
  let ?first = "\<lambda>st. case st of Inl e \<Rightarrow> fn ?p None (Some e) a | Inr info \<Rightarrow> walk k E fn ?p info anc a"
  have c1: "calm A (?first st)" for st by (intro calm_rules fn_calm walk_calm)
  obtain st where st: "run_state (Lstat E ?p) s = (st, s)" by (simp add: Lstat_def look_def)
  then have st': "st = (case pe_Lstat E ?p (pu_fs s) of Inl e \<Rightarrow> Inl (EFs e) | Inr st \<Rightarrow> Inr st)" by (simp add: Lstat_def look_def)
  let ?rest = "\<lambda>(err, acc1). case err of
       Some e \<Rightarrow> if cause e \<noteq> ESkipDir \<or> (case st of Inr info \<Rightarrow> \<not> st_IsDir info | Inl _ \<Rightarrow> False)
         then State_Monad.return (Some e, acc1) else walk_names k E fn (path_of es) anc ns acc1
     | None \<Rightarrow> walk_names k E fn (path_of es) anc ns acc1"
  have run2: "run_state (?first st \<bind> ?rest) s = ((e, b), t)" using Cons.prems(3) st by (simp add: p Let_def)
  have c2: "calm A (?rest x)" for x by (intro calm_rules names_calm)
  obtain x where x: "run_state (?first st) s = (x, s)" "run_state (?rest x) s = ((e, b), t)"
    using calm_bindE [OF run2 calls c1 c2] .
  obtain e1 a1 where [simp]: "x = (e1, a1)" by fastforce
  have 1: "J a1 \<and> le a a1 \<and> (e1 = None \<or> e1 = Some ESkipDir \<and> (\<forall>i. st = Inr i \<longrightarrow> st_IsDir i)) \<and>
      (\<forall>m. pe_Lstat E ?p (pu_fs s) = Inr m \<longrightarrow> walked a a1 (es @ [n]) m)"
  proof (cases "pe_Lstat E ?p (pu_fs s)")
    case (Inl er)
    then have "run_state (fn ?p None (Some (EFs er)) a) s = ((e1, a1), s)" using x(1) st' by simp
    then show ?thesis using fn_error [OF Cons.prems(2)] Inl st' by fastforce
  next
    case (Inr i)
    then have "run_state (walk k E fn ?p i anc a) s = ((e1, a1), s)" using x(1) st' by simp
    moreover have "tree_fits N k E (pu_fs s) (es @ [n]) i" using Cons.prems(1) Inr by simp
    ultimately have "walked a a1 (es @ [n]) i \<and> (e1 = None \<or> e1 = Some ESkipDir \<and> st_IsDir i)"
      using wk [OF _ Cons.prems(2) pl Inr] by simp
    then show ?thesis using Inr st' by (simp add: walked_def)
  qed
  have "run_state (walk_names k E fn (path_of es) anc ns a1) s = ((e, b), t)"
    using x(2) 1 by (auto split: sum.splits)
  then have 2: "e = None \<and> J b \<and> le a1 b \<and> (\<forall>n\<in>set ns. \<forall>m. pe_Lstat E (path_of (es @ [n])) (pu_fs s) = Inr m \<longrightarrow>
      (\<forall>fs j. found D E (pu_fs s) (es @ [n]) m fs j \<longrightarrow> covers b es fs j))"
    using Cons.IH [of a1] Cons.prems(1) 1 by simp
  have "covers b es fs j" if "pe_Lstat E ?p (pu_fs s) = Inr m" "found D E (pu_fs s) (es @ [n]) m fs j" for m fs j
  proof -
    have "covers a1 (es @ [n]) fs j" using 1 that by (simp add: walked_def)
    then have "covers a1 es fs j" unfolding covers_def by (meson append_prefixD)
    then show ?thesis using cover_mono 2 by blast
  qed
  moreover have "le a b" using le_trans [of a a1 b] 1 2 by simp
  ultimately show ?case using 2 by simp
qed

lemma walk_covers:
  assumes "tree_fits N k E (pu_fs s) es i" and "J a" and "list_all plain_elem es" and "pe_Lstat E (path_of es) (pu_fs s) = Inr i"
    and "run_state (walk k E fn (path_of es) i anc a) s = ((e, b), t)" and "pu_calls t = pu_calls s"
  shows "walked a b es i \<and> (e = None \<or> e = Some ESkipDir \<and> st_IsDir i)"
  using assms
proof (induction k arbitrary: es i anc a e b t)
  case (Suc k)
  let ?p = "path_of es" and ?w = "pu_fs s"
  let ?down = "\<lambda>acc1. look (pe_DirNames E ?p) \<bind> (\<lambda>names. case names of
      Inl e \<Rightarrow> fn ?p (Some i) (Some (EFs e)) acc1 | Inr ns \<Rightarrow> walk_names k E fn ?p anc ns acc1)"
  let ?rest = "\<lambda>(err, acc1). case err of
      Some e \<Rightarrow> if st_IsDir i \<and> cause e = ESkipDir then State_Monad.return (None, acc1) else State_Monad.return (Some e, acc1)
    | None \<Rightarrow> if \<not> st_IsDir i \<and> ?p \<noteq> ''.'' then State_Monad.return (None, acc1) else ?down acc1"
  have nj: "pe_checkInfiniteRecursion E = False" using no_junctions by simp
  have run: "run_state (fn ?p (Some i) None a \<bind> ?rest) s = ((e, b), t)"
    using Suc.prems(5) nj unfolding walk.simps path_of_Canonicalize [OF Suc.prems(3)] sum.case by (simp only: simp_thms if_False)
  have dot: "?p = ''.'' \<longleftrightarrow> es = []"
  proof (cases "es = []")
    case False
    have "es \<noteq> [''.'']" using Suc.prems(3) by (auto simp: plain_elem_def)
    then show ?thesis using join_plain_not_rooted(3) [OF Suc.prems(3) False] False by (auto simp: path_of_def)
  qed (simp add: path_of_def)
  have c: "calm A (?rest x)" for x by (intro calm_rules names_calm fn_calm)
  obtain x where x: "run_state (fn ?p (Some i) None a) s = (x, s)" "run_state (?rest x) s = ((e, b), t)"
    using calm_bindE [OF run Suc.prems(6) fn_calm c] .
  obtain e1 a1 where x1: "x = (e1, a1)" by fastforce
  have f: "J a1 \<and> le a a1 \<and> P a1 es i \<and> (e1 = None \<or> e1 = Some ESkipDir \<and> st_IsDir i \<and> (D es i \<longrightarrow> F a1 es))"
    using fn_item [OF Suc.prems(2) _ Suc.prems(3,4)] Suc.prems(1) x(1) x1 by auto
  have here: "covers a1 es es i" using f by (simp add: covers_def)
  consider (skip) "e1 = Some ESkipDir" "st_IsDir i" "D es i \<longrightarrow> F a1 es" | (leaf) "e1 = None" "\<not> st_IsDir i" "es \<noteq> []"
    | (down) "e1 = None" "st_IsDir i \<or> es = []" using f by auto
  then show ?case
  proof cases
    case skip
    have "covers a1 es fs j" if "found D E ?w es i fs j" for fs j
      using that
    proof cases
      case (found_below ns n m)
      have "strict_prefix es fs" using found_longer [OF found_below(6)] by (auto simp: prefix_def strict_prefix_def)
      then show ?thesis using skip(3) found_below(1) unfolding covers_def by blast
    qed (simp add: here)
    moreover have "e = None" "b = a1" using x(2) x1 skip by simp_all
    ultimately show ?thesis using f by (simp add: walked_def)
  next
    case leaf
    have "covers a1 es fs j" if "found D E ?w es i fs j" for fs j
      using that by cases (use leaf here in auto)
    moreover have "e = None" "b = a1" using x(2) x1 leaf dot by simp_all
    ultimately show ?thesis using f by (simp add: walked_def)
  next
    case down
    have nl: "\<not> (\<not> st_IsDir i \<and> ?p \<noteq> ''.'')" using down(2) dot by blast
    have run2: "run_state (?down a1) s = ((e, b), t)"
      using x(2) unfolding x1 down(1) prod.case option.case if_not_P [OF nl] .
    show ?thesis
    proof (cases "pe_DirNames E ?p ?w")
      case (Inl er)
      then have r: "run_state (fn ?p (Some i) (Some (EFs er)) a1) s = ((e, b), t)" using run2 by (simp add: look_def)
      have "t = s" using calm_end [OF fn_calm r Suc.prems(6)] .
      then have g: "J b \<and> le a1 b \<and> (e = None \<or> e = Some ESkipDir \<and> st_IsDir i)" using fn_error r f by blast
      have "covers b es fs j" if "found D E ?w es i fs j" for fs j
        using that by cases (use Inl cover_mono [of a1 b] here g in auto)
      then show ?thesis using g f le_trans [of a a1 b] by (simp add: walked_def)
    next
      case (Inr ns)
      then have r: "run_state (walk_names k E fn ?p anc ns a1) s = ((e, b), t)" using run2 by (simp add: look_def)
      have ns: "\<forall>n\<in>set ns. plain_elem n \<and>
          (case pe_Lstat E (path_of (es @ [n])) ?w of Inl _ \<Rightarrow> True | Inr i \<Rightarrow> tree_fits N k E ?w (es @ [n]) i)"
        using Suc.prems(1) down Inr by auto
      have g: "e = None \<and> J b \<and> le a1 b \<and> (\<forall>n\<in>set ns. \<forall>m. pe_Lstat E (path_of (es @ [n])) ?w = Inr m \<longrightarrow>
          (\<forall>fs j. found D E ?w (es @ [n]) m fs j \<longrightarrow> covers b es fs j))"
        by (rule walk_names_covers [OF _ ns Suc.prems(3) conjunct1 [OF f] r Suc.prems(6)]) (rule Suc.IH; assumption)
      have "covers b es fs j" if "found D E ?w es i fs j" for fs j
        using that by cases (use Inr cover_mono [of a1 b] here g in auto)
      then show ?thesis using g f le_trans [of a a1 b] by (simp add: walked_def)
    qed
  qed
qed simp

lemma walk_reaches:
  assumes "tree_fits N k E (pu_fs s) es i" and "J a" and "list_all plain_elem es" and "pe_Lstat E (path_of es) (pu_fs s) = Inr i"
    and "run_state (walk k E fn (path_of es) i anc a) s = ((e, b), t)" and "pu_calls t = pu_calls s"
  shows "J b \<and> le a b \<and> (\<forall>fs j. found D E (pu_fs s) es i fs j \<longrightarrow> P b fs j \<or> (\<exists>ds. prefix es ds \<and> strict_prefix ds fs \<and> F b ds))"
  using walk_covers [OF assms] unfolding walked_def covers_def by blast

end

section \<open>The scanner's walk function in a walk\<close>

text \<open>
  What a record made from an item says about it; on Windows the executable bits may come from the record
  before.
\<close>

definition same_item :: "walk_config \<Rightarrow> bool \<Rightarrow> FileInfo \<Rightarrow> FileInfo \<Rightarrow> bool" where
  "same_item c isWindows f0 f \<longleftrightarrow>
     fi_Name f = fi_Name f0 \<and> fi_Type f = fi_Type f0 \<and> fi_Size f = fi_Size f0 \<and> fi_ModifiedS f = fi_ModifiedS f0 \<and>
     fi_ModifiedNs f = fi_ModifiedNs f0 \<and> fi_SymlinkTarget f = fi_SymlinkTarget f0 \<and> \<not> fi_Deleted f \<and>
     (\<exists>x. fi_Permissions f = fi_Permissions f0 OR (if isWindows then x AND 73 else 0)) \<and>
     (\<exists>q. fi_Platform f = MergeWith (fi_Platform f0) q) \<and> fi_LocalFlags f = wc_LocalFlags c"

text \<open>
  The item was sent on, or is recorded already; items that are neither files, directories nor
  symlinks are passed over, and so are symlinks on Windows.
\<close>

definition passed_over :: "'w pull_env \<Rightarrow> file_stat \<Rightarrow> bool" where
  "passed_over E i \<longleftrightarrow> (if st_IsSymlink i then pe_isWindows E else \<not> st_IsDir i \<and> \<not> st_IsRegular i)"

definition accounted :: "walk_config \<Rightarrow> 'w pull_env \<Rightarrow> walk_acc \<Rightarrow> string \<Rightarrow> FileInfo \<Rightarrow> bool" where
  "accounted c E acc p f \<longleftrightarrow> f \<in> set (wa_toHash acc) \<or> ScanFile f \<in> set (wa_finished acc) \<or>
     snd (CurrentFile E p) \<and> IsEquivalentOptional (pe_isWindows E) (fst (CurrentFile E p)) f (scan_comparison c)"

definition scan_outcome :: "walk_config \<Rightarrow> 'w pull_env \<Rightarrow> 'w \<Rightarrow> walk_acc \<Rightarrow> string \<Rightarrow> file_stat \<Rightarrow> bool" where
  "scan_outcome c E w acc p i \<longleftrightarrow> passed_over E i \<or>
     (\<exists>f0 f. scan_CreateFileInfo c E i p w = Inr f0 \<and> same_item c (pe_isWindows E) f0 f \<and> accounted c E acc p f)"

text \<open>An error was reported for the item or a directory above it.\<close>

definition scan_failed :: "walk_acc \<Rightarrow> string list \<Rightarrow> bool" where
  "scan_failed acc es \<longleftrightarrow> (\<exists>ds e. prefix ds es \<and> ScanErr (path_of ds) e \<in> set (wa_finished acc))"

text \<open>The directories below which the scan goes on, and the items that are to be reported.\<close>

definition descends :: "'w pull_env \<Rightarrow> string list \<Rightarrow> file_stat \<Rightarrow> bool" where
  "descends E es i \<longleftrightarrow> (let p = path_of es; m = pe_ignores E p in
     utf8_ValidString p \<and> (IsTemporary p \<or> \<not> IsInternal p \<and> (if R_IsIgnored m then \<not> R_CanSkipDir m \<and> \<not> st_IsSymlink i else True)))"

definition scannable :: "'w pull_env \<Rightarrow> string list \<Rightarrow> bool" where
  "scannable E es \<longleftrightarrow> (let p = path_of es in
     es \<noteq> [] \<and> utf8_ValidString p \<and> \<not> IsTemporary p \<and> \<not> IsInternal p \<and> \<not> R_IsIgnored (pe_ignores E p))"

definition normal_path :: "walk_config \<Rightarrow> 'w pull_env \<Rightarrow> string list \<Rightarrow> bool" where
  "normal_path c E es \<longleftrightarrow> normalizePath c (pe_os E) (path_of es) = path_of es"

definition acc_le :: "walk_acc \<Rightarrow> walk_acc \<Rightarrow> bool" where
  "acc_le a b \<longleftrightarrow> set (wa_toHash a) \<subseteq> set (wa_toHash b) \<and> set (wa_finished a) \<subseteq> set (wa_finished b)"

definition acc_ok :: "walk_acc \<Rightarrow> bool" where
  "acc_ok acc \<longleftrightarrow> wa_ignoredParent acc = '''' \<or> (\<exists>ips. list_all plain_elem ips \<and> wa_ignoredParent acc = path_of ips)"

definition item_done :: "walk_config \<Rightarrow> 'w pull_env \<Rightarrow> 'w \<Rightarrow> walk_acc \<Rightarrow> string list \<Rightarrow> file_stat \<Rightarrow> bool" where
  "item_done c E w acc es i \<longleftrightarrow> scannable E es \<longrightarrow> scan_outcome c E w acc (path_of es) i \<or> scan_failed acc es"

lemma acc_le_refl: "acc_le a a" and acc_le_trans: "acc_le a b \<Longrightarrow> acc_le b d \<Longrightarrow> acc_le a d"
  by (auto simp: acc_le_def)

lemma scan_failed_mono: "acc_le a b \<Longrightarrow> scan_failed a es \<Longrightarrow> scan_failed b es"
  by (auto simp: acc_le_def scan_failed_def)

lemma accounted_mono: "acc_le a b \<Longrightarrow> accounted c E a p f \<Longrightarrow> accounted c E b p f"
  by (auto simp: acc_le_def accounted_def)

lemma scan_outcome_mono: "acc_le a b \<Longrightarrow> scan_outcome c E w a p i \<Longrightarrow> scan_outcome c E w b p i"
  unfolding scan_outcome_def using accounted_mono [of a b] by blast

lemma item_done_mono: "acc_le a b \<Longrightarrow> item_done c E w a es i \<Longrightarrow> item_done c E w b es i"
  unfolding item_done_def by (auto intro: scan_failed_mono scan_outcome_mono)

lemma send_undone:
  assumes "\<And>n. \<not> wc_done c n"
  shows "send_toHash c f acc = (None, acc\<lparr>wa_tick := wa_tick acc + 1, wa_toHash := wa_toHash acc @ [f]\<rparr>)"
    and "send_finished c r acc = (None, acc\<lparr>wa_tick := wa_tick acc + 1, wa_finished := wa_finished acc @ [r]\<rparr>)"
  using assms by (simp_all add: send_toHash_def send_finished_def offer_def Let_def)

lemma handleError_reports:
  assumes "\<And>n. \<not> wc_done c n" and "prefix ds es"
  shows "acc_le acc (handleError c x (path_of ds) e acc)" and "scan_failed (handleError c x (path_of ds) e acc) es"
    and "wa_ignoredParent (handleError c x p e acc) = wa_ignoredParent acc"
  using assms by (auto simp: handleError_def send_undone acc_le_def scan_failed_def)

lemma updateFileInfo_same:
  "\<not> fi_Deleted f0 \<Longrightarrow> same_item c win f0 (updateFileInfo c win now f0 src)"
  by (auto simp: same_item_def updateFileInfo_def Let_def intro: exI [of _ 0] exI [of _ "fi_Permissions src"])

lemma same_item_update:
  assumes "same_item c win f0 f"
  shows "same_item c win f0 (f\<lparr>fi_NoPermissions := b\<rparr>)" and "same_item c win f0 (f\<lparr>fi_NoPermissions := b, fi_RawBlockSize := n\<rparr>)"
    and "same_item c win f0 (f\<lparr>fi_Version := v\<rparr>)"
  using assms by (simp_all add: same_item_def)

lemma CreateFileInfo_not_deleted: "CreateFileInfo E i p w = Inr f0 \<Longrightarrow> \<not> fi_Deleted f0 \<and> fi_Name f0 = p"
  by (auto simp: CreateFileInfo_def FileInfo_zero_def Let_def split: sum.splits if_splits)

lemma compare_current_same:
  assumes "same_item c win f0 f"
  shows "case compare_current c win curFile has f of
      None \<Rightarrow> has \<and> IsEquivalentOptional win curFile f (scan_comparison c) | Some f1 \<Rightarrow> same_item c win f0 f1"
  using assms same_item_update(3) [OF assms] by (simp add: compare_current_def)

lemma compared_item:
  assumes nd: "\<And>n. \<not> wc_done c n" and f0: "scan_CreateFileInfo c E i p w = Inr f0" and f: "same_item c (pe_isWindows E) f0 f"
    and cur: "CurrentFile E p = (curFile, has)" and send: "send = send_toHash c \<or> send = (\<lambda>f. send_finished c (ScanFile f))"
    and r: "r = (case compare_current c (pe_isWindows E) curFile has f of None \<Rightarrow> (None, acc) | Some f1 \<Rightarrow> send f1 acc)"
  shows "fst r = None \<and> wa_ignoredParent (snd r) = wa_ignoredParent acc \<and> acc_le acc (snd r) \<and> scan_outcome c E w (snd r) p i"
proof (cases "compare_current c (pe_isWindows E) curFile has f")
  case None
  then have "accounted c E acc p f" using compare_current_same [OF f, where curFile = curFile and has = has] cur by (simp add: accounted_def)
  then show ?thesis using None r f0 f acc_le_refl unfolding scan_outcome_def by auto
next
  case (Some f1)
  then have s: "same_item c (pe_isWindows E) f0 f1" using compare_current_same [OF f, where curFile = curFile and has = has] by simp
  have "r = send f1 acc" using Some r by simp
  then have x: "fst r = None" "wa_ignoredParent (snd r) = wa_ignoredParent acc" "acc_le acc (snd r)" "accounted c E (snd r) p f1"
    using send by (auto simp: send_undone [OF nd] acc_le_def accounted_def)
  then show ?thesis using f0 s unfolding scan_outcome_def by blast
qed

lemma scan_CreateFileInfo_same:
  "scan_CreateFileInfo c E i p w = Inr f0 \<Longrightarrow> same_item c win f0 (updateFileInfo c win now f0 src)"
  unfolding scan_CreateFileInfo_def by (rule updateFileInfo_same) (drule CreateFileInfo_not_deleted, simp)

lemma handleItem_done:
  assumes nd: "\<And>n. \<not> wc_done c n" and run: "run_state (handleItem c E p i acc) s = ((e, b), t)"
  shows "wa_ignoredParent b = wa_ignoredParent acc \<and> acc_le acc b \<and> (e = None \<longrightarrow> scan_outcome c E (pu_fs s) b p i)"
proof -
  obtain curFile has where cur: "CurrentFile E p = (curFile, has)" by fastforce
  show ?thesis
  proof (cases "scan_CreateFileInfo c E i p (pu_fs s)")
    case (Inl er)
    have "b = acc \<and> (e = None \<longrightarrow> passed_over E i)"
      using run Inl
      by (cases "st_IsSymlink i"; cases "st_IsDir i"; cases "st_IsRegular i"; cases "pe_isWindows E")
        (auto simp: handleItem_def walkSymlink_def walkDir_def walkRegular_def cur look_def passed_over_def)
    then show ?thesis using acc_le_refl [of acc] by (auto simp: scan_outcome_def)
  next
    case (Inr f0)
    note same = scan_CreateFileInfo_same [OF Inr] same_item_update(1,2) [OF scan_CreateFileInfo_same [OF Inr]]
    consider (win) "st_IsSymlink i" "pe_isWindows E" | (link) "st_IsSymlink i" "\<not> pe_isWindows E" | (dir) "\<not> st_IsSymlink i" "st_IsDir i"
      | (regular) "\<not> st_IsSymlink i" "\<not> st_IsDir i" "st_IsRegular i" | (other) "\<not> st_IsSymlink i" "\<not> st_IsDir i" "\<not> st_IsRegular i" by blast
    then show ?thesis
    proof cases
      case win
      then show ?thesis using run acc_le_refl [of acc] by (auto simp: handleItem_def walkSymlink_def scan_outcome_def passed_over_def)
    next
      case link
      let ?f = "updateFileInfo c (pe_isWindows E) (wc_unixNow c (wa_tick acc)) f0 curFile"
      define r where "r = (case compare_current c (pe_isWindows E) curFile has ?f of None \<Rightarrow> (None, acc) | Some f1 \<Rightarrow> send_finished c (ScanFile f1) acc)"
      have st: "fst r = None \<and> wa_ignoredParent (snd r) = wa_ignoredParent acc \<and> acc_le acc (snd r) \<and> scan_outcome c E (pu_fs s) (snd r) p i"
        by (rule compared_item [where send = "\<lambda>f. send_finished c (ScanFile f)", OF nd Inr same(1) cur _ r_def]) simp
      have "run_state (walkSymlink c E p i acc) s = (r, s)" using link by (simp add: walkSymlink_def cur look_def Inr r_def Let_def)
      then have "b = snd r" using run link st by (cases r) (auto simp: handleItem_def split: option.splits)
      then show ?thesis using st by simp
    next
      case dir
      let ?f = "(updateFileInfo c (pe_isWindows E) (wc_unixNow c (wa_tick acc)) f0 curFile)\<lparr>fi_NoPermissions := wc_IgnorePerms c\<rparr>"
      define r where "r = (case compare_current c (pe_isWindows E) curFile has ?f of None \<Rightarrow> (None, acc) | Some f1 \<Rightarrow> send_finished c (ScanFile f1) acc)"
      have st: "fst r = None \<and> wa_ignoredParent (snd r) = wa_ignoredParent acc \<and> acc_le acc (snd r) \<and> scan_outcome c E (pu_fs s) (snd r) p i"
        by (rule compared_item [where send = "\<lambda>f. send_finished c (ScanFile f)", OF nd Inr same(2) cur _ r_def]) simp
      have "run_state (walkDir c E p i acc) s = (r, s)" by (simp add: walkDir_def cur look_def Inr r_def Let_def)
      then have "b = snd r" using run dir by (simp add: handleItem_def)
      then show ?thesis using st by simp
    next
      case regular
      let ?f = "(updateFileInfo c (pe_isWindows E) (wc_unixNow c (wa_tick acc)) f0 curFile)
        \<lparr>fi_NoPermissions := wc_IgnorePerms c, fi_RawBlockSize := go_int32 (retained_blockSize (st_Size i) curFile has)\<rparr>"
      define r where "r = (case compare_current c (pe_isWindows E) curFile has ?f of None \<Rightarrow> (None, acc) | Some f1 \<Rightarrow> send_toHash c f1 acc)"
      have st: "fst r = None \<and> wa_ignoredParent (snd r) = wa_ignoredParent acc \<and> acc_le acc (snd r) \<and> scan_outcome c E (pu_fs s) (snd r) p i"
        by (rule compared_item [where send = "send_toHash c", OF nd Inr same(3) cur _ r_def]) simp
      have "run_state (walkRegular c E p i acc) s = (r, s)" by (simp add: walkRegular_def cur look_def Inr r_def Let_def)
      then have "b = snd r" using run regular by (simp add: handleItem_def)
      then show ?thesis using st by simp
    next
      case other
      then show ?thesis using run acc_le_refl [of acc] by (auto simp: handleItem_def scan_outcome_def passed_over_def)
    qed
  qed
qed

lemma trim_parent:
  assumes es: "list_all plain_elem es" "es \<noteq> []" and ips: "list_all plain_elem ips"
    and t: "go_TrimPrefix (path_of es) (path_of ips @ ''/'') \<noteq> path_of es"
  obtains rest where "ips \<noteq> []" "rest \<noteq> []" "es = ips @ rest" "PathComponents (go_TrimPrefix (path_of es) (path_of ips @ ''/'')) = rest"
proof -
  obtain rel where rel: "path_of es = path_of ips @ CHR ''/'' # rel" "go_TrimPrefix (path_of es) (path_of ips @ ''/'') = rel"
    using t by (auto simp: go_TrimPrefix_def go_HasPrefix_iff prefix_def split: if_splits)
  have e: "es = go_split (CHR ''/'') (path_of ips) @ go_split (CHR ''/'') rel"
    using join_plain_not_rooted(3) [OF es] es(2) rel(1) go_split_append by (metis path_of_def)
  have "ips \<noteq> []" using e es(1) by (auto simp: path_of_def plain_elem_def)
  then have "es = ips @ go_split (CHR ''/'') rel" using e join_plain_not_rooted(3) [OF ips] by (simp add: path_of_def)
  moreover have "go_split (CHR ''/'') rel \<noteq> []" by (induction rel) (auto split: list.split)
  moreover have "PathComponents (go_TrimPrefix (path_of es) (path_of ips @ ''/'')) = go_split (CHR ''/'') rel"
    by (simp only: rel(2) PathComponents_def)
  ultimately show ?thesis using that \<open>ips \<noteq> []\<close> by blast
qed

lemma still:
  assumes "\<And>A. calm A m" and "run_state m s = (a, t)"
  shows "t = s"
proof -
  obtain new where n: "pu_calls t = pu_calls s @ new" "\<forall>x\<in>set new. False" "new = [] \<longrightarrow> t = s"
    using assms(1) [of "\<lambda>_. False"] assms(2) unfolding calm_def by (metis snd_conv)
  have "new = []" using n(2) by (metis list.set_intros(1) neq_Nil_conv)
  then show ?thesis using n(3) by simp
qed

lemma parent_step:
  assumes nd: "\<And>n. \<not> wc_done c n" and p: "filepath_Join [wa_ignoredParent acc, name] = path_of ips" "prefix ips es"
    and i: "pe_Lstat E (path_of es) (pu_fs s) = Inr i"
    and run: "run_state (handle_parents c E (path_of es) (name # names) acc) s = ((failed, b), t)"
  shows "failed \<and> scan_failed b es \<and> acc_le acc b \<and> wa_ignoredParent b = path_of ips \<or>
    (\<exists>acc2. run_state (handle_parents c E (path_of es) names acc2) s = ((failed, b), t) \<and> wa_ignoredParent acc2 = path_of ips \<and>
      acc_le acc acc2 \<and> (ips = es \<longrightarrow> scan_outcome c E (pu_fs s) acc2 (path_of es) i))"
proof -
  define acc1 where "acc1 = acc\<lparr>wa_ignoredParent := path_of ips\<rparr>"
  have a1: "wa_ignoredParent acc1 = path_of ips" "acc_le acc acc1" by (simp_all add: acc1_def acc_le_def)
  show ?thesis
  proof (cases "pe_Lstat E (path_of ips) (pu_fs s)")
    case (Inl e)
    then have b: "failed" "b = handleError c ''scan'' (path_of ips) (EFs e) acc1"
      using run by (auto simp: p(1) Lstat_def look_def acc1_def Let_def)
    have "acc_le acc1 b" "scan_failed b es" "wa_ignoredParent b = path_of ips"
      unfolding b(2) by (simp_all only: handleError_reports [OF nd p(2)] a1(1))
    then show ?thesis using b(1) acc_le_trans [OF a1(2)] by simp
  next
    case (Inr j)
    obtain e acc2 u where h: "run_state (handleItem c E (path_of ips) j acc1) s = ((e, acc2), u)" by (metis prod.collapse)
    have [simp]: "u = s" by (rule still [OF calm_handleItem h])
    note d = handleItem_done [OF nd h]
    have le: "acc_le acc acc2" using d a1 acc_le_trans by blast
    show ?thesis
    proof (cases e)
      case None
      then have "run_state (handle_parents c E (path_of es) names acc2) s = ((failed, b), t)"
        using run Inr h by (simp add: p(1) Lstat_def look_def acc1_def Let_def)
      moreover have "ips = es \<longrightarrow> scan_outcome c E (pu_fs s) acc2 (path_of es) i" using d None Inr i by auto
      ultimately show ?thesis using d a1 le by auto
    next
      case (Some er)
      then have b: "failed" "b = handleError c ''scan'' (path_of es) er acc2"
        using run Inr h by (auto simp: p(1) Lstat_def look_def acc1_def Let_def)
      have "acc_le acc2 b" "scan_failed b es" "wa_ignoredParent b = wa_ignoredParent acc2"
        unfolding b(2) by (simp_all only: handleError_reports [OF nd prefix_order.refl])
      then show ?thesis using b(1) d a1(1) acc_le_trans [OF le] by simp
    qed
  qed
qed

lemma handle_parents_done:
  assumes nd: "\<And>n. \<not> wc_done c n" and es: "list_all plain_elem es" and i: "pe_Lstat E (path_of es) (pu_fs s) = Inr i"
    and "wa_ignoredParent acc = path_of ips" and "es = ips @ names"
    and "ips = es \<longrightarrow> scan_outcome c E (pu_fs s) acc (path_of es) i"
    and "run_state (handle_parents c E (path_of es) names acc) s = ((failed, b), t)"
  shows "acc_le acc b \<and> acc_ok b \<and> (if failed then scan_failed b es else scan_outcome c E (pu_fs s) b (path_of es) i)"
  using assms(4-7)
proof (induction names arbitrary: acc ips)
  case Nil
  then show ?case using es acc_le_refl by (auto simp: acc_ok_def)
next
  case (Cons name names)
  have pl: "list_all plain_elem (ips @ [name])" and pre: "prefix (ips @ [name]) es" using Cons.prems(2) es by auto
  then have "filepath_Join [wa_ignoredParent acc, name] = path_of (ips @ [name])"
    using Cons.prems(1) path_of_Join [of ips name] by simp
  from parent_step [OF nd this pre i Cons.prems(4)] show ?case
  proof (elim disjE exE conjE)
    fix acc2
    assume r: "run_state (handle_parents c E (path_of es) names acc2) s = ((failed, b), t)"
      and a: "wa_ignoredParent acc2 = path_of (ips @ [name])" "acc_le acc acc2"
      and o: "ips @ [name] = es \<longrightarrow> scan_outcome c E (pu_fs s) acc2 (path_of es) i"
    have "es = (ips @ [name]) @ names" using Cons.prems(2) by simp
    then show ?thesis using Cons.IH [OF a(1) _ o r] a(2) acc_le_trans by blast
  next
    assume "failed" "scan_failed b es" "acc_le acc b" "wa_ignoredParent b = path_of (ips @ [name])"
    then show ?thesis using pl unfolding acc_ok_def by metis
  qed
qed

lemma skip_of_cases: "skip_of (Some i) = None \<or> skip_of (Some i) = Some ESkipDir \<and> st_IsDir i"
  by (simp add: skip_of_def)

lemma scan_item_done:
  assumes nd: "\<And>n. \<not> wc_done c n" and ok: "acc_ok acc" and es: "list_all plain_elem es" "es \<noteq> []"
    and i: "pe_Lstat E (path_of es) (pu_fs s) = Inr i" and run: "run_state (scan_item c E (path_of es) i acc) s = ((e, b), t)"
  shows "acc_ok b \<and> acc_le acc b \<and> (scan_outcome c E (pu_fs s) b (path_of es) i \<or> scan_failed b es) \<and>
    (e = None \<or> e = Some ESkipDir \<and> st_IsDir i \<and> scan_failed b es)"
proof (cases "wa_ignoredParent acc = '''' \<or> go_TrimPrefix (path_of es) (wa_ignoredParent acc @ ''/'') = path_of es")
  case True
  let ?acc = "acc\<lparr>wa_ignoredParent := ''''\<rparr>"
  have a: "acc_le acc ?acc" by (simp add: acc_le_def)
  obtain e1 b1 u where h: "run_state (handleItem c E (path_of es) i ?acc) s = ((e1, b1), u)" by (metis prod.collapse)
  note d = handleItem_done [OF nd h]
  have r: "(e, b) = (case e1 of Some er \<Rightarrow> (skip_of (Some i), handleError c ''scan'' (path_of es) er b1) | None \<Rightarrow> (None, b1))"
    using run True h by (simp add: scan_item_def Let_def)
  have le: "acc_le acc b1" using d a acc_le_trans by blast
  show ?thesis
  proof (cases e1)
    case None
    then show ?thesis using r d le by (simp add: acc_ok_def)
  next
    case (Some er)
    note he = handleError_reports [OF nd prefix_order.refl]
    have "b = handleError c ''scan'' (path_of es) er b1" "e = skip_of (Some i)" using r Some by simp_all
    then show ?thesis using he d le acc_le_trans skip_of_cases by (auto simp: acc_ok_def)
  qed
next
  case False
  then obtain ips where ips: "list_all plain_elem ips" "wa_ignoredParent acc = path_of ips" using ok by (auto simp: acc_ok_def)
  obtain rest where rest: "ips \<noteq> []" "es = ips @ rest" "rest \<noteq> []"
    "PathComponents (go_TrimPrefix (path_of es) (path_of ips @ ''/'')) = rest"
    using trim_parent [OF es ips(1)] False ips(2) by metis
  obtain failed b1 u where h: "run_state (handle_parents c E (path_of es) ('''' # rest) acc) s = ((failed, b1), u)" by (metis prod.collapse)
  have r: "(e, b) = (if failed then (skip_of (Some i), b1) else (None, b1\<lparr>wa_ignoredParent := ''''\<rparr>))"
    using run h False rest(4) ips(2) by (simp add: scan_item_def Let_def del: handle_parents.simps)
  have j: "filepath_Join [wa_ignoredParent acc, ''''] = path_of ips"
    using Clean_join_plain [OF ips(1) rest(1)] rest(1) ips(2) join_plain_not_rooted(2) [OF ips(1) rest(1)]
    by (simp add: filepath_Join_def path_of_def)
  have d: "acc_le acc b1 \<and> acc_ok b1 \<and> (if failed then scan_failed b1 es else scan_outcome c E (pu_fs s) b1 (path_of es) i)"
  proof -
    have "prefix ips es" using rest(2) by simp
    from parent_step [OF nd j this i h] show ?thesis
    proof (elim disjE exE conjE)
      fix acc2
      assume a: "run_state (handle_parents c E (path_of es) rest acc2) s = ((failed, b1), u)" "wa_ignoredParent acc2 = path_of ips"
        "acc_le acc acc2" "ips = es \<longrightarrow> scan_outcome c E (pu_fs s) acc2 (path_of es) i"
      from handle_parents_done [OF nd es(1) i a(2) rest(2) a(4,1)] show ?thesis using a(3) acc_le_trans by metis
    next
      assume "failed" "scan_failed b1 es" "acc_le acc b1" "wa_ignoredParent b1 = path_of ips"
      then show ?thesis using ips(1) unfolding acc_ok_def by metis
    qed
  qed
  show ?thesis
  proof (cases failed)
    case True
    then show ?thesis using r d skip_of_cases by auto
  next
    case False
    then have b: "b = b1\<lparr>wa_ignoredParent := ''''\<rparr>" "e = None" using r by simp_all
    have le: "acc_le b1 b" by (simp add: b(1) acc_le_def)
    have "scan_outcome c E (pu_fs s) b (path_of es) i" by (rule scan_outcome_mono [OF le]) (use d False in simp)
    then show ?thesis using d b(2) acc_le_trans [OF _ le] by (auto simp: acc_ok_def b(1))
  qed
qed

lemma walkAndHashFiles_item:
  assumes nd: "\<And>n. \<not> wc_done c n" and ok: "acc_ok acc" and N: "normal_path c E es" and es: "list_all plain_elem es"
    and i: "pe_Lstat E (path_of es) (pu_fs s) = Inr i"
    and run: "run_state (walkAndHashFiles c E (path_of es) (Some i) None acc) s = ((e, b), s)"
  shows "acc_ok b \<and> acc_le acc b \<and> item_done c E (pu_fs s) b es i \<and>
    (e = None \<or> e = Some ESkipDir \<and> st_IsDir i \<and> (descends E es i \<longrightarrow> scan_failed b es))"
proof -
  let ?p = "path_of es" and ?acc = "acc\<lparr>wa_tick := wa_tick acc + 1\<rparr>"
  have a: "acc_ok ?acc" "acc_le acc ?acc" using ok by (simp_all add: acc_ok_def acc_le_def)
  have n: "normalizePath c (pe_os E) ?p = ?p" using N by (simp add: normal_path_def)
  have dot: "?p = ''.'' \<longleftrightarrow> es = []"
  proof (cases "es = []")
    case False
    have "es \<noteq> [''.'']" using es by (auto simp: plain_elem_def)
    then show ?thesis using join_plain_not_rooted(3) [OF es False] False by (auto simp: path_of_def)
  qed (simp add: path_of_def)
  consider (utf8) "\<not> utf8_ValidString ?p" | (temp) "utf8_ValidString ?p" "IsTemporary ?p"
    | (internal) "utf8_ValidString ?p" "\<not> IsTemporary ?p" "IsInternal ?p"
    | (ignored) "utf8_ValidString ?p" "\<not> IsTemporary ?p" "\<not> IsInternal ?p" "R_IsIgnored (pe_ignores E ?p)"
    | (root) "utf8_ValidString ?p" "\<not> IsTemporary ?p" "\<not> IsInternal ?p" "\<not> R_IsIgnored (pe_ignores E ?p)" "es = []"
    | (plain) "utf8_ValidString ?p" "\<not> IsTemporary ?p" "\<not> IsInternal ?p" "\<not> R_IsIgnored (pe_ignores E ?p)" "es \<noteq> []" by blast
  then show ?thesis
  proof cases
    case utf8
    then have r: "e = skip_of (Some i)" "b = handleError c ''scan'' ?p errUTF8Invalid ?acc"
      using run nd by (simp_all add: walkAndHashFiles_def Let_def)
    note he = handleError_reports [OF nd prefix_order.refl]
    show ?thesis unfolding r using he a utf8 acc_le_trans skip_of_cases by (auto simp: item_done_def scannable_def acc_ok_def)
  next
    case temp
    then have "e = None" "b = ?acc" using run nd by (auto simp: walkAndHashFiles_def Let_def split: if_splits prod.splits)
    then show ?thesis using a temp by (simp add: item_done_def scannable_def Let_def)
  next
    case internal
    then have "e = skip_of (Some i)" "b = ?acc" using run nd by (simp_all add: walkAndHashFiles_def Let_def)
    then show ?thesis using a internal skip_of_cases by (auto simp: item_done_def scannable_def descends_def Let_def)
  next
    case ignored
    have "e = skip_of (Some i) \<and> b = ?acc \<and> (R_CanSkipDir (pe_ignores E ?p) \<or> st_IsSymlink i) \<or>
        e = None \<and> (b = ?acc \<or> b = ?acc\<lparr>wa_ignoredParent := ?p\<rparr>)"
      using run nd ignored by (auto simp: walkAndHashFiles_def Let_def n split: if_splits)
    then show ?thesis using a es ignored skip_of_cases [of i] by (auto simp: item_done_def scannable_def descends_def Let_def acc_ok_def acc_le_def)
  next
    case root
    then have "e = None" "b = ?acc" using run nd dot n by (simp_all add: walkAndHashFiles_def Let_def)
    then show ?thesis using a root by (simp add: item_done_def scannable_def)
  next
    case plain
    then have "run_state (scan_item c E ?p i ?acc) s = ((e, b), s)" using run nd dot n by (simp add: walkAndHashFiles_def Let_def)
    from scan_item_done [OF nd a(1) es plain(5) i this] show ?thesis using a(2) acc_le_trans unfolding item_done_def by blast
  qed
qed

lemma walkAndHashFiles_error:
  assumes nd: "\<And>n. \<not> wc_done c n" and ok: "acc_ok acc"
    and run: "run_state (walkAndHashFiles c E p info (Some er) acc) s = ((e, b), t)"
  shows "acc_ok b \<and> acc_le acc b \<and> (e = None \<or> e = Some ESkipDir \<and> (\<exists>i. info = Some i \<and> st_IsDir i))"
proof -
  let ?acc = "acc\<lparr>wa_tick := wa_tick acc + 1\<rparr>"
  have b: "(e = None \<or> e = skip_of info) \<and> (b = ?acc \<or> (\<exists>x q er. b = handleError c x q er ?acc))"
    using run nd by (auto simp: walkAndHashFiles_def Let_def split: if_splits option.splits prod.splits)
  have "acc_ok ?acc" "acc_le acc ?acc" "acc_ok (handleError c x q er ?acc) \<and> acc_le acc (handleError c x q er ?acc)" for x q er
    using ok by (auto simp: handleError_def send_undone [OF nd] acc_ok_def acc_le_def)
  then have "acc_ok b" "acc_le acc b" using b by metis+
  then show ?thesis using b by (auto simp: skip_of_def split: option.splits if_splits)
qed

interpretation sw: tree_walk "scan_call (c\<lparr>wc_done := \<lambda>_. False\<rparr>) (E\<lparr>pe_checkInfiniteRecursion := False\<rparr>)"
  "normal_path (c\<lparr>wc_done := \<lambda>_. False\<rparr>) (E\<lparr>pe_checkInfiniteRecursion := False\<rparr>)" "E\<lparr>pe_checkInfiniteRecursion := False\<rparr>" s
  "walkAndHashFiles (c\<lparr>wc_done := \<lambda>_. False\<rparr>) (E\<lparr>pe_checkInfiniteRecursion := False\<rparr>)" acc_ok acc_le
  "descends (E\<lparr>pe_checkInfiniteRecursion := False\<rparr>)"
  "item_done (c\<lparr>wc_done := \<lambda>_. False\<rparr>) (E\<lparr>pe_checkInfiniteRecursion := False\<rparr>) (pu_fs s)" scan_failed for c E s
proof (unfold_locales, goal_cases)
  case (7 a es i e b)
  show ?case by (rule walkAndHashFiles_item [OF _ 7]) simp
next
  case (8 a p io er e b)
  show ?case by (rule walkAndHashFiles_error [OF _ 8]) simp
qed (auto intro: calm_walkAndHashFiles acc_le_refl acc_le_trans item_done_mono scan_failed_mono)

section \<open>Scans\<close>

lemma undone_config: "(\<And>n. \<not> wc_done c n) \<Longrightarrow> c\<lparr>wc_done := \<lambda>_. False\<rparr> = c"
  by (cases c) (simp add: fun_eq_iff)

lemma no_junctions_env: "\<not> pe_checkInfiniteRecursion E \<Longrightarrow> E\<lparr>pe_checkInfiniteRecursion := False\<rparr> = E"
  by (cases E) simp

lemma Walk_covers:
  assumes nd: "\<And>n. \<not> wc_done c n" and nj: "\<not> pe_checkInfiniteRecursion E" and ok: "acc_ok a" and es: "list_all plain_elem es"
    and fits: "case pe_Lstat E (path_of es) (pu_fs s) of Inl _ \<Rightarrow> True | Inr i \<Rightarrow> tree_fits (normal_path c E) k E (pu_fs s) es i"
    and run: "run_state (Walk k E (walkAndHashFiles c E) (path_of es) a) s = ((e, b), t)" and calls: "pu_calls t = pu_calls s"
  shows "t = s \<and> acc_ok b \<and> acc_le a b \<and> (\<forall>i fs j. pe_Lstat E (path_of es) (pu_fs s) = Inr i \<and>
    found (descends E) E (pu_fs s) es i fs j \<longrightarrow> item_done c E (pu_fs s) b fs j)"
proof -
  have t: "t = s" by (rule calm_end [OF calm_Walk [OF calm_walkAndHashFiles] run calls])
  show ?thesis
  proof (cases "pe_Lstat E (path_of es) (pu_fs s)")
    case (Inl er)
    then have r: "run_state (walkAndHashFiles c E (path_of es) None (Some (EFs er)) a) s = ((e, b), t)"
      using run by (simp add: Walk_def Lstat_def look_def)
    show ?thesis using walkAndHashFiles_error [OF nd ok r] t Inl by simp
  next
    case (Inr i)
    then have r: "run_state (walk k E (walkAndHashFiles c E) (path_of es) i [] a) s = ((e, b), t)"
      using run by (simp add: Walk_def Lstat_def look_def)
    have f: "tree_fits (normal_path c E) k E (pu_fs s) es i" using fits Inr by simp
    note u = undone_config [OF nd] no_junctions_env [OF nj]
    note w = sw.walk_reaches [where c = c and E = E, unfolded u, OF f ok es Inr r calls]
    have "item_done c E (pu_fs s) b fs j" if "found (descends E) E (pu_fs s) es i fs j" for fs j
    proof -
      have "item_done c E (pu_fs s) b fs j \<or> (\<exists>ds. prefix es ds \<and> strict_prefix ds fs \<and> scan_failed b ds)"
        using w that by blast
      moreover have "scan_failed b fs" if "strict_prefix ds fs" "scan_failed b ds" for ds
        using that unfolding scan_failed_def by (meson prefix_order.trans prefix_order.less_imp_le)
      ultimately show ?thesis unfolding item_done_def by blast
    qed
    then show ?thesis using w t Inr by auto
  qed
qed

text \<open>The roots of the walks of a scan: the whole folder, or the given items.\<close>

definition scan_roots :: "string list list \<Rightarrow> string list list" where
  "scan_roots subs = (if subs = [] then [[]] else subs)"

lemma calm_scan_subs: "calm (scan_call c E) (scan_subs k c E subs acc)"
  by (induction subs arbitrary: acc) (auto intro!: calm_rules calm_Walk calm_walkAndHashFiles)

lemma calm_scan: "calm (scan_call c E) (scan k c E)"
  unfolding scan_def by (intro calm_rules calm_Walk calm_walkAndHashFiles calm_scan_subs)

lemma TraversesSymlink_still: "run_state (TraversesSymlink E n) s = (fst (run_state (TraversesSymlink E n) s), s)"
  using still [OF calm_TraversesSymlink, of E n s "fst (run_state (TraversesSymlink E n) s)"] by (metis prod.collapse)

lemma scan_subs_covers:
  assumes nd: "\<And>n. \<not> wc_done c n" and nj: "\<not> pe_checkInfiniteRecursion E" and ok: "acc_ok a"
    and subs: "\<forall>es\<in>set subs. list_all plain_elem es \<and>
      (case pe_Lstat E (path_of es) (pu_fs s) of Inl _ \<Rightarrow> True | Inr i \<Rightarrow> tree_fits (normal_path c E) k E (pu_fs s) es i)"
    and run: "run_state (scan_subs k c E (map path_of subs) a) s = (b, t)" and calls: "pu_calls t = pu_calls s"
  shows "acc_le a b \<and> (\<forall>es\<in>set subs. \<forall>i fs j. fst (run_state (TraversesSymlink E (filepath_Dir (path_of es))) s) = None \<and>
    pe_Lstat E (path_of es) (pu_fs s) = Inr i \<and> found (descends E) E (pu_fs s) es i fs j \<longrightarrow> item_done c E (pu_fs s) b fs j)"
  using ok subs run
proof (induction subs arbitrary: a)
  case Nil
  then show ?case by (simp add: acc_le_refl)
next
  case (Cons es subs)
  let ?e = "fst (run_state (TraversesSymlink E (filepath_Dir (path_of es))) s)"
  note ts = TraversesSymlink_still [of E "filepath_Dir (path_of es)" s]
  show ?case
  proof (cases ?e)
    case (Some er)
    then have "run_state (scan_subs k c E (map path_of subs) a) s = (b, t)" using Cons.prems(3) ts by simp
    then show ?thesis using Cons.IH [OF Cons.prems(1)] Cons.prems(2) Some by auto
  next
    case None
    let ?rest = "\<lambda>(err, acc1). scan_subs k c E (map path_of subs) acc1"
    have r: "run_state (Walk k E (walkAndHashFiles c E) (path_of es) a \<bind> ?rest) s = (b, t)" using Cons.prems(3) ts None by simp
    obtain x where x: "run_state (Walk k E (walkAndHashFiles c E) (path_of es) a) s = (x, s)" "run_state (?rest x) s = (b, t)"
      by (rule calm_bindE [OF r calls calm_Walk [OF calm_walkAndHashFiles]]) (auto intro: calm_scan_subs)
    obtain e1 a1 where x1: "x = (e1, a1)" by fastforce
    have w: "acc_ok a1 \<and> acc_le a a1 \<and> (\<forall>i fs j. pe_Lstat E (path_of es) (pu_fs s) = Inr i \<and>
        found (descends E) E (pu_fs s) es i fs j \<longrightarrow> item_done c E (pu_fs s) a1 fs j)"
    proof -
      have p: "list_all plain_elem es" "case pe_Lstat E (path_of es) (pu_fs s) of Inl _ \<Rightarrow> True | Inr i \<Rightarrow> tree_fits (normal_path c E) k E (pu_fs s) es i"
        using Cons.prems(2) by simp_all
      from Walk_covers [OF nd nj Cons.prems(1) p x(1) [unfolded x1] refl] show ?thesis by blast
    qed
    have IH: "acc_le a1 b \<and> (\<forall>es\<in>set subs. \<forall>i fs j. fst (run_state (TraversesSymlink E (filepath_Dir (path_of es))) s) = None \<and>
        pe_Lstat E (path_of es) (pu_fs s) = Inr i \<and> found (descends E) E (pu_fs s) es i fs j \<longrightarrow> item_done c E (pu_fs s) b fs j)"
    proof (rule Cons.IH)
      show "acc_ok a1" "run_state (scan_subs k c E (map path_of subs) a1) s = (b, t)" using w x(2) x1 by simp_all
    qed (use Cons.prems(2) in simp)
    have le: "acc_le a1 b" "acc_le a b" using IH w acc_le_trans by blast+
    have "item_done c E (pu_fs s) b fs j" if "pe_Lstat E (path_of es) (pu_fs s) = Inr i" "found (descends E) E (pu_fs s) es i fs j" for i fs j
      by (rule item_done_mono [OF le(1)]) (use w that in blast)
    then show ?thesis using IH le(2) unfolding list.set ball_simps by blast
  qed
qed

section \<open>Properties\<close>

lemma MergeWith_idem: "MergeWith p (MergeWith p q) = MergeWith p q"
  by (cases p) (simp add: MergeWith_def Let_def)

lemma perms_rescan: "PermsEqual True (a OR (x AND 73)) (a OR (y AND 73))"
proof -
  have "(a OR (z AND 73)) AND 384 = a AND 384" for z :: uint32
    by (simp add: bit.conj_disj_distrib2 and.assoc)
  then show ?thesis by (simp add: PermsEqual_def)
qed

lemma same_item_equivalent:
  assumes g: "same_item c win f0 g" and must: "wc_LocalFlags c AND FlagLocalMustRescan = 0"
    and nd: "\<not> fi_Deleted f0" and ty: "fi_Type f0 \<in> {FileInfoTypeFile, FileInfoTypeDirectory, FileInfoTypeSymlink}"
    and f: "f = updateFileInfo c' win now f0 g" and c': "wc_LocalFlags c' = wc_LocalFlags c"
    and h: "h = f \<or> h = f\<lparr>fi_NoPermissions := b\<rparr> \<or> h = f\<lparr>fi_NoPermissions := b, fi_RawBlockSize := n\<rparr>"
  shows "IsEquivalentOptional win g h (scan_comparison c)"
proof -
  obtain x q where x: "fi_Permissions g = fi_Permissions f0 OR (if win then x AND 73 else 0)" "fi_Platform g = MergeWith (fi_Platform f0) q"
    using g by (auto simp: same_item_def)
  have p: "fi_Platform f = fi_Platform g" by (simp add: f updateFileInfo_def Let_def x(2) MergeWith_idem)
  have "PermsEqual win (fi_Permissions g) (fi_Permissions f)"
  proof (cases win)
    case True
    then show ?thesis using perms_rescan [of "fi_Permissions f0" x 0] perms_rescan [of "fi_Permissions f0" x "fi_Permissions g"]
      by (simp add: f updateFileInfo_def Let_def x(1))
  qed (simp add: f updateFileInfo_def Let_def x(1) PermsEqual_def)
  moreover have "fi_Permissions h = fi_Permissions f" "fi_Platform h = fi_Platform g" using h p by auto
  moreover have "fi_Name h = fi_Name f0" "fi_Type h = fi_Type f0" "fi_Deleted h = fi_Deleted f0" "fi_LocalFlags h = wc_LocalFlags c"
    "fi_Size h = fi_Size f0" "fi_SymlinkTarget h = fi_SymlinkTarget f0" "ModTime h = ModTime f0"
    using h by (auto simp: f updateFileInfo_def Let_def c' ModTime_def split: if_splits)
  moreover have "fi_Name g = fi_Name f0" "fi_Type g = fi_Type f0" "\<not> fi_Deleted g" "fi_LocalFlags g = wc_LocalFlags c"
    "fi_Size g = fi_Size f0" "fi_SymlinkTarget g = fi_SymlinkTarget f0" "ModTime g = ModTime f0"
    using g by (simp_all add: same_item_def ModTime_def)
  moreover have "unixOwnershipEqual u u" "windowsOwnershipEqual v v" for u v
    by (auto simp: unixOwnershipEqual_def windowsOwnershipEqual_def split: option.splits)
  ultimately show ?thesis unfolding IsEquivalentOptional_def isEquivalent_iff using must nd ty
    by (auto simp: MustRescan_def scan_comparison_def xattrsEqual_iff)
qed

lemma handleItem_sent:
  assumes nd: "\<And>n. \<not> wc_done c n" and run: "run_state (handleItem c E p i acc) s = ((e, b), t)"
    and sent: "wa_toHash b = wa_toHash acc @ [f] \<or> wa_finished b = wa_finished acc @ [ScanFile f]"
  obtains f0 where "scan_CreateFileInfo c E i p (pu_fs s) = Inr f0" "same_item c (pe_isWindows E) f0 f"
proof -
  obtain curFile has where cur: "CurrentFile E p = (curFile, has)" by fastforce
  show ?thesis
  proof (cases "scan_CreateFileInfo c E i p (pu_fs s)")
    case (Inl er)
    have "b = acc" using run Inl
      by (cases "st_IsSymlink i"; cases "st_IsDir i"; cases "st_IsRegular i"; cases "pe_isWindows E")
        (auto simp: handleItem_def walkSymlink_def walkDir_def walkRegular_def cur look_def)
    then show ?thesis using sent by simp
  next
    case (Inr f0)
    note same = scan_CreateFileInfo_same [OF Inr] same_item_update(1,2) [OF scan_CreateFileInfo_same [OF Inr]]
    have cmp: "same_item c win f0 f1" if "compare_current c win curFile has f2 = Some f1" "same_item c win f0 f2" for win f1 f2
      using compare_current_same [OF that(2), where curFile = curFile and has = has] that(1) by simp
    have "same_item c (pe_isWindows E) f0 f"
      using run sent Inr nd
      by (cases "st_IsSymlink i"; cases "st_IsDir i"; cases "st_IsRegular i"; cases "pe_isWindows E")
        (auto simp: handleItem_def walkSymlink_def walkDir_def walkRegular_def cur look_def Let_def send_undone [OF nd] split: option.splits
          dest: cmp [OF _ same(1)] cmp [OF _ same(2)] cmp [OF _ same(3)])
    then show ?thesis using that Inr by blast
  qed
qed

lemma CreateFileInfo_Type:
  "CreateFileInfo E i p w = Inr f0 \<Longrightarrow>
     fi_Type f0 = (if st_IsSymlink i then FileInfoTypeSymlink else if st_IsDir i then FileInfoTypeDirectory else FileInfoTypeFile)"
  by (auto simp: CreateFileInfo_def Let_def split: sum.splits if_splits)

lemma handleItem_unchanged:
  assumes g: "CurrentFile E p = (g, True)" and f0: "scan_CreateFileInfo c E i p (pu_fs s) = Inr f0" and i: "\<not> (st_IsSymlink i \<and> st_IsDir i)"
    and eq: "\<And>now h b n. h \<in> {updateFileInfo c (pe_isWindows E) now f0 g, (updateFileInfo c (pe_isWindows E) now f0 g)\<lparr>fi_NoPermissions := b\<rparr>,
        (updateFileInfo c (pe_isWindows E) now f0 g)\<lparr>fi_NoPermissions := b, fi_RawBlockSize := n\<rparr>} \<Longrightarrow>
      IsEquivalentOptional (pe_isWindows E) g h (scan_comparison c)"
  shows "run_state (handleItem c E p i acc) s = ((None, acc), s)"
proof -
  have none: "compare_current c (pe_isWindows E) g True h = None" if "IsEquivalentOptional (pe_isWindows E) g h (scan_comparison c)" for h
    using that by (simp add: compare_current_def)
  have n: "compare_current c (pe_isWindows E) g True (updateFileInfo c (pe_isWindows E) now f0 g) = None"
    "compare_current c (pe_isWindows E) g True ((updateFileInfo c (pe_isWindows E) now f0 g)\<lparr>fi_NoPermissions := b\<rparr>) = None"
    "compare_current c (pe_isWindows E) g True ((updateFileInfo c (pe_isWindows E) now f0 g)\<lparr>fi_NoPermissions := b, fi_RawBlockSize := m\<rparr>) = None"
    for now b m by (rule none, rule eq [of _ now b m], simp)+
  show ?thesis using i n
    by (cases "st_IsSymlink i"; cases "st_IsDir i"; cases "st_IsRegular i"; cases "pe_isWindows E")
      (simp_all add: handleItem_def walkSymlink_def walkDir_def walkRegular_def g look_def f0 Let_def)
qed

lemma hash_result_same:
  "hash_result sha256 ha content f = Some (ScanFile g) \<Longrightarrow>
     \<exists>bs h n. g = f\<lparr>fi_Blocks := bs, fi_BlocksHash := h, fi_Size := n\<rparr>"
  unfolding hash_result_def hashFiles_def
  by (cases "HashFile sha256 ha content (FileInfo_BlockSize f)") (auto split: if_splits)

text \<open>C15. A scan does not touch the user's items: of all calls that change the disk it makes only removals
  of temporary files and, where that is enabled, renames of an item to its name in normal form (by
  way of a temporary name where the filesystem takes the two for the same). Without such a call the state of
  the disk and everything else is as before.\<close>

theorem scan_leaves_items:
  assumes "run_state (scan k c E) s = (acc, t)"
  shows "\<exists>new. pu_calls t = pu_calls s @ new \<and> (\<forall>x\<in>set new. scan_call c E (fst x)) \<and> (new = [] \<longrightarrow> t = s)"
  using calm_scan [of c E k] assms unfolding calm_def by (metis snd_conv)


text \<open>C16. Scanning again finds nothing new: when an item was scanned and the record sent, hashed or not, is
  what the database has for it, the next scan of the item sends nothing if the disk says the same
  about it, whatever the time.\<close>

theorem rescan_unchanged:
  assumes "\<forall>n. \<not> wc_done c n" and "run_state (handleItem c E p i acc) s = ((e, acc1), t)"
    and "wa_toHash acc1 = wa_toHash acc @ [f] \<or> wa_finished acc1 = wa_finished acc @ [ScanFile f]"
    and "g = f \<or> hash_result sha256 ha content f = Some (ScanFile g) \<and> fi_Size g = fi_Size f"
    and "pe_GetDeviceFile E' p = Inr (Some g)" and "pe_isWindows E' = pe_isWindows E" and "c' = c\<lparr>wc_unixNow := clock, wc_done := done\<rparr>"
    and "scan_CreateFileInfo c' E' i p (pu_fs s') = scan_CreateFileInfo c E i p (pu_fs s)"
    and "wc_LocalFlags c AND FlagLocalMustRescan = 0" and "\<not> (st_IsSymlink i \<and> st_IsDir i)"
  shows "run_state (handleItem c' E' p i acc') s' = ((None, acc'), s')"
proof -
  have nd: "\<not> wc_done c n" for n using assms(1) by simp
  obtain f0 where f0: "scan_CreateFileInfo c E i p (pu_fs s) = Inr f0" "same_item c (pe_isWindows E) f0 f"
    by (rule handleItem_sent [OF nd assms(2,3)])
  have g: "same_item c (pe_isWindows E) f0 g"
  proof (cases "g = f")
    case False
    then obtain bs h where "g = f\<lparr>fi_Blocks := bs, fi_BlocksHash := h, fi_Size := fi_Size f\<rparr>"
      using assms(4) hash_result_same [of sha256 ha content f g] by fastforce
    then show ?thesis using f0(2) by (simp add: same_item_def)
  qed (simp add: f0(2))
  have d: "\<not> fi_Deleted f0" "fi_Type f0 \<in> {FileInfoTypeFile, FileInfoTypeDirectory, FileInfoTypeSymlink}"
    using CreateFileInfo_not_deleted [OF f0(1) [unfolded scan_CreateFileInfo_def]] CreateFileInfo_Type [OF f0(1) [unfolded scan_CreateFileInfo_def]]
    by simp_all
  have l: "wc_LocalFlags c' = wc_LocalFlags c" "scan_comparison c' = scan_comparison c" by (simp_all add: assms(7) scan_comparison_def)
  show ?thesis
  proof (rule handleItem_unchanged)
    show "CurrentFile E' p = (g, True)" using assms(5) by (simp add: CurrentFile_def)
    show "scan_CreateFileInfo c' E' i p (pu_fs s') = Inr f0" using assms(8) f0(1) by simp
    show "\<not> (st_IsSymlink i \<and> st_IsDir i)" by (rule assms(10))
  next
    fix now h b n
    assume "h \<in> {updateFileInfo c' (pe_isWindows E') now f0 g, (updateFileInfo c' (pe_isWindows E') now f0 g)\<lparr>fi_NoPermissions := b\<rparr>,
        (updateFileInfo c' (pe_isWindows E') now f0 g)\<lparr>fi_NoPermissions := b, fi_RawBlockSize := n\<rparr>}"
    then show "IsEquivalentOptional (pe_isWindows E') g h (scan_comparison c')"
      unfolding l(2) assms(6) using same_item_equivalent [OF g assms(9) d refl l(1)] by blast
  qed
qed

section \<open>Examples\<close>

text \<open>A folder with one file that is not recorded yet.\<close>

definition scan_stat :: "bool \<Rightarrow> file_stat" where
  "scan_stat dir = \<lparr>st_Mode = 420, st_Size = 3, st_ModTime = time_Unix 1000 0, st_IsDir = dir, st_IsRegular = \<not> dir,
     st_IsSymlink = False, st_Owner = 0, st_Group = 0\<rparr>"

definition scan_disk :: "(string \<rightharpoonup> FileInfo) \<Rightarrow> unit pull_env" where
  "scan_disk db =
     \<lparr>pe_exec = (\<lambda>op w. (None, w)), pe_Lstat = (\<lambda>n w. Inr (scan_stat (n = ''.''))), pe_Stat = (\<lambda>n w. Inr (scan_stat True)),
      pe_DirNames = (\<lambda>n w. Inr [''f'']), pe_Glob = (\<lambda>p w. []),
      pe_PlatformData = (\<lambda>n o1 x w. Inr PlatformData_zero), pe_ReadSymlink = (\<lambda>n w. Inr []), pe_SameFile = (\<lambda>a b. False),
      pe_checkInfiniteRecursion = False, pe_os = OS_Linux, pe_isAndroid = False, pe_equalFold = (=), pe_lookupUser = (\<lambda>_. None),
      pe_lookupGroup = (\<lambda>_. None), pe_lookupUserAndGroup = (\<lambda>_ _. Inl ErrNotExist), pe_sha256 = (\<lambda>b. b), pe_now = [],
      pe_IgnorePerms = False, pe_IgnoreDelete = False, pe_SyncOwnership = False, pe_SyncXattrs = False, pe_CopyOwnershipFromParent = False,
      pe_Type = FolderTypeSendReceive, pe_MaxConflicts = 10, pe_modTimeWindow = 0, pe_versioner = False, pe_trailerSize = (\<lambda>_. 0),
      pe_CheckAvailableSpace = (\<lambda>_. None), pe_GetDeviceFile = (\<lambda>n. Inr (db n)), pe_ignores = (\<lambda>_. NotIgnored)\<rparr>"

definition scan_example :: walk_config where
  "scan_example = \<lparr>wc_Subs = [], wc_TempLifetime = 0, wc_IgnorePerms = False, wc_AutoNormalize = False, wc_ShortID = 1, wc_LocalFlags = 0,
     wc_ModTimeWindow = 0, wc_ScanOwnership = False, wc_ScanXattrs = False, wc_NFC = (\<lambda>p. p), wc_NFD = (\<lambda>p. p), wc_isIOS = False,
     wc_now = time_Unix 0 0, wc_unixNow = (\<lambda>_. 5), wc_done = (\<lambda>_. False)\<rparr>"

definition scan_puller :: "unit puller" where
  "scan_puller = \<lparr>pu_fs = (), pu_calls = [], pu_updates = [], pu_scans = [], pu_errors = Map.empty, pu_queue = newJobQueue\<rparr>"

lemma scan_names:
  "IsTemporary ''f'' = False" "IsInternal ''f'' = False" "utf8_ValidString ''f''" "plain_elem ''f''"
  "IsTemporary ''.'' = False" "IsInternal ''.'' = False" "utf8_ValidString ''.''"
  "Canonicalize ''.'' = Inr ''.''" "Canonicalize ''f'' = Inr ''f''" "filepath_Join [''.'', ''f''] = ''f''" "path_of [] = ''.''" "path_of [''f''] = ''f''"
  "R_IsIgnored NotIgnored = False"
  by code_simp+

lemma scan_disk_run: "\<exists>f. run_state (handleItem scan_example (scan_disk Map.empty) ''f'' (scan_stat False) acc) s =
    ((None, acc\<lparr>wa_tick := wa_tick acc + 1, wa_toHash := wa_toHash acc @ [f]\<rparr>), s)"
  by (simp add: handleItem_def walkRegular_def scan_stat_def CurrentFile_def look_def scan_CreateFileInfo_def CreateFileInfo_def Let_def
      compare_current_def send_toHash_def offer_def scan_disk_def scan_example_def) (rule exI, rule refl)

lemma scan_example_run:
  "\<exists>acc. run_state (scan 2 scan_example (scan_disk Map.empty)) scan_puller = (acc, scan_puller)"
proof -
  let ?E = "scan_disk Map.empty"
  have E: "pe_Lstat ?E n w = Inr (scan_stat (n = ''.''))" "pe_DirNames ?E n w = Inr [''f'']" "pe_checkInfiniteRecursion ?E = False"
    "pe_ignores ?E n = NotIgnored" "normalizePath scan_example (pe_os ?E) n = n" "wc_done scan_example m = False" "wc_Subs scan_example = []" for n w m
    by (simp_all add: scan_disk_def scan_example_def normalizePath_def)
  have root: "run_state (walkAndHashFiles scan_example ?E ''.'' (Some i) None a) s = ((None, a\<lparr>wa_tick := wa_tick a + 1\<rparr>), s)" for i a s
    by (simp add: walkAndHashFiles_def Let_def E scan_names)
  have item: "\<exists>b. run_state (walkAndHashFiles scan_example ?E ''f'' (Some (scan_stat False)) None a) s = ((None, b), s)"
    if "wa_ignoredParent a = ''''" for a s
    using scan_disk_run [of "a\<lparr>wa_tick := wa_tick a + 1, wa_ignoredParent := ''''\<rparr>" s] that
    by (auto simp: walkAndHashFiles_def Let_def E scan_names scan_item_def)
  obtain b where b: "run_state (walkAndHashFiles scan_example ?E ''f'' (Some (scan_stat False)) None (walk_start\<lparr>wa_tick := wa_tick walk_start + 1\<rparr>)) scan_puller = ((None, b), scan_puller)"
    using item [of "walk_start\<lparr>wa_tick := wa_tick walk_start + 1\<rparr>" scan_puller] by (auto simp: walk_start_def)
  have k: "2 = Suc (Suc 0)" by simp
  have "run_state (walk (Suc (Suc 0)) ?E (walkAndHashFiles scan_example ?E) ''.'' (scan_stat True) [] walk_start) scan_puller = ((None, b), scan_puller)"
    using b by (simp add: E root scan_names look_def Lstat_def scan_stat_def Let_def)
  then show ?thesis unfolding k by (simp add: scan_def E Walk_def Lstat_def look_def)
qed

theorem scan_leaves_items_witness:
  "\<exists>acc new. run_state (scan 2 scan_example (scan_disk Map.empty)) scan_puller = (acc, scan_puller) \<and>
     pu_calls scan_puller = pu_calls scan_puller @ new \<and> (\<forall>x\<in>set new. scan_call scan_example (scan_disk Map.empty) (fst x))"
  using scan_example_run scan_leaves_items [of 2 scan_example "scan_disk Map.empty" scan_puller _ scan_puller] by blast


theorem rescan_unchanged_witness:
  "\<exists>f. run_state (handleItem scan_example (scan_disk Map.empty) ''f'' (scan_stat False) walk_start) scan_puller =
       ((None, walk_start\<lparr>wa_tick := 1, wa_toHash := [f]\<rparr>), scan_puller) \<and>
     run_state (handleItem (scan_example\<lparr>wc_unixNow := \<lambda>_. 9, wc_done := \<lambda>_. False\<rparr>) (scan_disk [''f'' \<mapsto> f]) ''f'' (scan_stat False) walk_start)
       scan_puller = ((None, walk_start), scan_puller)"
proof -
  obtain f where f: "run_state (handleItem scan_example (scan_disk Map.empty) ''f'' (scan_stat False) walk_start) scan_puller =
      ((None, walk_start\<lparr>wa_tick := 1, wa_toHash := [f]\<rparr>), scan_puller)"
    using scan_disk_run [of walk_start scan_puller] by (auto simp: walk_start_def)
  have "run_state (handleItem (scan_example\<lparr>wc_unixNow := \<lambda>_. 9, wc_done := \<lambda>_. False\<rparr>) (scan_disk [''f'' \<mapsto> f]) ''f'' (scan_stat False) walk_start)
      scan_puller = ((None, walk_start), scan_puller)"
    by (rule rescan_unchanged [OF _ f _ disjI1 [OF refl] _ _ refl])
      (simp_all add: scan_example_def walk_start_def scan_disk_def pe_isWindows_def scan_CreateFileInfo_def CreateFileInfo_def scan_stat_def)
  then show ?thesis using f by blast
qed

end
