(* ===== verification/PullItem.thy ===== *)
theory PullItem
  imports PullFs "HOL-Library.List_Lexorder" "HOL-Library.Char_ord"
begin

text \<open>
  How the puller changes single items on disk: the handlers of \<open>lib/model/folder_sendrecv.go\<close> for
  directories, symlinks, deletions, renames and finished files, with the checks that keep what was
  changed locally. The order of calls and every early return are those of the code; events, log
  messages and metrics are left out.
\<close>

unbundle bit_operations_syntax

section \<open>Conflict copies\<close>

definition filepath_Ext :: "string \<Rightarrow> string" where
  "filepath_Ext path =
     (let b = snd (path_split path) in
      if CHR ''.'' \<in> set b then CHR ''.'' # rev (takeWhile (\<lambda>c. c \<noteq> CHR ''.'') (rev b)) else [])"

fun go_Contains :: "string \<Rightarrow> string \<Rightarrow> bool" where
  "go_Contains [] sub = (sub = [])"
| "go_Contains (c # s) sub = (go_HasPrefix (c # s) sub \<or> go_Contains s sub)"

text \<open>\<open>pe_now\<close> is the time as \<open>20060102-150405\<close>.\<close>

definition conflictName :: "string \<Rightarrow> string \<Rightarrow> string \<Rightarrow> string" where
  "conflictName now name lastModBy =
     (let ext = filepath_Ext name
      in take (length name - length ext) name @ ''.sync-conflict-'' @ now @ ''-'' @ lastModBy @ ext)"

definition isConflict :: "string \<Rightarrow> bool" where
  "isConflict name = go_Contains (filepath_Base name) ''.sync-conflict-''"

definition existingConflicts :: "'w pull_env \<Rightarrow> string \<Rightarrow> 'w \<Rightarrow> string list" where
  "existingConflicts E name =
     (let ext = filepath_Ext name
      in pe_Glob E (take (length name - length ext) name @ ''.sync-conflict-????????-??????*'' @ ext))"

definition contextRemovingOldItem :: string where "contextRemovingOldItem = ''removing item to be replaced''"

definition remove_conflicting :: "'w pull_env \<Rightarrow> string \<Rightarrow> ('w, pull_error option) pm" where
  "remove_conflicting E name = do {
     e \<leftarrow> fs_do E (FsRemove name);
     State_Monad.return (case e of
       Some er \<Rightarrow> if IsNotExist er then None else Some (EWrap contextRemovingOldItem er)
     | None \<Rightarrow> None)
   }"

fun remove_extra :: "'w pull_env \<Rightarrow> string list \<Rightarrow> ('w, unit) pm" where
  "remove_extra E [] = State_Monad.return ()"
| "remove_extra E (n # ns) = do { fs_do E (FsRemove n); remove_extra E ns }"

definition moveForConflict :: "'w pull_env \<Rightarrow> string \<Rightarrow> string \<Rightarrow> ('w, pull_error option) pm" where
  "moveForConflict E name lastModBy =
     (if isConflict name then remove_conflicting E name
      else if pe_MaxConflicts E = 0 then remove_conflicting E name
      else do {
        let newName = conflictName (pe_now E) name lastModBy;
        e \<leftarrow> fs_do E (FsRename name newName);
        let err = (case e of Some er \<Rightarrow> if IsNotExist er then None else Some er | None \<Rightarrow> None);
        (if pe_MaxConflicts E > - 1 then do {
           matches \<leftarrow> look (existingConflicts E name);
           if int (length matches) > pe_MaxConflicts E
           then remove_extra E (drop (nat (pe_MaxConflicts E)) (rev (sort matches)))
           else State_Monad.return ()
         } else State_Monad.return ());
        (if err = None then send_scan newName else State_Monad.return ());
        State_Monad.return err
      })"

section \<open>Is it still what the database says?\<close>

definition LocalAllFlags :: FlagLocal where
  "LocalAllFlags = FlagLocalUnsupported OR FlagLocalIgnored OR FlagLocalMustRescan OR FlagLocalReceiveOnly OR FlagLocalGlobal
     OR FlagLocalNeeded OR FlagLocalRemoteInvalid"

definition item_comparison :: "'w pull_env \<Rightarrow> bool \<Rightarrow> FileInfoComparison" where
  "item_comparison E fromDelete =
     \<lparr>ModTimeWindow = pe_modTimeWindow E, IgnorePerms = pe_IgnorePerms E, IgnoreBlocks = True, IgnoreFlags = LocalAllFlags,
      IgnoreOwnership = fromDelete \<or> \<not> pe_SyncOwnership E, IgnoreXattrs = fromDelete \<or> \<not> pe_SyncXattrs E\<rparr>"

text \<open>\<open>GetDeviceFile\<close> returns the zero record when there is none.\<close>

definition current_file :: "FileInfo option \<Rightarrow> FileInfo \<times> bool" where
  "current_file r = (case r of Some f \<Rightarrow> (f, True) | None \<Rightarrow> (FileInfo_zero, False))"

definition scanIfItemChanged ::
  "'w pull_env \<Rightarrow> string \<Rightarrow> file_stat \<Rightarrow> FileInfo \<Rightarrow> bool \<Rightarrow> bool \<Rightarrow> ('w, pull_error option) pm" where
  "scanIfItemChanged E name stat item hasItem fromDelete =
     (if \<not> hasItem \<or> fi_Deleted item then do { send_scan name; State_Monad.return (Some errModified) }
      else do {
        r \<leftarrow> look (CreateFileInfo E stat (fi_Name item));
        case r of
          Inl e \<Rightarrow> do {
            (if cause e = errModified then send_scan name else State_Monad.return ());
            State_Monad.return (Some (EWrap ''comparing item on disk to db'' e))
          }
        | Inr statItem \<Rightarrow>
            if \<not> IsEquivalentOptional (pe_isWindows E) statItem item (item_comparison E fromDelete)
            then do { send_scan name; State_Monad.return (Some errModified) }
            else State_Monad.return None
      })"

definition checkToBeDeleted :: "'w pull_env \<Rightarrow> FileInfo \<Rightarrow> FileInfo \<Rightarrow> bool \<Rightarrow> ('w, pull_error option) pm" where
  "checkToBeDeleted E file cur hasCur = do {
     t \<leftarrow> TraversesSymlink E (filepath_Dir (fi_Name file));
     if t \<noteq> None then State_Monad.return (Some (EFs ErrNotExist))
     else do {
       st \<leftarrow> Lstat E (fi_Name file);
       case st of
         Inl e \<Rightarrow>
           if \<not> (IsNotExist e \<or> IsErrCaseConflict e) then State_Monad.return (Some e)
           else if hasCur \<and> \<not> fi_Deleted cur \<and> \<not> IsUnsupported cur
           then do { send_scan (fi_Name file); State_Monad.return (Some errModified) }
           else State_Monad.return (Some e)
       | Inr stat \<Rightarrow> scanIfItemChanged E (fi_Name file) stat cur hasCur True
     }
   }"

section \<open>Removing items\<close>

record children_acc =
  ca_dirsToDelete :: "string list"
  ca_hasIgnored :: bool
  ca_hasKnown :: bool
  ca_hasToBeScanned :: bool
  ca_hasReceiveOnlyChanged :: bool
  ca_delErr :: "pull_error option"

definition keep_delErr :: "pull_error option \<Rightarrow> children_acc \<Rightarrow> children_acc" where
  "keep_delErr e acc = (if e \<noteq> None \<and> ca_delErr acc = None then acc\<lparr>ca_delErr := e\<rparr> else acc)"

definition child_step ::
  "'w pull_env \<Rightarrow> string \<Rightarrow> string \<Rightarrow> file_stat option \<Rightarrow> pull_error option \<Rightarrow> children_acc \<Rightarrow> ('w, pull_error option \<times> children_acc) pm" where
  "child_step E dir path oinfo err acc =
     (if path = dir then State_Monad.return (None, acc)
      else
        let toBeScanned = do { send_scan path; State_Monad.return (None, acc\<lparr>ca_hasToBeScanned := True\<rparr>) };
            m = pe_ignores E path
        in (case (err, oinfo) of
              (Some e, _) \<Rightarrow> State_Monad.return (Some e, acc)
            | (None, None) \<Rightarrow> State_Monad.return (None, acc)
            | (None, Some info) \<Rightarrow>
                if R_IsDeletable m \<and> st_IsDir info
                then State_Monad.return (None, acc\<lparr>ca_dirsToDelete := ca_dirsToDelete acc @ [path]\<rparr>)
                else if R_IsDeletable m \<or> IsTemporary path
                then do { e \<leftarrow> fs_do E (FsRemove path); State_Monad.return (None, keep_delErr e acc) }
                else if R_IsIgnored m then State_Monad.return (None, acc\<lparr>ca_hasIgnored := True\<rparr>)
                else (case pe_GetDeviceFile E path of
                        Inl e \<Rightarrow> State_Monad.return (Some (EDb e), acc)
                      | Inr None \<Rightarrow> toBeScanned
                      | Inr (Some cf) \<Rightarrow>
                          if fi_Deleted cf then toBeScanned
                          else if pe_Type E = FolderTypeReceiveOnly \<and> IsReceiveOnlyChanged cf
                          then State_Monad.return (None, acc\<lparr>ca_hasReceiveOnlyChanged := True\<rparr>)
                          else do {
                            r \<leftarrow> look (CreateFileInfo E info path);
                            case r of
                              Inl _ \<Rightarrow> toBeScanned
                            | Inr diskFile \<Rightarrow>
                                if \<not> IsEquivalentOptional (pe_isWindows E) cf diskFile (item_comparison E False) then toBeScanned
                                else State_Monad.return (None, acc\<lparr>ca_hasKnown := True\<rparr>)
                          })))"

fun delete_dirs :: "'w pull_env \<Rightarrow> string list \<Rightarrow> children_acc \<Rightarrow> ('w, children_acc) pm" where
  "delete_dirs E [] acc = State_Monad.return acc"
| "delete_dirs E (d # ds) acc = do { e \<leftarrow> fs_do E (FsRemove d); delete_dirs E ds (keep_delErr e acc) }"

definition deleteDirOnDiskHandleChildren :: "nat \<Rightarrow> 'w pull_env \<Rightarrow> string \<Rightarrow> ('w, pull_error option) pm" where
  "deleteDirOnDiskHandleChildren k E dir = do {
     (err, acc) \<leftarrow> Walk k E (child_step E dir) dir
       \<lparr>ca_dirsToDelete = [], ca_hasIgnored = False, ca_hasKnown = False, ca_hasToBeScanned = False,
        ca_hasReceiveOnlyChanged = False, ca_delErr = None\<rparr>;
     case err of
       Some e \<Rightarrow> State_Monad.return (Some e)
     | None \<Rightarrow> do {
         acc \<leftarrow> delete_dirs E (rev (ca_dirsToDelete acc)) acc;
         if ca_hasToBeScanned acc then State_Monad.return (Some errDirHasToBeScanned)
         else if ca_hasIgnored acc then State_Monad.return (Some errDirHasIgnored)
         else if ca_hasReceiveOnlyChanged acc then do { send_scan dir; State_Monad.return None }
         else if ca_hasKnown acc then State_Monad.return (Some errDirNotEmpty)
         else State_Monad.return (ca_delErr acc)
       }
   }"

definition deleteDirOnDisk :: "nat \<Rightarrow> 'w pull_env \<Rightarrow> string \<Rightarrow> ('w, pull_error option) pm" where
  "deleteDirOnDisk k E dir =
     orReturn (TraversesSymlink E (filepath_Dir dir))
       (orReturn (deleteDirOnDiskHandleChildren k E dir)
         (do {
            e \<leftarrow> in_writable_dir E (\<lambda>p. fs_do E (FsRemove p)) dir;
            case e of
              None \<Rightarrow> State_Monad.return None
            | Some er \<Rightarrow>
                if IsNotExist er then State_Monad.return None
                else do {
                  st \<leftarrow> Lstat E dir;
                  State_Monad.return (case st of
                    Inl se \<Rightarrow> if \<not> IsPermission se then None else Some er
                  | Inr _ \<Rightarrow> Some er)
                }
          }))"

definition deleteItemOnDisk :: "nat \<Rightarrow> 'w pull_env \<Rightarrow> FileInfo \<Rightarrow> ('w, pull_error option) pm" where
  "deleteItemOnDisk k E item =
     wrapErr contextRemovingOldItem
       (if IsDirectory item then deleteDirOnDisk k E (fi_Name item)
        else if \<not> IsSymlink item \<and> pe_versioner E then in_writable_dir E (\<lambda>p. fs_do E (FsArchive p)) (fi_Name item)
        else in_writable_dir E (\<lambda>p. fs_do E (FsRemove p)) (fi_Name item))"

section \<open>Metadata\<close>

definition go_Itoa :: "int \<Rightarrow> string" where
  "go_Itoa i = (if i < 0 then ''-'' @ show_dec (nat (- i)) else show_dec (nat i))"

text \<open>\<open>os/user\<close> is a parameter; an empty identifier counts as not found.\<close>

definition resolve_id :: "(string \<Rightarrow> string option) \<Rightarrow> string \<Rightarrow> string \<Rightarrow> string" where
  "resolve_id lookup nam numeric =
     (if nam \<noteq> '''' then (case lookup nam of Some i \<Rightarrow> if i \<noteq> '''' then i else numeric | None \<Rightarrow> numeric) else numeric)"

definition syncOwnership :: "'w pull_env \<Rightarrow> FileInfo \<Rightarrow> string \<Rightarrow> ('w, pull_error option) pm" where
  "syncOwnership E file path =
     (case pd_Unix (fi_Platform file) of
        None \<Rightarrow> State_Monad.return None
      | Some u \<Rightarrow>
          fs_do E (FsLchown path (resolve_id (pe_lookupUser E) (OwnerName u) (go_Itoa (UID u)))
            (resolve_id (pe_lookupGroup E) (GroupName u) (go_Itoa (GID u)))))"

definition syncOwnership_windows :: "'w pull_env \<Rightarrow> FileInfo \<Rightarrow> string \<Rightarrow> ('w, pull_error option) pm" where
  "syncOwnership_windows E file path =
     (case pd_Windows (fi_Platform file) of
        None \<Rightarrow> State_Monad.return None
      | Some d \<Rightarrow>
          if win_OwnerName d = '''' then State_Monad.return None
          else (case pe_lookupUserAndGroup E (win_OwnerName d) (OwnerIsGroup d) of
                  Inl e \<Rightarrow> State_Monad.return (Some (EFs e))
                | Inr (usid, gsid) \<Rightarrow> fs_do E (FsLchown path usid gsid)))"

definition copyOwnershipFromParent :: "'w pull_env \<Rightarrow> string \<Rightarrow> ('w, pull_error option) pm" where
  "copyOwnershipFromParent E path =
     (if pe_isWindows E then State_Monad.return None
      else do {
        st \<leftarrow> Lstat E (filepath_Dir path);
        case st of
          Inl e \<Rightarrow> State_Monad.return (Some (EWrap ''copy owner from parent'' e))
        | Inr info \<Rightarrow>
            wrapErr ''copy owner from parent'' (fs_do E (FsLchown path (go_Itoa (st_Owner info)) (go_Itoa (st_Group info))))
      })"

definition setPlatformData :: "'w pull_env \<Rightarrow> FileInfo \<Rightarrow> string \<Rightarrow> ('w, pull_error option) pm" where
  "setPlatformData E file name =
     orReturn
       (if pe_SyncXattrs E then do {
          e \<leftarrow> fs_do E (FsSetXattr name (PlatformData_Xattrs (pe_os E) (fi_Platform file)));
          State_Monad.return (if e = Some (EFs ErrXattrsNotSupported) then None else e)
        } else State_Monad.return None)
       (if pe_SyncOwnership E
        then (if pe_isWindows E then syncOwnership_windows E file name else syncOwnership E file name)
        else if pe_CopyOwnershipFromParent E then copyOwnershipFromParent E name
        else State_Monad.return None)"

section \<open>Directories and symlinks\<close>

definition retainBits :: uint32 where
  "retainBits = push_bit 22 1 OR push_bit 23 1 OR push_bit 20 1"

definition conflict_or_delete :: "nat \<Rightarrow> 'w pull_env \<Rightarrow> FileInfo \<Rightarrow> FileInfo \<Rightarrow> bool \<Rightarrow> ('w, pull_error option) pm" where
  "conflict_or_delete k E file cur conflict =
     (if conflict
      then in_writable_dir E (\<lambda>n. moveForConflict E n (ShortID_String (fi_ModifiedBy file))) (fi_Name cur)
      else deleteItemOnDisk k E cur)"

definition make_dir :: "'w pull_env \<Rightarrow> FileInfo \<Rightarrow> uint32 \<Rightarrow> string \<Rightarrow> ('w, pull_error option) pm" where
  "make_dir E file mode path =
     orReturn (fs_do E (FsMkdir path mode))
       (orReturn (setPlatformData E file path)
         (if pe_IgnorePerms E \<or> fi_NoPermissions file then State_Monad.return None
          else do {
            st \<leftarrow> Lstat E path;
            case st of
              Inl e \<Rightarrow> State_Monad.return (Some e)
            | Inr info \<Rightarrow> fs_do E (FsChmod path (mode OR (st_Mode info AND retainBits)))
          }))"

definition create_dir :: "'w pull_env \<Rightarrow> FileInfo \<Rightarrow> uint32 \<Rightarrow> ('w, unit) pm" where
  "create_dir E file mode = do {
     e \<leftarrow> in_writable_dir E (make_dir E file mode) (fi_Name file);
     case e of
       None \<Rightarrow> send_update (file, dbUpdateHandleDir)
     | Some er \<Rightarrow> newPullError (fi_Name file) (EWrap ''creating directory'' er)
   }"

definition handleDir :: "nat \<Rightarrow> 'w pull_env \<Rightarrow> FileInfo \<Rightarrow> ('w, unit) pm" where
  "handleDir k E file = do {
     let name = fi_Name file;
     let mode = (if pe_IgnorePerms E \<or> fi_NoPermissions file then 511 else fi_Permissions file AND 511);
     st \<leftarrow> Lstat E name;
     case st of
       Inr info \<Rightarrow>
         if \<not> st_IsDir info then
           (case pe_GetDeviceFile E name of
              Inl e \<Rightarrow> newPullError name (EWrap ''handling dir'' (EDb e))
            | Inr r \<Rightarrow> do {
                let (curFile, hasCurFile) = current_file r;
                err \<leftarrow> scanIfItemChanged E name info curFile hasCurFile False;
                case err of
                  Some e \<Rightarrow> newPullError name (EWrap ''handling dir'' e)
                | None \<Rightarrow> do {
                    err \<leftarrow> conflict_or_delete k E file curFile (\<not> IsSymlink curFile \<and> InConflictWith file curFile);
                    case err of
                      Some e \<Rightarrow> newPullError name e
                    | None \<Rightarrow> create_dir E file mode
                  }
              })
         else do {
           err \<leftarrow> (if \<not> pe_IgnorePerms E \<and> \<not> fi_NoPermissions file
                    then orReturn (wrapErr ''handling dir (setting permissions)'' (fs_do E (FsChmod name (mode OR (st_Mode info AND retainBits)))))
                           (wrapErr ''handling dir (setting metadata)'' (setPlatformData E file name))
                    else State_Monad.return None);
           case err of
             Some e \<Rightarrow> newPullError name e
           | None \<Rightarrow> send_update (file, dbUpdateHandleDir)
         }
     | Inl e \<Rightarrow>
         if IsNotExist e then create_dir E file mode
         else newPullError name (EWrap ''checking file to be replaced'' e)
   }"

definition checkParent :: "'w pull_env \<Rightarrow> string \<Rightarrow> ('w, bool) pm" where
  "checkParent E file = do {
     let parent = filepath_Dir file;
     t \<leftarrow> TraversesSymlink E parent;
     case t of
       Some e \<Rightarrow> do { newPullError file (EWrap ''checking parent dirs'' e); State_Monad.return False }
     | None \<Rightarrow> do {
         st \<leftarrow> Lstat E parent;
         if \<not> (case st of Inl e \<Rightarrow> IsNotExist e | Inr _ \<Rightarrow> False) then State_Monad.return True
         else do {
           e \<leftarrow> fs_do E (FsMkdirAll parent 493);
           case e of
             Some er \<Rightarrow> do { newPullError file (EWrap ''creating parent dir'' er); State_Monad.return False }
           | None \<Rightarrow> do {
               (if pe_Type E \<noteq> FolderTypeReceiveEncrypted then send_scan parent else State_Monad.return ());
               State_Monad.return True
             }
         }
       }
   }"

definition handleSymlinkCheckExisting :: "nat \<Rightarrow> 'w pull_env \<Rightarrow> FileInfo \<Rightarrow> ('w, pull_error option) pm" where
  "handleSymlinkCheckExisting k E file = do {
     st \<leftarrow> Lstat E (fi_Name file);
     case st of
       Inl e \<Rightarrow> State_Monad.return (if IsNotExist e then None else Some e)
     | Inr info \<Rightarrow>
         (case pe_GetDeviceFile E (fi_Name file) of
            Inl e \<Rightarrow> State_Monad.return (Some (EDb e))
          | Inr r \<Rightarrow> do {
              let (curFile, hasCurFile) = current_file r;
              orReturn (scanIfItemChanged E (fi_Name file) info curFile hasCurFile False)
                (conflict_or_delete k E file curFile (\<not> IsDirectory curFile \<and> \<not> IsSymlink curFile \<and> InConflictWith file curFile))
            })
   }"

definition handleSymlink :: "nat \<Rightarrow> 'w pull_env \<Rightarrow> FileInfo \<Rightarrow> ('w, unit) pm" where
  "handleSymlink k E file =
     (if length (fi_SymlinkTarget file) = 0 then newPullError (fi_Name file) errIncompatibleSymlink
      else do {
        e \<leftarrow> handleSymlinkCheckExisting k E file;
        case e of
          Some er \<Rightarrow> newPullError (fi_Name file) (EWrap ''handling symlink'' er)
        | None \<Rightarrow> do {
            e \<leftarrow> in_writable_dir E (\<lambda>path. orReturn (fs_do E (FsCreateSymlink (fi_SymlinkTarget file) path))
                                                  (setPlatformData E file path)) (fi_Name file);
            case e of
              None \<Rightarrow> send_update (file, dbUpdateHandleSymlink)
            | Some er \<Rightarrow> newPullError (fi_Name file) (EWrap ''symlink create'' er)
          }
      })"

section \<open>Deletions\<close>

definition deleteDir :: "nat \<Rightarrow> 'w pull_env \<Rightarrow> FileInfo \<Rightarrow> ('w, unit) pm" where
  "deleteDir k E file = do {
     let failed = (\<lambda>e. newPullError (fi_Name file) (EWrap ''delete dir'' e));
     case pe_GetDeviceFile E (fi_Name file) of
       Inl e \<Rightarrow> failed (EDb e)
     | Inr r \<Rightarrow> do {
         let (cur, hasCur) = current_file r;
         err \<leftarrow> checkToBeDeleted E file cur hasCur;
         case err of
           Some e \<Rightarrow>
             if IsNotExist e \<or> IsErrCaseConflict e then send_update (file, dbUpdateDeleteDir) else failed e
         | None \<Rightarrow> do {
             err \<leftarrow> deleteDirOnDisk k E (fi_Name file);
             case err of
               Some e \<Rightarrow> failed e
             | None \<Rightarrow> send_update (file, dbUpdateDeleteDir)
           }
       }
   }"

definition deleteFileWithCurrent :: "'w pull_env \<Rightarrow> FileInfo \<Rightarrow> FileInfo \<Rightarrow> bool \<Rightarrow> ('w, unit) pm" where
  "deleteFileWithCurrent E file cur hasCur = do {
     let failed = (\<lambda>e. newPullError (fi_Name file) (EWrap ''delete file'' e));
     let handled = send_update (file, dbUpdateDeleteFile);
     err \<leftarrow> checkToBeDeleted E file cur hasCur;
     case err of
       Some e \<Rightarrow> if IsNotExist e \<or> IsErrCaseConflict e then handled else failed e
     | None \<Rightarrow>
         if IsDirectory cur then failed errUnexpectedDirOnFileDel
         else do {
           err \<leftarrow> (if InConflictWith file cur \<and> \<not> IsSymlink cur
                    then in_writable_dir E (\<lambda>n. moveForConflict E n (ShortID_String (fi_ModifiedBy file))) (fi_Name cur)
                    else if pe_versioner E \<and> \<not> IsSymlink cur then in_writable_dir E (\<lambda>p. fs_do E (FsArchive p)) (fi_Name file)
                    else in_writable_dir E (\<lambda>p. fs_do E (FsRemove p)) (fi_Name file));
           case err of
             None \<Rightarrow> handled
           | Some e \<Rightarrow>
               if IsNotExist e then handled
               else do {
                 st \<leftarrow> Lstat E (fi_Name file);
                 case st of
                   Inl se \<Rightarrow> if \<not> IsPermission se then handled else failed e
                 | Inr _ \<Rightarrow> failed e
               }
         }
   }"

definition deleteFile :: "'w pull_env \<Rightarrow> FileInfo \<Rightarrow> ('w, unit) pm" where
  "deleteFile E file =
     (case pe_GetDeviceFile E (fi_Name file) of
        Inl e \<Rightarrow> newPullError (fi_Name file) (EWrap ''delete file'' (EDb e))
      | Inr r \<Rightarrow> (case current_file r of (cur, hasCur) \<Rightarrow> deleteFileWithCurrent E file cur hasCur))"

section \<open>Files\<close>

definition performFinish :: "nat \<Rightarrow> 'w pull_env \<Rightarrow> FileInfo \<Rightarrow> FileInfo \<Rightarrow> bool \<Rightarrow> string \<Rightarrow> ('w, pull_error option) pm" where
  "performFinish k E file curFile hasCurFile tempName =
     orReturn
       (if \<not> pe_IgnorePerms E \<and> \<not> fi_NoPermissions file
        then wrapErr ''setting permissions'' (fs_do E (FsChmod tempName (fi_Permissions file AND 511)))
        else State_Monad.return None)
     (orReturn (wrapErr ''setting metadata'' (setPlatformData E file tempName))
     (orReturn
       (do {
          st \<leftarrow> Lstat E (fi_Name file);
          case st of
            Inr stat \<Rightarrow>
              orReturn (wrapErr ''checking existing file'' (scanIfItemChanged E (fi_Name file) stat curFile hasCurFile False))
                (wrapErr ''moving for conflict''
                  (conflict_or_delete k E file curFile
                     (\<not> IsDirectory curFile \<and> \<not> IsSymlink curFile \<and> InConflictWith file curFile)))
          | Inl e \<Rightarrow>
              State_Monad.return (if IsNotExist e then None else Some (EWrap ''checking existing file'' e))
        })
     (orReturn (wrapErr ''replacing file'' (RenameOrCopy E tempName (fi_Name file)))
       (do {
          fs_do E (FsChtimes (fi_Name file) (ModTime file));
          send_update (file, dbUpdateHandleFile);
          State_Monad.return None
        }))))"

definition caseConflict :: "pull_error \<Rightarrow> string option" where
  "caseConflict e = (case cause e of EFs (CaseConflictError real) \<Rightarrow> Some real | _ \<Rightarrow> None)"

text \<open>What \<open>renameFile\<close> finds in the place of the target.\<close>

definition check_target :: "'w pull_env \<Rightarrow> FileInfo \<Rightarrow> FileInfo \<Rightarrow> FileInfo \<Rightarrow> bool \<Rightarrow> ('w, pull_error option) pm" where
  "check_target E source target curTarget ok = do {
     let modified = do { send_scan (fi_Name target); State_Monad.return (Some errModified) };
     let absent = (if \<not> ok \<or> fi_Deleted curTarget then State_Monad.return None else modified);
     st \<leftarrow> Lstat E (fi_Name target);
     case st of
       Inl e \<Rightarrow>
         (case caseConflict e of
            Some real \<Rightarrow> if real \<noteq> fi_Name source then State_Monad.return (Some e) else absent
          | None \<Rightarrow> if IsNotExist e then absent else State_Monad.return (Some e))
     | Inr stat \<Rightarrow>
         if \<not> ok then modified
         else do {
           r \<leftarrow> look (CreateFileInfo E stat (fi_Name target));
           case r of
             Inl e \<Rightarrow> State_Monad.return (Some e)
           | Inr fi \<Rightarrow>
               if \<not> IsEquivalentOptional (pe_isWindows E) fi curTarget (item_comparison E False) then modified
               else State_Monad.return None
         }
   }"

definition renameFile :: "nat \<Rightarrow> 'w pull_env \<Rightarrow> FileInfo \<Rightarrow> FileInfo \<Rightarrow> FileInfo \<Rightarrow> ('w, pull_error option) pm" where
  "renameFile k E cur source target =
     orReturn (checkToBeDeleted E source cur True)
       (case pe_GetDeviceFile E (fi_Name target) of
          Inl e \<Rightarrow> State_Monad.return (Some (EDb e))
        | Inr r \<Rightarrow> do {
            let (curTarget, ok) = current_file r;
            let tempName = TempName (pe_isWindows E) (pe_sha256 E) (fi_Name target);
            orReturn (check_target E source target curTarget ok)
            (orReturn
              (if pe_versioner E then
                 (case pe_CheckAvailableSpace E (fi_Size source) of
                    Some e \<Rightarrow> State_Monad.return (Some e)
                  | None \<Rightarrow> orReturn (osutil_Copy E (fi_Name source) tempName)
                               (in_writable_dir E (\<lambda>p. fs_do E (FsArchive p)) (fi_Name source)))
               else RenameOrCopy E (fi_Name source) tempName)
            (orReturn (performFinish k E target curTarget True tempName)
              (do { send_update (source, dbUpdateDeleteFile); State_Monad.return None })))
          })"

definition write_trailer :: "'w pull_env \<Rightarrow> FileInfo \<Rightarrow> string \<Rightarrow> ('w, pull_error option) pm" where
  "write_trailer E file path =
     orReturn (fs_do E (FsOpenFile path))
       (orReturn (fs_do E (FsWriteTrailer path file))
         (fs_do E (FsTruncate path (fi_Size file + pe_trailerSize E file))))"

definition shortcutFile :: "'w pull_env \<Rightarrow> FileInfo \<Rightarrow> ('w, unit) pm" where
  "shortcutFile E file = do {
     queue_done (fi_Name file);
     err \<leftarrow>
       orReturn
         (if \<not> pe_IgnorePerms E \<and> \<not> fi_NoPermissions file
          then wrapErr ''shortcut file (setting permissions)'' (fs_do E (FsChmod (fi_Name file) (fi_Permissions file AND 511)))
          else State_Monad.return None)
       (orReturn (wrapErr ''shortcut file (setting metadata)'' (setPlatformData E file (fi_Name file)))
         (if pe_Type E = FolderTypeReceiveEncrypted
          then wrapErr ''writing encrypted file trailer'' (in_writable_dir E (write_trailer E file) (fi_Name file))
          else State_Monad.return None));
     case err of
       Some e \<Rightarrow> newPullError (fi_Name file) e
     | None \<Rightarrow> do {
         fs_do E (FsChtimes (fi_Name file) (ModTime file));
         send_update
           (if pe_Type E = FolderTypeReceiveEncrypted
            then file\<lparr>fi_EncryptionTrailerSize := pe_trailerSize E file, fi_Size := fi_Size file + pe_trailerSize E file\<rparr>
            else file, dbUpdateShortcutFile)
       }
   }"

end
