(* ===== verification/PullSafety.thy ===== *)
theory PullSafety
  imports PullItem
begin

text \<open>
  What the puller does to the items of the user: an item that is not what the database says is left
  alone and scanned, one that loses a conflict is kept as a conflict copy before anything takes its
  place, removing a directory removes no item in it that is to be kept, and the database is told of a
  change only after it was made.
\<close>

unbundle bit_operations_syntax

section \<open>Items changed since the last scan\<close>

text \<open>
  \<open>differs\<close>: there is an item on disk, and it is not the one recorded as \<open>cur\<close>, also if owners and
  extended attributes are not looked at; \<open>hasCur\<close> says whether there is a record.
\<close>

definition differs :: "'w pull_env \<Rightarrow> string \<Rightarrow> FileInfo \<Rightarrow> bool \<Rightarrow> 'w \<Rightarrow> bool" where
  "differs E n cur hasCur w \<longleftrightarrow>
     (\<exists>st. pe_Lstat E n w = Inr st \<and>
       (hasCur \<and> \<not> fi_Deleted cur \<longrightarrow>
         (\<exists>fi. CreateFileInfo E st (fi_Name cur) w = Inr fi \<and>
            \<not> IsEquivalentOptional (pe_isWindows E) fi cur (item_comparison E True))))"

lemma equivalent_from_delete:
  assumes "IsEquivalentOptional isWindows fi cur (item_comparison E b)"
  shows "IsEquivalentOptional isWindows fi cur (item_comparison E True)"
  using assms unfolding IsEquivalentOptional_def isEquivalent_iff
  by (auto simp: item_comparison_def split: FileInfoType.splits)

lemma scanIfItemChanged_differs:
  assumes "differs E n cur hasCur (pu_fs s)" and "pe_Lstat E n (pu_fs s) = Inr st"
  shows "run_state (scanIfItemChanged E n st cur hasCur b) s = (Some errModified, s\<lparr>pu_scans := pu_scans s @ [n]\<rparr>)"
proof (cases "\<not> hasCur \<or> fi_Deleted cur")
  case False
  with assms obtain fi where "CreateFileInfo E st (fi_Name cur) (pu_fs s) = Inr fi"
    "\<not> IsEquivalentOptional (pe_isWindows E) fi cur (item_comparison E True)" by (auto simp: differs_def)
  then show ?thesis using False equivalent_from_delete [of "pe_isWindows E" fi cur E b]
    by (auto simp: scanIfItemChanged_def look_def send_scan_def)
qed (auto simp: scanIfItemChanged_def send_scan_def)

text \<open>The state after the item was found changed: nothing on disk touched, a scan and an error.\<close>

definition left_alone :: "string \<Rightarrow> 'w puller \<Rightarrow> 'w puller \<Rightarrow> bool" where
  "left_alone n s t \<longleftrightarrow>
     pu_fs t = pu_fs s \<and> pu_calls t = pu_calls s \<and> pu_updates t = pu_updates s \<and> n \<in> set (pu_scans t) \<and> pu_errors t n \<noteq> None"

lemma newPullError_left_alone:
  assumes "cause e \<noteq> EContextDone" and "n \<in> set (pu_scans t)" and "pu_fs t = pu_fs s" "pu_calls t = pu_calls s" "pu_updates t = pu_updates s"
  shows "left_alone n s (snd (run_state (newPullError n e) t))"
  using assms by (auto simp: left_alone_def newPullError_def)

lemma TraversesSymlink_state: "snd (run_state (TraversesSymlink E p) s) = s"
  by (auto simp: TraversesSymlink_def look_def split: sum.split)

lemma checkToBeDeleted_differs:
  assumes "differs E (fi_Name file) cur hasCur (pu_fs s)"
  shows "run_state (checkToBeDeleted E file cur hasCur) s =
    (if fst (run_state (TraversesSymlink E (filepath_Dir (fi_Name file))) s) \<noteq> None then (Some (EFs ErrNotExist), s)
     else (Some errModified, s\<lparr>pu_scans := pu_scans s @ [fi_Name file]\<rparr>))"
proof -
  obtain st where st: "pe_Lstat E (fi_Name file) (pu_fs s) = Inr st" using assms by (auto simp: differs_def)
  obtain r where "run_state (TraversesSymlink E (filepath_Dir (fi_Name file))) s = (r, s)"
    using TraversesSymlink_state [of E _ s] by (metis prod.collapse)
  then show ?thesis
    by (simp add: checkToBeDeleted_def Lstat_def look_def st scanIfItemChanged_differs [OF assms st])
qed


text \<open>
  The disk keeps \<open>C\<close> under the calls that change the attributes of another item.
\<close>

definition sets_attributes :: "string \<Rightarrow> fs_op \<Rightarrow> bool" where
  "sets_attributes n op \<longleftrightarrow> (case op of FsChmod p _ \<Rightarrow> p = n | FsSetXattr p _ \<Rightarrow> p = n | FsLchown p _ _ \<Rightarrow> p = n | _ \<Rightarrow> False)"

definition attributes_frame :: "'w pull_env \<Rightarrow> string \<Rightarrow> ('w \<Rightarrow> bool) \<Rightarrow> bool" where
  "attributes_frame E p C \<longleftrightarrow> (\<forall>op w. sets_attributes p op \<longrightarrow> C w \<longrightarrow> C (snd (pe_exec E op w)))"

lemma setPlatformData_keeps [keeps_rules]:
  assumes "\<And>op. sets_attributes p op \<Longrightarrow> keeps C A (fs_do E op)"
  shows "keeps C A (setPlatformData E file p)"
  unfolding setPlatformData_def syncOwnership_def syncOwnership_windows_def copyOwnershipFromParent_def
  by (intro keeps_rules assms) (simp_all add: sets_attributes_def)

lemma quiet_setPlatformData [quiet_rules]: "quiet (setPlatformData E file p)"
  unfolding setPlatformData_def syncOwnership_def syncOwnership_windows_def copyOwnershipFromParent_def
  by (intro quiet_rules)

lemma orReturn_run:
  "run_state (orReturn m k) s = (case run_state m s of (Some e, t) \<Rightarrow> (Some e, t) | (None, t) \<Rightarrow> run_state k t)"
  by (auto simp: orReturn_def split: prod.split option.split)

lemma wrapErr_run: "run_state (wrapErr msg m) s = (case run_state m s of (e, t) \<Rightarrow> (map_option (EWrap msg) e, t))"
  by (simp add: wrapErr_def)

text \<open>Setting the attributes of the temporary file, the first two steps of \<open>performFinish\<close>.\<close>

lemma prepare_temp:
  assumes "attributes_frame E tmp C" and "C (pu_fs s)"
    and "run_state (if b then wrapErr msg (fs_do E (FsChmod tmp m)) else State_Monad.return None) s = (e1, s1)"
    and "run_state (wrapErr msg' (setPlatformData E file tmp)) s1 = (e2, s2)"
  shows "made C (sets_attributes tmp) (pu_calls s) s1 \<and> pu_updates s1 = pu_updates s
    \<and> made C (sets_attributes tmp) (pu_calls s) s2 \<and> pu_updates s2 = pu_updates s"
proof -
  have k: "keeps C (sets_attributes tmp) (fs_do E op)" if "sets_attributes tmp op" for op
    by (rule keeps_fs_do) (use assms(1) that in \<open>auto simp: attributes_frame_def\<close>)
  have "keeps C (sets_attributes tmp) (if b then wrapErr msg (fs_do E (FsChmod tmp m)) else State_Monad.return None)"
    by (intro keeps_rules k) (simp add: sets_attributes_def)
  moreover have "made C (sets_attributes tmp) (pu_calls s) s" using assms(2) by (simp add: made_def)
  ultimately have m1: "made C (sets_attributes tmp) (pu_calls s) s1" by (rule tripleD [OF keepsD _ assms(3)])
  have "keeps C (sets_attributes tmp) (wrapErr msg' (setPlatformData E file tmp))"
    by (intro keeps_rules k)
  then have m2: "made C (sets_attributes tmp) (pu_calls s) s2" by (rule tripleD [OF keepsD m1 assms(4)])
  have "pu_updates s1 = pu_updates s" by (rule quietD [OF _ assms(3)]) (intro quiet_rules)
  moreover have "pu_updates s2 = pu_updates s1" by (rule quietD [OF _ assms(4)]) (intro quiet_rules)
  ultimately show ?thesis using m1 m2 by simp
qed

text \<open>C11. A finished download does not replace an item that is not what the database had recorded when
  the download started: the only calls made set attributes of the temporary file, nothing is told to
  the database, the item still is what it was, and either those calls failed or the item is scheduled
  for a scan and the file fails as modified.\<close>

theorem finish_keeps_unscanned_change:
  assumes "n = fi_Name file" and "differs E n cur hasCur (pu_fs s)" and "attributes_frame E tmp (differs E n cur hasCur)"
    and "run_state (performFinish k E file cur hasCur tmp) s = (r, t)"
  shows "made (differs E n cur hasCur) (sets_attributes tmp) (pu_calls s) t \<and> pu_updates t = pu_updates s
    \<and> (\<exists>e. r = Some (EWrap ''setting permissions'' e) \<or> r = Some (EWrap ''setting metadata'' e)
        \<or> r = Some (EWrap ''checking existing file'' errModified) \<and> n \<in> set (pu_scans t))"
proof -
  define m1 where "m1 = (if \<not> pe_IgnorePerms E \<and> \<not> fi_NoPermissions file
    then wrapErr ''setting permissions'' (fs_do E (FsChmod tmp (fi_Permissions file AND 511))) else State_Monad.return None)"
  define m2 where "m2 = wrapErr ''setting metadata'' (setPlatformData E file tmp)"
  obtain e1 s1 where s1: "run_state m1 s = (e1, s1)" by fastforce
  obtain e2 s2 where s2: "run_state m2 s1 = (e2, s2)" by fastforce
  note kept = prepare_temp [OF assms(3,2) s1 [unfolded m1_def] s2 [unfolded m2_def]]
  have d2: "differs E n cur hasCur (pu_fs s2)" using kept by (simp add: made_def)
  then obtain st where st: "pe_Lstat E n (pu_fs s2) = Inr st" by (auto simp: differs_def)
  show ?thesis
  proof (cases e1)
    case (Some e)
    then have "r = e1" "t = s1" using assms(4) s1 unfolding performFinish_def m1_def by (simp_all add: orReturn_run)
    moreover have "\<exists>e'. e = EWrap ''setting permissions'' e'"
      using s1 Some by (auto simp: m1_def wrapErr_run split: if_splits prod.splits)
    ultimately show ?thesis using kept Some by auto
  next
    case None
    show ?thesis
    proof (cases e2)
      case (Some e)
      then have "r = e2" "t = s2" using assms(4) s1 s2 None
        unfolding performFinish_def m1_def m2_def by (simp_all add: orReturn_run)
      moreover have "\<exists>e'. e = EWrap ''setting metadata'' e'"
        using s2 Some by (auto simp: m2_def wrapErr_run split: prod.splits)
      ultimately show ?thesis using kept Some by auto
    next
      case None
      then have "(r, t) = (Some (EWrap ''checking existing file'' errModified), s2\<lparr>pu_scans := pu_scans s2 @ [n]\<rparr>)"
        using assms(1,4) s1 s2 \<open>e1 = None\<close> st scanIfItemChanged_differs [OF d2 st]
        unfolding performFinish_def m1_def m2_def by (simp add: orReturn_run wrapErr_run Lstat_def look_def)
      then show ?thesis using kept by (auto simp: made_def)
    qed
  qed
qed

section \<open>Removing directories\<close>

text \<open>
  The calls that may be made below a directory to be removed, and what is known during the walk:
  only deletable directories are set aside, and nothing was sent to the scanner unless noted.
\<close>

definition child_call :: "'w pull_env \<Rightarrow> fs_op \<Rightarrow> bool" where
  "child_call E op \<longleftrightarrow> (\<exists>p. op = FsRemove p \<and> (R_IsDeletable (pe_ignores E p) \<or> IsTemporary p))"

definition child_inv :: "'w pull_env \<Rightarrow> (fs_op \<times> fs_error option) list \<Rightarrow> string list \<Rightarrow> children_acc \<Rightarrow> 'w puller \<Rightarrow> bool" where
  "child_inv E old scans acc s \<longleftrightarrow>
     made (\<lambda>_. True) (child_call E) old s \<and> (\<forall>d \<in> set (ca_dirsToDelete acc). R_IsDeletable (pe_ignores E d))
     \<and> (ca_hasToBeScanned acc \<or> pu_scans s = scans)"

lemma made_fs_do:
  assumes "made (\<lambda>_. True) A old s" and "A op"
  shows "made (\<lambda>_. True) A old (snd (run_state (fs_do E op) s))" and "pu_scans (snd (run_state (fs_do E op) s)) = pu_scans s"
proof -
  have "keeps (\<lambda>_. True) A (fs_do E op)" by (rule keeps_fs_do) (simp_all add: assms(2))
  then show "made (\<lambda>_. True) A old (snd (run_state (fs_do E op) s))"
    using tripleD [OF keepsD assms(1)] by (metis prod.collapse)
qed (simp add: fs_do_def case_prod_beta)

lemma child_step_inv: "triple (child_inv E old scans acc) (child_step E dir path info err acc) (\<lambda>x. child_inv E old scans (snd x))"
  unfolding triple_def
proof (intro allI impI)
  fix s assume inv: "child_inv E old scans acc s"
  have scan: "child_inv E old scans (acc\<lparr>ca_hasToBeScanned := True\<rparr>) (s\<lparr>pu_scans := pu_scans s @ [path]\<rparr>)"
    using inv by (simp add: child_inv_def made_def)
  have rem: "child_inv E old scans (keep_delErr e acc) (snd (run_state (fs_do E (FsRemove path)) s))"
    if "R_IsDeletable (pe_ignores E path) \<or> IsTemporary path" for e
    using inv that made_fs_do [of "child_call E" old s "FsRemove path" E]
    by (auto simp: child_inv_def child_call_def keep_delErr_def)
  show "case run_state (child_step E dir path info err acc) s of (x, t) \<Rightarrow> child_inv E old scans (snd x) t"
    using inv scan rem
    by (simp add: child_step_def Let_def case_prod_beta send_scan_def look_def child_inv_def made_def
        split: option.split sum.split)
qed

lemma delete_dirs_inv:
  assumes "\<forall>d \<in> set ds. R_IsDeletable (pe_ignores E d)"
  shows "triple (child_inv E old scans acc) (delete_dirs E ds acc) (child_inv E old scans)"
  using assms
proof (induction ds arbitrary: acc)
  case (Cons d ds)
  have step: "triple (child_inv E old scans acc) (fs_do E (FsRemove d)) (\<lambda>e. child_inv E old scans (keep_delErr e acc))"
    unfolding triple_def
  proof (intro allI impI)
    fix s assume "child_inv E old scans acc s"
    then show "case run_state (fs_do E (FsRemove d)) s of (e, t) \<Rightarrow> child_inv E old scans (keep_delErr e acc) t"
      using Cons.prems made_fs_do [of "child_call E" old s "FsRemove d" E]
      by (auto simp: child_inv_def child_call_def keep_delErr_def case_prod_beta)
  qed
  show ?case unfolding delete_dirs.simps by (rule triple_bind [OF step]) (use Cons in simp)
qed (simp add: triple_def)

lemma handleChildren_calls:
  "triple (\<lambda>s. made (\<lambda>_. True) (child_call E) old s \<and> pu_scans s = scans) (deleteDirOnDiskHandleChildren k E dir)
     (\<lambda>e s. made (\<lambda>_. True) (child_call E) old s \<and> (e = None \<longrightarrow> pu_scans s = scans \<or> pu_scans s = scans @ [dir]))"
proof -
  let ?acc = "\<lparr>ca_dirsToDelete = [], ca_hasIgnored = False, ca_hasKnown = False, ca_hasToBeScanned = False,
    ca_hasReceiveOnlyChanged = False, ca_delErr = None\<rparr>"
  have last: "triple (child_inv E old scans acc) (if ca_hasToBeScanned acc then State_Monad.return (Some errDirHasToBeScanned)
      else if ca_hasIgnored acc then State_Monad.return (Some errDirHasIgnored)
      else if ca_hasReceiveOnlyChanged acc then send_scan dir \<bind> (\<lambda>_. State_Monad.return None)
      else if ca_hasKnown acc then State_Monad.return (Some errDirNotEmpty) else State_Monad.return (ca_delErr acc))
      (\<lambda>e s. made (\<lambda>_. True) (child_call E) old s \<and> (e = None \<longrightarrow> pu_scans s = scans \<or> pu_scans s = scans @ [dir]))" for acc
    by (auto simp: triple_def child_inv_def send_scan_def made_def)
  have dirs: "triple (child_inv E old scans acc) (delete_dirs E (rev (ca_dirsToDelete acc)) acc) (child_inv E old scans)" for acc
  proof (cases "\<forall>d \<in> set (ca_dirsToDelete acc). R_IsDeletable (pe_ignores E d)")
    case True
    then show ?thesis by (intro delete_dirs_inv) simp
  qed (auto simp: triple_def child_inv_def)
  show ?thesis unfolding deleteDirOnDiskHandleChildren_def case_prod_beta
  proof (rule triple_bind)
    show "triple (\<lambda>s. made (\<lambda>_. True) (child_call E) old s \<and> pu_scans s = scans) (Walk k E (child_step E dir) dir ?acc)
        (\<lambda>x. child_inv E old scans (snd x))"
      by (rule triple_strengthen [OF Walk_triple [OF child_step_inv]]) (simp add: child_inv_def)
  next
    fix x
    show "triple (child_inv E old scans (snd x)) (case fst x of
        None \<Rightarrow> delete_dirs E (rev (ca_dirsToDelete (snd x))) (snd x) \<bind> (\<lambda>acc.
          if ca_hasToBeScanned acc then State_Monad.return (Some errDirHasToBeScanned)
          else if ca_hasIgnored acc then State_Monad.return (Some errDirHasIgnored)
          else if ca_hasReceiveOnlyChanged acc then send_scan dir \<bind> (\<lambda>_. State_Monad.return None)
          else if ca_hasKnown acc then State_Monad.return (Some errDirNotEmpty) else State_Monad.return (ca_delErr acc))
        | Some e \<Rightarrow> State_Monad.return (Some e))
        (\<lambda>e s. made (\<lambda>_. True) (child_call E) old s \<and> (e = None \<longrightarrow> pu_scans s = scans \<or> pu_scans s = scans @ [dir]))"
      by (intro triple_split(2) triple_bind [OF dirs last] triple_return) (simp add: child_inv_def)
  qed
qed

lemma in_writable_dir_scans: "pu_scans (snd (run_state (in_writable_dir E (\<lambda>p. fs_do E (g p)) path) s)) = pu_scans s"
  by (auto simp: in_writable_dir_def Let_def look_def fs_do_def case_prod_beta split: sum.split)

lemma quiet_children [quiet_rules]: "quiet (child_step E dir path info err acc)" "quiet (delete_dirs E ds acc)"
proof -
  show "quiet (child_step E dir path info err acc)"
    unfolding child_step_def Let_def case_prod_beta by (intro quiet_rules | simp split: option.split sum.split)+
  show "quiet (delete_dirs E ds acc)"
    by (induction ds arbitrary: acc) (simp_all add: quiet_return quiet_bind quiet_steps)
qed

lemma quiet_deleteDirOnDisk [quiet_rules]: "quiet (deleteDirOnDisk k E dir)"
  unfolding deleteDirOnDisk_def deleteDirOnDiskHandleChildren_def by (intro quiet_rules)


section \<open>Conflict copies\<close>

text \<open>The calls after which the item at \<open>n\<close> is not there as it was.\<close>

definition loses :: "string \<Rightarrow> fs_op \<Rightarrow> bool" where
  "loses n op \<longleftrightarrow> (case op of
     FsRemove p \<Rightarrow> p = n | FsArchive p \<Rightarrow> p = n | FsRename a b \<Rightarrow> a = n \<or> b = n | FsCopy a b \<Rightarrow> b = n
   | FsCreateSymlink _ p \<Rightarrow> p = n | FsMkdir p _ \<Rightarrow> p = n | FsOpenFile p \<Rightarrow> p = n | FsWriteTrailer p _ \<Rightarrow> p = n
   | FsTruncate p _ \<Rightarrow> p = n | _ \<Rightarrow> False)"

text \<open>
  The item at \<open>n\<close> is renamed to \<open>c\<close> before any other call that loses it, and no such call follows
  unless that succeeded or found that there was nothing.
\<close>

fun saved_first :: "string \<Rightarrow> string \<Rightarrow> (fs_op \<times> fs_error option) list \<Rightarrow> bool" where
  "saved_first n c [] = True"
| "saved_first n c ((op, e) # cs) =
     (if op = FsRename n c then e = None \<or> e = Some ErrNotExist \<or> (\<forall>x \<in> set cs. \<not> loses n (fst x))
      else \<not> loses n op \<and> saved_first n c cs)"

definition harmless :: "string \<Rightarrow> (fs_op \<times> fs_error option) list \<Rightarrow> 'w puller \<Rightarrow> bool" where
  "harmless n = made (\<lambda>_. True) (\<lambda>op. \<not> loses n op)"

definition saved :: "string \<Rightarrow> string \<Rightarrow> (fs_op \<times> fs_error option) list \<Rightarrow> 'w puller \<Rightarrow> bool" where
  "saved n c old s \<longleftrightarrow> (\<exists>pre e post. pu_calls s = old @ pre @ (FsRename n c, e) # post \<and> e \<in> {None, Some ErrNotExist}
     \<and> (\<forall>x \<in> set pre. \<not> loses n (fst x)))"

definition not_saved :: "string \<Rightarrow> string \<Rightarrow> (fs_op \<times> fs_error option) list \<Rightarrow> 'w puller \<Rightarrow> bool" where
  "not_saved n c old s \<longleftrightarrow> (\<exists>pre e post. pu_calls s = old @ pre @ (FsRename n c, e) # post
     \<and> (\<forall>x \<in> set pre. \<not> loses n (fst x)) \<and> (\<forall>x \<in> set post. \<not> loses n (fst x)))"

definition copy_kept :: "string \<Rightarrow> string \<Rightarrow> (fs_op \<times> fs_error option) list \<Rightarrow> 'w puller \<Rightarrow> bool" where
  "copy_kept n c old s \<longleftrightarrow> harmless n old s \<or> saved n c old s \<or> not_saved n c old s"

lemma saved_first_append: "\<forall>x \<in> set pre. \<not> loses n (fst x) \<Longrightarrow> saved_first n c (pre @ cs) = saved_first n c cs"
proof (induction pre)
  case (Cons a pre)
  then show ?case by (cases a) (auto simp: loses_def)
qed simp

lemma copy_kept_saved_first:
  assumes "copy_kept n c old s" shows "\<exists>new. pu_calls s = old @ new \<and> saved_first n c new"
proof -
  consider new where "pu_calls s = old @ new" "\<forall>x \<in> set new. \<not> loses n (fst x)"
    | pre e post where "pu_calls s = old @ pre @ (FsRename n c, e) # post" "\<forall>x \<in> set pre. \<not> loses n (fst x)"
        "e = None \<or> e = Some ErrNotExist \<or> (\<forall>x \<in> set post. \<not> loses n (fst x))"
    using assms unfolding copy_kept_def harmless_def saved_def not_saved_def made_def by blast
  then show ?thesis
  proof cases
    case 1
    then show ?thesis using saved_first_append [of new n c "[]"] by auto
  next
    case 2
    then show ?thesis using saved_first_append [of pre n c "(FsRename n c, e) # post"] by auto
  qed
qed

text \<open>Calls that do not lose the item keep each of the three; once it is saved any call does.\<close>

lemma keeps_appended:
  assumes "keeps (\<lambda>_. True) A m" and "run_state m s = (a, t)"
  obtains new where "pu_calls t = pu_calls s @ new" "\<forall>x \<in> set new. A (fst x)"
  using tripleD [OF keepsD [OF assms(1), of "pu_calls s"] _ assms(2)] by (auto simp: made_def)

lemma saved_append:
  assumes "saved n c old s" and "pu_calls t = pu_calls s @ new"
  shows "saved n c old t"
proof -
  obtain pre e post where "pu_calls s = old @ pre @ (FsRename n c, e) # post" "e \<in> {None, Some ErrNotExist}"
    "\<forall>x \<in> set pre. \<not> loses n (fst x)" using assms(1) unfolding saved_def by blast
  then show ?thesis unfolding saved_def using assms(2) by (intro exI [of _ pre] exI [of _ e] exI [of _ "post @ new"]) auto
qed

lemma copy_kept_append:
  assumes "copy_kept n c old s" and "pu_calls t = pu_calls s @ new" and "\<forall>x \<in> set new. \<not> loses n (fst x)"
  shows "copy_kept n c old t"
proof -
  consider "harmless n old s" | "saved n c old s" | "not_saved n c old s" using assms(1) by (auto simp: copy_kept_def)
  then show ?thesis
  proof cases
    case 1
    then have "harmless n old t" using assms(2,3) by (fastforce simp: harmless_def made_def)
    then show ?thesis by (simp add: copy_kept_def)
  next
    case 2
    then show ?thesis using saved_append assms(2) by (auto simp: copy_kept_def)
  next
    case 3
    then obtain pre e post where "pu_calls s = old @ pre @ (FsRename n c, e) # post"
      "\<forall>x \<in> set pre. \<not> loses n (fst x)" "\<forall>x \<in> set post. \<not> loses n (fst x)" unfolding not_saved_def by blast
    then have "not_saved n c old t" unfolding not_saved_def using assms(2,3)
      by (intro exI [of _ pre] exI [of _ e] exI [of _ "post @ new"]) auto
    then show ?thesis by (simp add: copy_kept_def)
  qed
qed

lemma saved_keeps: "keeps (\<lambda>_. True) (\<lambda>_. True) m \<Longrightarrow> triple (saved n c old) m (\<lambda>_. saved n c old)"
  by (auto simp: triple_def elim!: keeps_appended intro: saved_append)

lemma copy_kept_keeps: "keeps (\<lambda>_. True) (\<lambda>op. \<not> loses n op) m \<Longrightarrow> triple (copy_kept n c old) m (\<lambda>_. copy_kept n c old)"
  by (auto simp: triple_def elim!: keeps_appended intro: copy_kept_append)

lemma appends [keeps_rules]: "keeps (\<lambda>_. True) (\<lambda>_. True) (fs_do E op)"
  by (rule keeps_fs_do) simp_all

lemma remove_extra_keeps [keeps_rules]:
  "(\<And>p. p \<in> set ns \<Longrightarrow> keeps C A (fs_do E (FsRemove p))) \<Longrightarrow> keeps C A (remove_extra E ns)"
  by (induction ns) (auto intro!: keeps_rules)

text \<open>Moving the item away: without an error it is saved.\<close>

definition moved :: "string \<Rightarrow> string \<Rightarrow> (fs_op \<times> fs_error option) list \<Rightarrow> pull_error option \<Rightarrow> 'w puller \<Rightarrow> bool" where
  "moved n c old e s \<longleftrightarrow> copy_kept n c old s \<and> (e = None \<longrightarrow> saved n c old s)"

lemma moved_keeps: "keeps (\<lambda>_. True) (\<lambda>op. \<not> loses n op) m \<Longrightarrow> triple (moved n c old e) m (\<lambda>_. moved n c old e)"
  by (auto simp: triple_def moved_def elim!: keeps_appended intro: copy_kept_append saved_append)

lemma moveForConflict_moved:
  assumes "pe_MaxConflicts E \<noteq> 0" and "\<not> isConflict n" and "\<And>w. n \<notin> set (existingConflicts E n w)"
  shows "triple (harmless n old) (moveForConflict E n by) (moved n (conflictName (pe_now E) n by) old)"
proof -
  let ?c = "conflictName (pe_now E) n by"
  have ren: "triple (harmless n old) (fs_do E (FsRename n ?c))
      (\<lambda>e. moved n ?c old (case e of Some er \<Rightarrow> if IsNotExist er then None else Some er | None \<Rightarrow> None))"
    unfolding triple_def
  proof (intro allI impI)
    fix s :: "'a puller" assume "harmless n old s"
    then obtain pre where pre: "pu_calls s = old @ pre" "\<forall>x \<in> set pre. \<not> loses n (fst x)" by (auto simp: harmless_def made_def)
    obtain e w where x: "pe_exec E (FsRename n ?c) (pu_fs s) = (e, w)" by fastforce
    let ?t = "s\<lparr>pu_fs := w, pu_calls := pu_calls s @ [(FsRename n ?c, e)]\<rparr>"
    have "not_saved n ?c old ?t" using pre unfolding not_saved_def by (intro exI [of _ pre] exI [of _ e] exI [of _ "[]"]) simp
    moreover have "saved n ?c old ?t" if "e \<in> {None, Some ErrNotExist}"
      using pre that unfolding saved_def by (intro exI [of _ pre] exI [of _ e] exI [of _ "[]"]) simp
    ultimately show "case run_state (fs_do E (FsRename n ?c)) s of (e, t) \<Rightarrow>
        moved n ?c old (case e of Some er \<Rightarrow> if IsNotExist er then None else Some er | None \<Rightarrow> None) t"
      using x by (cases e) (auto simp: fs_do_def moved_def copy_kept_def IsNotExist_def)
  qed
  have extra: "keeps (\<lambda>_. True) (\<lambda>op. \<not> loses n op) (if pe_MaxConflicts E > - 1 then look (existingConflicts E n) \<bind> (\<lambda>matches.
      if int (length matches) > pe_MaxConflicts E then remove_extra E (drop (nat (pe_MaxConflicts E)) (rev (sort matches)))
      else State_Monad.return ()) else State_Monad.return ())"
  proof (rule keeps_split(1))
    show "keeps (\<lambda>_. True) (\<lambda>op. \<not> loses n op) (look (existingConflicts E n) \<bind> (\<lambda>matches.
      if int (length matches) > pe_MaxConflicts E then remove_extra E (drop (nat (pe_MaxConflicts E)) (rev (sort matches)))
      else State_Monad.return ()))"
    proof (rule keeps_look_bind, intro keeps_rules keeps_fs_do)
      fix w p assume "p \<in> set (drop (nat (pe_MaxConflicts E)) (rev (sort (existingConflicts E n w))))"
      then have "p \<in> set (existingConflicts E n w)" using in_set_dropD by fastforce
      then show "\<not> loses n (FsRemove p)" using assms(3) by (auto simp: loses_def)
    qed
  qed (rule keeps_return)
  have last: "triple (moved n ?c old e) ((if e = None then send_scan ?c else State_Monad.return ()) \<bind> (\<lambda>_. State_Monad.return e))
      (moved n ?c old)" for e
    by (rule triple_bind [OF moved_keeps], intro keeps_rules, rule triple_return)
  show ?thesis unfolding moveForConflict_def Let_def if_not_P [OF assms(2)] if_not_P [OF assms(1)]
    by (intro triple_bind [OF ren] triple_bind [OF moved_keeps [OF extra]] last)
qed

lemma harmless_moved: "harmless n old s \<Longrightarrow> moved n c old (Some e) s"
  by (simp add: moved_def copy_kept_def)

lemma harmless_keeps: "keeps (\<lambda>_. True) (\<lambda>op. \<not> loses n op) m \<Longrightarrow> triple (harmless n old) m (\<lambda>_. harmless n old)"
  unfolding harmless_def by (rule keepsD)

lemma chmod_keeps: "keeps (\<lambda>_. True) (\<lambda>op. \<not> loses n op) (fs_do E (FsChmod p m))"
  by (rule keeps_fs_do) (simp_all add: loses_def)

lemma in_writable_dir_moved:
  assumes "triple (harmless n old) (fn p) (moved n c old)"
  shows "triple (harmless n old) (in_writable_dir E fn p) (moved n c old)"
proof (rule in_writable_dir_triple [where fn = fn, OF assms])
  fix e e' s assume "moved n c old (Some e) s"
  then show "moved n c old (Some e') s" by (simp add: moved_def)
qed (intro harmless_moved harmless_keeps moved_keeps chmod_keeps; assumption)+

lemma scanIfItemChanged_keeps [keeps_rules]: "keeps C A (scanIfItemChanged E n st cur hasCur b)"
  unfolding scanIfItemChanged_def by (intro keeps_rules)

lemma checkToBeDeleted_keeps [keeps_rules]: "keeps C A (checkToBeDeleted E f cur hasCur)"
  unfolding checkToBeDeleted_def by (intro keeps_rules)

text \<open>What makes a conflict copy of the item at \<open>n\<close> before \<open>file\<close> takes its place.\<close>

definition conflicting :: "'w pull_env \<Rightarrow> string \<Rightarrow> FileInfo \<Rightarrow> FileInfo \<Rightarrow> bool" where
  "conflicting E n file cur \<longleftrightarrow>
     fi_Name file = n \<and> fi_Name cur = n \<and> InConflictWith file cur \<and> \<not> IsDirectory cur \<and> \<not> IsSymlink cur
     \<and> pe_MaxConflicts E \<noteq> 0 \<and> \<not> isConflict n \<and> (\<forall>w. n \<notin> set (existingConflicts E n w))"

abbreviation copy_name :: "'w pull_env \<Rightarrow> string \<Rightarrow> FileInfo \<Rightarrow> string" where
  "copy_name E n file \<equiv> conflictName (pe_now E) n (ShortID_String (fi_ModifiedBy file))"

lemma conflict_step:
  assumes "conflicting E n file cur"
  shows "triple (harmless n old) (in_writable_dir E (\<lambda>m. moveForConflict E m (ShortID_String (fi_ModifiedBy file))) (fi_Name cur))
    (moved n (copy_name E n file) old)"
  using assms by (intro in_writable_dir_moved) (auto simp: conflicting_def intro!: moveForConflict_moved)

lemma check_then_move:
  assumes "conflicting E n file cur"
  shows "triple (harmless n old) (orReturn (scanIfItemChanged E n st cur hasCur b) (conflict_or_delete k E file cur True))
      (moved n (copy_name E n file) old)"
    and "triple (harmless n old) (orReturn (wrapErr m1 (scanIfItemChanged E n st cur hasCur b)) (wrapErr m2 (conflict_or_delete k E file cur True)))
      (moved n (copy_name E n file) old)"
proof -
  have scan: "triple (harmless n old) (scanIfItemChanged E n st cur hasCur b) (\<lambda>_. harmless n old)"
    by (intro harmless_keeps keeps_rules)
  have move: "triple (harmless n old) (conflict_or_delete k E file cur True) (moved n (copy_name E n file) old)"
    using conflict_step [OF assms] by (simp add: conflict_or_delete_def)
  show "triple (harmless n old) (orReturn (scanIfItemChanged E n st cur hasCur b) (conflict_or_delete k E file cur True))
      (moved n (copy_name E n file) old)"
    by (rule triple_orReturn [OF scan move]) (rule harmless_moved)
  have "triple (harmless n old) (wrapErr m2 (conflict_or_delete k E file cur True)) (moved n (copy_name E n file) old)"
    by (rule triple_wrapErr, rule triple_weaken [OF move]) (simp add: moved_def)
  then show "triple (harmless n old) (orReturn (wrapErr m1 (scanIfItemChanged E n st cur hasCur b)) (wrapErr m2 (conflict_or_delete k E file cur True)))
      (moved n (copy_name E n file) old)"
    by (rule triple_orReturn [OF triple_wrapErr [OF scan]]) (rule harmless_moved)
qed

lemma moved_then_any:
  assumes "keeps (\<lambda>_. True) (\<lambda>_. True) m"
  shows "triple (moved n c old None) m (\<lambda>_. copy_kept n c old)"
  by (rule triple_strengthen [OF triple_weaken [OF saved_keeps [OF assms]]]) (auto simp: copy_kept_def moved_def)

lemma harmless_then:
  assumes "keeps (\<lambda>_. True) (\<lambda>op. \<not> loses n op) m"
  shows "triple (harmless n old) m (\<lambda>_. copy_kept n c old)"
  by (rule triple_weaken [OF harmless_keeps [OF assms]]) (simp add: copy_kept_def)

lemma moved_then_harmless:
  assumes "keeps (\<lambda>_. True) (\<lambda>op. \<not> loses n op) m"
  shows "triple (moved n c old e) m (\<lambda>_. copy_kept n c old)"
  by (rule triple_weaken [OF moved_keeps [OF assms]]) (simp add: moved_def)

lemma delete_conflict:
  assumes "conflicting E n file cur"
  shows "triple (harmless n old) (deleteFileWithCurrent E file cur hasCur) (\<lambda>_. copy_kept n (copy_name E n file) old)"
  unfolding deleteFileWithCurrent_def Let_def
proof (rule triple_bind [OF harmless_keeps [OF checkToBeDeleted_keeps]])
  fix e
  have cond: "(InConflictWith file cur \<and> \<not> IsSymlink cur) = True" using assms by (simp add: conflicting_def)
  show "triple (harmless n old) (case e of
      None \<Rightarrow> if IsDirectory cur then newPullError (fi_Name file) (EWrap ''delete file'' errUnexpectedDirOnFileDel)
        else (if InConflictWith file cur \<and> \<not> IsSymlink cur
              then in_writable_dir E (\<lambda>n. moveForConflict E n (ShortID_String (fi_ModifiedBy file))) (fi_Name cur)
              else if pe_versioner E \<and> \<not> IsSymlink cur then in_writable_dir E (\<lambda>p. fs_do E (FsArchive p)) (fi_Name file)
              else in_writable_dir E (\<lambda>p. fs_do E (FsRemove p)) (fi_Name file)) \<bind>
          (\<lambda>err. case err of None \<Rightarrow> send_update (file, dbUpdateDeleteFile)
            | Some e \<Rightarrow> if IsNotExist e then send_update (file, dbUpdateDeleteFile)
                else Lstat E (fi_Name file) \<bind> (\<lambda>st. case st of
                    Inl se \<Rightarrow> if \<not> IsPermission se then send_update (file, dbUpdateDeleteFile)
                      else newPullError (fi_Name file) (EWrap ''delete file'' e)
                  | Inr _ \<Rightarrow> newPullError (fi_Name file) (EWrap ''delete file'' e)))
      | Some e \<Rightarrow> if IsNotExist e \<or> IsErrCaseConflict e then send_update (file, dbUpdateDeleteFile)
          else newPullError (fi_Name file) (EWrap ''delete file'' e)) (\<lambda>_. copy_kept n (copy_name E n file) old)"
    unfolding cond if_True
    by (intro triple_split triple_bind [OF conflict_step [OF assms]] moved_then_harmless harmless_then keeps_rules)
qed

lemma appends_setPlatformData [keeps_rules]: "keeps (\<lambda>_. True) (\<lambda>_. True) (setPlatformData E file p)"
  by (intro setPlatformData_keeps appends)

lemma appends_create_dir [keeps_rules]: "keeps (\<lambda>_. True) (\<lambda>_. True) (create_dir E file mode)"
  unfolding create_dir_def make_dir_def by (intro keeps_rules)

text \<open>The item is there, which is what \<open>Lstat\<close> will say.\<close>

definition present :: "'w pull_env \<Rightarrow> string \<Rightarrow> 'w \<Rightarrow> bool" where
  "present E n w \<longleftrightarrow> (\<exists>st. pe_Lstat E n w = Inr st)"

lemma triple_Lstat_present:
  assumes "\<And>st. triple (harmless n old) (f (Inr st)) Q"
  shows "triple (\<lambda>s. harmless n old s \<and> present E n (pu_fs s)) (Lstat E n \<bind> f) Q"
proof (rule triple_bind [OF triple_Lstat [where Q = "\<lambda>r s. harmless n old s \<and> (\<exists>st. r = Inr st)"]])
  fix r show "triple (\<lambda>s. harmless n old s \<and> (\<exists>st. r = Inr st)) (f r) Q"
  proof (cases r)
    case (Inr st)
    then show ?thesis using assms [of st] by simp
  qed (simp add: triple_def)
qed (auto simp: present_def)

lemma symlink_conflict:
  assumes c: "conflicting E n file cur" and db: "pe_GetDeviceFile E n = Inr (Some cur)"
  shows "triple (\<lambda>s. harmless n old s \<and> present E n (pu_fs s)) (handleSymlink k E file) (\<lambda>_. copy_kept n (copy_name E n file) old)"
proof (cases "length (fi_SymlinkTarget file) = 0")
  case True
  have "keeps (\<lambda>_. True) (\<lambda>op. \<not> loses n op) (newPullError (fi_Name file) errIncompatibleSymlink)" by (intro keeps_rules)
  then show ?thesis using True unfolding handleSymlink_def
    by (simp, intro triple_strengthen [OF harmless_then]) auto
next
  case False
  have n: "fi_Name file = n" "(\<not> IsDirectory cur \<and> \<not> IsSymlink cur \<and> InConflictWith file cur) = True" using c by (auto simp: conflicting_def)
  have chk: "triple (\<lambda>s. harmless n old s \<and> present E n (pu_fs s)) (handleSymlinkCheckExisting k E file) (moved n (copy_name E n file) old)"
    unfolding handleSymlinkCheckExisting_def n(1)
    by (rule triple_Lstat_present) (use check_then_move(1) [OF c] in \<open>simp add: db current_file_def n(2)\<close>)
  have rest: "triple (moved n (copy_name E n file) old e) (case e of
      None \<Rightarrow> in_writable_dir E (\<lambda>path. orReturn (fs_do E (FsCreateSymlink (fi_SymlinkTarget file) path)) (setPlatformData E file path)) n
        \<bind> (\<lambda>e. case e of None \<Rightarrow> send_update (file, dbUpdateHandleSymlink) | Some er \<Rightarrow> newPullError n (EWrap ''symlink create'' er))
    | Some er \<Rightarrow> newPullError n (EWrap ''handling symlink'' er)) (\<lambda>_. copy_kept n (copy_name E n file) old)" for e
  proof (cases e)
    case None
    then show ?thesis by (simp, intro moved_then_any keeps_rules)
  next
    case (Some er)
    then show ?thesis by (simp, intro moved_then_harmless keeps_rules)
  qed
  show ?thesis unfolding handleSymlink_def if_not_P [OF False] n(1) using triple_bind [OF chk rest] by simp
qed

lemma dir_conflict:
  assumes c: "conflicting E n file cur" and db: "pe_GetDeviceFile E n = Inr (Some cur)"
  shows "triple (\<lambda>s. harmless n old s \<and> present E n (pu_fs s)) (handleDir k E file) (\<lambda>_. copy_kept n (copy_name E n file) old)"
proof -
  have n: "fi_Name file = n" "(\<not> IsSymlink cur \<and> InConflictWith file cur) = True" using c by (auto simp: conflicting_def)
  define mode where "mode = (if pe_IgnorePerms E \<or> fi_NoPermissions file then 511 else fi_Permissions file AND 511)"
  have attr: "keeps (\<lambda>_. True) (\<lambda>op. \<not> loses n op) (fs_do E op)" if "sets_attributes n op" for op
    by (rule keeps_fs_do) (use that in \<open>auto simp: sets_attributes_def loses_def split: fs_op.splits\<close>)
  have move: "triple (harmless n old) (conflict_or_delete k E file cur True) (moved n (copy_name E n file) old)"
    using conflict_step [OF c] by (simp add: conflict_or_delete_def)
  have rest: "triple (moved n (copy_name E n file) old e) (case e of None \<Rightarrow> create_dir E file mode | Some er \<Rightarrow> newPullError n er)
      (\<lambda>_. copy_kept n (copy_name E n file) old)" for e
  proof (cases e)
    case None
    then show ?thesis by (simp, intro moved_then_any keeps_rules)
  next
    case (Some er)
    then show ?thesis by (simp, intro moved_then_harmless keeps_rules)
  qed
  have xfile: "triple (harmless n old) (scanIfItemChanged E n st cur True False \<bind> (\<lambda>err. case err of
      Some e \<Rightarrow> newPullError n (EWrap ''handling dir'' e)
    | None \<Rightarrow> conflict_or_delete k E file cur True \<bind> (\<lambda>err. case err of Some e \<Rightarrow> newPullError n e | None \<Rightarrow> create_dir E file mode)))
      (\<lambda>_. copy_kept n (copy_name E n file) old)" for st
    by (rule triple_bind [OF harmless_keeps [OF scanIfItemChanged_keeps]])
      (intro triple_split harmless_then keeps_rules triple_bind [OF move rest])
  have dir: "keeps (\<lambda>_. True) (\<lambda>op. \<not> loses n op) ((if \<not> pe_IgnorePerms E \<and> \<not> fi_NoPermissions file
      then orReturn (wrapErr m1 (fs_do E (FsChmod n m))) (wrapErr m2 (setPlatformData E file n)) else State_Monad.return None)
      \<bind> (\<lambda>err. case err of Some e \<Rightarrow> newPullError n e | None \<Rightarrow> send_update (file, dbUpdateHandleDir)))" for m m1 m2
    by (intro keeps_rules attr) (simp_all add: sets_attributes_def)
  show ?thesis unfolding handleDir_def Let_def n(1) mode_def [symmetric]
    by (rule triple_Lstat_present) (use xfile harmless_then [OF dir] db n(2) in \<open>simp add: current_file_def\<close>)
qed

lemma appends_RenameOrCopy [keeps_rules]: "keeps (\<lambda>_. True) (\<lambda>_. True) (RenameOrCopy E src dst)"
  unfolding RenameOrCopy_def by (intro keeps_rules)

lemma finish_conflict:
  assumes c: "conflicting E n file cur" and frame: "attributes_frame E tmp (present E n)"
  shows "triple (made (present E n) (\<lambda>op. \<not> loses n op) old) (performFinish k E file cur hasCur tmp) (\<lambda>_. copy_kept n (copy_name E n file) old)"
proof -
  let ?H = "made (present E n) (\<lambda>op. \<not> loses n op) old"
  have n: "fi_Name file = n" "(\<not> IsDirectory cur \<and> \<not> IsSymlink cur \<and> InConflictWith file cur) = True" using c by (auto simp: conflicting_def)
  have attr: "keeps (present E n) (\<lambda>op. \<not> loses n op) (fs_do E op)" if "sets_attributes tmp op" for op
    by (rule keeps_fs_do) (use that frame in \<open>auto simp: attributes_frame_def sets_attributes_def loses_def split: fs_op.splits\<close>)
  have prep: "triple ?H (if b then wrapErr m1 (fs_do E (FsChmod tmp p)) else State_Monad.return None) (\<lambda>_. ?H)"
    "triple ?H (wrapErr m2 (setPlatformData E file tmp)) (\<lambda>_. ?H)" for b m1 m2 p
    by (rule keepsD, intro keeps_rules attr, simp add: sets_attributes_def)+
  have kept: "copy_kept n (copy_name E n file) old s" "harmless n old s \<and> present E n (pu_fs s)" if "?H s" for s
    using that by (auto simp: copy_kept_def harmless_def made_def)
  have check: "triple ?H (Lstat E n \<bind> (\<lambda>st. case st of
      Inr stat \<Rightarrow> orReturn (wrapErr m1 (scanIfItemChanged E n stat cur hasCur False)) (wrapErr m2 (conflict_or_delete k E file cur True))
    | Inl e \<Rightarrow> State_Monad.return (if IsNotExist e then None else Some (EWrap m3 e)))) (moved n (copy_name E n file) old)" for m1 m2 m3
    by (rule triple_strengthen [OF triple_Lstat_present kept(2)]) (simp add: check_then_move(2) [OF c])
  have last: "triple (moved n (copy_name E n file) old None) (orReturn (wrapErr m1 (RenameOrCopy E tmp n))
      (fs_do E (FsChtimes n (ModTime file)) \<bind> (\<lambda>_. send_update (file, dbUpdateHandleFile) \<bind> (\<lambda>_. State_Monad.return None))))
      (\<lambda>_. copy_kept n (copy_name E n file) old)" for m1
    by (intro moved_then_any keeps_rules)
  show ?thesis unfolding performFinish_def n
    by (rule triple_orReturn [OF prep(1) triple_orReturn [OF prep(2) triple_orReturn [OF check last]]])
      (auto simp: moved_def kept)
qed

text \<open>C4. When the incoming version is in conflict with the file on disk, the file is renamed to its
  conflict copy before any call that removes, archives or overwrites it, and if that rename fails no
  such call is made at all: whether the incoming version is a file, a directory, a symlink or a
  deletion. (Conflict copies are switched on, and the file is not itself a conflict copy.)\<close>

theorem conflict_keeps_copy:
  assumes "conflicting E n file cur" and "pe_GetDeviceFile E n = Inr (Some cur)" and "present E n (pu_fs s)"
    and "attributes_frame E tmp (present E n)"
    and "t \<in> {snd (run_state (handleDir k E file) s), snd (run_state (handleSymlink k E file) s),
      snd (run_state (deleteFile E file) s), snd (run_state (performFinish k E file cur hasCur tmp) s)}"
  shows "\<exists>new. pu_calls t = pu_calls s @ new \<and> saved_first n (copy_name E n file) new"
proof -
  have h: "harmless n (pu_calls s) s" "made (present E n) (\<lambda>op. \<not> loses n op) (pu_calls s) s"
    using assms(3) by (simp_all add: harmless_def made_def)
  have n: "fi_Name file = n" using assms(1) by (simp add: conflicting_def)
  have "triple (harmless n (pu_calls s)) (deleteFile E file) (\<lambda>_. copy_kept n (copy_name E n file) (pu_calls s))"
    unfolding deleteFile_def using delete_conflict [OF assms(1)] assms(2) n by (simp add: current_file_def)
  then have "copy_kept n (copy_name E n file) (pu_calls s) (snd (run_state (deleteFile E file) s))"
    using h(1) by (simp add: triple_def case_prod_beta)
  moreover have "copy_kept n (copy_name E n file) (pu_calls s) (snd (run_state (handleDir k E file) s))"
    using dir_conflict [OF assms(1,2)] h(1) assms(3) by (simp add: triple_def case_prod_beta)
  moreover have "copy_kept n (copy_name E n file) (pu_calls s) (snd (run_state (handleSymlink k E file) s))"
    using symlink_conflict [OF assms(1,2)] h(1) assms(3) by (simp add: triple_def case_prod_beta)
  moreover have "copy_kept n (copy_name E n file) (pu_calls s) (snd (run_state (performFinish k E file cur hasCur tmp) s))"
    using finish_conflict [OF assms(1,4)] h(2) by (simp add: triple_def case_prod_beta)
  ultimately show ?thesis using assms(5) copy_kept_saved_first by blast
qed

section \<open>The database is told afterwards\<close>

text \<open>\<open>achieves op m\<close>: when \<open>m\<close> ends without an error, it has made the call \<open>op\<close> with success.\<close>

definition done_call :: "fs_op \<Rightarrow> (fs_op \<times> fs_error option) list \<Rightarrow> pull_error option \<Rightarrow> 'w puller \<Rightarrow> bool" where
  "done_call op old r s \<longleftrightarrow> (\<exists>new. pu_calls s = old @ new \<and> (r = None \<longrightarrow> (op, None) \<in> set new))"

definition achieves :: "fs_op \<Rightarrow> ('w, pull_error option) pm \<Rightarrow> bool" where
  "achieves op m \<longleftrightarrow> (\<forall>old. triple (made (\<lambda>_. True) (\<lambda>_. True) old) m (done_call op old))"

named_theorems achieves_rules

abbreviation any_calls :: "('w, 'a) pm \<Rightarrow> bool" where
  "any_calls \<equiv> keeps (\<lambda>_. True) (\<lambda>_. True)"

lemma done_call_error: "made (\<lambda>_. True) (\<lambda>_. True) old s \<Longrightarrow> done_call op old (Some e) s"
  by (auto simp: done_call_def made_def)

lemma done_call_append: "done_call op old r s \<Longrightarrow> pu_calls t = pu_calls s @ new \<Longrightarrow> done_call op old r t"
  by (auto simp: done_call_def)

lemma done_call_keeps: "any_calls m \<Longrightarrow> triple (done_call op old r) m (\<lambda>_. done_call op old r)"
  by (auto simp: triple_def elim!: keeps_appended intro: done_call_append)

lemma achieves_fs_do [achieves_rules]: "achieves op (fs_do E op)"
  by (auto simp: achieves_def triple_def done_call_def made_def fs_do_def split: prod.split)

lemma achieves_first [achieves_rules]:
  assumes "achieves op m" and "any_calls k" shows "achieves op (orReturn m k)"
  unfolding achieves_def
proof
  fix old
  have "triple (done_call op old None) k (done_call op old)"
    by (rule triple_weaken [OF done_call_keeps [OF assms(2)]]) (auto simp: done_call_def)
  then show "triple (made (\<lambda>_. True) (\<lambda>_. True) old) (orReturn m k) (done_call op old)"
    by (rule triple_orReturn [where R = "done_call op old", rotated]) (use assms(1) in \<open>simp_all add: achieves_def\<close>)
qed

lemma achieves_second: "any_calls m \<Longrightarrow> achieves op k \<Longrightarrow> achieves op (orReturn m k)"
  unfolding achieves_def
  by (intro allI, rule triple_orReturn [where R = "\<lambda>_. made (\<lambda>_. True) (\<lambda>_. True) _"]) (auto dest: keepsD intro: done_call_error)

lemma achieves_wrapErr [achieves_rules]: "achieves op m \<Longrightarrow> achieves op (wrapErr msg m)"
  unfolding achieves_def by (intro allI triple_wrapErr) (auto intro: triple_weaken simp: done_call_def)

lemma achieves_in_writable_dir [achieves_rules]:
  assumes "achieves op (fn p)" shows "achieves op (in_writable_dir E fn p)"
  unfolding achieves_def
proof
  fix old show "triple (made (\<lambda>_. True) (\<lambda>_. True) old) (in_writable_dir E fn p) (done_call op old)"
  proof (rule in_writable_dir_triple)
    show "triple (made (\<lambda>_. True) (\<lambda>_. True) old) (fn p) (done_call op old)" using assms by (simp add: achieves_def)
    fix e e' s assume "done_call op old (Some e) s"
    then show "done_call op old (Some e') s" by (simp add: done_call_def)
  qed (intro done_call_error keepsD appends done_call_keeps; assumption)+
qed

lemma achieves_RenameOrCopy [achieves_rules]: "achieves (FsRename src dst) (RenameOrCopy E src dst)"
  unfolding achieves_def RenameOrCopy_def
proof
  fix old
  show "triple (made (\<lambda>_. True) (\<lambda>_. True) old) (withPreparedTarget E src dst (fs_do E (FsRename src dst))) (done_call (FsRename src dst) old)"
    by (rule withPreparedTarget_triple)
      (use achieves_fs_do in \<open>auto simp: achieves_def intro: done_call_error keepsD appends done_call_keeps\<close>)
qed

lemma quiet_checks [quiet_rules]:
  "quiet (scanIfItemChanged E n st cur hasCur b)" "quiet (checkToBeDeleted E f cur hasCur)" "quiet (remove_extra E ns)"
proof -
  show s: "quiet (scanIfItemChanged E n st cur hasCur b)" for n st b unfolding scanIfItemChanged_def by (intro quiet_rules)
  show "quiet (checkToBeDeleted E f cur hasCur)" unfolding checkToBeDeleted_def by (intro quiet_rules s)
  show "quiet (remove_extra E ns)" by (induction ns) (auto intro!: quiet_rules)
qed

lemma quiet_conflict_or_delete [quiet_rules]: "quiet (conflict_or_delete k E file cur b)"
  unfolding conflict_or_delete_def deleteItemOnDisk_def moveForConflict_def remove_conflicting_def Let_def by (intro quiet_rules)

lemma any_calls_helpers [keeps_rules]:
  "any_calls (deleteDirOnDisk k E dir)" "any_calls (conflict_or_delete k E file cur b)"
proof -
  have ch: "any_calls (child_step E d path info err acc)" for d path info err acc
    unfolding child_step_def Let_def case_prod_beta by (intro keeps_rules | simp split: option.split sum.split)+
  have dd: "any_calls (delete_dirs E ds acc)" for ds acc
    by (induction ds arbitrary: acc) (auto intro!: keeps_rules)
  show d: "any_calls (deleteDirOnDisk k E dir)" for dir
    unfolding deleteDirOnDisk_def deleteDirOnDiskHandleChildren_def by (intro keeps_rules ch dd)
  show "any_calls (conflict_or_delete k E file cur b)"
    unfolding conflict_or_delete_def deleteItemOnDisk_def moveForConflict_def remove_conflicting_def Let_def by (intro keeps_rules d)
qed

definition told :: "'w puller \<Rightarrow> 'w puller \<Rightarrow> dbUpdateJob list \<Rightarrow> fs_op \<Rightarrow> bool" where
  "told s t jobs op \<longleftrightarrow> pu_updates t = pu_updates s @ jobs \<and> (\<exists>new. pu_calls t = pu_calls s @ new \<and> (op, None) \<in> set new)"

lemma achievesD:
  assumes "achieves op m" and "run_state m s = (None, t)"
  obtains new where "pu_calls t = pu_calls s @ new" "(op, None) \<in> set new"
proof -
  have "done_call op (pu_calls s) None t"
    using assms(1) tripleD [OF _ _ assms(2)] unfolding achieves_def by (metis append_Nil2 list.set(1) ex_in_conv made_def)
  then show thesis using that by (auto simp: done_call_def)
qed

lemma performFinish_achieves: "achieves (FsRename tmp (fi_Name file)) (performFinish k E file cur hasCur tmp)"
  unfolding performFinish_def
  by (rule achieves_second, intro keeps_rules, rule achieves_second, intro keeps_rules, rule achieves_second, intro keeps_rules,
    intro achieves_rules keeps_rules)

lemma performFinish_updates:
  "pu_updates (snd (run_state (performFinish k E file cur hasCur tmp) s)) =
     pu_updates s @ (if fst (run_state (performFinish k E file cur hasCur tmp) s) = None then [(file, dbUpdateHandleFile)] else [])"
proof -
  have q: "triple (\<lambda>s. pu_updates s = u) m (\<lambda>_ s. pu_updates s = u)" if "quiet m" for m :: "('a, pull_error option) pm" and u
    using that by (simp add: quiet_triple)
  have "triple (\<lambda>s. pu_updates s = u) (performFinish k E file cur hasCur tmp)
      (\<lambda>r s. pu_updates s = u @ (if r = None then [(file, dbUpdateHandleFile)] else []))" for u
    unfolding performFinish_def
    by (rule triple_orReturn [OF q], intro quiet_rules, rule triple_orReturn [OF q], intro quiet_rules, rule triple_orReturn [OF q],
      intro quiet_rules, rule triple_orReturn [OF q], unfold RenameOrCopy_def, intro quiet_rules)
      (simp_all add: triple_def fs_do_def send_update_def case_prod_beta)
  then show ?thesis by (simp add: triple_def case_prod_beta)
qed

lemma performFinish_told:
  assumes "run_state (performFinish k E file cur hasCur tmp) s = (r, t)"
  shows "if r = None then told s t [(file, dbUpdateHandleFile)] (FsRename tmp (fi_Name file)) else pu_updates t = pu_updates s"
proof -
  have u: "pu_updates t = pu_updates s @ (if r = None then [(file, dbUpdateHandleFile)] else [])"
    using performFinish_updates [of k E "file" cur hasCur tmp s] assms by simp
  show ?thesis
  proof (cases r)
    case None
    obtain new where "pu_calls t = pu_calls s @ new" "(FsRename tmp (fi_Name file), None) \<in> set new"
      by (rule achievesD [OF performFinish_achieves assms [unfolded None]])
    then show ?thesis using u None by (auto simp: told_def)
  qed (use u in simp)
qed

lemma told_more:
  assumes "told s1 t jobs op" and "pu_updates s1 = pu_updates s" and "pu_calls s1 = pu_calls s @ new"
  shows "told s t jobs op"
  using assms by (auto simp: told_def)

lemma quiet_any_run:
  assumes "quiet m" and "any_calls m" and "run_state m s = (e, s1)"
  obtains new where "pu_updates s1 = pu_updates s" "pu_calls s1 = pu_calls s @ new"
  using quietD [OF assms(1,3)] keeps_appended [OF assms(2,3)] by blast

lemma handler_told:
  assumes "achieves op m" and "quiet m" and "run_state (m \<bind> (\<lambda>e. case e of None \<Rightarrow> send_update j | Some er \<Rightarrow> newPullError n (f er))) s = ((), t)"
  shows "pu_updates t = pu_updates s \<or> told s t [j] op"
proof -
  obtain e s1 where m: "run_state m s = (e, s1)" by fastforce
  have u: "pu_updates s1 = pu_updates s" by (rule quietD [OF assms(2) m])
  show ?thesis
  proof (cases e)
    case None
    obtain new where "pu_calls s1 = pu_calls s @ new" "(op, None) \<in> set new" by (rule achievesD [OF assms(1) m [unfolded None]])
    then show ?thesis using assms(3) m u None by (auto simp: told_def send_update_def)
  next
    case (Some er)
    then show ?thesis using assms(3) m u by (auto simp: newPullError_def split: if_splits)
  qed
qed

lemma create_dir_told:
  assumes "run_state (create_dir E file mode) s = ((), t)"
  shows "pu_updates t = pu_updates s \<or> told s t [(file, dbUpdateHandleDir)] (FsMkdir (fi_Name file) mode)"
proof (rule handler_told)
  show "achieves (FsMkdir (fi_Name file) mode) (in_writable_dir E (make_dir E file mode) (fi_Name file))"
    unfolding make_dir_def by (intro achieves_rules keeps_rules)
  show "quiet (in_writable_dir E (make_dir E file mode) (fi_Name file))"
    unfolding make_dir_def by (intro quiet_rules)
qed (use assms in \<open>simp add: create_dir_def\<close>)

lemma any_calls_symlink [keeps_rules]: "any_calls (handleSymlinkCheckExisting k E file)"
  unfolding handleSymlinkCheckExisting_def Let_def by (intro keeps_rules)

lemma quiet_symlink [quiet_rules]: "quiet (handleSymlinkCheckExisting k E file)"
  unfolding handleSymlinkCheckExisting_def Let_def by (intro quiet_rules)

lemma symlink_told:
  assumes "run_state (handleSymlink k E file) s = ((), t)"
  shows "pu_updates t = pu_updates s \<or> told s t [(file, dbUpdateHandleSymlink)] (FsCreateSymlink (fi_SymlinkTarget file) (fi_Name file))"
proof (cases "length (fi_SymlinkTarget file) = 0")
  case True
  then show ?thesis using assms by (auto simp: handleSymlink_def newPullError_def split: if_splits)
next
  case False
  obtain e s1 where c: "run_state (handleSymlinkCheckExisting k E file) s = (e, s1)" by fastforce
  obtain new where s1: "pu_updates s1 = pu_updates s" "pu_calls s1 = pu_calls s @ new"
    by (rule quiet_any_run [OF quiet_symlink any_calls_symlink c])
  show ?thesis
  proof (cases e)
    case (Some er)
    then show ?thesis using assms c s1 False by (auto simp: handleSymlink_def newPullError_def split: if_splits)
  next
    case None
    let ?m = "in_writable_dir E (\<lambda>path. orReturn (fs_do E (FsCreateSymlink (fi_SymlinkTarget file) path)) (setPlatformData E file path)) (fi_Name file)"
    have "pu_updates t = pu_updates s1 \<or> told s1 t [(file, dbUpdateHandleSymlink)] (FsCreateSymlink (fi_SymlinkTarget file) (fi_Name file))"
    proof (rule handler_told)
      show "achieves (FsCreateSymlink (fi_SymlinkTarget file) (fi_Name file)) ?m" by (intro achieves_rules keeps_rules)
      show "quiet ?m" by (intro quiet_rules)
    qed (use assms c None False in \<open>simp add: handleSymlink_def\<close>)
    then show ?thesis using s1 told_more by metis
  qed
qed

lemma dir_told:
  assumes "run_state (handleDir k E file) s = ((), t)"
  shows "pu_updates t = pu_updates s \<or> (\<exists>mode. told s t [(file, dbUpdateHandleDir)] (FsMkdir (fi_Name file) mode))
    \<or> pu_updates t = pu_updates s @ [(file, dbUpdateHandleDir)] \<and> (\<exists>st. pe_Lstat E (fi_Name file) (pu_fs s) = Inr st \<and> st_IsDir st)"
proof -
  define mode where "mode = (if pe_IgnorePerms E \<or> fi_NoPermissions file then 511 else fi_Permissions file AND 511)"
  note run = assms [unfolded handleDir_def Let_def mode_def [symmetric]]
  consider e where "pe_Lstat E (fi_Name file) (pu_fs s) = Inl e" | st where "pe_Lstat E (fi_Name file) (pu_fs s) = Inr st" "st_IsDir st"
    | st where "pe_Lstat E (fi_Name file) (pu_fs s) = Inr st" "\<not> st_IsDir st" by (cases "pe_Lstat E (fi_Name file) (pu_fs s)") auto
  then show ?thesis
  proof cases
    case 1
    then show ?thesis using run create_dir_told [of E "file" mode s t]
      by (auto simp: Lstat_def look_def newPullError_def split: if_splits)
  next
    case 2
    let ?m = "if \<not> pe_IgnorePerms E \<and> \<not> fi_NoPermissions file then orReturn (wrapErr ''handling dir (setting permissions)''
      (fs_do E (FsChmod (fi_Name file) (mode OR (st_Mode st AND retainBits))))) (wrapErr ''handling dir (setting metadata)'' (setPlatformData E file (fi_Name file)))
      else State_Monad.return None"
    obtain e s1 where m: "run_state ?m s = (e, s1)" by (metis surj_pair)
    have "pu_updates s1 = pu_updates s" by (rule quietD [OF _ m]) (intro quiet_rules)
    then show ?thesis using run m 2
      by (cases e) (auto simp: Lstat_def look_def newPullError_def send_update_def split: if_splits)
  next
    case 3
    show ?thesis
    proof (cases "pe_GetDeviceFile E (fi_Name file)")
      case (Inl e)
      then show ?thesis using run 3 by (auto simp: Lstat_def look_def newPullError_def split: if_splits)
    next
      case (Inr r)
      let ?cur = "fst (current_file r)" and ?has = "snd (current_file r)"
      obtain e1 s1 where c: "run_state (scanIfItemChanged E (fi_Name file) st ?cur ?has False) s = (e1, s1)" by fastforce
      obtain new1 where s1: "pu_updates s1 = pu_updates s" "pu_calls s1 = pu_calls s @ new1"
        by (rule quiet_any_run [OF quiet_checks(1) scanIfItemChanged_keeps c])
      obtain e2 s2 where d: "run_state (conflict_or_delete k E file ?cur (\<not> IsSymlink ?cur \<and> InConflictWith file ?cur)) s1 = (e2, s2)" by fastforce
      obtain new2 where s2: "pu_updates s2 = pu_updates s1" "pu_calls s2 = pu_calls s1 @ new2"
        by (rule quiet_any_run [OF quiet_conflict_or_delete any_calls_helpers(2) d])
      show ?thesis
      proof (cases "e1 = None \<and> e2 = None")
        case True
        then have "run_state (create_dir E file mode) s2 = ((), t)"
          using run 3 Inr c d by (simp add: Lstat_def look_def case_prod_beta)
        then have "pu_updates t = pu_updates s2 \<or> told s2 t [(file, dbUpdateHandleDir)] (FsMkdir (fi_Name file) mode)" by (rule create_dir_told)
        then show ?thesis using s1 s2 told_more [of s2 t _ _ s "new1 @ new2"] by auto
      next
        case False
        then show ?thesis using run 3 Inr c d s1 s2
          by (cases e1) (auto simp: Lstat_def look_def case_prod_beta newPullError_def split: if_splits)
      qed
    qed
  qed
qed

lemma quiet_rename_checks [quiet_rules]: "quiet (check_target E source target curTarget ok)"
  unfolding check_target_def Let_def by (intro quiet_rules)

lemma any_calls_rename_checks [keeps_rules]: "any_calls (check_target E source target curTarget ok)"
  unfolding check_target_def Let_def by (intro keeps_rules)

lemma rename_told:
  assumes "run_state (renameFile k E cur source target) s = (r, t)"
  shows "if r = None then told s t [(target, dbUpdateHandleFile), (source, dbUpdateDeleteFile)]
      (FsRename (TempName (pe_isWindows E) (pe_sha256 E) (fi_Name target)) (fi_Name target))
    else pu_updates t = pu_updates s"
proof -
  let ?tmp = "TempName (pe_isWindows E) (pe_sha256 E) (fi_Name target)"
  define m1 where "m1 = checkToBeDeleted E source cur True"
  obtain e1 s1 where r1: "run_state m1 s = (e1, s1)" by fastforce
  obtain n1 where s1: "pu_updates s1 = pu_updates s" "pu_calls s1 = pu_calls s @ n1"
    by (rule quiet_any_run [OF _ _ r1]) (auto simp: m1_def intro: quiet_rules keeps_rules)
  show ?thesis
  proof (cases "\<exists>q. e1 = None \<and> pe_GetDeviceFile E (fi_Name target) = Inr q")
    case False
    then show ?thesis using assms r1 s1 unfolding renameFile_def m1_def
      by (cases e1; cases "pe_GetDeviceFile E (fi_Name target)") (auto simp: orReturn_run split: if_splits)
  next
    case True
    then obtain q where q: "e1 = None" "pe_GetDeviceFile E (fi_Name target) = Inr q" by blast
    define curT ok where "curT = fst (current_file q)" and "ok = snd (current_file q)"
    define m2 where "m2 = check_target E source target curT ok"
    define m3 where "m3 = (if pe_versioner E then
         (case pe_CheckAvailableSpace E (fi_Size source) of
            Some e \<Rightarrow> State_Monad.return (Some e)
          | None \<Rightarrow> orReturn (osutil_Copy E (fi_Name source) ?tmp) (in_writable_dir E (\<lambda>p. fs_do E (FsArchive p)) (fi_Name source)))
       else RenameOrCopy E (fi_Name source) ?tmp)"
    have run: "run_state (orReturn m2 (orReturn m3 (orReturn (performFinish k E target curT True ?tmp)
        (send_update (source, dbUpdateDeleteFile) \<bind> (\<lambda>_. State_Monad.return None))))) s1 = (r, t)"
      using assms r1 q unfolding renameFile_def m1_def m2_def m3_def curT_def ok_def
      by (simp add: orReturn_run case_prod_beta Let_def)
    obtain e2 s2 where r2: "run_state m2 s1 = (e2, s2)" by fastforce
    obtain n2 where s2: "pu_updates s2 = pu_updates s1" "pu_calls s2 = pu_calls s1 @ n2"
      by (rule quiet_any_run [OF _ _ r2]) (auto simp: m2_def intro: quiet_rules keeps_rules)
    obtain e3 s3 where r3: "run_state m3 s2 = (e3, s3)" by fastforce
    have "quiet m3" unfolding m3_def osutil_Copy_def RenameOrCopy_def by (intro quiet_rules)
    moreover have "any_calls m3" unfolding m3_def osutil_Copy_def by (intro keeps_rules)
    ultimately obtain n3 where s3: "pu_updates s3 = pu_updates s2" "pu_calls s3 = pu_calls s2 @ n3" by (rule quiet_any_run [OF _ _ r3])
    obtain e4 s4 where r4: "run_state (performFinish k E target curT True ?tmp) s3 = (e4, s4)" by fastforce
    note fin = performFinish_told [OF r4]
    show ?thesis
    proof (cases "e2 = None \<and> e3 = None \<and> e4 = None")
      case True
      then have "r = None" "t = s4\<lparr>pu_updates := pu_updates s4 @ [(source, dbUpdateDeleteFile)]\<rparr>"
        using run r2 r3 r4 by (auto simp: orReturn_run send_update_def)
      moreover have "told s s4 [(target, dbUpdateHandleFile)] (FsRename ?tmp (fi_Name target))"
        using fin True s1 s2 s3 by (intro told_more [of s3 _ _ _ s "n1 @ n2 @ n3"]) auto
      ultimately show ?thesis by (auto simp: told_def)
    next
      case False
      then consider "e2 \<noteq> None" | "e2 = None" "e3 \<noteq> None" | "e2 = None" "e3 = None" "e4 \<noteq> None" by auto
      then show ?thesis
      proof cases
        case 1
        then have "r = e2" "t = s2" using run r2 by (auto simp: orReturn_run)
        then show ?thesis using 1 s1 s2 by auto
      next
        case 2
        then have "r = e3" "t = s3" using run r2 r3 by (auto simp: orReturn_run)
        then show ?thesis using 2 s1 s2 s3 by auto
      next
        case 3
        then have "r = e4" "t = s4" using run r2 r3 r4 by (auto simp: orReturn_run)
        then show ?thesis using 3 s1 s2 s3 fin by auto
      qed
    qed
  qed
qed

text \<open>C14. The database is told of a new item only after the call that puts it in place has succeeded:
  of a file after the temporary file was renamed to it, of a symlink or a directory after it was
  created (or when the directory was there), and of a renamed file together with the removal of its
  old name; when a handler fails, nothing is told.\<close>

theorem recorded_after_done:
  "(case run_state (performFinish k E file cur hasCur tmp) s of (r, t) \<Rightarrow>
      if r = None then told s t [(file, dbUpdateHandleFile)] (FsRename tmp (fi_Name file)) else pu_updates t = pu_updates s)
   \<and> (case run_state (renameFile k E cur source file) s of (r, t) \<Rightarrow>
      if r = None then told s t [(file, dbUpdateHandleFile), (source, dbUpdateDeleteFile)]
        (FsRename (TempName (pe_isWindows E) (pe_sha256 E) (fi_Name file)) (fi_Name file))
      else pu_updates t = pu_updates s)
   \<and> (case run_state (handleSymlink k E file) s of (_, t) \<Rightarrow>
      pu_updates t = pu_updates s \<or> told s t [(file, dbUpdateHandleSymlink)] (FsCreateSymlink (fi_SymlinkTarget file) (fi_Name file)))
   \<and> (case run_state (handleDir k E file) s of (_, t) \<Rightarrow>
      pu_updates t = pu_updates s \<or> (\<exists>mode. told s t [(file, dbUpdateHandleDir)] (FsMkdir (fi_Name file) mode))
      \<or> pu_updates t = pu_updates s @ [(file, dbUpdateHandleDir)] \<and> (\<exists>st. pe_Lstat E (fi_Name file) (pu_fs s) = Inr st \<and> st_IsDir st))"
proof (intro conjI)
  show "case run_state (performFinish k E file cur hasCur tmp) s of (r, t) \<Rightarrow>
      if r = None then told s t [(file, dbUpdateHandleFile)] (FsRename tmp (fi_Name file)) else pu_updates t = pu_updates s"
    using performFinish_told [of k E "file" cur hasCur tmp s] by (auto split: prod.split)
  show "case run_state (renameFile k E cur source file) s of (r, t) \<Rightarrow>
      if r = None then told s t [(file, dbUpdateHandleFile), (source, dbUpdateDeleteFile)]
        (FsRename (TempName (pe_isWindows E) (pe_sha256 E) (fi_Name file)) (fi_Name file))
      else pu_updates t = pu_updates s"
    using rename_told [of k E cur source "file" s] by (auto split: prod.split)
  show "case run_state (handleSymlink k E file) s of (_, t) \<Rightarrow>
      pu_updates t = pu_updates s \<or> told s t [(file, dbUpdateHandleSymlink)] (FsCreateSymlink (fi_SymlinkTarget file) (fi_Name file))"
    using symlink_told [of k E "file" s] by (auto split: prod.split)
  show "case run_state (handleDir k E file) s of (_, t) \<Rightarrow>
      pu_updates t = pu_updates s \<or> (\<exists>mode. told s t [(file, dbUpdateHandleDir)] (FsMkdir (fi_Name file) mode))
      \<or> pu_updates t = pu_updates s @ [(file, dbUpdateHandleDir)] \<and> (\<exists>st. pe_Lstat E (fi_Name file) (pu_fs s) = Inr st \<and> st_IsDir st)"
    using dir_told [of k E "file" s] by (auto split: prod.split)
qed

section \<open>A disk\<close>

definition example_stat :: "int \<Rightarrow> bool \<Rightarrow> file_stat" where
  "example_stat sz dir = \<lparr>st_Mode = 420, st_Size = sz, st_ModTime = time_Unix 1000 0, st_IsDir = dir, st_IsRegular = \<not> dir,
     st_IsSymlink = False, st_Owner = 0, st_Group = 0\<rparr>"

fun example_exec :: "fs_op \<Rightarrow> (string \<rightharpoonup> file_stat) \<Rightarrow> fs_error option \<times> (string \<rightharpoonup> file_stat)" where
  "example_exec (FsRemove p) w = (if w p = None then (Some ErrNotExist, w) else (None, w(p := None)))"
| "example_exec (FsArchive p) w = (if w p = None then (Some ErrNotExist, w) else (None, w(p := None)))"
| "example_exec (FsRename a b) w = (if w a = None then (Some ErrNotExist, w) else (None, w(a := None, b := w a)))"
| "example_exec (FsMkdir p m) w = (None, w(p \<mapsto> example_stat 0 True))"
| "example_exec (FsChmod p m) w = (None, w(p := map_option (\<lambda>st. st\<lparr>st_Mode := m\<rparr>) (w p)))"
| "example_exec (FsChtimes p t) w = (None, w(p := map_option (\<lambda>st. st\<lparr>st_ModTime := t\<rparr>) (w p)))"
| "example_exec op w = (None, w)"

definition example_env :: "(string \<rightharpoonup> FileInfo) \<Rightarrow> (string \<rightharpoonup> file_stat) pull_env" where
  "example_env db =
     \<lparr>pe_exec = example_exec,
      pe_Lstat = (\<lambda>n w. case w n of None \<Rightarrow> Inl ErrNotExist | Some st \<Rightarrow> Inr st),
      pe_Stat = (\<lambda>n w. Inr (example_stat 0 True)), pe_DirNames = (\<lambda>n w. Inr []), pe_Glob = (\<lambda>p w. []),
      pe_PlatformData = (\<lambda>n o1 x w. Inr PlatformData_zero), pe_ReadSymlink = (\<lambda>n w. Inr []), pe_SameFile = (\<lambda>a b. False),
      pe_checkInfiniteRecursion = False, pe_os = OS_Linux, pe_isAndroid = False, pe_equalFold = (=), pe_lookupUser = (\<lambda>_. None),
      pe_lookupGroup = (\<lambda>_. None), pe_lookupUserAndGroup = (\<lambda>_ _. Inl ErrNotExist), pe_sha256 = (\<lambda>b. b), pe_now = ''20240101-000000'',
      pe_IgnorePerms = False, pe_IgnoreDelete = False, pe_SyncOwnership = False, pe_SyncXattrs = False, pe_CopyOwnershipFromParent = False,
      pe_Type = FolderTypeSendReceive, pe_MaxConflicts = 10, pe_modTimeWindow = 0, pe_versioner = False, pe_trailerSize = (\<lambda>_. 0),
      pe_CheckAvailableSpace = (\<lambda>_. None), pe_GetDeviceFile = (\<lambda>n. Inr (db n)), pe_ignores = (\<lambda>_. NotIgnored)\<rparr>"

definition example_puller :: "(string \<rightharpoonup> file_stat) puller" where
  "example_puller = \<lparr>pu_fs = [''a'' \<mapsto> example_stat 7 False], pu_calls = [], pu_updates = [], pu_scans = [], pu_errors = Map.empty,
     pu_queue = newJobQueue\<rparr>"

definition example_item :: "int \<Rightarrow> Vector \<Rightarrow> FileInfo" where
  "example_item sz v = FileInfo_zero\<lparr>fi_Name := ''a'', fi_Size := sz, fi_Version := v, fi_ModifiedS := 1000, fi_Permissions := 420\<rparr>"

lemma example_env_sel [simp]:
  "pe_exec (example_env db) = example_exec" "pe_Lstat (example_env db) n w = (case w n of None \<Rightarrow> Inl ErrNotExist | Some st \<Rightarrow> Inr st)"
  "pe_SyncOwnership (example_env db) = False" "pe_SyncXattrs (example_env db) = False" "pe_ReadSymlink (example_env db) n w = Inr []"
  "pe_GetDeviceFile (example_env db) n = Inr (db n)" "pe_MaxConflicts (example_env db) = 10" "pe_Glob (example_env db) n w = []"
  by (simp_all add: example_env_def)

lemma example_differs: "w ''a'' = Some st \<Longrightarrow> st_Size st = 7 \<Longrightarrow> \<not> st_IsDir st \<Longrightarrow> \<not> st_IsSymlink st \<Longrightarrow>
   differs (example_env db) ''a'' (example_item 5 v) True w"
  by (simp add: differs_def CreateFileInfo_def IsEquivalentOptional_def isEquivalent_iff example_item_def FileInfo_zero_def)

lemma example_stat_differs: "differs (example_env db) ''a'' (example_item 5 v) True (pu_fs example_puller)"
  by (rule example_differs [where st = "example_stat 7 False"]) (simp_all add: example_puller_def example_stat_def)

lemma example_local:
  assumes "w n = w' n"
  shows "differs (example_env db) n cur b w = differs (example_env db) n cur b w'" "present (example_env db) n w = present (example_env db) n w'"
  using assms by (simp_all add: differs_def present_def CreateFileInfo_def cong: if_cong)

lemma example_frame:
  assumes "p \<noteq> n"
  shows "attributes_frame (example_env db) p (differs (example_env db) n cur b)" "attributes_frame (example_env db) p (present (example_env db) n)"
proof -
  have same: "snd (example_exec op w) n = w n" if "sets_attributes p op" for op w
    using that assms by (cases op) (auto simp: sets_attributes_def)
  show "attributes_frame (example_env db) p (differs (example_env db) n cur b)"
    unfolding attributes_frame_def using example_local(1) same by (metis example_env_sel(1))
  show "attributes_frame (example_env db) p (present (example_env db) n)"
    unfolding attributes_frame_def using example_local(2) same by (metis example_env_sel(1))
qed


theorem finish_keeps_unscanned_change_witness:
  "let E = example_env Map.empty; t = snd (run_state (performFinish 0 E (example_item 9 Vector_zero) (example_item 5 Vector_zero) True ''t'') example_puller)
   in pu_updates t = [] \<and> differs E ''a'' (example_item 5 Vector_zero) True (pu_fs t)"
proof -
  let ?E = "example_env Map.empty" and ?h = "performFinish 0 (example_env Map.empty) (example_item 9 Vector_zero) (example_item 5 Vector_zero) True ''t''"
  note example_stat_differs [of Map.empty Vector_zero]
  moreover obtain r t where r: "run_state ?h example_puller = (r, t)" by fastforce
  moreover have "''a'' = fi_Name (example_item 9 Vector_zero)" by (simp add: example_item_def)
  ultimately have "made (differs ?E ''a'' (example_item 5 Vector_zero) True) (sets_attributes ''t'') (pu_calls example_puller) t \<and> pu_updates t = pu_updates example_puller"
    using finish_keeps_unscanned_change [OF _ _ _ r] example_frame(1) [of "''t''" "''a''"] by blast
  then show ?thesis using r by (simp add: made_def example_puller_def)
qed


definition example_winner :: FileInfo where
  "example_winner = (example_item 9 \<lparr>Counters = [\<lparr>ID = 2, Value = 1\<rparr>]\<rparr>)\<lparr>fi_ModifiedBy := 2\<rparr>"

definition example_loser :: FileInfo where
  "example_loser = example_item 7 \<lparr>Counters = [\<lparr>ID = 1, Value = 1\<rparr>]\<rparr>"

theorem conflict_keeps_copy_witness:
  "let E = example_env [''a'' \<mapsto> example_loser]; t = snd (run_state (performFinish 0 E example_winner example_loser True ''t'') example_puller)
   in saved_first ''a'' (copy_name E ''a'' example_winner) (pu_calls t)"
proof -
  let ?E = "example_env [''a'' \<mapsto> example_loser]"
  have "InConflictWith example_winner example_loser" "\<not> isConflict ''a''" by code_simp+
  then have "conflicting ?E ''a'' example_winner example_loser"
    by (simp add: conflicting_def example_winner_def example_loser_def example_item_def IsDirectory_def IsSymlink_def
        FileInfo_zero_def existingConflicts_def Let_def)
  moreover have "pe_GetDeviceFile ?E ''a'' = Inr (Some example_loser)" by simp
  moreover have "present ?E ''a'' (pu_fs example_puller)" by (simp add: present_def example_puller_def)
  ultimately have "\<exists>new. pu_calls t = pu_calls example_puller @ new \<and> saved_first ''a'' (copy_name ?E ''a'' example_winner) new"
    if "t = snd (run_state (performFinish 0 ?E example_winner example_loser True ''t'') example_puller)" for t
    using conflict_keeps_copy [of ?E _ _ _ example_puller "''t''" t 0] example_frame(2) [of "''t''" "''a''"] that by blast
  then show ?thesis by (simp add: example_puller_def)
qed

text \<open>
  \<open>shortcutFile\<close> does not compare the file with its record: the change of a file since the last scan
  that left its size alone is hidden, since the file gets the new modification time and permissions
  and the new record matches it.
\<close>

lemma shortcut_hides_change:
  fixes E s new t
  defines "E \<equiv> example_env [''a'' \<mapsto> example_item 7 Vector_zero]"
    and "s \<equiv> example_puller\<lparr>pu_fs := [''a'' \<mapsto> (example_stat 7 False)\<lparr>st_ModTime := time_Unix 2000 0\<rparr>]\<rparr>"
    and "new \<equiv> (example_item 7 Vector_zero)\<lparr>fi_ModifiedS := 3000\<rparr>"
    and "t \<equiv> snd (run_state (shortcutFile E new) s)"
  shows "differs E ''a'' (example_item 7 Vector_zero) True (pu_fs s)" and "pu_updates t = [(new, dbUpdateShortcutFile)]"
    and "\<not> differs E ''a'' new True (pu_fs t)"
proof -
  have e: "\<not> pe_IgnorePerms E" "pe_Type E \<noteq> FolderTypeReceiveEncrypted" "pe_CopyOwnershipFromParent E = False"
    by (simp_all add: E_def example_env_def FolderTypeSendReceive_def FolderTypeReceiveEncrypted_def)
  note stat = CreateFileInfo_def IsEquivalentOptional_def isEquivalent_iff example_item_def FileInfo_zero_def example_stat_def
    ModTime_def ModTimeEqual_def time_seconds_def time_Unix_def wrap_signed_def unixToInternal_def item_comparison_def
    MustRescan_def time_Equal_def time_Before_def time_Sub_def time_nanos_def maxDuration_def minDuration_def in_signed_def
  show "differs E ''a'' (example_item 7 Vector_zero) True (pu_fs s)"
    unfolding E_def s_def differs_def by (simp add: stat) (simp add: example_env_def)
  have t: "pu_fs t = [''a'' \<mapsto> (example_stat 7 False)\<lparr>st_Mode := 420 AND 511, st_ModTime := ModTime new\<rparr>]"
    "pu_updates t = [(new, dbUpdateShortcutFile)]"
    using e by (simp_all add: t_def shortcutFile_def orReturn_run wrapErr_run setPlatformData_def queue_done_def fs_do_def send_update_def
        E_def s_def example_puller_def new_def example_item_def FileInfo_zero_def example_stat_def)
  then show "pu_updates t = [(new, dbUpdateShortcutFile)]" by simp
  show "\<not> differs E ''a'' new True (pu_fs t)"
    unfolding E_def differs_def t(1) new_def by (simp add: stat) (simp add: example_env_def ModePerm_def PermsEqual_def)
qed

end
