(* ===== verification/DbUtil.thy ===== *)
theory DbUtil
  imports FileInfo "HOL-Library.List_Lexorder"
begin

text \<open>
  Values as the database stores them, \<open>internal/db/sqlite/util.go\<close>: version vectors as text, the
  end of the range of names with a prefix, and a file record joined with its list of blocks.
  Text columns compare byte by byte (\<open>COLLATE BINARY\<close>), which is the lexicographic order of
  the library on lists.
\<close>

section \<open>Operations\<close>

definition dbVector_Value :: "Vector \<Rightarrow> string" where
  "dbVector_Value v = Vector_String v"

text \<open>The counters are sorted by id; vectors have few of them, and the sort of short slices is stable.\<close>

definition dbVector_Scan :: "string \<Rightarrow> (VectorError, Vector) result" where
  "dbVector_Scan str =
     (if str = '''' then Inr Vector_zero
      else (case VectorFromString str of
              Inl e \<Rightarrow> Inl e
            | Inr vec \<Rightarrow> Inr \<lparr>Counters = sort_key ID (Counters vec)\<rparr>))"

text \<open>The rows of a prefix query have the stored record and, if it has one, the stored block list.\<close>

definition indirectFI_FileInfo :: "(string \<Rightarrow> string) \<Rightarrow> bep_FileInfo \<Rightarrow> bep_BlockInfo list option \<Rightarrow> FileInfo" where
  "indirectFI_FileInfo nativeFilename fi bl =
     (let fi1 = (case bl of None \<Rightarrow> fi | Some blocks \<Rightarrow> fi\<lparr>w_Blocks := blocks\<rparr>)
      in FileInfoFromDB (fi1\<lparr>w_Name := nativeFilename (w_Name fi1)\<rparr>))"

text \<open>The loop runs from the last byte to the first; \<open>None\<close> is the panic on the empty string.\<close>

fun prefixEnd_loop :: "bytes \<Rightarrow> nat \<Rightarrow> bytes" where
  "prefixEnd_loop bs 0 = bs"
| "prefixEnd_loop bs (Suc i) = (if bs ! i < 255 then bs[i := bs ! i + 1] else prefixEnd_loop bs i)"

definition prefixEnd :: "bytes \<Rightarrow> bytes option" where
  "prefixEnd s = (if s = [] then None else Some (prefixEnd_loop s (length s)))"

section \<open>Stored versions\<close>

definition dbVector_stored :: "Vector \<Rightarrow> Vector" where
  "dbVector_stored v = \<lparr>Counters = sort_key ID (Counters v)\<rparr>"

lemma Vector_String_empty: "Vector_String v = '''' \<longleftrightarrow> Counters v = []"
proof (cases "Counters v")
  case (Cons c cs)
  have "Counter_String c \<noteq> ''''" by (simp add: Counter_String_def)
  then show ?thesis using Cons by (cases cs) (simp_all add: Vector_String_def)
qed (simp add: Vector_String_def)

lemma dbVector_roundtrip: "dbVector_Scan (dbVector_Value v) = Inr (dbVector_stored v)"
proof (cases "Counters v = []")
  case True
  then show ?thesis by (simp add: dbVector_Scan_def dbVector_Value_def Vector_String_empty dbVector_stored_def Vector_zero_def)
next
  case False
  then have "go_split (CHR '','') (Vector_String v) = map Counter_String (Counters v)"
    unfolding Vector_String_def by (intro go_split_join) (auto simp: Counter_String_chars)
  then show ?thesis using False
    by (simp add: dbVector_Scan_def dbVector_Value_def Vector_String_empty dbVector_stored_def VectorFromString_def VectorFromString_loop_map)
qed

lemma dbVector_stored_id: "Vector_invar v \<Longrightarrow> dbVector_stored v = v"
proof -
  assume "Vector_invar v"
  then have "sorted (map ID (Counters v))"
    by (auto simp: Vector_invar_def ordered_def sorted_wrt_map intro: sorted_wrt_mono_rel [rotated] less_imp_le)
  then show ?thesis by (simp add: dbVector_stored_def sort_key_id_if_sorted)
qed

section \<open>Ranges of names\<close>

lemma lex_less_append:
  "(p @ b # s :: 'a::linorder list) < p @ c # t \<longleftrightarrow> b < c \<or> b = c \<and> s < t"
  by (induction p) auto

lemma byte_less_inc: "(c :: uint8) < 255 \<Longrightarrow> b < c + 1 \<longleftrightarrow> b \<le> c"
  by (uint_arith; simp)

lemma prefixEnd_last:
  assumes "s \<noteq> []" "last s < 255"
  shows "prefixEnd s = Some (butlast s @ [last s + 1])"
proof -
  obtain p c where s: "s = p @ [c]" using assms(1) by (metis append_butlast_last_id)
  then show ?thesis using assms(2) by (simp add: prefixEnd_def)
qed

lemma prefix_range:
  assumes "(c :: uint8) < 255"
  shows "p @ [c] \<le> t \<and> t < p @ [c + 1] \<longleftrightarrow> prefix (p @ [c]) t"
proof (induction p arbitrary: t)
  case Nil
  show ?case
  proof (cases t)
    case (Cons b u)
    then have "[c] \<le> t \<longleftrightarrow> c \<le> b" "t < [c + 1] \<longleftrightarrow> b \<le> c" by (auto simp: byte_less_inc [OF assms])
    then show ?thesis using Cons by auto
  qed simp
next
  case (Cons x p)
  show ?case
  proof (cases t)
    case t: (Cons b u)
    have "x # p @ [c] \<le> b # u \<longleftrightarrow> x < b \<or> x = b \<and> p @ [c] \<le> u" "b # u < x # p @ [c + 1] \<longleftrightarrow> b < x \<or> b = x \<and> u < p @ [c + 1]"
      by simp_all
    then show ?thesis using Cons.IH [of u] t by (auto simp only: append_Cons Cons_prefix_Cons)
  qed simp
qed

text \<open>The names from a prefix up to the end computed for it are exactly the names with that
  prefix, if its last byte is not 255, which no byte of UTF-8 text is.\<close>

theorem prefixEnd_range:
  assumes "prefixEnd s = Some e" "last s \<noteq> 255"
  shows "s \<le> t \<and> t < e \<longleftrightarrow> prefix s t"
proof -
  have ne: "s \<noteq> []" using assms(1) by (auto simp: prefixEnd_def)
  have "last s < 255" using assms(2) by (uint_arith; simp)
  then show ?thesis
    using prefix_range [of "last s" "butlast s" t] assms(1) prefixEnd_last [OF ne] ne by (simp add: append_butlast_last_id)
qed

theorem prefixEnd_range_witness:
  "prefixEnd [97, 47] = Some [97, 48] \<and> ([97, 47] \<le> [97, 47, 98] \<and> [97, 47, 98] < ([97, 48] :: bytes) \<longleftrightarrow> prefix [97, 47] [97, 47, 98 :: uint8])"
proof -
  have e: "prefixEnd [97, 47] = Some [97, 48]" by code_simp
  show ?thesis using prefixEnd_range [OF e, of "[97, 47, 98]"] e by simp
qed

text \<open>A byte 255 at the end is passed over without being cleared: the range grows, or is empty.\<close>

lemma prefixEnd_255:
  "prefixEnd [255] = Some [255]" "prefixEnd [97, 255] = Some [98, 255]"
  by code_simp+

end
