(* ===== verification/FolderDB.thy ===== *)
theory FolderDB
  imports DbUtil "HOL-Library.Multiset"
begin

text \<open>
  The index of a folder, \<open>internal/db/sqlite/folderdb_update.go\<close>: the files every device has
  announced, the choice of the global version of each name and the flag that says we need it.
  The tables are lists of rows; the SQL statements are written out as what they do to the rows,
  with the unique indexes of \<open>internal/db/sqlite/sql/schema/folder\<close>. An operation that returns an
  error rolls its transaction back. Failures of the database itself are not modelled.
\<close>

unbundle bit_operations_syntax

section \<open>Tables\<close>

text \<open>A row of \<open>files\<close> joined with its name and version, the version as it is read back.\<close>

record fileRow =
  fr_Name :: string
  fr_Version :: Vector
  fr_DeviceIdx :: int
  fr_Sequence :: int
  fr_RemoteSequence :: "int option"
  fr_Type :: FileInfoType
  fr_Modified :: int
  fr_Size :: int
  fr_LocalFlags :: FlagLocal
  fr_Deleted :: bool
  fr_BlocklistHash :: "bytes option"

record blockRow =
  br_hash :: bytes
  br_blocklist_hash :: bytes
  br_idx :: nat
  br_offset :: int
  br_size :: int

text \<open>\<open>fdb_seq\<close> is the last sequence number handed out (the key is \<open>AUTOINCREMENT\<close>).\<close>

record folderDB =
  fdb_files :: "fileRow list"
  fdb_seq :: int
  fdb_fileinfos :: "int \<rightharpoonup> FileInfo"
  fdb_blocklists :: "bytes \<rightharpoonup> BlockInfo list"
  fdb_blocks :: "blockRow list"
  fdb_localDeviceIdx :: int

section \<open>Order of the announced versions\<close>

definition fileRow_IsInvalid :: "fileRow \<Rightarrow> bool" where
  "fileRow_IsInvalid e \<longleftrightarrow> FlagLocal_IsInvalid (fr_LocalFlags e)"

definition cmp_int :: "int \<Rightarrow> int \<Rightarrow> int" where
  "cmp_int a b = (if a < b then - 1 else if a > b then 1 else 0)"

definition fileRow_Compare :: "fileRow \<Rightarrow> fileRow \<Rightarrow> int" where
  "fileRow_Compare e other =
     (let vc = Compare (fr_Version e) (fr_Version other) in
      case vc of
        Equal \<Rightarrow>
          if fileRow_IsInvalid e \<noteq> fileRow_IsInvalid other then (if fileRow_IsInvalid e then 1 else - 1)
          else cmp_int (fr_DeviceIdx e) (fr_DeviceIdx other)
      | Greater \<Rightarrow> - 1
      | Lesser \<Rightarrow> 1
      | _ \<Rightarrow>
          if fileRow_IsInvalid e \<noteq> fileRow_IsInvalid other then (if fileRow_IsInvalid e then 1 else - 1)
          else
            let d = cmp_int (fr_Modified e) (fr_Modified other) in
            if d \<noteq> 0 then - d
            else if vc = ConcurrentGreater then - 1 else 1)"

section \<open>Global and need\<close>

text \<open>\<open>slices.IndexFunc\<close>.\<close>

fun index_func :: "('a \<Rightarrow> bool) \<Rightarrow> 'a list \<Rightarrow> int" where
  "index_func P [] = - 1"
| "index_func P (x # xs) = (if P x then 0 else let i = index_func P xs in if i < 0 then - 1 else i + 1)"

text \<open>
  The entry that becomes the global one, with its new flags, from the sorted entries of a name.
  \<open>^protocol.FlagLocalNeeded\<close> is the complement.
\<close>

definition global_entry :: "int \<Rightarrow> fileRow list \<Rightarrow> fileRow" where
  "global_entry localDeviceIdx es =
     (let i = index_func (\<lambda>e. \<not> fileRow_IsInvalid e) es;
          globIdx = (if i < 0 then 0 else i);
          global = es ! nat globIdx;
          localIdx = index_func (\<lambda>e. fr_DeviceIdx e = localDeviceIdx) es;
          hasLocal = (localIdx \<ge> 0 \<and> localIdx \<le> globIdx
            \<or> localIdx \<ge> 0 \<and> Vector_Equal (fr_Version (es ! nat localIdx)) (fr_Version global)
            \<or> localIdx < 0 \<and> fr_Deleted global);
          flags = fr_LocalFlags global OR FlagLocalGlobal
      in global\<lparr>fr_LocalFlags :=
           (if hasLocal \<or> FlagLocal_IsInvalid flags then flags AND NOT FlagLocalNeeded
            else flags OR FlagLocalNeeded)\<rparr>)"

definition set_global :: "fileRow \<Rightarrow> fileRow \<Rightarrow> fileRow" where
  "set_global g r =
     (let r1 = (if fr_DeviceIdx r = fr_DeviceIdx g \<and> fr_Sequence r = fr_Sequence g
                then r\<lparr>fr_LocalFlags := fr_LocalFlags g\<rparr> else r)
      in if fr_Name r1 = fr_Name g \<and> fr_Sequence r1 \<noteq> fr_Sequence g
            \<and> fr_LocalFlags r1 AND (FlagLocalNeeded OR FlagLocalGlobal) \<noteq> 0
         then r1\<lparr>fr_LocalFlags := fr_LocalFlags r1 AND NOT (FlagLocalNeeded OR FlagLocalGlobal)\<rparr>
         else r1)"

text \<open>\<open>sortFunc\<close> is \<open>slices.SortFunc\<close>.\<close>

type_synonym sorter = "(fileRow \<Rightarrow> fileRow \<Rightarrow> int) \<Rightarrow> fileRow list \<Rightarrow> fileRow list"

definition recalcGlobalForFile :: "sorter \<Rightarrow> string \<Rightarrow> folderDB \<Rightarrow> folderDB" where
  "recalcGlobalForFile sortFunc name db =
     (let es = filter (\<lambda>r. fr_Name r = name) (fdb_files db) in
      if length es = 0 then db
      else
        let global = global_entry (fdb_localDeviceIdx db) (sortFunc fileRow_Compare es)
        in db\<lparr>fdb_files := map (set_global global) (fdb_files db)\<rparr>)"

text \<open>The names without a global entry, each once.\<close>

definition is_global :: "fileRow \<Rightarrow> bool" where
  "is_global r \<longleftrightarrow> fr_LocalFlags r AND FlagLocalGlobal \<noteq> 0"

definition is_needed :: "fileRow \<Rightarrow> bool" where
  "is_needed r \<longleftrightarrow> fr_LocalFlags r AND FlagLocalNeeded \<noteq> 0"

definition names_without_global :: "folderDB \<Rightarrow> string list" where
  "names_without_global db =
     remdups (map fr_Name (filter (\<lambda>f. \<not> (\<exists>g \<in> set (fdb_files db). fr_Name g = fr_Name f \<and> is_global g)) (fdb_files db)))"

definition recalc_names :: "sorter \<Rightarrow> string list \<Rightarrow> folderDB \<Rightarrow> folderDB" where
  "recalc_names sortFunc ns db = foldl (\<lambda>db n. recalcGlobalForFile sortFunc n db) db ns"

definition recalcGlobalForFolder :: "sorter \<Rightarrow> folderDB \<Rightarrow> folderDB" where
  "recalcGlobalForFolder sortFunc db = recalc_names sortFunc (names_without_global db) db"

section \<open>Changes\<close>

text \<open>
  \<open>INSERT OR REPLACE INTO files\<close>: rows that collide on (device, name) or (device, remote sequence)
  are deleted first, and their \<open>fileinfos\<close> with them.
\<close>

definition collides :: "fileRow \<Rightarrow> fileRow \<Rightarrow> bool" where
  "collides new r \<longleftrightarrow> fr_DeviceIdx r = fr_DeviceIdx new \<and>
     (fr_Name r = fr_Name new \<or> fr_RemoteSequence new \<noteq> None \<and> fr_RemoteSequence r = fr_RemoteSequence new)"

definition insert_file :: "fileRow \<Rightarrow> folderDB \<Rightarrow> folderDB" where
  "insert_file new db =
     (let gone = filter (collides new) (fdb_files db)
      in db\<lparr>fdb_files := filter (\<lambda>r. \<not> collides new r) (fdb_files db) @ [new],
            fdb_seq := fr_Sequence new,
            fdb_fileinfos := (\<lambda>s. if s \<in> set (map fr_Sequence gone) then None else fdb_fileinfos db s)\<rparr>)"

definition delete_files :: "(fileRow \<Rightarrow> bool) \<Rightarrow> folderDB \<Rightarrow> folderDB" where
  "delete_files P db =
     db\<lparr>fdb_files := filter (\<lambda>r. \<not> P r) (fdb_files db),
        fdb_fileinfos := (\<lambda>s. if s \<in> set (map fr_Sequence (filter P (fdb_files db))) then None else fdb_fileinfos db s)\<rparr>"

fun insert_blocks_loop :: "bytes \<Rightarrow> nat \<Rightarrow> BlockInfo list \<Rightarrow> blockRow list \<Rightarrow> blockRow list" where
  "insert_blocks_loop blocklistHash i [] rows = rows"
| "insert_blocks_loop blocklistHash i (b # bs) rows =
     (let row = \<lparr>br_hash = bi_Hash b, br_blocklist_hash = blocklistHash, br_idx = i, br_offset = bi_Offset b, br_size = bi_Size b\<rparr>
      in insert_blocks_loop blocklistHash (i + 1) bs
           (if \<exists>r \<in> set rows. br_hash r = br_hash row \<and> br_blocklist_hash r = br_blocklist_hash row \<and> br_idx r = br_idx row
            then rows else rows @ [row]))"

definition insertBlocksLocked :: "bytes \<Rightarrow> BlockInfo list \<Rightarrow> folderDB \<Rightarrow> folderDB" where
  "insertBlocksLocked blocklistHash bs db = db\<lparr>fdb_blocks := insert_blocks_loop blocklistHash 0 bs (fdb_blocks db)\<rparr>"

record db_params =
  dbp_sha256 :: "bytes \<Rightarrow> bytes"
  dbp_normalize :: "string \<Rightarrow> string"
  dbp_sort :: sorter
  dbp_skipBlockIndex :: bool

text \<open>The record as it is stored: normalised name, hash of the blocks, size of a directory.\<close>

definition stored_form :: "db_params \<Rightarrow> FileInfo \<Rightarrow> FileInfo" where
  "stored_form p f0 =
     (let f1 = f0\<lparr>fi_Name := dbp_normalize p (fi_Name f0)\<rparr>;
          f2 = (if length (fi_Blocks f1) > 0 then f1\<lparr>fi_BlocksHash := BlocksHash (dbp_sha256 p) (fi_Blocks f1)\<rparr>
                else f1\<lparr>fi_BlocksHash := []\<rparr>)
      in if fi_Type f2 = FileInfoTypeDirectory then f2\<lparr>fi_Size := 128\<rparr> else f2)"

definition row_of :: "int \<Rightarrow> int \<Rightarrow> int \<Rightarrow> FileInfo \<Rightarrow> fileRow" where
  "row_of deviceIdx localIdx sequence f =
     \<lparr>fr_Name = fi_Name f, fr_Version = dbVector_stored (fi_Version f), fr_DeviceIdx = deviceIdx, fr_Sequence = sequence,
      fr_RemoteSequence = (if deviceIdx \<noteq> localIdx then Some (fi_Sequence f) else None), fr_Type = fi_Type f,
      fr_Modified = time_UnixNano (ModTime f), fr_Size = fi_Size f, fr_LocalFlags = fi_LocalFlags f,
      fr_Deleted = fi_Deleted f,
      fr_BlocklistHash = (if length (fi_Blocks f) > 0 then Some (fi_BlocksHash f) else None)\<rparr>"

definition update_one :: "db_params \<Rightarrow> int \<Rightarrow> FileInfo \<Rightarrow> folderDB \<Rightarrow> folderDB" where
  "update_one p deviceIdx f0 db =
     (let f = stored_form p f0;
          isLocal = (deviceIdx = fdb_localDeviceIdx db);
          localSeq = fdb_seq db + 1;
          db1 = insert_file (row_of deviceIdx (fdb_localDeviceIdx db) localSeq f) db;
          db2 = (if length (fi_Blocks f) > 0 then
                   let db1' = db1\<lparr>fdb_blocklists := (case fdb_blocklists db1 (fi_BlocksHash f) of
                                     None \<Rightarrow> (fdb_blocklists db1)(fi_BlocksHash f \<mapsto> fi_Blocks f)
                                   | Some _ \<Rightarrow> fdb_blocklists db1)\<rparr>
                   in if isLocal \<and> \<not> dbp_skipBlockIndex p then insertBlocksLocked (fi_BlocksHash f) (fi_Blocks f) db1' else db1'
                 else db1);
          info = f\<lparr>fi_Blocks := [], fi_Sequence := (if isLocal then localSeq else fi_Sequence f)\<rparr>;
          db3 = db2\<lparr>fdb_fileinfos := (fdb_fileinfos db2)(localSeq \<mapsto> info)\<rparr>
      in recalcGlobalForFile (dbp_sort p) (fi_Name f) db3)"

text \<open>\<open>prev\<close> is \<open>prevRemoteSeq\<close>, absent before the first file. The error is the duplicate sequence number.\<close>

fun update_loop :: "db_params \<Rightarrow> int \<Rightarrow> int option \<Rightarrow> FileInfo list \<Rightarrow> folderDB \<Rightarrow> (int, folderDB) result" where
  "update_loop p deviceIdx prev [] db = Inr db"
| "update_loop p deviceIdx prev (f # fs) db =
     (if deviceIdx \<noteq> fdb_localDeviceIdx db \<and> prev = Some (fi_Sequence f) then Inl (fi_Sequence f)
      else update_loop p deviceIdx (Some (fi_Sequence f)) fs (update_one p deviceIdx f db))"

definition folderDB_Update :: "db_params \<Rightarrow> int \<Rightarrow> FileInfo list \<Rightarrow> folderDB \<Rightarrow> folderDB \<times> int option" where
  "folderDB_Update p deviceIdx fs db =
     (case update_loop p deviceIdx None fs db of Inr db' \<Rightarrow> (db', None) | Inl e \<Rightarrow> (db, Some e))"

definition DropDevice :: "db_params \<Rightarrow> int \<Rightarrow> folderDB \<Rightarrow> folderDB option" where
  "DropDevice p deviceIdx db =
     (if deviceIdx = fdb_localDeviceIdx db then None
      else Some (recalcGlobalForFolder (dbp_sort p) (delete_files (\<lambda>r. fr_DeviceIdx r = deviceIdx) db)))"

definition DropAllFiles :: "db_params \<Rightarrow> int \<Rightarrow> folderDB \<Rightarrow> folderDB" where
  "DropAllFiles p deviceIdx db =
     (let db1 = delete_files (\<lambda>r. fr_DeviceIdx r = deviceIdx) db in
      if filter (\<lambda>r. fr_DeviceIdx r = deviceIdx) (fdb_files db) = [] then db1
      else recalcGlobalForFolder (dbp_sort p) db1)"

text \<open>An empty list of names is an error of the query builder, which leaves the rows as they are.\<close>

definition DropFilesNamed :: "db_params \<Rightarrow> int \<Rightarrow> string list \<Rightarrow> folderDB \<Rightarrow> folderDB" where
  "DropFilesNamed p deviceIdx names0 db =
     (let names = map (dbp_normalize p) names0 in
      recalc_names (dbp_sort p) names (delete_files (\<lambda>r. fr_DeviceIdx r = deviceIdx \<and> fr_Name r \<in> set names) db))"

text \<open>The index of the blocks of the local files, which can be dropped and built again.\<close>

definition blockIndexEmpty :: "folderDB \<Rightarrow> bool" where
  "blockIndexEmpty db \<longleftrightarrow> fdb_blocks db = []"

definition DropBlockIndex :: "folderDB \<Rightarrow> folderDB" where
  "DropBlockIndex db = (if blockIndexEmpty db then db else db\<lparr>fdb_blocks := []\<rparr>)"

definition local_blocklists :: "folderDB \<Rightarrow> (bytes \<times> BlockInfo list) list" where
  "local_blocklists db =
     concat (map (\<lambda>r. case fr_BlocklistHash r of None \<Rightarrow> []
                      | Some h \<Rightarrow> (case fdb_blocklists db h of None \<Rightarrow> [] | Some bs \<Rightarrow> [(h, bs)]))
       (filter (\<lambda>r. fr_DeviceIdx r = fdb_localDeviceIdx db) (fdb_files db)))"

definition PopulateBlockIndex :: "folderDB \<Rightarrow> folderDB" where
  "PopulateBlockIndex db =
     (if \<not> blockIndexEmpty db then db
      else foldl (\<lambda>db (h, bs). insertBlocksLocked h bs db) db (local_blocklists db))"

section \<open>Flags\<close>

lemma flag_values: "LocalInvalidFlags = 79" "FlagLocalGlobal = 16" "FlagLocalNeeded = 32"
  by (simp_all add: LocalInvalidFlags_def FlagLocalUnsupported_def FlagLocalIgnored_def FlagLocalMustRescan_def
      FlagLocalReceiveOnly_def FlagLocalRemoteInvalid_def FlagLocalGlobal_def FlagLocalNeeded_def)

lemma flags_or [simp]:
  "(x OR FlagLocalGlobal) AND FlagLocalGlobal \<noteq> 0" "(x OR FlagLocalNeeded) AND FlagLocalGlobal = x AND FlagLocalGlobal"
  "(x AND NOT FlagLocalNeeded) AND FlagLocalGlobal = x AND FlagLocalGlobal"
  "(x AND NOT FlagLocalNeeded) AND FlagLocalNeeded = 0" "(x OR FlagLocalNeeded) AND FlagLocalNeeded \<noteq> 0"
  "(x AND NOT (FlagLocalNeeded OR FlagLocalGlobal)) AND FlagLocalGlobal = 0"
  "(x AND NOT (FlagLocalNeeded OR FlagLocalGlobal)) AND FlagLocalNeeded = 0"
  for x :: uint32
  unfolding flag_values
  by (simp_all add: bit.conj_disj_distrib2 and.assoc bit_eq_iff [of "_ AND _" 0] bit_simps)

lemma flags_invalid [simp]:
  "FlagLocal_IsInvalid (x OR FlagLocalGlobal) = FlagLocal_IsInvalid x"
  "FlagLocal_IsInvalid (x OR FlagLocalNeeded) = FlagLocal_IsInvalid x"
  "FlagLocal_IsInvalid (x AND NOT FlagLocalNeeded) = FlagLocal_IsInvalid x"
  "FlagLocal_IsInvalid (x AND NOT (FlagLocalNeeded OR FlagLocalGlobal)) = FlagLocal_IsInvalid x"
  for x :: uint32
  unfolding FlagLocal_IsInvalid_def flag_values
  by (simp_all add: bit.conj_disj_distrib2 and.assoc)

lemma flags_none: "(x :: uint32) AND (FlagLocalNeeded OR FlagLocalGlobal) = 0 \<Longrightarrow> x AND FlagLocalGlobal = 0 \<and> x AND FlagLocalNeeded = 0"
proof -
  have "x AND FlagLocalGlobal = (x AND (FlagLocalNeeded OR FlagLocalGlobal)) AND FlagLocalGlobal"
    and "x AND FlagLocalNeeded = (x AND (FlagLocalNeeded OR FlagLocalGlobal)) AND FlagLocalNeeded"
    unfolding flag_values by (simp_all add: and.assoc)
  then show "x AND (FlagLocalNeeded OR FlagLocalGlobal) = 0 \<Longrightarrow> ?thesis" by simp
qed

lemma flags_upd: "fr_LocalFlags (r\<lparr>fr_LocalFlags := fl\<rparr>) = fl"
  by simp

lemma need_flags:
  "(if c then (x OR FlagLocalGlobal) AND NOT FlagLocalNeeded else (x OR FlagLocalGlobal) OR FlagLocalNeeded) AND FlagLocalGlobal \<noteq> 0"
  "FlagLocal_IsInvalid (if c then (x OR FlagLocalGlobal) AND NOT FlagLocalNeeded else (x OR FlagLocalGlobal) OR FlagLocalNeeded)
    = FlagLocal_IsInvalid x"
  "(if c then (x OR FlagLocalGlobal) AND NOT FlagLocalNeeded else (x OR FlagLocalGlobal) OR FlagLocalNeeded) AND FlagLocalNeeded \<noteq> 0
    \<longleftrightarrow> \<not> c"
  for x :: uint32
  by (cases c; simp only: if_True if_False flags_or flags_invalid not_True_eq_False not_False_eq_True simp_thms)+

section \<open>The invariant\<close>

lemma index_func_cases:
  obtains (none) "index_func P xs = - 1" "\<forall>x \<in> set xs. \<not> P x"
    | (some) k where "k < length xs" "index_func P xs = int k" "P (xs ! k)" "\<forall>j < k. \<not> P (xs ! j)"
proof -
  have "(index_func P xs = - 1 \<and> (\<forall>x \<in> set xs. \<not> P x)) \<or>
    (\<exists>k < length xs. index_func P xs = int k \<and> P (xs ! k) \<and> (\<forall>j < k. \<not> P (xs ! j)))"
  proof (induction xs)
    case (Cons x xs)
    show ?case
    proof (cases "P x")
      case False
      from Cons show ?thesis
      proof (elim disjE exE conjE)
        fix k assume k: "k < length xs" "index_func P xs = int k" "P (xs ! k)" "\<forall>j < k. \<not> P (xs ! j)"
        have "\<forall>j < Suc k. \<not> P ((x # xs) ! j)" using k(4) False by (auto simp: nth_Cons split: nat.split)
        then show ?thesis using False k by (intro disjI2 exI [of _ "Suc k"]) (simp add: Let_def)
      qed (use False in simp)
    qed auto
  qed simp
  then show ?thesis using that by blast
qed

text \<open>
  What the flags of the rows of one name say, for the local device \<open>l\<close>: exactly one row is the
  global one; it is invalid only if all are; it is marked as needed only if it is valid, of
  another device, and we have neither the same version nor, for a deleted file, nothing; and in
  that case it is marked, unless our own entry is an invalid one.
\<close>

definition needed_ok :: "int \<Rightarrow> fileRow list \<Rightarrow> fileRow \<Rightarrow> bool" where
  "needed_ok l rs g \<longleftrightarrow> \<not> fileRow_IsInvalid g \<and> fr_DeviceIdx g \<noteq> l \<and>
     (\<forall>r \<in> set rs. fr_DeviceIdx r = l \<longrightarrow> \<not> Vector_Equal (fr_Version r) (fr_Version g)) \<and>
     ((\<exists>r \<in> set rs. fr_DeviceIdx r = l) \<or> \<not> fr_Deleted g)"

definition name_ok :: "int \<Rightarrow> fileRow list \<Rightarrow> bool" where
  "name_ok l rs \<longleftrightarrow>
     (\<exists>g \<in> set rs. is_global g \<and> (\<forall>r \<in> set rs. r \<noteq> g \<longrightarrow> \<not> is_global r \<and> \<not> is_needed r) \<and>
        (fileRow_IsInvalid g \<longrightarrow> (\<forall>r \<in> set rs. fileRow_IsInvalid r)) \<and>
        (is_needed g \<longrightarrow> needed_ok l rs g) \<and>
        (needed_ok l rs g \<and> (\<forall>r \<in> set rs. fr_DeviceIdx r = l \<longrightarrow> \<not> fileRow_IsInvalid r) \<longrightarrow> is_needed g))"

abbreviation rows_named :: "string \<Rightarrow> folderDB \<Rightarrow> fileRow list" where
  "rows_named n db \<equiv> filter (\<lambda>r. fr_Name r = n) (fdb_files db)"

text \<open>The keys: sequence numbers are unique and handed out in order, a device has one row per name.\<close>

definition keys_ok :: "folderDB \<Rightarrow> bool" where
  "keys_ok db \<longleftrightarrow> distinct (map fr_Sequence (fdb_files db)) \<and> (\<forall>r \<in> set (fdb_files db). fr_Sequence r \<le> fdb_seq db) \<and>
     distinct (map (\<lambda>r. (fr_DeviceIdx r, fr_Name r)) (fdb_files db))"

definition db_inv :: "folderDB \<Rightarrow> bool" where
  "db_inv db \<longleftrightarrow> keys_ok db \<and> (\<forall>n. rows_named n db \<noteq> [] \<longrightarrow> name_ok (fdb_localDeviceIdx db) (rows_named n db))"

definition permutes_rows :: "sorter \<Rightarrow> bool" where
  "permutes_rows sortFunc \<longleftrightarrow> (\<forall>c es. mset (sortFunc c es) = mset es)"

lemma global_entry_spec:
  assumes "es \<noteq> []" and "distinct (map fr_DeviceIdx es)"
  obtains g0 where "g0 \<in> set es" and "\<exists>fl. global_entry l es = g0\<lparr>fr_LocalFlags := fl\<rparr>"
    and "is_global (global_entry l es)" and "fileRow_IsInvalid (global_entry l es) = fileRow_IsInvalid g0"
    and "fileRow_IsInvalid g0 \<Longrightarrow> \<forall>r \<in> set es. fileRow_IsInvalid r"
    and "is_needed (global_entry l es) \<Longrightarrow> needed_ok l es g0"
    and "\<lbrakk>needed_ok l es g0; \<forall>r \<in> set es. fr_DeviceIdx r = l \<longrightarrow> \<not> fileRow_IsInvalid r\<rbrakk> \<Longrightarrow> is_needed (global_entry l es)"
proof -
  define i where "i = index_func (\<lambda>e. \<not> fileRow_IsInvalid e) es"
  define gi where "gi = nat (if i < 0 then 0 else i)"
  define li where "li = index_func (\<lambda>e. fr_DeviceIdx e = l) es"
  define g0 where "g0 = es ! gi"
  have gi: "gi < length es \<and> (fileRow_IsInvalid g0 \<longrightarrow> (\<forall>r \<in> set es. fileRow_IsInvalid r))"
    by (cases rule: index_func_cases [of "\<lambda>e. \<not> fileRow_IsInvalid e" es])
      (use assms in \<open>auto simp: gi_def i_def g0_def\<close>)
  have first: "\<forall>j < gi. fileRow_IsInvalid (es ! j)"
    by (cases rule: index_func_cases [of "\<lambda>e. \<not> fileRow_IsInvalid e" es]) (auto simp: gi_def i_def)
  define c where "c \<longleftrightarrow> (li \<ge> 0 \<and> li \<le> int gi \<or> li \<ge> 0 \<and> Vector_Equal (fr_Version (es ! nat li)) (fr_Version g0)
    \<or> li < 0 \<and> fr_Deleted g0) \<or> fileRow_IsInvalid g0"
  have int_gi: "int gi = (if i < 0 then 0 else i)" by (simp add: gi_def)
  have ge: "global_entry l es = g0\<lparr>fr_LocalFlags := if c then (fr_LocalFlags g0 OR FlagLocalGlobal) AND NOT FlagLocalNeeded
      else (fr_LocalFlags g0 OR FlagLocalGlobal) OR FlagLocalNeeded\<rparr>"
    unfolding global_entry_def Let_def i_def [symmetric] gi_def [symmetric] g0_def [symmetric] li_def [symmetric]
      int_gi [symmetric] nat_int c_def fileRow_IsInvalid_def [of g0] flags_invalid ..
  have fl: "is_global (global_entry l es)" "fileRow_IsInvalid (global_entry l es) = fileRow_IsInvalid g0"
    unfolding ge is_global_def fileRow_IsInvalid_def flags_upd by (rule need_flags)+
  have need: "needed_ok l es g0" if n: "is_needed (global_entry l es)"
  proof -
    have "\<not> c" using n unfolding ge is_needed_def flags_upd need_flags .
    then have h: "\<not> (li \<ge> 0 \<and> li \<le> int gi)" "\<not> (li \<ge> 0 \<and> Vector_Equal (fr_Version (es ! nat li)) (fr_Version g0))"
      "\<not> (li < 0 \<and> fr_Deleted g0)" "\<not> fileRow_IsInvalid g0" unfolding c_def by blast+
    show ?thesis
    proof (cases rule: index_func_cases [of "\<lambda>e. fr_DeviceIdx e = l" es])
      case none
      then show ?thesis using h gi unfolding needed_ok_def g0_def li_def by auto
    next
      case (some k)
      have uniq: "r = es ! k" if r: "r \<in> set es" "fr_DeviceIdx r = l" for r
      proof -
        obtain j where j: "j < length es" "r = es ! j" using r(1) by (auto simp: in_set_conv_nth)
        have "map fr_DeviceIdx es ! j = map fr_DeviceIdx es ! k" using j some r(2) by simp
        then show ?thesis using assms(2) j some(1) by (simp add: distinct_conv_nth) metis
      qed
      have "gi < k" using h(1) some(2) unfolding li_def by auto
      then have "fr_DeviceIdx g0 \<noteq> l" using some(4) unfolding g0_def by blast
      then show ?thesis using h(2,4) some(1-3) uniq unfolding needed_ok_def li_def by (auto dest: nth_mem)
    qed
  qed
  have conv: "is_needed (global_entry l es)"
    if n: "needed_ok l es g0" and v: "\<forall>r \<in> set es. fr_DeviceIdx r = l \<longrightarrow> \<not> fileRow_IsInvalid r"
  proof -
    have "\<not> c"
    proof (cases rule: index_func_cases [of "\<lambda>e. fr_DeviceIdx e = l" es])
      case none
      then show ?thesis using n unfolding needed_ok_def c_def li_def by auto
    next
      case (some k)
      have "\<not> k < gi" using first v some(1,3) by auto
      moreover have "k \<noteq> gi" using n some(3) unfolding needed_ok_def g0_def by auto
      ultimately show ?thesis using n some unfolding needed_ok_def c_def li_def by (auto dest: nth_mem)
    qed
    then show ?thesis unfolding ge is_needed_def flags_upd need_flags .
  qed
  have mem: "g0 \<in> set es" using gi by (simp add: g0_def)
  have ex: "\<exists>fl. global_entry l es = g0\<lparr>fr_LocalFlags := fl\<rparr>" using ge by blast
  show ?thesis by (rule that [OF mem ex fl _ need conv]) (use gi in blast)+
qed

text \<open>Recalculation leaves everything but the flags of the rows of the name as it was.\<close>

abbreviation noflags :: "fileRow \<Rightarrow> fileRow" where
  "noflags r \<equiv> r\<lparr>fr_LocalFlags := 0\<rparr>"

lemma set_global_noflags: "noflags (set_global g r) = noflags r"
  by (simp add: set_global_def Let_def)

lemma noflags_sel:
  assumes "noflags r = noflags r'"
  shows "fr_Name r = fr_Name r'" "fr_DeviceIdx r = fr_DeviceIdx r'" "fr_Sequence r = fr_Sequence r'" "fr_Version r = fr_Version r'"
    "fr_Deleted r = fr_Deleted r'" "fr_RemoteSequence r = fr_RemoteSequence r'" "fr_Modified r = fr_Modified r'"
  using assms by (metis fileRow.select_convs fileRow.surjective fileRow.update_convs)+

lemmas set_global_sel [simp] = noflags_sel [OF set_global_noflags]

lemma set_global_self: "g = g0\<lparr>fr_LocalFlags := fl\<rparr> \<Longrightarrow> set_global g g0 = g"
  by (simp add: set_global_def Let_def)

lemma set_global_other: "\<lbrakk>fr_Sequence r \<noteq> fr_Sequence g; fr_Name r \<noteq> fr_Name g\<rbrakk> \<Longrightarrow> set_global g r = r"
  by (simp add: set_global_def Let_def)

lemma set_global_clears:
  assumes "fr_Sequence r \<noteq> fr_Sequence g" "fr_Name r = fr_Name g"
  shows "\<not> is_global (set_global g r)" "\<not> is_needed (set_global g r)" "fileRow_IsInvalid (set_global g r) = fileRow_IsInvalid r"
proof -
  have "set_global g r = (if fr_LocalFlags r AND (FlagLocalNeeded OR FlagLocalGlobal) \<noteq> 0
      then r\<lparr>fr_LocalFlags := fr_LocalFlags r AND NOT (FlagLocalNeeded OR FlagLocalGlobal)\<rparr> else r)"
    using assms unfolding set_global_def Let_def by simp
  then show "\<not> is_global (set_global g r)" "\<not> is_needed (set_global g r)" "fileRow_IsInvalid (set_global g r) = fileRow_IsInvalid r"
    using flags_none [of "fr_LocalFlags r"] flags_or(6,7) flags_invalid(4)
    unfolding is_global_def is_needed_def fileRow_IsInvalid_def by (auto split: if_splits)
qed


lemma distinct_devices:
  assumes "keys_ok db"
  shows "distinct (map fr_DeviceIdx (rows_named n db))"
proof -
  have "distinct (map (\<lambda>r. (fr_DeviceIdx r, fr_Name r)) (rows_named n db))"
    using assms unfolding keys_ok_def by (simp add: distinct_map_filter)
  moreover have "map (\<lambda>r. (fr_DeviceIdx r, fr_Name r)) (rows_named n db) = map (\<lambda>d. (d, n)) (map fr_DeviceIdx (rows_named n db))"
    by simp
  ultimately show ?thesis by (metis distinct_map)
qed

lemma recalc_frame:
  "map noflags (fdb_files (recalcGlobalForFile s n db)) = map noflags (fdb_files db)"
  "fdb_seq (recalcGlobalForFile s n db) = fdb_seq db" "fdb_localDeviceIdx (recalcGlobalForFile s n db) = fdb_localDeviceIdx db"
  "fdb_fileinfos (recalcGlobalForFile s n db) = fdb_fileinfos db"
  by (simp_all add: recalcGlobalForFile_def Let_def set_global_noflags)

lemma map_noflags_keys:
  assumes "map noflags rs = map noflags rs'" and "\<And>r r'. noflags r = noflags r' \<Longrightarrow> f r = f r'"
  shows "map f rs = map f rs'"
proof -
  have "f r = f (noflags r)" for r by (rule assms(2)) simp
  then have "map f xs = map f (map noflags xs)" for xs by (induction xs) simp_all
  then show ?thesis using assms(1) by metis
qed

lemma keys_ok_noflags:
  assumes "map noflags (fdb_files db') = map noflags (fdb_files db)" "fdb_seq db' = fdb_seq db"
  shows "keys_ok db' = keys_ok db"
proof -
  have pair: "(fr_DeviceIdx r, fr_Name r) = (fr_DeviceIdx r', fr_Name r')" if "noflags r = noflags r'" for r r'
    using noflags_sel(1,2) [OF that] by simp
  have k: "map (\<lambda>r. (fr_DeviceIdx r, fr_Name r)) (fdb_files db') = map (\<lambda>r. (fr_DeviceIdx r, fr_Name r)) (fdb_files db)"
    "map fr_Sequence (fdb_files db') = map fr_Sequence (fdb_files db)"
    by (rule map_noflags_keys [OF assms(1)], erule pair, rule map_noflags_keys [OF assms(1)], erule noflags_sel(3))
  have le: "(\<forall>r \<in> set (fdb_files x). fr_Sequence r \<le> q) = (\<forall>y \<in> set (map fr_Sequence (fdb_files x)). y \<le> q)" for x :: folderDB and q
    by simp
  show ?thesis unfolding keys_ok_def le k assms(2) ..
qed

lemma keys_ok_seq_inj: "\<lbrakk>keys_ok db; r \<in> set (fdb_files db); r' \<in> set (fdb_files db); fr_Sequence r = fr_Sequence r'\<rbrakk> \<Longrightarrow> r = r'"
  by (auto simp: keys_ok_def distinct_map dest: inj_onD)

lemma recalc_spec_aux:
  assumes k: "keys_ok db" and g0: "g0 \<in> set (rows_named n db)" and g: "g = g0\<lparr>fr_LocalFlags := fl\<rparr>"
    and glob: "is_global g" and inv: "fileRow_IsInvalid g = fileRow_IsInvalid g0"
    and all: "fileRow_IsInvalid g0 \<Longrightarrow> \<forall>r \<in> set (rows_named n db). fileRow_IsInvalid r"
    and need: "is_needed g \<Longrightarrow> needed_ok l (rows_named n db) g0"
    and conv: "\<lbrakk>needed_ok l (rows_named n db) g0; \<forall>r \<in> set (rows_named n db). fr_DeviceIdx r = l \<longrightarrow> \<not> fileRow_IsInvalid r\<rbrakk> \<Longrightarrow> is_needed g"
    and files: "fdb_files db' = map (set_global g) (fdb_files db)"
  shows "(m \<noteq> n \<longrightarrow> rows_named m db' = rows_named m db) \<and> (rows_named n db \<noteq> [] \<longrightarrow> name_ok l (rows_named n db'))"
proof -
  have named: "rows_named m db' = map (set_global g) (rows_named m db)" for m
    by (simp add: files filter_map o_def)
  have diff: "fr_Sequence r \<noteq> fr_Sequence g" if "r \<in> set (fdb_files db)" "r \<noteq> g0" for r
    using keys_ok_seq_inj [OF k that(1), of g0] that g0 g by auto
  have gn: "fr_Name g = n" using g0 g by simp
  have other: "set_global g r = r" if "r \<in> set (fdb_files db)" "fr_Name r \<noteq> n" for r
    using diff [OF that(1)] that g0 gn by (intro set_global_other) auto
  have self: "set_global g g0 = g" using set_global_self [OF g] .
  have invs: "fileRow_IsInvalid (set_global g r) = fileRow_IsInvalid r" if "r \<in> set (rows_named n db)" for r
    using that diff [of r] self inv gn set_global_clears(3) [of r g] by (cases "r = g0") auto
  have "needed_ok l (map (set_global g) (rows_named n db)) g = needed_ok l (rows_named n db) g0"
    using inv g unfolding needed_ok_def by simp
  note nd = this
  have others: "\<not> is_global (set_global g r) \<and> \<not> is_needed (set_global g r)"
    if "r \<in> set (rows_named n db)" "set_global g r \<noteq> g" for r
    using that diff [of r] self gn set_global_clears(1,2) [of r g] by auto
  have "name_ok l (rows_named n db')"
    unfolding name_ok_def named
  proof (intro bexI [of _ g] conjI impI)
    show "g \<in> set (map (set_global g) (rows_named n db))" using g0 self by (metis image_eqI set_map)
    show "\<forall>r \<in> set (map (set_global g) (rows_named n db)). r \<noteq> g \<longrightarrow> \<not> is_global r \<and> \<not> is_needed r" using others by auto
    show "\<forall>r \<in> set (map (set_global g) (rows_named n db)). fileRow_IsInvalid r" if "fileRow_IsInvalid g"
      using all that inv invs by simp
    show "needed_ok l (map (set_global g) (rows_named n db)) g" if "is_needed g" using need that nd by simp
    show "is_needed g" if "needed_ok l (map (set_global g) (rows_named n db)) g \<and>
      (\<forall>r \<in> set (map (set_global g) (rows_named n db)). fr_DeviceIdx r = l \<longrightarrow> \<not> fileRow_IsInvalid r)"
      using that nd invs by (intro conv) auto
  qed (rule glob)
  then show ?thesis unfolding named using other by (auto intro: map_idI)
qed

lemma recalc_spec:
  assumes s: "permutes_rows s" and k: "keys_ok db"
  shows "keys_ok (recalcGlobalForFile s n db)"
    and "m \<noteq> n \<Longrightarrow> rows_named m (recalcGlobalForFile s n db) = rows_named m db"
    and "rows_named n db \<noteq> [] \<Longrightarrow> name_ok (fdb_localDeviceIdx db) (rows_named n (recalcGlobalForFile s n db))"
proof -
  show "keys_ok (recalcGlobalForFile s n db)" using k unfolding keys_ok_noflags [OF recalc_frame(1,2)] .
  have "(m \<noteq> n \<longrightarrow> rows_named m (recalcGlobalForFile s n db) = rows_named m db) \<and>
    (rows_named n db \<noteq> [] \<longrightarrow> name_ok (fdb_localDeviceIdx db) (rows_named n (recalcGlobalForFile s n db)))"
  proof (cases "rows_named n db = []")
    case True
    then show ?thesis by (simp add: recalcGlobalForFile_def Let_def)
  next
    case False
    let ?l = "fdb_localDeviceIdx db"
    define es where "es = s fileRow_Compare (rows_named n db)"
    have ms: "mset es = mset (rows_named n db)" using s by (simp add: es_def permutes_rows_def)
    then have sets: "set es = set (rows_named n db)" by (rule mset_eq_setD)
    have "es \<noteq> []" using ms False by auto
    moreover have "distinct (map fr_DeviceIdx es)"
      using distinct_devices [OF k, of n] ms by (metis mset_eq_imp_distinct_iff mset_map)
    ultimately show ?thesis
    proof (rule global_entry_spec [of es ?l])
      fix g0
      let ?g = "global_entry ?l es"
      assume g0: "g0 \<in> set es" "\<exists>fl. ?g = g0\<lparr>fr_LocalFlags := fl\<rparr>" "is_global ?g"
        "fileRow_IsInvalid ?g = fileRow_IsInvalid g0"
        "fileRow_IsInvalid g0 \<Longrightarrow> \<forall>r \<in> set es. fileRow_IsInvalid r" "is_needed ?g \<Longrightarrow> needed_ok ?l es g0"
        "\<lbrakk>needed_ok ?l es g0; \<forall>r \<in> set es. fr_DeviceIdx r = ?l \<longrightarrow> \<not> fileRow_IsInvalid r\<rbrakk> \<Longrightarrow> is_needed ?g"
      have eq: "fdb_files (recalcGlobalForFile s n db) = map (set_global ?g) (fdb_files db)"
        using False by (simp add: recalcGlobalForFile_def Let_def es_def)
      obtain fl where g: "?g = g0\<lparr>fr_LocalFlags := fl\<rparr>" using g0(2) by blast
      have nd: "needed_ok l es = needed_ok l (rows_named n db)" for l
        unfolding needed_ok_def sets ..
      show ?thesis
        by (rule recalc_spec_aux [OF k g0(1) [unfolded sets] g g0(3-7) [unfolded sets nd] eq])
    qed
  qed
  then show "m \<noteq> n \<Longrightarrow> rows_named m (recalcGlobalForFile s n db) = rows_named m db"
    "rows_named n db \<noteq> [] \<Longrightarrow> name_ok (fdb_localDeviceIdx db) (rows_named n (recalcGlobalForFile s n db))" by blast+
qed

section \<open>Every change keeps the invariant\<close>

lemma rows_named_empty_noflags:
  assumes "map noflags (fdb_files db') = map noflags (fdb_files db)"
  shows "rows_named n db' = [] \<longleftrightarrow> rows_named n db = []"
proof -
  have "map fr_Name (fdb_files db') = map fr_Name (fdb_files db)"
    by (rule map_noflags_keys [OF assms], erule noflags_sel(1))
  then have "n \<in> set (map fr_Name (fdb_files db')) \<longleftrightarrow> n \<in> set (map fr_Name (fdb_files db))" by simp
  then show ?thesis by (auto simp: filter_empty_conv)
qed

lemma recalc_fold:
  assumes "permutes_rows s" "keys_ok db" "db' = recalc_names s ns db"
  shows "keys_ok db' \<and> fdb_localDeviceIdx db' = fdb_localDeviceIdx db \<and>
    (\<forall>m. m \<notin> set ns \<longrightarrow> rows_named m db' = rows_named m db) \<and>
    (\<forall>m. rows_named m db' = [] \<longleftrightarrow> rows_named m db = []) \<and>
    (\<forall>m \<in> set ns. rows_named m db \<noteq> [] \<longrightarrow> name_ok (fdb_localDeviceIdx db) (rows_named m db'))"
  using assms(2) unfolding assms(3) recalc_names_def
proof (induction ns arbitrary: db)
  case (Cons n ns)
  let ?d = "recalcGlobalForFile s n db"
  note spec = recalc_spec [OF assms(1) Cons.prems, where n = n] recalc_frame [of s n db]
  have e: "rows_named m ?d = [] \<longleftrightarrow> rows_named m db = []" for m by (rule rows_named_empty_noflags) (rule spec)
  from Cons.IH [OF spec(1)] show ?case using spec e by (auto)
qed simp

lemma db_invI:
  "\<lbrakk>keys_ok db; \<And>n. rows_named n db \<noteq> [] \<Longrightarrow> name_ok (fdb_localDeviceIdx db) (rows_named n db)\<rbrakk> \<Longrightarrow> db_inv db"
  by (simp add: db_inv_def)

lemma recalcGlobalForFolder_inv:
  assumes "permutes_rows s" "keys_ok db"
    and "\<And>n g. \<lbrakk>g \<in> set (rows_named n db); is_global g\<rbrakk> \<Longrightarrow> name_ok (fdb_localDeviceIdx db) (rows_named n db)"
  shows "db_inv (recalcGlobalForFolder s db)"
proof (rule db_invI)
  note f = recalc_fold [OF assms(1,2), OF recalcGlobalForFolder_def]
  show "keys_ok (recalcGlobalForFolder s db)" using f by blast
  fix n assume n: "rows_named n (recalcGlobalForFolder s db) \<noteq> []"
  then have ne: "rows_named n db \<noteq> []" using f by blast
  show "name_ok (fdb_localDeviceIdx (recalcGlobalForFolder s db)) (rows_named n (recalcGlobalForFolder s db))"
  proof (cases "n \<in> set (names_without_global db)")
    case True
    then show ?thesis using f ne by simp
  next
    case False
    obtain r where "r \<in> set (rows_named n db)" using ne by (meson list.set_sel(1))
    then obtain g where "g \<in> set (rows_named n db)" "is_global g" using False by (auto simp: names_without_global_def)
    then have "name_ok (fdb_localDeviceIdx db) (rows_named n db)" by (rule assms(3))
    then show ?thesis using f False by simp
  qed
qed

lemma keys_ok_filter:
  assumes "keys_ok db" "fdb_files db' = filter P (fdb_files db)" "fdb_seq db' \<ge> fdb_seq db"
  shows "keys_ok db'"
  using assms by (auto simp: keys_ok_def distinct_map_filter intro: order_trans)

lemma name_ok_sub:
  assumes "name_ok l rs" "\<exists>g \<in> set rs'. is_global g" "set rs' \<subseteq> set rs" "\<And>r. \<lbrakk>r \<in> set rs; fr_DeviceIdx r = l\<rbrakk> \<Longrightarrow> r \<in> set rs'"
  shows "name_ok l rs'"
proof -
  obtain g where g: "g \<in> set rs" "is_global g" "\<And>r. \<lbrakk>r \<in> set rs; r \<noteq> g\<rbrakk> \<Longrightarrow> \<not> is_global r \<and> \<not> is_needed r"
    "fileRow_IsInvalid g \<longrightarrow> (\<forall>r \<in> set rs. fileRow_IsInvalid r)" "is_needed g \<longrightarrow> needed_ok l rs g"
    "needed_ok l rs g \<and> (\<forall>r \<in> set rs. fr_DeviceIdx r = l \<longrightarrow> \<not> fileRow_IsInvalid r) \<longrightarrow> is_needed g"
    using assms(1) unfolding name_ok_def by blast
  have g': "g \<in> set rs'" using assms(2,3) g(3) by blast
  have "needed_ok l rs' g = needed_ok l rs g" unfolding needed_ok_def using assms(3,4) by blast
  then show ?thesis unfolding name_ok_def using g g' assms(3,4) by (intro bexI [of _ g]) blast+
qed

lemma delete_device_inv:
  assumes "permutes_rows s" "db_inv db" "d \<noteq> fdb_localDeviceIdx db"
  shows "db_inv (recalcGlobalForFolder s (delete_files (\<lambda>r. fr_DeviceIdx r = d) db))"
proof (rule recalcGlobalForFolder_inv [OF assms(1)])
  let ?db = "delete_files (\<lambda>r. fr_DeviceIdx r = d) db"
  show "keys_ok ?db" using assms(2) by (auto simp: db_inv_def delete_files_def intro: keys_ok_filter)
  fix n g assume g: "g \<in> set (rows_named n ?db)" "is_global g"
  then have "name_ok (fdb_localDeviceIdx db) (rows_named n db)"
    using assms(2) by (auto simp: db_inv_def delete_files_def filter_empty_conv)
  then have "name_ok (fdb_localDeviceIdx db) (rows_named n ?db)"
    using g assms(3) by (rule_tac name_ok_sub) (auto simp: delete_files_def)
  then show "name_ok (fdb_localDeviceIdx ?db) (rows_named n ?db)" by (simp add: delete_files_def)
qed

lemma insert_file_keys:
  assumes "keys_ok db" "fr_Sequence new = fdb_seq db + 1"
  shows "keys_ok (insert_file new db)"
proof -
  have lt: "fr_Sequence r < fr_Sequence new" if "r \<in> set (fdb_files db)" for r
    using assms that by (auto simp: keys_ok_def)
  have "distinct (map fr_Sequence (filter (\<lambda>r. \<not> collides new r) (fdb_files db) @ [new]))"
    using assms lt by (auto simp: keys_ok_def distinct_map_filter)
  moreover have "distinct (map (\<lambda>r. (fr_DeviceIdx r, fr_Name r)) (filter (\<lambda>r. \<not> collides new r) (fdb_files db) @ [new]))"
    using assms by (auto simp: keys_ok_def distinct_map_filter collides_def)
  ultimately show ?thesis unfolding keys_ok_def insert_file_def Let_def using lt by (auto intro: less_imp_le)
qed

text \<open>The new row replaces the device's row of that name; other names lose a row only to a reused sequence number.\<close>

definition no_reuse :: "fileRow \<Rightarrow> folderDB \<Rightarrow> bool" where
  "no_reuse new db \<longleftrightarrow> (\<forall>r \<in> set (fdb_files db). collides new r \<longrightarrow> fr_Name r = fr_Name new)"

lemma insert_file_other:
  "\<lbrakk>no_reuse new db; m \<noteq> fr_Name new\<rbrakk> \<Longrightarrow> rows_named m (insert_file new db) = rows_named m db"
  by (auto simp: insert_file_def Let_def no_reuse_def intro!: filter_cong)

lemma update_one_files:
  "\<exists>db3. update_one p d f0 db = recalcGlobalForFile (dbp_sort p) (dbp_normalize p (fi_Name f0)) db3 \<and>
     fdb_files db3 = fdb_files (insert_file (row_of d (fdb_localDeviceIdx db) (fdb_seq db + 1) (stored_form p f0)) db) \<and>
     fdb_seq db3 = fdb_seq db + 1 \<and> fdb_localDeviceIdx db3 = fdb_localDeviceIdx db"
  unfolding update_one_def Let_def
  by (intro exI conjI, rule arg_cong [of _ _ "\<lambda>n. recalcGlobalForFile _ n _"])
    (simp_all add: stored_form_def Let_def insertBlocksLocked_def insert_file_def row_of_def)

lemma row_of_sel [simp]: "fr_Name (row_of d l q f) = fi_Name f" "fr_Sequence (row_of d l q f) = q" "fr_DeviceIdx (row_of d l q f) = d"
  "fr_RemoteSequence (row_of d l q f) = (if d \<noteq> l then Some (fi_Sequence f) else None)"
  by (simp_all add: row_of_def)

lemma stored_form_sel [simp]: "fi_Name (stored_form p f) = dbp_normalize p (fi_Name f)" "fi_Sequence (stored_form p f) = fi_Sequence f"
  by (simp_all add: stored_form_def Let_def)

lemma update_one_inv:
  assumes "permutes_rows (dbp_sort p)" "db_inv db" "no_reuse (row_of d (fdb_localDeviceIdx db) (fdb_seq db + 1) (stored_form p f)) db"
  shows "db_inv (update_one p d f db)" "fdb_localDeviceIdx (update_one p d f db) = fdb_localDeviceIdx db"
    "map noflags (fdb_files (update_one p d f db)) =
       map noflags (fdb_files (insert_file (row_of d (fdb_localDeviceIdx db) (fdb_seq db + 1) (stored_form p f)) db))"
proof -
  let ?new = "row_of d (fdb_localDeviceIdx db) (fdb_seq db + 1) (stored_form p f)" and ?n = "dbp_normalize p (fi_Name f)"
  obtain db3 where u: "update_one p d f db = recalcGlobalForFile (dbp_sort p) ?n db3"
    and f3: "fdb_files db3 = fdb_files (insert_file ?new db)" and q: "fdb_seq db3 = fdb_seq db + 1"
    and l: "fdb_localDeviceIdx db3 = fdb_localDeviceIdx db"
    using update_one_files by blast
  have "keys_ok (insert_file ?new db)" using assms(2) by (intro insert_file_keys) (simp_all add: db_inv_def)
  then have k: "keys_ok db3" using f3 q by (simp add: keys_ok_def insert_file_def Let_def)
  note spec = recalc_spec [OF assms(1) k, where n = ?n] and fr = recalc_frame [of "dbp_sort p" ?n db3]
  have "?new \<in> set (rows_named ?n db3)" by (simp add: f3 insert_file_def Let_def)
  then have ne: "rows_named ?n db3 \<noteq> []" by (metis empty_iff list.set(1))
  have oth: "rows_named m db3 = rows_named m db" if "m \<noteq> ?n" for m
    using insert_file_other [OF assms(3), of m] that by (simp add: f3)
  show "db_inv (update_one p d f db)" unfolding u
  proof (rule db_invI)
    fix m assume m: "rows_named m (recalcGlobalForFile (dbp_sort p) ?n db3) \<noteq> []"
    show "name_ok (fdb_localDeviceIdx (recalcGlobalForFile (dbp_sort p) ?n db3)) (rows_named m (recalcGlobalForFile (dbp_sort p) ?n db3))"
      by (cases "m = ?n") (use spec(2,3) ne m oth assms(2) fr l in \<open>auto simp: db_inv_def\<close>)
  qed (rule spec(1))
  show "fdb_localDeviceIdx (update_one p d f db) = fdb_localDeviceIdx db"
    "map noflags (fdb_files (update_one p d f db)) = map noflags (fdb_files (insert_file ?new db))"
    unfolding u fr l f3 by (rule refl)+
qed

text \<open>
  A device uses a sequence number for one name only: neither two files of the batch nor a file of
  the batch and a stored row of another name share one.
\<close>

definition fresh_seqs :: "db_params \<Rightarrow> int \<Rightarrow> FileInfo list \<Rightarrow> folderDB \<Rightarrow> bool" where
  "fresh_seqs p d fs db \<longleftrightarrow> d = fdb_localDeviceIdx db \<or>
     (\<forall>f \<in> set fs.
        (\<forall>r \<in> set (fdb_files db). fr_DeviceIdx r = d \<and> fr_RemoteSequence r = Some (fi_Sequence f) \<longrightarrow> fr_Name r = dbp_normalize p (fi_Name f)) \<and>
        (\<forall>f' \<in> set fs. fi_Sequence f = fi_Sequence f' \<longrightarrow> dbp_normalize p (fi_Name f) = dbp_normalize p (fi_Name f')))"

lemma fresh_seqs_no_reuse:
  "fresh_seqs p d (f # fs) db \<Longrightarrow> no_reuse (row_of d (fdb_localDeviceIdx db) q (stored_form p f)) db"
  by (auto simp: fresh_seqs_def no_reuse_def collides_def)

lemma fresh_seqs_step:
  assumes "fresh_seqs p d (f # fs) db" "permutes_rows (dbp_sort p)" "db_inv db"
  shows "fresh_seqs p d fs (update_one p d f db)"
proof (cases "d = fdb_localDeviceIdx db")
  case True
  then show ?thesis using update_one_inv(2) [OF assms(2,3) fresh_seqs_no_reuse [OF assms(1)]] by (simp add: fresh_seqs_def)
next
  case False
  let ?new = "row_of d (fdb_localDeviceIdx db) (fdb_seq db + 1) (stored_form p f)"
  have "set (map noflags (fdb_files (update_one p d f db))) = set (map noflags (fdb_files (insert_file ?new db)))"
    by (simp only: update_one_inv(3) [OF assms(2,3) fresh_seqs_no_reuse [OF assms(1)]])
  then have sub: "\<exists>r' \<in> set (?new # fdb_files db). noflags r = noflags r'" if "r \<in> set (fdb_files (update_one p d f db))" for r
    using that by (auto simp: insert_file_def Let_def dest!: arg_cong [of _ _ "\<lambda>A. noflags r \<in> A"])
  have "fr_Name r = dbp_normalize p (fi_Name f')"
    if r: "r \<in> set (fdb_files (update_one p d f db))" "fr_DeviceIdx r = d" "fr_RemoteSequence r = Some (fi_Sequence f')" "f' \<in> set fs" for r f'
  proof -
    obtain r' where r': "r' \<in> set (?new # fdb_files db)" "noflags r = noflags r'" using sub [OF r(1)] by blast
    note eq = noflags_sel(1,2,6) [OF r'(2)]
    have "fr_Name r' = dbp_normalize p (fi_Name f')"
    proof (cases "r' = ?new")
      case True
      then have "fi_Sequence f = fi_Sequence f'" using r(3) eq(3) False by simp
      then have "dbp_normalize p (fi_Name f) = dbp_normalize p (fi_Name f')"
        using assms(1) False r(4) unfolding fresh_seqs_def by (meson list.set_intros)
      then show ?thesis unfolding True by simp
    next
      case new: False
      then have "r' \<in> set (fdb_files db)" "fr_DeviceIdx r' = d" "fr_RemoteSequence r' = Some (fi_Sequence f')"
        using r'(1) r(2,3) eq by simp_all
      moreover have "f' \<in> set (f # fs)" using r(4) by simp
      ultimately show ?thesis using assms(1) False unfolding fresh_seqs_def by blast
    qed
    then show ?thesis using eq by simp
  qed
  note names = this
  have "dbp_normalize p (fi_Name f1) = dbp_normalize p (fi_Name f2)"
    if "f1 \<in> set fs" "f2 \<in> set fs" "fi_Sequence f1 = fi_Sequence f2" for f1 f2
    using assms(1) False that unfolding fresh_seqs_def by (meson list.set_intros(2))
  then show ?thesis unfolding fresh_seqs_def using names by (intro disjI2 ballI conjI impI) blast+
qed

lemma update_loop_inv:
  "\<lbrakk>update_loop p d prev fs db = Inr db'; permutes_rows (dbp_sort p); db_inv db; fresh_seqs p d fs db\<rbrakk>
    \<Longrightarrow> db_inv db' \<and> fdb_localDeviceIdx db' = fdb_localDeviceIdx db"
proof (induction fs arbitrary: prev db)
  case (Cons f fs)
  note nr = fresh_seqs_no_reuse [OF Cons.prems(4)]
  note st = fresh_seqs_step [OF Cons.prems(4,2,3)] and u = update_one_inv(1,2) [OF Cons.prems(2,3) nr]
  have "update_loop p d (Some (fi_Sequence f)) fs (update_one p d f db) = Inr db'"
    using Cons.prems(1) by (simp split: if_splits)
  from Cons.IH [OF this Cons.prems(2) u(1) st] show ?case using u by simp
qed simp

lemma delete_named_inv:
  assumes "permutes_rows (dbp_sort p)" "db_inv db"
  shows "db_inv (DropFilesNamed p d names0 db)"
proof (rule db_invI)
  define ns where "ns = map (dbp_normalize p) names0"
  define db1 where "db1 = delete_files (\<lambda>r. fr_DeviceIdx r = d \<and> fr_Name r \<in> set ns) db"
  have D: "DropFilesNamed p d names0 db = recalc_names (dbp_sort p) ns db1"
    by (simp add: DropFilesNamed_def Let_def ns_def db1_def)
  have k: "keys_ok db1" using assms(2) by (auto simp: db_inv_def db1_def delete_files_def intro: keys_ok_filter)
  note f = recalc_fold [OF assms(1) k D]
  show "keys_ok (DropFilesNamed p d names0 db)" using f by blast
  fix m assume m: "rows_named m (DropFilesNamed p d names0 db) \<noteq> []"
  show "name_ok (fdb_localDeviceIdx (DropFilesNamed p d names0 db)) (rows_named m (DropFilesNamed p d names0 db))"
  proof (cases "m \<in> set ns")
    case True
    then show ?thesis using f m by simp
  next
    case False
    then have "rows_named m db1 = rows_named m db"
      by (auto simp: db1_def delete_files_def intro!: filter_cong)
    then show ?thesis using f m False assms(2) by (simp add: db_inv_def db1_def delete_files_def)
  qed
qed

text \<open>The calls on the index; an update that fails leaves the index as it was.\<close>

inductive db_reach :: "db_params \<Rightarrow> folderDB \<Rightarrow> folderDB \<Rightarrow> bool" for p where
  start: "db_reach p db db"
| update: "\<lbrakk>db_reach p db0 db; fresh_seqs p d fs db\<rbrakk> \<Longrightarrow> db_reach p db0 (fst (folderDB_Update p d fs db))"
| drop_device: "\<lbrakk>db_reach p db0 db; DropDevice p d db = Some db'\<rbrakk> \<Longrightarrow> db_reach p db0 db'"
| drop_all: "\<lbrakk>db_reach p db0 db; d \<noteq> fdb_localDeviceIdx db\<rbrakk> \<Longrightarrow> db_reach p db0 (DropAllFiles p d db)"
| drop_named: "db_reach p db0 db \<Longrightarrow> db_reach p db0 (DropFilesNamed p d ns db)"

lemma db_reach_inv:
  assumes "db_reach p db0 db" "db_inv db0" "permutes_rows (dbp_sort p)"
  shows "db_inv db"
  using assms
proof (induction rule: db_reach.induct)
  case (update db0 db d fs)
  show ?case
  proof (cases "update_loop p d None fs db")
    case (Inr db')
    then show ?thesis using update_loop_inv [OF Inr] update by (simp add: folderDB_Update_def)
  qed (use update in \<open>simp add: folderDB_Update_def\<close>)
next
  case (drop_device db0 db d db')
  then show ?case using delete_device_inv [of "dbp_sort p" db d] by (auto simp: DropDevice_def split: if_splits)
next
  case (drop_all db0 db d)
  show ?case
  proof (cases "filter (\<lambda>r. fr_DeviceIdx r = d) (fdb_files db) = []")
    case True
    then have "filter (\<lambda>r. fr_DeviceIdx r \<noteq> d) (fdb_files db) = fdb_files db" by (simp add: filter_empty_conv)
    then show ?thesis using True drop_all by (simp add: DropAllFiles_def Let_def delete_files_def db_inv_def keys_ok_def)
  next
    case False
    then show ?thesis using delete_device_inv [of "dbp_sort p" db d] drop_all by (simp add: DropAllFiles_def Let_def)
  qed
qed (auto intro: delete_named_inv)

section \<open>Which version is the global one\<close>

lemma fileRow_Compare_flip: "fileRow_Compare b a = - fileRow_Compare a b"
proof -
  have "Compare (fr_Version b) (fr_Version a) = flip_Ordering (Compare (fr_Version a) (fr_Version b))"
    by (rule vo.cmp_flip)
  then show ?thesis
    by (cases "Compare (fr_Version a) (fr_Version b)") (auto simp: fileRow_Compare_def cmp_int_def Let_def)
qed

text \<open>
  \<open>slices.SortFunc\<close> on a short list (below 13 elements) is an insertion sort: each element moves
  left past the ones it compares less than. The sorted part is kept in reverse.
\<close>

fun insert_cmp :: "('a \<Rightarrow> 'a \<Rightarrow> int) \<Rightarrow> 'a \<Rightarrow> 'a list \<Rightarrow> 'a list" where
  "insert_cmp c x [] = [x]"
| "insert_cmp c x (y # ys) = (if c x y < 0 then y # insert_cmp c x ys else x # y # ys)"

definition insertionSortCmpFunc :: "('a \<Rightarrow> 'a \<Rightarrow> int) \<Rightarrow> 'a list \<Rightarrow> 'a list" where
  "insertionSortCmpFunc c xs = rev (foldl (\<lambda>acc x. insert_cmp c x acc) [] xs)"

lemma insert_cmp_mset: "mset (insert_cmp c x ys) = add_mset x (mset ys)"
  by (induction ys) auto

lemma insertionSort_permutes: "permutes_rows insertionSortCmpFunc"
proof -
  have "mset (foldl (\<lambda>acc x. insert_cmp c x acc) acc xs) = mset acc + mset xs" for c acc and xs :: "fileRow list"
    by (induction xs arbitrary: acc) (simp_all add: insert_cmp_mset)
  then show ?thesis by (simp add: permutes_rows_def insertionSortCmpFunc_def)
qed

text \<open>The comparison orders a set of rows if it is transitive on it.\<close>

definition orders_rows :: "fileRow set \<Rightarrow> bool" where
  "orders_rows A \<longleftrightarrow> (\<forall>a \<in> A. \<forall>b \<in> A. \<forall>c \<in> A.
     fileRow_Compare a b \<le> 0 \<and> fileRow_Compare b c \<le> 0 \<longrightarrow> fileRow_Compare a c \<le> 0)"

lemma orders_rows_sub: "\<lbrakk>orders_rows A; B \<subseteq> A\<rbrakk> \<Longrightarrow> orders_rows B"
  unfolding orders_rows_def by (meson subsetD)

lemma orders_rowsD:
  "\<lbrakk>orders_rows A; a \<in> A; b \<in> A; c \<in> A; fileRow_Compare a b \<le> 0; fileRow_Compare b c \<le> 0\<rbrakk> \<Longrightarrow> fileRow_Compare a c \<le> 0"
  unfolding orders_rows_def by blast

definition sorts_rows :: "sorter \<Rightarrow> bool" where
  "sorts_rows s \<longleftrightarrow> permutes_rows s \<and>
     (\<forall>es. orders_rows (set es) \<longrightarrow> sorted_wrt (\<lambda>a b. fileRow_Compare a b \<le> 0) (s fileRow_Compare es))"

lemma insert_cmp_sorted:
  assumes "orders_rows (insert x (set ys))" "sorted_wrt (\<lambda>a b. fileRow_Compare b a \<le> 0) ys"
  shows "sorted_wrt (\<lambda>a b. fileRow_Compare b a \<le> 0) (insert_cmp fileRow_Compare x ys)"
  using assms
proof (induction ys)
  case (Cons y ys)
  have sub: "orders_rows (insert x (set ys))" by (rule orders_rows_sub [OF Cons.prems(1)]) auto
  have set_ins: "set (insert_cmp fileRow_Compare x ys) = insert x (set ys)"
    by (metis insert_cmp_mset set_mset_add_mset_insert set_mset_mset)
  show ?case
  proof (cases "fileRow_Compare x y < 0")
    case True
    then show ?thesis using Cons.IH [OF sub] Cons.prems(2) by (auto simp: set_ins)
  next
    case False
    then have yx: "fileRow_Compare y x \<le> 0" using fileRow_Compare_flip [of y x] by simp
    have "fileRow_Compare z x \<le> 0" if "z \<in> set ys" for z
      by (rule orders_rowsD [OF Cons.prems(1), of z y x]) (use that yx Cons.prems(2) in auto)
    then show ?thesis using False yx Cons.prems(2) by simp
  qed
qed simp

lemma insertionSort_sorts: "sorts_rows insertionSortCmpFunc"
proof -
  have "sorted_wrt (\<lambda>a b. fileRow_Compare b a \<le> 0) (foldl (\<lambda>acc x. insert_cmp fileRow_Compare x acc) acc es)"
    if "orders_rows (set acc \<union> set es)" "sorted_wrt (\<lambda>a b. fileRow_Compare b a \<le> 0) acc" for acc es
    using that
  proof (induction es arbitrary: acc)
    case (Cons e es)
    have s: "set (insert_cmp fileRow_Compare e acc) = insert e (set acc)"
      by (metis insert_cmp_mset set_mset_add_mset_insert set_mset_mset)
    have "orders_rows (insert e (set acc))" by (rule orders_rows_sub [OF Cons.prems(1)]) auto
    then show ?case using Cons.IH [of "insert_cmp fileRow_Compare e acc"] Cons.prems by (simp add: s insert_cmp_sorted)
  qed simp
  from this [of "[]"] show ?thesis
    by (auto simp: sorts_rows_def insertionSort_permutes insertionSortCmpFunc_def sorted_wrt_rev)
qed

lemma global_entry_first:
  assumes "es \<noteq> []" "sorted_wrt R es"
  shows "\<exists>g0 \<in> set es. \<exists>fl. global_entry l es = g0\<lparr>fr_LocalFlags := fl\<rparr> \<and>
    (\<forall>r \<in> set es. r \<noteq> g0 \<and> (fileRow_IsInvalid g0 \<or> \<not> fileRow_IsInvalid r) \<longrightarrow> R g0 r)"
proof -
  define i where "i = index_func (\<lambda>e. \<not> fileRow_IsInvalid e) es"
  define gi where "gi = nat (if i < 0 then 0 else i)"
  have gi: "gi < length es \<and> (\<forall>j < gi. fileRow_IsInvalid (es ! j)) \<and> (fileRow_IsInvalid (es ! gi) \<longrightarrow> gi = 0)"
    by (cases rule: index_func_cases [of "\<lambda>e. \<not> fileRow_IsInvalid e" es]) (use assms in \<open>auto simp: gi_def i_def\<close>)
  have "R (es ! gi) r" if r: "r \<in> set es" "r \<noteq> es ! gi" "fileRow_IsInvalid (es ! gi) \<or> \<not> fileRow_IsInvalid r" for r
  proof -
    obtain j where j: "j < length es" "r = es ! j" using r(1) by (auto simp: in_set_conv_nth)
    then have "gi < j" using gi r(2,3) by (metis linorder_neqE_nat not_less0)
    then show ?thesis using assms(2) j by (simp add: sorted_wrt_iff_nth_less)
  qed
  moreover have "\<exists>fl. global_entry l es = (es ! gi)\<lparr>fr_LocalFlags := fl\<rparr>"
    unfolding global_entry_def Let_def i_def [symmetric] gi_def by blast
  ultimately show ?thesis using gi by (meson nth_mem)
qed

lemma Compare_noflags:
  assumes "noflags a = noflags a'" "noflags b = noflags b'" "fileRow_IsInvalid a = fileRow_IsInvalid a'" "fileRow_IsInvalid b = fileRow_IsInvalid b'"
  shows "fileRow_Compare a b = fileRow_Compare a' b'"
  unfolding fileRow_Compare_def assms(3,4) noflags_sel [OF assms(1)] noflags_sel [OF assms(2)] ..

lemma fileRow_Compare_zero: "fileRow_Compare a b = 0 \<Longrightarrow> fr_DeviceIdx a = fr_DeviceIdx b"
  by (auto simp: fileRow_Compare_def cmp_int_def Let_def split: Ordering.splits if_splits)

lemma set_global_invalid:
  assumes "keys_ok db" "g0 \<in> set (rows_named n db)" "g = g0\<lparr>fr_LocalFlags := fl\<rparr>" "fileRow_IsInvalid g = fileRow_IsInvalid g0"
    "r \<in> set (rows_named n db)"
  shows "fileRow_IsInvalid (set_global g r) = fileRow_IsInvalid r"
proof (cases "r = g0")
  case True
  then show ?thesis using set_global_self [OF assms(3)] assms(4) by simp
next
  case False
  then have "fr_Sequence r \<noteq> fr_Sequence g" using keys_ok_seq_inj [OF assms(1), of r g0] assms(2,3,5) by auto
  then show ?thesis using set_global_clears(3) [of r g] assms(2,3,5) by simp
qed

text \<open>C26. Where the comparison of the announced versions of a name is transitive, the entry that
  recalculation marks as global beats every other valid entry (and every other entry at all if
  all are invalid).\<close>

theorem recalc_elects_best:
  assumes "sorts_rows s" "keys_ok db" "orders_rows (set (rows_named n db))" "rows_named n db \<noteq> []"
  shows "\<exists>g \<in> set (rows_named n (recalcGlobalForFile s n db)). is_global g \<and>
    (\<forall>r \<in> set (rows_named n (recalcGlobalForFile s n db)).
       r \<noteq> g \<and> (fileRow_IsInvalid g \<or> \<not> fileRow_IsInvalid r) \<longrightarrow> fileRow_Compare g r < 0)"
proof -
  define es where "es = s fileRow_Compare (rows_named n db)"
  define g where "g = global_entry (fdb_localDeviceIdx db) es"
  have ms: "mset es = mset (rows_named n db)" and so: "sorted_wrt (\<lambda>a b. fileRow_Compare a b \<le> 0) es"
    using assms(1,3) by (auto simp: sorts_rows_def permutes_rows_def es_def)
  have sets: "set es = set (rows_named n db)" using ms by (rule mset_eq_setD)
  then have ne: "es \<noteq> []" using assms(4) by auto
  obtain g0 fl where g0: "g0 \<in> set (rows_named n db)" "g = g0\<lparr>fr_LocalFlags := fl\<rparr>"
    and best: "\<And>r. \<lbrakk>r \<in> set (rows_named n db); r \<noteq> g0; fileRow_IsInvalid g0 \<or> \<not> fileRow_IsInvalid r\<rbrakk> \<Longrightarrow> fileRow_Compare g0 r \<le> 0"
    using global_entry_first [OF ne so, of "fdb_localDeviceIdx db"] unfolding g_def sets by blast
  have "distinct (map fr_DeviceIdx es)"
    using distinct_devices [OF assms(2), of n] ms by (metis mset_eq_imp_distinct_iff mset_map)
  then have "is_global g \<and> (\<exists>g1 \<in> set es. \<exists>fl. g = g1\<lparr>fr_LocalFlags := fl\<rparr> \<and> fileRow_IsInvalid g = fileRow_IsInvalid g1)"
    using global_entry_spec [OF ne, of "fdb_localDeviceIdx db"] unfolding g_def by metis
  then obtain g1 fl1 where g1: "is_global g" "g1 \<in> set (rows_named n db)" "g = g1\<lparr>fr_LocalFlags := fl1\<rparr>"
    "fileRow_IsInvalid g = fileRow_IsInvalid g1" unfolding sets by blast
  have "fr_Sequence g1 = fr_Sequence g0" using g0(2) g1(3) by (metis noflags_sel(3) set_global_noflags set_global_self)
  then have "g1 = g0" using keys_ok_seq_inj [OF assms(2), of g1 g0] g0(1) g1(2) by simp
  note inv = g1(4) [unfolded this]
  have files: "rows_named n (recalcGlobalForFile s n db) = map (set_global g) (rows_named n db)"
    using assms(4) by (simp add: recalcGlobalForFile_def Let_def g_def es_def filter_map o_def)
  have self: "set_global g g0 = g" by (rule set_global_self [OF g0(2)])
  show ?thesis unfolding files
  proof (intro bexI [of _ g] conjI ballI impI)
    fix r assume "r \<in> set (map (set_global g) (rows_named n db))"
      and r: "r \<noteq> g \<and> (fileRow_IsInvalid g \<or> \<not> fileRow_IsInvalid r)"
    then obtain r0 where r0: "r0 \<in> set (rows_named n db)" "r = set_global g r0" by auto
    note ri = set_global_invalid [OF assms(2) g0 inv r0(1), folded r0(2)]
    have cmp: "fileRow_Compare g r = fileRow_Compare g0 r0"
      by (rule Compare_noflags) (use g0(2) r0(2) ri inv set_global_noflags in auto)
    have "r0 \<noteq> g0" using r r0(2) self by auto
    moreover have "fr_DeviceIdx r0 \<noteq> fr_DeviceIdx g0"
      using calculation r0(1) g0(1) distinct_devices [OF assms(2), of n] by (meson distinct_map inj_onD)
    ultimately have "fileRow_Compare g0 r0 \<le> 0" "fileRow_Compare g0 r0 \<noteq> 0"
      using best [OF r0(1)] r ri inv fileRow_Compare_zero by auto
    then show "fileRow_Compare g r < 0" using cmp by simp
  qed (use g0(1) self g1(1) in \<open>auto simp: image_iff intro: bexI [of _ g0]\<close>)
qed

definition example_row :: "int \<Rightarrow> int \<Rightarrow> Vector \<Rightarrow> int \<Rightarrow> fileRow" where
  "example_row d q v m =
     \<lparr>fr_Name = ''f'', fr_Version = v, fr_DeviceIdx = d, fr_Sequence = q, fr_RemoteSequence = Some q, fr_Type = FileInfoTypeFile,
      fr_Modified = m, fr_Size = 0, fr_LocalFlags = 0, fr_Deleted = False, fr_BlocklistHash = None\<rparr>"

definition example_db :: "fileRow list \<Rightarrow> folderDB" where
  "example_db rs = \<lparr>fdb_files = rs, fdb_seq = 9, fdb_fileinfos = Map.empty, fdb_blocklists = Map.empty, fdb_blocks = [], fdb_localDeviceIdx = 1\<rparr>"

lemma recalc_elects_best_witness:
  defines "db \<equiv> example_db [example_row 1 4 example_a 10, example_row 2 5 example_b 20]"
  shows "sorts_rows insertionSortCmpFunc \<and> keys_ok db \<and> orders_rows (set (rows_named ''f'' db)) \<and>
    (\<exists>g \<in> set (rows_named ''f'' (recalcGlobalForFile insertionSortCmpFunc ''f'' db)). is_global g \<and>
      (\<forall>r \<in> set (rows_named ''f'' (recalcGlobalForFile insertionSortCmpFunc ''f'' db)).
         r \<noteq> g \<and> (fileRow_IsInvalid g \<or> \<not> fileRow_IsInvalid r) \<longrightarrow> fileRow_Compare g r < 0))"
proof -
  have k: "keys_ok db" by (simp add: db_def example_db_def example_row_def keys_ok_def)
  have f: "rows_named ''f'' db = [example_row 1 4 example_a 10, example_row 2 5 example_b 20]"
    by (simp add: db_def example_db_def example_row_def)
  have o: "orders_rows (set (rows_named ''f'' db))" unfolding f by code_simp
  have ne: "rows_named ''f'' db \<noteq> []" unfolding f by simp
  show ?thesis using recalc_elects_best [OF insertionSort_sorts k o ne] insertionSort_sorts k o by blast
qed

text \<open>
  The comparison is not transitive in general: a version may follow another by its counters and
  yet lose by its modification time to a concurrent one that the other beats. Three such rows,
  sorted in the order in which they arrive, elect different global versions, one of them a version
  that another row of the same name supersedes.
\<close>

definition cycle_new :: fileRow where
  "cycle_new = example_row 2 4 \<lparr>Counters = [\<lparr>ID = 1, Value = 2\<rparr>]\<rparr> 10"

definition cycle_old :: fileRow where
  "cycle_old = example_row 3 5 \<lparr>Counters = [\<lparr>ID = 1, Value = 1\<rparr>]\<rparr> 30"

definition cycle_other :: fileRow where
  "cycle_other = example_row 4 6 \<lparr>Counters = [\<lparr>ID = 2, Value = 1\<rparr>]\<rparr> 20"

lemma fileRow_Compare_cycle:
  "fileRow_Compare cycle_new cycle_old < 0" "fileRow_Compare cycle_old cycle_other < 0" "fileRow_Compare cycle_other cycle_new < 0"
  by code_simp+

lemma global_depends_on_row_order:
  "map fr_DeviceIdx (filter is_global (fdb_files (recalcGlobalForFile insertionSortCmpFunc ''f''
     (example_db [cycle_new, cycle_old, cycle_other])))) = [2]"
  "map fr_DeviceIdx (filter is_global (fdb_files (recalcGlobalForFile insertionSortCmpFunc ''f''
     (example_db [cycle_old, cycle_other, cycle_new])))) = [3]"
  "Compare (fr_Version cycle_new) (fr_Version cycle_old) = Greater"
  by code_simp+


definition example_params :: db_params where
  "example_params = \<lparr>dbp_sha256 = (\<lambda>bs. take 32 (bs @ replicate 32 0)), dbp_normalize = (\<lambda>n. n), dbp_sort = insertionSortCmpFunc, dbp_skipBlockIndex = False\<rparr>"

definition example_updated :: folderDB where
  "example_updated = fst (folderDB_Update example_params 2 [example_file] (example_db []))"


text \<open>
  A remote device that reuses a sequence number for another name deletes its row of the first name
  without that name being recalculated: the name is left without a global entry.
\<close>

definition example_reuse :: folderDB where
  "example_reuse = fst (folderDB_Update example_params 3 [example_file\<lparr>fi_Version := example_b, fi_ModifiedS := 2000, fi_Sequence := 7\<rparr>] example_updated)"

lemma reused_sequence_loses_global:
  "map fr_DeviceIdx (filter is_global (rows_named ''a'' example_reuse)) = [3]"
  "rows_named ''a'' (fst (folderDB_Update example_params 3 [example_file\<lparr>fi_Name := ''b'', fi_Sequence := 7\<rparr>] example_reuse)) \<noteq> []"
  "filter is_global (rows_named ''a'' (fst (folderDB_Update example_params 3 [example_file\<lparr>fi_Name := ''b'', fi_Sequence := 7\<rparr>] example_reuse))) = []"
  by code_simp+

section \<open>The block index\<close>

abbreviation block_key :: "blockRow \<Rightarrow> bytes \<times> bytes \<times> nat" where
  "block_key r \<equiv> (br_hash r, br_blocklist_hash r, br_idx r)"

lemma collect_Suc: "{f k |k. k < Suc n} = insert (f 0) {f (Suc k) |k. k < n}"
  by (auto simp: less_Suc_eq_0_disj)

lemma insert_blocks_keys:
  "block_key ` set (insert_blocks_loop h i bs rows) = block_key ` set rows \<union> {(bi_Hash (bs ! k), h, i + k) |k. k < length bs}"
proof (induction bs arbitrary: i rows)
  case (Cons b bs)
  let ?new = "\<lparr>br_hash = bi_Hash b, br_blocklist_hash = h, br_idx = i, br_offset = bi_Offset b, br_size = bi_Size b\<rparr>"
  let ?rows = "if \<exists>r \<in> set rows. br_hash r = br_hash ?new \<and> br_blocklist_hash r = br_blocklist_hash ?new \<and> br_idx r = br_idx ?new
    then rows else rows @ [?new]"
  have rows: "block_key ` set ?rows = insert (bi_Hash b, h, i) (block_key ` set rows)" by (auto simp: image_iff) metis
  have shift: "{(bi_Hash ((b # bs) ! k), h, i + k) |k. k < length (b # bs)} =
    insert (bi_Hash b, h, i) {(bi_Hash (bs ! k), h, Suc i + k) |k. k < length bs}"
    using collect_Suc [of "\<lambda>k. (bi_Hash ((b # bs) ! k), h, i + k)" "length bs"] by simp
  show ?case unfolding insert_blocks_loop.simps Let_def Cons.IH rows shift by auto
qed simp

lemma insertBlocks_fold_keys:
  "block_key ` set (fdb_blocks (foldl (\<lambda>db (h, bs). insertBlocksLocked h bs db) db ls)) =
     block_key ` set (fdb_blocks db) \<union> {(bi_Hash (bs ! k), h, k) |h bs k. (h, bs) \<in> set ls \<and> k < length bs}"
proof (induction ls arbitrary: db)
  case (Cons l ls)
  obtain h bs where l: "l = (h, bs)" by force
  have "block_key ` set (fdb_blocks (insertBlocksLocked h bs db)) =
    block_key ` set (fdb_blocks db) \<union> {(bi_Hash (bs ! k), h, k) |k. k < length bs}"
    by (simp add: insertBlocksLocked_def insert_blocks_keys)
  then show ?case by (auto simp: l Cons.IH)
qed simp

lemma block_index_rebuilt:
  "block_key ` set (fdb_blocks (PopulateBlockIndex (DropBlockIndex db))) =
     {(bi_Hash (bs ! k), h, k) |h bs k. (h, bs) \<in> set (local_blocklists db) \<and> k < length bs}"
proof -
  have "local_blocklists (DropBlockIndex db) = local_blocklists db" "fdb_blocks (DropBlockIndex db) = []"
    by (simp_all add: DropBlockIndex_def local_blocklists_def blockIndexEmpty_def cong: option.case_cong)
  then show ?thesis using insertBlocks_fold_keys [of "DropBlockIndex db" "local_blocklists db"]
    by (simp add: PopulateBlockIndex_def blockIndexEmpty_def)
qed

end
