(* ===== verification/IndexStore.thy ===== *)
theory IndexStore
  imports FolderDB
begin

text \<open>
  The index database as the index exchange uses it (\<open>internal/db/sqlite/folderdb_indexid.go\<close>,
  \<open>folderdb_local.go\<close>): the rows of a folder together with the index identifier and highest
  sequence of each device, which a trigger on the table of files keeps. The laws the receiver of an
  index relies on are stated as a locale and proved for this database.
\<close>

section \<open>Index identifiers and sequences\<close>

text \<open>A row of \<open>indexids\<close>; the empty text, which the trigger inserts, is \<open>None\<close>.\<close>

record index_db =
  ixd_folder :: folderDB
  ixd_ids :: "int \<rightharpoonup> (uint64 option \<times> int)"

definition indexids_seq :: "int \<Rightarrow> int \<Rightarrow> (int \<rightharpoonup> (uint64 option \<times> int)) \<Rightarrow> (int \<rightharpoonup> (uint64 option \<times> int))" where
  "indexids_seq deviceIdx sequence ids =
     ids(deviceIdx \<mapsto> (case ids deviceIdx of None \<Rightarrow> (None, sequence) | Some (i, _) \<Rightarrow> (i, sequence)))"

text \<open>The trigger fires once per inserted row; the last one counts.\<close>

definition ixd_Update :: "db_params \<Rightarrow> int \<Rightarrow> FileInfo list \<Rightarrow> index_db \<Rightarrow> index_db \<times> int option" where
  "ixd_Update p deviceIdx fs s =
     (case folderDB_Update p deviceIdx fs (ixd_folder s) of
        (db, None) \<Rightarrow>
          (s\<lparr>ixd_folder := db,
             ixd_ids := (if fs = [] then ixd_ids s
                         else indexids_seq deviceIdx
                           (if deviceIdx = fdb_localDeviceIdx db then fdb_seq db else fi_Sequence (last fs)) (ixd_ids s))\<rparr>, None)
      | (db, Some e) \<Rightarrow> (s, Some e))"

definition ixd_DropAllFiles :: "db_params \<Rightarrow> int \<Rightarrow> index_db \<Rightarrow> index_db" where
  "ixd_DropAllFiles p deviceIdx s = s\<lparr>ixd_folder := DropAllFiles p deviceIdx (ixd_folder s)\<rparr>"

definition GetDeviceSequence :: "int \<Rightarrow> index_db \<Rightarrow> int" where
  "GetDeviceSequence deviceIdx s = (case ixd_ids s deviceIdx of None \<Rightarrow> 0 | Some (_, q) \<Rightarrow> q)"

text \<open>\<open>newID\<close> is what \<open>NewIndexID\<close> draws, used when the local device has no identifier yet.\<close>

definition GetIndexID :: "uint64 \<Rightarrow> int \<Rightarrow> index_db \<Rightarrow> uint64 \<times> index_db" where
  "GetIndexID newID deviceIdx s =
     (case ixd_ids s deviceIdx of
        Some (Some i, _) \<Rightarrow> (i, s)
      | r \<Rightarrow>
          if deviceIdx \<noteq> fdb_localDeviceIdx (ixd_folder s) then (0, s)
          else
            (newID, s\<lparr>ixd_ids := (ixd_ids s)(deviceIdx \<mapsto>
               (Some newID,
                (case r of
                   Some (_, q) \<Rightarrow> q
                 | None \<Rightarrow> foldr max (map fr_Sequence (filter (\<lambda>r. fr_DeviceIdx r = deviceIdx) (fdb_files (ixd_folder s)))) 0)))\<rparr>))"

definition SetIndexID :: "int \<Rightarrow> uint64 \<Rightarrow> index_db \<Rightarrow> index_db" where
  "SetIndexID deviceIdx i s = s\<lparr>ixd_ids := (ixd_ids s)(deviceIdx \<mapsto> (Some i, 0))\<rparr>"

section \<open>Reading files\<close>

text \<open>The stored record of a row, with the block list the row refers to.\<close>

definition indirect_FileInfo :: "folderDB \<Rightarrow> fileRow \<Rightarrow> FileInfo option" where
  "indirect_FileInfo db r =
     map_option (\<lambda>fi. case Option.bind (fr_BlocklistHash r) (fdb_blocklists db) of
                        Some bs \<Rightarrow> fi\<lparr>fi_Blocks := bs\<rparr>
                      | None \<Rightarrow> fi) (fdb_fileinfos db (fr_Sequence r))"

definition GetDeviceFile :: "db_params \<Rightarrow> int \<Rightarrow> string \<Rightarrow> folderDB \<Rightarrow> FileInfo option" where
  "GetDeviceFile p deviceIdx name db =
     Option.bind (find (\<lambda>r. fr_DeviceIdx r = deviceIdx \<and> fr_Name r = dbp_normalize p name) (fdb_files db)) (indirect_FileInfo db)"

definition AllLocalFilesBySequence :: "int \<Rightarrow> int \<Rightarrow> nat \<Rightarrow> folderDB \<Rightarrow> FileInfo list" where
  "AllLocalFilesBySequence deviceIdx startSeq limit db =
     (let fs = List.map_filter (indirect_FileInfo db)
                 (sort_key fr_Sequence (filter (\<lambda>r. fr_DeviceIdx r = deviceIdx \<and> fr_Sequence r \<ge> startSeq) (fdb_files db)))
      in if limit > 0 then take limit fs else fs)"

section \<open>What an index promises about a device\<close>

text \<open>
  The view the exchange has of one device: \<open>File\<close> looks a name up, \<open>below s q\<close> says that no stored
  sequence is above \<open>q\<close>. A batch in increasing order above them replaces the entries of its names,
  and the sequence of the device is then that of its last file.
\<close>

definition batch_lookup :: "(FileInfo \<Rightarrow> string) \<Rightarrow> (FileInfo \<Rightarrow> 'a) \<Rightarrow> FileInfo list \<Rightarrow> (string \<rightharpoonup> 'a) \<Rightarrow> (string \<rightharpoonup> 'a)" where
  "batch_lookup nm st fs m = foldl (\<lambda>m f. m(nm f \<mapsto> st f)) m fs"

locale index_store =
  fixes ok :: "'s \<Rightarrow> bool"
    and Update :: "FileInfo list \<Rightarrow> 's \<Rightarrow> 's \<times> int option"
    and Drop :: "'s \<Rightarrow> 's"
    and Sequence :: "'s \<Rightarrow> int"
    and File :: "'s \<Rightarrow> (string \<rightharpoonup> FileInfo)"
    and below :: "'s \<Rightarrow> int \<Rightarrow> bool"
    and nm :: "FileInfo \<Rightarrow> string"
    and st :: "FileInfo \<Rightarrow> FileInfo"
  assumes drop: "ok s \<Longrightarrow> ok (Drop s) \<and> File (Drop s) = Map.empty \<and> below (Drop s) q \<and> Sequence (Drop s) = Sequence s"
    and update: "\<lbrakk>ok s; below s q; sorted_wrt (<) (q # map fi_Sequence fs)\<rbrakk> \<Longrightarrow>
      \<exists>s'. Update fs s = (s', None) \<and> ok s' \<and> File s' = batch_lookup nm st fs (File s)
        \<and> below s' (last (q # map fi_Sequence fs))
        \<and> Sequence s' = (if fs = [] then Sequence s else last (map fi_Sequence fs))"
begin

text \<open>An index message: a full index starts from nothing.\<close>

lemma message_applied:
  assumes "ok s" and "\<not> full \<longrightarrow> below s q" and "sorted_wrt (<) (q # map fi_Sequence fs)" and "fs \<noteq> []"
  shows "\<exists>s'. Update fs (if full then Drop s else s) = (s', None) \<and> ok s'
    \<and> File s' = batch_lookup nm st fs (if full then Map.empty else File s)
    \<and> Sequence s' = last (map fi_Sequence fs) \<and> below s' (Sequence s')"
proof -
  have "ok (if full then Drop s else s)" "below (if full then Drop s else s) q"
    using assms(1,2) drop by auto
  from update [OF this assms(3)] show ?thesis using assms(1,4) drop [of s] by auto
qed

end

section \<open>The database keeps the promise\<close>

definition strip_blocks :: "FileInfo \<Rightarrow> FileInfo" where
  "strip_blocks fi = fi\<lparr>fi_Blocks := []\<rparr>"

definition device_seq :: "int \<Rightarrow> string \<Rightarrow> fileRow list \<Rightarrow> int option" where
  "device_seq d n rs = map_option fr_Sequence (find (\<lambda>r. fr_DeviceIdx r = d \<and> fr_Name r = n) rs)"

definition device_info :: "int \<Rightarrow> folderDB \<Rightarrow> string \<rightharpoonup> FileInfo" where
  "device_info d db n = Option.bind (device_seq d n (fdb_files db)) (fdb_fileinfos db)"

definition seqs_below :: "int \<Rightarrow> folderDB \<Rightarrow> int \<Rightarrow> bool" where
  "seqs_below d db q \<longleftrightarrow> (\<forall>r \<in> set (fdb_files db). fr_DeviceIdx r = d \<longrightarrow> (\<exists>q'. fr_RemoteSequence r = Some q' \<and> q' \<le> q))"

definition stored_info :: "db_params \<Rightarrow> FileInfo \<Rightarrow> FileInfo" where
  "stored_info p f = strip_blocks (stored_form p f)"

definition remote_ok :: "db_params \<Rightarrow> int \<Rightarrow> folderDB \<Rightarrow> bool" where
  "remote_ok p d db \<longleftrightarrow> permutes_rows (dbp_sort p) \<and> db_inv db \<and> d \<noteq> fdb_localDeviceIdx db"

lemma device_seq_noflags:
  assumes "map noflags rs = map noflags rs'"
  shows "device_seq d n rs = device_seq d n rs'"
  using assms
proof (induction rs arbitrary: rs')
  case (Cons r rs)
  then obtain r' rs'' where r: "rs' = r' # rs''" "noflags r = noflags r'" "map noflags rs = map noflags rs''"
    by (cases rs') auto
  note sel = noflags_sel(1,2,3) [OF r(2)]
  show ?case using Cons.IH [OF r(3)] sel unfolding r(1) by (simp add: device_seq_def)
qed simp

lemma device_seq_append: "device_seq d n (xs @ ys) = (case device_seq d n xs of None \<Rightarrow> device_seq d n ys | s \<Rightarrow> s)"
  by (induction xs) (auto simp: device_seq_def)

lemma device_seq_filter_none:
  "(\<And>r. r \<in> set rs \<Longrightarrow> fr_DeviceIdx r = d \<Longrightarrow> fr_Name r = n \<Longrightarrow> \<not> P r) \<Longrightarrow> device_seq d n (filter P rs) = None"
  by (induction rs) (auto simp: device_seq_def)

lemma device_seq_filter_all:
  "(\<And>r. r \<in> set rs \<Longrightarrow> fr_DeviceIdx r = d \<Longrightarrow> fr_Name r = n \<Longrightarrow> P r) \<Longrightarrow> device_seq d n (filter P rs) = device_seq d n rs"
  by (induction rs) (auto simp: device_seq_def)

lemma device_seq_in: "device_seq d n rs = Some q \<Longrightarrow> \<exists>r \<in> set rs. fr_DeviceIdx r = d \<and> fr_Name r = n \<and> fr_Sequence r = q"
  by (induction rs) (auto simp: device_seq_def split: if_splits)

lemma update_one_fileinfos:
  "fdb_fileinfos (update_one p d f db) =
     (fdb_fileinfos (insert_file (row_of d (fdb_localDeviceIdx db) (fdb_seq db + 1) (stored_form p f)) db))
       (fdb_seq db + 1 \<mapsto> (stored_form p f)\<lparr>fi_Blocks := [],
          fi_Sequence := (if d = fdb_localDeviceIdx db then fdb_seq db + 1 else fi_Sequence f)\<rparr>)"
  unfolding update_one_def Let_def recalc_frame(4) by (simp add: insertBlocksLocked_def)

lemma update_one_info:
  assumes "remote_ok p d db" and "seqs_below d db q" and "q < fi_Sequence f"
  shows "device_info d (update_one p d f db) = (device_info d db)(dbp_normalize p (fi_Name f) \<mapsto> stored_info p f)"
    and "seqs_below d (update_one p d f db) (fi_Sequence f)" and "remote_ok p d (update_one p d f db)"
proof -
  let ?new = "row_of d (fdb_localDeviceIdx db) (fdb_seq db + 1) (stored_form p f)" and ?n = "dbp_normalize p (fi_Name f)"
  let ?kept = "filter (\<lambda>r. \<not> collides ?new r) (fdb_files db)"
  have h: "permutes_rows (dbp_sort p)" "db_inv db" "d \<noteq> fdb_localDeviceIdx db" using assms(1) by (auto simp: remote_ok_def)
  have keys: "distinct (map fr_Sequence (fdb_files db))" "\<forall>r \<in> set (fdb_files db). fr_Sequence r \<le> fdb_seq db"
    using h(2) by (auto simp: db_inv_def keys_ok_def)
  have col: "collides ?new r \<longleftrightarrow> fr_DeviceIdx r = d \<and> fr_Name r = ?n" if "r \<in> set (fdb_files db)" for r
  proof -
    have "fr_RemoteSequence r \<noteq> Some (fi_Sequence f)" if "fr_DeviceIdx r = d"
      using assms(2,3) \<open>r \<in> set (fdb_files db)\<close> that unfolding seqs_below_def by force
    then show ?thesis using h(3) by (auto simp: collides_def)
  qed
  then have nr: "no_reuse ?new db" unfolding no_reuse_def by auto
  note u = update_one_inv [OF h(1,2) nr]
  have files: "fdb_files (insert_file ?new db) = ?kept @ [?new]" by (simp add: insert_file_def Let_def)
  have noflags: "map noflags (fdb_files (update_one p d f db)) = map noflags (?kept @ [?new])" using u(3) files by simp
  show ok: "remote_ok p d (update_one p d f db)" using u(1,2) h by (simp add: remote_ok_def)
  show "seqs_below d (update_one p d f db) (fi_Sequence f)"
    unfolding seqs_below_def
  proof (intro ballI impI)
    fix r assume r: "r \<in> set (fdb_files (update_one p d f db))" "fr_DeviceIdx r = d"
    then have "noflags r \<in> set (map noflags (?kept @ [?new]))" unfolding noflags [symmetric] by simp
    then obtain r' where r': "r' \<in> set (?kept @ [?new])" "noflags r = noflags r'" by auto
    note sel = noflags_sel(2,6) [OF r'(2)]
    show "\<exists>q'. fr_RemoteSequence r = Some q' \<and> q' \<le> fi_Sequence f"
    proof (cases "r' = ?new")
      case True
      then show ?thesis using sel h(3) by simp
    next
      case False
      then have "r' \<in> set (fdb_files db)" using r'(1) by auto
      then show ?thesis using sel r(2) assms(2,3) unfolding seqs_below_def by force
    qed
  qed
  show "device_info d (update_one p d f db) = (device_info d db)(?n \<mapsto> stored_info p f)"
  proof
    fix n
    have ds: "device_seq d n (fdb_files (update_one p d f db)) = (if n = ?n then Some (fdb_seq db + 1) else device_seq d n (fdb_files db))"
    proof (cases "n = ?n")
      case True
      have "device_seq d n ?kept = None" by (rule device_seq_filter_none) (use col True in auto)
      then show ?thesis using True unfolding device_seq_noflags [OF noflags] device_seq_append by (simp add: device_seq_def)
    next
      case False
      have "device_seq d n ?kept = device_seq d n (fdb_files db)" by (rule device_seq_filter_all) (use col False in auto)
      moreover have "device_seq d n [?new] = None" using False by (simp add: device_seq_def)
      ultimately show ?thesis using False unfolding device_seq_noflags [OF noflags] device_seq_append by (auto split: option.splits)
    qed
    show "device_info d (update_one p d f db) n = ((device_info d db)(?n \<mapsto> stored_info p f)) n"
    proof (cases "n = ?n")
      case True
      then show ?thesis using h(3) unfolding device_info_def ds update_one_fileinfos
        by (simp add: stored_info_def strip_blocks_def stored_form_def Let_def)
    next
      case False
      have "fdb_fileinfos (update_one p d f db) s = fdb_fileinfos db s" if s: "device_seq d n (fdb_files db) = Some s" for s
      proof -
        obtain r where r: "r \<in> set (fdb_files db)" "fr_DeviceIdx r = d" "fr_Name r = n" "fr_Sequence r = s"
          using device_seq_in [OF s] by blast
        have "r' = r" if "r' \<in> set (fdb_files db)" "fr_Sequence r' = s" for r'
          using keys(1) r(1,4) that by (simp add: distinct_map inj_on_def)
        then have "\<not> collides ?new r'" if "r' \<in> set (fdb_files db)" "fr_Sequence r' = s" for r'
          using col [OF that(1)] that r(3) False by metis
        then have "s \<notin> set (map fr_Sequence (filter (collides ?new) (fdb_files db)))" by auto
        moreover have "s \<noteq> fdb_seq db + 1" using keys(2) r(1,4) by auto
        ultimately show ?thesis unfolding update_one_fileinfos by (simp add: insert_file_def Let_def)
      qed
      then show ?thesis using False unfolding device_info_def ds by (cases "device_seq d n (fdb_files db)") auto
    qed
  qed
qed

lemma update_loop_info:
  assumes "remote_ok p d db" and "seqs_below d db q" and "sorted_wrt (<) (q # map fi_Sequence fs)"
    and "\<forall>x. prev = Some x \<longrightarrow> x \<le> q"
  shows "\<exists>db'. update_loop p d prev fs db = Inr db' \<and> remote_ok p d db'
    \<and> device_info d db' = batch_lookup (\<lambda>f. dbp_normalize p (fi_Name f)) (stored_info p) fs (device_info d db)
    \<and> seqs_below d db' (last (q # map fi_Sequence fs))"
  using assms
proof (induction fs arbitrary: prev db q)
  case (Cons f fs)
  have q: "q < fi_Sequence f" using Cons.prems(3) by simp
  note one = update_one_info [OF Cons.prems(1,2) q]
  have ne: "prev \<noteq> Some (fi_Sequence f)" using Cons.prems(4) q by auto
  have srt: "sorted_wrt (<) (fi_Sequence f # map fi_Sequence fs)" using Cons.prems(3) by simp
  obtain db' where "update_loop p d (Some (fi_Sequence f)) fs (update_one p d f db) = Inr db'" "remote_ok p d db'"
    "device_info d db' = batch_lookup (\<lambda>f. dbp_normalize p (fi_Name f)) (stored_info p) fs (device_info d (update_one p d f db))"
    "seqs_below d db' (last (fi_Sequence f # map fi_Sequence fs))"
    using Cons.IH [OF one(3,2) srt, of "Some (fi_Sequence f)"] by blast
  then show ?case using ne unfolding one(1) by (auto simp: batch_lookup_def)
qed (auto simp: batch_lookup_def)

definition ixd_ok :: "db_params \<Rightarrow> int \<Rightarrow> index_db \<Rightarrow> bool" where
  "ixd_ok p d s \<longleftrightarrow> remote_ok p d (ixd_folder s)"

lemma delete_device_info:
  "device_info d (DropAllFiles p d db) = Map.empty \<and> seqs_below d (DropAllFiles p d db) q"
proof -
  let ?del = "delete_files (\<lambda>r. fr_DeviceIdx r = d) db"
  have "map noflags (fdb_files (recalc_names s ns db0)) = map noflags (fdb_files db0)" for s ns db0
    unfolding recalc_names_def by (induction ns arbitrary: db0) (simp_all add: recalc_frame(1))
  then have nf: "map noflags (fdb_files (DropAllFiles p d db)) = map noflags (fdb_files ?del)"
    by (simp add: DropAllFiles_def Let_def recalcGlobalForFolder_def)
  have none: "fr_DeviceIdx r \<noteq> d" if r: "r \<in> set (fdb_files (DropAllFiles p d db))" for r
  proof -
    have "noflags r \<in> set (map noflags (fdb_files ?del))" using r unfolding nf [symmetric] by simp
    then obtain r' where r': "r' \<in> set (fdb_files ?del)" "noflags r = noflags r'" by auto
    then show ?thesis using noflags_sel(2) [OF r'(2)] by (simp add: delete_files_def)
  qed
  then have "device_seq d n (fdb_files (DropAllFiles p d db)) = None" for n by (metis device_seq_in not_Some_eq)
  then show ?thesis using none by (auto simp: device_info_def seqs_below_def)
qed

interpretation ixs: index_store "ixd_ok p d" "ixd_Update p d" "ixd_DropAllFiles p d" "GetDeviceSequence d"
  "\<lambda>s. device_info d (ixd_folder s)" "\<lambda>s. seqs_below d (ixd_folder s)" "\<lambda>f :: FileInfo. dbp_normalize p (fi_Name f)" "stored_info p" for p d
proof
  fix s :: index_db and q assume ok: "ixd_ok p d s"
  have "db_reach p (ixd_folder s) (DropAllFiles p d (ixd_folder s))"
    by (rule db_reach.drop_all [OF db_reach.start]) (use ok in \<open>simp add: ixd_ok_def remote_ok_def\<close>)
  then have "db_inv (DropAllFiles p d (ixd_folder s))"
    by (rule db_reach_inv) (use ok in \<open>simp_all add: ixd_ok_def remote_ok_def\<close>)
  moreover have "fdb_localDeviceIdx (recalc_names sf ns db) = fdb_localDeviceIdx db" for sf ns db
    unfolding recalc_names_def by (induction ns arbitrary: db) (simp_all add: recalc_frame(3))
  then have "fdb_localDeviceIdx (DropAllFiles p d (ixd_folder s)) = fdb_localDeviceIdx (ixd_folder s)"
    by (simp add: DropAllFiles_def Let_def recalcGlobalForFolder_def delete_files_def)
  ultimately show "ixd_ok p d (ixd_DropAllFiles p d s) \<and> device_info d (ixd_folder (ixd_DropAllFiles p d s)) = Map.empty
      \<and> seqs_below d (ixd_folder (ixd_DropAllFiles p d s)) q
      \<and> GetDeviceSequence d (ixd_DropAllFiles p d s) = GetDeviceSequence d s"
    using ok delete_device_info [of d p "ixd_folder s" q]
    by (simp add: ixd_ok_def remote_ok_def ixd_DropAllFiles_def GetDeviceSequence_def)
next
  fix s :: index_db and q and fs :: "FileInfo list" assume a: "ixd_ok p d s" "seqs_below d (ixd_folder s) q" "sorted_wrt (<) (q # map fi_Sequence fs)"
  obtain db' where u: "update_loop p d None fs (ixd_folder s) = Inr db'" "remote_ok p d db'"
    "device_info d db' = batch_lookup (\<lambda>f. dbp_normalize p (fi_Name f)) (stored_info p) fs (device_info d (ixd_folder s))"
    "seqs_below d db' (last (q # map fi_Sequence fs))"
    using update_loop_info [OF a(1) [unfolded ixd_ok_def] a(2,3), of None] by auto
  then show "\<exists>s'. ixd_Update p d fs s = (s', None) \<and> ixd_ok p d s'
      \<and> device_info d (ixd_folder s') = batch_lookup (\<lambda>f. dbp_normalize p (fi_Name f)) (stored_info p) fs (device_info d (ixd_folder s))
      \<and> seqs_below d (ixd_folder s') (last (q # map fi_Sequence fs))
      \<and> GetDeviceSequence d s' = (if fs = [] then GetDeviceSequence d s else last (map fi_Sequence fs))"
    by (auto simp: ixd_Update_def folderDB_Update_def ixd_ok_def remote_ok_def GetDeviceSequence_def indexids_seq_def last_map
        split: option.splits)
qed

end
