(* ===== verification/IndexHandler.thy ===== *)
theory IndexHandler
  imports IndexStore Wire
begin

text \<open>
  The index handler of a folder and device (\<open>lib/model/indexhandler.go\<close>): batches of file records
  (\<open>fileinfobatch.go\<close>), the start of an index exchange, sending what is new, receiving a batch, and the
  registry that starts, pauses and resumes the handlers of a connection.
\<close>

unbundle bit_operations_syntax

section \<open>Batches\<close>

text \<open>\<open>psize\<close> stands for \<open>proto.Size(f.ToWire(true))\<close>; the flush function passes a state along.\<close>

definition MaxBatchSizeBytes :: int where "MaxBatchSizeBytes = 250 * 1024"
definition MaxBatchSizeFiles :: nat where "MaxBatchSizeFiles = 1000"

record 'e fileInfoBatch =
  fb_infos :: "FileInfo list"
  fb_size :: int
  fb_error :: "'e option"

definition NewFileInfoBatch :: "'e fileInfoBatch" where
  "NewFileInfoBatch = \<lparr>fb_infos = [], fb_size = 0, fb_error = None\<rparr>"

text \<open>\<open>None\<close> is the panic on a failed batch.\<close>

definition batch_Append :: "(FileInfo \<Rightarrow> int) \<Rightarrow> FileInfo \<Rightarrow> 'e fileInfoBatch \<Rightarrow> 'e fileInfoBatch option" where
  "batch_Append psize f b =
     (if fb_error b \<noteq> None then None
      else Some (b\<lparr>fb_infos := fb_infos b @ [f], fb_size := fb_size b + psize f\<rparr>))"

definition batch_Full :: "'e fileInfoBatch \<Rightarrow> bool" where
  "batch_Full b \<longleftrightarrow> length (fb_infos b) \<ge> MaxBatchSizeFiles \<or> fb_size b \<ge> MaxBatchSizeBytes"

definition batch_Reset :: "'e fileInfoBatch \<Rightarrow> 'e fileInfoBatch" where
  "batch_Reset b = b\<lparr>fb_infos := [], fb_error := None, fb_size := 0\<rparr>"

definition batch_Flush ::
  "(FileInfo list \<Rightarrow> 's \<Rightarrow> 'e option \<times> 's) \<Rightarrow> 'e fileInfoBatch \<Rightarrow> 's \<Rightarrow> 'e option \<times> 'e fileInfoBatch \<times> 's" where
  "batch_Flush flushFn b s =
     (case fb_error b of
        Some e \<Rightarrow> (Some e, b, s)
      | None \<Rightarrow>
          if length (fb_infos b) = 0 then (None, b, s)
          else (case flushFn (fb_infos b) s of
                  (Some e, s') \<Rightarrow> (Some e, b\<lparr>fb_error := Some e\<rparr>, s')
                | (None, s') \<Rightarrow> (None, batch_Reset b, s')))"

definition batch_FlushIfFull ::
  "(FileInfo list \<Rightarrow> 's \<Rightarrow> 'e option \<times> 's) \<Rightarrow> 'e fileInfoBatch \<Rightarrow> 's \<Rightarrow> 'e option \<times> 'e fileInfoBatch \<times> 's" where
  "batch_FlushIfFull flushFn b s =
     (case fb_error b of
        Some e \<Rightarrow> (Some e, b, s)
      | None \<Rightarrow> if batch_Full b then batch_Flush flushFn b s else (None, b, s))"

section \<open>The handler\<close>

record indexHandler =
  ih_folder :: string
  ih_folderIsReceiveEncrypted :: bool
  ih_localPrevSequence :: int
  ih_sentPrevSequence :: int
  ih_paused :: bool

text \<open>
  \<open>info_local\<close> is what the other side says it knows of us, \<open>info_remote\<close> what it says of itself;
  \<open>dev\<close> is its number in our database.
\<close>

definition index_startSequence :: "IndexID \<Rightarrow> int \<Rightarrow> Device \<Rightarrow> int" where
  "index_startSequence myIndexID mySequence info_local =
     (if d_IndexID info_local = myIndexID then
        (if d_MaxSequence info_local > mySequence then 0 else d_MaxSequence info_local)
      else 0)"

definition newIndexHandler ::
  "db_params \<Rightarrow> IndexID \<Rightarrow> int \<Rightarrow> string \<Rightarrow> bool \<Rightarrow> Device \<Rightarrow> Device \<Rightarrow> index_db \<Rightarrow> indexHandler \<times> index_db" where
  "newIndexHandler p newID dev folder receiveEncrypted info_local info_remote s =
     (let (myIndexID, s1) = GetIndexID newID (fdb_localDeviceIdx (ixd_folder s)) s;
          mySequence = GetDeviceSequence (fdb_localDeviceIdx (ixd_folder s)) s1;
          startSequence = index_startSequence myIndexID mySequence info_local;
          theirIndexID = fst (GetIndexID newID dev s1);
          s2 = (if d_IndexID info_remote = 0 then ixd_DropAllFiles p dev s1
                else if d_IndexID info_remote \<noteq> theirIndexID
                then SetIndexID dev (d_IndexID info_remote) (ixd_DropAllFiles p dev s1)
                else s1)
      in (\<lparr>ih_folder = folder, ih_folderIsReceiveEncrypted = receiveEncrypted, ih_localPrevSequence = startSequence,
           ih_sentPrevSequence = startSequence, ih_paused = False\<rparr>, s2))"

section \<open>Sending\<close>

definition prepareFileInfoForIndex :: "FileInfo \<Rightarrow> FileInfo" where
  "prepareFileInfoForIndex f =
     (let f1 = (if IsReceiveOnlyChanged f then f\<lparr>fi_Version := \<lparr>Counters = []\<rparr>\<rparr> else f)
      in f1\<lparr>fi_Size := fi_Size f1 - fi_EncryptionTrailerSize f1\<rparr>)"

datatype index_message = SendIndex Index | SendIndexUpdate IndexUpdate

datatype send_error = ContextDone | SendFailed string | DatabaseMisbehaved | DatabaseError | PanicEmptyBatch | PanicFailedBatch

text \<open>
  The flush function of \<open>sendIndexTo\<close>: its state is \<open>initial\<close>, \<open>batchError\<close>, the handler and the
  messages that were sent. \<open>done\<close> says whether the context has ended, \<open>conn\<close> is the connection.
\<close>

record send_state =
  ss_initial :: bool
  ss_batchError :: "send_error option"
  ss_handler :: indexHandler
  ss_sent :: "index_message list"

definition send_flush ::
  "bool \<Rightarrow> (index_message \<Rightarrow> string option) \<Rightarrow> FileInfo list \<Rightarrow> send_state \<Rightarrow> send_error option \<times> send_state" where
  "send_flush done conn fs s =
     (if done then (Some ContextDone, s)
      else if length fs = 0 then (Some PanicEmptyBatch, s)
      else if ss_batchError s \<noteq> None then (Some PanicFailedBatch, s)
      else
        let lastSequence = fi_Sequence (last fs);
            h = ss_handler s;
            msg = (if ss_initial s
                   then SendIndex \<lparr>ix_Folder = ih_folder h, ix_Files = fs, ix_LastSequence = lastSequence\<rparr>
                   else SendIndexUpdate \<lparr>ix_Folder = ih_folder h, ix_Files = fs, ix_LastSequence = lastSequence,
                          ix_PrevSequence = ih_sentPrevSequence h\<rparr>);
            s1 = s\<lparr>ss_initial := False\<rparr>
        in (case conn msg of
              Some e \<Rightarrow> (Some (SendFailed e), s1\<lparr>ss_batchError := Some (SendFailed e)\<rparr>)
            | None \<Rightarrow> (None, s1\<lparr>ss_handler := h\<lparr>ih_sentPrevSequence := lastSequence\<rparr>, ss_sent := ss_sent s @ [msg]\<rparr>)))"

text \<open>
  The loop over the files: \<open>fseq\<close> is the sequence of the last one (\<open>f.Sequence\<close>), \<open>prev\<close> is
  \<open>s.localPrevSequence\<close>, which is returned with the outcome.
\<close>

fun send_loop ::
  "(FileInfo \<Rightarrow> int) \<Rightarrow> bool \<Rightarrow> FileInfo list \<Rightarrow> send_error fileInfoBatch \<Rightarrow> int \<Rightarrow> bool \<Rightarrow> int
     \<Rightarrow> (send_error, send_error fileInfoBatch) result \<times> int" where
  "send_loop psize enc [] batch fseq previousWasDelete prev = (Inr batch, prev)"
| "send_loop psize enc (fi # fis) batch fseq previousWasDelete prev =
     (if batch_Full batch \<and> (\<not> fi_Deleted fi \<or> previousWasDelete) then (Inr batch, prev)
      else if fi_Sequence fi < prev + 1 then (Inl DatabaseMisbehaved, prev)
      else if fseq > 0 \<and> fi_Sequence fi \<le> fseq then (Inl DatabaseMisbehaved, prev)
      else if enc \<and> IsReceiveOnlyChanged fi
      then send_loop psize enc fis batch (fi_Sequence fi) previousWasDelete (fi_Sequence fi)
      else
        let f = prepareFileInfoForIndex fi in
        (case batch_Append psize f batch of
           None \<Rightarrow> (Inl PanicFailedBatch, fi_Sequence fi)
         | Some batch' \<Rightarrow> send_loop psize enc fis batch' (fi_Sequence f) (fi_Deleted f) (fi_Sequence fi)))"

definition sendIndexTo ::
  "(FileInfo \<Rightarrow> int) \<Rightarrow> bool \<Rightarrow> (index_message \<Rightarrow> string option) \<Rightarrow> index_db \<Rightarrow> indexHandler
     \<Rightarrow> send_error option \<times> indexHandler \<times> index_message list" where
  "sendIndexTo psize done conn db h =
     (let initial = (ih_localPrevSequence h = 0);
          files = AllLocalFilesBySequence (fdb_localDeviceIdx (ixd_folder db)) (ih_localPrevSequence h + 1)
                    (MaxBatchSizeFiles + 1) (ixd_folder db)
      in (case send_loop psize (ih_folderIsReceiveEncrypted h) files NewFileInfoBatch 0 False (ih_localPrevSequence h) of
            (Inl e, prev) \<Rightarrow> (Some e, h\<lparr>ih_localPrevSequence := prev\<rparr>, [])
          | (Inr batch, prev) \<Rightarrow>
              (case batch_Flush (send_flush done conn) batch
                      \<lparr>ss_initial = initial, ss_batchError = None, ss_handler = h\<lparr>ih_localPrevSequence := prev\<rparr>, ss_sent = []\<rparr> of
                 (err, _, s) \<Rightarrow> (err, ss_handler s, ss_sent s))))"

section \<open>Receiving\<close>

datatype seq_anomaly = UnexpectedPrevSequence | BeforePrevSequence nat | AfterLastSequence nat | NonIncreasing nat
  | UnexpectedLastSequence | UnexpectedAfterUpdate

datatype receive_error = ErrFolderPaused | ErrFolderMissing | UpdateFailed int

definition makeForgetUpdate :: "FileInfo list \<Rightarrow> FileDownloadProgressUpdate list" where
  "makeForgetUpdate files =
     map (\<lambda>f. forget_update (fi_Name f) (fi_Version f)) (filter (\<lambda>f. \<not> (IsSymlink f \<or> IsDirectory f \<or> fi_Deleted f)) files)"

text \<open>The checks on one file of the batch, at position \<open>i\<close>.\<close>

definition file_anomalies :: "int \<Rightarrow> int \<Rightarrow> FileInfo list \<Rightarrow> nat \<Rightarrow> seq_anomaly list" where
  "file_anomalies prevSequence lastSequence fs i =
     (if fi_Sequence (fs ! i) < prevSequence then [BeforePrevSequence i] else [])
     @ (if lastSequence > 0 \<and> fi_Sequence (fs ! i) > lastSequence then [AfterLastSequence i] else [])
     @ (if i > 0 \<and> fi_Sequence (fs ! i) \<le> fi_Sequence (fs ! (i - 1)) then [NonIncreasing i] else [])"

text \<open>
  The result: the error, the anomalies that are logged, the database and the progress updates passed
  to the record of what the device is downloading. A pull is scheduled unless the folder is paused.
\<close>

definition receive ::
  "db_params \<Rightarrow> int \<Rightarrow> indexHandler \<Rightarrow> FileInfo list \<Rightarrow> bool \<Rightarrow> int \<Rightarrow> int \<Rightarrow> index_db
     \<Rightarrow> receive_error option \<times> seq_anomaly list \<times> index_db \<times> FileDownloadProgressUpdate list" where
  "receive p dev h fs update prevSequence lastSequence s =
     (if ih_paused h then (Some ErrFolderPaused, [], s, [])
      else
        let forget = makeForgetUpdate fs;
            s1 = (if \<not> update then ixd_DropAllFiles p dev s else s);
            expected = GetDeviceSequence dev s1;
            anom1 = (if prevSequence > 0 \<and> prevSequence \<noteq> expected then [UnexpectedPrevSequence] else [])
              @ concat (map (file_anomalies prevSequence lastSequence fs) [0..<length fs])
              @ (if lastSequence > 0 \<and> length fs > 0 \<and> lastSequence \<noteq> fi_Sequence (last fs) then [UnexpectedLastSequence] else [])
        in (case ixd_Update p dev fs s1 of
              (s2, Some e) \<Rightarrow> (Some (UpdateFailed e), anom1, s2, forget)
            | (s2, None) \<Rightarrow>
                (None,
                 anom1 @ (if lastSequence > 0 \<and> length fs > 0 \<and> GetDeviceSequence dev s2 \<noteq> lastSequence
                          then [UnexpectedAfterUpdate] else []),
                 s2, forget)))"

section \<open>The registry\<close>

text \<open>
  The handlers of a connection by folder, the start informations that wait for their folder, and the
  folders that run. \<open>'c\<close> is the configuration of a folder, \<open>'i\<close> a start information; \<open>start\<close> is
  \<open>newIndexHandler\<close> with everything but these, which may fail.
\<close>

record ('c, 'i) indexHandlerRegistry =
  ir_indexHandlers :: "string \<rightharpoonup> indexHandler"
  ir_startInfos :: "string \<rightharpoonup> 'i"
  ir_folderStates :: "string \<rightharpoonup> 'c"

definition handler_resume :: "indexHandler \<Rightarrow> indexHandler" where
  "handler_resume h = h\<lparr>ih_paused := False\<rparr>"

definition handler_pause :: "indexHandler \<Rightarrow> indexHandler" where
  "handler_pause h = h\<lparr>ih_paused := True\<rparr>"

definition startLocked ::
  "('c \<Rightarrow> 'i \<Rightarrow> (string, indexHandler) result) \<Rightarrow> string \<Rightarrow> 'c \<Rightarrow> 'i \<Rightarrow> ('c, 'i) indexHandlerRegistry \<Rightarrow> ('c, 'i) indexHandlerRegistry" where
  "startLocked start folder cfg info r =
     (let r1 = r\<lparr>ir_indexHandlers := (ir_indexHandlers r)(folder := None), ir_startInfos := (ir_startInfos r)(folder := None)\<rparr>
      in (case start cfg info of
            Inl e \<Rightarrow> r1
          | Inr h \<Rightarrow> r1\<lparr>ir_indexHandlers := (ir_indexHandlers r1)(folder \<mapsto> h)\<rparr>))"

definition AddIndexInfo ::
  "('c \<Rightarrow> 'i \<Rightarrow> (string, indexHandler) result) \<Rightarrow> string \<Rightarrow> 'i \<Rightarrow> ('c, 'i) indexHandlerRegistry \<Rightarrow> ('c, 'i) indexHandlerRegistry" where
  "AddIndexInfo start folder info r =
     (let r1 = r\<lparr>ir_indexHandlers := (ir_indexHandlers r)(folder := None)\<rparr>
      in (case ir_folderStates r1 folder of
            None \<Rightarrow> r1\<lparr>ir_startInfos := (ir_startInfos r1)(folder \<mapsto> info)\<rparr>
          | Some cfg \<Rightarrow> startLocked start folder cfg info r1))"

definition registry_Remove :: "string \<Rightarrow> ('c, 'i) indexHandlerRegistry \<Rightarrow> ('c, 'i) indexHandlerRegistry" where
  "registry_Remove folder r =
     r\<lparr>ir_indexHandlers := (ir_indexHandlers r)(folder := None), ir_startInfos := (ir_startInfos r)(folder := None)\<rparr>"

definition RemoveAllExcept :: "string set \<Rightarrow> ('c, 'i) indexHandlerRegistry \<Rightarrow> ('c, 'i) indexHandlerRegistry" where
  "RemoveAllExcept except r =
     r\<lparr>ir_indexHandlers := ir_indexHandlers r |` except, ir_startInfos := ir_startInfos r |` except\<rparr>"

definition folderPausedLocked :: "string \<Rightarrow> ('c, 'i) indexHandlerRegistry \<Rightarrow> ('c, 'i) indexHandlerRegistry" where
  "folderPausedLocked folder r =
     (let r1 = r\<lparr>ir_folderStates := (ir_folderStates r)(folder := None)\<rparr>
      in (case ir_indexHandlers r1 folder of
            Some h \<Rightarrow> r1\<lparr>ir_indexHandlers := (ir_indexHandlers r1)(folder \<mapsto> handler_pause h)\<rparr>
          | None \<Rightarrow> r1))"

definition folderRunningLocked ::
  "('c \<Rightarrow> 'i \<Rightarrow> (string, indexHandler) result) \<Rightarrow> string \<Rightarrow> 'c \<Rightarrow> ('c, 'i) indexHandlerRegistry \<Rightarrow> ('c, 'i) indexHandlerRegistry" where
  "folderRunningLocked start folder cfg r =
     (let r1 = r\<lparr>ir_folderStates := (ir_folderStates r)(folder \<mapsto> cfg)\<rparr>
      in (case ir_startInfos r1 folder of
            Some info \<Rightarrow>
              (let r2 = startLocked start folder cfg info r1
               in r2\<lparr>ir_startInfos := (ir_startInfos r2)(folder := None)\<rparr>)
          | None \<Rightarrow>
              (case ir_indexHandlers r1 folder of
                 Some h \<Rightarrow> r1\<lparr>ir_indexHandlers := (ir_indexHandlers r1)(folder \<mapsto> handler_resume h)\<rparr>
               | None \<Rightarrow> r1)))"

definition RegisterFolderState ::
  "('c \<Rightarrow> 'i \<Rightarrow> (string, indexHandler) result) \<Rightarrow> bool \<Rightarrow> bool \<Rightarrow> string \<Rightarrow> 'c \<Rightarrow> ('c, 'i) indexHandlerRegistry \<Rightarrow> ('c, 'i) indexHandlerRegistry" where
  "RegisterFolderState start shared paused folder cfg r =
     (if \<not> shared then registry_Remove folder r
      else if paused then folderPausedLocked folder r
      else folderRunningLocked start folder cfg r)"

definition ReceiveIndex ::
  "db_params \<Rightarrow> int \<Rightarrow> string \<Rightarrow> FileInfo list \<Rightarrow> bool \<Rightarrow> int \<Rightarrow> int \<Rightarrow> ('c, 'i) indexHandlerRegistry \<Rightarrow> index_db
     \<Rightarrow> receive_error option \<times> seq_anomaly list \<times> index_db \<times> FileDownloadProgressUpdate list" where
  "ReceiveIndex p dev folder fs update prevSequence lastSequence r s =
     (case ir_indexHandlers r folder of
        None \<Rightarrow> (Some ErrFolderMissing, [], s, [])
      | Some h \<Rightarrow> receive p dev h fs update prevSequence lastSequence s)"

section \<open>The handlers follow their folders\<close>

text \<open>\<open>'c\<close> configurations, \<open>'i\<close> start informations.\<close>

datatype ('c, 'i) registry_op = OpAdd string 'i | OpRemove string | OpRemoveAllExcept "string set" | OpRegister bool bool string 'c

fun registry_step ::
  "('c \<Rightarrow> 'i \<Rightarrow> (string, indexHandler) result) \<Rightarrow> ('c, 'i) indexHandlerRegistry \<Rightarrow> ('c, 'i) registry_op \<Rightarrow> ('c, 'i) indexHandlerRegistry" where
  "registry_step start r (OpAdd folder info) = AddIndexInfo start folder info r"
| "registry_step start r (OpRemove folder) = registry_Remove folder r"
| "registry_step start r (OpRemoveAllExcept except) = RemoveAllExcept except r"
| "registry_step start r (OpRegister shared paused folder cfg) = RegisterFolderState start shared paused folder cfg r"

definition newIndexHandlerRegistry :: "('c, 'i) indexHandlerRegistry" where
  "newIndexHandlerRegistry = \<lparr>ir_indexHandlers = Map.empty, ir_startInfos = Map.empty, ir_folderStates = Map.empty\<rparr>"

definition registry_inv :: "('c, 'i) indexHandlerRegistry \<Rightarrow> bool" where
  "registry_inv r \<longleftrightarrow> (\<forall>f.
     (\<forall>h. ir_indexHandlers r f = Some h \<longrightarrow> ir_startInfos r f = None \<and> (ih_paused h \<longleftrightarrow> ir_folderStates r f = None))
     \<and> (ir_startInfos r f \<noteq> None \<longrightarrow> ir_folderStates r f = None))"

definition folder_inv :: "indexHandler option \<Rightarrow> 'i option \<Rightarrow> 'c option \<Rightarrow> bool" where
  "folder_inv oh oi oc \<longleftrightarrow>
     (\<forall>h. oh = Some h \<longrightarrow> oi = None \<and> (ih_paused h \<longleftrightarrow> oc = None)) \<and> (oi \<noteq> None \<longrightarrow> oc = None)"

lemma folder_inv_simps [simp]:
  "folder_inv None None oc"
  "folder_inv (Some h) None oc \<longleftrightarrow> (ih_paused h \<longleftrightarrow> oc = None)"
  "folder_inv None (Some i) oc \<longleftrightarrow> oc = None"
  "\<not> folder_inv (Some h) (Some i) oc"
  by (auto simp: folder_inv_def)

lemma registry_inv_iff:
  "registry_inv r \<longleftrightarrow> (\<forall>f. folder_inv (ir_indexHandlers r f) (ir_startInfos r f) (ir_folderStates r f))"
  by (simp add: registry_inv_def folder_inv_def)

lemma folder_inv_drop: "folder_inv oh oi oc \<Longrightarrow> folder_inv None oi oc"
  by (cases oi; cases oh) auto

lemma startLocked_inv:
  assumes "\<And>c i h. start c i = Inr h \<Longrightarrow> \<not> ih_paused h" and "registry_inv (r\<lparr>ir_indexHandlers := (ir_indexHandlers r)(folder := None),
     ir_startInfos := (ir_startInfos r)(folder := None)\<rparr>)" and "ir_folderStates r folder \<noteq> None"
  shows "registry_inv (startLocked start folder cfg info r)"
proof -
  from assms(2) have at: "folder_inv (ir_indexHandlers r f) (ir_startInfos r f) (ir_folderStates r f)" if "f \<noteq> folder" for f
    using that by (auto simp: registry_inv_iff dest: spec [of _ f])
  show ?thesis using assms(1,3) at by (cases "start cfg info") (auto simp: startLocked_def registry_inv_iff)
qed

lemma registry_inv_no_start:
  assumes "registry_inv q" and "ir_startInfos q folder = None"
  shows "registry_inv (q\<lparr>ir_startInfos := (ir_startInfos q)(folder := None)\<rparr>)"
proof -
  have "(ir_startInfos q)(folder := None) = ir_startInfos q" using assms(2) by (rule fun_upd_idem)
  then show ?thesis using assms(1) by simp
qed

lemma registry_step_inv:
  assumes start: "\<And>c i h. start c i = Inr h \<Longrightarrow> \<not> ih_paused h" and inv: "registry_inv r"
  shows "registry_inv (registry_step start r ev)"
proof (cases ev)
  case (OpAdd folder info)
  show ?thesis
  proof (cases "ir_folderStates r folder")
    case None
    then show ?thesis using inv unfolding OpAdd by (simp add: AddIndexInfo_def registry_inv_iff)
  next
    case (Some cfg)
    have "registry_inv (startLocked start folder cfg info (r\<lparr>ir_indexHandlers := (ir_indexHandlers r)(folder := None)\<rparr>))"
      by (rule startLocked_inv [OF start]) (use inv Some in \<open>simp_all add: registry_inv_iff\<close>)
    then show ?thesis using Some unfolding OpAdd by (simp add: AddIndexInfo_def)
  qed
next
  case (OpRemove folder)
  then show ?thesis using inv by (simp add: registry_inv_iff registry_Remove_def)
next
  case (OpRemoveAllExcept except)
  then show ?thesis using inv by (simp add: registry_inv_iff RemoveAllExcept_def restrict_map_def)
next
  case (OpRegister shared paused folder cfg)
  have at: "folder_inv (ir_indexHandlers r f) (ir_startInfos r f) (ir_folderStates r f)" for f
    using inv by (simp add: registry_inv_iff)
  have paused: "registry_inv (folderPausedLocked folder r)"
    using at at [of folder]
    by (cases "ir_indexHandlers r folder"; cases "ir_startInfos r folder")
      (simp_all add: registry_inv_iff folderPausedLocked_def handler_pause_def)
  have running: "registry_inv (folderRunningLocked start folder cfg r)"
  proof (cases "ir_startInfos r folder")
    case None
    then show ?thesis using at at [of folder]
      by (cases "ir_indexHandlers r folder") (simp_all add: registry_inv_iff folderRunningLocked_def handler_resume_def)
  next
    case (Some info)
    let ?r1 = "r\<lparr>ir_folderStates := (ir_folderStates r)(folder \<mapsto> cfg)\<rparr>"
    have "registry_inv (startLocked start folder cfg info ?r1)"
      by (rule startLocked_inv [OF start]) (use at in \<open>simp_all add: registry_inv_iff\<close>)
    moreover have "ir_startInfos (startLocked start folder cfg info ?r1) folder = None"
      by (simp add: startLocked_def Let_def split: sum.split)
    ultimately show ?thesis using Some by (simp add: folderRunningLocked_def Let_def registry_inv_no_start)
  qed
  show ?thesis unfolding OpRegister using inv paused running
    by (simp add: RegisterFolderState_def registry_inv_iff registry_Remove_def)
qed

text \<open>C24. After any sequence of cluster configurations and changes of folders, the handlers of a
  connection fit the folders: a handler is paused exactly if its folder is not running, no folder has
  both a handler and a pending start, and a pending start waits for a folder that is not running; so an
  index is only accepted for a folder that runs.\<close>

theorem registry_consistent:
  assumes "\<And>c i h. start c i = Inr h \<Longrightarrow> \<not> ih_paused h" and "r = foldl (registry_step start) newIndexHandlerRegistry ops"
  shows "registry_inv r \<and> (ir_folderStates r folder = None \<longrightarrow>
    (\<exists>e. ReceiveIndex p dev folder fs update prev lst r s = (Some e, [], s, []) \<and> e \<in> {ErrFolderMissing, ErrFolderPaused}))"
proof -
  have "registry_inv (foldl (registry_step start) r0 ops)" if "registry_inv r0" for r0
    using that by (induction ops arbitrary: r0) (simp_all add: registry_step_inv [OF assms(1)])
  then have inv: "registry_inv r" unfolding assms(2) by (simp add: registry_inv_def newIndexHandlerRegistry_def)
  then show ?thesis by (auto simp: registry_inv_def ReceiveIndex_def receive_def split: option.splits)
qed

theorem registry_consistent_witness:
  "registry_inv (foldl (registry_step (\<lambda>(c :: nat) (i :: nat). Inr \<lparr>ih_folder = ''f'', ih_folderIsReceiveEncrypted = False,
       ih_localPrevSequence = 0, ih_sentPrevSequence = 0, ih_paused = False\<rparr>)) newIndexHandlerRegistry
     [OpAdd ''f'' 1, OpRegister True False ''f'' 2, OpRegister True True ''f'' 3])"
proof -
  let ?start = "\<lambda>(c :: nat) (i :: nat). Inr \<lparr>ih_folder = ''f'', ih_folderIsReceiveEncrypted = False,
       ih_localPrevSequence = 0, ih_sentPrevSequence = 0, ih_paused = False\<rparr> :: (string, indexHandler) result"
  have fresh: "\<not> ih_paused h" if "?start c i = Inr h" for c i h using that by auto
  show ?thesis by (rule registry_consistent [of ?start, OF fresh refl, THEN conjunct1])
qed

text \<open>
  \<open>Serve\<close> says it has to send one index, whether there is something to send or not; \<open>sendIndexTo\<close>
  sends nothing when there is nothing.
\<close>

lemma empty_index_not_sent:
  "fdb_files (ixd_folder s) = [] \<Longrightarrow> sendIndexTo psize done conn s h = (None, h, [])"
  by (simp add: sendIndexTo_def AllLocalFilesBySequence_def map_filter_simps batch_Flush_def NewFileInfoBatch_def)

end
