(* ===== verification/IndexExchange.thy ===== *)
theory IndexExchange
  imports IndexHandler
begin

text \<open>
  The exchange of an index between two devices, from the database of the one through its index handler
  and the connection into the database of the other: what the receiving device knows when everything
  has arrived, across local changes, lost connections and a reset of the sending database.
\<close>

section \<open>The local files of a database\<close>

text \<open>The stored records fit their rows, and block lists that rows refer to are there.\<close>

definition infos_ok :: "folderDB \<Rightarrow> bool" where
  "infos_ok db \<longleftrightarrow> (\<forall>r \<in> set (fdb_files db). fr_DeviceIdx r = fdb_localDeviceIdx db \<longrightarrow>
     0 < fr_Sequence r
     \<and> (\<exists>fi. fdb_fileinfos db (fr_Sequence r) = Some fi \<and> fi_Name fi = fr_Name r \<and> fi_Sequence fi = fr_Sequence r)
     \<and> (\<forall>h. fr_BlocklistHash r = Some h \<longrightarrow> fdb_blocklists db h \<noteq> None))"

definition info_of :: "folderDB \<Rightarrow> fileRow \<Rightarrow> FileInfo" where
  "info_of db r = the (indirect_FileInfo db r)"

abbreviation local_rows :: "folderDB \<Rightarrow> fileRow list" where
  "local_rows db \<equiv> filter (\<lambda>r. fr_DeviceIdx r = fdb_localDeviceIdx db) (fdb_files db)"

definition local_files :: "folderDB \<Rightarrow> FileInfo list" where
  "local_files db = AllLocalFilesBySequence (fdb_localDeviceIdx db) 1 0 db"

lemma info_of_sel:
  assumes "infos_ok db" and "r \<in> set (local_rows db)"
  shows "indirect_FileInfo db r = Some (info_of db r)" and "fi_Name (info_of db r) = fr_Name r"
    and "fi_Sequence (info_of db r) = fr_Sequence r" and "0 < fr_Sequence r"
proof -
  obtain fi where "0 < fr_Sequence r" "fdb_fileinfos db (fr_Sequence r) = Some fi" "fi_Name fi = fr_Name r" "fi_Sequence fi = fr_Sequence r"
    using assms by (auto simp: infos_ok_def)
  then show "indirect_FileInfo db r = Some (info_of db r)" and "fi_Name (info_of db r) = fr_Name r"
    and "fi_Sequence (info_of db r) = fr_Sequence r" and "0 < fr_Sequence r"
    by (auto simp: info_of_def indirect_FileInfo_def split: option.splits)
qed

lemma map_filter_all: "(\<And>x. x \<in> set xs \<Longrightarrow> f x = Some (g x)) \<Longrightarrow> List.map_filter f xs = map g xs"
  by (induction xs) (auto simp: map_filter_simps)

lemma sorted_key_strict:
  fixes key :: "'a \<Rightarrow> 'b::linorder"
  shows "distinct (map key xs) \<Longrightarrow> sorted_wrt (<) (map key (sort_key key xs))"
proof -
  assume d: "distinct (map key xs)"
  have "distinct xs" using d by (auto simp: distinct_map)
  then have "distinct (map key (sort_key key xs))" using d by (simp add: distinct_map)
  then show ?thesis using sorted_sort_key [of key xs] by (simp add: strict_sorted_iff)
qed

lemma files_by_sequence:
  assumes "keys_ok db" and "infos_ok db" and "1 \<le> start"
  shows "AllLocalFilesBySequence (fdb_localDeviceIdx db) start 0 db = filter (\<lambda>f. fi_Sequence f \<ge> start) (local_files db)"
    and "set (local_files db) = info_of db ` set (local_rows db)"
    and "sorted_wrt (<) (map fi_Sequence (local_files db))"
    and "distinct (map fi_Name (local_files db))"
proof -
  let ?s = "\<lambda>q. sort_key fr_Sequence (filter (\<lambda>r. fr_Sequence r \<ge> q) (local_rows db))"
  have all: "AllLocalFilesBySequence (fdb_localDeviceIdx db) q 0 db = map (info_of db) (?s q)" for q
  proof -
    have "List.map_filter (indirect_FileInfo db) (?s q) = map (info_of db) (?s q)"
      by (rule map_filter_all) (use info_of_sel(1) [OF assms(2)] in auto)
    then show ?thesis by (simp add: AllLocalFilesBySequence_def filter_filter conj_commute)
  qed
  have one: "?s 1 = sort_key fr_Sequence (local_rows db)"
    using info_of_sel(4) [OF assms(2)] by (intro arg_cong [where f = "sort_key fr_Sequence"] filter_True) force
  have L: "local_files db = map (info_of db) (sort_key fr_Sequence (local_rows db))" unfolding local_files_def all one ..
  have sq: "map fi_Sequence (map (info_of db) (sort_key fr_Sequence rs)) = map fr_Sequence (sort_key fr_Sequence rs)"
    if "set rs \<subseteq> set (local_rows db)" for rs
    using info_of_sel(3) [OF assms(2)] that by (auto simp: comp_def)
  have "?s start = filter (\<lambda>r. fr_Sequence r \<ge> start) (sort_key fr_Sequence (local_rows db))" by (simp add: filter_sort)
  also have "\<dots> = filter (\<lambda>r. fi_Sequence (info_of db r) \<ge> start) (sort_key fr_Sequence (local_rows db))"
    by (rule filter_cong [OF refl]) (use info_of_sel(3) [OF assms(2)] in simp)
  finally show "AllLocalFilesBySequence (fdb_localDeviceIdx db) start 0 db = filter (\<lambda>f. fi_Sequence f \<ge> start) (local_files db)"
    unfolding all L filter_map comp_def by (rule arg_cong)
  show "set (local_files db) = info_of db ` set (local_rows db)" unfolding L by simp
  have "distinct (map fr_Sequence (local_rows db))" using assms(1) by (simp add: keys_ok_def distinct_map_filter)
  then show "sorted_wrt (<) (map fi_Sequence (local_files db))"
    unfolding L by (subst sq) (simp_all add: sorted_key_strict)
  have "distinct (map (\<lambda>r. (fr_DeviceIdx r, fr_Name r)) (local_rows db))" using assms(1) by (simp add: keys_ok_def distinct_map_filter)
  then have d: "distinct (local_rows db)" "inj_on fr_Name (set (local_rows db))" by (auto simp: distinct_map inj_on_def)
  have "map fi_Name (local_files db) = map fr_Name (sort_key fr_Sequence (local_rows db))"
    unfolding L using info_of_sel(2) [OF assms(2)] by auto
  then show "distinct (map fi_Name (local_files db))" using d by (simp add: distinct_map)
qed

section \<open>Changes of the sending database\<close>

definition snd_ok :: "(string \<Rightarrow> string) \<Rightarrow> index_db \<Rightarrow> bool" where
  "snd_ok norm s \<longleftrightarrow> keys_ok (ixd_folder s) \<and> infos_ok (ixd_folder s)
     \<and> (\<forall>f \<in> set (local_files (ixd_folder s)). norm (fi_Name f) = fi_Name f)
     \<and> (\<exists>i q. ixd_ids s (fdb_localDeviceIdx (ixd_folder s)) = Some (Some i, q) \<and> i \<noteq> 0 \<and> 0 \<le> q \<and> q \<le> fdb_seq (ixd_folder s)
          \<and> (\<forall>f \<in> set (local_files (ixd_folder s)). fi_Sequence f \<le> q))"

abbreviation my_id :: "index_db \<Rightarrow> uint64" where
  "my_id s \<equiv> the (fst (the (ixd_ids s (fdb_localDeviceIdx (ixd_folder s)))))"

abbreviation my_seq :: "index_db \<Rightarrow> int" where
  "my_seq s \<equiv> GetDeviceSequence (fdb_localDeviceIdx (ixd_folder s)) s"

text \<open>New entries have sequence numbers above all that were given out before.\<close>

definition grows :: "(string \<Rightarrow> string) \<Rightarrow> index_db \<Rightarrow> index_db \<Rightarrow> bool" where
  "grows norm s s' \<longleftrightarrow> snd_ok norm s' \<and> my_id s' = my_id s \<and> my_seq s \<le> my_seq s'
     \<and> (\<forall>f \<in> set (local_files (ixd_folder s')). f \<in> set (local_files (ixd_folder s)) \<or> my_seq s < fi_Sequence f)"

lemma noflags_hash: "noflags r = noflags r' \<Longrightarrow> fr_BlocklistHash r = fr_BlocklistHash r'"
  by (metis fileRow.select_convs fileRow.surjective fileRow.update_convs)

lemma indirect_noflags: "noflags r = noflags r' \<Longrightarrow> indirect_FileInfo db r = indirect_FileInfo db r'"
  using noflags_hash [of r r'] noflags_sel(3) [of r r'] by (simp add: indirect_FileInfo_def)

text \<open>What one file of an update does to the rows, the records and the block lists.\<close>

lemma update_one_frame:
  fixes f :: FileInfo
  defines "new d db p \<equiv> row_of d (fdb_localDeviceIdx db) (fdb_seq db + 1) (stored_form p f)"
  shows "map noflags (fdb_files (update_one p d f db)) = map noflags (filter (\<lambda>r. \<not> collides (new d db p) r) (fdb_files db) @ [new d db p])"
    and "fdb_seq (update_one p d f db) = fdb_seq db + 1"
    and "fdb_localDeviceIdx (update_one p d f db) = fdb_localDeviceIdx db"
    and "keys_ok db \<Longrightarrow> keys_ok (update_one p d f db)"
    and "fdb_blocklists db h = Some bs \<Longrightarrow> fdb_blocklists (update_one p d f db) h = Some bs"
    and "fr_BlocklistHash (new d db p) = Some h \<Longrightarrow> fdb_blocklists (update_one p d f db) h \<noteq> None"
proof -
  obtain db3 where u: "update_one p d f db = recalcGlobalForFile (dbp_sort p) (dbp_normalize p (fi_Name f)) db3"
    and f3: "fdb_files db3 = fdb_files (insert_file (new d db p) db)" and q: "fdb_seq db3 = fdb_seq db + 1"
    and l: "fdb_localDeviceIdx db3 = fdb_localDeviceIdx db"
    using update_one_files unfolding new_def by blast
  show "map noflags (fdb_files (update_one p d f db)) = map noflags (filter (\<lambda>r. \<not> collides (new d db p) r) (fdb_files db) @ [new d db p])"
    "fdb_seq (update_one p d f db) = fdb_seq db + 1" "fdb_localDeviceIdx (update_one p d f db) = fdb_localDeviceIdx db"
    unfolding u recalc_frame f3 q l by (simp_all add: insert_file_def Let_def)
  show "keys_ok (update_one p d f db)" if "keys_ok db"
  proof -
    have "keys_ok (insert_file (new d db p) db)" by (rule insert_file_keys [OF that]) (simp add: new_def)
    then have "keys_ok db3" using f3 q by (simp add: keys_ok_def insert_file_def Let_def new_def)
    then show ?thesis unfolding u keys_ok_noflags [OF recalc_frame(1,2)] .
  qed
  have bl: "fdb_blocklists (update_one p d f db) =
      (if length (fi_Blocks (stored_form p f)) > 0 \<and> fdb_blocklists db (fi_BlocksHash (stored_form p f)) = None
       then (fdb_blocklists db)(fi_BlocksHash (stored_form p f) \<mapsto> fi_Blocks (stored_form p f)) else fdb_blocklists db)"
    by (simp add: update_one_def Let_def recalcGlobalForFile_def insert_file_def insertBlocksLocked_def split: option.splits)
  show "fdb_blocklists (update_one p d f db) h = Some bs" if "fdb_blocklists db h = Some bs" unfolding bl using that by auto
  show "fdb_blocklists (update_one p d f db) h \<noteq> None" if "fr_BlocklistHash (new d db p) = Some h"
    unfolding bl using that by (auto simp: new_def row_of_def split: if_splits)
qed

lemma update_one_local:
  assumes k: "keys_ok db" and i: "infos_ok db" and pos: "0 \<le> fdb_seq db"
  shows "infos_ok (update_one p d f db)"
    and "g \<in> set (local_files (update_one p d f db)) \<Longrightarrow>
      g \<in> set (local_files db) \<or> d = fdb_localDeviceIdx db \<and> fi_Sequence g = fdb_seq db + 1 \<and> fi_Name g = dbp_normalize p (fi_Name f)"
proof -
  let ?u = "update_one p d f db" and ?l = "fdb_localDeviceIdx db"
  let ?new = "row_of d ?l (fdb_seq db + 1) (stored_form p f)"
  note fr = update_one_frame [where p = p and d = d and f = f and db = db]
  have kept: "(\<exists>r' \<in> set (fdb_files db). \<not> collides ?new r' \<and> noflags r = noflags r') \<or> noflags r = noflags ?new"
    if r: "r \<in> set (fdb_files ?u)" for r
  proof -
    have "noflags r \<in> set (map noflags (fdb_files ?u))" using r by simp
    then show ?thesis unfolding fr(1) by auto
  qed
  have old: "fdb_fileinfos ?u (fr_Sequence r') = fdb_fileinfos db (fr_Sequence r')"
    if "r' \<in> set (fdb_files db)" "\<not> collides ?new r'" for r'
  proof -
    have "fr_Sequence r' \<notin> set (map fr_Sequence (filter (collides ?new) (fdb_files db)))"
      using keys_ok_seq_inj [OF k that(1)] that(2) by auto
    moreover have "fr_Sequence r' \<noteq> fdb_seq db + 1" using k that(1) by (auto simp: keys_ok_def)
    ultimately show ?thesis unfolding update_one_fileinfos by (simp add: insert_file_def Let_def)
  qed
  have new: "fdb_fileinfos ?u (fdb_seq db + 1) = Some ((stored_form p f)\<lparr>fi_Blocks := [], fi_Sequence := fdb_seq db + 1\<rparr>)" if "d = ?l"
    using that unfolding update_one_fileinfos by simp
  have ind: "indirect_FileInfo ?u r' = indirect_FileInfo db r'"
    if r': "r' \<in> set (fdb_files db)" "\<not> collides ?new r'" "fr_DeviceIdx r' = ?l" for r'
  proof (cases "fr_BlocklistHash r'")
    case (Some h)
    then obtain bs where "fdb_blocklists db h = Some bs" using i r' unfolding infos_ok_def by blast
    then show ?thesis using Some fr(5) old [OF r'(1,2)] by (simp add: indirect_FileInfo_def)
  qed (use old [OF r'(1,2)] in \<open>simp add: indirect_FileInfo_def\<close>)
  show iok: "infos_ok ?u"
    unfolding infos_ok_def fr(3)
  proof (intro ballI impI)
    fix r assume r: "r \<in> set (fdb_files ?u)" "fr_DeviceIdx r = ?l"
    let ?goal = "\<lambda>r. 0 < fr_Sequence r
      \<and> (\<exists>fi. fdb_fileinfos ?u (fr_Sequence r) = Some fi \<and> fi_Name fi = fr_Name r \<and> fi_Sequence fi = fr_Sequence r)
      \<and> (\<forall>h. fr_BlocklistHash r = Some h \<longrightarrow> fdb_blocklists ?u h \<noteq> None)"
    have goal_cong: "?goal r' \<Longrightarrow> ?goal r" if e: "noflags r = noflags r'" for r'
      using noflags_sel(1,3) [OF e] noflags_hash [OF e] by simp
    from kept [OF r(1)] show "?goal r"
    proof (elim disjE bexE conjE)
      fix r' assume r': "r' \<in> set (fdb_files db)" "\<not> collides ?new r'" "noflags r = noflags r'"
      have loc: "fr_DeviceIdx r' = ?l" using noflags_sel(2) [OF r'(3)] r(2) by simp
      then have "0 < fr_Sequence r' \<and> (\<exists>fi. fdb_fileinfos db (fr_Sequence r') = Some fi \<and> fi_Name fi = fr_Name r' \<and> fi_Sequence fi = fr_Sequence r')
        \<and> (\<forall>h. fr_BlocklistHash r' = Some h \<longrightarrow> fdb_blocklists db h \<noteq> None)"
        using i r'(1) unfolding infos_ok_def by blast
      then have "?goal r'" using fr(5) old [OF r'(1,2)] by fastforce
      then show "?goal r" by (rule goal_cong [OF r'(3)])
    next
      assume e: "noflags r = noflags ?new"
      then have "d = ?l" using noflags_sel(2) [OF e] r(2) by simp
      then have "?goal ?new" using new fr(6) pos by simp
      then show "?goal r" by (rule goal_cong [OF e])
    qed
  qed
  assume g: "g \<in> set (local_files ?u)"
  then obtain r where r: "r \<in> set (local_rows ?u)" "g = info_of ?u r"
    using files_by_sequence(2) [OF fr(4) [OF k] iok, of 1] by auto
  have rin: "r \<in> set (fdb_files ?u)" using r(1) by simp
  from kept [OF rin] show "g \<in> set (local_files db) \<or> d = ?l \<and> fi_Sequence g = fdb_seq db + 1 \<and> fi_Name g = dbp_normalize p (fi_Name f)"
  proof (elim disjE bexE conjE)
    fix r' assume r': "r' \<in> set (fdb_files db)" "\<not> collides ?new r'" "noflags r = noflags r'"
    have loc: "fr_DeviceIdx r' = ?l" using noflags_sel(2) [OF r'(3)] r(1) fr(3) by simp
    have "g = info_of db r'" using r(2) indirect_noflags [OF r'(3), of ?u] ind [OF r'(1,2) loc] by (simp add: info_of_def)
    then show ?thesis using r'(1) loc files_by_sequence(2) [OF k i, of 1] by simp
  next
    assume e: "noflags r = noflags ?new"
    note sel = info_of_sel(2,3) [OF iok r(1)]
    show ?thesis using noflags_sel(1,2,3) [OF e] r sel fr(3) by simp
  qed
qed

lemma update_loop_local:
  assumes "update_loop p d prev fs db = Inr db'" and "keys_ok db" and "infos_ok db" and "0 \<le> fdb_seq db"
  shows "keys_ok db' \<and> infos_ok db' \<and> fdb_localDeviceIdx db' = fdb_localDeviceIdx db \<and> fdb_seq db \<le> fdb_seq db'
    \<and> (\<forall>g \<in> set (local_files db'). g \<in> set (local_files db)
         \<or> d = fdb_localDeviceIdx db \<and> fs \<noteq> [] \<and> fdb_seq db < fi_Sequence g \<and> fi_Sequence g \<le> fdb_seq db' \<and> (\<exists>x. fi_Name g = dbp_normalize p x))"
  using assms
proof (induction fs arbitrary: prev db)
  case (Cons f fs)
  let ?u = "update_one p d f db"
  note fr = update_one_frame(2,3) [where p = p and d = d and f = f and db = db]
    update_one_frame(4) [where p = p and d = d and f = f and db = db, OF Cons.prems(2)]
  note loc = update_one_local [OF Cons.prems(2-4)]
  have "update_loop p d (Some (fi_Sequence f)) fs ?u = Inr db'" using Cons.prems(1) by (simp split: if_splits)
  note IH = Cons.IH [OF this fr(3) loc(1)]
  have nn: "0 \<le> fdb_seq ?u" using fr(1) Cons.prems(4) by simp
  have "g \<in> set (local_files db) \<or> d = fdb_localDeviceIdx db \<and> fdb_seq db < fi_Sequence g \<and> fi_Sequence g \<le> fdb_seq db' \<and> (\<exists>x. fi_Name g = dbp_normalize p x)"
    if g: "g \<in> set (local_files db')" for g
  proof (cases "g \<in> set (local_files ?u)")
    case True
    then show ?thesis using loc(2) [OF True] IH [OF nn] fr by auto
  next
    case False
    then show ?thesis using IH [OF nn] g fr by fastforce
  qed
  then show ?case using IH [OF nn] fr by auto
qed simp

lemma update_grows:
  assumes ok: "snd_ok norm s" and norm: "\<And>x. norm (dbp_normalize p x) = dbp_normalize p x"
    and upd: "ixd_Update p d fs s = (s', None)"
  shows "grows norm s s'"
proof -
  let ?db = "ixd_folder s" and ?l = "fdb_localDeviceIdx (ixd_folder s)"
  obtain i q where id: "ixd_ids s ?l = Some (Some i, q)" "i \<noteq> 0" "0 \<le> q" "q \<le> fdb_seq ?db" "\<forall>f \<in> set (local_files ?db). fi_Sequence f \<le> q"
    using ok unfolding snd_ok_def by blast
  have k: "keys_ok ?db" "infos_ok ?db" using ok by (auto simp: snd_ok_def)
  obtain db' where u: "update_loop p d None fs ?db = Inr db'"
    using upd by (auto simp: ixd_Update_def folderDB_Update_def split: sum.splits)
  note loc = update_loop_local [OF u k]
  have nn: "0 \<le> fdb_seq ?db" using id by simp
  have s': "s' = s\<lparr>ixd_folder := db', ixd_ids := (if fs = [] then ixd_ids s
      else indexids_seq d (if d = fdb_localDeviceIdx db' then fdb_seq db' else fi_Sequence (last fs)) (ixd_ids s))\<rparr>"
    using upd u by (simp add: ixd_Update_def folderDB_Update_def)
  have l': "fdb_localDeviceIdx db' = ?l" using loc [OF nn] by simp
  let ?q = "if fs \<noteq> [] \<and> d = ?l then fdb_seq db' else q"
  have ids: "ixd_ids s' ?l = Some (Some i, ?q)"
    using id(1) l' unfolding s' by (auto simp: indexids_seq_def)
  have qq: "q \<le> ?q" "?q \<le> fdb_seq db'" using loc [OF nn] id(4) by auto
  have files: "\<forall>g \<in> set (local_files db'). g \<in> set (local_files ?db) \<or> q < fi_Sequence g \<and> fi_Sequence g \<le> ?q \<and> (\<exists>x. fi_Name g = dbp_normalize p x)"
    using loc [OF nn] id(4) by fastforce
  have "snd_ok norm s'"
    unfolding snd_ok_def
  proof (intro conjI)
    show "\<forall>f \<in> set (local_files (ixd_folder s')). norm (fi_Name f) = fi_Name f"
      using files ok norm unfolding s' by (auto simp: snd_ok_def)
    have "\<forall>f \<in> set (local_files db'). fi_Sequence f \<le> ?q" using files id(5) qq by fastforce
    then show "\<exists>i q. ixd_ids s' (fdb_localDeviceIdx (ixd_folder s')) = Some (Some i, q) \<and> i \<noteq> 0 \<and> 0 \<le> q \<and> q \<le> fdb_seq (ixd_folder s')
        \<and> (\<forall>f \<in> set (local_files (ixd_folder s')). fi_Sequence f \<le> q)"
      using ids id qq l' unfolding s' by (intro exI [of _ i] exI [of _ ?q]) simp
  qed (use loc [OF nn] in \<open>simp_all add: s'\<close>)
  moreover have "my_seq s = q" "my_seq s' = ?q" "my_id s' = my_id s"
    using ids id(1) l' unfolding s' by (simp_all add: GetDeviceSequence_def)
  ultimately show ?thesis using files qq(1) unfolding grows_def s' by auto
qed

lemma grows_refl: "snd_ok norm s \<Longrightarrow> grows norm s s"
  by (simp add: grows_def)

text \<open>Dropping what another device announced does not touch the local files.\<close>

lemma drop_local_files:
  assumes k: "keys_ok db" and i: "infos_ok db" and d: "d \<noteq> fdb_localDeviceIdx db"
  shows "keys_ok (DropAllFiles p d db) \<and> infos_ok (DropAllFiles p d db) \<and> fdb_localDeviceIdx (DropAllFiles p d db) = fdb_localDeviceIdx db
    \<and> fdb_seq (DropAllFiles p d db) = fdb_seq db \<and> set (local_files (DropAllFiles p d db)) \<subseteq> set (local_files db)"
proof -
  let ?del = "delete_files (\<lambda>r. fr_DeviceIdx r = d) db" and ?l = "fdb_localDeviceIdx db" and ?u = "DropAllFiles p d db"
  have rec: "map noflags (fdb_files (recalc_names s ns db0)) = map noflags (fdb_files db0) \<and> fdb_seq (recalc_names s ns db0) = fdb_seq db0
      \<and> fdb_localDeviceIdx (recalc_names s ns db0) = fdb_localDeviceIdx db0 \<and> fdb_fileinfos (recalc_names s ns db0) = fdb_fileinfos db0
      \<and> fdb_blocklists (recalc_names s ns db0) = fdb_blocklists db0" for s ns db0
    unfolding recalc_names_def
    by (induction ns arbitrary: db0) (simp_all add: recalc_frame, simp add: recalcGlobalForFile_def Let_def)
  have fr: "map noflags (fdb_files ?u) = map noflags (fdb_files ?del)" "fdb_seq ?u = fdb_seq ?del" "fdb_localDeviceIdx ?u = ?l"
    "fdb_fileinfos ?u = fdb_fileinfos ?del" "fdb_blocklists ?u = fdb_blocklists db" "fdb_seq ?del = fdb_seq db"
    by (simp_all add: DropAllFiles_def Let_def recalcGlobalForFolder_def rec delete_files_def)
  have "keys_ok ?del" using k by (auto simp: delete_files_def intro: keys_ok_filter)
  then have k': "keys_ok ?u" unfolding keys_ok_noflags [OF fr(1,2)] .
  have kept: "\<exists>r' \<in> set (fdb_files db). fr_DeviceIdx r' = ?l \<and> noflags r = noflags r'
      \<and> fdb_fileinfos ?u (fr_Sequence r') = fdb_fileinfos db (fr_Sequence r')" if r: "r \<in> set (fdb_files ?u)" "fr_DeviceIdx r = ?l" for r
  proof -
    have "noflags r \<in> set (map noflags (fdb_files ?del))" using r(1) unfolding fr(1) [symmetric] by simp
    then obtain r' where r': "r' \<in> set (fdb_files ?del)" "noflags r = noflags r'" by auto
    have in_db: "r' \<in> set (fdb_files db)" and loc: "fr_DeviceIdx r' = ?l"
      using r'(1) noflags_sel(2) [OF r'(2)] r(2) by (auto simp: delete_files_def)
    have "fr_Sequence r' \<notin> set (map fr_Sequence (filter (\<lambda>r. fr_DeviceIdx r = d) (fdb_files db)))"
      using keys_ok_seq_inj [OF k in_db] loc d by auto
    then have "fdb_fileinfos ?u (fr_Sequence r') = fdb_fileinfos db (fr_Sequence r')" unfolding fr(4) by (simp add: delete_files_def)
    then show ?thesis using in_db loc r'(2) by blast
  qed
  have i': "infos_ok ?u"
    unfolding infos_ok_def fr(3)
  proof (intro ballI impI)
    fix r assume r: "r \<in> set (fdb_files ?u)" "fr_DeviceIdx r = ?l"
    then obtain r' where r': "r' \<in> set (fdb_files db)" "fr_DeviceIdx r' = ?l" "noflags r = noflags r'"
      "fdb_fileinfos ?u (fr_Sequence r') = fdb_fileinfos db (fr_Sequence r')" using kept by blast
    show "0 < fr_Sequence r
      \<and> (\<exists>fi. fdb_fileinfos ?u (fr_Sequence r) = Some fi \<and> fi_Name fi = fr_Name r \<and> fi_Sequence fi = fr_Sequence r)
      \<and> (\<forall>h. fr_BlocklistHash r = Some h \<longrightarrow> fdb_blocklists ?u h \<noteq> None)"
      unfolding noflags_sel(1,3) [OF r'(3)] noflags_hash [OF r'(3)] r'(4) fr(5) using i r'(1,2) unfolding infos_ok_def by blast
  qed
  have "g \<in> set (local_files db)" if g: "g \<in> set (local_files ?u)" for g
  proof -
    obtain r where r: "r \<in> set (fdb_files ?u)" "fr_DeviceIdx r = ?l" "g = info_of ?u r"
      using g files_by_sequence(2) [OF k' i', of 1] fr(3) by auto
    obtain r' where r': "r' \<in> set (fdb_files db)" "fr_DeviceIdx r' = ?l" "noflags r = noflags r'"
      "fdb_fileinfos ?u (fr_Sequence r') = fdb_fileinfos db (fr_Sequence r')" using kept [OF r(1,2)] by blast
    have "g = info_of db r'" unfolding r(3) info_of_def indirect_noflags [OF r'(3)] by (simp add: indirect_FileInfo_def r'(4) fr(5))
    then show ?thesis using r'(1,2) files_by_sequence(2) [OF k i, of 1] by simp
  qed
  then show ?thesis using k' i' fr by auto
qed

section \<open>One round of sending\<close>

definition shareable :: "bool \<Rightarrow> FileInfo \<Rightarrow> bool" where
  "shareable enc f \<longleftrightarrow> \<not> (enc \<and> IsReceiveOnlyChanged f)"

lemma prepare_sel [simp]:
  "fi_Name (prepareFileInfoForIndex f) = fi_Name f" "fi_Sequence (prepareFileInfoForIndex f) = fi_Sequence f"
  "fi_Deleted (prepareFileInfoForIndex f) = fi_Deleted f"
  by (simp_all add: prepareFileInfoForIndex_def Let_def)

text \<open>The loop takes a prefix of the files, all of it unless the batch is full.\<close>

lemma send_loop_takes:
  assumes "sorted_wrt (<) (prev # map fi_Sequence fis)" and "fseq \<le> prev" and "fb_error batch = None"
  shows "\<exists>k batch'. send_loop psize enc fis batch fseq pwd prev = (Inr batch', last (prev # map fi_Sequence (take k fis)))
    \<and> fb_error batch' = None
    \<and> fb_infos batch' = fb_infos batch @ map prepareFileInfoForIndex (filter (shareable enc) (take k fis))
    \<and> (k = 0 \<longrightarrow> fis = [] \<or> batch_Full batch)"
  using assms
proof (induction fis arbitrary: batch fseq pwd prev)
  case (Cons fi fis)
  have lt: "prev < fi_Sequence fi" using Cons.prems(1) by simp
  have srt: "sorted_wrt (<) (fi_Sequence fi # map fi_Sequence fis)" using Cons.prems(1) by simp
  show ?case
  proof (cases "batch_Full batch \<and> (\<not> fi_Deleted fi \<or> pwd)")
    case True
    then show ?thesis using Cons.prems(3) by (intro exI [of _ 0]) auto
  next
    case False
    have ns: "\<not> fi_Sequence fi < prev + 1" "\<not> (0 < fseq \<and> fi_Sequence fi \<le> fseq)" using lt Cons.prems(2) by auto
    show ?thesis
    proof (cases "enc \<and> IsReceiveOnlyChanged fi")
      case True
      obtain k b' where "send_loop psize enc fis batch (fi_Sequence fi) pwd (fi_Sequence fi) = (Inr b', last (fi_Sequence fi # map fi_Sequence (take k fis)))"
        "fb_error b' = None" "fb_infos b' = fb_infos batch @ map prepareFileInfoForIndex (filter (shareable enc) (take k fis))"
        using Cons.IH [OF srt order_refl Cons.prems(3), of pwd] by blast
      moreover have "\<not> shareable enc fi" using True by (simp add: shareable_def)
      ultimately show ?thesis using True False ns by (intro exI [of _ "Suc k"] exI [of _ b']) auto
    next
      case share: False
      let ?f = "prepareFileInfoForIndex fi" and ?b = "batch\<lparr>fb_infos := fb_infos batch @ [prepareFileInfoForIndex fi],
        fb_size := fb_size batch + psize (prepareFileInfoForIndex fi)\<rparr>"
      have app: "batch_Append psize ?f batch = Some ?b" using Cons.prems(3) by (simp add: batch_Append_def)
      have fe: "fb_error ?b = None" using Cons.prems(3) by simp
      obtain k b' where "send_loop psize enc fis ?b (fi_Sequence fi) (fi_Deleted fi) (fi_Sequence fi)
          = (Inr b', last (fi_Sequence fi # map fi_Sequence (take k fis)))"
        "fb_error b' = None" "fb_infos b' = fb_infos ?b @ map prepareFileInfoForIndex (filter (shareable enc) (take k fis))"
        using Cons.IH [OF srt order_refl fe, of "fi_Deleted fi"] by blast
      moreover have "shareable enc fi" using share by (simp add: shareable_def)
      ultimately show ?thesis using share False ns app
        by (intro exI [of _ "Suc k"] exI [of _ b']) (auto simp: Let_def)
    qed
  qed
qed auto

definition msg_files :: "index_message \<Rightarrow> FileInfo list" where
  "msg_files m = (case m of SendIndex i \<Rightarrow> ix_Files i | SendIndexUpdate i \<Rightarrow> ix_Files i)"

definition msg_last :: "index_message \<Rightarrow> int" where
  "msg_last m = (case m of SendIndex i \<Rightarrow> ix_LastSequence i | SendIndexUpdate i \<Rightarrow> ix_LastSequence i)"

definition msg_prev :: "index_message \<Rightarrow> int" where
  "msg_prev m = (case m of SendIndex i \<Rightarrow> 0 | SendIndexUpdate i \<Rightarrow> ix_PrevSequence i)"

definition msg_full :: "index_message \<Rightarrow> bool" where
  "msg_full m = (case m of SendIndex i \<Rightarrow> True | SendIndexUpdate i \<Rightarrow> False)"

lemma last_key_in: "xs \<noteq> [] \<Longrightarrow> \<exists>x \<in> set xs. last (q # map key xs) = key x"
  by (rule bexI [of _ "last xs"]) (simp_all add: last_map)

lemma filter_le_take:
  fixes key :: "'a \<Rightarrow> int"
  shows "sorted_wrt (<) (q # map key xs) \<Longrightarrow> filter (\<lambda>x. key x \<le> last (q # map key (take k xs))) xs = take k xs"
proof (induction xs arbitrary: q k)
  case (Cons x xs)
  show ?case
  proof (cases k)
    case 0
    have "\<forall>y \<in> set (x # xs). \<not> key y \<le> q" using Cons.prems by auto
    then have "filter (\<lambda>y. key y \<le> q) (x # xs) = []" by (intro filter_False) blast
    then show ?thesis using 0 by simp
  next
    case (Suc j)
    let ?m = "last (key x # map key (take j xs))"
    have "key x \<le> ?m"
    proof (cases "take j xs = []")
      case False
      from last_key_in [OF this, of "key x" key] obtain y where y: "y \<in> set (take j xs)" "?m = key y" by blast
      then show ?thesis using Cons.prems in_set_takeD [OF y(1)] by force
    qed (metis last_ConsL list.simps(8) order_refl)
    moreover have "last (q # map key (take k (x # xs))) = ?m" using Suc by simp
    ultimately show ?thesis using Cons.IH [of "key x" j] Cons.prems Suc by (simp only: filter.simps if_True take_Suc_Cons) simp
  qed
qed simp

text \<open>
  What \<open>sendIndexTo\<close> sends when the connection takes it: at most one message, with the files that may
  be shared among the next ones, in order and without a gap.
\<close>

definition round_files :: "index_db \<Rightarrow> indexHandler \<Rightarrow> indexHandler \<Rightarrow> FileInfo list" where
  "round_files s h h' = filter (\<lambda>f. shareable (ih_folderIsReceiveEncrypted h) f \<and> ih_localPrevSequence h < fi_Sequence f
     \<and> fi_Sequence f \<le> ih_localPrevSequence h') (local_files (ixd_folder s))"

definition round_msg :: "index_db \<Rightarrow> indexHandler \<Rightarrow> indexHandler \<Rightarrow> index_message" where
  "round_msg s h h' =
     (let fs = map prepareFileInfoForIndex (round_files s h h')
      in if ih_localPrevSequence h = 0
         then SendIndex \<lparr>ix_Folder = ih_folder h, ix_Files = fs, ix_LastSequence = ih_sentPrevSequence h'\<rparr>
         else SendIndexUpdate \<lparr>ix_Folder = ih_folder h, ix_Files = fs, ix_LastSequence = ih_sentPrevSequence h',
                ix_PrevSequence = ih_sentPrevSequence h\<rparr>)"

definition round_ok :: "index_db \<Rightarrow> indexHandler \<Rightarrow> indexHandler \<Rightarrow> index_message list \<Rightarrow> bool" where
  "round_ok s h h' msgs \<longleftrightarrow>
     ih_folderIsReceiveEncrypted h' = ih_folderIsReceiveEncrypted h
     \<and> ih_localPrevSequence h \<le> ih_localPrevSequence h'
     \<and> ((\<exists>f \<in> set (local_files (ixd_folder s)). ih_localPrevSequence h < fi_Sequence f) \<longrightarrow> ih_localPrevSequence h < ih_localPrevSequence h')
     \<and> (ih_localPrevSequence h' = ih_localPrevSequence h \<or> ih_localPrevSequence h' \<le> my_seq s)
     \<and> (if round_files s h h' = [] then msgs = [] \<and> ih_sentPrevSequence h' = ih_sentPrevSequence h
        else msgs = [round_msg s h h'] \<and> ih_sentPrevSequence h' = fi_Sequence (last (round_files s h h')))"

lemma sendIndexTo_sends:
  assumes ok: "snd_ok norm s" and pos: "0 \<le> ih_localPrevSequence h"
  shows "\<exists>h' msgs. sendIndexTo psize False (\<lambda>_. None) s h = (None, h', msgs) \<and> round_ok s h h' msgs"
proof -
  let ?db = "ixd_folder s" and ?p = "ih_localPrevSequence h" and ?enc = "ih_folderIsReceiveEncrypted h"
  let ?L = "local_files ?db"
  have k: "keys_ok ?db" "infos_ok ?db" using ok by (auto simp: snd_ok_def)
  note L = files_by_sequence [OF k, of "?p + 1"]
  let ?F = "filter (\<lambda>f. fi_Sequence f \<ge> ?p + 1) ?L"
  have F: "AllLocalFilesBySequence (fdb_localDeviceIdx ?db) (?p + 1) (MaxBatchSizeFiles + 1) ?db = take (MaxBatchSizeFiles + 1) ?F"
    using L(1) pos by (simp add: AllLocalFilesBySequence_def Let_def)
  have srtL: "sorted_wrt (<) (map fi_Sequence ?L)" using L(3) pos by simp
  then have srtF: "sorted_wrt (<) (map fi_Sequence ?F)" by (simp add: sorted_wrt_map sorted_wrt_filter)
  let ?T = "take (MaxBatchSizeFiles + 1) ?F"
  have "sorted_wrt (<) (map fi_Sequence ?T)" using srtF by (simp add: take_map sorted_wrt_take flip: take_map)
  moreover have "\<forall>x \<in> set ?T. ?p < fi_Sequence x" by (auto dest: in_set_takeD)
  ultimately have srtT: "sorted_wrt (<) (?p # map fi_Sequence ?T)" by simp
  obtain k b where lp: "send_loop psize ?enc ?T NewFileInfoBatch 0 False ?p = (Inr b, last (?p # map fi_Sequence (take k ?T)))"
    "fb_error b = None" "fb_infos b = map prepareFileInfoForIndex (filter (shareable ?enc) (take k ?T))"
    "k = 0 \<longrightarrow> ?T = []"
    using send_loop_takes [OF srtT _ , of 0 NewFileInfoBatch psize ?enc False] pos
    by (auto simp: NewFileInfoBatch_def batch_Full_def MaxBatchSizeFiles_def MaxBatchSizeBytes_def)
  define k' where "k' = min k (MaxBatchSizeFiles + 1)"
  have tk: "take k ?T = take k' ?F" by (simp add: k'_def)
  define p' where "p' = last (?p # map fi_Sequence (take k' ?F))"
  have mem: "x \<in> set ?L \<and> ?p < fi_Sequence x" if "x \<in> set (take k' ?F)" for x using in_set_takeD [OF that] by simp
  have p'x: "(take k' ?F = [] \<and> p' = ?p) \<or> (?p < p' \<and> (\<exists>x \<in> set ?L. p' = fi_Sequence x))"
  proof (cases "take k' ?F = []")
    case False
    from last_key_in [OF this, of ?p fi_Sequence] show ?thesis using mem unfolding p'_def by metis
  qed (simp only: p'_def list.map last.simps if_True simp_thms)
  then have le: "?p \<le> p'" by linarith
  have p'L: "p' = ?p \<or> (\<exists>f \<in> set ?L. fi_Sequence f = p')" using p'x by metis
  have prog: "?p < p'" if ex: "\<exists>f \<in> set ?L. ?p < fi_Sequence f"
  proof -
    have ne: "?F \<noteq> []" using ex by (force simp: filter_empty_conv)
    then have "?T \<noteq> []" by (simp add: take_eq_Nil)
    then have "k \<noteq> 0" using lp(4) by blast
    then have "take k' ?F \<noteq> []" using ne by (simp add: k'_def take_eq_Nil)
    then show ?thesis using p'x by linarith
  qed
  have bound: "p' = ?p \<or> p' \<le> my_seq s"
    using p'L ok unfolding snd_ok_def by (auto simp: GetDeviceSequence_def)
  have sel: "filter (\<lambda>f. ?p < fi_Sequence f \<and> fi_Sequence f \<le> p') ?L = take k' ?F"
  proof -
    have a: "filter (\<lambda>f. fi_Sequence f \<le> p') ?F = take k' ?F"
      unfolding p'_def by (rule filter_le_take) (use srtF in simp)
    have "filter (\<lambda>f. ?p < fi_Sequence f \<and> fi_Sequence f \<le> p') ?L = filter (\<lambda>f. fi_Sequence f \<le> p') ?F"
      unfolding filter_filter add1_zle_eq ..
    then show ?thesis using a by simp
  qed
  have "filter (\<lambda>f. shareable ?enc f \<and> ?p < fi_Sequence f \<and> fi_Sequence f \<le> p') ?L
      = filter (shareable ?enc) (filter (\<lambda>f. ?p < fi_Sequence f \<and> fi_Sequence f \<le> p') ?L)"
    unfolding filter_filter by (rule filter_cong [OF refl]) blast
  then have infos: "fb_infos b = map prepareFileInfoForIndex (filter (\<lambda>f. shareable ?enc f \<and> ?p < fi_Sequence f \<and> fi_Sequence f \<le> p') ?L)"
    unfolding lp(3) tk sel [symmetric] by (rule arg_cong [OF sym])
  have lp': "send_loop psize ?enc ?T NewFileInfoBatch 0 False ?p = (Inr b, p')" using lp(1) unfolding tk p'_def .
  define G where "G = filter (\<lambda>f. shareable ?enc f \<and> ?p < fi_Sequence f \<and> fi_Sequence f \<le> p') ?L"
  define h1 where "h1 = h\<lparr>ih_localPrevSequence := p'\<rparr>"
  define h' where "h' = (if G = [] then h1 else h1\<lparr>ih_sentPrevSequence := fi_Sequence (last G)\<rparr>)"
  define msgs where "msgs = (if G = [] then [] else [round_msg s h h'])"
  have rf: "round_files s h h' = G" by (simp add: round_files_def h'_def h1_def G_def)
  have ls: "fi_Sequence (last (map prepareFileInfoForIndex G)) = fi_Sequence (last G)" if "G \<noteq> []"
    using that by (simp add: last_map)
  have "sendIndexTo psize False (\<lambda>_. None) s h =
      (case batch_Flush (send_flush False (\<lambda>_. None)) b \<lparr>ss_initial = (?p = 0), ss_batchError = None, ss_handler = h1, ss_sent = []\<rparr> of
         (err, _, st) \<Rightarrow> (err, ss_handler st, ss_sent st))"
    unfolding sendIndexTo_def Let_def F lp' h1_def by simp
  also have "\<dots> = (None, h', msgs)"
  proof (cases "G = []")
    case True
    then show ?thesis using lp(2) infos by (simp add: batch_Flush_def h'_def msgs_def G_def)
  next
    case False
    have "batch_Flush (send_flush False (\<lambda>_. None)) b \<lparr>ss_initial = (?p = 0), ss_batchError = None, ss_handler = h1, ss_sent = []\<rparr>
        = (None, batch_Reset b, \<lparr>ss_initial = False, ss_batchError = None, ss_handler = h', ss_sent = [round_msg s h h']\<rparr>)"
      unfolding batch_Flush_def send_flush_def infos round_msg_def rf G_def [symmetric]
      using False lp(2) ls by (simp add: Let_def h'_def h1_def)
    then show ?thesis using False by (simp add: msgs_def)
  qed
  finally have res: "sendIndexTo psize False (\<lambda>_. None) s h = (None, h', msgs)" .
  have h': "ih_localPrevSequence h' = p'" "ih_folderIsReceiveEncrypted h' = ?enc" by (simp_all add: h'_def h1_def)
  have sent: "if G = [] then msgs = [] \<and> ih_sentPrevSequence h' = ih_sentPrevSequence h
      else msgs = [round_msg s h h'] \<and> ih_sentPrevSequence h' = fi_Sequence (last G)"
    by (simp add: msgs_def h'_def h1_def)
  have "round_ok s h h' msgs" unfolding round_ok_def rf h' by (intro conjI impI) (rule refl le prog bound sent; assumption?)+
  then show ?thesis using res by blast
qed

section \<open>Delivery\<close>

definition apply_view :: "db_params \<Rightarrow> index_message \<Rightarrow> (string \<rightharpoonup> FileInfo) \<Rightarrow> (string \<rightharpoonup> FileInfo)" where
  "apply_view p m V = batch_lookup (\<lambda>f. dbp_normalize p (fi_Name f)) (stored_info p) (msg_files m) (if msg_full m then Map.empty else V)"

text \<open>A message that continues from sequence \<open>s\<close>, or starts anew.\<close>

definition msg_ok :: "int \<Rightarrow> index_message \<Rightarrow> bool" where
  "msg_ok s m \<longleftrightarrow> msg_files m \<noteq> [] \<and> sorted_wrt (<) ((if msg_full m then 0 else s) # map fi_Sequence (msg_files m))
     \<and> msg_last m = fi_Sequence (last (msg_files m)) \<and> msg_prev m = (if msg_full m then 0 else s)"

definition in_step :: "db_params \<Rightarrow> int \<Rightarrow> index_db \<Rightarrow> bool" where
  "in_step p d r \<longleftrightarrow> ixd_ok p d r \<and> seqs_below d (ixd_folder r) (GetDeviceSequence d r)"

lemma ixd_Update_id: "ixd_Update p d fs r = (r', e) \<Longrightarrow> ixd_ids r d = Some (i, q) \<Longrightarrow> \<exists>q'. ixd_ids r' d = Some (i, q')"
  by (auto simp: ixd_Update_def indexids_seq_def split: prod.splits option.splits if_splits)

lemma file_anomalies_none:
  assumes "sorted_wrt (<) (q # map fi_Sequence fs)" and "prev \<le> q" and "i < length fs" and "lst = fi_Sequence (last fs)"
  shows "file_anomalies prev lst fs i = []"
proof -
  have srt: "sorted_wrt (<) (map fi_Sequence fs)" and lo: "\<forall>f \<in> set fs. q < fi_Sequence f" using assms(1) by auto
  have step: "fi_Sequence (fs ! j) < fi_Sequence (fs ! i)" if "j < i" for j
    using sorted_wrt_nth_less [OF srt that] assms(3) that by simp
  have "fs \<noteq> []" using assms(3) by auto
  then have "last fs = fs ! (length fs - 1)" by (rule last_conv_nth)
  moreover have "fi_Sequence (fs ! i) \<le> fi_Sequence (fs ! (length fs - 1))"
  proof (cases "i = length fs - 1")
    case False
    then have "i < length fs - 1" "length fs - 1 < length fs" using assms(3) by auto
    then show ?thesis using sorted_wrt_nth_less [OF srt, of i "length fs - 1"] by simp
  qed simp
  moreover have "q < fi_Sequence (fs ! i)" using lo nth_mem [OF assms(3)] by blast
  moreover have "\<not> (i > 0 \<and> fi_Sequence (fs ! i) \<le> fi_Sequence (fs ! (i - 1)))" using step [of "i - 1"] by linarith
  ultimately show ?thesis using assms(2,4) unfolding file_anomalies_def by simp
qed

lemma receive_ok:
  assumes ok: "in_step p d r" and m: "msg_ok (GetDeviceSequence d r) m" and up: "\<not> ih_paused h"
    and nn: "0 \<le> GetDeviceSequence d r"
  shows "\<exists>r' fg. receive p d h (msg_files m) (\<not> msg_full m) (msg_prev m) (msg_last m) r = (None, [], r', fg) \<and> in_step p d r'
    \<and> GetDeviceSequence d r' = msg_last m \<and> device_info d (ixd_folder r') = apply_view p m (device_info d (ixd_folder r))
    \<and> (\<forall>i q. ixd_ids r d = Some (i, q) \<longrightarrow> (\<exists>q'. ixd_ids r' d = Some (i, q')))"
proof -
  let ?fs = "msg_files m" and ?s = "GetDeviceSequence d r"
  let ?q = "if msg_full m then 0 else ?s"
  let ?r1 = "if msg_full m then ixd_DropAllFiles p d r else r"
  have ms: "?fs \<noteq> []" "sorted_wrt (<) (?q # map fi_Sequence ?fs)" "msg_last m = fi_Sequence (last ?fs)" "msg_prev m = ?q"
    using m by (auto simp: msg_ok_def)
  have ixok: "ixd_ok p d r" and below: "\<not> msg_full m \<longrightarrow> seqs_below d (ixd_folder r) ?q" using ok by (auto simp: in_step_def)
  obtain r' where r': "ixd_Update p d ?fs ?r1 = (r', None)" "ixd_ok p d r'"
    "device_info d (ixd_folder r') = batch_lookup (\<lambda>f. dbp_normalize p (fi_Name f)) (stored_info p) ?fs
       (if msg_full m then Map.empty else device_info d (ixd_folder r))"
    "GetDeviceSequence d r' = last (map fi_Sequence ?fs)" "seqs_below d (ixd_folder r') (GetDeviceSequence d r')"
    using ixs.message_applied [OF ixok below ms(2,1)] by blast
  have lst: "last (map fi_Sequence ?fs) = msg_last m" using ms(1,3) by (simp add: last_map)
  have "concat (map (file_anomalies (msg_prev m) (msg_last m) ?fs) [0..<length ?fs]) = []"
    using file_anomalies_none [OF ms(2) _ _ ms(3), of "msg_prev m"] ms(4) by simp
  moreover have "GetDeviceSequence d ?r1 = ?s" by (simp add: ixd_DropAllFiles_def GetDeviceSequence_def)
  ultimately have "receive p d h ?fs (\<not> msg_full m) (msg_prev m) (msg_last m) r = (None, [], r', makeForgetUpdate ?fs)"
    unfolding receive_def Let_def using up r'(1,4) ms(3,4) lst by simp
  moreover have "\<exists>q'. ixd_ids r' d = Some (i, q')" if "ixd_ids r d = Some (i, q)" for i q
    by (rule ixd_Update_id [OF r'(1)]) (use that in \<open>simp add: ixd_DropAllFiles_def\<close>)
  ultimately show ?thesis using r' lst unfolding in_step_def apply_view_def by auto
qed

section \<open>The exchange\<close>

record exchange =
  ex_snd :: index_db
  ex_rcv :: index_db
  ex_h :: indexHandler
  ex_rh :: indexHandler
  ex_queue :: "index_message list"
  ex_up :: bool

text \<open>
  The exchange from the device with database \<open>ex_snd\<close> to the one with \<open>ex_rcv\<close>, which knows it under
  number \<open>d\<close>; \<open>ex_queue\<close> holds the messages under way. Both run \<open>newIndexHandler\<close> when they connect,
  from what the other said in its cluster configuration; the connection may break at any time, the local
  database may be updated at any time, and it may be reset, after which it has an index identifier
  the receiver has not seen.
\<close>

inductive exchange_run :: "db_params \<Rightarrow> db_params \<Rightarrow> (FileInfo \<Rightarrow> int) \<Rightarrow> bool \<Rightarrow> int \<Rightarrow> int \<Rightarrow> exchange \<Rightarrow> bool"
  for ps pr psize enc d dr where
  start: "\<lbrakk>snd_ok (dbp_normalize pr) sdb; ixd_ok pr d rdb; ixd_ids rdb d = None; dr \<noteq> fdb_localDeviceIdx (ixd_folder sdb)\<rbrakk> \<Longrightarrow>
    exchange_run ps pr psize enc d dr \<lparr>ex_snd = sdb, ex_rcv = rdb, ex_h = h, ex_rh = rh, ex_queue = [], ex_up = False\<rparr>"
| connect: "\<lbrakk>exchange_run ps pr psize enc d dr E;
     d_IndexID said = fst (GetIndexID newID d (ex_rcv E)); d_MaxSequence said = GetDeviceSequence d (ex_rcv E);
     d_IndexID self = my_id (ex_snd E);
     newIndexHandler ps newID dr folder enc said other (ex_snd E) = (h, sdb);
     newIndexHandler pr newID' d folder' enc' other' self (ex_rcv E) = (rh, rdb)\<rbrakk> \<Longrightarrow>
    exchange_run ps pr psize enc d dr (E\<lparr>ex_snd := sdb, ex_rcv := rdb, ex_h := h, ex_rh := rh, ex_queue := [], ex_up := True\<rparr>)"
| disconnect: "exchange_run ps pr psize enc d dr E \<Longrightarrow> exchange_run ps pr psize enc d dr (E\<lparr>ex_queue := [], ex_up := False\<rparr>)"
| change: "\<lbrakk>exchange_run ps pr psize enc d dr E; ixd_Update ps e fs (ex_snd E) = (sdb, None)\<rbrakk> \<Longrightarrow>
    exchange_run ps pr psize enc d dr (E\<lparr>ex_snd := sdb\<rparr>)"
| send: "\<lbrakk>exchange_run ps pr psize enc d dr E; ex_up E;
     sendIndexTo psize False (\<lambda>_. None) (ex_snd E) (ex_h E) = (None, h, msgs)\<rbrakk> \<Longrightarrow>
    exchange_run ps pr psize enc d dr (E\<lparr>ex_h := h, ex_queue := ex_queue E @ msgs\<rparr>)"
| deliver: "\<lbrakk>exchange_run ps pr psize enc d dr E; ex_up E; ex_queue E = m # q;
     receive pr d (ex_rh E) (msg_files m) (\<not> msg_full m) (msg_prev m) (msg_last m) (ex_rcv E) = (err, anomalies, rdb, forget)\<rbrakk> \<Longrightarrow>
    exchange_run ps pr psize enc d dr (E\<lparr>ex_rcv := rdb, ex_queue := q\<rparr>)"
| reset: "\<lbrakk>exchange_run ps pr psize enc d dr E; snd_ok (dbp_normalize pr) sdb; my_id sdb \<noteq> fst (GetIndexID newID d (ex_rcv E));
     fdb_localDeviceIdx (ixd_folder sdb) = fdb_localDeviceIdx (ixd_folder (ex_snd E))\<rbrakk> \<Longrightarrow>
    exchange_run ps pr psize enc d dr (E\<lparr>ex_snd := sdb, ex_queue := [], ex_up := False\<rparr>)"

text \<open>A view that is right about every file up to sequence \<open>s\<close> of the sending database.\<close>

definition synced :: "db_params \<Rightarrow> bool \<Rightarrow> index_db \<Rightarrow> (string \<rightharpoonup> FileInfo) \<Rightarrow> int \<Rightarrow> bool" where
  "synced pr enc sdb V s \<longleftrightarrow> 0 \<le> s \<and> s \<le> my_seq sdb
     \<and> (\<forall>f \<in> set (local_files (ixd_folder sdb)). shareable enc f \<and> fi_Sequence f \<le> s \<longrightarrow>
          V (fi_Name f) = Some (stored_info pr (prepareFileInfoForIndex f)))"

text \<open>Every prefix of the messages under way leads to such a view, all of them to sequence \<open>sent\<close>.\<close>

fun queue_ok :: "db_params \<Rightarrow> bool \<Rightarrow> index_db \<Rightarrow> int \<Rightarrow> (string \<rightharpoonup> FileInfo) \<Rightarrow> int \<Rightarrow> index_message list \<Rightarrow> bool" where
  "queue_ok pr enc sdb sent V s [] \<longleftrightarrow> s = sent \<and> synced pr enc sdb V s"
| "queue_ok pr enc sdb sent V s (m # q) \<longleftrightarrow>
     synced pr enc sdb V s \<and> msg_ok s m \<and> queue_ok pr enc sdb sent (apply_view pr m V) (msg_last m) q"

definition sender_inv :: "bool \<Rightarrow> index_db \<Rightarrow> indexHandler \<Rightarrow> bool" where
  "sender_inv enc sdb h \<longleftrightarrow> ih_folderIsReceiveEncrypted h = enc \<and> 0 \<le> ih_sentPrevSequence h
     \<and> ih_sentPrevSequence h \<le> ih_localPrevSequence h \<and> ih_localPrevSequence h \<le> my_seq sdb
     \<and> (\<forall>f \<in> set (local_files (ixd_folder sdb)). shareable enc f \<and> fi_Sequence f \<le> ih_localPrevSequence h \<longrightarrow>
          fi_Sequence f \<le> ih_sentPrevSequence h)"

definition exchange_inv :: "db_params \<Rightarrow> bool \<Rightarrow> int \<Rightarrow> int \<Rightarrow> exchange \<Rightarrow> bool" where
  "exchange_inv pr enc d dr E \<longleftrightarrow> snd_ok (dbp_normalize pr) (ex_snd E) \<and> ixd_ok pr d (ex_rcv E)
     \<and> dr \<noteq> fdb_localDeviceIdx (ixd_folder (ex_snd E))
     \<and> ((\<exists>s. ixd_ids (ex_rcv E) d = Some (Some (my_id (ex_snd E)), s)) \<longrightarrow>
          in_step pr d (ex_rcv E)
          \<and> synced pr enc (ex_snd E) (device_info d (ixd_folder (ex_rcv E))) (GetDeviceSequence d (ex_rcv E)))
     \<and> (ex_up E \<longrightarrow> (\<exists>s. ixd_ids (ex_rcv E) d = Some (Some (my_id (ex_snd E)), s))
          \<and> \<not> ih_paused (ex_rh E) \<and> sender_inv enc (ex_snd E) (ex_h E)
          \<and> queue_ok pr enc (ex_snd E) (ih_sentPrevSequence (ex_h E)) (device_info d (ixd_folder (ex_rcv E)))
              (GetDeviceSequence d (ex_rcv E)) (ex_queue E))"

lemma synced_grows: "grows norm sdb sdb' \<Longrightarrow> synced pr enc sdb V s \<Longrightarrow> synced pr enc sdb' V s"
  unfolding grows_def synced_def by fastforce

lemma queue_ok_grows: "grows norm sdb sdb' \<Longrightarrow> queue_ok pr enc sdb sent V s q \<Longrightarrow> queue_ok pr enc sdb' sent V s q"
  by (induction q arbitrary: V s) (auto intro: synced_grows)

lemma sender_inv_grows: "grows norm sdb sdb' \<Longrightarrow> sender_inv enc sdb h \<Longrightarrow> sender_inv enc sdb' h"
  unfolding grows_def sender_inv_def by fastforce

lemma queue_ok_synced: "queue_ok pr enc sdb sent V s q \<Longrightarrow> synced pr enc sdb V s"
  by (cases q) auto

lemma exchange_inv_grows:
  assumes "exchange_inv pr enc d dr E" and "grows (dbp_normalize pr) (ex_snd E) sdb"
    and "fdb_localDeviceIdx (ixd_folder sdb) = fdb_localDeviceIdx (ixd_folder (ex_snd E))"
  shows "exchange_inv pr enc d dr (E\<lparr>ex_snd := sdb\<rparr>)"
proof -
  have "my_id sdb = my_id (ex_snd E)" "snd_ok (dbp_normalize pr) sdb" using assms(2) by (auto simp: grows_def)
  then show ?thesis
    using assms(1,3) synced_grows [OF assms(2)] queue_ok_grows [OF assms(2)] sender_inv_grows [OF assms(2)]
    unfolding exchange_inv_def by simp
qed

text \<open>The sending side of a connection only touches what it knows of the other device.\<close>

lemma growsI:
  assumes ok: "snd_ok norm s" and l: "fdb_localDeviceIdx (ixd_folder s') = fdb_localDeviceIdx (ixd_folder s)"
    and k: "keys_ok (ixd_folder s')" "infos_ok (ixd_folder s')" and q: "fdb_seq (ixd_folder s') = fdb_seq (ixd_folder s)"
    and f: "set (local_files (ixd_folder s')) \<subseteq> set (local_files (ixd_folder s))"
    and i: "ixd_ids s' (fdb_localDeviceIdx (ixd_folder s)) = ixd_ids s (fdb_localDeviceIdx (ixd_folder s))"
  shows "grows norm s s'"
proof -
  have "snd_ok norm s'" using ok f k unfolding snd_ok_def l i q by (meson subsetD)
  moreover have "my_seq s' = my_seq s" using i l by (simp add: GetDeviceSequence_def)
  ultimately show ?thesis using f i l unfolding grows_def by auto
qed

lemma grows_ids:
  assumes "snd_ok norm s" and "dr \<noteq> fdb_localDeviceIdx (ixd_folder s)"
  shows "grows norm s (ixd_DropAllFiles p dr s)" and "grows norm s (SetIndexID dr i (ixd_DropAllFiles p dr s))"
proof -
  have k: "keys_ok (ixd_folder s)" "infos_ok (ixd_folder s)" using assms(1) by (auto simp: snd_ok_def)
  note d = drop_local_files [OF k assms(2), of p]
  show "grows norm s (ixd_DropAllFiles p dr s)"
    by (rule growsI [OF assms(1)]) (use d in \<open>simp_all add: ixd_DropAllFiles_def\<close>)
  show "grows norm s (SetIndexID dr i (ixd_DropAllFiles p dr s))"
    by (rule growsI [OF assms(1)]) (use d assms(2) in \<open>simp_all add: ixd_DropAllFiles_def SetIndexID_def\<close>)
qed

lemma connect_sender:
  assumes ok: "snd_ok norm s" and dr: "dr \<noteq> fdb_localDeviceIdx (ixd_folder s)"
    and new: "newIndexHandler p newID dr folder enc said other s = (h, s')"
  shows "grows norm s s'" and "fdb_localDeviceIdx (ixd_folder s') = fdb_localDeviceIdx (ixd_folder s)"
    and "h = \<lparr>ih_folder = folder, ih_folderIsReceiveEncrypted = enc, ih_localPrevSequence = index_startSequence (my_id s) (my_seq s) said,
      ih_sentPrevSequence = index_startSequence (my_id s) (my_seq s) said, ih_paused = False\<rparr>"
proof -
  obtain i q where id: "ixd_ids s (fdb_localDeviceIdx (ixd_folder s)) = Some (Some i, q)" using ok unfolding snd_ok_def by blast
  have g: "GetIndexID newID (fdb_localDeviceIdx (ixd_folder s)) s = (i, s)" using id by (simp add: GetIndexID_def)
  have k: "keys_ok (ixd_folder s)" "infos_ok (ixd_folder s)" using ok by (auto simp: snd_ok_def)
  note l = drop_local_files [OF k dr, of p]
  have n: "newIndexHandler p newID dr folder enc said other s =
     (\<lparr>ih_folder = folder, ih_folderIsReceiveEncrypted = enc, ih_localPrevSequence = index_startSequence i (my_seq s) said,
      ih_sentPrevSequence = index_startSequence i (my_seq s) said, ih_paused = False\<rparr>,
      if d_IndexID other = 0 then ixd_DropAllFiles p dr s
      else if d_IndexID other \<noteq> fst (GetIndexID newID dr s) then SetIndexID dr (d_IndexID other) (ixd_DropAllFiles p dr s) else s)"
    unfolding newIndexHandler_def g by (simp add: Let_def)
  show "grows norm s s'" using new grows_ids [OF ok dr] grows_refl [OF ok] unfolding n by (auto split: if_splits)
  show "fdb_localDeviceIdx (ixd_folder s') = fdb_localDeviceIdx (ixd_folder s)"
    using new l unfolding n by (auto simp: ixd_DropAllFiles_def SetIndexID_def split: if_splits)
  show "h = \<lparr>ih_folder = folder, ih_folderIsReceiveEncrypted = enc, ih_localPrevSequence = index_startSequence (my_id s) (my_seq s) said,
      ih_sentPrevSequence = index_startSequence (my_id s) (my_seq s) said, ih_paused = False\<rparr>"
    using new id unfolding n by auto
qed

lemma connect_receiver:
  assumes ok: "ixd_ok p d r" and i: "d_IndexID self \<noteq> 0"
    and new: "newIndexHandler p newID d folder enc said self r = (h, r')"
  shows "ixd_ok p d r' \<and> \<not> ih_paused h
    \<and> (if fst (GetIndexID newID d r) = d_IndexID self
       then ixd_folder r' = ixd_folder r \<and> ixd_ids r' d = ixd_ids r d
       else ixd_ids r' d = Some (Some (d_IndexID self), 0) \<and> device_info d (ixd_folder r') = Map.empty \<and> in_step p d r')"
proof -
  let ?l = "fdb_localDeviceIdx (ixd_folder r)"
  have dl: "d \<noteq> ?l" using ok by (simp add: ixd_ok_def remote_ok_def)
  obtain my r1 where g: "GetIndexID newID ?l r = (my, r1)" by force
  have r1: "ixd_folder r1 = ixd_folder r" "ixd_ids r1 d = ixd_ids r d"
    using g dl by (auto simp: GetIndexID_def split: option.splits prod.splits)
  have ok1: "ixd_ok p d r1" using ok r1 by (simp add: ixd_ok_def)
  have id1: "fst (GetIndexID newID d r1) = fst (GetIndexID newID d r)"
    using r1 dl by (auto simp: GetIndexID_def split: option.splits prod.splits)
  note dr = ixs.drop [OF ok1]
  have n: "r' = (if d_IndexID self \<noteq> fst (GetIndexID newID d r) then SetIndexID d (d_IndexID self) (ixd_DropAllFiles p d r1) else r1)"
    "\<not> ih_paused h"
    using new i unfolding newIndexHandler_def g Let_def id1 [symmetric] by auto
  have s0: "GetDeviceSequence d (SetIndexID d x y) = 0" for x y by (simp add: GetDeviceSequence_def SetIndexID_def)
  show ?thesis
  proof (cases "fst (GetIndexID newID d r) = d_IndexID self")
    case True
    then show ?thesis using n r1 ok1 by simp
  next
    case False
    then have r': "r' = SetIndexID d (d_IndexID self) (ixd_DropAllFiles p d r1)" using n(1) by auto
    show ?thesis using dr [of 0] False n(2) s0 unfolding r'
      by (simp add: SetIndexID_def ixd_ok_def in_step_def GetDeviceSequence_def)
  qed
qed

lemma my_id_nonzero: "snd_ok norm s \<Longrightarrow> my_id s \<noteq> 0"
  by (auto simp: snd_ok_def)

lemma GetIndexID_remote:
  "d \<noteq> fdb_localDeviceIdx (ixd_folder r) \<Longrightarrow> i \<noteq> 0 \<Longrightarrow> fst (GetIndexID newID d r) = i \<longleftrightarrow> (\<exists>q. ixd_ids r d = Some (Some i, q))"
  by (auto simp: GetIndexID_def split: option.splits prod.splits)

lemma connect_inv:
  assumes inv: "exchange_inv pr enc d dr E"
    and said: "d_IndexID said = fst (GetIndexID newID' d (ex_rcv E))" "d_MaxSequence said = GetDeviceSequence d (ex_rcv E)"
    and self: "d_IndexID self = my_id (ex_snd E)"
    and snd: "newIndexHandler ps newID dr folder enc said other (ex_snd E) = (h, sdb)"
    and rcv: "newIndexHandler pr newID2 d folder' enc' other' self (ex_rcv E) = (rh, rdb)"
  shows "exchange_inv pr enc d dr (E\<lparr>ex_snd := sdb, ex_rcv := rdb, ex_h := h, ex_rh := rh, ex_queue := [], ex_up := True\<rparr>)"
proof -
  let ?s = "ex_snd E" and ?r = "ex_rcv E"
  have ok: "snd_ok (dbp_normalize pr) ?s" "ixd_ok pr d ?r" "dr \<noteq> fdb_localDeviceIdx (ixd_folder ?s)"
    using inv by (auto simp: exchange_inv_def)
  note cs = connect_sender [OF ok(1,3) snd]
  have nz: "d_IndexID self \<noteq> 0" using my_id_nonzero [OF ok(1)] self by simp
  note cr = connect_receiver [OF ok(2) nz rcv]
  have dl: "d \<noteq> fdb_localDeviceIdx (ixd_folder ?r)" using ok(2) by (simp add: ixd_ok_def remote_ok_def)
  note gid = GetIndexID_remote [OF dl my_id_nonzero [OF ok(1)]]
  have id': "my_id sdb = my_id ?s" and ok': "snd_ok (dbp_normalize pr) sdb" using cs(1) by (auto simp: grows_def)
  obtain q0 where "my_seq sdb = q0" "0 \<le> q0" using ok' unfolding snd_ok_def by (auto simp: GetDeviceSequence_def)
  then have pos: "0 \<le> my_seq sdb" by simp
  have fpos: "\<forall>f \<in> set (local_files (ixd_folder sdb)). 0 < fi_Sequence f"
  proof
    fix f assume "f \<in> set (local_files (ixd_folder sdb))"
    moreover have "keys_ok (ixd_folder sdb)" "infos_ok (ixd_folder sdb)" using ok' by (auto simp: snd_ok_def)
    ultimately obtain r where "r \<in> set (local_rows (ixd_folder sdb))" "f = info_of (ixd_folder sdb) r"
      using files_by_sequence(2) [of "ixd_folder sdb" 1] by auto
    then show "0 < fi_Sequence f" using info_of_sel(3,4) \<open>infos_ok (ixd_folder sdb)\<close> by simp
  qed
  show ?thesis
  proof (cases "fst (GetIndexID newID d ?r) = my_id ?s")
    case True
    then have ex: "\<exists>q. ixd_ids ?r d = Some (Some (my_id ?s), q)" using gid by blast
    then have v: "in_step pr d ?r" "synced pr enc ?s (device_info d (ixd_folder ?r)) (GetDeviceSequence d ?r)"
      using inv by (auto simp: exchange_inv_def)
    have eqs: "fst (GetIndexID n d ?r) = my_id ?s" for n using gid ex by blast
    have r: "ixd_folder rdb = ixd_folder ?r" "ixd_ids rdb d = ixd_ids ?r d" "ixd_ok pr d rdb" "\<not> ih_paused rh"
      using cr eqs self by auto
    have seq: "GetDeviceSequence d rdb = GetDeviceSequence d ?r" using r(2) by (simp add: GetDeviceSequence_def)
    have start: "index_startSequence (my_id ?s) (my_seq ?s) said = GetDeviceSequence d ?r"
      using v(2) eqs said by (simp add: index_startSequence_def synced_def)
    have syn: "synced pr enc sdb (device_info d (ixd_folder rdb)) (GetDeviceSequence d rdb)"
      using synced_grows [OF cs(1) v(2)] r(1) seq by simp
    then show ?thesis
      using ok' r ex id' cs(2) ok(3) v(1) seq unfolding exchange_inv_def sender_inv_def cs(3) start
      by (auto simp: in_step_def synced_def)
  next
    case False
    then have ne: "fst (GetIndexID n d ?r) \<noteq> my_id ?s" for n using gid by blast
    have r: "ixd_ids rdb d = Some (Some (my_id ?s), 0)" "device_info d (ixd_folder rdb) = Map.empty" "in_step pr d rdb"
      "ixd_ok pr d rdb" "\<not> ih_paused rh"
      using cr ne self by auto
    have start: "index_startSequence (my_id ?s) (my_seq ?s) said = 0" using ne said(1) by (simp add: index_startSequence_def)
    have seq: "GetDeviceSequence d rdb = 0" using r(1) by (simp add: GetDeviceSequence_def)
    have "synced pr enc sdb (device_info d (ixd_folder rdb)) 0" using pos fpos by (auto simp: synced_def)
    then show ?thesis
      using ok' r id' cs(2) ok(3) seq pos fpos unfolding exchange_inv_def sender_inv_def cs(3) start
      by (auto simp: synced_def)
  qed
qed

lemma batch_lookup_other: "n \<notin> nm ` set fs \<Longrightarrow> batch_lookup nm st fs V n = V n"
  unfolding batch_lookup_def by (induction fs arbitrary: V) auto

lemma batch_lookup_in: "distinct (map nm fs) \<Longrightarrow> f \<in> set fs \<Longrightarrow> batch_lookup nm st fs V (nm f) = Some (st f)"
proof (induction fs arbitrary: V)
  case (Cons g fs)
  show ?case
  proof (cases "f = g")
    case True
    then have "nm f \<notin> nm ` set fs" using Cons.prems(1) by simp
    from batch_lookup_other [OF this, of st "V(nm g \<mapsto> st g)"] show ?thesis using True by (simp add: batch_lookup_def)
  qed (use Cons in \<open>auto simp: batch_lookup_def\<close>)
qed simp

lemma queue_ok_append:
  "\<lbrakk>queue_ok pr enc sdb sent V s q; \<And>V'. synced pr enc sdb V' sent \<Longrightarrow> msg_ok sent m \<and> synced pr enc sdb (apply_view pr m V') (msg_last m)\<rbrakk>
    \<Longrightarrow> queue_ok pr enc sdb (msg_last m) V s (q @ [m])"
  by (induction q arbitrary: V s) auto

lemma local_pos: "snd_ok norm s \<Longrightarrow> f \<in> set (local_files (ixd_folder s)) \<Longrightarrow> 0 < fi_Sequence f \<and> fi_Sequence f \<le> my_seq s \<and> norm (fi_Name f) = fi_Name f"
proof -
  assume ok: "snd_ok norm s" and f: "f \<in> set (local_files (ixd_folder s))"
  have k: "keys_ok (ixd_folder s)" "infos_ok (ixd_folder s)" using ok by (auto simp: snd_ok_def)
  obtain r where "r \<in> set (local_rows (ixd_folder s))" "f = info_of (ixd_folder s) r"
    using f files_by_sequence(2) [OF k, of 1] by auto
  then have "0 < fi_Sequence f" using info_of_sel(3,4) [OF k(2)] by simp
  moreover have "fi_Sequence f \<le> my_seq s" "norm (fi_Name f) = fi_Name f"
    using ok f unfolding snd_ok_def by (auto simp: GetDeviceSequence_def)
  ultimately show ?thesis by blast
qed

lemma round_files_sorted:
  assumes "snd_ok norm s"
  shows "sorted_wrt (<) (map fi_Sequence (round_files s h h'))" and "distinct (map fi_Name (round_files s h h'))"
    and "f \<in> set (round_files s h h') \<longleftrightarrow> f \<in> set (local_files (ixd_folder s)) \<and> shareable (ih_folderIsReceiveEncrypted h) f
      \<and> ih_localPrevSequence h < fi_Sequence f \<and> fi_Sequence f \<le> ih_localPrevSequence h'"
    and "f \<in> set (round_files s h h') \<Longrightarrow> fi_Sequence f \<le> fi_Sequence (last (round_files s h h'))"
proof -
  have k: "keys_ok (ixd_folder s)" "infos_ok (ixd_folder s)" using assms by (auto simp: snd_ok_def)
  note L = files_by_sequence [OF k, of 1, simplified]
  show srt: "sorted_wrt (<) (map fi_Sequence (round_files s h h'))"
    using L(3) unfolding round_files_def by (simp add: sorted_wrt_map sorted_wrt_filter)
  show "distinct (map fi_Name (round_files s h h'))" using L(4) unfolding round_files_def by (rule distinct_map_filter)
  show "f \<in> set (round_files s h h') \<longleftrightarrow> f \<in> set (local_files (ixd_folder s)) \<and> shareable (ih_folderIsReceiveEncrypted h) f
      \<and> ih_localPrevSequence h < fi_Sequence f \<and> fi_Sequence f \<le> ih_localPrevSequence h'" by (auto simp: round_files_def)
  assume f: "f \<in> set (round_files s h h')"
  then have "round_files s h h' \<noteq> []" by auto
  then obtain ys y where ys: "round_files s h h' = ys @ [y]" by (meson rev_exhaust)
  show "fi_Sequence f \<le> fi_Sequence (last (round_files s h h'))" using f srt unfolding ys by (auto simp: sorted_wrt_append)
qed

lemma round_synced:
  assumes ok: "snd_ok (dbp_normalize pr) s" and inv: "sender_inv enc s h" and r: "round_ok s h h' msgs" and ne: "round_files s h h' \<noteq> []"
    and syn: "synced pr enc s V (ih_sentPrevSequence h)"
  shows "msg_ok (ih_sentPrevSequence h) (round_msg s h h') \<and> synced pr enc s (apply_view pr (round_msg s h h') V) (msg_last (round_msg s h h'))"
    and "msg_last (round_msg s h h') = ih_sentPrevSequence h'"
proof -
  let ?fs = "round_files s h h'" and ?m = "round_msg s h h'"
  note rf = round_files_sorted [OF ok, where h = h and h' = h']
  have enc: "ih_folderIsReceiveEncrypted h = enc" and le: "ih_sentPrevSequence h \<le> ih_localPrevSequence h" "0 \<le> ih_sentPrevSequence h"
    using inv by (auto simp: sender_inv_def)
  have sent': "ih_sentPrevSequence h' = fi_Sequence (last ?fs)" using r ne by (simp add: round_ok_def)
  have m: "msg_files ?m = map prepareFileInfoForIndex ?fs" "msg_last ?m = ih_sentPrevSequence h'"
    "msg_full ?m = (ih_localPrevSequence h = 0)" "msg_prev ?m = (if msg_full ?m then 0 else ih_sentPrevSequence h)"
    by (simp_all add: round_msg_def Let_def msg_files_def msg_last_def msg_full_def msg_prev_def)
  then show "msg_last ?m = ih_sentPrevSequence h'" by simp
  have lastin: "last ?fs \<in> set ?fs" using ne by simp
  have sq: "map fi_Sequence (msg_files ?m) = map fi_Sequence ?fs" unfolding m(1) by simp
  have gt: "\<forall>f \<in> set ?fs. ih_localPrevSequence h < fi_Sequence f" using rf(3) by blast
  then have "sorted_wrt (<) ((if msg_full ?m then 0 else ih_sentPrevSequence h) # map fi_Sequence ?fs)"
    using rf(1) le m(3) by force
  then have mok: "msg_ok (ih_sentPrevSequence h) ?m"
    unfolding msg_ok_def sq using ne m sent' by (simp add: last_map)
  have key: "dbp_normalize pr (fi_Name (prepareFileInfoForIndex f)) = fi_Name f" if "f \<in> set ?fs" for f
    using local_pos [OF ok, of f] rf(3) that by simp
  have names: "map (\<lambda>f. dbp_normalize pr (fi_Name f)) (msg_files ?m) = map fi_Name ?fs" unfolding m(1) using key by simp
  have "V' (fi_Name f) = Some (stored_info pr (prepareFileInfoForIndex f))"
    if f: "f \<in> set (local_files (ixd_folder s))" "shareable enc f" "fi_Sequence f \<le> ih_sentPrevSequence h'" and V': "V' = apply_view pr ?m V" for f V'
  proof (cases "f \<in> set ?fs")
    case True
    have d: "distinct (map (\<lambda>f. dbp_normalize pr (fi_Name f)) (msg_files ?m))" unfolding names by (rule rf(2))
    have "prepareFileInfoForIndex f \<in> set (msg_files ?m)" using True m(1) by simp
    from batch_lookup_in [OF d this] show ?thesis unfolding V' apply_view_def key [OF True] .
  next
    case False
    have "fi_Sequence (last ?fs) \<le> ih_localPrevSequence h'" using rf(3) [of "last ?fs"] lastin by blast
    then have lo: "fi_Sequence f \<le> ih_localPrevSequence h" using False f rf(3) [of f] enc sent' by auto
    then have "fi_Sequence f \<le> ih_sentPrevSequence h" using inv f(1,2) unfolding sender_inv_def by blast
    then have v: "V (fi_Name f) = Some (stored_info pr (prepareFileInfoForIndex f))" using syn f(1,2) unfolding synced_def by blast
    have nf: "\<not> msg_full ?m" using local_pos [OF ok f(1)] lo m(3) by auto
    have k: "keys_ok (ixd_folder s)" "infos_ok (ixd_folder s)" using ok by (auto simp: snd_ok_def)
    have inj: "inj_on fi_Name (set (local_files (ixd_folder s)))" using files_by_sequence(4) [OF k, of 1] by (simp add: distinct_map)
    have "fi_Name f \<notin> set (map fi_Name ?fs)"
    proof
      assume "fi_Name f \<in> set (map fi_Name ?fs)"
      then obtain g where g: "g \<in> set ?fs" "fi_Name g = fi_Name f" by auto
      then have "g = f" using inj_onD [OF inj g(2)] f(1) rf(3) by blast
      then show False using g(1) False by simp
    qed
    then have "fi_Name f \<notin> (\<lambda>f. dbp_normalize pr (fi_Name f)) ` set (msg_files ?m)" unfolding names [symmetric] set_map .
    from batch_lookup_other [OF this, of "stored_info pr" V] show ?thesis unfolding V' apply_view_def using nf v by simp
  qed
  moreover have "0 \<le> ih_sentPrevSequence h'" "ih_sentPrevSequence h' \<le> my_seq s"
    using local_pos [OF ok, of "last ?fs"] rf(3) [of "last ?fs"] lastin sent' by auto
  ultimately show "msg_ok (ih_sentPrevSequence h) ?m \<and> synced pr enc s (apply_view pr ?m V) (msg_last ?m)"
    using mok unfolding m(2) synced_def by blast
qed

lemma round_sender_inv:
  assumes ok: "snd_ok norm s" and inv: "sender_inv enc s h" and r: "round_ok s h h' msgs"
  shows "sender_inv enc s h'"
proof -
  note rf = round_files_sorted [OF ok, where h = h and h' = h']
  have e: "ih_folderIsReceiveEncrypted h = enc" "ih_folderIsReceiveEncrypted h' = enc" using inv r by (auto simp: sender_inv_def round_ok_def)
  have le: "ih_localPrevSequence h \<le> ih_localPrevSequence h'" "ih_localPrevSequence h' \<le> my_seq s"
    using r inv by (auto simp: round_ok_def sender_inv_def)
  have sent: "ih_sentPrevSequence h \<le> ih_sentPrevSequence h' \<and> ih_sentPrevSequence h' \<le> ih_localPrevSequence h'
      \<and> (\<forall>f \<in> set (round_files s h h'). fi_Sequence f \<le> ih_sentPrevSequence h')"
  proof (cases "round_files s h h' = []")
    case True
    then show ?thesis using r inv le by (auto simp: round_ok_def sender_inv_def)
  next
    case False
    then have l: "last (round_files s h h') \<in> set (round_files s h h')" by simp
    have "ih_sentPrevSequence h' = fi_Sequence (last (round_files s h h'))" using r False by (simp add: round_ok_def)
    then show ?thesis using rf(3) [of "last (round_files s h h')"] rf(4) l inv by (auto simp: sender_inv_def)
  qed
  have "fi_Sequence f \<le> ih_sentPrevSequence h'"
    if f: "f \<in> set (local_files (ixd_folder s))" "shareable enc f" "fi_Sequence f \<le> ih_localPrevSequence h'" for f
  proof (cases "f \<in> set (round_files s h h')")
    case True
    then show ?thesis using sent by blast
  next
    case False
    then have "fi_Sequence f \<le> ih_localPrevSequence h" using f rf(3) [of f] e by auto
    then have "fi_Sequence f \<le> ih_sentPrevSequence h" using inv f(1,2) unfolding sender_inv_def by blast
    then show ?thesis using sent by linarith
  qed
  then show ?thesis using e sent le inv unfolding sender_inv_def by auto
qed

lemma exchange_run_inv:
  assumes "exchange_run ps pr psize enc d dr E" and "\<And>x. dbp_normalize pr (dbp_normalize ps x) = dbp_normalize ps x"
  shows "exchange_inv pr enc d dr E"
  using assms(1)
proof (induction rule: exchange_run.induct)
  case (start sdb rdb h rh)
  then show ?case by (simp add: exchange_inv_def)
next
  case (connect E said newID self folder other h sdb newID' folder' enc' other' rh rdb)
  show ?case by (rule connect_inv [OF connect.IH connect.hyps(2-6)])
next
  case (disconnect E)
  then show ?case by (simp add: exchange_inv_def)
next
  case (change E e fs sdb)
  have ok: "snd_ok (dbp_normalize pr) (ex_snd E)" using change.IH by (simp add: exchange_inv_def)
  have g: "grows (dbp_normalize pr) (ex_snd E) sdb" by (rule update_grows [OF ok assms(2) change.hyps(2)])
  obtain db' where "update_loop ps e None fs (ixd_folder (ex_snd E)) = Inr db'" "ixd_folder sdb = db'"
    using change.hyps(2) by (auto simp: ixd_Update_def folderDB_Update_def split: sum.splits)
  then have "fdb_localDeviceIdx (ixd_folder sdb) = fdb_localDeviceIdx (ixd_folder (ex_snd E))"
    using update_loop_local ok unfolding snd_ok_def by force
  then show ?case by (rule exchange_inv_grows [OF change.IH g])
next
  case (send E h msgs)
  let ?s = "ex_snd E" and ?h = "ex_h E"
  have ok: "snd_ok (dbp_normalize pr) ?s" and si: "sender_inv enc ?s ?h"
    and q: "queue_ok pr enc ?s (ih_sentPrevSequence ?h) (device_info d (ixd_folder (ex_rcv E))) (GetDeviceSequence d (ex_rcv E)) (ex_queue E)"
    using send.IH send.hyps(2) by (auto simp: exchange_inv_def)
  have nn: "0 \<le> ih_localPrevSequence ?h" using si by (simp add: sender_inv_def)
  have r: "round_ok ?s ?h h msgs" using sendIndexTo_sends [OF ok nn, of psize] send.hyps(3) by auto
  have "queue_ok pr enc ?s (ih_sentPrevSequence h) (device_info d (ixd_folder (ex_rcv E))) (GetDeviceSequence d (ex_rcv E)) (ex_queue E @ msgs)"
  proof (cases "round_files ?s ?h h = []")
    case True
    then show ?thesis using r q by (simp add: round_ok_def)
  next
    case False
    note rs = round_synced [OF ok si r False]
    have "queue_ok pr enc ?s (msg_last (round_msg ?s ?h h)) (device_info d (ixd_folder (ex_rcv E))) (GetDeviceSequence d (ex_rcv E))
        (ex_queue E @ [round_msg ?s ?h h])"
      by (rule queue_ok_append [OF q]) (rule rs(1))
    moreover have "msg_last (round_msg ?s ?h h) = ih_sentPrevSequence h"
      by (simp add: round_msg_def Let_def msg_last_def)
    ultimately show ?thesis using r False by (simp add: round_ok_def)
  qed
  then show ?case using send.IH send.hyps(2) round_sender_inv [OF ok si r] by (simp add: exchange_inv_def)
next
  case (deliver E m q err anomalies rdb forget)
  let ?r = "ex_rcv E"
  obtain s0 where id: "ixd_ids ?r d = Some (Some (my_id (ex_snd E)), s0)" using deliver.IH deliver.hyps(2) by (auto simp: exchange_inv_def)
  have st: "in_step pr d ?r" and up: "\<not> ih_paused (ex_rh E)"
    and qo: "queue_ok pr enc (ex_snd E) (ih_sentPrevSequence (ex_h E)) (device_info d (ixd_folder ?r)) (GetDeviceSequence d ?r) (m # q)"
    using deliver.IH deliver.hyps(2,3) by (auto simp: exchange_inv_def)
  then have m: "msg_ok (GetDeviceSequence d ?r) m" and nn: "0 \<le> GetDeviceSequence d ?r"
    and q': "queue_ok pr enc (ex_snd E) (ih_sentPrevSequence (ex_h E)) (apply_view pr m (device_info d (ixd_folder ?r))) (msg_last m) q"
    by (auto simp: synced_def)
  have r: "in_step pr d rdb" "GetDeviceSequence d rdb = msg_last m"
    "device_info d (ixd_folder rdb) = apply_view pr m (device_info d (ixd_folder ?r))" "\<exists>q'. ixd_ids rdb d = Some (Some (my_id (ex_snd E)), q')"
    using receive_ok [OF st m up nn] deliver.hyps(4) id by auto
  then show ?case using deliver.IH deliver.hyps(2) q' queue_ok_synced [OF q'] up by (simp add: exchange_inv_def in_step_def)
next
  case (reset E sdb newID)
  have rok: "ixd_ok pr d (ex_rcv E)" using reset.IH by (simp add: exchange_inv_def)
  then have dl: "d \<noteq> fdb_localDeviceIdx (ixd_folder (ex_rcv E))" by (simp add: ixd_ok_def remote_ok_def)
  have "\<nexists>s. ixd_ids (ex_rcv E) d = Some (Some (my_id sdb), s)"
    using GetIndexID_remote [OF dl my_id_nonzero [OF reset.hyps(2)], of newID] reset.hyps(3) by metis
  then show ?case using reset.IH reset.hyps(2,4) by (simp add: exchange_inv_def)
qed

section \<open>Properties\<close>

lemma GetDeviceFile_info:
  "map_option strip_blocks (GetDeviceFile p d n db) = map_option strip_blocks (device_info d db (dbp_normalize p n))"
proof (cases "find (\<lambda>r. fr_DeviceIdx r = d \<and> fr_Name r = dbp_normalize p n) (fdb_files db)")
  case (Some r)
  have "map_option strip_blocks (indirect_FileInfo db r) = map_option strip_blocks (fdb_fileinfos db (fr_Sequence r))"
    by (cases "fdb_fileinfos db (fr_Sequence r)"; cases "Option.bind (fr_BlocklistHash r) (fdb_blocklists db)")
      (simp_all add: indirect_FileInfo_def strip_blocks_def)
  then show ?thesis using Some by (simp add: GetDeviceFile_def device_info_def device_seq_def)
qed (simp add: GetDeviceFile_def device_info_def device_seq_def)


definition example_ixd :: "(int \<rightharpoonup> (uint64 option \<times> int)) \<Rightarrow> index_db" where
  "example_ixd ids = \<lparr>ixd_folder = example_db [], ixd_ids = ids\<rparr>"

definition example_said :: "IndexID \<Rightarrow> int \<Rightarrow> Device" where
  "example_said i q = \<lparr>d_ID = [], d_Name = [], d_Addresses = [], d_Compression = CompressionMetadata, d_CertName = [],
     d_MaxSequence = q, d_Introducer = False, d_IndexID = i, d_SkipIntroductionRemovals = False, d_EncryptionPasswordToken = []\<rparr>"

definition example_connected :: exchange where
  "example_connected =
     (let sdb = fst (ixd_Update example_params 1 [example_file] (example_ixd [1 \<mapsto> (Some 5, 0)]));
          rdb = example_ixd Map.empty;
          (h, sdb') = newIndexHandler example_params 5 2 ''f'' False (example_said 0 0) (example_said 6 0) sdb;
          (rh, rdb') = newIndexHandler example_params 6 2 ''f'' False (example_said 0 0) (example_said 5 10) rdb
      in \<lparr>ex_snd = sdb', ex_rcv = rdb', ex_h = h, ex_rh = rh, ex_queue = [], ex_up = True\<rparr>)"

lemma example_connected_run: "exchange_run example_params example_params (\<lambda>_. 100) False 2 2 example_connected"
proof -
  let ?sa = "example_ixd [1 \<mapsto> (Some 5, 0)]" and ?ra = "example_ixd Map.empty"
  let ?Ea = "\<lparr>ex_snd = ?sa, ex_rcv = ?ra, ex_h = undefined, ex_rh = undefined, ex_queue = [], ex_up = False\<rparr>"
  let ?s = "fst (ixd_Update example_params 1 [example_file] ?sa)"
  have lf: "local_files (example_db []) = []" by (simp add: local_files_def AllLocalFilesBySequence_def example_db_def map_filter_simps)
  have s0: "snd_ok (dbp_normalize example_params) ?sa" and r0: "ixd_ok example_params 2 ?ra"
    by (simp_all add: snd_ok_def example_ixd_def lf, simp_all add: example_db_def keys_ok_def infos_ok_def ixd_ok_def remote_ok_def db_inv_def
        example_params_def insertionSort_permutes)
  have e0: "exchange_run example_params example_params (\<lambda>_. 100) False 2 2 ?Ea"
    by (rule exchange_run.start [OF s0 r0]) (simp_all add: example_ixd_def example_db_def)
  have "ixd_Update example_params 1 [example_file] ?sa = (?s, None)"
    by (simp add: ixd_Update_def folderDB_Update_def example_ixd_def example_db_def)
  then have e1: "exchange_run example_params example_params (\<lambda>_. 100) False 2 2 (?Ea\<lparr>ex_snd := ?s\<rparr>)"
    using exchange_run.change [OF e0, of 1 "[example_file]" ?s] by simp
  have id: "my_id ?s = 5" by code_simp
  obtain h sdb' rh rdb' where n: "newIndexHandler example_params 5 2 ''f'' False (example_said 0 0) (example_said 6 0) ?s = (h, sdb')"
    "newIndexHandler example_params 6 2 ''f'' False (example_said 0 0) (example_said 5 10) ?ra = (rh, rdb')"
    by (metis surj_pair)
  have "exchange_run example_params example_params (\<lambda>_. 100) False 2 2
      (?Ea\<lparr>ex_snd := ?s, ex_snd := sdb', ex_rcv := rdb', ex_h := h, ex_rh := rh, ex_queue := [], ex_up := True\<rparr>)"
    by (rule exchange_run.connect [OF e1, of "example_said 0 0" 5 "example_said 5 10" "''f''" "example_said 6 0" h sdb' 6 "''f''" False "example_said 0 0"])
      (use n id in \<open>simp_all add: example_said_def example_ixd_def GetIndexID_def GetDeviceSequence_def example_db_def\<close>)
  then show ?thesis using n by (simp add: example_connected_def)
qed


end
