(* ===== verification/WatchAggregator.thy ===== *)
theory WatchAggregator
  imports GoTime FsPath "HOL-Library.AList"
begin

text \<open>
  The aggregator of file system notifications (\<open>lib/watchaggregator/aggregator.go\<close>): a tree of
  events below the folder root, bounded in size by replacing what lies in a crowded directory by
  the directory itself, and a timer that hands the events that are old enough to the scanner.
  Go maps are association lists with distinct keys; no result depends on their order.
\<close>

unbundle bit_operations_syntax

section \<open>Event types and counters\<close>

text \<open>\<open>EventType\<close> is an integer on which \<open>Merge\<close> is the bitwise or.\<close>

abbreviation NonRemove :: int where "NonRemove \<equiv> 1"
abbreviation Remove :: int where "Remove \<equiv> 2"
abbreviation Mixed :: int where "Mixed \<equiv> 3"

definition EventType_Merge :: "int \<Rightarrow> int \<Rightarrow> int" where
  "EventType_Merge evType other = evType OR other"

record fsEvent =
  ev_Name :: string
  ev_Type :: int

definition maxFiles :: nat where "maxFiles = 512"
definition maxFilesPerDir :: nat where "maxFilesPerDir = 128"

record aggregatedEvent =
  ae_firstModTime :: Time
  ae_lastModTime :: Time
  ae_evType :: int

datatype eventDir =
  EventDir (ed_events: "(string \<times> aggregatedEvent) list") (ed_dirs: "(string \<times> eventDir) list")

definition newEventDir :: eventDir where
  "newEventDir = EventDir [] []"

definition childCount :: "eventDir \<Rightarrow> nat" where
  "childCount d = length (ed_events d) + length (ed_dirs d)"

definition earlier :: "Time \<Rightarrow> Time \<Rightarrow> Time" where
  "earlier acc t = (if time_Before t acc then t else acc)"

text \<open>\<open>None\<close> is the panic on an empty directory; \<open>now\<close> is \<open>time.Now()\<close>.\<close>

fun dir_firstModTime :: "Time \<Rightarrow> eventDir \<Rightarrow> Time option" where
  "dir_firstModTime now (EventDir evs ds) =
     (if length evs + length ds = 0 then None
      else (case those (map (\<lambda>x. dir_firstModTime now (snd x)) ds) of
              None \<Rightarrow> None
            | Some ts \<Rightarrow>
                Some (foldl earlier (foldl earlier now ts) (map (\<lambda>x. ae_firstModTime (snd x)) evs))))"

fun type_loop :: "int \<Rightarrow> int option list \<Rightarrow> int option" where
  "type_loop evType [] = Some evType"
| "type_loop evType (t # ts) =
     (case t of
        None \<Rightarrow> None
      | Some t \<Rightarrow> (let evType' = evType OR t in if evType' = Mixed then Some Mixed else type_loop evType' ts))"

fun dir_eventType :: "eventDir \<Rightarrow> int option" where
  "dir_eventType (EventDir evs ds) =
     (if length evs + length ds = 0 then None
      else type_loop 0 (map (\<lambda>x. dir_eventType (snd x)) ds @ map (\<lambda>x. Some (ae_evType (snd x))) evs))"

record eventCounter =
  ec_removes :: int
  ec_nonRemoves :: int

definition counter_add :: "int \<Rightarrow> int \<Rightarrow> eventCounter \<Rightarrow> eventCounter" where
  "counter_add typ n c =
     (if typ AND Remove \<noteq> 0 then c\<lparr>ec_removes := ec_removes c + n\<rparr>
      else c\<lparr>ec_nonRemoves := ec_nonRemoves c + n\<rparr>)"

definition counter_total :: "eventCounter \<Rightarrow> int" where
  "counter_total c = ec_removes c + ec_nonRemoves c"

section \<open>Taking up an event\<close>

record aggregator =
  ag_notifyDelay :: int
  ag_notifyTimeout :: int
  ag_timer :: "int option"
  ag_needsReset :: bool
  ag_counts :: eventCounter
  ag_root :: eventDir

definition newAggregator :: "int \<Rightarrow> int \<Rightarrow> aggregator" where
  "newAggregator delay timeout = \<lparr>ag_notifyDelay = delay, ag_notifyTimeout = timeout, ag_timer = None,
     ag_needsReset = False, ag_counts = \<lparr>ec_removes = 0, ec_nonRemoves = 0\<rparr>, ag_root = newEventDir\<rparr>"

definition resetNotifyTimer :: "int \<Rightarrow> aggregator \<Rightarrow> aggregator" where
  "resetNotifyTimer duration a = a\<lparr>ag_needsReset := False, ag_timer := Some duration\<rparr>"

definition resetNotifyTimerIfNeeded :: "aggregator \<Rightarrow> aggregator" where
  "resetNotifyTimerIfNeeded a = (if ag_needsReset a then resetNotifyTimer (ag_notifyDelay a) a else a)"

text \<open>An event at, or below, a path that is already tracked.\<close>

definition touch :: "int \<Rightarrow> Time \<Rightarrow> aggregatedEvent \<Rightarrow> eventCounter \<Rightarrow> aggregatedEvent \<times> eventCounter" where
  "touch typ evTime ev c =
     (let merged = EventType_Merge typ (ae_evType ev) in
      if ae_evType ev \<noteq> merged
      then (ev\<lparr>ae_lastModTime := evTime, ae_evType := merged\<rparr>, counter_add merged 1 (counter_add (ae_evType ev) (- 1) c))
      else (ev\<lparr>ae_lastModTime := evTime\<rparr>, c))"

text \<open>
  The walk along the path segments. \<open>Tracked b\<close>: the event has been taken up, and the timer is to
  be looked at if \<open>b\<close>; \<open>Instead n\<close>: a directory is full and \<open>n\<close> is to be tracked instead.
\<close>

datatype placed = Tracked bool | Instead string

fun place ::
  "Time \<Rightarrow> Time \<Rightarrow> fsEvent \<Rightarrow> nat \<Rightarrow> string \<Rightarrow> string \<Rightarrow> string list \<Rightarrow> eventDir \<Rightarrow> eventCounter
     \<Rightarrow> (eventDir \<times> eventCounter \<times> placed) option" where
  "place now evTime event lim currPath name [] (EventDir evs ds) c =
     (case map_of evs name of
        Some ev \<Rightarrow>
          (case touch (ev_Type event) evTime ev c of
             (ev', c') \<Rightarrow> Some (EventDir (AList.update name ev' evs) ds, c', Tracked False))
      | None \<Rightarrow>
          (case map_of ds name of
             None \<Rightarrow>
               if length evs + length ds = lim then Some (EventDir evs ds, c, Instead (filepath_Dir (ev_Name event)))
               else Some (EventDir (AList.update name
                            \<lparr>ae_firstModTime = evTime, ae_lastModTime = evTime, ae_evType = ev_Type event\<rparr> evs) ds,
                          counter_add (ev_Type event) 1 c, Tracked True)
           | Some childDir \<Rightarrow>
               (case (dir_firstModTime now childDir, dir_eventType childDir) of
                  (Some firstModTime, Some childType) \<Rightarrow>
                    (let merged = EventType_Merge (ev_Type event) childType;
                         c1 = (if ev_Type event \<noteq> merged then counter_add (ev_Type event) (- 1) c else c)
                     in Some (EventDir (AList.update name
                                \<lparr>ae_firstModTime = firstModTime, ae_lastModTime = evTime, ae_evType = merged\<rparr> evs)
                                (AList.delete name ds),
                              counter_add merged 1 c1, Tracked True))
                | _ \<Rightarrow> None)))"
| "place now evTime event lim currPath name (next # rest) (EventDir evs ds) c =
     (let currPath' = filepath_Join [currPath, name] in
      case map_of evs name of
        Some ev \<Rightarrow>
          (case touch (ev_Type event) evTime ev c of
             (ev', c') \<Rightarrow> Some (EventDir (AList.update name ev' evs) ds, c', Tracked False))
      | None \<Rightarrow>
          if length evs + length ds = lim then Some (EventDir evs ds, c, Instead (filepath_Dir currPath'))
          else
            (case place now evTime event maxFilesPerDir currPath' next rest
                    (case map_of ds name of Some newParent \<Rightarrow> newParent | None \<Rightarrow> newEventDir) c of
               None \<Rightarrow> None
             | Some (newParent, c', r) \<Rightarrow> Some (EventDir evs (AList.update name newParent ds), c', r)))"

definition scan_entire_folder :: "Time \<Rightarrow> Time \<Rightarrow> int \<Rightarrow> aggregator \<Rightarrow> aggregator option" where
  "scan_entire_folder now evTime typ a =
     (case (if childCount (ag_root a) \<noteq> 0 then
              (case (dir_eventType (ag_root a), dir_firstModTime now (ag_root a)) of
                 (Some t, Some firstModTime) \<Rightarrow> Some (EventType_Merge typ t, firstModTime)
               | _ \<Rightarrow> None)
            else Some (typ, evTime)) of
        None \<Rightarrow> None
      | Some (typ', firstModTime) \<Rightarrow>
          Some (resetNotifyTimerIfNeeded
            (a\<lparr>ag_root := EventDir [(''.'', \<lparr>ae_firstModTime = firstModTime, ae_lastModTime = evTime, ae_evType = typ'\<rparr>)] [],
               ag_counts := counter_add typ' 1 \<lparr>ec_removes = 0, ec_nonRemoves = 0\<rparr>\<rparr>)))"

text \<open>\<open>None\<close> is a panic, or a recursion that does not end.\<close>

partial_function (option) aggregateEvent :: "Time \<Rightarrow> Time \<Rightarrow> fsEvent \<Rightarrow> aggregator \<Rightarrow> aggregator option" where
  "aggregateEvent now evTime event a =
     (if ev_Name event = ''.'' \<or> counter_total (ag_counts a) = int maxFiles
      then scan_entire_folder now evTime (ev_Type event) a
      else
        let pathSegments = go_split (CHR ''/'') (ev_Name event) in
        (case place now evTime event maxFiles [] (hd pathSegments) (tl pathSegments) (ag_root a) (ag_counts a) of
           None \<Rightarrow> None
         | Some (root, c, r) \<Rightarrow>
             (case r of
                Tracked reset \<Rightarrow>
                  (let a' = a\<lparr>ag_root := root, ag_counts := c\<rparr>
                   in Some (if reset then resetNotifyTimerIfNeeded a' else a'))
              | Instead n \<Rightarrow> aggregateEvent now evTime (event\<lparr>ev_Name := n\<rparr>) (a\<lparr>ag_root := root, ag_counts := c\<rparr>))))"

definition newEvent :: "Time \<Rightarrow> Time \<Rightarrow> fsEvent \<Rightarrow> string set \<Rightarrow> aggregator \<Rightarrow> aggregator option" where
  "newEvent now evTime event inProgress a =
     (if map_of (ed_events (ag_root a)) ''.'' \<noteq> None then Some a
      else if ev_Name event \<in> inProgress then Some a
      else aggregateEvent now evTime event a)"

section \<open>The timer\<close>

text \<open>\<open>2*currTime.Sub(t)\<close> is a product of 64-bit integers.\<close>

definition isOld :: "int \<Rightarrow> int \<Rightarrow> Time \<Rightarrow> bool \<Rightarrow> aggregatedEvent \<Rightarrow> bool" where
  "isOld notifyDelay notifyTimeout currTime delayRem ev \<longleftrightarrow>
     (\<not> delayRem \<or> ae_evType ev = NonRemove) \<and> go_int64 (2 * time_Sub currTime (ae_lastModTime ev)) > notifyDelay
     \<or> time_Sub currTime (ae_firstModTime ev) > notifyTimeout"

text \<open>The events removed, by path, and the directory that remains.\<close>

fun popOldEventsTo ::
  "(aggregatedEvent \<Rightarrow> bool) \<Rightarrow> string \<Rightarrow> eventDir \<Rightarrow> (string \<times> aggregatedEvent) list \<times> eventDir" where
  "popOldEventsTo old dirPath (EventDir evs ds) =
     (let rs = map (\<lambda>x. (fst x, popOldEventsTo old (filepath_Join [dirPath, fst x]) (snd x))) ds
      in (concat (map (\<lambda>r. fst (snd r)) rs)
            @ map (\<lambda>x. (filepath_Join [dirPath, fst x], snd x)) (filter (\<lambda>x. old (snd x)) evs),
          EventDir (filter (\<lambda>x. \<not> old (snd x)) evs)
            (filter (\<lambda>x. childCount (snd x) \<noteq> 0) (map (\<lambda>r. (fst r, snd (snd r))) rs))))"

definition pop_events :: "Time \<Rightarrow> bool \<Rightarrow> aggregator \<Rightarrow> (string \<times> aggregatedEvent) list \<times> aggregator" where
  "pop_events currTime delayRem a =
     (case popOldEventsTo (isOld (ag_notifyDelay a) (ag_notifyTimeout a) currTime delayRem) ''.'' (ag_root a) of
        (to, root) \<Rightarrow>
          (to, a\<lparr>ag_root := root,
                 ag_counts := foldl (\<lambda>c x. counter_add (ae_evType (snd x)) (- 1) c) (ag_counts a) to\<rparr>))"

text \<open>
  The first component is what a \<open>notify\<close> goroutine is started with, unless it is empty. The timer has
  fired, so it is not running when \<open>actOnTimer\<close> starts.
\<close>

definition actOnTimer :: "Time \<Rightarrow> Time \<Rightarrow> aggregator \<Rightarrow> (string \<times> aggregatedEvent) list \<times> aggregator" where
  "actOnTimer now1 now2 a =
     (if counter_total (ag_counts a) = 0 then ([], a\<lparr>ag_needsReset := True\<rparr>)
      else
        (case pop_events now1 True a of
           (old1, a1) \<Rightarrow>
             (case (if ag_notifyDelay a1 \<noteq> ag_notifyTimeout a1 \<and> ec_nonRemoves (ag_counts a1) = 0
                       \<and> ec_removes (ag_counts a1) \<noteq> 0 then pop_events now2 False a1 else ([], a1)) of
                (old2, a2) \<Rightarrow>
                  if old1 @ old2 = [] then ([], resetNotifyTimer (ag_notifyDelay a2) a2) else (old1 @ old2, a2))))"

definition notify_batches :: "(string \<times> aggregatedEvent) list \<Rightarrow> string list list" where
  "notify_batches oldEvents =
     filter (\<lambda>b. b \<noteq> []) (map (\<lambda>t. map fst (filter (\<lambda>x. ae_evType (snd x) = t) oldEvents)) [NonRemove, Mixed, Remove])"

definition notify_nextDelay :: "int \<Rightarrow> int \<Rightarrow> int" where
  "notify_nextDelay notifyDelay duration =
     (if duration < sgn notifyDelay * (\<bar>notifyDelay\<bar> div 10) then notifyDelay
      else if duration + 1000000 > notifyDelay then 1000000
      else notifyDelay - duration)"

section \<open>Paths and times\<close>

definition path_str :: "string list \<Rightarrow> string" where
  "path_str ps = (if ps = [] then ''.'' else go_join ''/'' ps)"

abbreviation plain_path :: "string list \<Rightarrow> bool" where
  "plain_path ps \<equiv> list_all plain_elem ps"

lemma path_elems_plain: "plain_path ps \<Longrightarrow> path_elems (path_str ps) = ps"
  using join_plain_not_rooted [of ps] foldl_clean_plain [of ps False "[]"]
  by (auto simp: path_str_def path_elems_def is_rooted_def clean_step_def)

lemma path_str_Clean: "plain_path ps \<Longrightarrow> filepath_Clean (path_str ps) = path_str ps"
  using Clean_join_plain [of ps] by (auto simp: path_str_def Clean_simple)

lemma path_str_eq_dot: "plain_path ps \<Longrightarrow> path_str ps = ''.'' \<longleftrightarrow> ps = []"
  using path_elems_plain [of ps] path_elems_plain [of "[]"] by (auto simp: path_str_def)

lemma Join_path_str:
  assumes "plain_path ps" and "plain_elem n"
  shows "filepath_Join [path_str ps, n] = path_str (ps @ [n])"
proof -
  have ne: "path_str ps \<noteq> []" using path_str_Clean [OF assms(1)] Clean_not_Nil by metis
  have n: "n \<noteq> []" using assms(2) by (simp add: plain_elem_def)
  have all: "plain_path (ps @ [n])" using assms by simp
  have r: "\<not> is_rooted (path_str ps @ CHR ''/'' # n)"
    using join_plain_not_rooted(1) [OF assms(1)] ne by (auto simp: path_str_def is_rooted_def)
  have "filepath_Join [path_str ps, n] = filepath_Clean (path_str ps @ CHR ''/'' # n)"
    using ne n by (simp add: filepath_Join_def)
  also have "\<dots> = path_str (ps @ [n])"
    unfolding filepath_Clean_elems [of "path_str ps @ CHR ''/'' # n"]
    using r path_elems_snoc [OF assms(2) ne, unfolded path_elems_plain [OF assms(1)]]
    by (simp add: path_str_def [of "ps @ [n]"])
  finally show ?thesis .
qed

lemma Join_first: "plain_elem n \<Longrightarrow> filepath_Join [[], n] = path_str [n]"
  using Clean_join_plain [of "[n]"] by (simp add: filepath_Join_def path_str_def plain_elem_def)

lemma Dir_path_str: "plain_path ps \<Longrightarrow> ps \<noteq> [] \<Longrightarrow> filepath_Dir (path_str ps) = path_str (butlast ps)"
proof -
  assume a: "plain_path ps" "ps \<noteq> []"
  then have p: "plain_path (butlast ps)" "plain_elem (last ps)"
    by (auto simp: list_all_iff dest: in_set_butlastD)
  show ?thesis
    using Join_Base_Dir(2) [OF p(2), of "path_str (butlast ps)" "path_str (butlast ps)"]
      path_str_Clean [OF p(1)] Join_path_str [OF p] append_butlast_last_id [OF a(2)] by simp
qed

definition time_le :: "Time \<Rightarrow> Time \<Rightarrow> bool" where
  "time_le t u \<longleftrightarrow> \<not> time_Before u t"

lemma time_le_refl [simp]: "time_le t t"
  by (auto simp: time_le_def time_Before_def)

lemma time_le_trans: "time_le t u \<Longrightarrow> time_le u v \<Longrightarrow> time_le t v"
  by (auto simp: time_le_def time_Before_def)

lemma time_Sub_mono:
  assumes "time_le t u" and "Time_ok t" and "Time_ok u" and "Time_ok now"
  shows "time_Sub now u \<le> time_Sub now t"
  using assms
  by (auto simp: time_le_def time_Before_nanos time_Sub_def Let_def in_signed_def minDuration_def maxDuration_def)

lemma foldl_earlier:
  "time_le (foldl earlier acc ts) acc \<and> (\<forall>t \<in> set ts. time_le (foldl earlier acc ts) t)
   \<and> (Time_ok acc \<longrightarrow> (\<forall>t \<in> set ts. Time_ok t) \<longrightarrow> Time_ok (foldl earlier acc ts))"
proof (induction ts arbitrary: acc)
  case (Cons t ts)
  have e: "time_le (earlier acc t) acc" "time_le (earlier acc t) t" "earlier acc t = acc \<or> earlier acc t = t"
    by (auto simp: earlier_def time_le_def time_Before_def)
  have tr: "time_le (foldl earlier (earlier acc t) ts) u" if "time_le (earlier acc t) u" for u
    using time_le_trans [OF conjunct1 [OF Cons.IH] that] .
  show ?case using tr [OF e(1)] tr [OF e(2)] e(3) Cons.IH [of "earlier acc t"] by auto
qed simp

section \<open>The tracked events and the shape of the tree\<close>

fun tracked :: "eventDir \<Rightarrow> (string list \<times> aggregatedEvent) list" where
  "tracked (EventDir evs ds) =
     concat (map (\<lambda>x. map (\<lambda>y. (fst x # fst y, snd y)) (tracked (snd x))) ds) @ map (\<lambda>x. ([fst x], snd x)) evs"

definition ev_ok :: "aggregatedEvent \<Rightarrow> bool" where
  "ev_ok e \<longleftrightarrow> ae_evType e \<in> {NonRemove, Remove, Mixed} \<and> Time_ok (ae_firstModTime e)"

fun dir_ok :: "nat \<Rightarrow> eventDir \<Rightarrow> bool" where
  "dir_ok lim (EventDir evs ds) \<longleftrightarrow>
     distinct (map fst evs) \<and> distinct (map fst ds) \<and> (\<forall>x \<in> set evs. \<forall>y \<in> set ds. fst x \<noteq> fst y)
     \<and> length evs + length ds \<le> lim
     \<and> (\<forall>x \<in> set evs. plain_elem (fst x) \<and> ev_ok (snd x))
     \<and> (\<forall>x \<in> set ds. plain_elem (fst x) \<and> childCount (snd x) \<noteq> 0 \<and> dir_ok maxFilesPerDir (snd x))"

lemma dir_okI:
  assumes "distinct (map fst evs)" and "distinct (map fst ds)" and "length evs + length ds \<le> lim"
    and "\<And>x y. x \<in> set evs \<Longrightarrow> y \<in> set ds \<Longrightarrow> fst x \<noteq> fst y"
    and "\<And>x. x \<in> set evs \<Longrightarrow> plain_elem (fst x) \<and> ev_ok (snd x)"
    and "\<And>x. x \<in> set ds \<Longrightarrow> plain_elem (fst x) \<and> childCount (snd x) \<noteq> 0 \<and> dir_ok maxFilesPerDir (snd x)"
  shows "dir_ok lim (EventDir evs ds)"
  unfolding dir_ok.simps using assms by blast

lemma dir_okD:
  assumes "dir_ok lim (EventDir evs ds)"
  shows "distinct (map fst evs)" and "distinct (map fst ds)" and "length evs + length ds \<le> lim"
    and "\<And>x y. x \<in> set evs \<Longrightarrow> y \<in> set ds \<Longrightarrow> fst x \<noteq> fst y"
    and "\<And>x. x \<in> set evs \<Longrightarrow> plain_elem (fst x) \<and> ev_ok (snd x)"
    and "\<And>x. x \<in> set ds \<Longrightarrow> plain_elem (fst x) \<and> childCount (snd x) \<noteq> 0 \<and> dir_ok maxFilesPerDir (snd x)"
  using assms unfolding dir_ok.simps by blast+

definition root_ok :: "eventDir \<Rightarrow> bool" where
  "root_ok d \<longleftrightarrow> dir_ok maxFiles d \<or> (\<exists>e. d = EventDir [(''.'', e)] [] \<and> ev_ok e)"

lemma childCount_EventDir [simp]: "childCount (EventDir evs ds) = length evs + length ds"
  by (simp add: childCount_def)

lemma dir_ok_plain: "dir_ok lim d \<Longrightarrow> y \<in> set (tracked d) \<Longrightarrow> plain_path (fst y) \<and> fst y \<noteq> [] \<and> ev_ok (snd y)"
proof (induction d arbitrary: lim y rule: tracked.induct)
  case (1 evs ds)
  then show ?case by fastforce
qed

text \<open>An event below \<open>q\<close> is covered by a scan of \<open>q\<close>; the root is tracked under the name \<open>.\<close>.\<close>

definition covers :: "string list \<Rightarrow> string list \<Rightarrow> bool" where
  "covers q p \<longleftrightarrow> prefix (filter (\<lambda>x. x \<noteq> ''.'') q) p"

definition covered_by :: "(string list \<times> aggregatedEvent) list \<Rightarrow> string list \<Rightarrow> Time \<Rightarrow> bool" where
  "covered_by es p t \<longleftrightarrow> (\<exists>y \<in> set es. covers (fst y) p \<and> time_le (ae_firstModTime (snd y)) t)"

text \<open>What is tracked in \<open>es\<close> is tracked in \<open>es'\<close>, there or further up, and not from a later time on.\<close>

definition keeps :: "(string list \<times> aggregatedEvent) list \<Rightarrow> (string list \<times> aggregatedEvent) list \<Rightarrow> bool" where
  "keeps es es' \<longleftrightarrow> (\<forall>y \<in> set es. \<exists>z \<in> set es'. prefix (fst z) (fst y) \<and> time_le (ae_firstModTime (snd z)) (ae_firstModTime (snd y)))"

lemma plain_filter: "plain_path q \<Longrightarrow> filter (\<lambda>x. x \<noteq> ''.'') q = q"
  by (induction q) (auto simp: plain_elem_def)

lemma covers_prefix: "prefix q q' \<Longrightarrow> covers q' p \<Longrightarrow> covers q p"
  by (auto simp: covers_def prefix_def)

lemma keeps_covered: "keeps es es' \<Longrightarrow> covered_by es p t \<Longrightarrow> covered_by es' p t"
  unfolding keeps_def covered_by_def by (meson covers_prefix time_le_trans)

lemma keeps_refl [simp]: "keeps es es"
  by (force simp: keeps_def)

lemma keeps_subset: "set es \<subseteq> set es' \<Longrightarrow> keeps es es'"
  unfolding keeps_def using prefix_order.order_refl time_le_refl by blast

lemma keeps_append: "keeps a a' \<Longrightarrow> keeps b b' \<Longrightarrow> keeps (a @ b) (a' @ b')"
  unfolding keeps_def by (simp; blast)

lemma dir_type_ok: "\<lbrakk>t \<in> {0, 1, 2, 3}; \<forall>x \<in> set ts. \<exists>v \<in> {1, 2, 3}. x = Some v; t \<noteq> 0 \<or> ts \<noteq> []\<rbrakk>
    \<Longrightarrow> \<exists>v \<in> {1, 2, 3}. type_loop t ts = Some v"
proof (induction t ts rule: type_loop.induct)
  case (2 t x xs)
  then obtain v where v: "x = Some v" "v \<in> {1, 2, 3}" by auto
  then have "t OR v \<in> {1, 2, 3}" using "2.prems"(1) by auto
  then show ?case using 2 v by (auto simp: Let_def)
qed auto

lemma eventType_ok: "dir_ok lim d \<Longrightarrow> childCount d \<noteq> 0 \<Longrightarrow> \<exists>v \<in> {1, 2, 3}. dir_eventType d = Some v"
proof (induction d arbitrary: lim rule: dir_eventType.induct)
  case (1 evs ds)
  have "\<exists>v \<in> {1, 2, 3}. dir_eventType (snd x) = Some v" if "x \<in> set ds" for x
    using "1.IH" [OF _ that, of maxFilesPerDir] "1.prems" that by auto
  then have "\<exists>v \<in> {1, 2, 3}. type_loop 0 (map (\<lambda>x. dir_eventType (snd x)) ds @ map (\<lambda>x. Some (ae_evType (snd x))) evs) = Some v"
    using "1.prems" by (intro dir_type_ok) (auto simp: ev_ok_def)
  then show ?case using "1.prems" by auto
qed

lemma those_some: "(\<And>x. x \<in> set xs \<Longrightarrow> f x = Some (g x)) \<Longrightarrow> those (map f xs) = Some (map g xs)"
  by (induction xs) auto

lemma firstModTime_ok:
  assumes "dir_ok lim d" and "childCount d \<noteq> 0" and "Time_ok now"
  shows "\<exists>t. dir_firstModTime now d = Some t \<and> Time_ok t \<and> (\<forall>y \<in> set (tracked d). time_le t (ae_firstModTime (snd y)))
    \<and> time_le t now"
  using assms
proof (induction d arbitrary: lim rule: tracked.induct)
  case (1 evs ds)
  let ?P = "\<lambda>d t. dir_firstModTime now d = Some t \<and> Time_ok t \<and> (\<forall>y \<in> set (tracked d). time_le t (ae_firstModTime (snd y)))"
  have "\<exists>t. ?P (snd x) t" if "x \<in> set ds" for x
    using "1.IH" [OF that, of maxFilesPerDir] "1.prems" that by auto
  then obtain g where g: "\<And>x. x \<in> set ds \<Longrightarrow> ?P (snd x) (g x)" by metis
  let ?m = "foldl earlier now (map g ds)" and ?es = "map (\<lambda>x. ae_firstModTime (snd x)) evs"
  have th: "those (map (\<lambda>x. dir_firstModTime now (snd x)) ds) = Some (map g ds)"
    using g by (intro those_some) auto
  have f: "dir_firstModTime now (EventDir evs ds) = Some (foldl earlier ?m ?es)" using th "1.prems" by auto
  have ev: "\<forall>x \<in> set evs. Time_ok (ae_firstModTime (snd x))" using "1.prems"(1) by (auto simp: ev_ok_def)
  note m = foldl_earlier [of now "map g ds"] and r = foldl_earlier [of ?m ?es]
  have "time_le (foldl earlier ?m ?es) (ae_firstModTime (snd y))" if y: "y \<in> set (tracked (EventDir evs ds))" for y
  proof -
    consider x z where "x \<in> set ds" "z \<in> set (tracked (snd x))" "snd y = snd z" | x where "x \<in> set evs" "snd y = snd x"
      using y by auto
    then show ?thesis
    proof cases
      case 1
      then have "time_le (g x) (ae_firstModTime (snd y))" "time_le ?m (g x)" using g m by auto
      then show ?thesis using time_le_trans [OF conjunct1 [OF r]] time_le_trans by blast
    next
      case 2
      then show ?thesis using r by auto
    qed
  qed
  moreover have "Time_ok (foldl earlier ?m ?es)" using m r g ev "1.prems"(3) by auto
  moreover have "time_le (foldl earlier ?m ?es) now" using m r time_le_trans by blast
  ultimately show ?case using f by blast
qed

section \<open>Association lists\<close>

lemma set_alist_update:
  "distinct (map fst xs) \<Longrightarrow> set (AList.update k v xs) = insert (k, v) {x \<in> set xs. fst x \<noteq> k}"
  by (induction xs) (auto simp: image_iff)

lemma set_alist_delete: "set (AList.delete k xs) = {x \<in> set xs. fst x \<noteq> k}"
  by (auto simp: AList.delete_eq)

lemma length_alist_update:
  "length (AList.update k v xs) = (if map_of xs k = None then Suc (length xs) else length xs)"
  by (induction xs) auto

lemma sum_alist_update:
  fixes f :: "'a \<times> 'b \<Rightarrow> nat"
  shows "sum_list (map f (AList.update k v xs))
     = sum_list (map f xs) + f (k, v) - (case map_of xs k of None \<Rightarrow> 0 | Some w \<Rightarrow> f (k, w))
   \<and> (case map_of xs k of None \<Rightarrow> 0 | Some w \<Rightarrow> f (k, w)) \<le> sum_list (map f xs)"
  by (induction xs) (auto split: option.splits)

lemma sum_alist_delete:
  fixes f :: "'a \<times> 'b \<Rightarrow> nat"
  shows "map_of xs k = Some w \<Longrightarrow> sum_list (map f (AList.delete k xs)) + f (k, w) \<le> sum_list (map f xs)"
proof (induction xs)
  case (Cons x xs)
  show ?case
  proof (cases "fst x = k")
    case True
    have "sum_list (map f (AList.delete k xs)) \<le> sum_list (map f xs)" by (induction xs) auto
    then show ?thesis using True Cons.prems by (cases x) auto
  qed (use Cons in \<open>cases x; auto\<close>)
qed simp

lemma map_of_none_fst: "map_of xs k = None \<Longrightarrow> x \<in> set xs \<Longrightarrow> fst x \<noteq> k"
  by (metis fst_conv map_of_eq_None_iff image_eqI)

lemma length_tracked: "length (tracked (EventDir evs ds)) = sum_list (map (\<lambda>x. length (tracked (snd x))) ds) + length evs"
  by (simp add: length_concat comp_def)

lemma set_tracked:
  "set (tracked (EventDir evs ds)) =
     (\<Union>x \<in> set ds. (\<lambda>y. (fst x # fst y, snd y)) ` set (tracked (snd x))) \<union> (\<lambda>x. ([fst x], snd x)) ` set evs"
  by auto

lemma tracked_nonempty: "dir_ok lim d \<Longrightarrow> childCount d \<noteq> 0 \<Longrightarrow> tracked d \<noteq> []"
proof (induction d arbitrary: lim rule: tracked.induct)
  case (1 evs ds)
  then show ?case by (cases ds) force+
qed

lemma total_add [simp]: "counter_total (counter_add t n c) = counter_total c + n"
  by (simp add: counter_total_def counter_add_def)

section \<open>One walk along a path\<close>

definition counts_follow :: "eventDir \<Rightarrow> eventCounter \<Rightarrow> eventDir \<Rightarrow> eventCounter \<Rightarrow> bool" where
  "counts_follow d c d' c' \<longleftrightarrow>
     int (length (tracked d')) - int (length (tracked d)) \<le> counter_total c' - counter_total c
     \<and> counter_total c' \<le> counter_total c + 1"

definition placed_ok ::
  "nat \<Rightarrow> string list \<Rightarrow> string list \<Rightarrow> Time \<Rightarrow> eventDir \<Rightarrow> eventCounter \<Rightarrow> eventDir \<times> eventCounter \<times> placed \<Rightarrow> bool" where
  "placed_ok lim pre path evTime d c res \<longleftrightarrow>
     (case res of (d', c', r) \<Rightarrow>
        (case r of
           Instead n \<Rightarrow> d' = d \<and> c' = c \<and> childCount d \<noteq> 0 \<and> (\<exists>k < length path. n = path_str (pre @ take k path))
         | Tracked b \<Rightarrow>
             dir_ok lim d' \<and> childCount d' \<noteq> 0 \<and> keeps (tracked d) (tracked d') \<and> counts_follow d c d' c'
             \<and> (\<exists>z \<in> set (tracked d'). prefix (fst z) path)
             \<and> (\<forall>z \<in> set (tracked d'). time_le (ae_firstModTime (snd z)) evTime)
             \<and> (\<not> b \<longrightarrow> childCount d \<noteq> 0)))"

definition seen_by :: "Time \<Rightarrow> eventDir \<Rightarrow> bool" where
  "seen_by evTime d \<longleftrightarrow> (\<forall>z \<in> set (tracked d). time_le (ae_firstModTime (snd z)) evTime)"

lemma tracked_update:
  assumes "distinct (map fst evs)" and "set ds' \<subseteq> set ds" and "z \<in> set (tracked (EventDir (AList.update n e evs) ds'))"
  shows "z = ([n], e) \<or> z \<in> set (tracked (EventDir evs ds))"
proof -
  consider "z \<in> (\<Union>x \<in> set ds'. (\<lambda>y. (fst x # fst y, snd y)) ` set (tracked (snd x)))"
    | x where "x \<in> set (AList.update n e evs)" "z = ([fst x], snd x)"
    using assms(3) unfolding set_tracked by blast
  then show ?thesis
  proof cases
    case 1
    then show ?thesis using assms(2) unfolding set_tracked by blast
  next
    case 2
    then have "x = (n, e) \<or> x \<in> set evs" using set_alist_update [OF assms(1), of n e] by blast
    then show ?thesis using 2(2) unfolding set_tracked by auto
  qed
qed

lemma seen_update:
  assumes "distinct (map fst evs)" and "set ds' \<subseteq> set ds" and "seen_by evTime (EventDir evs ds)"
    and "time_le (ae_firstModTime e) evTime"
  shows "\<forall>z \<in> set (tracked (EventDir (AList.update n e evs) ds')). time_le (ae_firstModTime (snd z)) evTime"
proof
  fix z assume "z \<in> set (tracked (EventDir (AList.update n e evs) ds'))"
  from tracked_update [OF assms(1,2) this] show "time_le (ae_firstModTime (snd z)) evTime"
    by (rule disjE) (use assms(3,4) seen_by_def in simp_all)
qed

lemma type_or_ok: "a \<in> {1, 2, 3 :: int} \<Longrightarrow> b \<in> {1, 2, 3} \<Longrightarrow> a OR b \<in> {1, 2, 3}"
  by auto

lemma touch_ok:
  assumes "ev_ok ev" and "typ \<in> {1, 2, 3}" and "touch typ evTime ev c = (ev', c')"
  shows "ev_ok ev' \<and> ae_firstModTime ev' = ae_firstModTime ev \<and> counter_total c' = counter_total c"
proof -
  have "typ OR ae_evType ev \<in> {1, 2, 3}" using assms(1,2) by (intro type_or_ok) (auto simp: ev_ok_def)
  then show ?thesis using assms(1,3) by (auto simp: touch_def Let_def EventType_Merge_def ev_ok_def split: if_splits)
qed

lemma keeps_touched:
  assumes "distinct (map fst evs)" and "map_of evs name = Some ev" and "ae_firstModTime ev' = ae_firstModTime ev"
  shows "keeps (tracked (EventDir evs ds)) (tracked (EventDir (AList.update name ev' evs) ds))"
  unfolding keeps_def
proof
  fix y assume "y \<in> set (tracked (EventDir evs ds))"
  then consider "y \<in> (\<Union>x \<in> set ds. (\<lambda>y. (fst x # fst y, snd y)) ` set (tracked (snd x)))"
    | x where "x \<in> set evs" "y = ([fst x], snd x)"
    unfolding set_tracked by blast
  then show "\<exists>z \<in> set (tracked (EventDir (AList.update name ev' evs) ds)).
      prefix (fst z) (fst y) \<and> time_le (ae_firstModTime (snd z)) (ae_firstModTime (snd y))"
  proof cases
    case 1
    then have "y \<in> set (tracked (EventDir (AList.update name ev' evs) ds))" unfolding set_tracked by blast
    then show ?thesis by force
  next
    case 2
    have upd: "set (AList.update name ev' evs) = insert (name, ev') {x \<in> set evs. fst x \<noteq> name}"
      by (rule set_alist_update [OF assms(1)])
    show ?thesis
    proof (cases "fst x = name")
      case True
      then have "map_of evs name = Some (snd x)" using assms(1) 2(1) map_of_is_SomeI by (metis prod.collapse)
      then have "snd x = ev" using assms(2) by simp
      then show ?thesis using True 2 assms(3) unfolding set_tracked upd by fastforce
    next
      case False
      then show ?thesis using 2 unfolding set_tracked upd by fastforce
    qed
  qed
qed

lemma place_touch:
  assumes ok: "dir_ok lim (EventDir evs ds)" and seen: "seen_by evTime (EventDir evs ds)"
    and ty: "typ \<in> {1, 2, 3}" and ev: "map_of evs name = Some ev" and t: "touch typ evTime ev c = (ev', c')"
  shows "placed_ok lim pre (name # rest) evTime (EventDir evs ds) c (EventDir (AList.update name ev' evs) ds, c', Tracked False)"
proof -
  have d: "distinct (map fst evs)" using ok by simp
  have in_evs: "(name, ev) \<in> set evs" using ev by (rule map_of_SomeD)
  then have evok: "ev_ok ev" "plain_elem name" using ok by auto
  note t_ok = touch_ok [OF evok(1) ty t]
  note upd = set_alist_update [OF d, of name ev']
  have len: "length (AList.update name ev' evs) = length evs" using ev by (simp add: length_alist_update)
  have "dir_ok lim (EventDir (AList.update name ev' evs) ds)"
  proof (rule dir_okI)
    fix x assume "x \<in> set (AList.update name ev' evs)"
    then consider "x = (name, ev')" | "x \<in> set evs" unfolding upd by blast
    note x = this
    show "plain_elem (fst x) \<and> ev_ok (snd x)" by (cases rule: x) (use t_ok evok dir_okD(5) [OF ok] in auto)
    show "fst x \<noteq> fst y" if "y \<in> set ds" for y
      by (cases rule: x) (use dir_okD(4) [OF ok in_evs that] dir_okD(4) [OF ok _ that] in auto)
  qed (use len dir_okD [OF ok] distinct_update [OF d, of name ev'] in simp_all)
  moreover have "length evs \<noteq> 0" using in_evs by auto
  moreover have fev: "time_le (ae_firstModTime ev') evTime"
  proof -
    have "([name], ev) \<in> set (tracked (EventDir evs ds))" using in_evs unfolding set_tracked by force
    then show ?thesis using seen t_ok unfolding seen_by_def by force
  qed
  moreover have "\<forall>z \<in> set (tracked (EventDir (AList.update name ev' evs) ds)). time_le (ae_firstModTime (snd z)) evTime"
    by (rule seen_update [OF d _ seen]) (use fev in simp_all)
  moreover have "\<exists>z \<in> set (tracked (EventDir (AList.update name ev' evs) ds)). prefix (fst z) (name # rest)"
    unfolding set_tracked upd by fastforce
  moreover have "counts_follow (EventDir evs ds) c (EventDir (AList.update name ev' evs) ds) c'"
    using t_ok ev by (simp add: counts_follow_def length_tracked length_alist_update del: tracked.simps)
  ultimately show ?thesis
    using keeps_touched [OF d ev, of ev' ds] t_ok ev
    by (simp add: placed_ok_def length_alist_update del: tracked.simps dir_ok.simps)
qed

lemma place_new:
  assumes ok: "dir_ok lim (EventDir evs ds)" and seen: "seen_by evTime (EventDir evs ds)" and ev: "ev_ok e"
    and first: "time_le (ae_firstModTime e) evTime"
    and new: "map_of evs name = None" "map_of ds name = None" "length evs + length ds \<noteq> lim" "plain_elem name"
    and c: "counter_total c' = counter_total c + 1"
  shows "placed_ok lim pre (name # rest) evTime (EventDir evs ds) c (EventDir (AList.update name e evs) ds, c', Tracked True)"
proof -
  have d: "distinct (map fst evs)" using ok by simp
  have "{x \<in> set evs. fst x \<noteq> name} = set evs" using map_of_none_fst [OF new(1)] by auto
  then have upd: "set (AList.update name e evs) = insert (name, e) (set evs)"
    using set_alist_update [OF d, of name e] by simp
  have len: "length (AList.update name e evs) = Suc (length evs)" using new by (simp add: length_alist_update)
  have "dir_ok lim (EventDir (AList.update name e evs) ds)"
  proof (rule dir_okI)
    fix x assume "x \<in> set (AList.update name e evs)"
    then consider "x = (name, e)" | "x \<in> set evs" unfolding upd by blast
    note x = this
    show "plain_elem (fst x) \<and> ev_ok (snd x)" by (cases rule: x) (use ev new(4) dir_okD(5) [OF ok] in auto)
    show "fst x \<noteq> fst y" if "y \<in> set ds" for y
      by (cases rule: x) (use map_of_none_fst [OF new(2) that] dir_okD(4) [OF ok _ that] in auto)
  qed (use len new(3) dir_okD [OF ok] distinct_update [OF d, of name e] in simp_all)
  moreover have "keeps (tracked (EventDir evs ds)) (tracked (EventDir (AList.update name e evs) ds))"
    by (rule keeps_subset) (use upd in auto)
  moreover have "\<exists>z \<in> set (tracked (EventDir (AList.update name e evs) ds)). prefix (fst z) (name # rest)"
    unfolding set_tracked upd by fastforce
  moreover have "\<forall>z \<in> set (tracked (EventDir (AList.update name e evs) ds)). time_le (ae_firstModTime (snd z)) evTime"
    by (rule seen_update [OF d _ seen first]) simp
  moreover have "counts_follow (EventDir evs ds) c (EventDir (AList.update name e evs) ds) c'"
    using len c by (simp add: counts_follow_def length_tracked del: tracked.simps)
  ultimately show ?thesis using len by (simp add: placed_ok_def del: tracked.simps dir_ok.simps)
qed

lemma place_absorb:
  assumes ok: "dir_ok lim (EventDir evs ds)" and seen: "seen_by evTime (EventDir evs ds)" and ev: "ev_ok e"
    and dir: "map_of evs name = None" "map_of ds name = Some child"
    and first: "\<forall>y \<in> set (tracked child). time_le (ae_firstModTime e) (ae_firstModTime (snd y))"
    and c: "counter_total c' = counter_total c + 1 \<or> counter_total c' = counter_total c"
  shows "placed_ok lim pre (name # rest) evTime (EventDir evs ds) c
     (EventDir (AList.update name e evs) (AList.delete name ds), c', Tracked True)"
proof -
  let ?d' = "EventDir (AList.update name e evs) (AList.delete name ds)"
  have d: "distinct (map fst evs)" "distinct (map fst ds)" using ok by simp_all
  have inds: "(name, child) \<in> set ds" using dir(2) by (rule map_of_SomeD)
  have child: "plain_elem name" "childCount child \<noteq> 0" "dir_ok maxFilesPerDir child" using ok inds by auto
  obtain y0 where y0: "y0 \<in> set (tracked child)" using tracked_nonempty [OF child(3,2)] by (cases "tracked child") auto
  have "(name # fst y0, snd y0) \<in> set (tracked (EventDir evs ds))" using y0 inds unfolding set_tracked by force
  then have fe: "time_le (ae_firstModTime e) evTime"
    using seen first y0 time_le_trans unfolding seen_by_def by fastforce
  have "{x \<in> set evs. fst x \<noteq> name} = set evs" using map_of_none_fst [OF dir(1)] by auto
  then have upd: "set (AList.update name e evs) = insert (name, e) (set evs)"
    using set_alist_update [OF d(1), of name e] by simp
  have len: "length (AList.update name e evs) = Suc (length evs)" using dir by (simp add: length_alist_update)
  have del: "set (AList.delete name ds) = {x \<in> set ds. fst x \<noteq> name}" by (rule set_alist_delete)
  have "sum_list (map (\<lambda>x. 1) (AList.delete name ds)) + 1 \<le> sum_list (map (\<lambda>x. 1 :: nat) ds)"
    using sum_alist_delete [OF dir(2), of "\<lambda>x. 1"] by simp
  then have len2: "length (AList.delete name ds) + 1 \<le> length ds" by (simp add: sum_list_triv)
  have "dir_ok lim ?d'"
  proof (rule dir_okI)
    fix x assume "x \<in> set (AList.update name e evs)"
    then consider "x = (name, e)" | "x \<in> set evs" unfolding upd by blast
    note x = this
    show "plain_elem (fst x) \<and> ev_ok (snd x)" by (cases rule: x) (use ev child(1) dir_okD(5) [OF ok] in auto)
    show "fst x \<noteq> fst y" if "y \<in> set (AList.delete name ds)" for y
      by (cases rule: x) (use that dir_okD(4) [OF ok, of x y] in \<open>auto simp: del\<close>)
  qed (use len len2 dir_okD [OF ok] distinct_update [OF d(1), of name e] distinct_delete [OF d(2), of name] in \<open>simp_all add: del\<close>)
  moreover have "keeps (tracked (EventDir evs ds)) (tracked ?d')"
    unfolding keeps_def
  proof
    fix y assume "y \<in> set (tracked (EventDir evs ds))"
    then consider x z where "x \<in> set ds" "z \<in> set (tracked (snd x))" "y = (fst x # fst z, snd z)"
      | x where "x \<in> set evs" "y = ([fst x], snd x)"
      unfolding set_tracked by blast
    then show "\<exists>z \<in> set (tracked ?d'). prefix (fst z) (fst y) \<and> time_le (ae_firstModTime (snd z)) (ae_firstModTime (snd y))"
    proof cases
      case 1
      show ?thesis
      proof (cases "fst x = name")
        case True
        then have "map_of ds name = Some (snd x)" using d(2) 1(1) map_of_is_SomeI by (metis prod.collapse)
        then have "snd x = child" using dir(2) by simp
        then have "time_le (ae_firstModTime e) (ae_firstModTime (snd y))" using 1 first by simp
        then show ?thesis using True 1(3) unfolding set_tracked upd by fastforce
      next
        case False
        then have "y \<in> set (tracked ?d')" using 1 unfolding set_tracked del by fastforce
        then show ?thesis by force
      qed
    next
      case 2
      then have "y \<in> set (tracked ?d')" unfolding set_tracked upd by blast
      then show ?thesis by force
    qed
  qed
  moreover have "\<exists>z \<in> set (tracked ?d'). prefix (fst z) (name # rest)"
    unfolding set_tracked upd by fastforce
  moreover have "\<forall>z \<in> set (tracked ?d'). time_le (ae_firstModTime (snd z)) evTime"
    by (rule seen_update [OF d(1) _ seen fe]) (use del in blast)
  moreover have "counts_follow (EventDir evs ds) c ?d' c'"
    using len c sum_alist_delete [OF dir(2), of "\<lambda>x. length (tracked (snd x))"] tracked_nonempty [OF child(3,2)]
    by (cases "tracked child") (auto simp: counts_follow_def length_tracked simp del: tracked.simps)
  ultimately show ?thesis using len by (simp add: placed_ok_def del: tracked.simps dir_ok.simps)
qed

lemma seen_child: "seen_by evTime (EventDir evs ds) \<Longrightarrow> (name, child) \<in> set ds \<Longrightarrow> seen_by evTime child"
proof -
  assume a: "seen_by evTime (EventDir evs ds)" "(name, child) \<in> set ds"
  have "(name # fst y, snd y) \<in> set (tracked (EventDir evs ds))" if "y \<in> set (tracked child)" for y
    using a(2) that unfolding set_tracked by force
  then show ?thesis using a(1) unfolding seen_by_def by (metis snd_conv)
qed

text \<open>A directory below, an empty one if there is none, after its part of the path has been walked.\<close>

lemma place_descend:
  assumes ok: "dir_ok lim (EventDir evs ds)" and seen: "seen_by evTime (EventDir evs ds)"
    and full: "map_of evs name = None" "length evs + length ds \<noteq> lim" "plain_elem name"
    and child: "child = (case map_of ds name of Some d \<Rightarrow> d | None \<Rightarrow> newEventDir)"
    and sub: "placed_ok maxFilesPerDir (pre @ [name]) path evTime child c (child', c', r)"
  shows "placed_ok lim pre (name # path) evTime (EventDir evs ds) c (EventDir evs (AList.update name child' ds), c', r)"
proof (cases r)
  case (Instead n)
  then have s: "child' = child" "c' = c" "childCount child \<noteq> 0" "\<exists>k < length path. n = path_str ((pre @ [name]) @ take k path)"
    using sub by (auto simp: placed_ok_def)
  then have m: "map_of ds name = Some child" using child by (auto simp: newEventDir_def split: option.splits)
  then have "AList.update name child ds = ds" by (rule AList.update_triv)
  moreover have "length ds \<noteq> 0" using m by auto
  moreover have "\<exists>k < length (name # path). n = path_str (pre @ take k (name # path))"
    using s(4) by (metis Suc_less_eq append.assoc append_Cons append_Nil length_Cons take_Suc_Cons)
  ultimately show ?thesis using Instead s by (simp add: placed_ok_def)
next
  case (Tracked b)
  let ?d' = "EventDir evs (AList.update name child' ds)"
  have s: "dir_ok maxFilesPerDir child'" "childCount child' \<noteq> 0" "keeps (tracked child) (tracked child')"
    "counts_follow child c child' c'" "\<exists>z \<in> set (tracked child'). prefix (fst z) path"
    "\<forall>z \<in> set (tracked child'). time_le (ae_firstModTime (snd z)) evTime" "\<not> b \<longrightarrow> childCount child \<noteq> 0"
    using sub Tracked by (simp_all add: placed_ok_def)
  note dok = dir_okD [OF ok]
  note upd = set_alist_update [OF dok(2), of name child']
  have len: "length (AList.update name child' ds) \<le> Suc (length ds)" "length (AList.update name child' ds) \<noteq> 0"
    by (auto simp: length_alist_update)
  have "dir_ok lim ?d'"
  proof (rule dir_okI)
    fix y assume y: "y \<in> set (AList.update name child' ds)"
    then consider "y = (name, child')" | "y \<in> set ds" unfolding upd by blast
    note y = this
    show "plain_elem (fst y) \<and> childCount (snd y) \<noteq> 0 \<and> dir_ok maxFilesPerDir (snd y)"
      by (cases rule: y) (use s full dok(6) in auto)
    show "fst x \<noteq> fst y" if "x \<in> set evs" for x
      by (cases rule: y) (use map_of_none_fst [OF full(1) that] dok(4) [OF that] in auto)
  qed (use len full(2) dok distinct_update [OF dok(2), of name child'] in simp_all)
  moreover have "keeps (tracked (EventDir evs ds)) (tracked ?d')"
    unfolding keeps_def
  proof
    fix y assume "y \<in> set (tracked (EventDir evs ds))"
    then consider x z where "x \<in> set ds" "z \<in> set (tracked (snd x))" "y = (fst x # fst z, snd z)"
      | x where "x \<in> set evs" "y = ([fst x], snd x)"
      unfolding set_tracked by blast
    then show "\<exists>z \<in> set (tracked ?d'). prefix (fst z) (fst y) \<and> time_le (ae_firstModTime (snd z)) (ae_firstModTime (snd y))"
    proof cases
      case 1
      show ?thesis
      proof (cases "fst x = name")
        case True
        then have "map_of ds name = Some (snd x)" using dok(2) 1(1) map_of_is_SomeI by (metis prod.collapse)
        then have "child = snd x" using child by simp
        then obtain z' where z': "z' \<in> set (tracked child')" "prefix (fst z') (fst z)"
          "time_le (ae_firstModTime (snd z')) (ae_firstModTime (snd z))"
          using s(3) 1(2) unfolding keeps_def by blast
        have "(name # fst z', snd z') \<in> set (tracked ?d')" using z'(1) unfolding set_tracked upd by force
        then show ?thesis
          by (rule bexI [rotated]) (use z'(2,3) 1(3) True in simp)
      next
        case False
        then have "x \<in> set (AList.update name child' ds)" using 1(1) unfolding upd by simp
        then have "y \<in> set (tracked ?d')" using 1 unfolding set_tracked by blast
        then show ?thesis by force
      qed
    next
      case 2
      then have "y \<in> set (tracked ?d')" unfolding set_tracked by blast
      then show ?thesis by force
    qed
  qed
  moreover have "\<exists>z \<in> set (tracked ?d'). prefix (fst z) (name # path)"
  proof -
    obtain z where z: "z \<in> set (tracked child')" "prefix (fst z) path" using s(5) by blast
    have "(name # fst z, snd z) \<in> set (tracked ?d')" using z(1) unfolding set_tracked upd by force
    then show ?thesis by (rule bexI [rotated]) (use z(2) in simp)
  qed
  moreover have "\<forall>z \<in> set (tracked ?d'). time_le (ae_firstModTime (snd z)) evTime"
  proof
    fix z assume "z \<in> set (tracked ?d')"
    then consider x y where "x \<in> set (AList.update name child' ds)" "y \<in> set (tracked (snd x))" "z = (fst x # fst y, snd y)"
      | "z \<in> set (tracked (EventDir evs ds))"
      unfolding set_tracked by blast
    then show "time_le (ae_firstModTime (snd z)) evTime"
    proof cases
      case 1
      then consider "x = (name, child')" | "x \<in> set ds" unfolding upd by blast
      then show ?thesis
        by cases (use 1 s(6) seen_child [OF seen, of "fst x" "snd x"] seen_by_def in auto)
    qed (use seen seen_by_def in blast)
  qed
  moreover have "counts_follow (EventDir evs ds) c ?d' c'"
  proof -
    have old: "(case map_of ds name of None \<Rightarrow> 0 | Some w \<Rightarrow> length (tracked (snd (name, w)))) = length (tracked child)"
      using child by (auto simp: newEventDir_def split: option.splits)
    note sum = sum_alist_update [of "\<lambda>x. length (tracked (snd x))" name child' ds, unfolded old]
    show ?thesis using s(4) sum unfolding counts_follow_def length_tracked by auto
  qed
  moreover have "length evs + length ds \<noteq> 0" if "\<not> b"
    using s(7) that child by (auto simp: newEventDir_def split: option.splits)
  ultimately show ?thesis using Tracked len by (simp add: placed_ok_def del: tracked.simps dir_ok.simps)
qed

lemma place_ok:
  assumes "dir_ok lim d" and "0 < lim" and "plain_path (pre @ name # rest)"
    and "currPath = (if pre = [] then [] else path_str pre)" and "ev_Name event = path_str (pre @ name # rest)"
    and "ev_Type event \<in> {1, 2, 3}" and "Time_ok now" and "Time_ok evTime" and "seen_by evTime d"
  shows "\<exists>res. place now evTime event lim currPath name rest d c = Some res \<and> placed_ok lim pre (name # rest) evTime d c res"
  using assms
proof (induction now evTime event lim currPath name rest d c arbitrary: pre rule: place.induct)
  case (1 now evTime event lim currPath name evs ds c)
  show ?case
  proof (cases "map_of evs name")
    case (Some ev)
    obtain ev' c' where t: "touch (ev_Type event) evTime ev c = (ev', c')" by force
    show ?thesis using place_touch [OF "1.prems"(1,9,6) Some t] Some t by simp
  next
    case nev: None
    show ?thesis
    proof (cases "map_of ds name")
      case None
      have ndir: "filepath_Dir (ev_Name event) = path_str pre" using Dir_path_str [of "pre @ [name]"] "1.prems" by simp
      let ?e = "\<lparr>ae_firstModTime = evTime, ae_lastModTime = evTime, ae_evType = ev_Type event\<rparr>"
      have e: "ev_ok ?e" using "1.prems"(6,8) by (simp add: ev_ok_def)
      show ?thesis
      proof (cases "length evs + length ds = lim")
        case True
        then show ?thesis using nev None ndir "1.prems"(2) by (simp add: placed_ok_def)
      next
        case False
        have "placed_ok lim pre [name] evTime (EventDir evs ds) c
           (EventDir (AList.update name ?e evs) ds, counter_add (ev_Type event) 1 c, Tracked True)"
          by (rule place_new [OF "1.prems"(1,9) e _ nev None False]) (use "1.prems"(3) in simp_all)
        then show ?thesis using nev None False by simp
      qed
    next
      case (Some child)
      have ch: "childCount child \<noteq> 0" "dir_ok maxFilesPerDir child"
        using dir_okD(6) [OF "1.prems"(1) map_of_SomeD [OF Some]] by auto
      obtain t where t: "dir_firstModTime now child = Some t" "Time_ok t"
        "\<forall>y \<in> set (tracked child). time_le t (ae_firstModTime (snd y))"
        using firstModTime_ok [OF ch(2,1) "1.prems"(7)] by blast
      obtain v where v: "dir_eventType child = Some v" "v \<in> {1, 2, 3}" using eventType_ok [OF ch(2,1)] by blast
      let ?m = "EventType_Merge (ev_Type event) v"
      let ?e = "\<lparr>ae_firstModTime = t, ae_lastModTime = evTime, ae_evType = ?m\<rparr>"
      let ?c = "if ev_Type event \<noteq> ?m then counter_add (ev_Type event) (- 1) c else c"
      have "?m \<in> {1, 2, 3}" unfolding EventType_Merge_def by (rule type_or_ok [OF "1.prems"(6) v(2)])
      then have e: "ev_ok ?e" using t(2) by (simp add: ev_ok_def)
      have "placed_ok lim pre [name] evTime (EventDir evs ds) c
         (EventDir (AList.update name ?e evs) (AList.delete name ds), counter_add ?m 1 ?c, Tracked True)"
        by (rule place_absorb [OF "1.prems"(1,9) e nev Some]) (use t(3) in simp_all)
      then show ?thesis using nev Some t(1) v(1) by (simp add: Let_def)
    qed
  qed
next
  case (2 now evTime event lim currPath name nxt rest evs ds c)
  have cp: "filepath_Join [currPath, name] = path_str (pre @ [name])"
    using "2.prems"(3,4) Join_first [of name] Join_path_str [of pre name] by simp
  show ?case
  proof (cases "map_of evs name")
    case (Some ev)
    obtain ev' c' where t: "touch (ev_Type event) evTime ev c = (ev', c')" by force
    show ?thesis using place_touch [OF "2.prems"(1,9,6) Some t] Some t by (simp add: Let_def)
  next
    case nev: None
    show ?thesis
    proof (cases "length evs + length ds = lim")
      case True
      have "filepath_Dir (path_str (pre @ [name])) = path_str pre" using Dir_path_str [of "pre @ [name]"] "2.prems"(3) by simp
      moreover have "\<exists>k < length (name # nxt # rest). path_str pre = path_str (pre @ take k (name # nxt # rest))"
        by (rule exI [of _ 0]) simp
      ultimately show ?thesis using nev True cp "2.prems"(2) by (simp add: placed_ok_def Let_def)
    next
      case False
      let ?child = "case map_of ds name of Some newParent \<Rightarrow> newParent | None \<Rightarrow> newEventDir"
      have ch: "dir_ok maxFilesPerDir ?child \<and> seen_by evTime ?child"
      proof (cases "map_of ds name")
        case (Some d)
        then show ?thesis using dir_okD(6) [OF "2.prems"(1) map_of_SomeD [OF Some]]
          seen_child [OF "2.prems"(9) map_of_SomeD [OF Some]] by simp
      qed (simp add: newEventDir_def seen_by_def)
      have "\<exists>res. place now evTime event maxFilesPerDir (path_str (pre @ [name])) nxt rest ?child c = Some res
         \<and> placed_ok maxFilesPerDir (pre @ [name]) (nxt # rest) evTime ?child c res"
        using "2.IH" [OF cp [symmetric] nev False, of "pre @ [name]"] ch "2.prems" by (simp add: maxFilesPerDir_def)
      then obtain child' c' r where p: "place now evTime event maxFilesPerDir (path_str (pre @ [name])) nxt rest ?child c = Some (child', c', r)"
        "placed_ok maxFilesPerDir (pre @ [name]) (nxt # rest) evTime ?child c (child', c', r)" by auto
      have "placed_ok lim pre (name # nxt # rest) evTime (EventDir evs ds) c (EventDir evs (AList.update name child' ds), c', r)"
        by (rule place_descend [OF "2.prems"(1,9) nev False _ refl p(2)]) (use "2.prems"(3) in simp)
      then show ?thesis using nev False cp p(1) by (simp add: Let_def)
    qed
  qed
qed

section \<open>Taking up an event keeps every event covered\<close>

definition agg_inv :: "Time \<Rightarrow> aggregator \<Rightarrow> bool" where
  "agg_inv clock a \<longleftrightarrow> root_ok (ag_root a) \<and> seen_by clock (ag_root a)
     \<and> int (length (tracked (ag_root a))) \<le> counter_total (ag_counts a) \<and> counter_total (ag_counts a) \<le> int maxFiles
     \<and> (ag_needsReset a \<longrightarrow> childCount (ag_root a) = 0)"

definition taken_up :: "Time \<Rightarrow> string list \<Rightarrow> aggregator \<Rightarrow> aggregator \<Rightarrow> bool" where
  "taken_up evTime p a a' \<longleftrightarrow> agg_inv evTime a' \<and> covered_by (tracked (ag_root a')) p evTime
     \<and> (\<forall>q t. covered_by (tracked (ag_root a)) q t \<longrightarrow> covered_by (tracked (ag_root a')) q t)
     \<and> \<not> ag_needsReset a'
     \<and> ag_timer a' = (if ag_needsReset a then Some (ag_notifyDelay a) else ag_timer a)
     \<and> ag_notifyDelay a' = ag_notifyDelay a \<and> ag_notifyTimeout a' = ag_notifyTimeout a"

lemma reset_sel [simp]:
  "ag_root (resetNotifyTimerIfNeeded a) = ag_root a" "ag_counts (resetNotifyTimerIfNeeded a) = ag_counts a"
  "\<not> ag_needsReset (resetNotifyTimerIfNeeded a)"
  "ag_timer (resetNotifyTimerIfNeeded a) = (if ag_needsReset a then Some (ag_notifyDelay a) else ag_timer a)"
  "ag_notifyDelay (resetNotifyTimerIfNeeded a) = ag_notifyDelay a"
  "ag_notifyTimeout (resetNotifyTimerIfNeeded a) = ag_notifyTimeout a"
  by (simp_all add: resetNotifyTimerIfNeeded_def resetNotifyTimer_def)

lemma covers_dot: "covers [''.''] p"
  by (simp add: covers_def)

lemma covers_mono: "covers q p \<Longrightarrow> prefix p p' \<Longrightarrow> covers q p'"
  unfolding covers_def by (rule prefix_order.order_trans)

lemma covered_by_mono: "covered_by es p t \<Longrightarrow> prefix p p' \<Longrightarrow> covered_by es p' t"
  unfolding covered_by_def using covers_mono by blast

lemma covers_plain: "plain_path q \<Longrightarrow> prefix q p \<Longrightarrow> covers q p"
  by (simp add: covers_def plain_filter)

lemma scan_entire_ok:
  assumes inv: "agg_inv evTime a" and ok: "dir_ok maxFiles (ag_root a)" and ty: "typ \<in> {1, 2, 3}"
    and now: "Time_ok now" "Time_ok evTime"
  shows "\<exists>a'. scan_entire_folder now evTime typ a = Some a' \<and> taken_up evTime p a a'"
proof -
  let ?new = "\<lambda>f t. EventDir [(''.'', \<lparr>ae_firstModTime = f, ae_lastModTime = evTime, ae_evType = t\<rparr>)] []"
  let ?a' = "\<lambda>f t. resetNotifyTimerIfNeeded (a\<lparr>ag_root := ?new f t, ag_counts := counter_add t 1 \<lparr>ec_removes = 0, ec_nonRemoves = 0\<rparr>\<rparr>)"
  have tku: "taken_up evTime p a (?a' f t)"
    if ft: "time_le f evTime" "Time_ok f" "t \<in> {1, 2, 3}" "\<forall>y \<in> set (tracked (ag_root a)). time_le f (ae_firstModTime (snd y))" for f t
  proof -
    have tr: "tracked (?new f t) = [([''.''], \<lparr>ae_firstModTime = f, ae_lastModTime = evTime, ae_evType = t\<rparr>)]" by simp
    have cov: "covered_by (tracked (?new f t)) q u" if "time_le f u" for q u
      using that covers_dot unfolding tr covered_by_def by simp
    have "covered_by (tracked (?new f t)) q u" if "covered_by (tracked (ag_root a)) q u" for q u
      using that ft(4) cov time_le_trans unfolding covered_by_def by blast
    moreover have "agg_inv evTime (?a' f t)"
      using ft by (simp add: agg_inv_def root_ok_def ev_ok_def seen_by_def counter_total_def [of "\<lparr>ec_removes = _, ec_nonRemoves = _\<rparr>"] maxFiles_def)
    ultimately show ?thesis using cov [OF ft(1)] by (simp add: taken_up_def del: tracked.simps)
  qed
  show ?thesis
  proof (cases "childCount (ag_root a) = 0")
    case True
    then have "tracked (ag_root a) = []" by (cases "ag_root a") auto
    then show ?thesis using True tku [of evTime "typ"] now ty by (simp add: scan_entire_folder_def)
  next
    case False
    obtain f where f: "dir_firstModTime now (ag_root a) = Some f" "Time_ok f"
      "\<forall>y \<in> set (tracked (ag_root a)). time_le f (ae_firstModTime (snd y))"
      using firstModTime_ok [OF ok False now(1)] by blast
    obtain v where v: "dir_eventType (ag_root a) = Some v" "v \<in> {1, 2, 3}" using eventType_ok [OF ok False] by blast
    obtain y where "y \<in> set (tracked (ag_root a))" using tracked_nonempty [OF ok False] by (cases "tracked (ag_root a)") auto
    then have "time_le f evTime" using f(3) inv time_le_trans unfolding agg_inv_def seen_by_def by blast
    then show ?thesis using tku [OF _ f(2) _ f(3), of "EventType_Merge typ v"] type_or_ok [OF ty v(2)] f(1) v(1) False
      by (simp add: scan_entire_folder_def EventType_Merge_def)
  qed
qed

lemma aggregateEvent_ok:
  assumes "agg_inv evTime a" and "dir_ok maxFiles (ag_root a)" and "plain_path ps" and "ev_Name event = path_str ps"
    and "ev_Type event \<in> {1, 2, 3}" and "Time_ok now" and "Time_ok evTime"
  shows "\<exists>a'. aggregateEvent now evTime event a = Some a' \<and> taken_up evTime ps a a'"
  using assms
proof (induction "length ps" arbitrary: ps event rule: less_induct)
  case less
  show ?case
  proof (cases "ev_Name event = ''.'' \<or> counter_total (ag_counts a) = int maxFiles")
    case True
    have "aggregateEvent now evTime event a = scan_entire_folder now evTime (ev_Type event) a"
      by (subst aggregateEvent.simps) (simp only: True if_True)
    then show ?thesis using scan_entire_ok [OF less.prems(1,2,5,6,7)] by simp
  next
    case False
    then have ne: "ps \<noteq> []" using less.prems(4) by (auto simp: path_str_def)
    then obtain name rest where ps: "ps = name # rest" by (cases ps) auto
    have segs: "go_split (CHR ''/'') (ev_Name event) = name # rest"
      using join_plain_not_rooted(3) [OF less.prems(3) ne] less.prems(4) ne ps by (simp add: path_str_def)
    have inv: "seen_by evTime (ag_root a)" using less.prems(1) by (simp add: agg_inv_def)
    obtain d c r where p: "place now evTime event maxFiles [] name rest (ag_root a) (ag_counts a) = Some (d, c, r)"
      "placed_ok maxFiles [] (name # rest) evTime (ag_root a) (ag_counts a) (d, c, r)"
      using place_ok [OF less.prems(2) _ _ _ _ less.prems(5,6,7) inv, of "[]" name rest "[]" "ag_counts a"] less.prems(3,4) ps
      by (auto simp: maxFiles_def)
    have step: "aggregateEvent now evTime event a =
       (case r of
          Tracked reset \<Rightarrow> (let a' = a\<lparr>ag_root := d, ag_counts := c\<rparr> in Some (if reset then resetNotifyTimerIfNeeded a' else a'))
        | Instead n \<Rightarrow> aggregateEvent now evTime (event\<lparr>ev_Name := n\<rparr>) (a\<lparr>ag_root := d, ag_counts := c\<rparr>))"
      by (subst aggregateEvent.simps) (use False in \<open>simp only: if_False Let_def segs p(1) list.sel option.case prod.case\<close>)
    show ?thesis
    proof (cases r)
      case (Instead n)
      then have s: "d = ag_root a" "c = ag_counts a" and "\<exists>k < length ps. n = path_str (take k ps)"
        using p(2) ps by (auto simp: placed_ok_def)
      then obtain k where k: "k < length ps" "n = path_str (take k ps)" by blast
      have pk: "plain_path (take k ps)" using less.prems(3) by (auto simp: list_all_iff dest: in_set_takeD)
      obtain a' where a': "aggregateEvent now evTime (event\<lparr>ev_Name := n\<rparr>) a = Some a'" "taken_up evTime (take k ps) a a'"
        using less.hyps [OF _ less.prems(1,2) pk, of "event\<lparr>ev_Name := n\<rparr>"] k less.prems(5,6,7) by auto
      have "taken_up evTime ps a a'" using a'(2) covered_by_mono take_is_prefix unfolding taken_up_def by blast
      then show ?thesis using a'(1) step Instead s by simp
    next
      case (Tracked b)
      let ?a = "a\<lparr>ag_root := d, ag_counts := c\<rparr>"
      let ?a' = "if b then resetNotifyTimerIfNeeded ?a else ?a"
      have s: "dir_ok maxFiles d" "keeps (tracked (ag_root a)) (tracked d)" "counts_follow (ag_root a) (ag_counts a) d c"
        "\<exists>z \<in> set (tracked d). prefix (fst z) ps" "\<forall>z \<in> set (tracked d). time_le (ae_firstModTime (snd z)) evTime"
        "\<not> b \<longrightarrow> childCount (ag_root a) \<noteq> 0"
        using p(2) Tracked ps by (simp_all add: placed_ok_def)
      have nr: "\<not> b \<Longrightarrow> \<not> ag_needsReset a" using s(6) less.prems(1) by (auto simp: agg_inv_def)
      have sel: "ag_root ?a' = d" "ag_counts ?a' = c" "\<not> ag_needsReset ?a'"
        "ag_timer ?a' = (if ag_needsReset a then Some (ag_notifyDelay a) else ag_timer a)"
        "ag_notifyDelay ?a' = ag_notifyDelay a" "ag_notifyTimeout ?a' = ag_notifyTimeout a"
        using nr by (cases b; simp)+
      have "counter_total (ag_counts a) < int maxFiles" using less.prems(1) False by (auto simp: agg_inv_def)
      then have "agg_inv evTime ?a'"
        using s less.prems(1) unfolding agg_inv_def sel root_ok_def seen_by_def counts_follow_def by auto
      moreover have "covered_by (tracked d) ps evTime"
        using s(4,5) dir_ok_plain [OF s(1)] covers_plain unfolding covered_by_def by blast
      ultimately have "taken_up evTime ps a ?a'" using keeps_covered [OF s(2)] sel(3) unfolding taken_up_def sel(1,2,4-) by blast
      then show ?thesis using step Tracked by (simp add: Let_def)
    qed
  qed
qed

lemma newEvent_ok:
  assumes "agg_inv evTime a" and "plain_path ps" and "ev_Name event = path_str ps"
    and "ev_Type event \<in> {1, 2, 3}" and "Time_ok now" and "Time_ok evTime"
  shows "\<exists>a'. newEvent now evTime event inProgress a = Some a' \<and>
    (if ev_Name event \<in> inProgress \<or> map_of (ed_events (ag_root a)) ''.'' \<noteq> None then a' = a else taken_up evTime ps a a')"
proof (cases "map_of (ed_events (ag_root a)) ''.'' = None")
  case True
  then have "dir_ok maxFiles (ag_root a)" using assms(1) by (auto simp: agg_inv_def root_ok_def)
  then show ?thesis using aggregateEvent_ok [OF assms(1) _ assms(2-)] True by (auto simp: newEvent_def)
next
  case False
  then show ?thesis by (auto simp: newEvent_def)
qed

section \<open>Handing over the old events\<close>

lemma concat_map_filter: "(\<And>x. x \<in> set xs \<Longrightarrow> \<not> P x \<Longrightarrow> g x = []) \<Longrightarrow> concat (map g (filter P xs)) = concat (map g xs)"
  by (induction xs) auto

lemma tracked_empty: "childCount d = 0 \<Longrightarrow> tracked d = []"
  by (cases d) auto

lemma pop_tracked:
  assumes "dir_ok lim d" and "plain_path pre"
  shows "fst (popOldEventsTo old (path_str pre) d)
       = map (\<lambda>y. (path_str (pre @ fst y), snd y)) (filter (\<lambda>y. old (snd y)) (tracked d))
     \<and> tracked (snd (popOldEventsTo old (path_str pre) d)) = filter (\<lambda>y. \<not> old (snd y)) (tracked d)
     \<and> dir_ok lim (snd (popOldEventsTo old (path_str pre) d))"
  using assms
proof (induction d arbitrary: lim pre rule: tracked.induct)
  case (1 evs ds)
  note dok = dir_okD [OF "1.prems"(1)]
  let ?pop = "\<lambda>x. popOldEventsTo old (path_str (pre @ [fst x])) (snd x)"
  have IH: "fst (?pop x) = map (\<lambda>y. (path_str (pre @ fst x # fst y), snd y)) (filter (\<lambda>y. old (snd y)) (tracked (snd x)))"
      "tracked (snd (?pop x)) = filter (\<lambda>y. \<not> old (snd y)) (tracked (snd x))" "dir_ok maxFilesPerDir (snd (?pop x))"
    if "x \<in> set ds" for x
    using "1.IH" [OF that, of maxFilesPerDir "pre @ [fst x]"] dok(6) [OF that] "1.prems"(2) by simp_all
  have j: "filepath_Join [path_str pre, n] = path_str (pre @ [n])" if "n \<in> fst ` set evs \<union> fst ` set ds" for n
    using Join_path_str [OF "1.prems"(2)] dok(5,6) that by blast
  let ?rs = "map (\<lambda>x. (fst x, ?pop x)) ds"
  let ?ds = "filter (\<lambda>x. childCount (snd x) \<noteq> 0) (map (\<lambda>r. (fst r, snd (snd r))) ?rs)"
  let ?evs = "filter (\<lambda>x. \<not> old (snd x)) evs"
  have rs: "map (\<lambda>x. (fst x, popOldEventsTo old (filepath_Join [path_str pre, fst x]) (snd x))) ds = ?rs"
    using j by (intro map_cong) auto
  have evp: "map (\<lambda>x. (filepath_Join [path_str pre, fst x], snd x)) (filter (\<lambda>x. old (snd x)) evs)
      = map (\<lambda>x. (path_str (pre @ [fst x]), snd x)) (filter (\<lambda>x. old (snd x)) evs)"
    using j by (intro map_cong) auto
  have pop: "popOldEventsTo old (path_str pre) (EventDir evs ds)
      = (concat (map (\<lambda>r. fst (snd r)) ?rs) @ map (\<lambda>x. (path_str (pre @ [fst x]), snd x)) (filter (\<lambda>x. old (snd x)) evs),
         EventDir ?evs ?ds)"
    unfolding popOldEventsTo.simps Let_def rs evp by (rule refl)
  have "concat (map (\<lambda>r. fst (snd r)) ?rs)
      = concat (map (\<lambda>x. map (\<lambda>y. (path_str (pre @ fst x # fst y), snd y)) (filter (\<lambda>y. old (snd y)) (tracked (snd x)))) ds)"
    using IH(1) by (intro arg_cong [where f = concat]) auto
  then have a: "fst (popOldEventsTo old (path_str pre) (EventDir evs ds))
      = map (\<lambda>y. (path_str (pre @ fst y), snd y)) (filter (\<lambda>y. old (snd y)) (tracked (EventDir evs ds)))"
    unfolding pop by (simp add: filter_concat map_concat filter_map comp_def)
  have "concat (map (\<lambda>x. map (\<lambda>y. (fst x # fst y, snd y)) (tracked (snd x))) ?ds)
      = concat (map (\<lambda>x. map (\<lambda>y. (fst x # fst y, snd y)) (tracked (snd (?pop x)))) ds)"
    by (subst concat_map_filter) (use tracked_empty in \<open>auto simp: comp_def\<close>)
  also have "\<dots> = concat (map (\<lambda>x. map (\<lambda>y. (fst x # fst y, snd y)) (filter (\<lambda>y. \<not> old (snd y)) (tracked (snd x)))) ds)"
    using IH(2) by (intro arg_cong [where f = concat] map_cong) auto
  finally have b: "tracked (snd (popOldEventsTo old (path_str pre) (EventDir evs ds))) = filter (\<lambda>y. \<not> old (snd y)) (tracked (EventDir evs ds))"
    unfolding pop by (simp add: filter_concat filter_map comp_def)
  have "dir_ok lim (EventDir ?evs ?ds)"
  proof (rule dir_okI)
    show "distinct (map fst ?evs)" using dok(1) by (rule distinct_map_filter)
    have "distinct (map fst (map (\<lambda>r. (fst r, snd (snd r))) ?rs))" using dok(2) by (simp add: comp_def)
    then show "distinct (map fst ?ds)" by (rule distinct_map_filter)
    have "length ?evs \<le> length evs" "length ?ds \<le> length ds" using length_filter_le [of _ "map (\<lambda>r. (fst r, snd (snd r))) ?rs"] by auto
    then show "length ?evs + length ?ds \<le> lim" using dok(3) by linarith
    show "plain_elem (fst y) \<and> childCount (snd y) \<noteq> 0 \<and> dir_ok maxFilesPerDir (snd y)" if "y \<in> set ?ds" for y
      using that IH(3) dok(6) by auto
    show "fst x \<noteq> fst y" if xy: "x \<in> set ?evs" "y \<in> set ?ds" for x y
    proof -
      obtain z where "z \<in> set ds" "fst y = fst z" using xy(2) by auto
      then show ?thesis using dok(4) [of x z] xy(1) by simp
    qed
  qed (use dok(5) in auto)
  then have "dir_ok lim (snd (popOldEventsTo old (path_str pre) (EventDir evs ds)))" unfolding pop snd_conv .
  then show ?case using a b by blast
qed

text \<open>The path under which a tracked event is handed over.\<close>

definition out_path :: "string list \<Rightarrow> string" where
  "out_path q = path_str (filter (\<lambda>x. x \<noteq> ''.'') q)"

lemma pop_root:
  assumes "root_ok d"
  shows "fst (popOldEventsTo old ''.'' d) = map (\<lambda>y. (out_path (fst y), snd y)) (filter (\<lambda>y. old (snd y)) (tracked d))"
    and "tracked (snd (popOldEventsTo old ''.'' d)) = filter (\<lambda>y. \<not> old (snd y)) (tracked d)"
    and "root_ok (snd (popOldEventsTo old ''.'' d))"
proof -
  have dot: "path_str [] = ''.''" by (simp add: path_str_def)
  have jd: "filepath_Join [''.'', ''.''] = ''.''"
    by (simp add: filepath_Join_def filepath_Clean_def is_rooted_def clean_step_def)
  have "fst (popOldEventsTo old ''.'' d) = map (\<lambda>y. (out_path (fst y), snd y)) (filter (\<lambda>y. old (snd y)) (tracked d))
     \<and> tracked (snd (popOldEventsTo old ''.'' d)) = filter (\<lambda>y. \<not> old (snd y)) (tracked d)
     \<and> root_ok (snd (popOldEventsTo old ''.'' d))"
  proof (cases "dir_ok maxFiles d")
    case True
    note p = pop_tracked [OF True, of "[]" old, unfolded dot]
    have "map (\<lambda>y. (path_str ([] @ fst y), snd y)) (filter (\<lambda>y. old (snd y)) (tracked d))
       = map (\<lambda>y. (out_path (fst y), snd y)) (filter (\<lambda>y. old (snd y)) (tracked d))"
      using dir_ok_plain [OF True] plain_filter by (intro map_cong) (auto simp: out_path_def)
    then show ?thesis using p by (simp add: root_ok_def)
  next
    case False
    then obtain e where d: "d = EventDir [(''.'', e)] []" "ev_ok e" using assms by (auto simp: root_ok_def)
    show ?thesis unfolding d(1) using d(2) jd by (simp add: out_path_def path_str_def root_ok_def)
  qed
  then show "fst (popOldEventsTo old ''.'' d) = map (\<lambda>y. (out_path (fst y), snd y)) (filter (\<lambda>y. old (snd y)) (tracked d))"
    and "tracked (snd (popOldEventsTo old ''.'' d)) = filter (\<lambda>y. \<not> old (snd y)) (tracked d)"
    and "root_ok (snd (popOldEventsTo old ''.'' d))" by blast+
qed

text \<open>One or two sweeps over the tree, as \<open>actOnTimer\<close> makes them.\<close>

definition swept :: "aggregator \<Rightarrow> (string \<times> aggregatedEvent) list \<Rightarrow> aggregator \<Rightarrow> bool" where
  "swept a out a' \<longleftrightarrow>
     (\<exists>old. set out = (\<lambda>y. (out_path (fst y), snd y)) ` {y \<in> set (tracked (ag_root a)). old y}
        \<and> tracked (ag_root a') = filter (\<lambda>y. \<not> old y) (tracked (ag_root a)))
     \<and> root_ok (ag_root a')
     \<and> counter_total (ag_counts a') - int (length (tracked (ag_root a')))
         = counter_total (ag_counts a) - int (length (tracked (ag_root a)))
     \<and> counter_total (ag_counts a') \<le> counter_total (ag_counts a)
     \<and> ag_timer a' = ag_timer a \<and> ag_needsReset a' = ag_needsReset a
     \<and> ag_notifyDelay a' = ag_notifyDelay a \<and> ag_notifyTimeout a' = ag_notifyTimeout a"

lemma total_foldl: "counter_total (foldl (\<lambda>c x. counter_add (f x) (- 1) c) c xs) = counter_total c - int (length xs)"
  by (induction xs arbitrary: c) auto

lemma pop_events_swept:
  assumes "root_ok (ag_root a)" and "pop_events now b a = (out, a')"
  shows "swept a out a'"
    and "\<forall>y \<in> set (tracked (ag_root a)). time_Sub now (ae_firstModTime (snd y)) > ag_notifyTimeout a \<longrightarrow> (out_path (fst y), snd y) \<in> set out"
proof -
  let ?old = "isOld (ag_notifyDelay a) (ag_notifyTimeout a) now b"
  note p = pop_root [OF assms(1), of ?old]
  have e: "out = map (\<lambda>y. (out_path (fst y), snd y)) (filter (\<lambda>y. ?old (snd y)) (tracked (ag_root a)))"
    "ag_root a' = snd (popOldEventsTo ?old ''.'' (ag_root a))"
    "ag_counts a' = foldl (\<lambda>c x. counter_add (ae_evType (snd x)) (- 1) c) (ag_counts a) out"
    "ag_timer a' = ag_timer a" "ag_needsReset a' = ag_needsReset a"
    "ag_notifyDelay a' = ag_notifyDelay a" "ag_notifyTimeout a' = ag_notifyTimeout a"
    using assms(2) p(1) by (auto simp: pop_events_def split: prod.splits)
  have len: "length (filter (\<lambda>y. ?old (snd y)) xs) + length (filter (\<lambda>y. \<not> ?old (snd y)) xs) = length xs" for xs
    by (rule sum_length_filter_compl)
  have "\<exists>old. set out = (\<lambda>y. (out_path (fst y), snd y)) ` {y \<in> set (tracked (ag_root a)). old y}
        \<and> tracked (ag_root a') = filter (\<lambda>y. \<not> old y) (tracked (ag_root a))"
    by (rule exI [of _ "\<lambda>y. ?old (snd y)"]) (use e(1,2) p(2) in simp)
  then show "swept a out a'"
    unfolding swept_def e(3-7) total_foldl using e(1,2) p(2,3) len [of "tracked (ag_root a)"] by simp
  show "\<forall>y \<in> set (tracked (ag_root a)). time_Sub now (ae_firstModTime (snd y)) > ag_notifyTimeout a \<longrightarrow> (out_path (fst y), snd y) \<in> set out"
    unfolding e(1) by (auto simp: isOld_def)
qed

lemma swept_trans:
  assumes "swept a out a'" and "swept a' out' a''"
  shows "swept a (out @ out') a''"
proof -
  obtain o1 where o1: "set out = (\<lambda>y. (out_path (fst y), snd y)) ` {y \<in> set (tracked (ag_root a)). o1 y}"
    "tracked (ag_root a') = filter (\<lambda>y. \<not> o1 y) (tracked (ag_root a))" using assms(1) unfolding swept_def by blast
  obtain o2 where o2: "set out' = (\<lambda>y. (out_path (fst y), snd y)) ` {y \<in> set (tracked (ag_root a')). o2 y}"
    "tracked (ag_root a'') = filter (\<lambda>y. \<not> o2 y) (tracked (ag_root a'))" using assms(2) unfolding swept_def by blast
  have "set (out @ out') = (\<lambda>y. (out_path (fst y), snd y)) ` {y \<in> set (tracked (ag_root a)). o1 y \<or> o2 y}"
    unfolding set_append o1(1) o2(1) o1(2) by auto
  moreover have "tracked (ag_root a'') = filter (\<lambda>y. \<not> (o1 y \<or> o2 y)) (tracked (ag_root a))"
    unfolding o2(2) o1(2) by simp
  ultimately have old: "\<exists>old. set (out @ out') = (\<lambda>y. (out_path (fst y), snd y)) ` {y \<in> set (tracked (ag_root a)). old y}
        \<and> tracked (ag_root a'') = filter (\<lambda>y. \<not> old y) (tracked (ag_root a))"
    by (intro exI [of _ "\<lambda>y. o1 y \<or> o2 y"] conjI)
  note rest = assms [unfolded swept_def, THEN conjunct2]
  show ?thesis unfolding swept_def
    by (intro conjI) (rule old, use rest in \<open>simp_all (no_asm_simp)\<close>)
qed

lemma swept_refl: "root_ok (ag_root a) \<Longrightarrow> swept a [] a"
  unfolding swept_def by (auto intro!: exI [of _ "\<lambda>y. False"])

lemma actOnTimer_cases:
  assumes "root_ok (ag_root a)" and "actOnTimer now1 now2 a = (out, a')"
  obtains (idle) "counter_total (ag_counts a) = 0" "out = []" "a' = a\<lparr>ag_needsReset := True\<rparr>"
  | (again) a1 where "counter_total (ag_counts a) \<noteq> 0" "swept a [] a1" "out = []" "a' = resetNotifyTimer (ag_notifyDelay a1) a1"
      "\<forall>y \<in> set (tracked (ag_root a)). \<not> time_Sub now1 (ae_firstModTime (snd y)) > ag_notifyTimeout a"
  | (hand) "counter_total (ag_counts a) \<noteq> 0" "swept a out a'" "out \<noteq> []"
      "\<forall>y \<in> set (tracked (ag_root a)). time_Sub now1 (ae_firstModTime (snd y)) > ag_notifyTimeout a \<longrightarrow> (out_path (fst y), snd y) \<in> set out"
proof (cases "counter_total (ag_counts a) = 0")
  case True
  then show ?thesis using idle assms(2) by (simp add: actOnTimer_def)
next
  case False
  obtain out1 a1 where p1: "pop_events now1 True a = (out1, a1)" by force
  note s1 = pop_events_swept [OF assms(1) p1]
  obtain out2 a2 where p2: "(if ag_notifyDelay a1 \<noteq> ag_notifyTimeout a1 \<and> ec_nonRemoves (ag_counts a1) = 0
      \<and> ec_removes (ag_counts a1) \<noteq> 0 then pop_events now2 False a1 else ([], a1)) = (out2, a2)" by force
  have r1: "root_ok (ag_root a1)" using s1(1) by (simp add: swept_def)
  have "swept a1 out2 a2"
    using p2 pop_events_swept(1) [OF r1, of now2 False out2 a2] swept_refl [OF r1] by (simp split: if_splits)
  then have s: "swept a (out1 @ out2) a2" by (rule swept_trans [OF s1(1)])
  have old: "\<forall>y \<in> set (tracked (ag_root a)). time_Sub now1 (ae_firstModTime (snd y)) > ag_notifyTimeout a
      \<longrightarrow> (out_path (fst y), snd y) \<in> set (out1 @ out2)" using s1(2) by simp
  have act: "actOnTimer now1 now2 a =
      (if out1 @ out2 = [] then ([], resetNotifyTimer (ag_notifyDelay a2) a2) else (out1 @ out2, a2))"
    unfolding actOnTimer_def using False p1 p2 by simp
  show ?thesis
  proof (cases "out1 @ out2 = []")
    case True
    then show ?thesis using again [OF False, of a2] s old act assms(2) by auto
  next
    case nonempty: False
    then show ?thesis using hand [OF False] s old act assms(2) by auto
  qed
qed

section \<open>The main loop\<close>

datatype item_event = ItemStarted string | ItemFinished string

definition updateInProgressSet :: "item_event \<Rightarrow> string set \<Rightarrow> string set" where
  "updateInProgressSet event inProgress =
     (case event of ItemStarted path \<Rightarrow> insert path inProgress | ItemFinished path \<Rightarrow> inProgress - {path})"

text \<open>
  The state of the loop: the aggregator, the paths that are being pulled, the time of the last step,
  and whether a \<open>notify\<close> goroutine is on its way to the reset channel.
\<close>

record watch_state =
  ws_agg :: aggregator
  ws_inProgress :: "string set"
  ws_clock :: Time
  ws_notifying :: bool

definition handed :: "(string \<times> aggregatedEvent) list \<Rightarrow> string list \<Rightarrow> bool" where
  "handed out p \<longleftrightarrow> (\<exists>x \<in> set out. prefix (path_elems (fst x)) p)"

text \<open>
  The runs of \<open>mainLoop\<close>, one rule per case of the \<open>select\<close>. The list holds the events
  reported so far, as path and time, that have not been handed to the scanner since (an event on a
  path that is being pulled is not to be handed on). Names are clean paths below the root, and
  time does not run backwards.
\<close>

inductive watch_run :: "watch_state \<Rightarrow> (string list \<times> Time) list \<Rightarrow> bool" where
  start: "Time_ok clock \<Longrightarrow>
    watch_run \<lparr>ws_agg = (newAggregator delay timeout)\<lparr>ag_timer := Some delay\<rparr>, ws_inProgress = {}, ws_clock = clock,
      ws_notifying = False\<rparr> []"
| event: "\<lbrakk>watch_run s pend; plain_path ps; ev_Name ev = path_str ps; ev_Type ev \<in> {NonRemove, Remove, Mixed};
     time_le (ws_clock s) evTime; Time_ok evTime; Time_ok now;
     newEvent now evTime ev (ws_inProgress s) (ws_agg s) = Some a\<rbrakk> \<Longrightarrow>
    watch_run (s\<lparr>ws_agg := a, ws_clock := evTime\<rparr>)
      (if ev_Name ev \<in> ws_inProgress s then pend else (ps, evTime) # pend)"
| item: "watch_run s pend \<Longrightarrow> watch_run (s\<lparr>ws_inProgress := updateInProgressSet it (ws_inProgress s)\<rparr>) pend"
| timer: "\<lbrakk>watch_run s pend; ag_timer (ws_agg s) \<noteq> None;
     actOnTimer now1 now2 ((ws_agg s)\<lparr>ag_timer := None\<rparr>) = (out, a)\<rbrakk> \<Longrightarrow>
    watch_run (s\<lparr>ws_agg := a, ws_notifying := out \<noteq> []\<rparr>) (filter (\<lambda>x. \<not> handed out (fst x)) pend)"
| reset: "\<lbrakk>watch_run s pend; ws_notifying s\<rbrakk> \<Longrightarrow>
    watch_run (s\<lparr>ws_agg := resetNotifyTimer (notify_nextDelay (ag_notifyDelay (ws_agg s)) duration) (ws_agg s),
      ws_notifying := False\<rparr>) pend"
| config: "watch_run s pend \<Longrightarrow>
    watch_run (s\<lparr>ws_agg := (ws_agg s)\<lparr>ag_notifyDelay := delay, ag_notifyTimeout := timeout\<rparr>\<rparr>) pend"

definition watch_inv :: "watch_state \<Rightarrow> (string list \<times> Time) list \<Rightarrow> bool" where
  "watch_inv s pend \<longleftrightarrow> agg_inv (ws_clock s) (ws_agg s) \<and> Time_ok (ws_clock s)
     \<and> (\<forall>x \<in> set pend. Time_ok (snd x) \<and> covered_by (tracked (ag_root (ws_agg s))) (fst x) (snd x))
     \<and> (if ws_notifying s then ag_timer (ws_agg s) = None \<and> \<not> ag_needsReset (ws_agg s)
        else (ag_timer (ws_agg s) = None) = ag_needsReset (ws_agg s))"

lemma handed_out_path: "root_ok d \<Longrightarrow> y \<in> set (tracked d) \<Longrightarrow> (out_path (fst y), e) \<in> set out \<Longrightarrow> covers (fst y) p \<Longrightarrow> handed out p"
proof -
  assume a: "root_ok d" "y \<in> set (tracked d)" "(out_path (fst y), e) \<in> set out" "covers (fst y) p"
  have "plain_path (filter (\<lambda>x. x \<noteq> ''.'') (fst y))"
    using a(1,2) dir_ok_plain [of maxFiles d y] plain_filter by (fastforce simp: root_ok_def)
  then have "path_elems (out_path (fst y)) = filter (\<lambda>x. x \<noteq> ''.'') (fst y)"
    unfolding out_path_def by (rule path_elems_plain)
  then show ?thesis using a(3,4) unfolding handed_def covers_def by force
qed

lemma swept_covered:
  assumes "root_ok (ag_root a)" and "swept a out a'" and "covered_by (tracked (ag_root a)) p t" and "\<not> handed out p"
  shows "covered_by (tracked (ag_root a')) p t"
proof -
  obtain old where o: "set out = (\<lambda>y. (out_path (fst y), snd y)) ` {y \<in> set (tracked (ag_root a)). old y}"
    "tracked (ag_root a') = filter (\<lambda>y. \<not> old y) (tracked (ag_root a))" using assms(2) unfolding swept_def by blast
  obtain y where y: "y \<in> set (tracked (ag_root a))" "covers (fst y) p" "time_le (ae_firstModTime (snd y)) t"
    using assms(3) unfolding covered_by_def by blast
  have "\<not> old y" using handed_out_path [OF assms(1) y(1) _ y(2), of "snd y" out] o(1) y(1) assms(4) by blast
  then have "y \<in> set (tracked (ag_root a'))" using y(1) o(2) by simp
  then show ?thesis using y(2,3) unfolding covered_by_def by blast
qed

lemma swept_inv:
  assumes "agg_inv clock a" and "swept a out a'" and "\<not> ag_needsReset a"
  shows "agg_inv clock a'"
proof -
  obtain old where "tracked (ag_root a') = filter (\<lambda>y. \<not> old y) (tracked (ag_root a))" using assms(2) unfolding swept_def by blast
  then have "seen_by clock (ag_root a')" using assms(1) by (auto simp: agg_inv_def seen_by_def)
  then show ?thesis using assms unfolding agg_inv_def swept_def by auto
qed

lemma agg_inv_timer: "agg_inv clock (a\<lparr>ag_timer := x\<rparr>) = agg_inv clock a"
  by (simp add: agg_inv_def)

lemma agg_inv_reset: "agg_inv clock a \<Longrightarrow> agg_inv clock (resetNotifyTimer n a)"
  by (simp add: agg_inv_def resetNotifyTimer_def)

lemma agg_inv_later: "agg_inv clock a \<Longrightarrow> time_le clock clock' \<Longrightarrow> agg_inv clock' a"
  unfolding agg_inv_def seen_by_def using time_le_trans by blast

lemma timer_inv:
  assumes inv: "watch_inv s pend" and timer: "ag_timer (ws_agg s) \<noteq> None"
    and act: "actOnTimer now1 now2 ((ws_agg s)\<lparr>ag_timer := None\<rparr>) = (out, a)"
  shows "watch_inv (s\<lparr>ws_agg := a, ws_notifying := out \<noteq> []\<rparr>) (filter (\<lambda>x. \<not> handed out (fst x)) pend)"
proof -
  let ?a = "(ws_agg s)\<lparr>ag_timer := None\<rparr>"
  have i: "agg_inv (ws_clock s) ?a" "\<not> ag_needsReset ?a" "root_ok (ag_root ?a)"
    using inv timer by (auto simp: watch_inv_def agg_inv_timer agg_inv_def split: if_splits)
  show ?thesis
  proof (rule actOnTimer_cases [OF i(3) act], goal_cases idle again hand)
    case idle
    then have "tracked (ag_root ?a) = []" using i(1) by (auto simp: agg_inv_def)
    then have "childCount (ag_root ?a) = 0"
      using i(3) tracked_nonempty [of maxFiles "ag_root ?a"] by (auto simp: root_ok_def)
    then show ?thesis using inv idle i by (auto simp: watch_inv_def agg_inv_def)
  next
    case (again a1)
    have "agg_inv (ws_clock s) a" using agg_inv_reset [OF swept_inv [OF i(1) again(2) i(2)]] again(4) by simp
    moreover have "covered_by (tracked (ag_root a)) (fst x) (snd x)" if "x \<in> set pend" for x
      using swept_covered [OF i(3) again(2), of "fst x" "snd x"] inv that again(4)
      by (simp add: watch_inv_def resetNotifyTimer_def handed_def)
    ultimately show ?thesis using inv again(3,4) by (auto simp: watch_inv_def resetNotifyTimer_def)
  next
    case hand
    have "agg_inv (ws_clock s) a" by (rule swept_inv [OF i(1) hand(2) i(2)])
    moreover have "covered_by (tracked (ag_root a)) (fst x) (snd x)" if "x \<in> set pend" "\<not> handed out (fst x)" for x
      using swept_covered [OF i(3) hand(2) _ that(2)] inv that(1) by (simp add: watch_inv_def)
    ultimately show ?thesis using inv hand(2,3) i(2) by (auto simp: watch_inv_def swept_def)
  qed
qed

lemma event_inv:
  assumes inv: "watch_inv s pend" and ev: "plain_path ps" "ev_Name ev = path_str ps" "ev_Type ev \<in> {1, 2, 3}"
    and time: "time_le (ws_clock s) evTime" "Time_ok evTime" "Time_ok now"
    and new: "newEvent now evTime ev (ws_inProgress s) (ws_agg s) = Some a"
  shows "watch_inv (s\<lparr>ws_agg := a, ws_clock := evTime\<rparr>) (if ev_Name ev \<in> ws_inProgress s then pend else (ps, evTime) # pend)"
proof -
  have i: "agg_inv evTime (ws_agg s)" using inv agg_inv_later [OF _ time(1)] by (simp add: watch_inv_def)
  note n = newEvent_ok [OF i ev time(3,2), of "ws_inProgress s", unfolded new option.inject ex_simps(1)]
  show ?thesis
  proof (cases "ev_Name ev \<in> ws_inProgress s \<or> map_of (ed_events (ag_root (ws_agg s))) ''.'' \<noteq> None")
    case True
    then have a: "a = ws_agg s" using n by auto
    have "covered_by (tracked (ag_root (ws_agg s))) ps evTime" if np: "ev_Name ev \<notin> ws_inProgress s"
    proof -
      obtain e where "map_of (ed_events (ag_root (ws_agg s))) ''.'' = Some e" using True np by auto
      then have e: "(''.'', e) \<in> set (ed_events (ag_root (ws_agg s)))" by (rule map_of_SomeD)
      then have "([''.''], e) \<in> set (tracked (ag_root (ws_agg s)))" by (cases "ag_root (ws_agg s)") (force simp: set_tracked)
      moreover from this have "time_le (ae_firstModTime e) evTime" using i unfolding agg_inv_def seen_by_def by force
      ultimately show ?thesis using covers_dot unfolding covered_by_def by force
    qed
    then show ?thesis using inv i a time(2) by (auto simp: watch_inv_def)
  next
    case False
    then have "taken_up evTime ps (ws_agg s) a" using n by auto
    then show ?thesis using inv False time(2) by (auto simp: watch_inv_def taken_up_def split: if_splits)
  qed
qed

lemma watch_run_inv: "watch_run s pend \<Longrightarrow> watch_inv s pend"
proof (induction rule: watch_run.induct)
  case (start clock delay timeout)
  then show ?case
    by (simp add: watch_inv_def agg_inv_def newAggregator_def newEventDir_def root_ok_def seen_by_def counter_total_def)
next
  case (event s pend ps ev evTime now a)
  show ?case by (rule event_inv [OF event.IH event.hyps(2-)])
next
  case (timer s pend now1 now2 out a)
  show ?case by (rule timer_inv [OF timer.IH timer.hyps(2-)])
qed (simp_all add: watch_inv_def agg_inv_def resetNotifyTimer_def)

declare aggregateEvent.simps [code]

section \<open>Properties\<close>

text \<open>C10. No event is lost. In every run of the aggregator, each event that was reported and not
  handed to the scanner since is covered by a tracked path, the same or one above it, with a time not
  later than its own; no more than 512 paths are tracked; as long as an event is outstanding, the timer is
  running or a notification is on its way; and the next event is always taken up, without a panic
  and without endless recursion.\<close>

theorem watch_no_event_lost:
  assumes "watch_run s pend"
  shows "(\<forall>(p, t) \<in> set pend. \<exists>(q, e) \<in> set (tracked (ag_root (ws_agg s))).
           prefix (path_elems (out_path q)) p \<and> \<not> time_Before t (ae_firstModTime e))
     \<and> length (tracked (ag_root (ws_agg s))) \<le> 512
     \<and> (pend \<noteq> [] \<longrightarrow> ag_timer (ws_agg s) \<noteq> None \<or> ws_notifying s)
     \<and> (\<forall>ps ev now evTime. plain_path ps \<and> ev_Name ev = path_str ps \<and> ev_Type ev \<in> {NonRemove, Remove, Mixed}
           \<and> \<not> time_Before evTime (ws_clock s) \<and> Time_ok evTime \<and> Time_ok now
           \<longrightarrow> (\<exists>a. newEvent now evTime ev (ws_inProgress s) (ws_agg s) = Some a))"
proof (intro conjI)
  let ?r = "ag_root (ws_agg s)"
  note i = watch_run_inv [OF assms, unfolded watch_inv_def]
  have rok: "root_ok ?r" using i by (simp add: agg_inv_def)
  have el: "path_elems (out_path (fst y)) = filter (\<lambda>x. x \<noteq> ''.'') (fst y)" if "y \<in> set (tracked ?r)" for y
  proof -
    have "plain_path (filter (\<lambda>x. x \<noteq> ''.'') (fst y))"
      using rok that dir_ok_plain [of maxFiles ?r y] plain_filter by (fastforce simp: root_ok_def)
    then show ?thesis unfolding out_path_def by (rule path_elems_plain)
  qed
  have "\<exists>y \<in> set (tracked ?r). prefix (path_elems (out_path (fst y))) (fst x) \<and> \<not> time_Before (snd x) (ae_firstModTime (snd y))"
    if "x \<in> set pend" for x
    using i that el unfolding covered_by_def covers_def time_le_def by metis
  then show "\<forall>(p, t) \<in> set pend. \<exists>(q, e) \<in> set (tracked ?r). prefix (path_elems (out_path q)) p \<and> \<not> time_Before t (ae_firstModTime e)"
    by (auto simp: split_beta)
  show "length (tracked ?r) \<le> 512" using i by (simp add: agg_inv_def maxFiles_def)
  show "pend \<noteq> [] \<longrightarrow> ag_timer (ws_agg s) \<noteq> None \<or> ws_notifying s"
  proof
    assume "pend \<noteq> []"
    then have "tracked ?r \<noteq> []" using i by (cases pend) (auto simp: covered_by_def)
    then have "\<not> ag_needsReset (ws_agg s)" using i tracked_empty by (auto simp: agg_inv_def)
    then show "ag_timer (ws_agg s) \<noteq> None \<or> ws_notifying s" using i by (auto split: if_splits)
  qed
  show "\<forall>ps ev now evTime. plain_path ps \<and> ev_Name ev = path_str ps \<and> ev_Type ev \<in> {NonRemove, Remove, Mixed}
       \<and> \<not> time_Before evTime (ws_clock s) \<and> Time_ok evTime \<and> Time_ok now
       \<longrightarrow> (\<exists>a. newEvent now evTime ev (ws_inProgress s) (ws_agg s) = Some a)"
    using i agg_inv_later [of "ws_clock s" "ws_agg s"] newEvent_ok unfolding time_le_def by meson
qed

text \<open>C28. Every event is handed over in time: when the timer fires, each outstanding event that was
  reported more than the notify timeout ago is covered by one of the paths handed to the scanner, no
  matter how many later events have been merged with it.\<close>

theorem watch_timeout_hands_over:
  assumes "watch_run s pend" and "(p, t) \<in> set pend" and "Time_ok now1"
    and "actOnTimer now1 now2 ((ws_agg s)\<lparr>ag_timer := None\<rparr>) = (out, a)"
    and "time_Sub now1 t > ag_notifyTimeout (ws_agg s)"
  shows "\<exists>(path, e) \<in> set out. prefix (path_elems path) p"
proof -
  let ?a = "(ws_agg s)\<lparr>ag_timer := None\<rparr>"
  note i = watch_run_inv [OF assms(1), unfolded watch_inv_def]
  have rok: "root_ok (ag_root ?a)" using i by (simp add: agg_inv_def)
  obtain y where y: "y \<in> set (tracked (ag_root ?a))" "covers (fst y) p" "time_le (ae_firstModTime (snd y)) t"
    and t: "Time_ok t" using i assms(2) unfolding covered_by_def by fastforce
  have "Time_ok (ae_firstModTime (snd y))"
    using rok y(1) dir_ok_plain [of maxFiles "ag_root ?a" y] by (auto simp: root_ok_def ev_ok_def)
  then have old: "time_Sub now1 (ae_firstModTime (snd y)) > ag_notifyTimeout ?a"
    using time_Sub_mono [OF y(3) _ t assms(3)] assms(5) by simp
  have pos: "counter_total (ag_counts ?a) > 0" using i y(1) by (cases "tracked (ag_root (ws_agg s))") (auto simp: agg_inv_def)
  have "(out_path (fst y), snd y) \<in> set out"
  proof (rule actOnTimer_cases [OF rok assms(4)], goal_cases idle again hand)
    case idle
    then show ?case using pos by simp
  next
    case again
    then show ?case using old y(1) by blast
  next
    case hand
    then show ?case using old y(1) by blast
  qed
  then have "handed out p" by (rule handed_out_path [OF rok y(1) _ y(2)])
  then show ?thesis unfolding handed_def by fastforce
qed

definition example_time :: "int \<Rightarrow> Time" where
  "example_time n = \<lparr>t_sec = n, t_nsec = 0\<rparr>"

definition example_watch :: "fsEvent list \<Rightarrow> aggregator option" where
  "example_watch evs = foldl (\<lambda>a ev. case a of None \<Rightarrow> None | Some a \<Rightarrow> newEvent (example_time 1) (example_time 1) ev {} a)
     (Some ((newAggregator (10 * 10 ^ 9) (60 * 10 ^ 9))\<lparr>ag_timer := Some (10 * 10 ^ 9)\<rparr>)) evs"

definition example_event :: "string \<Rightarrow> int \<Rightarrow> fsEvent" where
  "example_event n t = \<lparr>ev_Name = n, ev_Type = t\<rparr>"

lemma example_watch_runs:
  "watch_run \<lparr>ws_agg = the (example_watch [example_event ''a/b'' Remove]), ws_inProgress = {}, ws_clock = example_time 1,
     ws_notifying = False\<rparr> [([''a'', ''b''], example_time 1)]"
proof -
  let ?a0 = "(newAggregator (10 * 10 ^ 9) (60 * 10 ^ 9))\<lparr>ag_timer := Some (10 * 10 ^ 9)\<rparr>"
  let ?s0 = "\<lparr>ws_agg = ?a0, ws_inProgress = {}, ws_clock = example_time 0, ws_notifying = False\<rparr>"
  have s0: "watch_run ?s0 []" by (rule watch_run.start) (simp add: example_time_def Time_ok_def)
  have new: "newEvent (example_time 1) (example_time 1) (example_event ''a/b'' Remove) {} ?a0 =
      Some (the (example_watch [example_event ''a/b'' Remove]))"
    by code_simp
  have "watch_run (?s0\<lparr>ws_agg := the (example_watch [example_event ''a/b'' Remove]), ws_clock := example_time 1\<rparr>)
      (if ev_Name (example_event ''a/b'' Remove) \<in> ws_inProgress ?s0 then [] else ([''a'', ''b''], example_time 1) # [])"
    by (rule watch_run.event [OF s0]) (use new in \<open>simp_all add: example_event_def example_time_def plain_elem_def path_str_def
      time_le_def time_Before_def Time_ok_def\<close>)
  then show ?thesis by (simp add: example_event_def)
qed

theorem watch_no_event_lost_witness:
  "\<exists>s. watch_run s [([''a'', ''b''], example_time 1)] \<and> length (tracked (ag_root (ws_agg s))) \<le> 512
     \<and> (ag_timer (ws_agg s) \<noteq> None \<or> ws_notifying s)"
  using example_watch_runs watch_no_event_lost [OF example_watch_runs] by blast

theorem watch_timeout_hands_over_witness:
  "\<exists>s out a. watch_run s [([''a'', ''b''], example_time 1)]
     \<and> actOnTimer (example_time 100) (example_time 100) ((ws_agg s)\<lparr>ag_timer := None\<rparr>) = (out, a)
     \<and> (\<exists>(path, e) \<in> set out. prefix (path_elems path) [''a'', ''b''])"
proof -
  let ?a = "the (example_watch [example_event ''a/b'' Remove])"
  let ?s = "\<lparr>ws_agg = ?a, ws_inProgress = {}, ws_clock = example_time 1, ws_notifying = False\<rparr>"
  obtain out a where act: "actOnTimer (example_time 100) (example_time 100) ((ws_agg ?s)\<lparr>ag_timer := None\<rparr>) = (out, a)"
    by force
  have "time_Sub (example_time 100) (example_time 1) > ag_notifyTimeout ?a" by code_simp
  then have "\<exists>(path, e) \<in> set out. prefix (path_elems path) [''a'', ''b'']"
    using watch_timeout_hands_over [OF example_watch_runs _ _ act, of "[''a'', ''b'']" "example_time 1"]
    by (simp add: example_time_def Time_ok_def)
  then show ?thesis using example_watch_runs act by blast
qed

text \<open>
  The counters only bound the number of tracked events. When an event replaces the directory above
  earlier events, those are not subtracted: after the two events below have been handed over as one,
  nothing is tracked, but the counter still says one.
\<close>

lemma counts_drift:
  "case example_watch [example_event ''a/b'' Remove, example_event ''a'' Remove] of
     None \<Rightarrow> False
   | Some a \<Rightarrow>
       (case actOnTimer (example_time 100) (example_time 100) a of
          (out, a') \<Rightarrow> map fst out = [''a''] \<and> childCount (ag_root a') = 0 \<and> counter_total (ag_counts a') = 1)"
  by code_simp

end
