(* ===== verification/Framing.thy ===== *)
theory Framing
  imports Wire
begin

text \<open>
  Messages on the wire, \<open>lib/protocol/protocol.go\<close> and \<open>bep_hello.go\<close>: a header with its length,
  the message with its length, compressed or not, and the hello exchanged first. The peer's
  bytes are a list; reading takes them from its front. The protobuf encoder and the LZ4 block
  compressor are parameters.
\<close>

section \<open>Messages\<close>

record bep_TunnelData =
  td_Command :: int
  td_TunnelId :: uint64
  td_RemoteServiceName :: "string option"
  td_TunnelDestinationAddress :: "string option"
  td_Data :: "bytes option"
  td_DataPackageCounter :: "uint32 option"

datatype message =
    MClusterConfig bep_ClusterConfig
  | MIndex bep_Index
  | MIndexUpdate bep_IndexUpdate
  | MRequest Request
  | MResponse Response
  | MDownloadProgress bep_DownloadProgress
  | MTunnelData bep_TunnelData
  | MPing
  | MClose string

fun typeOf :: "message \<Rightarrow> int" where
  "typeOf (MClusterConfig _) = 0"
| "typeOf (MIndex _) = 1"
| "typeOf (MIndexUpdate _) = 2"
| "typeOf (MRequest _) = 3"
| "typeOf (MResponse _) = 4"
| "typeOf (MDownloadProgress _) = 5"
| "typeOf (MTunnelData _) = 64"
| "typeOf MPing = 6"
| "typeOf (MClose _) = 7"

text \<open>The types \<open>newMessage\<close> makes an empty message for; the others are unknown.\<close>

definition newMessage_known :: "int \<Rightarrow> bool" where
  "newMessage_known t \<longleftrightarrow> t \<in> {0, 1, 2, 3, 4, 5, 64, 6, 7}"

section \<open>Sizes\<close>

definition MaxMessageLen :: nat where "MaxMessageLen = 500 * 1000 * 1000"
definition compressionThreshold :: nat where "compressionThreshold = 128"

definition MessageCompressionNone :: int where "MessageCompressionNone = 0"
definition MessageCompressionLZ4 :: int where "MessageCompressionLZ4 = 1"

text \<open>
  The encoder of messages and of headers (type and compression), and the compressor: \<open>lz4_block src n\<close>
  is the compressed block if it has at most \<open>n\<close> bytes, empty if it does not compress, \<open>None\<close> an
  error; \<open>lz4_unblock src n\<close> the data if it has at most \<open>n\<close> bytes.
\<close>

record codec =
  enc_msg :: "message \<Rightarrow> bytes option"
  dec_msg :: "int \<Rightarrow> bytes \<Rightarrow> message option"
  enc_hdr :: "int \<times> int \<Rightarrow> bytes option"
  dec_hdr :: "bytes \<Rightarrow> (int \<times> int) option"
  lz4_block :: "bytes \<Rightarrow> nat \<Rightarrow> bytes option"
  lz4_unblock :: "bytes \<Rightarrow> nat \<Rightarrow> bytes option"

datatype frame_error =
    ErrReading string
  | ErrNegativeHeader int
  | ErrUnmarshalHeader
  | ErrNegativeMessage int
  | ErrMessageTooLong int
  | ErrTooShort nat
  | ErrTooLarge nat
  | ErrDecompress
  | ErrUnknownCompression int
  | ErrUnmarshalMessage
  | ErrMarshalMessage
  | ErrMarshalHeader
  | PanicLargeHeader
  | PanicCompression

section \<open>Writing\<close>

definition lz4Compress :: "codec \<Rightarrow> bytes \<Rightarrow> nat \<Rightarrow> bytes option" where
  "lz4Compress c src buflen =
     (case lz4_block c src (buflen - 4) of
        None \<Rightarrow> None
      | Some b \<Rightarrow> if b = [] then None else Some (put_be 4 (length src) @ b))"

definition lz4Decompress :: "codec \<Rightarrow> bytes \<Rightarrow> (frame_error, bytes) result" where
  "lz4Decompress c src =
     (if length src < 4 then Inl (ErrTooShort (length src))
      else
        let size = get_be (take 4 src) in
        if size > MaxMessageLen then Inl (ErrTooLarge size)
        else (case lz4_unblock c (drop 4 src) size of None \<Rightarrow> Inl ErrDecompress | Some buf \<Rightarrow> Inr buf))"

text \<open>The encoded length is \<open>proto.Size\<close>; the argument is the encoded message.\<close>

definition shouldCompressMessage :: "Compression \<Rightarrow> message \<Rightarrow> bytes \<Rightarrow> (frame_error, bool) result" where
  "shouldCompressMessage compression msg body =
     (if compression = CompressionNever then Inr False
      else if compression = CompressionAlways then Inr (length body \<ge> compressionThreshold)
      else if compression = CompressionMetadata then
        Inr ((case msg of MResponse _ \<Rightarrow> False | _ \<Rightarrow> True) \<and> length body \<ge> compressionThreshold)
      else Inl PanicCompression)"

definition frame :: "bytes \<Rightarrow> bytes \<Rightarrow> bytes" where
  "frame hdr body = put_be 2 (length hdr) @ hdr @ put_be 4 (length body) @ body"

text \<open>\<open>None\<close> is the result \<open>false\<close>: the caller sends the message uncompressed.\<close>

definition writeCompressedMessage :: "codec \<Rightarrow> message \<Rightarrow> bytes \<Rightarrow> (frame_error, bytes) result option" where
  "writeCompressedMessage c msg marshaled =
     (case enc_hdr c (typeOf msg, MessageCompressionLZ4) of
        None \<Rightarrow> Some (Inl ErrMarshalHeader)
      | Some hdr \<Rightarrow>
          if length hdr > 2 ^ 16 - 1 then Some (Inl PanicLargeHeader)
          else (case lz4Compress c marshaled (length marshaled - length marshaled div 32) of
                  None \<Rightarrow> None
                | Some b \<Rightarrow> Some (Inr (frame hdr b))))"

definition writeMessage :: "codec \<Rightarrow> Compression \<Rightarrow> message \<Rightarrow> (frame_error, bytes) result" where
  "writeMessage c compression msg =
     (case enc_hdr c (typeOf msg, MessageCompressionNone) of
        None \<Rightarrow> Inl ErrMarshalHeader
      | Some hdr \<Rightarrow>
          if length hdr > 2 ^ 16 - 1 then Inl PanicLargeHeader
          else (case enc_msg c msg of
                  None \<Rightarrow> Inl ErrMarshalMessage
                | Some body \<Rightarrow>
                    (case shouldCompressMessage compression msg body of
                       Inl e \<Rightarrow> Inl e
                     | Inr b \<Rightarrow>
                         (case (if b then writeCompressedMessage c msg body else None) of
                            Some r \<Rightarrow> r
                          | None \<Rightarrow> Inr (frame hdr body)))))"

section \<open>Reading\<close>

text \<open>\<open>io.ReadFull\<close>.\<close>

definition ReadFull :: "string \<Rightarrow> nat \<Rightarrow> bytes \<Rightarrow> (frame_error, bytes \<times> bytes) result" where
  "ReadFull what n s = (if length s < n then Inl (ErrReading what) else Inr (take n s, drop n s))"

definition readHeader :: "codec \<Rightarrow> bytes \<Rightarrow> (frame_error, (int \<times> int) \<times> bytes) result" where
  "readHeader c s =
     (case ReadFull ''reading length'' 2 s of
        Inl e \<Rightarrow> Inl e
      | Inr (b, s1) \<Rightarrow>
          let hdrLen = wrap_signed 16 (int (get_be b)) in
          if hdrLen < 0 then Inl (ErrNegativeHeader hdrLen)
          else (case ReadFull ''reading header'' (nat hdrLen) s1 of
                  Inl e \<Rightarrow> Inl e
                | Inr (buf, s2) \<Rightarrow>
                    (case dec_hdr c buf of None \<Rightarrow> Inl ErrUnmarshalHeader | Some hdr \<Rightarrow> Inr (hdr, s2))))"

text \<open>A message, \<open>None\<close> for one of an unknown type, and the bytes after it.\<close>

definition readMessageAfterHeader :: "codec \<Rightarrow> int \<times> int \<Rightarrow> bytes \<Rightarrow> (frame_error, message option \<times> bytes) result" where
  "readMessageAfterHeader c hdr s =
     (case ReadFull ''reading message length'' 4 s of
        Inl e \<Rightarrow> Inl e
      | Inr (b, s1) \<Rightarrow>
          let msgLen = go_int32 (int (get_be b)) in
          if msgLen < 0 then Inl (ErrNegativeMessage msgLen)
          else if msgLen > int MaxMessageLen then Inl (ErrMessageTooLong msgLen)
          else (case ReadFull ''reading message'' (nat msgLen) s1 of
                  Inl e \<Rightarrow> Inl e
                | Inr (buf0, s2) \<Rightarrow>
                    (case (if snd hdr = MessageCompressionNone then Inr buf0
                           else if snd hdr = MessageCompressionLZ4 then lz4Decompress c buf0
                           else Inl (ErrUnknownCompression (snd hdr))) of
                       Inl e \<Rightarrow> Inl e
                     | Inr buf \<Rightarrow>
                         if \<not> newMessage_known (fst hdr) then Inr (None, s2)
                         else (case dec_msg c (fst hdr) buf of
                                 None \<Rightarrow> Inl ErrUnmarshalMessage
                               | Some msg \<Rightarrow> Inr (Some msg, s2)))))"

definition readMessage :: "codec \<Rightarrow> bytes \<Rightarrow> (frame_error, message option \<times> bytes) result" where
  "readMessage c s = (case readHeader c s of Inl e \<Rightarrow> Inl e | Inr (hdr, s1) \<Rightarrow> readMessageAfterHeader c hdr s1)"

lemma ReadFull_length: "ReadFull what n s = Inr (b, s') \<Longrightarrow> length s = n + length s'"
  by (auto simp: ReadFull_def split: if_splits)

lemma readHeader_consumes: "readHeader c s = Inr (hdr, s') \<Longrightarrow> length s' < length s"
  unfolding readHeader_def Let_def
  by (auto dest!: ReadFull_length simp: sum_case_Inr_iff split: prod.splits if_splits option.splits)

lemma readMessageAfterHeader_consumes: "readMessageAfterHeader c hdr s = Inr (m, s') \<Longrightarrow> length s' < length s"
proof -
  assume h: "readMessageAfterHeader c hdr s = Inr (m, s')"
  obtain b s1 where r: "ReadFull ''reading message length'' 4 s = Inr (b, s1)"
    using h by (cases "ReadFull ''reading message length'' 4 s") (auto simp: readMessageAfterHeader_def)
  define n where "n = go_int32 (int (get_be b))"
  note h1 = h [unfolded readMessageAfterHeader_def r sum.case prod.case Let_def, folded n_def]
  obtain buf s2 where r2: "ReadFull ''reading message'' (nat n) s1 = Inr (buf, s2)"
    using h1 by (cases "ReadFull ''reading message'' (nat n) s1") (auto split: if_splits)
  have "s' = s2" using h1 r2 by (auto split: if_splits sum.splits option.splits)
  then show ?thesis using ReadFull_length [OF r] ReadFull_length [OF r2] by simp
qed

lemma readMessage_consumes: "readMessage c s = Inr (m, s') \<Longrightarrow> length s' < length s"
  unfolding readMessage_def
  by (auto dest!: readHeader_consumes readMessageAfterHeader_consumes split: sum.splits prod.splits)

text \<open>The messages handed to the dispatcher, and the error that closes the connection.\<close>

function readerLoop :: "codec \<Rightarrow> bytes \<Rightarrow> message list \<times> frame_error" where
  "readerLoop c s =
     (case readMessage c s of
        Inl e \<Rightarrow> ([], e)
      | Inr (None, s') \<Rightarrow> readerLoop c s'
      | Inr (Some msg, s') \<Rightarrow> (let (msgs, e) = readerLoop c s' in (msg # msgs, e)))"
  by pat_completeness auto
termination
  by (relation "measure (\<lambda>(c, s). length s)") (auto dest: readMessage_consumes)

declare readerLoop.simps [simp del]

section \<open>The hello\<close>

record Hello =
  h_DeviceName :: string
  h_ClientName :: string
  h_ClientVersion :: string
  h_NumConnections :: int
  h_Timestamp :: int

text \<open>The wire record has the same fields; \<open>NumConnections\<close> is \<open>int32\<close> there.\<close>

definition Hello_toWire :: "Hello \<Rightarrow> Hello" where
  "Hello_toWire h = h\<lparr>h_NumConnections := go_int32 (h_NumConnections h)\<rparr>"

definition helloFromWire :: "Hello \<Rightarrow> Hello" where
  "helloFromWire w = w"

definition HelloMessageMagic :: nat where "HelloMessageMagic = 0x2EA7D90B"
definition Version13HelloMagic :: nat where "Version13HelloMagic = 0x9F79BC40"

datatype hello_error =
  ErrTooOldVersion | ErrUnknownMagic | ErrHelloRead | ErrHelloTooBig | ErrHelloMarshal | ErrHelloUnmarshal | PanicHelloTooLarge | PanicNoTimestamp

definition writeHello :: "(Hello \<Rightarrow> bytes option) \<Rightarrow> Hello \<Rightarrow> (hello_error, bytes) result" where
  "writeHello enc h =
     (case enc (Hello_toWire h) of
        None \<Rightarrow> Inl ErrHelloMarshal
      | Some msg \<Rightarrow>
          if length msg > 32767 then Inl PanicHelloTooLarge
          else Inr (put_be 4 HelloMessageMagic @ put_be 2 (length msg) @ msg))"

definition readHello :: "(bytes \<Rightarrow> Hello option) \<Rightarrow> bytes \<Rightarrow> (hello_error, Hello \<times> bytes) result" where
  "readHello dec s =
     (if length s < 4 then Inl ErrHelloRead
      else
        let magic = get_be (take 4 s); s1 = drop 4 s in
        if magic = HelloMessageMagic then
          if length s1 < 2 then Inl ErrHelloRead
          else
            let msgSize = get_be (take 2 s1); s2 = drop 2 s1 in
            if msgSize > 32767 then Inl ErrHelloTooBig
            else if length s2 < msgSize then Inl ErrHelloRead
            else (case dec (take msgSize s2) of
                    None \<Rightarrow> Inl ErrHelloUnmarshal
                  | Some wh \<Rightarrow> Inr (helloFromWire wh, drop msgSize s2))
        else if magic \<in> {0x00010001, 0x00010000, Version13HelloMagic} then Inl ErrTooOldVersion
        else Inl ErrUnknownMagic)"

text \<open>What we send, and what we get from the peer's bytes.\<close>

definition ExchangeHello :: "(Hello \<Rightarrow> bytes option) \<Rightarrow> (bytes \<Rightarrow> Hello option) \<Rightarrow> bytes \<Rightarrow> Hello \<Rightarrow> bytes \<times> (hello_error, Hello \<times> bytes) result" where
  "ExchangeHello enc dec peer h =
     (if h_Timestamp h = 0 then ([], Inl PanicNoTimestamp)
      else (case writeHello enc h of Inl e \<Rightarrow> ([], Inl e) | Inr out \<Rightarrow> (out, readHello dec peer)))"

definition IsVersionMismatch :: "hello_error \<Rightarrow> bool" where
  "IsVersionMismatch e \<longleftrightarrow> e = ErrTooOldVersion \<or> e = ErrUnknownMagic"

section \<open>What is written is read back\<close>

text \<open>What the library is relied on: encoded headers and messages decode, blocks decompress.\<close>

definition hdr_ok :: "codec \<Rightarrow> int \<Rightarrow> int \<Rightarrow> bool" where
  "hdr_ok c t cm \<longleftrightarrow> (\<exists>h. enc_hdr c (t, cm) = Some h \<and> length h \<le> 32767 \<and> dec_hdr c h = Some (t, cm))"

definition msg_ok :: "codec \<Rightarrow> message \<Rightarrow> bool" where
  "msg_ok c m \<longleftrightarrow> (\<exists>b. enc_msg c m = Some b \<and> length b \<le> MaxMessageLen \<and> dec_msg c (typeOf m) b = Some m)"

definition lz4_ok :: "codec \<Rightarrow> bool" where
  "lz4_ok c \<longleftrightarrow> (\<forall>src n b. lz4_block c src n = Some b \<and> b \<noteq> [] \<longrightarrow> length b \<le> n \<and> lz4_unblock c b (length src) = Some src)"

lemma typeOf_known [simp]: "newMessage_known (typeOf m)"
  by (cases m) (simp_all add: newMessage_known_def)

lemma ReadFull_append [simp]: "ReadFull what (length b) (b @ s) = Inr (b, s)"
  by (simp add: ReadFull_def)

lemma len16: "n \<le> 32767 \<Longrightarrow> wrap_signed 16 (int (get_be (put_be 2 n))) = int n"
  by (subst wrap_signed_id) (auto simp: get_put_be in_signed_def)

lemma len32: "n \<le> MaxMessageLen \<Longrightarrow> go_int32 (int (get_be (put_be 4 n))) = int n"
  by (subst wrap_signed_id) (simp_all add: get_put_be in_signed_def MaxMessageLen_def)

lemma readHeader_frame:
  assumes "length hdr \<le> 32767" "dec_hdr c hdr = Some h"
  shows "readHeader c (put_be 2 (length hdr) @ hdr @ s) = Inr (h, s)"
proof -
  have "ReadFull ''reading length'' 2 (put_be 2 (length hdr) @ hdr @ s) = Inr (put_be 2 (length hdr), hdr @ s)"
    using ReadFull_append [of _ "put_be 2 (length hdr)"] by simp
  then show ?thesis using assms by (simp add: readHeader_def Let_def len16)
qed

lemma readBody_frame:
  assumes "length body \<le> MaxMessageLen"
    and "(if cm = MessageCompressionNone then Inr body else if cm = MessageCompressionLZ4 then lz4Decompress c body
          else Inl (ErrUnknownCompression cm)) = Inr raw"
    and "dec_msg c (typeOf m) raw = Some m"
  shows "readMessageAfterHeader c (typeOf m, cm) (put_be 4 (length body) @ body @ s) = Inr (Some m, s)"
proof -
  have "ReadFull ''reading message length'' 4 (put_be 4 (length body) @ body @ s) = Inr (put_be 4 (length body), body @ s)"
    using ReadFull_append [of _ "put_be 4 (length body)"] by simp
  then show ?thesis using assms(1,3) unfolding readMessageAfterHeader_def Let_def fst_conv snd_conv
    by (simp add: len32 assms(2) split del: if_split cong: if_cong)
qed

lemma lz4_roundtrip:
  assumes "lz4_ok c" "length src \<le> MaxMessageLen" "lz4Compress c src n = Some b" "4 \<le> n"
  shows "lz4Decompress c b = Inr src" "length b \<le> n"
proof -
  obtain z where z: "lz4_block c src (n - 4) = Some z" "z \<noteq> []" "b = put_be 4 (length src) @ z"
    using assms(3) by (auto simp: lz4Compress_def split: option.splits if_splits)
  have "length z \<le> n - 4" "lz4_unblock c z (length src) = Some src" using assms(1) z(1,2) unfolding lz4_ok_def by blast+
  moreover have "get_be (put_be 4 (length src)) = length src" using assms(2) by (simp add: get_put_be MaxMessageLen_def)
  ultimately show "lz4Decompress c b = Inr src" "length b \<le> n"
    using assms(2,4) by (simp_all add: lz4Decompress_def z(3) Let_def)
qed

lemma writeMessage_read:
  assumes "hdr_ok c (typeOf m) MessageCompressionNone" "hdr_ok c (typeOf m) MessageCompressionLZ4" "msg_ok c m" "lz4_ok c"
    and "cm \<in> {CompressionMetadata, CompressionNever, CompressionAlways}"
  shows "\<exists>f. writeMessage c cm m = Inr f \<and> (\<forall>s. readMessage c (f @ s) = Inr (Some m, s))"
proof -
  obtain h0 where h0: "enc_hdr c (typeOf m, MessageCompressionNone) = Some h0" "length h0 \<le> 32767" "dec_hdr c h0 = Some (typeOf m, MessageCompressionNone)"
    using assms(1) by (auto simp: hdr_ok_def)
  obtain h1 where h1: "enc_hdr c (typeOf m, MessageCompressionLZ4) = Some h1" "length h1 \<le> 32767" "dec_hdr c h1 = Some (typeOf m, MessageCompressionLZ4)"
    using assms(2) by (auto simp: hdr_ok_def)
  obtain b where b: "enc_msg c m = Some b" "length b \<le> MaxMessageLen" "dec_msg c (typeOf m) b = Some m"
    using assms(3) by (auto simp: msg_ok_def)
  have "\<exists>q. shouldCompressMessage cm m b = Inr q \<and> (q \<longrightarrow> compressionThreshold \<le> length b)"
    using assms(5) by (auto simp: shouldCompressMessage_def CompressionMetadata_def CompressionNever_def CompressionAlways_def)
  then obtain q where q: "shouldCompressMessage cm m b = Inr q" "q \<longrightarrow> compressionThreshold \<le> length b" by blast
  have plain: "readMessage c (frame h0 b @ s) = Inr (Some m, s)" for s
    using readHeader_frame [OF h0(2,3)] readBody_frame [of b MessageCompressionNone c b m] b by (simp add: readMessage_def frame_def)
  show ?thesis
  proof (cases "q \<and> writeCompressedMessage c m b \<noteq> None")
    case False
    then have "writeMessage c cm m = Inr (frame h0 b)" using h0 b q by (auto simp: writeMessage_def)
    then show ?thesis using plain by blast
  next
    case True
    let ?n = "length b - length b div 32"
    obtain z where z: "lz4Compress c b ?n = Some z" using True h1 by (auto simp: writeCompressedMessage_def split: option.splits if_splits)
    have "4 \<le> ?n" using True q(2) by (auto simp: compressionThreshold_def)
    from lz4_roundtrip [OF assms(4) b(2) z this] have "lz4Decompress c z = Inr b" "length z \<le> MaxMessageLen" using b(2) by auto
    then have "readMessage c (frame h1 z @ s) = Inr (Some m, s)" for s
      using readHeader_frame [OF h1(2,3)] readBody_frame [of z MessageCompressionLZ4 c b m] b(3)
      by (simp add: readMessage_def frame_def MessageCompressionNone_def MessageCompressionLZ4_def)
    moreover have "writeMessage c cm m = Inr (frame h1 z)"
      using h0 h1 b q True z by (auto simp: writeMessage_def writeCompressedMessage_def)
    ultimately show ?thesis by blast
  qed
qed

text \<open>C21. Any sequence of messages of acceptable size, written with any compression setting, can be
  written and is read back as that sequence, after which the reader finds the end of the
  stream; for an encoder whose output decodes, of headers below 32 KiB, and a compressor whose
  blocks decompress.\<close>

theorem messages_roundtrip:
  assumes "\<forall>m \<in> set ms. msg_ok c m \<and> hdr_ok c (typeOf m) MessageCompressionNone \<and> hdr_ok c (typeOf m) MessageCompressionLZ4"
    and "lz4_ok c" "cm \<in> {CompressionMetadata, CompressionNever, CompressionAlways}"
  shows "\<exists>fs. map_result (writeMessage c cm) ms = Inr fs \<and> readerLoop c (concat fs) = (ms, ErrReading ''reading length'')"
  using assms(1)
proof (induction ms)
  case Nil
  show ?case by (subst readerLoop.simps) (simp add: readMessage_def readHeader_def ReadFull_def)
next
  case (Cons m ms)
  then obtain fs where fs: "map_result (writeMessage c cm) ms = Inr fs" "readerLoop c (concat fs) = (ms, ErrReading ''reading length'')"
    by auto
  obtain f where "writeMessage c cm m = Inr f" "\<And>s. readMessage c (f @ s) = Inr (Some m, s)"
    using writeMessage_read [of c m cm] Cons.prems assms(2,3) by auto
  then show ?case using fs by (intro exI [of _ "f # fs"]) (simp add: readerLoop.simps [of c "f @ concat fs"])
qed

definition example_msgs :: codec where
  "example_msgs =
     \<lparr>enc_msg = (\<lambda>m. case m of MClose r \<Rightarrow> Some (map (\<lambda>ch. word_of_nat (of_char ch)) r) | _ \<Rightarrow> Some []),
      dec_msg = (\<lambda>t b. if t = 7 then Some (MClose (map (\<lambda>b. char_of (unat b)) b)) else if t = 6 then Some MPing else None),
      enc_hdr = (\<lambda>(t, cm). Some [word_of_int t, word_of_int cm]),
      dec_hdr = (\<lambda>b. Some (uint (b ! 0), uint (b ! 1))),
      lz4_block = (\<lambda>src n. if src = replicate (length src) (hd src) \<and> length src < 256 \<and> 0 < n then Some [hd src] else Some []),
      lz4_unblock = (\<lambda>b n. Some (replicate n (hd b)))\<rparr>"

lemma messages_roundtrip_witness:
  "\<exists>fs. map_result (writeMessage example_msgs CompressionAlways) [MPing, MClose (replicate 200 (CHR ''x''))] = Inr fs \<and>
     readerLoop example_msgs (concat fs) = ([MPing, MClose (replicate 200 (CHR ''x''))], ErrReading ''reading length'')"
proof (rule messages_roundtrip)
  show "lz4_ok example_msgs" by (auto simp: lz4_ok_def example_msgs_def)
  have "char_of (unat (word_of_nat (of_char ch) :: uint8)) = ch" for ch by (simp add: unat_of_nat)
  then show "\<forall>m \<in> set [MPing, MClose (replicate 200 (CHR ''x''))].
    msg_ok example_msgs m \<and> hdr_ok example_msgs (typeOf m) MessageCompressionNone \<and> hdr_ok example_msgs (typeOf m) MessageCompressionLZ4"
    by (simp add: msg_ok_def hdr_ok_def example_msgs_def MaxMessageLen_def MessageCompressionNone_def MessageCompressionLZ4_def del: of_char_Char)
qed simp

lemma hello_roundtrip:
  assumes "enc (Hello_toWire h) = Some b" "length b \<le> 32767" "dec b = Some (Hello_toWire h)" "in_signed 32 (h_NumConnections h)"
  shows "\<exists>out. writeHello enc h = Inr out \<and> readHello dec (out @ s) = Inr (h, s)"
proof -
  have "Hello_toWire h = h" using assms(4) by (simp add: Hello_toWire_def wrap_signed_id)
  moreover have "get_be (put_be 2 (length b)) = length b" "get_be (put_be 4 HelloMessageMagic) = HelloMessageMagic"
    using assms(2) by (simp_all add: get_put_be HelloMessageMagic_def)
  ultimately show ?thesis using assms by (simp add: writeHello_def readHello_def Let_def helloFromWire_def)
qed

end
