(* ===== verification/Dispatcher.thy ===== *)
theory Dispatcher
  imports Framing FsPath
begin

text \<open>
  The two ends of a connection, \<open>lib/protocol/protocol.go\<close>: the checks on what a peer sends, the
  dispatcher that hands messages to the model, and the writer that sends the cluster
  configuration before anything else. The model's handlers are parameters: the error each
  returns on what it is given.
\<close>

section \<open>Checks on received messages\<close>

definition MaxRequestSize :: int where
  "MaxRequestSize = 2 * MaxBlockSize"

datatype check_error = errInvalidFilename | errUncleanFilename | errDeletedHasBlocks | errDirectoryHasBlocks | errFileHasNoBlocks

definition checkFilename :: "string \<Rightarrow> check_error option" where
  "checkFilename name =
     (if filepath_Clean name \<noteq> name then Some errUncleanFilename
      else if name \<in> {'''', ''.'', ''..''} then Some errInvalidFilename
      else if go_HasPrefix name ''/'' then Some errInvalidFilename
      else if go_HasPrefix name ''../'' then Some errInvalidFilename
      else None)"

definition checkFileInfoConsistency :: "FileInfo \<Rightarrow> check_error option" where
  "checkFileInfoConsistency f =
     (case checkFilename (fi_Name f) of
        Some e \<Rightarrow> Some e
      | None \<Rightarrow>
          if fi_Deleted f \<and> length (fi_Blocks f) \<noteq> 0 then Some errDeletedHasBlocks
          else if fi_Type f = FileInfoTypeDirectory \<and> length (fi_Blocks f) \<noteq> 0 then Some errDirectoryHasBlocks
          else if \<not> fi_Deleted f \<and> \<not> IsInvalid f \<and> fi_Type f = FileInfoTypeFile \<and> length (fi_Blocks f) = 0 then Some errFileHasNoBlocks
          else None)"

fun checkIndexConsistency :: "FileInfo list \<Rightarrow> (string \<times> check_error) option" where
  "checkIndexConsistency [] = None"
| "checkIndexConsistency (f # fs) =
     (case checkFileInfoConsistency f of Some e \<Rightarrow> Some (fi_Name f, e) | None \<Rightarrow> checkIndexConsistency fs)"

section \<open>The dispatcher\<close>

text \<open>What the dispatcher passes on: calls of the model and of the connection's own handlers.\<close>

datatype event =
    EvClusterConfig ClusterConfig
  | EvIndex Index
  | EvIndexUpdate IndexUpdate
  | EvRequest Request
  | EvResponse Response
  | EvDownloadProgress DownloadProgress
  | EvTunnelData bep_TunnelData

datatype dispatch_error =
    ClosedByRemote string
  | InvalidState
  | BadFile string check_error
  | BadName check_error
  | RequestTooSmall int
  | RequestTooLarge int
  | HandleError string
  | DispatchPanic wire_panic

datatype conn_state = stateInitial | stateReady

text \<open>
  One round of the loop: the new state and the event, if the message has one, or the error with
  which the loop ends, together with the event if it is its handler that failed. Requests are
  handled in a goroutine of their own, responses and tunnel data return no error.
\<close>

definition handled :: "(event \<Rightarrow> string option) \<Rightarrow> event \<Rightarrow> conn_state \<Rightarrow> event list \<times> (dispatch_error, conn_state) result" where
  "handled model ev state = ([ev], case model ev of Some e \<Rightarrow> Inl (HandleError e) | None \<Rightarrow> Inr state)"

definition dispatch :: "(event \<Rightarrow> string option) \<Rightarrow> conn_state \<Rightarrow> message \<Rightarrow> event list \<times> (dispatch_error, conn_state) result" where
  "dispatch model state msg =
     (case msg of
        MClusterConfig w \<Rightarrow>
          (case clusterConfigFromWire w of
             Inl p \<Rightarrow> ([], Inl (DispatchPanic p))
           | Inr cc \<Rightarrow> handled model (EvClusterConfig cc) stateReady)
      | MClose reason \<Rightarrow> ([], Inl (ClosedByRemote reason))
      | _ \<Rightarrow>
          if state \<noteq> stateReady then ([], Inl InvalidState)
          else (case msg of
             MIndex w \<Rightarrow>
               (let idx = indexFromWire w in
                case checkIndexConsistency (ix_Files idx) of
                  Some (n, e) \<Rightarrow> ([], Inl (BadFile n e))
                | None \<Rightarrow> handled model (EvIndex idx) state)
           | MIndexUpdate w \<Rightarrow>
               (let idx = indexUpdateFromWire w in
                case checkIndexConsistency (ix_Files idx) of
                  Some (n, e) \<Rightarrow> ([], Inl (BadFile n e))
                | None \<Rightarrow> handled model (EvIndexUpdate idx) state)
           | MRequest w \<Rightarrow>
               (case checkFilename (rq_Name w) of
                  Some e \<Rightarrow> ([], Inl (BadName e))
                | None \<Rightarrow>
                    if rq_Size w < 0 then ([], Inl (RequestTooSmall (rq_Size w)))
                    else if rq_Size w > MaxRequestSize then ([], Inl (RequestTooLarge (rq_Size w)))
                    else ([EvRequest (requestFromWire w)], Inr state))
           | MResponse w \<Rightarrow> ([EvResponse (responseFromWire w)], Inr state)
           | MDownloadProgress w \<Rightarrow> handled model (EvDownloadProgress (downloadProgressFromWire w)) state
           | MTunnelData w \<Rightarrow> ([EvTunnelData w], Inr state)
           | _ \<Rightarrow> ([], Inr state)))"

text \<open>The loop on the messages of the reader; without an error it waits for more.\<close>

fun dispatcherLoop :: "(event \<Rightarrow> string option) \<Rightarrow> conn_state \<Rightarrow> message list \<Rightarrow> event list \<times> dispatch_error option" where
  "dispatcherLoop model state [] = ([], None)"
| "dispatcherLoop model state (m # ms) =
     (case dispatch model state m of
        (evs, Inl e) \<Rightarrow> (evs, Some e)
      | (evs, Inr state') \<Rightarrow> (let (evs', err) = dispatcherLoop model state' ms in (evs @ evs', err)))"

section \<open>The writer\<close>

text \<open>
  What the writer's selects take, in order. The first one takes a cluster configuration, a close or
  the end of the connection, and nothing from the other boxes; a failing write ends the loop, so
  that a prefix of these messages is written then.
\<close>

datatype first_input = FirstConfig ClusterConfig | FirstClose string | FirstClosed

datatype writer_input =
    InClusterConfig ClusterConfig
  | InOutbox message
  | InTunnel bep_TunnelData
  | InClose string
  | InClosed

fun writer_rest :: "writer_input list \<Rightarrow> message list" where
  "writer_rest [] = []"
| "writer_rest (InClusterConfig cc # is) = MClusterConfig (ClusterConfig_toWire cc) # writer_rest is"
| "writer_rest (InOutbox m # is) = m # writer_rest is"
| "writer_rest (InTunnel t # is) = MTunnelData t # writer_rest is"
| "writer_rest (InClose r # is) = [MClose r]"
| "writer_rest (InClosed # is) = []"

fun writerLoop :: "first_input \<Rightarrow> writer_input list \<Rightarrow> message list" where
  "writerLoop (FirstConfig cc) is = MClusterConfig (ClusterConfig_toWire cc) # writer_rest is"
| "writerLoop (FirstClose r) is = [MClose r]"
| "writerLoop FirstClosed is = []"

section \<open>Names\<close>

lemma checkFilename_plain:
  assumes "checkFilename name = None"
  shows "list_all plain_elem (go_split (CHR ''/'') name)"
proof -
  have c: "filepath_Clean name = name" "name \<notin> {'''', ''.'', ''..''}" "\<not> prefix ''/'' name" "\<not> prefix ''../'' name"
    using assms by (auto simp: checkFilename_def go_HasPrefix_iff split: if_splits)
  have nr: "\<not> is_rooted name" using c(2,3) by (cases name) (auto simp: is_rooted_def)
  have j: "name = go_join ''/'' (path_elems name)" "path_elems name \<noteq> []"
    using c(1,2) nr by (auto simp: filepath_Clean_elems split: if_splits)
  have "hd (path_elems name) \<noteq> ''..''" using join_up_prefix [OF j(2)] c(2,4) j(1) by auto
  then have "list_all plain_elem (path_elems name)" using clean_elems_no_up path_elems_clean j(2) by blast
  moreover have "go_split (CHR ''/'') name = path_elems name"
    using split_join_clean [OF path_elems_clean j(2)] j(1) by simp
  ultimately show ?thesis by simp
qed

lemma plain_checkFilename:
  assumes "list_all plain_elem es" "es \<noteq> []"
  shows "checkFilename (go_join ''/'' es) = None"
proof -
  have "filepath_Clean (go_join ''/'' es) = go_join ''/'' es" using Clean_join_plain assms by blast
  moreover have "\<not> is_rooted (go_join ''/'' es)" "go_join ''/'' es \<noteq> []" using join_plain_not_rooted assms by blast+
  moreover have "go_join ''/'' es \<noteq> ''.''"
    using join_plain_not_rooted(3) [OF assms] assms by (auto simp: plain_elem_def)
  ultimately show ?thesis
    using prefix_up_hd [OF assms] by (cases "go_join ''/'' es") (auto simp: checkFilename_def go_HasPrefix_iff is_rooted_def)
qed

section \<open>What reaches the model\<close>

definition file_safe :: "FileInfo \<Rightarrow> bool" where
  "file_safe f \<longleftrightarrow> list_all plain_elem (go_split (CHR ''/'') (fi_Name f)) \<and>
     (fi_Deleted f \<or> fi_Type f = FileInfoTypeDirectory \<longrightarrow> fi_Blocks f = []) \<and>
     (\<not> fi_Deleted f \<and> \<not> IsInvalid f \<and> fi_Type f = FileInfoTypeFile \<longrightarrow> fi_Blocks f \<noteq> [])"

fun event_safe :: "event \<Rightarrow> bool" where
  "event_safe (EvIndex i) = list_all file_safe (ix_Files i)"
| "event_safe (EvIndexUpdate i) = list_all file_safe (ix_Files i)"
| "event_safe (EvRequest r) = (list_all plain_elem (go_split (CHR ''/'') (rq_Name r)) \<and> 0 \<le> rq_Size r \<and> rq_Size r \<le> 33554432)"
| "event_safe _ = True"

lemma checkFileInfo_safe: "checkFileInfoConsistency f = None \<Longrightarrow> file_safe f"
  by (auto simp: checkFileInfoConsistency_def file_safe_def checkFilename_plain split: option.splits if_splits)

lemma checkIndex_safe: "checkIndexConsistency fs = None \<Longrightarrow> list_all file_safe fs"
  by (induction fs) (auto simp: checkFileInfo_safe split: option.splits)

lemma handled_simps [simp]:
  "fst (handled model ev st) = [ev]" "snd (handled model ev st) = Inr st' \<longleftrightarrow> st' = st \<and> model ev = None"
  "snd (handled model ev st) \<noteq> Inl InvalidState"
  by (auto simp: handled_def split: option.splits)

lemma dispatch_events_safe: "list_all event_safe (fst (dispatch model st m))"
  by (cases m) (auto simp: dispatch_def Let_def checkIndex_safe checkFilename_plain MaxRequestSize_def MaxBlockSize_def requestFromWire_def
      split: sum.splits option.splits)

lemma dispatch_initial:
  "fst (dispatch model stateInitial m) = [] \<or> (\<exists>cc. fst (dispatch model stateInitial m) = [EvClusterConfig cc])"
  by (cases m) (auto simp: dispatch_def split: sum.splits)

lemma dispatch_initial_stays: "snd (dispatch model stateInitial m) = Inr stateInitial \<Longrightarrow> False"
  by (cases m) (auto simp: dispatch_def split: sum.splits)

lemma dispatch_ready_stays: "snd (dispatch model stateReady m) = Inr st \<Longrightarrow> st = stateReady"
  by (cases m) (auto simp: dispatch_def Let_def split: sum.splits option.splits if_splits)

lemma dispatch_ready_valid: "snd (dispatch model stateReady m) \<noteq> Inl InvalidState"
  by (cases m) (auto simp: dispatch_def Let_def split: sum.splits option.splits)

lemma dispatcherLoop_safe: "list_all event_safe (fst (dispatcherLoop model st ms))"
proof (induction ms arbitrary: st)
  case (Cons m ms)
  obtain evs r where d: "dispatch model st m = (evs, r)" by force
  have "list_all event_safe evs" using dispatch_events_safe [of model st m] by (simp add: d)
  then show ?case using Cons by (cases r) (simp_all add: d case_prod_unfold Let_def)
qed simp

lemma dispatcherLoop_ready: "snd (dispatcherLoop model stateReady ms) \<noteq> Some InvalidState"
proof (induction ms)
  case (Cons m ms)
  obtain evs r where d: "dispatch model stateReady m = (evs, r)" by force
  show ?case using Cons dispatch_ready_stays [of model m] dispatch_ready_valid [of model m]
    by (cases r) (auto simp: d split: prod.splits)
qed simp


text \<open>C36. Whatever the other end takes from its boxes, and however much of it arrives, it is never
  rejected for its order: the writer sends the cluster configuration first.\<close>

theorem writer_respects_dispatcher:
  "snd (dispatcherLoop model stateInitial (take n (writerLoop first ins))) \<noteq> Some InvalidState"
proof (cases n)
  case (Suc k)
  show ?thesis
  proof (cases first)
    case (FirstConfig cc)
    let ?m = "MClusterConfig (ClusterConfig_toWire cc)"
    obtain evs r where d: "dispatch model stateInitial ?m = (evs, r)" by force
    have "r \<noteq> Inl InvalidState" "\<And>st. r = Inr st \<Longrightarrow> st = stateReady"
      using arg_cong [OF d, of snd] by (auto simp: dispatch_def split: sum.splits dest: sym)
    then show ?thesis using dispatcherLoop_ready [of model "take k (writer_rest ins)"]
      by (cases r) (auto simp: FirstConfig Suc d split: prod.splits)
  qed (auto simp: Suc dispatch_def)
qed simp

text \<open>
  A cluster configuration with a device identifier below 32 bytes ends the program: the
  conversion to an array panics in the dispatcher.
\<close>

lemma short_device_id_panics:
  "snd (dispatch model st (MClusterConfig \<lparr>wcc_Folders = [\<lparr>wf_Id = ''f'', wf_Label = '''', wf_Type = 0, wf_StopReason = 0,
     wf_Devices = [\<lparr>wd_Id = [1, 2, 3], wd_Name = '''', wd_Addresses = [], wd_Compression = 0, wd_CertName = '''', wd_MaxSequence = 0,
       wd_Introducer = False, wd_IndexId = 0, wd_SkipIntroductionRemovals = False, wd_EncryptionPasswordToken = []\<rparr>]\<rparr>],
     wcc_Secondary = False\<rparr>)) = Inl (DispatchPanic PanicShortDeviceID)"
  by (simp add: dispatch_def clusterConfigFromWire_def folderFromWire_def deviceFromWire_def DeviceIDLength_def)

end
