(* ===== verification/Requests.thy ===== *)
theory Requests
  imports Wire
begin

text \<open>
  Outstanding requests of a connection, \<open>lib/protocol/protocol.go\<close>: \<open>Request\<close>, \<open>handleResponse\<close>
  and \<open>internalClose\<close> as they interleave. A call registers itself under the next identifier,
  sends the request and waits on a channel of its own; the dispatcher answers it, and closing the
  connection answers all that are registered.
\<close>

section \<open>State\<close>

text \<open>The channel of a call: nothing yet, a result (the channel is closed behind it), or closed.\<close>

datatype chan_state = ChanEmpty | ChanResult bytes "proto_error option" | ChanClosed

datatype call_result = GotResponse bytes "proto_error option" | CallErrClosed | CallCancelled

datatype call_status = Registered | Waiting | Returned call_result

text \<open>\<open>rc_swept\<close>: the loop of \<open>internalClose\<close> over the waiting calls is done.\<close>

record rawConnection =
  rc_nextID :: int
  rc_awaiting :: "int set"
  rc_chan :: "int \<Rightarrow> chan_state"
  rc_status :: "int \<rightharpoonup> call_status"
  rc_closed :: bool
  rc_swept :: bool

definition newRawConnection :: rawConnection where
  "newRawConnection =
     \<lparr>rc_nextID = 0, rc_awaiting = {}, rc_chan = (\<lambda>_. ChanEmpty), rc_status = Map.empty, rc_closed = False, rc_swept = False\<rparr>"

section \<open>Operations\<close>

text \<open>The part of \<open>Request\<close> under the mutex; \<open>None\<close> is the panic on an identifier in use.\<close>

definition request_register :: "rawConnection \<Rightarrow> (int \<times> rawConnection) option" where
  "request_register c =
     (let i = rc_nextID c; c1 = c\<lparr>rc_nextID := rc_nextID c + 1\<rparr> in
      if i \<in> rc_awaiting c1 then None
      else Some (i, c1\<lparr>rc_awaiting := insert i (rc_awaiting c1), rc_chan := (rc_chan c1)(i := ChanEmpty),
                        rc_status := (rc_status c1)(i \<mapsto> Registered)\<rparr>))"

definition handleResponse :: "Response \<Rightarrow> rawConnection \<Rightarrow> rawConnection" where
  "handleResponse resp c =
     (if rs_ID resp \<in> rc_awaiting c then
        c\<lparr>rc_awaiting := rc_awaiting c - {rs_ID resp},
          rc_chan := (rc_chan c)(rs_ID resp := ChanResult (rs_Data resp) (codeToError (rs_Code resp)))\<rparr>
      else c)"

text \<open>\<open>internalClose\<close>: the channel \<open>closed\<close> is closed first, then the waiting calls are woken.\<close>

definition close_closed :: "rawConnection \<Rightarrow> rawConnection" where
  "close_closed c = c\<lparr>rc_closed := True\<rparr>"

definition close_sweep :: "rawConnection \<Rightarrow> rawConnection" where
  "close_sweep c =
     c\<lparr>rc_chan := (\<lambda>i. if i \<in> rc_awaiting c then ChanClosed else rc_chan c i), rc_awaiting := {}, rc_swept := True\<rparr>"

definition set_status :: "int \<Rightarrow> call_status \<Rightarrow> rawConnection \<Rightarrow> rawConnection" where
  "set_status i s c = c\<lparr>rc_status := (rc_status c)(i \<mapsto> s)\<rparr>"

text \<open>
  What a call that is not cancelled does next, \<open>None\<close> if it has to wait. Sending hands the
  message to the writer, which takes none once \<open>closed\<close> is closed: a goroutine that blocks in a
  select with \<open>closed\<close> still open is woken by its closing, and one that comes later finds it ready.
\<close>

definition request_continue :: "int \<Rightarrow> rawConnection \<Rightarrow> rawConnection option" where
  "request_continue i c =
     (case rc_status c i of
        Some Registered \<Rightarrow> Some (set_status i (if rc_closed c then Returned CallErrClosed else Waiting) c)
      | Some Waiting \<Rightarrow>
          (case rc_chan c i of
             ChanEmpty \<Rightarrow> None
           | ChanResult d e \<Rightarrow> Some (set_status i (Returned (GotResponse d e)) c)
           | ChanClosed \<Rightarrow> Some (set_status i (Returned CallErrClosed) c))
      | _ \<Rightarrow> None)"

text \<open>A cancelled context: before the message is sent the call reports a closed connection.\<close>

definition request_cancel :: "int \<Rightarrow> rawConnection \<Rightarrow> rawConnection option" where
  "request_cancel i c =
     (case rc_status c i of
        Some Registered \<Rightarrow> Some (set_status i (Returned CallErrClosed) c)
      | Some Waiting \<Rightarrow> Some (set_status i (Returned CallCancelled) c)
      | _ \<Rightarrow> None)"

text \<open>
  The states of a connection and the responses it has been given, oldest first. \<open>Request\<close> looks
  at \<open>closed\<close> before it registers, so it may register after the connection has been closed.
\<close>

inductive conn_run :: "Response list \<Rightarrow> rawConnection \<Rightarrow> bool" where
  start: "conn_run [] newRawConnection"
| register: "\<lbrakk>conn_run rs c; request_register c = Some (i, c')\<rbrakk> \<Longrightarrow> conn_run rs c'"
| continue: "\<lbrakk>conn_run rs c; request_continue i c = Some c'\<rbrakk> \<Longrightarrow> conn_run rs c'"
| cancel: "\<lbrakk>conn_run rs c; request_cancel i c = Some c'\<rbrakk> \<Longrightarrow> conn_run rs c'"
| response: "conn_run rs c \<Longrightarrow> conn_run (rs @ [r]) (handleResponse (responseFromWire r) c)"
| close: "conn_run rs c \<Longrightarrow> conn_run rs (close_closed c)"
| sweep: "\<lbrakk>conn_run rs c; rc_closed c\<rbrakk> \<Longrightarrow> conn_run rs (close_sweep c)"

section \<open>Invariant\<close>

definition conn_inv :: "rawConnection \<Rightarrow> bool" where
  "conn_inv c \<longleftrightarrow> 0 \<le> rc_nextID c \<and> (rc_swept c \<longrightarrow> rc_closed c) \<and>
     (\<forall>i. (rc_status c i = None \<longleftrightarrow> i < 0 \<or> rc_nextID c \<le> i) \<and>
        (i \<in> rc_awaiting c \<longrightarrow> rc_status c i \<noteq> None \<and> rc_chan c i = ChanEmpty) \<and>
        (rc_status c i \<noteq> None \<and> i \<notin> rc_awaiting c \<longrightarrow> rc_chan c i \<noteq> ChanEmpty) \<and>
        (rc_swept c \<and> rc_status c i = Some Waiting \<longrightarrow> i \<notin> rc_awaiting c))"

lemma conn_inv_new: "conn_inv newRawConnection"
  by (auto simp: conn_inv_def newRawConnection_def)

lemma conn_inv_status:
  assumes "conn_inv c" "rc_status c i = Some s0" "s = Waiting \<longrightarrow> s0 = Waiting \<or> \<not> rc_swept c"
  shows "conn_inv (set_status i s c)"
  unfolding conn_inv_def set_status_def
proof (intro conjI allI)
  fix j
  have "j \<noteq> i \<Longrightarrow> ((rc_status c)(i \<mapsto> s)) j = rc_status c j" by simp
  note st = this
  show "rc_status (c\<lparr>rc_status := (rc_status c)(i \<mapsto> s)\<rparr>) j = None \<longleftrightarrow> j < 0 \<or> rc_nextID (c\<lparr>rc_status := (rc_status c)(i \<mapsto> s)\<rparr>) \<le> j"
    using assms st unfolding conn_inv_def by (cases "j = i") auto
qed (use assms in \<open>auto simp: conn_inv_def split: if_splits\<close>)

text \<open>Results come from responses with the identifier of the call.\<close>

definition answered :: "Response list \<Rightarrow> int \<Rightarrow> bytes \<Rightarrow> proto_error option \<Rightarrow> bool" where
  "answered rs i d e \<longleftrightarrow> (\<exists>r \<in> set rs. rs_ID r = i \<and> rs_Data r = d \<and> codeToError (rs_Code r) = e)"

definition results_ok :: "Response list \<Rightarrow> rawConnection \<Rightarrow> bool" where
  "results_ok rs c \<longleftrightarrow> (\<forall>i d e. (rc_chan c i = ChanResult d e \<or> rc_status c i = Some (Returned (GotResponse d e))) \<longrightarrow> answered rs i d e)"

lemma results_ok_status:
  "\<lbrakk>results_ok rs c; \<And>d e. s = Returned (GotResponse d e) \<Longrightarrow> rc_chan c i = ChanResult d e\<rbrakk> \<Longrightarrow> results_ok rs (set_status i s c)"
  by (auto simp: results_ok_def set_status_def)

lemma conn_run_inv: "conn_run rs c \<Longrightarrow> conn_inv c \<and> results_ok rs c"
proof (induction rule: conn_run.induct)
  case start
  show ?case by (intro conjI conn_inv_new) (simp add: results_ok_def newRawConnection_def)
next
  case (register rs c i c')
  then show ?case by (auto simp: conn_inv_def results_ok_def request_register_def Let_def split: if_splits)
next
  case (continue rs c i c')
  have sw: "rc_swept c \<longrightarrow> rc_closed c" using continue by (simp add: conn_inv_def)
  obtain s0 s where c': "c' = set_status i s c" "rc_status c i = Some s0" "s = Waiting \<longrightarrow> \<not> rc_closed c"
    "\<And>d e. s = Returned (GotResponse d e) \<Longrightarrow> rc_chan c i = ChanResult d e"
    using continue.hyps(2) by (auto simp: request_continue_def split: option.splits call_status.splits chan_state.splits if_splits)
  then show ?case using continue.IH sw by (auto intro!: conn_inv_status results_ok_status)
next
  case (cancel rs c i c')
  then show ?case
    by (auto simp: request_cancel_def split: option.splits call_status.splits intro!: conn_inv_status results_ok_status)
next
  case (response rs c r)
  then have "conn_inv (handleResponse (responseFromWire r) c)" by (auto simp: conn_inv_def handleResponse_def)
  moreover have "results_ok (rs @ [r]) (handleResponse (responseFromWire r) c)"
    using response by (auto simp: results_ok_def handleResponse_def answered_def responseFromWire_def)
  ultimately show ?case ..
next
  case (close rs c)
  then show ?case unfolding conn_inv_def close_closed_def results_ok_def by auto
next
  case (sweep rs c)
  then show ?case unfolding conn_inv_def close_sweep_def results_ok_def by auto
qed

section \<open>Properties\<close>


definition example_conn :: rawConnection where
  "example_conn = close_sweep (close_closed (the (request_continue 0 (snd (the (request_register newRawConnection))))))"


text \<open>
  Identifiers are 32 bits wide on the wire: the request after \<open>2\<^sup>3\<^sup>1\<close> others is answered under a
  negative identifier, and the answer is dropped.
\<close>

lemma wrapped_id_dropped:
  assumes "rc_awaiting c \<subseteq> {0..}"
  shows "rq_ID (Request_toWire (r\<lparr>rq_ID := 2 ^ 31\<rparr>)) = - (2 ^ 31)"
    and "handleResponse (responseFromWire \<lparr>rs_ID = - (2 ^ 31), rs_Data = d, rs_Code = ErrorCodeNoError\<rparr>) c = c"
  using assms by (auto simp: Request_toWire_def wrap_signed_def handleResponse_def responseFromWire_def)

end
