(* ===== verification/EncName.thy ===== *)
theory EncName
  imports DeviceID FsPath
begin

text \<open>
  The text form of encrypted names, \<open>lib/protocol/encryption.go\<close>: base 32 in the extended hex
  alphabet without padding, spread over a tree of directories.
\<close>

section \<open>Strings as bytes\<close>

definition str_bytes :: "string \<Rightarrow> bytes" where
  "str_bytes s = map (\<lambda>c. word_of_nat (char_code c)) s"

definition bytes_str :: "bytes \<Rightarrow> string" where
  "bytes_str bs = map (\<lambda>b. char_of (unat b)) bs"

lemma bytes_str_bytes [simp]: "bytes_str (str_bytes s) = s"
  by (induction s) (simp_all add: bytes_str_def str_bytes_def char_code_def unat_of_nat)

section \<open>Package encoding/base32, \<open>HexEncoding\<close> without padding\<close>

definition hexBase32 :: string where
  "hexBase32 = ''0123456789ABCDEFGHIJKLMNOPQRSTUV''"

definition hex32_value :: "char \<Rightarrow> nat option" where
  "hex32_value c =
     (let k = char_code c in
      if 48 \<le> k \<and> k \<le> 57 then Some (k - 48)
      else if 65 \<le> k \<and> k \<le> 86 then Some (k - 55)
      else None)"

definition hex32_digits :: "bytes \<Rightarrow> nat list" where
  "hex32_digits bs = take ((8 * length bs + 4) div 5) (digits32 8 (get_be (bs @ replicate (5 - length bs) 0)))"

function hex32_EncodeToString :: "bytes \<Rightarrow> string" where
  "hex32_EncodeToString bs =
     (if bs = [] then [] else map (\<lambda>d. hexBase32 ! d) (hex32_digits (take 5 bs)) @ hex32_EncodeToString (drop 5 bs))"
  by pat_completeness auto
termination
  by (relation "measure length") (auto simp: neq_Nil_conv)

declare hex32_EncodeToString.simps [simp del]

fun hex32_values :: "string \<Rightarrow> nat list option" where
  "hex32_values [] = Some []"
| "hex32_values (c # cs) =
     (case hex32_value c of None \<Rightarrow> None | Some v \<Rightarrow> map_option (\<lambda>vs. v # vs) (hex32_values cs))"

text \<open>Without padding the last quantum may be short; one of 1, 3 or 6 digits gives no bytes.\<close>

definition hex32_quantum_bytes :: "nat list \<Rightarrow> bytes" where
  "hex32_quantum_bytes ds = (if length ds \<in> {1, 3, 6} then [] else b32_quantum_bytes ds)"

function hex32_decode :: "string \<Rightarrow> bytes option" where
  "hex32_decode src =
     (if src = [] then Some []
      else
        (case hex32_values (take 8 src) of
           None \<Rightarrow> None
         | Some ds \<Rightarrow> map_option (\<lambda>bs. hex32_quantum_bytes ds @ bs) (hex32_decode (drop 8 src))))"
  by pat_completeness auto
termination
  by (relation "measure length") (auto simp: neq_Nil_conv)

declare hex32_decode.simps [simp del]

definition hex32_DecodeString :: "string \<Rightarrow> bytes option" where
  "hex32_DecodeString s = hex32_decode (filter (\<lambda>c. char_code c \<noteq> 10 \<and> char_code c \<noteq> 13) s)"

section \<open>Trees of directories\<close>

definition maxPathComponent :: nat where "maxPathComponent = 200"

definition encryptedDirExtension :: string where
  "encryptedDirExtension = ''.syncthing-enc''"

function slashify_loop :: "string \<Rightarrow> string list" where
  "slashify_loop s =
     (if length s > maxPathComponent then take maxPathComponent s # slashify_loop (drop maxPathComponent s)
      else if length s > 0 then [s] else [])"
  by pat_completeness auto
termination
  by (relation "measure length") (auto simp: maxPathComponent_def)

declare slashify_loop.simps [simp del]

definition slashify_comps :: "string \<Rightarrow> string list" where
  "slashify_comps s = (take 1 s @ encryptedDirExtension) # take 2 (drop 1 s) # slashify_loop (drop 3 s)"

text \<open>\<open>None\<close> is the panic of the slice expressions on a string of fewer than three bytes.\<close>

definition slashify :: "string \<Rightarrow> string option" where
  "slashify s = (if length s < 3 then None else Some (go_join ''/'' (slashify_comps s)))"

definition deslashify :: "string \<Rightarrow> string option" where
  "deslashify s =
     (if s = [] \<or> \<not> go_HasPrefix (drop 1 s) encryptedDirExtension then None
      else Some (filter (\<lambda>c. c \<noteq> CHR ''/'') (take 1 s @ drop (1 + length encryptedDirExtension) s)))"

definition IsEncryptedParent :: "string list \<Rightarrow> bool" where
  "IsEncryptedParent pathComponents =
     (let l = length pathComponents in
      if l = 2 \<and> length (pathComponents ! 1) \<noteq> 2 then False
      else if l = 0 then False
      else if pathComponents ! 0 = [] then False
      else if drop 1 (pathComponents ! 0) \<noteq> encryptedDirExtension then False
      else if l < 2 then True
      else list_all (\<lambda>c. length c = maxPathComponent) (drop 2 pathComponents))"

section \<open>Encoded names decode\<close>

lemma get_be_append_zeros: "get_be (bs @ replicate m 0) = get_be bs * 256 ^ m"
proof (induction m)
  case (Suc m)
  have "bs @ replicate (Suc m) 0 = (bs @ replicate m 0) @ [0 :: uint8]" by (simp add: replicate_append_same)
  then show ?case using Suc by (simp only: get_be_snoc) simp
qed simp

lemma hex32_quantum_encode:
  assumes "bs \<noteq> []" "length bs \<le> 5"
  shows "hex32_quantum_bytes (hex32_digits bs) = bs" "length (hex32_digits bs) = (8 * length bs + 4) div 5"
proof -
  define n where "n = length bs"
  define k where "k = (8 * n + 4) div 5"
  define x where "x = get_be (bs @ replicate (5 - n) 0)"
  have "0 < n" "n \<le> 5" using assms by (simp_all add: n_def)
  then have n: "n \<in> {1, 2, 3, 4, 5}" by (simp add: numeral_eq_Suc) arith
  then have k: "k \<in> {2, 4, 5, 7, 8}" "k \<le> 8" "k * 5 div 8 = n" by (auto simp: k_def)
  have len: "length (bs @ replicate (5 - n) (0 :: uint8)) = 5" using n by (auto simp: n_def)
  have bound: "x < 32 ^ 8" using get_be_bound [of "bs @ replicate (5 - n) 0"] len by (simp add: x_def)
  have put: "put_be 5 x = bs @ replicate (5 - n) 0" using put_get_be [of "bs @ replicate (5 - n) 0"] len by (simp add: x_def)
  have "\<exists>j. (256 :: nat) ^ (5 - n) = j * 32 ^ (8 - k)"
    using n unfolding k_def by (auto intro: exI [of _ "4 :: nat"] exI [of _ "16 :: nat"] exI [of _ "2 :: nat"] exI [of _ "8 :: nat"] exI [of _ "1 :: nat"])
  then obtain j where j: "(256 :: nat) ^ (5 - n) = j * 32 ^ (8 - k)" ..
  have x: "x = (get_be bs * j) * 32 ^ (8 - k)" by (simp add: x_def get_be_append_zeros j)
  have "digits32 8 x = digits32 k (x div 32 ^ (8 - k)) @ digits32 (8 - k) x"
    using digits32_append [of k "8 - k" x] k(2) by simp
  moreover have "digits32 (8 - k) x = replicate (8 - k) 0" unfolding x by (rule digits32_multiple)
  ultimately have ds: "take k (digits32 8 x) @ replicate (8 - k) 0 = digits32 8 x" by (simp add: length_digits32)
  have h: "hex32_digits bs = take k (digits32 8 x)" by (simp add: hex32_digits_def n_def [symmetric] k_def [symmetric] x_def [symmetric])
  have lk: "length (take k (digits32 8 x)) = k" using k(2) by (simp add: length_digits32)
  then show "length (hex32_digits bs) = (8 * length bs + 4) div 5" by (simp add: h k_def n_def)
  have "b32_quantum_bytes (take k (digits32 8 x)) = bs"
    unfolding b32_quantum_bytes_def lk ds using k(3) put bound by (simp add: undigits32_digits32 n_def)
  then show "hex32_quantum_bytes (hex32_digits bs) = bs" using k(1) lk by (auto simp: hex32_quantum_bytes_def h)
qed

lemma hexBase32_nth: "d < 32 \<Longrightarrow> char_code (hexBase32 ! d) = (if d < 10 then 48 + d else 55 + d)"
proof -
  assume "d < 32"
  then have "d \<in> {0, 1, 2, 3, 4, 5, 6, 7, 8, 9, 10, 11, 12, 13, 14, 15, 16, 17, 18, 19, 20, 21, 22, 23, 24, 25, 26, 27, 28, 29, 30, 31}"
    by (simp add: less_Suc_eq eval_nat_numeral)
  then show ?thesis by (elim insertE) (simp_all add: hexBase32_def char_code_def)
qed

lemma hex32_value_digit: "d < 32 \<Longrightarrow> hex32_value (hexBase32 ! d) = Some d"
  by (auto simp: hex32_value_def Let_def hexBase32_nth)

lemma hex32_values_digits: "\<forall>d \<in> set ds. d < 32 \<Longrightarrow> hex32_values (map (\<lambda>d. hexBase32 ! d) ds) = Some ds"
  by (induction ds) (simp_all add: hex32_value_digit)

lemma hex32_digits_bound: "\<forall>d \<in> set (hex32_digits bs). d < 32"
  using digits32_bound in_set_takeD unfolding hex32_digits_def by metis

lemma hex32_decode_encode: "hex32_decode (hex32_EncodeToString bs) = Some bs"
proof (induction bs rule: hex32_EncodeToString.induct)
  case (1 bs)
  show ?case
  proof (cases "bs = []")
    case True
    then show ?thesis by (simp add: hex32_EncodeToString.simps hex32_decode.simps)
  next
    case False
    let ?q = "map (\<lambda>d. hexBase32 ! d) (hex32_digits (take 5 bs))" and ?r = "hex32_EncodeToString (drop 5 bs)"
    have e: "hex32_EncodeToString bs = ?q @ ?r" using False by (subst hex32_EncodeToString.simps) simp
    have q: "hex32_quantum_bytes (hex32_digits (take 5 bs)) = take 5 bs"
      "length (hex32_digits (take 5 bs)) = (8 * length (take 5 bs) + 4) div 5"
      using hex32_quantum_encode [of "take 5 bs"] False by simp_all
    have split: "take 8 (?q @ ?r) = ?q \<and> drop 8 (?q @ ?r) = ?r"
    proof (cases "length bs \<le> 5")
      case True
      then have "?r = []" by (simp add: hex32_EncodeToString.simps)
      then show ?thesis using q(2) True by simp
    next
      case False
      then show ?thesis using q(2) by simp
    qed
    have "Suc 0 \<le> length bs" using False by (simp add: Suc_le_eq)
    then have "0 < length (hex32_digits (take 5 bs))" unfolding q(2) by (cases "length bs \<le> 5") (simp_all add: div_greater_zero_iff)
    then have ne: "hex32_digits (take 5 bs) \<noteq> []" by auto
    have "hex32_decode (?q @ ?r) = map_option (\<lambda>b. hex32_quantum_bytes (hex32_digits (take 5 bs)) @ b) (hex32_decode ?r)"
      using ne split hex32_values_digits [OF hex32_digits_bound] by (subst hex32_decode.simps) (simp del: take_append drop_append)
    then show ?thesis unfolding e using 1 [OF False] q(1) by simp
  qed
qed

text \<open>The encoding of bytes: letters and digits only, long enough for the tree.\<close>

definition hex32_char :: "char \<Rightarrow> bool" where
  "hex32_char c \<longleftrightarrow> c \<in> set hexBase32"

lemma hex32_encode_chars: "list_all hex32_char (hex32_EncodeToString bs)"
proof (induction bs rule: hex32_EncodeToString.induct)
  case (1 bs)
  have "list_all hex32_char (map (\<lambda>d. hexBase32 ! d) (hex32_digits b))" for b
  proof -
    have "length hexBase32 = 32" by (simp add: hexBase32_def)
    then show ?thesis using hex32_digits_bound [of b] by (auto simp: list_all_iff hex32_char_def intro!: nth_mem)
  qed
  then show ?case using 1 by (subst hex32_EncodeToString.simps) auto
qed

lemma hex32_char_plain: "hex32_char c \<Longrightarrow> c \<noteq> CHR ''/'' \<and> c \<noteq> CHR ''.'' \<and> char_code c \<noteq> 10 \<and> char_code c \<noteq> 13"
  by (auto simp: hex32_char_def hexBase32_def char_code_def)

lemma hex32_DecodeString_encode: "hex32_DecodeString (hex32_EncodeToString bs) = Some bs"
proof -
  have "filter (\<lambda>c. char_code c \<noteq> 10 \<and> char_code c \<noteq> 13) (hex32_EncodeToString bs) = hex32_EncodeToString bs"
    using hex32_encode_chars [of bs] hex32_char_plain by (auto simp: list_all_iff intro!: filter_True)
  then show ?thesis by (simp add: hex32_DecodeString_def hex32_decode_encode)
qed

lemma hex32_encode_length: "length bs \<le> length (hex32_EncodeToString bs)"
proof (induction bs rule: hex32_EncodeToString.induct)
  case (1 bs)
  show ?case
  proof (cases "bs = []")
    case False
    then show ?thesis using 1 [OF False] hex32_quantum_encode(2) [of "take 5 bs"]
      by (subst hex32_EncodeToString.simps) auto
  qed simp
qed

lemma concat_slashify_loop: "concat (slashify_loop s) = s"
  by (induction s rule: slashify_loop.induct) (subst slashify_loop.simps, auto)

lemma slashify_loop_elems: "c \<in> set (slashify_loop s) \<Longrightarrow> c \<noteq> [] \<and> set c \<subseteq> set s \<and> length c \<le> maxPathComponent"
proof (induction s rule: slashify_loop.induct)
  case (1 s)
  show ?case
  proof (cases "length s > maxPathComponent")
    case True
    then consider "c = take maxPathComponent s" | "c \<in> set (slashify_loop (drop maxPathComponent s))"
      using "1.prems" by (subst (asm) slashify_loop.simps) auto
    then show ?thesis
    proof cases
      case 1
      then show ?thesis using True by (auto simp: maxPathComponent_def dest: in_set_takeD)
    next
      case 2
      then show ?thesis using "1.IH" [OF True 2] by (auto dest: in_set_dropD)
    qed
  next
    case False
    then show ?thesis using "1.prems" by (subst (asm) slashify_loop.simps) (auto split: if_splits)
  qed
qed

lemma filter_go_join: "filter (\<lambda>c. c \<noteq> CHR ''/'') (go_join ''/'' ps) = concat (map (filter (\<lambda>c. c \<noteq> CHR ''/'')) ps)"
  by (induction "''/''" ps rule: go_join.induct) simp_all

lemma deslashify_slashify:
  assumes "list_all hex32_char s" "3 \<le> length s"
  shows "\<exists>t. slashify s = Some t \<and> deslashify t = Some s"
proof -
  let ?ext = encryptedDirExtension
  obtain a b c r where s: "s = a # b # c # r" using assms(2) by (cases s; cases "tl s"; cases "tl (tl s)") auto
  let ?rest = "take 2 (drop 1 s) # slashify_loop (drop 3 s)"
  have t: "go_join ''/'' (slashify_comps s) = a # ?ext @ ''/'' @ go_join ''/'' ?rest"
    by (simp add: slashify_comps_def s)
  have plain: "filter (\<lambda>x. x \<noteq> CHR ''/'') p = p" if "set p \<subseteq> set s" for p
    using assms(1) that hex32_char_plain by (intro filter_True) (auto simp: list_all_iff)
  have "map (filter (\<lambda>c. c \<noteq> CHR ''/'')) ?rest = ?rest"
  proof (rule map_idI)
    fix p assume "p \<in> set ?rest"
    then have "set p \<subseteq> set s" using slashify_loop_elems [of p "drop 3 s"] by (auto simp: s)
    then show "filter (\<lambda>c. c \<noteq> CHR ''/'') p = p" by (rule plain)
  qed
  then have "filter (\<lambda>x. x \<noteq> CHR ''/'') (go_join ''/'' ?rest) = [b, c] @ r"
    unfolding filter_go_join by (simp add: s concat_slashify_loop)
  moreover have "a \<noteq> CHR ''/''" using assms(1) hex32_char_plain by (simp add: s)
  ultimately have "deslashify (a # ?ext @ ''/'' @ go_join ''/'' ?rest) = Some s"
    by (simp add: deslashify_def go_HasPrefix_def s)
  then show ?thesis using assms(2) t by (simp add: slashify_def)
qed

lemma slashify_comps_plain:
  assumes "list_all hex32_char s" "3 \<le> length s"
  shows "list_all plain_elem (slashify_comps s)"
proof -
  obtain a b c r where s: "s = a # b # c # r" using assms(2) by (cases s; cases "tl s"; cases "tl (tl s)") auto
  have h: "plain_elem p" if "p \<noteq> []" "set p \<subseteq> set s" for p
    using that assms(1) hex32_char_plain by (fastforce simp: plain_elem_def list_all_iff subset_iff)
  have "plain_elem (a # encryptedDirExtension)"
    using assms(1) hex32_char_plain [of a] by (auto simp: plain_elem_def encryptedDirExtension_def s)
  then show ?thesis using slashify_loop_elems [of _ "drop 3 s"] h
    by (auto simp: slashify_comps_def s list_all_iff)
qed

end
