(* ===== verification/Encryption.thy ===== *)
theory Encryption
  imports Wire EncName
begin

text \<open>
  Encryption towards untrusted devices, \<open>lib/protocol/encryption.go\<close>: names, file records,
  requests and blocks, at the end that asks (\<open>encryptedConnection\<close>) and the end that answers
  (\<open>encryptedModel\<close>). The ciphers, key derivations, the protobuf encoder and random bytes are
  parameters. The caches of the key generator hold values of pure functions and are left out.
\<close>

section \<open>Constants and ciphers\<close>

definition nonceSize :: nat where "nonceSize = 24"
definition tagSize :: nat where "tagSize = 16"
definition minPaddedSize :: int where "minPaddedSize = 1024"
definition blockOverhead :: int where "blockOverhead = int tagSize + int nonceSize"

type_synonym key = bytes

text \<open>
  \<open>siv_seal k d a\<close>: AES-SIV on data \<open>d\<close> with additional data \<open>a\<close>; \<open>x_seal k n d\<close>: XChaCha20-Poly1305
  with nonce \<open>n\<close>; opening may fail. \<open>hkdf\<close> and \<open>scrypt\<close> take secret and salt.
\<close>

record crypto =
  siv_seal :: "key \<Rightarrow> bytes \<Rightarrow> bytes \<Rightarrow> bytes"
  siv_open :: "key \<Rightarrow> bytes \<Rightarrow> bytes \<Rightarrow> bytes option"
  x_seal :: "key \<Rightarrow> bytes \<Rightarrow> bytes \<Rightarrow> bytes"
  x_open :: "key \<Rightarrow> bytes \<Rightarrow> bytes \<Rightarrow> bytes option"
  hkdf :: "bytes \<Rightarrow> bytes \<Rightarrow> key"
  scrypt :: "bytes \<Rightarrow> bytes \<Rightarrow> key"
  fi_marshal :: "bep_FileInfo \<Rightarrow> bytes option"
  fi_unmarshal :: "bytes \<Rightarrow> bep_FileInfo option"

datatype enc_error =
    BadName | BadNameEncoding | OpenFailed | DataTooShort | BadProto | ShortRequest | RequestFailed string
  | PanicShortName | PanicMarshal | PanicToWire FileInfoPanic | PanicSlice

section \<open>Bytes and names\<close>

definition encryptDeterministic :: "crypto \<Rightarrow> bytes \<Rightarrow> key \<Rightarrow> bytes \<Rightarrow> bytes" where
  "encryptDeterministic cr d k additionalData = siv_seal cr k d additionalData"

definition decryptDeterministic :: "crypto \<Rightarrow> bytes \<Rightarrow> key \<Rightarrow> bytes \<Rightarrow> bytes option" where
  "decryptDeterministic cr d k additionalData = siv_open cr k d additionalData"

definition encrypt :: "crypto \<Rightarrow> bytes \<Rightarrow> bytes \<Rightarrow> key \<Rightarrow> bytes" where
  "encrypt cr d nonce k = nonce @ x_seal cr k nonce d"

text \<open>\<open>nonce\<close> is the random nonce the code draws here.\<close>

definition encryptBytes :: "crypto \<Rightarrow> bytes \<Rightarrow> bytes \<Rightarrow> key \<Rightarrow> bytes" where
  "encryptBytes cr nonce d k = encrypt cr d nonce k"

definition DecryptBytes :: "crypto \<Rightarrow> bytes \<Rightarrow> key \<Rightarrow> (enc_error, bytes) result" where
  "DecryptBytes cr d k =
     (if int (length d) < blockOverhead then Inl DataTooShort
      else (case x_open cr k (take nonceSize d) (drop nonceSize d) of None \<Rightarrow> Inl OpenFailed | Some b \<Rightarrow> Inr b))"

definition knownBytes :: "string \<Rightarrow> bytes" where
  "knownBytes folderID = str_bytes (''syncthing'' @ folderID)"

definition KeyFromPassword :: "crypto \<Rightarrow> string \<Rightarrow> string \<Rightarrow> key" where
  "KeyFromPassword cr folderID password = scrypt cr (str_bytes password) (knownBytes folderID)"

definition FileKey :: "crypto \<Rightarrow> string \<Rightarrow> key \<Rightarrow> key" where
  "FileKey cr filename folderKey = hkdf cr (folderKey @ str_bytes filename) (str_bytes ''syncthing'')"

definition PasswordToken :: "crypto \<Rightarrow> string \<Rightarrow> string \<Rightarrow> bytes" where
  "PasswordToken cr folderID password = encryptDeterministic cr (knownBytes folderID) (KeyFromPassword cr folderID password) []"

definition encryptName :: "crypto \<Rightarrow> string \<Rightarrow> key \<Rightarrow> string option" where
  "encryptName cr name k = slashify (hex32_EncodeToString (encryptDeterministic cr (str_bytes name) k []))"

definition decryptName :: "crypto \<Rightarrow> string \<Rightarrow> key \<Rightarrow> (enc_error, string) result" where
  "decryptName cr name k =
     (case deslashify name of
        None \<Rightarrow> Inl BadName
      | Some s \<Rightarrow>
          (case hex32_DecodeString s of
             None \<Rightarrow> Inl BadNameEncoding
           | Some bs \<Rightarrow> (case decryptDeterministic cr bs k [] of None \<Rightarrow> Inl OpenFailed | Some d \<Rightarrow> Inr (bytes_str d))))"

definition offset_bytes :: "int \<Rightarrow> bytes" where
  "offset_bytes off = be_PutUint64 (word_of_int off)"

definition encryptBlockHash :: "crypto \<Rightarrow> bytes \<Rightarrow> int \<Rightarrow> key \<Rightarrow> bytes" where
  "encryptBlockHash cr hash off fileKey = encryptDeterministic cr hash fileKey (offset_bytes off)"

section \<open>File records\<close>

definition fake_version :: "Vector \<Rightarrow> Vector" where
  "fake_version v = \<lparr>Counters = [\<lparr>ID = 1, Value = foldl (\<lambda>a c. a + Value c) 0 (Counters v)\<rparr>]\<rparr>"

text \<open>The blocks and the total size. \<open>Offset\<close> is that of the encrypted file.\<close>

fun encrypt_blocks :: "crypto \<Rightarrow> key \<Rightarrow> int \<Rightarrow> BlockInfo list \<Rightarrow> BlockInfo list \<times> int" where
  "encrypt_blocks cr fileKey off [] = ([], off)"
| "encrypt_blocks cr fileKey off (b # bs) =
     (let bsize = (if bi_Size b < minPaddedSize then minPaddedSize else bi_Size b);
          sz = bsize + blockOverhead;
          (rest, endoff) = encrypt_blocks cr fileKey (off + sz) bs
      in (\<lparr>bi_Hash = encryptBlockHash cr (bi_Hash b) (bi_Offset b) fileKey, bi_Offset = off, bi_Size = sz\<rparr> # rest, endoff))"

definition encryptFileInfo :: "crypto \<Rightarrow> bytes \<Rightarrow> FileInfo \<Rightarrow> key \<Rightarrow> (enc_error, FileInfo) result" where
  "encryptFileInfo cr nonce fi folderKey =
     (let fileKey = FileKey cr (fi_Name fi) folderKey in
      case FileInfo_ToWire fi False of
        Inl p \<Rightarrow> Inl (PanicToWire p)
      | Inr w \<Rightarrow>
      (case fi_marshal cr w of
        None \<Rightarrow> Inl PanicMarshal
      | Some bs \<Rightarrow>
          let encryptedFI = encryptBytes cr nonce bs fileKey;
              (blocks, off) = encrypt_blocks cr fileKey 0 (fi_Blocks fi);
              typ = (if fi_Type fi \<noteq> FileInfoTypeFile then FileInfoTypeDirectory else FileInfoTypeFile)
          in (case encryptName cr (fi_Name fi) folderKey of
                None \<Rightarrow> Inl PanicShortName
              | Some name \<Rightarrow>
                  let enc = FileInfo_zero\<lparr>fi_Name := name, fi_Type := typ, fi_Permissions := 420, fi_ModifiedS := 1234567890,
                        fi_Deleted := fi_Deleted fi, fi_Version := fake_version (fi_Version fi), fi_Sequence := fi_Sequence fi,
                        fi_Encrypted := encryptedFI\<rparr>;
                      enc1 = (if IsInvalid fi then enc\<lparr>fi_LocalFlags := FlagLocalRemoteInvalid\<rparr> else enc)
                  in Inr (if typ = FileInfoTypeFile
                          then enc1\<lparr>fi_Size := off, fi_Blocks := blocks,
                                    fi_RawBlockSize := go_int32 (FileInfo_BlockSize fi + blockOverhead)\<rparr>
                          else enc1))))"

definition DecryptFileInfo :: "crypto \<Rightarrow> FileInfo \<Rightarrow> key \<Rightarrow> (enc_error, FileInfo) result" where
  "DecryptFileInfo cr fi folderKey =
     (case decryptName cr (fi_Name fi) folderKey of
        Inl e \<Rightarrow> Inl e
      | Inr realName \<Rightarrow>
          (case DecryptBytes cr (fi_Encrypted fi) (FileKey cr realName folderKey) of
             Inl e \<Rightarrow> Inl e
           | Inr d \<Rightarrow>
               (case fi_unmarshal cr d of
                  None \<Rightarrow> Inl BadProto
                | Some w \<Rightarrow> Inr (FileInfoFromWire (w\<lparr>w_Sequence := fi_Sequence fi\<rparr>)))))"

fun encryptFileInfos :: "crypto \<Rightarrow> bytes list \<Rightarrow> FileInfo list \<Rightarrow> key \<Rightarrow> (enc_error, FileInfo list) result" where
  "encryptFileInfos cr (n # ns) (fi # fis) k =
     (case encryptFileInfo cr n fi k of
        Inl e \<Rightarrow> Inl e
      | Inr f \<Rightarrow> (case encryptFileInfos cr ns fis k of Inl e \<Rightarrow> Inl e | Inr fs \<Rightarrow> Inr (f # fs)))"
| "encryptFileInfos cr _ _ k = Inr []"

definition decryptFileInfos :: "crypto \<Rightarrow> FileInfo list \<Rightarrow> key \<Rightarrow> (enc_error, FileInfo list) result" where
  "decryptFileInfos cr fis k = map_result (\<lambda>fi. DecryptFileInfo cr fi k) fis"

section \<open>Requests\<close>

type_synonym folderKeys = "string \<rightharpoonup> key"

definition keysFromPasswords :: "crypto \<Rightarrow> (string \<rightharpoonup> string) \<Rightarrow> folderKeys" where
  "keysFromPasswords cr passwords = (\<lambda>folder. map_option (KeyFromPassword cr folder) (passwords folder))"

text \<open>The registry holds the keys of the passwords set last.\<close>

definition setPasswords :: "crypto \<Rightarrow> (string \<rightharpoonup> string) \<Rightarrow> folderKeys \<Rightarrow> folderKeys" where
  "setPasswords cr passwords keys = keysFromPasswords cr passwords"

text \<open>
  The end that answers. \<open>model\<close> is the model's handler, \<open>pad\<close> the random bytes a short block is
  padded with, of which the code draws as many as are missing.
\<close>

definition encryptedModel_Request ::
  "crypto \<Rightarrow> folderKeys \<Rightarrow> (Request \<Rightarrow> (string, bytes) result) \<Rightarrow> bytes \<Rightarrow> bytes \<Rightarrow> Request \<Rightarrow> (enc_error, bytes) result" where
  "encryptedModel_Request cr keys model nonce pad req =
     (case keys (rq_Folder req) of
        None \<Rightarrow> (case model req of Inl e \<Rightarrow> Inl (RequestFailed e) | Inr d \<Rightarrow> Inr d)
      | Some folderKey \<Rightarrow>
          (case decryptName cr (rq_Name req) folderKey of
             Inl e \<Rightarrow> Inl e
           | Inr realName \<Rightarrow>
               let realSize = rq_Size req - blockOverhead;
                   realOffset = rq_Offset req - rq_BlockNo req * blockOverhead;
                   fileKey = FileKey cr realName folderKey
               in if rq_Size req < minPaddedSize then Inl ShortRequest
                  else (case (if length (rq_Hash req) > 0 then
                                (case decryptDeterministic cr (rq_Hash req) fileKey (offset_bytes realOffset) of
                                   Some h \<Rightarrow> Some h
                                 | None \<Rightarrow> decryptDeterministic cr (rq_Hash req) fileKey [])
                              else Some []) of
                          None \<Rightarrow> Inl OpenFailed
                        | Some realHash \<Rightarrow>
                            (case model (req\<lparr>rq_Name := realName, rq_Size := realSize, rq_Offset := realOffset, rq_Hash := realHash\<rparr>) of
                               Inl e \<Rightarrow> Inl (RequestFailed e)
                             | Inr d \<Rightarrow>
                                 let data = (if int (length d) < minPaddedSize then d @ take (nat minPaddedSize - length d) pad else d)
                                 in Inr (encryptBytes cr nonce data fileKey)))))"

text \<open>The end that asks. \<open>conn\<close> is the connection below; the last slice may be out of range.\<close>

definition encryptedConnection_Request ::
  "crypto \<Rightarrow> folderKeys \<Rightarrow> (Request \<Rightarrow> (enc_error, bytes) result) \<Rightarrow> Request \<Rightarrow> (enc_error, bytes) result" where
  "encryptedConnection_Request cr keys conn req =
     (case keys (rq_Folder req) of
        None \<Rightarrow> conn req
      | Some folderKey \<Rightarrow>
          let fileKey = FileKey cr (rq_Name req) folderKey;
              encSize = (if rq_Size req < minPaddedSize then minPaddedSize else rq_Size req) + blockOverhead
          in (case encryptName cr (rq_Name req) folderKey of
                None \<Rightarrow> Inl PanicShortName
              | Some encName \<Rightarrow>
                  let encReq = \<lparr>rq_ID = rq_ID req, rq_Folder = rq_Folder req, rq_Name = encName,
                        rq_Offset = rq_Offset req + rq_BlockNo req * blockOverhead, rq_Size = encSize,
                        rq_Hash = encryptBlockHash cr (rq_Hash req) (rq_Offset req) fileKey, rq_FromTemporary = False,
                        rq_BlockNo = rq_BlockNo req\<rparr>
                  in (case conn encReq of
                        Inl e \<Rightarrow> Inl e
                      | Inr bs \<Rightarrow>
                          (case DecryptBytes cr bs fileKey of
                             Inl e \<Rightarrow> Inl e
                           | Inr d \<Rightarrow> if int (length d) < rq_Size req then Inl PanicSlice else Inr (take (nat (rq_Size req)) d)))))"

text \<open>Index messages and download progress.\<close>

definition encryptedModel_Index :: "crypto \<Rightarrow> folderKeys \<Rightarrow> Index \<Rightarrow> (enc_error, Index) result" where
  "encryptedModel_Index cr keys idx =
     (case keys (ix_Folder idx) of
        None \<Rightarrow> Inr idx
      | Some k \<Rightarrow> (case decryptFileInfos cr (ix_Files idx) k of Inl e \<Rightarrow> Inl e | Inr fs \<Rightarrow> Inr (idx\<lparr>ix_Files := fs\<rparr>)))"

definition encryptedModel_IndexUpdate :: "crypto \<Rightarrow> folderKeys \<Rightarrow> IndexUpdate \<Rightarrow> (enc_error, IndexUpdate) result" where
  "encryptedModel_IndexUpdate cr keys idx =
     (case keys (ix_Folder idx) of
        None \<Rightarrow> Inr idx
      | Some k \<Rightarrow> (case decryptFileInfos cr (ix_Files idx) k of Inl e \<Rightarrow> Inl e | Inr fs \<Rightarrow> Inr (idx\<lparr>ix_Files := fs\<rparr>)))"

definition encryptedConnection_Index :: "crypto \<Rightarrow> folderKeys \<Rightarrow> bytes list \<Rightarrow> Index \<Rightarrow> (enc_error, Index) result" where
  "encryptedConnection_Index cr keys nonces idx =
     (case keys (ix_Folder idx) of
        None \<Rightarrow> Inr idx
      | Some k \<Rightarrow> (case encryptFileInfos cr nonces (ix_Files idx) k of Inl e \<Rightarrow> Inl e | Inr fs \<Rightarrow> Inr (idx\<lparr>ix_Files := fs\<rparr>)))"

definition encryptedConnection_IndexUpdate :: "crypto \<Rightarrow> folderKeys \<Rightarrow> bytes list \<Rightarrow> IndexUpdate \<Rightarrow> (enc_error, IndexUpdate) result" where
  "encryptedConnection_IndexUpdate cr keys nonces idx =
     (case keys (ix_Folder idx) of
        None \<Rightarrow> Inr idx
      | Some k \<Rightarrow> (case encryptFileInfos cr nonces (ix_Files idx) k of Inl e \<Rightarrow> Inl e | Inr fs \<Rightarrow> Inr (idx\<lparr>ix_Files := fs\<rparr>)))"

text \<open>Whether download progress of a folder is passed on, received or sent.\<close>

definition encrypted_DownloadProgress :: "folderKeys \<Rightarrow> DownloadProgress \<Rightarrow> bool" where
  "encrypted_DownloadProgress keys p \<longleftrightarrow> keys (dp_Folder p) = None"

section \<open>What the ciphers are relied on\<close>

definition crypto_ok :: "crypto \<Rightarrow> bool" where
  "crypto_ok cr \<longleftrightarrow>
     (\<forall>k d a. siv_open cr k (siv_seal cr k d a) a = Some d \<and> length (siv_seal cr k d a) = length d + tagSize) \<and>
     (\<forall>k n d. x_open cr k n (x_seal cr k n d) = Some d \<and> length (x_seal cr k n d) = length d + tagSize)"

lemma crypto_okD:
  assumes "crypto_ok cr"
  shows "siv_open cr k (siv_seal cr k d a) a = Some d" "length (siv_seal cr k d a) = length d + 16"
    "x_open cr k n (x_seal cr k n d) = Some d" "length (x_seal cr k n d) = length d + 16"
  using assms by (simp_all add: crypto_ok_def tagSize_def)

lemma DecryptBytes_encrypt:
  assumes "crypto_ok cr" "length nonce = nonceSize"
  shows "DecryptBytes cr (encryptBytes cr nonce d k) k = Inr d"
  using crypto_okD [OF assms(1)] assms(2)
  by (simp add: DecryptBytes_def encryptBytes_def encrypt_def blockOverhead_def tagSize_def)

lemma encryptName_ok:
  assumes "crypto_ok cr"
  obtains s where "encryptName cr name k = Some s" "decryptName cr s k = Inr name" "list_all plain_elem (go_split (CHR ''/'') s)"
proof -
  let ?e = "hex32_EncodeToString (siv_seal cr k (str_bytes name) [])"
  have len: "3 \<le> length ?e" using hex32_encode_length [of "siv_seal cr k (str_bytes name) []"] crypto_okD(2) [OF assms, of k "str_bytes name" "[]"]
    by simp
  obtain s where s: "slashify ?e = Some s" "deslashify s = Some ?e"
    using deslashify_slashify [OF hex32_encode_chars len] by blast
  have "s = go_join ''/'' (slashify_comps ?e)" using s(1) len by (simp add: slashify_def)
  then have "list_all plain_elem (go_split (CHR ''/'') s)"
    using join_plain_not_rooted(3) [OF slashify_comps_plain [OF hex32_encode_chars len]] slashify_comps_plain [OF hex32_encode_chars len]
    by (simp add: slashify_comps_def)
  moreover have "decryptName cr s k = Inr name"
    using crypto_okD(1) [OF assms] by (simp add: decryptName_def s(2) hex32_DecodeString_encode decryptDeterministic_def)
  ultimately show ?thesis using that s(1) by (simp add: encryptName_def encryptDeterministic_def)
qed

lemma hash_roundtrip:
  assumes "crypto_ok cr"
  shows "0 < length (encryptBlockHash cr h off fk)" "decryptDeterministic cr (encryptBlockHash cr h off fk) fk (offset_bytes off) = Some h"
  using crypto_okD(1,2) [OF assms] by (simp_all add: encryptBlockHash_def encryptDeterministic_def decryptDeterministic_def)

section \<open>Blocks of an encrypted file\<close>

abbreviation padded_size :: "BlockInfo \<Rightarrow> int" where
  "padded_size b \<equiv> max (bi_Size b) minPaddedSize"

lemma encrypt_blocks_spec:
  "encrypt_blocks cr fk off bs = (es, endoff) \<Longrightarrow>
     length es = length bs \<and> endoff = off + sum_list (map (\<lambda>b. padded_size b + blockOverhead) bs) \<and>
     (\<forall>i < length bs. bi_Offset (es ! i) = off + sum_list (map (\<lambda>b. padded_size b + blockOverhead) (take i bs)) \<and>
        bi_Size (es ! i) = padded_size (bs ! i) + blockOverhead \<and> bi_Hash (es ! i) = encryptBlockHash cr (bi_Hash (bs ! i)) (bi_Offset (bs ! i)) fk)"
proof (induction bs arbitrary: off es endoff)
  case (Cons b bs)
  obtain rest t where r: "encrypt_blocks cr fk (off + (padded_size b + blockOverhead)) bs = (rest, t)" by force
  have m: "(if bi_Size b < minPaddedSize then minPaddedSize else bi_Size b) = padded_size b" by simp
  from Cons.prems have es: "es = \<lparr>bi_Hash = encryptBlockHash cr (bi_Hash b) (bi_Offset b) fk, bi_Offset = off, bi_Size = padded_size b + blockOverhead\<rparr> # rest"
    "endoff = t" unfolding encrypt_blocks.simps m Let_def r by simp_all
  show ?case using Cons.IH [OF r] unfolding es by (auto simp: nth_Cons less_Suc_eq_0_disj add.assoc split: nat.splits)
qed simp

text \<open>Blocks as the scanner makes them: contiguous, all but the last of at least the padded size.\<close>

definition blocks_regular :: "BlockInfo list \<Rightarrow> bool" where
  "blocks_regular bs \<longleftrightarrow>
     (\<forall>i < length bs. bi_Offset (bs ! i) = sum_list (map bi_Size (take i bs)) \<and> (Suc i < length bs \<longrightarrow> minPaddedSize \<le> bi_Size (bs ! i)))"

lemma regular_offset:
  assumes "blocks_regular bs" "i < length bs"
  shows "sum_list (map (\<lambda>b. padded_size b + blockOverhead) (take i bs)) = bi_Offset (bs ! i) + int i * blockOverhead"
proof -
  have "padded_size b = bi_Size b" if "b \<in> set (take i bs)" for b
  proof -
    obtain j where "j < i" "b = bs ! j" using \<open>b \<in> set (take i bs)\<close> assms(2) by (auto simp: in_set_conv_nth)
    then show ?thesis using assms unfolding blocks_regular_def by (metis Suc_lessI less_trans max_absorb1 not_less_eq)
  qed
  then have "sum_list (map (\<lambda>b. padded_size b + blockOverhead) (take i bs)) = sum_list (map (\<lambda>b. bi_Size b + blockOverhead) (take i bs))"
    by (intro arg_cong [of _ _ sum_list] map_cong) auto
  also have "\<dots> = sum_list (map bi_Size (take i bs)) + int i * blockOverhead"
    using assms(2) by (simp add: sum_list_addf sum_list_triv)
  finally show ?thesis using assms unfolding blocks_regular_def by simp
qed

lemma encryptFileInfo_ok:
  assumes "crypto_ok cr" "FileInfo_ToWire fi False = Inr w" "fi_marshal cr w = Some b"
  obtains e where "encryptFileInfo cr nonce fi folderKey = Inr e" "encryptName cr (fi_Name fi) folderKey = Some (fi_Name e)"
    "fi_Encrypted e = encryptBytes cr nonce b (FileKey cr (fi_Name fi) folderKey)" "fi_Sequence e = fi_Sequence fi"
    "fi_Type fi = FileInfoTypeFile \<Longrightarrow> (fi_Blocks e, fi_Size e) = encrypt_blocks cr (FileKey cr (fi_Name fi) folderKey) 0 (fi_Blocks fi)"
proof -
  obtain s where s: "encryptName cr (fi_Name fi) folderKey = Some s" using encryptName_ok [OF assms(1)] by metis
  obtain bl t where e: "encrypt_blocks cr (FileKey cr (fi_Name fi) folderKey) 0 (fi_Blocks fi) = (bl, t)" by force
  show ?thesis by (rule that, unfold encryptFileInfo_def Let_def assms(2,3) s e sum.case option.case prod.case, rule refl) simp_all
qed

section \<open>Properties\<close>

text \<open>C20. Two devices that hold the folder's password talk through encryption as if there were none:
  the model that answers is asked for the same name, offset, hash and block, of at least 1024
  bytes, and the caller gets the bytes it asked for from the front of the answer.\<close>

theorem encrypted_requests_transparent:
  assumes "crypto_ok cr" "keys (rq_Folder req) = Some folderKey" "length nonce = nonceSize" "0 \<le> rq_Size req"
    and "model (req\<lparr>rq_Size := max (rq_Size req) minPaddedSize, rq_FromTemporary := False\<rparr>) = Inr d" "rq_Size req \<le> int (length d)"
  shows "encryptedConnection_Request cr keys (encryptedModel_Request cr keys model nonce pad) req = Inr (take (nat (rq_Size req)) d)"
proof -
  let ?fk = "FileKey cr (rq_Name req) folderKey"
  obtain s where s: "encryptName cr (rq_Name req) folderKey = Some s" "decryptName cr s folderKey = Inr (rq_Name req)"
    using encryptName_ok [OF assms(1)] by metis
  define m where "m = max (rq_Size req) minPaddedSize"
  have m: "(if rq_Size req < minPaddedSize then minPaddedSize else rq_Size req) = m" by (simp add: m_def)
  define encReq where "encReq = \<lparr>rq_ID = rq_ID req, rq_Folder = rq_Folder req, rq_Name = s,
    rq_Offset = rq_Offset req + rq_BlockNo req * blockOverhead, rq_Size = m + blockOverhead,
    rq_Hash = encryptBlockHash cr (rq_Hash req) (rq_Offset req) ?fk, rq_FromTemporary = False, rq_BlockNo = rq_BlockNo req\<rparr>"
  define dat where "dat = (if int (length d) < minPaddedSize then d @ take (nat minPaddedSize - length d) pad else d)"
  have bk: "\<lparr>rq_ID = rq_ID req, rq_Folder = rq_Folder req, rq_Name = rq_Name req, rq_Offset = rq_Offset req, rq_Size = m,
    rq_Hash = rq_Hash req, rq_FromTemporary = False, rq_BlockNo = rq_BlockNo req\<rparr> = req\<lparr>rq_Size := m, rq_FromTemporary := False\<rparr>"
    by (cases req) simp
  have big: "\<not> rq_Size encReq < minPaddedSize" by (simp add: encReq_def m_def blockOverhead_def)
  have off: "rq_Offset encReq - rq_BlockNo encReq * blockOverhead = rq_Offset req" "rq_Size encReq - blockOverhead = m"
    by (simp_all add: encReq_def)
  have "encryptedModel_Request cr keys model nonce pad encReq = Inr (encryptBytes cr nonce dat ?fk)"
    unfolding encryptedModel_Request_def Let_def off using big assms(2,5) s(2) hash_roundtrip [OF assms(1)]
    by (simp add: dat_def m_def [symmetric] encReq_def bk)
  moreover have "int (length dat) \<ge> rq_Size req" "take (nat (rq_Size req)) dat = take (nat (rq_Size req)) d"
    using assms(6) by (auto simp: dat_def)
  ultimately show ?thesis
    unfolding encryptedConnection_Request_def Let_def assms(2) option.case m s(1) encReq_def [symmetric]
    using DecryptBytes_encrypt [OF assms(1,3)] by simp
qed

text \<open>C25. The encrypted record of a file opens to the record again, as the wire carries it, under the
  sequence number of the encrypted one; its name consists of plain path elements; and for a file
  with regular blocks, the request that a device without the key makes for any block it lists
  (name, offset, size, hash, index) asks the model for the real name, offset and hash of that
  block.\<close>

theorem encrypted_file_served:
  assumes "crypto_ok cr" "FileInfo_ToWire fi False = Inr w" "fi_marshal cr w = Some b" "fi_unmarshal cr b = Some w"
    and "length nonce = nonceSize" "fi_Type fi = FileInfoTypeFile" "blocks_regular (fi_Blocks fi)" "i < length (fi_Blocks fi)" "keys folder = Some folderKey"
  shows "\<exists>e. encryptFileInfo cr nonce fi folderKey = Inr e \<and> DecryptFileInfo cr e folderKey = Inr (FileInfoFromWire w) \<and>
    list_all plain_elem (go_split (CHR ''/'') (fi_Name e)) \<and>
    encryptedModel_Request cr keys model nonce' pad
      \<lparr>rq_ID = n, rq_Folder = folder, rq_Name = fi_Name e, rq_Offset = bi_Offset (fi_Blocks e ! i), rq_Size = bi_Size (fi_Blocks e ! i),
       rq_Hash = bi_Hash (fi_Blocks e ! i), rq_FromTemporary = False, rq_BlockNo = int i\<rparr> =
    (case model \<lparr>rq_ID = n, rq_Folder = folder, rq_Name = fi_Name fi, rq_Offset = bi_Offset (fi_Blocks fi ! i), rq_Size = padded_size (fi_Blocks fi ! i),
       rq_Hash = bi_Hash (fi_Blocks fi ! i), rq_FromTemporary = False, rq_BlockNo = int i\<rparr> of
       Inl err \<Rightarrow> Inl (RequestFailed err)
     | Inr d \<Rightarrow> Inr (encryptBytes cr nonce' (if int (length d) < minPaddedSize then d @ take (nat minPaddedSize - length d) pad else d)
         (FileKey cr (fi_Name fi) folderKey)))"
proof -
  let ?fk = "FileKey cr (fi_Name fi) folderKey"
  obtain e where e: "encryptFileInfo cr nonce fi folderKey = Inr e" "encryptName cr (fi_Name fi) folderKey = Some (fi_Name e)"
    "fi_Encrypted e = encryptBytes cr nonce b ?fk" "fi_Sequence e = fi_Sequence fi" "encrypt_blocks cr ?fk 0 (fi_Blocks fi) = (fi_Blocks e, fi_Size e)"
    using encryptFileInfo_ok [OF assms(1-3), of nonce folderKey] assms(6) by metis
  have nm: "decryptName cr (fi_Name e) folderKey = Inr (fi_Name fi)" "list_all plain_elem (go_split (CHR ''/'') (fi_Name e))"
    using encryptName_ok [OF assms(1), of "fi_Name fi" folderKey] e(2) by (metis option.inject)+
  have "w_Sequence w = fi_Sequence fi" using assms(2) by (auto simp: FileInfo_ToWire_def split: if_splits)
  then have "w\<lparr>w_Sequence := fi_Sequence fi\<rparr> = w" by (cases w) simp
  then have dec: "DecryptFileInfo cr e folderKey = Inr (FileInfoFromWire w)"
    using DecryptBytes_encrypt [OF assms(1,5)] assms(4) by (simp add: DecryptFileInfo_def nm(1) e(3,4))
  have blk: "bi_Offset (fi_Blocks e ! i) = bi_Offset (fi_Blocks fi ! i) + int i * blockOverhead"
    "bi_Size (fi_Blocks e ! i) = padded_size (fi_Blocks fi ! i) + blockOverhead"
    "bi_Hash (fi_Blocks e ! i) = encryptBlockHash cr (bi_Hash (fi_Blocks fi ! i)) (bi_Offset (fi_Blocks fi ! i)) ?fk"
    using encrypt_blocks_spec [OF e(5)] regular_offset [OF assms(7,8)] assms(8) by auto
  have big: "\<not> padded_size (fi_Blocks fi ! i) + blockOverhead < minPaddedSize" by (simp add: blockOverhead_def)
  show ?thesis
    by (rule exI [of _ e], intro conjI e(1) dec nm(2), unfold encryptedModel_Request_def Let_def blk)
      (use big assms(9) nm(1) hash_roundtrip [OF assms(1)] in \<open>simp split: sum.splits\<close>)
qed

text \<open>A cipher that only appends its tag, and an encoder for one record.\<close>

definition example_block :: BlockInfo where
  "example_block = \<lparr>bi_Hash = [1, 2], bi_Offset = 0, bi_Size = 5\<rparr>"

definition example_enc_file :: FileInfo where
  "example_enc_file = FileInfo_zero\<lparr>fi_Name := ''dir/a'', fi_Size := 5, fi_Blocks := [example_block]\<rparr>"

definition example_wire :: bep_FileInfo where
  "example_wire = projr (FileInfo_ToWire example_enc_file False)"

definition example_crypto :: crypto where
  "example_crypto =
     \<lparr>siv_seal = (\<lambda>k d a. replicate 16 0 @ d), siv_open = (\<lambda>k c a. Some (drop 16 c)), x_seal = (\<lambda>k n d. d @ replicate 16 0),
      x_open = (\<lambda>k n c. Some (take (length c - 16) c)), hkdf = (\<lambda>s t. replicate 32 0), scrypt = (\<lambda>s t. replicate 32 0),
      fi_marshal = (\<lambda>w. Some [7]), fi_unmarshal = (\<lambda>b. Some example_wire)\<rparr>"

lemma example_crypto_ok: "crypto_ok example_crypto"
  by (simp add: crypto_ok_def example_crypto_def tagSize_def)

definition example_req :: Request where
  "example_req = \<lparr>rq_ID = 1, rq_Folder = ''f'', rq_Name = ''dir/a'', rq_Offset = 0, rq_Size = 5, rq_Hash = [1, 2], rq_FromTemporary = True, rq_BlockNo = 0\<rparr>"

lemma encrypted_requests_transparent_witness:
  "encryptedConnection_Request example_crypto [''f'' \<mapsto> [9]]
     (encryptedModel_Request example_crypto [''f'' \<mapsto> [9]] (\<lambda>r. Inr [10, 11, 12, 13, 14, 15]) (replicate 24 3) (replicate 1024 0)) example_req
   = Inr [10, 11, 12, 13, 14]"
  using encrypted_requests_transparent [OF example_crypto_ok, of "[''f'' \<mapsto> [9]]" example_req "[9]" "replicate 24 3"
      "\<lambda>r. Inr [10, 11, 12, 13, 14, 15]" "[10, 11, 12, 13, 14, 15]" "replicate 1024 0"]
  by (simp add: example_req_def nonceSize_def)

lemma encrypted_file_served_witness:
  "\<exists>e. encryptFileInfo example_crypto (replicate 24 3) example_enc_file [9] = Inr e \<and>
     DecryptFileInfo example_crypto e [9] = Inr (FileInfoFromWire example_wire) \<and> list_all plain_elem (go_split (CHR ''/'') (fi_Name e))"
proof -
  have w: "FileInfo_ToWire example_enc_file False = Inr example_wire"
    by (simp add: example_wire_def FileInfo_ToWire_def example_enc_file_def FileInfo_zero_def)
  have reg: "blocks_regular (fi_Blocks example_enc_file)" "0 < length (fi_Blocks example_enc_file)" "fi_Type example_enc_file = FileInfoTypeFile"
    by (simp_all add: blocks_regular_def example_enc_file_def example_block_def FileInfo_zero_def)
  have m: "fi_marshal example_crypto example_wire = Some [7]" "fi_unmarshal example_crypto [7] = Some example_wire"
    by (simp_all add: example_crypto_def)
  have n: "length (replicate 24 (3 :: uint8)) = nonceSize" "[''f'' \<mapsto> [9 :: uint8]] ''f'' = Some [9]" by (simp_all add: nonceSize_def)
  show ?thesis
    using encrypted_file_served [where keys = "[''f'' \<mapsto> [9]]" and folder = "''f''", OF example_crypto_ok w m n(1) reg(3,1,2) n(2)] by blast
qed

text \<open>
  A device without the key can answer a request with another, shorter block of the same file:
  it opens, and the slice of the requested length panics.
\<close>

lemma short_block_panics:
  "encryptedConnection_Request example_crypto [''f'' \<mapsto> [9]]
     (\<lambda>r. Inr (encryptBytes example_crypto (replicate 24 3) (replicate 1024 0) (FileKey example_crypto ''dir/a'' [9])))
     (example_req\<lparr>rq_Size := 131072\<rparr>) = Inl PanicSlice"
proof -
  obtain s where "encryptName example_crypto ''dir/a'' [9] = Some s" using encryptName_ok [OF example_crypto_ok] by metis
  then show ?thesis using DecryptBytes_encrypt [OF example_crypto_ok, of "replicate 24 3"]
    by (simp add: encryptedConnection_Request_def example_req_def nonceSize_def)
qed

end
