(* ===== verification/ConnLayers.thy ===== *)
theory ConnLayers
  imports Wire
begin

text \<open>
  Smaller parts of \<open>lib/protocol\<close>: the pool of message buffers (\<open>bufferpool.go\<close>), the conversion
  of names between the wire and Windows (\<open>nativemodel_windows.go\<close>, \<open>wireformat.go\<close>), the counting
  reader and writer (\<open>counting.go\<close>) and the answer to a request (\<open>handleRequest\<close>).
\<close>

section \<open>The buffer pool\<close>

text \<open>
  Buffers are known by their capacity. \<open>sync.Pool\<close> gives any buffer it holds or none; \<open>pick\<close> says
  which, as a position in the bucket.
\<close>

record bufferPool =
  bp_puts :: nat
  bp_skips :: nat
  bp_misses :: nat
  bp_pools :: "nat \<Rightarrow> int list"
  bp_hits :: "nat \<Rightarrow> nat"

definition newBufferPool :: bufferPool where
  "newBufferPool = \<lparr>bp_puts = 0, bp_skips = 0, bp_misses = 0, bp_pools = (\<lambda>_. []), bp_hits = (\<lambda>_. 0)\<rparr>"

fun bucket_loop :: "(int \<Rightarrow> bool) \<Rightarrow> nat \<Rightarrow> int list \<Rightarrow> nat option" where
  "bucket_loop P i [] = None"
| "bucket_loop P i (s # ss) = (if P s then Some i else bucket_loop P (i + 1) ss)"

text \<open>\<open>None\<close> is the panic.\<close>

definition getBucketForLen :: "int \<Rightarrow> nat option" where
  "getBucketForLen len = bucket_loop (\<lambda>blockSize. len \<le> blockSize) 0 BlockSizes"

definition putBucketForCap :: "int \<Rightarrow> nat option" where
  "putBucketForCap cap = bucket_loop (\<lambda>blockSize. cap = blockSize) 0 BlockSizes"

function get_loop :: "(nat \<Rightarrow> nat option) \<Rightarrow> nat \<Rightarrow> bufferPool \<Rightarrow> (int \<times> bufferPool) option" where
  "get_loop pick j p =
     (if j < length BlockSizes then
        (case pick j of
           Some k \<Rightarrow>
             if k < length (bp_pools p j) then
               Some (bp_pools p j ! k,
                 p\<lparr>bp_hits := (bp_hits p)(j := bp_hits p j + 1),
                   bp_pools := (bp_pools p)(j := take k (bp_pools p j) @ drop (Suc k) (bp_pools p j))\<rparr>)
             else get_loop pick (j + 1) p
         | None \<Rightarrow> get_loop pick (j + 1) p)
      else None)"
  by pat_completeness auto
termination
  by (relation "measure (\<lambda>(pick, j, p). length BlockSizes - j)") auto

declare get_loop.simps [simp del]

text \<open>The capacity of the buffer returned, whose length is the one asked for, and the pool.\<close>

definition pool_Get :: "(nat \<Rightarrow> nat option) \<Rightarrow> int \<Rightarrow> bufferPool \<Rightarrow> (int \<times> bufferPool) option" where
  "pool_Get pick len p =
     (if len > MaxBlockSize then Some (len, p\<lparr>bp_skips := bp_skips p + 1\<rparr>)
      else (case getBucketForLen len of
              None \<Rightarrow> None
            | Some bkt \<Rightarrow>
                (case get_loop pick bkt p of
                   Some r \<Rightarrow> Some r
                 | None \<Rightarrow>
                     let p1 = p\<lparr>bp_misses := bp_misses p + 1\<rparr> in
                     if len < MinBlockSize div 64 then Some (len, p1) else Some (BlockSizes ! bkt, p1))))"

definition pool_Put :: "int \<Rightarrow> bufferPool \<Rightarrow> bufferPool option" where
  "pool_Put cap p =
     (if cap > MaxBlockSize \<or> cap < MinBlockSize then Some (p\<lparr>bp_skips := bp_skips p + 1\<rparr>)
      else
        let p1 = p\<lparr>bp_puts := bp_puts p + 1\<rparr> in
        (case putBucketForCap cap of
           None \<Rightarrow> None
         | Some bkt \<Rightarrow> Some (p1\<lparr>bp_pools := (bp_pools p1)(bkt := cap # bp_pools p1 bkt)\<rparr>)))"

definition pool_inv :: "bufferPool \<Rightarrow> bool" where
  "pool_inv p \<longleftrightarrow> (\<forall>j < length BlockSizes. \<forall>c \<in> set (bp_pools p j). c = BlockSizes ! j)"

lemma bucket_loop_Some:
  "bucket_loop P i ss = Some k \<Longrightarrow> i \<le> k \<and> k < i + length ss \<and> P (ss ! (k - i))"
proof (induction ss arbitrary: i)
  case (Cons s ss)
  show ?case
  proof (cases "P s")
    case False
    then have "Suc i \<le> k \<and> k < Suc i + length ss \<and> P (ss ! (k - Suc i))" using Cons.IH [of "Suc i"] Cons.prems by simp
    then show ?thesis by (auto simp: nth_Cons')
  qed (use Cons.prems in simp)
qed simp

lemma BlockSizes_mono: "\<lbrakk>i \<le> j; j < length BlockSizes\<rbrakk> \<Longrightarrow> BlockSizes ! i \<le> BlockSizes ! j"
  using sorted_nth_mono [of BlockSizes i j] by (simp add: BlockSizes_eq)

lemma get_loop_ok:
  "\<lbrakk>get_loop pick j p = Some (c, p'); pool_inv p\<rbrakk> \<Longrightarrow> pool_inv p' \<and> (\<exists>k \<ge> j. k < length BlockSizes \<and> c = BlockSizes ! k)"
proof (induction pick j p rule: get_loop.induct)
  case (1 pick j p)
  show ?case
  proof (cases "j < length BlockSizes \<and> (\<exists>k. pick j = Some k \<and> k < length (bp_pools p j))")
    case True
    then obtain k where k: "pick j = Some k" "k < length (bp_pools p j)" "j < length BlockSizes" by blast
    then have "c = bp_pools p j ! k" "p' = p\<lparr>bp_hits := (bp_hits p)(j := bp_hits p j + 1),
        bp_pools := (bp_pools p)(j := take k (bp_pools p j) @ drop (Suc k) (bp_pools p j))\<rparr>"
      using "1.prems"(1) unfolding get_loop.simps [of pick j p] by simp_all
    then show ?thesis using k "1.prems"(2)
      by (auto simp: pool_inv_def dest: in_set_takeD in_set_dropD intro!: exI [of _ j])
  next
    case False
    have "get_loop pick j p = (if j < length BlockSizes then get_loop pick (j + 1) p else None)"
      by (subst get_loop.simps) (use False in \<open>cases "pick j"; simp\<close>)
    then have j: "j < length BlockSizes" "get_loop pick (j + 1) p = Some (c, p')"
      using "1.prems"(1) by (simp_all split: if_splits)
    have "pool_inv p' \<and> (\<exists>k \<ge> j + 1. k < length BlockSizes \<and> c = BlockSizes ! k)"
    proof (cases "pick j")
      case None
      show ?thesis by (rule "1.IH"(1) [OF j(1) None j(2) "1.prems"(2)])
    next
      case (Some k)
      then have "\<not> k < length (bp_pools p j)" using False j(1) by simp
      then show ?thesis by (rule "1.IH"(2) [OF j(1) Some _ j(2) "1.prems"(2)])
    qed
    then obtain k where k: "pool_inv p'" "j + 1 \<le> k" "k < length BlockSizes" "c = BlockSizes ! k" by blast
    then have "j \<le> k" by simp
    then show ?thesis using k by blast
  qed
qed

lemma pool_Get_ok:
  assumes "pool_inv p" "0 \<le> len"
  shows "\<exists>c p'. pool_Get pick len p = Some (c, p') \<and> len \<le> c \<and> pool_inv p'"
proof (cases "len > MaxBlockSize")
  case True
  then show ?thesis using assms by (simp add: pool_Get_def pool_inv_def)
next
  case False
  have "\<exists>k. getBucketForLen len = Some k"
    using False by (simp add: getBucketForLen_def BlockSizes_eq MaxBlockSize_def)
  then obtain k where k: "getBucketForLen len = Some k" ..
  have b: "k < length BlockSizes" "len \<le> BlockSizes ! k"
    using bucket_loop_Some [OF k [unfolded getBucketForLen_def]] by auto
  show ?thesis
  proof (cases "get_loop pick k p")
    case None
    then show ?thesis using assms b False by (auto simp: pool_Get_def k Let_def pool_inv_def)
  next
    case (Some r)
    obtain c p' where r: "r = (c, p')" by force
    obtain j where "k \<le> j" "j < length BlockSizes" "c = BlockSizes ! j" "pool_inv p'"
      using get_loop_ok [OF Some [unfolded r] assms(1)] by blast
    then show ?thesis using BlockSizes_mono [of k j] b False by (auto simp: pool_Get_def k Some r)
  qed
qed

section \<open>Names on Windows\<close>

definition FromSlash :: "string \<Rightarrow> string" where
  "FromSlash s = map (\<lambda>c. if c = CHR ''/'' then CHR 0x5C else c) s"

text \<open>
  The loop of \<open>fixupFiles\<close>: \<open>i\<close> files are done (and converted in place), \<open>out\<close> is the output slice once
  a file has been dropped.
\<close>

fun fixup_loop :: "FileInfo list \<Rightarrow> FileInfo list \<Rightarrow> FileInfo list option \<Rightarrow> FileInfo list" where
  "fixup_loop before [] out = (case out of None \<Rightarrow> before | Some fs \<Rightarrow> fs)"
| "fixup_loop before (f # fs) out =
     (if CHR 0x5C \<in> set (fi_Name f) then
        fixup_loop (before @ [f]) fs (case out of None \<Rightarrow> Some before | Some o' \<Rightarrow> Some o')
      else
        let f' = f\<lparr>fi_Name := FromSlash (fi_Name f)\<rparr> in
        fixup_loop (before @ [f']) fs (case out of None \<Rightarrow> None | Some o' \<Rightarrow> Some (o' @ [f'])))"

definition fixupFiles :: "FileInfo list \<Rightarrow> FileInfo list" where
  "fixupFiles files = fixup_loop [] files None"

text \<open>\<open>None\<close> is the error \<open>ErrNoSuchFile\<close>.\<close>

definition native_Request :: "Request \<Rightarrow> Request option" where
  "native_Request req =
     (if CHR 0x5C \<in> set (rq_Name req) then None else Some (req\<lparr>rq_Name := FromSlash (rq_Name req)\<rparr>))"

lemma fixup_loop_spec:
  "fixup_loop before fs out =
     (case out of None \<Rightarrow> before | Some o' \<Rightarrow> o') @
     map (\<lambda>f. f\<lparr>fi_Name := FromSlash (fi_Name f)\<rparr>) (filter (\<lambda>f. CHR 0x5C \<notin> set (fi_Name f)) fs)"
  by (induction before fs out rule: fixup_loop.induct) (simp_all add: Let_def split: option.splits)

lemma fixupFiles_eq:
  "fixupFiles fs = map (\<lambda>f. f\<lparr>fi_Name := FromSlash (fi_Name f)\<rparr>) (filter (\<lambda>f. CHR 0x5C \<notin> set (fi_Name f)) fs)"
  by (simp add: fixupFiles_def fixup_loop_spec)

text \<open>To the wire: forward slashes, and the parameter is the normalisation to composed form.\<close>

definition ToSlash :: "string \<Rightarrow> string" where
  "ToSlash s = map (\<lambda>c. if c = CHR 0x5C then CHR ''/'' else c) s"

definition wireFormat_files :: "(string \<Rightarrow> string) \<Rightarrow> FileInfo list \<Rightarrow> FileInfo list" where
  "wireFormat_files nfc fs = map (\<lambda>f. f\<lparr>fi_Name := nfc (ToSlash (fi_Name f))\<rparr>) fs"

definition wireFormat_Request :: "(string \<Rightarrow> string) \<Rightarrow> Request \<Rightarrow> Request" where
  "wireFormat_Request nfc req = req\<lparr>rq_Name := nfc (ToSlash (rq_Name req))\<rparr>"

lemma ToSlash_FromSlash: "CHR 0x5C \<notin> set s \<Longrightarrow> ToSlash (FromSlash s) = s"
  by (induction s) (auto simp: ToSlash_def FromSlash_def)

section \<open>Counting\<close>

record counting =
  ct_tot :: int
  ct_last :: int

text \<open>A read or write of \<open>n\<close> bytes at time \<open>now\<close>, which also adds to the total of its direction.\<close>

definition counting_io :: "int \<Rightarrow> int \<Rightarrow> counting \<times> int \<Rightarrow> counting \<times> int" where
  "counting_io n now = (\<lambda>(c, all). (c\<lparr>ct_tot := ct_tot c + n, ct_last := now\<rparr>, all + n))"

section \<open>Answers\<close>

definition handleRequest :: "(proto_error \<Rightarrow> proto_error \<Rightarrow> bool) \<Rightarrow> (Request \<Rightarrow> (proto_error, bytes) result) \<Rightarrow> Request \<Rightarrow> Response" where
  "handleRequest wraps model req =
     (case model req of
        Inl err \<Rightarrow> \<lparr>rs_ID = rq_ID req, rs_Data = [], rs_Code = errorToCode wraps (Some err)\<rparr>
      | Inr d \<Rightarrow> \<lparr>rs_ID = rq_ID req, rs_Data = d, rs_Code = errorToCode wraps None\<rparr>)"

lemma handleRequest_code:
  "codeToError (rs_Code (handleRequest wraps model req)) =
     (case model req of
        Inr d \<Rightarrow> None
      | Inl e \<Rightarrow> Some (if wraps e ErrNoSuchFile then ErrNoSuchFile else if wraps e ErrInvalid then ErrInvalid else ErrGeneric))"
  by (auto simp: handleRequest_def errorToCode_def codeToError_def ErrorCodeNoError_def ErrorCodeNoSuchFile_def
      ErrorCodeInvalidFile_def ErrorCodeGeneric_def split: sum.splits)

end
