(* ===== verification/Semaphore.thy ===== *)
theory Semaphore
  imports Prelude
begin

text \<open>
  The counting semaphore with adjustable capacity, \<open>lib/semaphore/semaphore.go\<close>, which bounds
  concurrent scans, requests in flight and dial attempts. Every access to the fields is under the
  mutex and a waiter releases it only in \<open>cond.Wait\<close>, so the code between two waits is one step.
  Sizes and capacities are far from the ends of the 64-bit range.
\<close>

section \<open>Operations\<close>

record Semaphore =
  sem_max :: int
  sem_available :: int

definition Semaphore_New :: "int \<Rightarrow> Semaphore" where
  "Semaphore_New max0 =
     (let m = (if max0 < 0 then 0 else max0) in \<lparr>sem_max = m, sem_available = m\<rparr>)"

text \<open>
  One pass of \<open>takeInner\<close> from the clamp of \<open>size\<close> to the next \<open>Wait\<close> or the return: the context
  is looked at first, then the size is clamped, then the size is taken if it is available.
  The clamped size is what the next pass starts from.
\<close>

datatype take_result = Taken Semaphore | Waiting int | Cancelled

definition takeInner_pass :: "bool \<Rightarrow> int \<Rightarrow> Semaphore \<Rightarrow> take_result" where
  "takeInner_pass ctxDone size0 s =
     (if ctxDone then Cancelled
      else
        let sz = (if size0 > sem_max s then sem_max s else size0) in
        if sz > sem_available s then Waiting sz
        else Taken (s\<lparr>sem_available := sem_available s - sz\<rparr>))"

definition Give :: "int \<Rightarrow> Semaphore \<Rightarrow> Semaphore" where
  "Give size0 s =
     (let sz = (if size0 > sem_max s then sem_max s else size0) in
      if sem_available s + sz > sem_max s then s\<lparr>sem_available := sem_max s\<rparr>
      else s\<lparr>sem_available := sem_available s + sz\<rparr>)"

definition SetCapacity :: "int \<Rightarrow> Semaphore \<Rightarrow> Semaphore" where
  "SetCapacity capacity0 s =
     (let capacity = (if capacity0 < 0 then 0 else capacity0);
          diff = capacity - sem_max s;
          avail = sem_available s + diff
      in \<lparr>sem_max = capacity,
          sem_available = (if avail < 0 then 0 else if avail > capacity then capacity else avail)\<rparr>)"

definition Semaphore_Available :: "Semaphore \<Rightarrow> int" where
  "Semaphore_Available s = sem_available s"

text \<open>
  A \<open>MultiSemaphore\<close> is a list of pointers, nil ones skipped: indexes into a store of
  semaphores. The function is one uninterrupted attempt: \<open>ctxDone k\<close> says whether the context is
  done when the \<open>k\<close>th limiter is tried, and a limiter that would wait ends the attempt.
\<close>

datatype multi_result = MultiTaken | MultiWaits | MultiError

fun MultiSemaphore_Take ::
  "(nat \<Rightarrow> bool) \<Rightarrow> nat \<Rightarrow> int \<Rightarrow> nat option list \<Rightarrow> (nat \<Rightarrow> Semaphore) \<Rightarrow> multi_result \<times> (nat \<Rightarrow> Semaphore)" where
  "MultiSemaphore_Take ctxDone k size0 [] store = (MultiTaken, store)"
| "MultiSemaphore_Take ctxDone k size0 (None # ls) store = MultiSemaphore_Take ctxDone (k + 1) size0 ls store"
| "MultiSemaphore_Take ctxDone k size0 (Some l # ls) store =
     (case takeInner_pass (ctxDone k) size0 (store l) of
        Taken s \<Rightarrow> MultiSemaphore_Take ctxDone (k + 1) size0 ls (store(l := s))
      | Waiting _ \<Rightarrow> (MultiWaits, store)
      | Cancelled \<Rightarrow> (MultiError, store))"

definition MultiSemaphore_Give :: "int \<Rightarrow> nat option list \<Rightarrow> (nat \<Rightarrow> Semaphore) \<Rightarrow> (nat \<Rightarrow> Semaphore)" where
  "MultiSemaphore_Give size0 ls store =
     foldl (\<lambda>st l. case l of None \<Rightarrow> st | Some l \<Rightarrow> st(l := Give size0 (st l))) store (rev ls)"

section \<open>Users of a semaphore\<close>

text \<open>
  The goroutines around one semaphore: the sizes of those that hold it (as they will give them
  back), and the sizes the waiting ones ask for, as clamped so far, with the size they asked for
  first.
\<close>

record sem_sys =
  ss_sem :: Semaphore
  ss_held :: "int list"
  ss_waiting :: "(int \<times> int) list"

inductive sem_step :: "sem_sys \<Rightarrow> sem_sys \<Rightarrow> bool" where
  take_ok: "0 \<le> sz \<Longrightarrow> takeInner_pass False sz (ss_sem y) = Taken s \<Longrightarrow>
     sem_step y (y\<lparr>ss_sem := s, ss_held := sz # ss_held y\<rparr>)"
| take_wait: "0 \<le> sz \<Longrightarrow> takeInner_pass False sz (ss_sem y) = Waiting sz' \<Longrightarrow>
     sem_step y (y\<lparr>ss_waiting := (sz', sz) # ss_waiting y\<rparr>)"
| wake_ok: "(cur, sz) \<in> set (ss_waiting y) \<Longrightarrow> takeInner_pass False cur (ss_sem y) = Taken s \<Longrightarrow>
     sem_step y (y\<lparr>ss_sem := s, ss_held := sz # ss_held y, ss_waiting := remove1 (cur, sz) (ss_waiting y)\<rparr>)"
| wake_cancel: "w \<in> set (ss_waiting y) \<Longrightarrow> sem_step y (y\<lparr>ss_waiting := remove1 w (ss_waiting y)\<rparr>)"
| give: "sz \<in> set (ss_held y) \<Longrightarrow>
     sem_step y (y\<lparr>ss_sem := Give sz (ss_sem y), ss_held := remove1 sz (ss_held y)\<rparr>)"

text \<open>With \<open>SetCapacity\<close> at any moment.\<close>

inductive sem_step_cap :: "sem_sys \<Rightarrow> sem_sys \<Rightarrow> bool" where
  plain: "sem_step y z \<Longrightarrow> sem_step_cap y z"
| set_capacity: "sem_step_cap y (y\<lparr>ss_sem := SetCapacity c (ss_sem y)\<rparr>)"

definition sem_ok :: "Semaphore \<Rightarrow> bool" where
  "sem_ok s \<longleftrightarrow> 0 \<le> sem_available s \<and> sem_available s \<le> sem_max s"

definition clamp :: "int \<Rightarrow> int \<Rightarrow> int" where
  "clamp m sz = (if sz > m then m else sz)"

definition sem_inv :: "sem_sys \<Rightarrow> bool" where
  "sem_inv y \<longleftrightarrow> sem_ok (ss_sem y) \<and> (\<forall>sz \<in> set (ss_held y). 0 \<le> sz) \<and>
     (\<forall>(cur, sz) \<in> set (ss_waiting y). 0 \<le> cur \<and> 0 \<le> sz)"

text \<open>With a fixed capacity every unit is either available or held.\<close>

definition sem_exact :: "sem_sys \<Rightarrow> bool" where
  "sem_exact y \<longleftrightarrow>
     sem_available (ss_sem y) + sum_list (map (clamp (sem_max (ss_sem y))) (ss_held y)) = sem_max (ss_sem y) \<and>
     (\<forall>(cur, sz) \<in> set (ss_waiting y). cur = clamp (sem_max (ss_sem y)) sz)"

section \<open>Preservation\<close>

lemma New_ok [simp]: "sem_ok (Semaphore_New m)"
  by (simp add: sem_ok_def Semaphore_New_def)

lemma Give_ok: "sem_ok s \<Longrightarrow> 0 \<le> sz \<Longrightarrow> sem_ok (Give sz s)"
  by (auto simp: sem_ok_def Give_def Let_def)

lemma SetCapacity_ok: "sem_ok (SetCapacity c s)"
  by (auto simp: sem_ok_def SetCapacity_def Let_def)

lemma pass_Taken:
  assumes "takeInner_pass c sz s = Taken s'"
  shows "s' = s\<lparr>sem_available := sem_available s - clamp (sem_max s) sz\<rparr>"
    and "clamp (sem_max s) sz \<le> sem_available s"
  using assms by (auto simp: takeInner_pass_def clamp_def Let_def split: if_splits)

lemma pass_Waiting: "takeInner_pass c sz s = Waiting sz' \<Longrightarrow> sz' = clamp (sem_max s) sz"
  by (auto simp: takeInner_pass_def clamp_def Let_def split: if_splits)

lemma clamp_simps [simp]:
  "0 \<le> m \<Longrightarrow> 0 \<le> sz \<Longrightarrow> 0 \<le> clamp m sz" "clamp m (clamp m sz) = clamp m sz" "clamp m sz \<le> m"
  by (auto simp: clamp_def)

lemma Taken_ok:
  assumes "sem_ok s" and "0 \<le> sz" and "takeInner_pass c sz s = Taken s'"
  shows "sem_ok s'"
proof -
  have "0 \<le> clamp (sem_max s) sz" using assms(1,2) by (simp add: sem_ok_def)
  then show ?thesis using pass_Taken [OF assms(3)] assms(1) by (auto simp: sem_ok_def)
qed

lemma sem_inv_step:
  assumes "sem_step_cap y z" and "sem_inv y"
  shows "sem_inv z"
  using assms(1)
proof cases
  case plain
  then show ?thesis using assms(2)
  proof cases
    case (take_wait sz sz')
    have m: "0 \<le> sem_max (ss_sem y)" using assms(2) by (simp add: sem_inv_def sem_ok_def)
    show ?thesis using take_wait assms(2) m pass_Waiting [OF take_wait(3)] by (simp add: sem_inv_def)
  qed (auto simp: sem_inv_def Taken_ok Give_ok dest: notin_set_remove1 intro: Taken_ok)
next
  case set_capacity
  then show ?thesis using assms(2) by (simp add: sem_inv_def SetCapacity_ok)
qed

lemma sum_list_map_remove1_int:
  "x \<in> set xs \<Longrightarrow> sum_list (map f (remove1 x xs)) = sum_list (map f xs) - (f x :: int)"
  by (simp add: sum_list_map_remove1)

lemma sum_clamp_nonneg: "0 \<le> m \<Longrightarrow> \<forall>sz \<in> set xs. 0 \<le> sz \<Longrightarrow> 0 \<le> sum_list (map (clamp m) xs)"
  by (auto intro!: sum_list_nonneg)

lemma Give_exact:
  assumes "sem_available s + clamp (sem_max s) sz \<le> sem_max s"
  shows "Give sz s = s\<lparr>sem_available := sem_available s + clamp (sem_max s) sz\<rparr>"
  using assms by (auto simp: Give_def clamp_def Let_def)

lemma sem_exact_step:
  assumes "sem_step y z" and "sem_inv y" and "sem_exact y"
  shows "sem_exact z \<and> sem_max (ss_sem z) = sem_max (ss_sem y)"
  using assms(1)
proof cases
  case (take_ok sz s)
  then show ?thesis using assms(3) pass_Taken [OF take_ok(3)] by (auto simp: sem_exact_def)
next
  case (take_wait sz sz')
  then show ?thesis using assms(3) pass_Waiting [OF take_wait(3)] by (auto simp: sem_exact_def)
next
  case (wake_ok cur sz s)
  have "cur = clamp (sem_max (ss_sem y)) sz" using assms(3) wake_ok(2) by (auto simp: sem_exact_def)
  then show ?thesis using wake_ok assms(3) pass_Taken [OF wake_ok(3)]
    by (auto simp: sem_exact_def dest: notin_set_remove1)
next
  case (wake_cancel w)
  then show ?thesis using assms(3) by (auto simp: sem_exact_def dest: notin_set_remove1)
next
  case (give sz)
  let ?s = "ss_sem y" and ?m = "sem_max (ss_sem y)"
  have "0 \<le> sum_list (map (clamp ?m) (remove1 sz (ss_held y)))"
    using assms(2) by (intro sum_clamp_nonneg) (auto simp: sem_inv_def sem_ok_def dest: notin_set_remove1)
  then have "sem_available ?s + clamp ?m sz \<le> ?m"
    using assms(3) sum_list_map_remove1_int [OF give(2), of "clamp ?m"] by (simp add: sem_exact_def)
  from Give_exact [OF this] show ?thesis using give assms(3)
    by (auto simp: sem_exact_def sum_list_map_remove1_int)
qed

lemma sem_exact_reach:
  assumes "sem_step\<^sup>*\<^sup>* y z" and "sem_inv y" and "sem_exact y"
  shows "sem_inv z \<and> sem_exact z \<and> sem_max (ss_sem z) = sem_max (ss_sem y)"
  using assms
proof (induction rule: rtranclp_induct)
  case (step u z)
  then show ?case using sem_exact_step [of u z] sem_inv_step [of u z] by (auto intro: plain)
qed simp

text \<open>Giving back what a \<open>MultiSemaphore\<close> took leaves every semaphore as it was before.\<close>

lemma Give_Taken:
  assumes "sem_ok s" and "0 \<le> sz" and "takeInner_pass c sz s = Taken s'"
  shows "Give sz s' = s"
proof -
  have "sem_available s' + clamp (sem_max s') sz \<le> sem_max s'"
    using assms(1) pass_Taken [OF assms(3)] by (simp add: sem_ok_def)
  from Give_exact [OF this] show ?thesis using pass_Taken [OF assms(3)] by simp
qed

lemma MultiSemaphore_Give_Taken:
  "MultiSemaphore_Take ctxDone k sz ls store = (MultiTaken, store') \<Longrightarrow> 0 \<le> sz \<Longrightarrow>
   \<forall>l. sem_ok (store l) \<Longrightarrow> MultiSemaphore_Give sz ls store' = store"
proof (induction ctxDone k sz ls store rule: MultiSemaphore_Take.induct)
  case (2 ctxDone k sz ls store)
  then show ?case by (simp add: MultiSemaphore_Give_def)
next
  case (3 ctxDone k sz l ls store)
  then obtain s where s: "takeInner_pass (ctxDone k) sz (store l) = Taken s"
    "MultiSemaphore_Take ctxDone (k + 1) sz ls (store(l := s)) = (MultiTaken, store')"
    by (auto split: take_result.splits)
  have "\<forall>i. sem_ok ((store(l := s)) i)" using "3.prems"(2,3) Taken_ok [OF _ _ s(1)] by simp
  then have "MultiSemaphore_Give sz ls store' = store(l := s)" using 3 s by blast
  moreover have "Give sz s = store l" using Give_Taken [OF _ "3.prems"(2) s(1)] "3.prems"(3) by simp
  ultimately show ?case by (simp add: MultiSemaphore_Give_def)
qed (simp add: MultiSemaphore_Give_def)

section \<open>Properties\<close>

text \<open>However the goroutines interleave and whatever capacities are set, the number available
  stays between zero and the capacity.\<close>

theorem Semaphore_bounds:
  assumes "sem_step_cap\<^sup>*\<^sup>* \<lparr>ss_sem = Semaphore_New m, ss_held = [], ss_waiting = []\<rparr> z"
  shows "0 \<le> Semaphore_Available (ss_sem z) \<and> Semaphore_Available (ss_sem z) \<le> sem_max (ss_sem z)"
proof -
  have "sem_inv z"
    using assms
  proof (induction rule: rtranclp_induct)
    case base
    then show ?case by (simp add: sem_inv_def)
  qed (rule sem_inv_step)
  then show ?thesis by (simp add: sem_inv_def sem_ok_def Semaphore_Available_def)
qed

lemma example_take: "sem_step y (y\<lparr>ss_sem := (ss_sem y)\<lparr>sem_available := sem_available (ss_sem y) - 2\<rparr>, ss_held := 2 # ss_held y\<rparr>)"
  if "2 \<le> sem_available (ss_sem y)" "sem_available (ss_sem y) \<le> sem_max (ss_sem y)"
  by (rule take_ok) (use that in \<open>simp_all add: takeInner_pass_def\<close>)

theorem Semaphore_bounds_witness:
  "0 \<le> Semaphore_Available (SetCapacity 1 (Semaphore_New 3))"
proof -
  have "sem_step_cap\<^sup>*\<^sup>* \<lparr>ss_sem = Semaphore_New 3, ss_held = [], ss_waiting = []\<rparr>
      (\<lparr>ss_sem = Semaphore_New 3, ss_held = [], ss_waiting = []\<rparr>\<lparr>ss_sem := SetCapacity 1 (Semaphore_New 3)\<rparr>)"
    using set_capacity [of "\<lparr>ss_sem = Semaphore_New 3, ss_held = [], ss_waiting = []\<rparr>" 1] by auto
  from Semaphore_bounds [OF this] show ?thesis by simp
qed

text \<open>C27. While the capacity is not changed, what is available and what is held (each request
  counted up to the capacity) always add up to the capacity: holders never exceed it, nothing
  leaks, and once the holders have given back, any waiter can proceed.\<close>

theorem Semaphore_exact:
  assumes "sem_step\<^sup>*\<^sup>* \<lparr>ss_sem = Semaphore_New m, ss_held = [], ss_waiting = []\<rparr> z"
  shows "Semaphore_Available (ss_sem z) + sum_list (map (clamp (max 0 m)) (ss_held z)) = max 0 m \<and>
    (ss_held z = [] \<longrightarrow> (\<forall>(cur, sz) \<in> set (ss_waiting z). \<exists>s. takeInner_pass False cur (ss_sem z) = Taken s))"
proof -
  let ?y = "\<lparr>ss_sem = Semaphore_New m, ss_held = [], ss_waiting = []\<rparr>"
  have "sem_inv ?y" "sem_exact ?y" and m: "sem_max (ss_sem ?y) = max 0 m"
    by (auto simp: sem_inv_def sem_exact_def Semaphore_New_def sem_ok_def)
  then have z: "sem_exact z" "sem_max (ss_sem z) = max 0 m" using sem_exact_reach [OF assms] by auto
  then have "\<exists>s. takeInner_pass False cur (ss_sem z) = Taken s"
    if "ss_held z = []" "(cur, sz) \<in> set (ss_waiting z)" for cur sz
  proof -
    have "cur \<le> sem_max (ss_sem z)" using that(2) z(1) by (auto simp: sem_exact_def)
    then show ?thesis using that(1) z(1) by (auto simp: takeInner_pass_def sem_exact_def)
  qed
  then show ?thesis using z by (auto simp: sem_exact_def Semaphore_Available_def)
qed

theorem Semaphore_exact_witness:
  "\<exists>z. sem_step\<^sup>*\<^sup>* \<lparr>ss_sem = Semaphore_New 3, ss_held = [], ss_waiting = []\<rparr> z \<and> ss_held z = [2] \<and>
     Semaphore_Available (ss_sem z) + sum_list (map (clamp 3) (ss_held z)) = 3"
proof -
  let ?y = "\<lparr>ss_sem = Semaphore_New 3, ss_held = [], ss_waiting = []\<rparr>"
  let ?z = "?y\<lparr>ss_sem := (ss_sem ?y)\<lparr>sem_available := sem_available (ss_sem ?y) - 2\<rparr>, ss_held := 2 # ss_held ?y\<rparr>"
  have "sem_step ?y ?z" by (rule example_take) (simp_all add: Semaphore_New_def)
  then have r: "sem_step\<^sup>*\<^sup>* ?y ?z" by blast
  from Semaphore_exact [OF r] r show ?thesis by (intro exI [of _ ?z]) simp
qed

text \<open>
  Lowering the capacity under load: the deficit is dropped, not remembered, so that holders who
  started before can give back while others still hold more than the new capacity.
\<close>

lemma SetCapacity_forgets_deficit:
  "Give 2 (SetCapacity 2 \<lparr>sem_max = 4, sem_available = 0\<rparr>) = \<lparr>sem_max = 2, sem_available = 2\<rparr>"
  by (simp add: Give_def SetCapacity_def)

end
