(* ===== verification/Ignore.thy ===== *)
theory Ignore
  imports IgnoreResult GoTime
begin

text \<open>
  Ignore patterns, \<open>lib/ignore/ignore.go\<close> and \<open>lib/ignore/cache.go\<close>: parsing of \<open>.stignore\<close> with
  its includes, matching with first match wins, and the cache of match results. The glob
  library, Unicode normalisation and lower-casing, and the files read are parameters.
\<close>

section \<open>Strings\<close>

text \<open>\<open>strings.ReplaceAll\<close> for a non-empty pattern, leftmost matches first.\<close>

function go_replace_all :: "string \<Rightarrow> string \<Rightarrow> string \<Rightarrow> string" where
  "go_replace_all old new s =
     (if s = [] \<or> old = [] then s
      else if go_HasPrefix s old then new @ go_replace_all old new (drop (length old) s)
      else hd s # go_replace_all old new (tl s))"
  by pat_completeness auto
termination
  by (relation "measure (\<lambda>(a, b, s). length s)") auto

declare go_replace_all.simps [simp del]

text \<open>\<open>strings.TrimSpace\<close>: the ASCII white space; \<open>uniTrim\<close> is the Unicode part of it.\<close>

definition is_space :: "char \<Rightarrow> bool" where
  "is_space c \<longleftrightarrow> char_code c \<in> {9, 10, 11, 12, 13, 32}"

definition trim_ascii :: "string \<Rightarrow> string" where
  "trim_ascii s = rev (dropWhile is_space (rev (dropWhile is_space s)))"

section \<open>Parameters\<close>

text \<open>
  A filesystem object: its identity (Go compares the pointers), whether it is of the basic type,
  and its root. Opening a file of it gives its lines and modification time, or an error.
\<close>

record ig_fs =
  igfs_id :: nat
  igfs_basic :: bool
  igfs_uri :: string

datatype ig_error = ParseErr string | PlainErr string | OutOfFuel

record ig_file =
  igf_lines :: "(string, string list) result"
  igf_modtime :: Time

record ig_env =
  env_open :: "ig_fs \<Rightarrow> string \<Rightarrow> (string \<times> bool, ig_file) result"
  env_glob :: "string \<Rightarrow> (string, string \<Rightarrow> bool) result"
  env_norm :: "string \<Rightarrow> string"
  env_lower :: "string \<Rightarrow> string"
  env_trim :: "string \<Rightarrow> string"
  env_oneRune :: "string \<Rightarrow> bool"
  env_sha256 :: "bytes \<Rightarrow> bytes"
  env_foldOS :: bool

section \<open>Patterns\<close>

record Pattern =
  p_pattern :: string
  p_match :: "string \<Rightarrow> bool"
  p_result :: R

definition Pattern_String :: "Pattern \<Rightarrow> string" where
  "Pattern_String p =
     (let r1 = (if \<not> R_IsIgnored (p_result p) then ''!'' @ p_pattern p else p_pattern p);
          r2 = (if R_IsCaseFolded (p_result p) then ''(?i)'' @ r1 else r1)
      in if R_IsDeletable (p_result p) then ''(?d)'' @ r2 else r2)"

definition trim_suffix :: "string \<Rightarrow> string \<Rightarrow> string" where
  "trim_suffix s suf = (if go_HasSuffix s suf then take (length s - length suf) s else s)"

text \<open>\<open>None\<close> is the panic of \<open>p.pattern[0]\<close> on an empty pattern.\<close>

definition allowsSkippingIgnoredDirs :: "Pattern \<Rightarrow> bool option" where
  "allowsSkippingIgnoredDirs p =
     (if R_IsIgnored (p_result p) then Some True
      else if p_pattern p = [] then None
      else if hd (p_pattern p) \<noteq> CHR ''/'' then Some False
      else
        let pattern = trim_suffix (p_pattern p) ''/**'' in
        if length pattern = 0 then Some True
        else if CHR ''/'' \<in> set (drop 1 pattern) then Some False
        else Some (\<not> sublist ''**'' (trim_suffix pattern ''**'')))"

text \<open>The prefixes may come in any order, each once; the list is \<open>seenPrefix\<close>.\<close>

function parse_prefixes :: "bool \<times> bool \<times> bool \<Rightarrow> R \<Rightarrow> string \<Rightarrow> R \<times> string" where
  "parse_prefixes (neg, cas, del) r line =
     (if go_HasPrefix line ''!'' \<and> \<not> neg then
        parse_prefixes (True, cas, del) (ToggleIgnored r) (drop 1 line)
      else if go_HasPrefix line ''(?i)'' \<and> \<not> cas then
        parse_prefixes (neg, True, del) (WithFoldCase r) (drop 4 line)
      else if go_HasPrefix line ''(?d)'' \<and> \<not> del then
        parse_prefixes (neg, cas, True) (WithDeletable r) (drop 4 line)
      else (r, line))"
  by pat_completeness auto
termination
  by (relation "measure (\<lambda>((a, b, c), r, l). (if a then 0 else 1) + (if b then 0 else 1) + (if c then (0 :: nat) else 1))") auto

declare parse_prefixes.simps [simp del]

definition compile_pattern :: "ig_env \<Rightarrow> R \<Rightarrow> string \<Rightarrow> string \<Rightarrow> (ig_error, Pattern) result" where
  "compile_pattern env r pat globtext =
     (case env_glob env globtext of
        Inl e \<Rightarrow> Inl (ParseErr e)
      | Inr m \<Rightarrow> Inr \<lparr>p_pattern = pat, p_match = m, p_result = r\<rparr>)"

definition compile_two :: "ig_env \<Rightarrow> R \<Rightarrow> string \<Rightarrow> string \<Rightarrow> (ig_error, Pattern list) result" where
  "compile_two env r line1 line2 =
     (case compile_pattern env r line1 line1 of
        Inl e \<Rightarrow> Inl e
      | Inr p1 \<Rightarrow>
          (case compile_pattern env r line2 line2 of
             Inl e \<Rightarrow> Inl e
           | Inr p2 \<Rightarrow> Inr [p1, p2]))"

definition parseLine :: "ig_env \<Rightarrow> string \<Rightarrow> (ig_error, Pattern list) result" where
  "parseLine env line0 =
     (let (r, line1) = parse_prefixes (False, False, False) (Ignored (env_foldOS env)) (env_norm env line0) in
      if line1 = [] then Inl (ParseErr ''missing pattern'')
      else
        let line = (if R_IsCaseFolded r then env_lower env line1 else line1) in
        if go_HasPrefix line ''/'' then map_sum id (\<lambda>p. [p]) (compile_pattern env r line (drop 1 line))
        else if go_HasPrefix line ''**/'' then compile_two env r line (drop 3 line)
        else compile_two env r line (''**/'' @ line))"

section \<open>Ignore files\<close>

text \<open>
  What is threaded through a file and its includes: the lines seen, the files the change
  detector remembers, with their times, and the next free identity of a filesystem object.
\<close>

record ig_state =
  st_linesSeen :: "string list"
  st_modtimes :: "((nat \<times> string) \<times> Time) list"
  st_nextfs :: nat

definition cd_Remember :: "ig_fs \<Rightarrow> string \<Rightarrow> Time \<Rightarrow> ig_state \<Rightarrow> ig_state" where
  "cd_Remember fs name t st = st\<lparr>st_modtimes := ((igfs_id fs, name), t) # st_modtimes st\<rparr>"

definition cd_Seen :: "ig_fs \<Rightarrow> string \<Rightarrow> ig_state \<Rightarrow> bool" where
  "cd_Seen fs name st \<longleftrightarrow> map_of (st_modtimes st) (igfs_id fs, name) \<noteq> None"

text \<open>Includes may leave the folder: then a new filesystem object is made for the directory.\<close>

definition include_target :: "ig_fs \<Rightarrow> string \<Rightarrow> ig_state \<Rightarrow> ig_fs \<times> string \<times> ig_state" where
  "include_target fs name st =
     (if igfs_basic fs then
        let joined = filepath_Join [igfs_uri fs, name] in
        if \<not> IsParent joined (igfs_uri fs)
        then (\<lparr>igfs_id = st_nextfs st, igfs_basic = True, igfs_uri = filepath_Dir joined\<rparr>, filepath_Base joined,
              st\<lparr>st_nextfs := st_nextfs st + 1\<rparr>)
        else (fs, name, st)
      else (fs, name, st))"

definition escapePrefix :: string where "escapePrefix = ''#escape''"

definition trim_prefix :: "string \<Rightarrow> string \<Rightarrow> string" where
  "trim_prefix s p = (if go_HasPrefix s p then drop (length p) s else s)"

text \<open>The escape character of a \<open>#escape=\<close> line.\<close>

definition parse_escape :: "ig_env \<Rightarrow> string \<Rightarrow> string option" where
  "parse_escape env line =
     (case go_cut (CHR ''='') (env_trim env (trim_prefix line escapePrefix)) of
        Some (before, esc) \<Rightarrow>
          if before = [] \<and> env_oneRune env (env_trim env esc) then Some (env_trim env esc) else None
      | None \<Rightarrow> None)"

definition unescape_line :: "string \<Rightarrow> string \<Rightarrow> string" where
  "unescape_line esc line =
     (if esc \<noteq> [CHR 0x5C]
      then go_replace_all [CHR 0x5C, CHR 0x5C] (CHR 0x5C # esc) (go_replace_all esc [CHR 0x5C] line)
      else line)"

definition addPattern :: "ig_env \<Rightarrow> string \<Rightarrow> Pattern list \<Rightarrow> (ig_error, Pattern list) result" where
  "addPattern env line ps =
     (case parseLine env line of
        Inl e \<Rightarrow> Inl (case e of ParseErr m \<Rightarrow> ParseErr (''invalid pattern in ignore file: '' @ m) | _ \<Rightarrow> e)
      | Inr new \<Rightarrow> Inr (ps @ new))"

text \<open>
  The file that an \<open>#include\<close> line names, relative to the directory of the current file; \<open>None\<close>
  when the line has no file.
\<close>

definition include_name :: "ig_env \<Rightarrow> string \<Rightarrow> string \<Rightarrow> string option" where
  "include_name env currentFile line =
     (case go_cut (CHR '' '') line of
        None \<Rightarrow> None
      | Some (_, rest) \<Rightarrow>
          (let rel = env_trim env rest in
           if rel = [] then None else Some (filepath_Join [filepath_Dir currentFile, rel])))"

text \<open>
  The loop over the lines of a file. \<open>own\<close> counts the patterns that are not from includes. The
  result carries the state even on errors, as the maps are shared. Includes recurse: \<open>fuel\<close> bounds
  the depth (see \<open>parse_fuel_enough\<close>).
\<close>

fun parse_lines ::
  "nat \<Rightarrow> ig_env \<Rightarrow> ig_fs \<Rightarrow> string \<Rightarrow> string \<Rightarrow> bool \<Rightarrow> nat \<Rightarrow> string list \<Rightarrow> Pattern list \<Rightarrow> ig_state
     \<Rightarrow> ig_state \<times> (ig_error, Pattern list) result" where
  "parse_lines fuel env fs currentFile esc escSeen own [] patterns st = (st, Inr patterns)"
| "parse_lines fuel env fs currentFile esc escSeen own (line # lines) patterns st =
     (if go_HasPrefix line escapePrefix then
        (if escSeen then (st, Inl (PlainErr ''mutiple #escape= lines found in ignore file''))
         else if own > 0 then (st, Inl (PlainErr ''#escape= line found after patterns in ignore file''))
         else (case parse_escape env line of
                 Some esc' \<Rightarrow> parse_lines fuel env fs currentFile esc' True own lines patterns st
               | None \<Rightarrow> (st, Inl (PlainErr ''failed to parse #escape= line in ignore file''))))
      else if line \<in> set (st_linesSeen st) then
        parse_lines fuel env fs currentFile esc escSeen own lines patterns st
      else
        let st1 = st\<lparr>st_linesSeen := line # st_linesSeen st\<rparr> in
        if line = [] \<or> go_HasPrefix line ''//'' then
          parse_lines fuel env fs currentFile esc escSeen own lines patterns st1
        else if go_HasPrefix line ShardExcludePrefixCommon then
          (case ShardExcludeParse (env_foldOS env) line of
             Inl e \<Rightarrow> (st1, Inl (ParseErr e))
           | Inr se \<Rightarrow>
               parse_lines fuel env fs currentFile esc escSeen (own + 1) lines
                 (patterns @ [\<lparr>p_pattern = line, p_match = ShardExclude_Match (env_sha256 env) se,
                               p_result = ignoreR se\<rparr>]) st1)
        else
          let l = unescape_line esc line in
          if go_HasPrefix l ''#include'' then
            (case include_name env currentFile l of
               None \<Rightarrow> (st1, Inl (ParseErr ''failed to parse #include line: no file?''))
             | Some inc \<Rightarrow>
                 (case fuel of
                    0 \<Rightarrow> (st1, Inl OutOfFuel)
                  | Suc fuel' \<Rightarrow>
                      (let (fs', name', st2) = include_target fs inc st1 in
                       if cd_Seen fs' name' st2 then (st2, Inl (ParseErr ''failed to load include file: multiple include''))
                       else
                         (case env_open env fs' name' of
                            Inl (e, notExist) \<Rightarrow>
                              (st2, Inl (ParseErr (''failed to load include file: '' @ (if notExist then ''file not found'' else e))))
                          | Inr f \<Rightarrow>
                              (let st3 = cd_Remember fs' name' (igf_modtime f) st2 in
                               case igf_lines f of
                                 Inl e \<Rightarrow> (st3, Inl (ParseErr (''failed to load include file: '' @ e)))
                               | Inr ls \<Rightarrow>
                                   (case parse_lines fuel' env fs' name' [CHR 0x5C] False 0 (map (env_trim env) ls) [] st3 of
                                      (st4, Inl OutOfFuel) \<Rightarrow> (st4, Inl OutOfFuel)
                                    | (st4, Inl _) \<Rightarrow> (st4, Inl (ParseErr ''failed to load include file''))
                                    | (st4, Inr ps) \<Rightarrow>
                                        parse_lines fuel env fs currentFile esc escSeen own lines (patterns @ ps) st4))))))
          else
            (case (if go_HasSuffix l ''/**'' then addPattern env l patterns
                   else if go_HasSuffix l ''/'' then addPattern env (l @ ''**'') patterns
                   else (case addPattern env l patterns of
                           Inl e \<Rightarrow> Inl e
                         | Inr ps \<Rightarrow> addPattern env (l @ ''/**'') ps)) of
               Inl e \<Rightarrow> (st1, Inl e)
             | Inr ps \<Rightarrow>
                 parse_lines fuel env fs currentFile esc escSeen (own + (length ps - length patterns)) lines ps st1))"

text \<open>
  A whole file given by its lines as read. The lines returned are the trimmed ones, except that
  a read error and the errors of \<open>#escape=\<close> lines return none.
\<close>

definition parseIgnoreFile ::
  "nat \<Rightarrow> ig_env \<Rightarrow> ig_fs \<Rightarrow> (string, string list) result \<Rightarrow> string \<Rightarrow> ig_state
     \<Rightarrow> ig_state \<times> string list \<times> (ig_error, Pattern list) result" where
  "parseIgnoreFile fuel env fs fd currentFile st =
     (case fd of
        Inl e \<Rightarrow> (st, [], Inl (PlainErr e))
      | Inr raw \<Rightarrow>
          (let lines = map (env_trim env) raw;
               (st', r) = parse_lines fuel env fs currentFile [CHR 0x5C] False 0 lines [] st
           in (st', (case r of Inl (PlainErr _) \<Rightarrow> [] | _ \<Rightarrow> lines), r)))"

section \<open>The cache of results\<close>

record cacheEntry =
  ce_result :: R
  ce_access :: int

type_synonym cache = "string \<rightharpoonup> cacheEntry"

definition newCache :: cache where
  "newCache = Map.empty"

definition cache_get :: "int \<Rightarrow> string \<Rightarrow> cache \<Rightarrow> R option \<times> cache" where
  "cache_get now key c =
     (case c key of
        None \<Rightarrow> (None, c)
      | Some entry \<Rightarrow> (Some (ce_result entry), c(key \<mapsto> entry\<lparr>ce_access := now\<rparr>)))"

definition cache_set :: "int \<Rightarrow> string \<Rightarrow> R \<Rightarrow> cache \<Rightarrow> cache" where
  "cache_set now key r c = c(key \<mapsto> \<lparr>ce_result = r, ce_access = now\<rparr>)"

text \<open>The clock is read once per entry: \<open>now k\<close>.\<close>

definition cache_clean :: "(string \<Rightarrow> Time) \<Rightarrow> int \<Rightarrow> cache \<Rightarrow> cache" where
  "cache_clean now d c =
     (\<lambda>k. case c k of
        None \<Rightarrow> None
      | Some v \<Rightarrow> if time_Sub (now k) (time_Unix 0 (ce_access v)) > d then None else Some v)"

section \<open>Matching\<close>

record Matcher =
  m_lines :: "string list"
  m_patterns :: "Pattern list"
  m_withCache :: bool
  m_matches :: "cache option"
  m_curHash :: string

definition Matcher_New :: "bool \<Rightarrow> Matcher" where
  "Matcher_New withCache = \<lparr>m_lines = [], m_patterns = [], m_withCache = withCache, m_matches = None, m_curHash = []\<rparr>"

definition hashPatterns :: "(bytes \<Rightarrow> bytes) \<Rightarrow> Pattern list \<Rightarrow> string" where
  "hashPatterns sha256 ps =
     hex_EncodeToString (sha256 (bytes_of_string (concat (map (\<lambda>p. Pattern_String p @ [CHR 0x0A]) ps))))"

text \<open>The lines and patterns of \<open>parseIgnoreFile\<close>, without patterns after an error.\<close>

definition parseLocked :: "ig_env \<Rightarrow> string list \<Rightarrow> (ig_error, Pattern list) result \<Rightarrow> Matcher \<Rightarrow> Matcher \<times> ig_error option" where
  "parseLocked env lines parsed m =
     (let ps = (case parsed of Inl _ \<Rightarrow> [] | Inr ps \<Rightarrow> ps);
          err = (case parsed of Inl e \<Rightarrow> Some e | Inr _ \<Rightarrow> None);
          m1 = m\<lparr>m_lines := lines\<rparr>;
          newHash = hashPatterns (env_sha256 env) ps
      in if newHash = m_curHash m1 then (m1, err)
         else
           let m2 = m1\<lparr>m_curHash := newHash, m_patterns := ps\<rparr>
           in (if m_withCache m2 then m2\<lparr>m_matches := Some newCache\<rparr> else m2, err))"

text \<open>The loop over the patterns; \<open>None\<close> is a panic.\<close>

fun match_loop :: "(string \<Rightarrow> string) \<Rightarrow> string \<Rightarrow> bool \<Rightarrow> Pattern list \<Rightarrow> R option" where
  "match_loop lower name canSkipDir [] = Some NotIgnored"
| "match_loop lower name canSkipDir (p # ps) =
     (case (if canSkipDir then allowsSkippingIgnoredDirs p else Some False) of
        None \<Rightarrow> None
      | Some skip \<Rightarrow>
          (let res = (if skip then WithSkipDir (p_result p) else p_result p) in
           if p_match p (if R_IsCaseFolded (p_result p) then lower name else name) then Some res
           else match_loop lower name skip ps))"

text \<open>The path separator is the slash, so \<open>ToSlash\<close> changes nothing.\<close>

definition Match :: "ig_env \<Rightarrow> int \<Rightarrow> string \<Rightarrow> Matcher \<Rightarrow> R option \<times> Matcher" where
  "Match env now name m =
     (if IsTemporary name then (Some (IgnoreAndSkip (env_foldOS env)), m)
      else if IsInternal name then (Some (IgnoreAndSkip (env_foldOS env)), m)
      else if name = ''.'' then (Some NotIgnored, m)
      else if length (m_patterns m) = 0 then (Some NotIgnored, m)
      else
        case m_matches m of
          None \<Rightarrow> (match_loop (env_lower env) name True (m_patterns m), m)
        | Some c \<Rightarrow>
            (case cache_get now name c of
               (Some res, c') \<Rightarrow> (Some res, m\<lparr>m_matches := Some c'\<rparr>)
             | (None, c') \<Rightarrow>
                 (case match_loop (env_lower env) name True (m_patterns m) of
                    Some r \<Rightarrow> (Some r, m\<lparr>m_matches := Some (cache_set now name r c')\<rparr>)
                  | None \<Rightarrow> (None, m\<lparr>m_matches := Some (cache_set now name NotIgnored c')\<rparr>))))"

definition Matcher_clean :: "(string \<Rightarrow> Time) \<Rightarrow> int \<Rightarrow> Matcher \<Rightarrow> Matcher" where
  "Matcher_clean now d m = m\<lparr>m_matches := map_option (cache_clean now d) (m_matches m)\<rparr>"

section \<open>Contract of a cache\<close>

text \<open>
  A cache of the values of a function: what a lookup returns is what the view holds, and only an
  insertion changes the view, at its key.
\<close>

locale memo_cache =
  fixes view :: "'c \<Rightarrow> 'k \<Rightarrow> 'v option" and get :: "'k \<Rightarrow> 'c \<Rightarrow> 'v option \<times> 'c"
    and put :: "'k \<Rightarrow> 'v \<Rightarrow> 'c \<Rightarrow> 'c" and drop_some :: "'c \<Rightarrow> 'c"
  assumes get_view: "fst (get k c) = view c k" "view (snd (get k c)) = view c"
    and put_view: "view (put k v c) = (view c)(k \<mapsto> v)"
    and drop_view: "view (drop_some c) k = Some v \<Longrightarrow> view c k = Some v"
begin

definition coherent :: "('k \<Rightarrow> 'v) \<Rightarrow> 'c \<Rightarrow> bool" where
  "coherent f c \<longleftrightarrow> (\<forall>k v. view c k = Some v \<longrightarrow> f k = v)"

lemma coherent_hit: "coherent f c \<Longrightarrow> get k c = (Some v, c') \<Longrightarrow> f k = v"
  using get_view(1) [of k c] by (simp add: coherent_def)

lemma coherent_get: "coherent f c \<Longrightarrow> coherent f (snd (get k c))"
  using get_view(2) [of k c] by (simp add: coherent_def)

lemma coherent_put: "coherent f c \<Longrightarrow> coherent f (put k (f k) c)"
  by (simp add: coherent_def put_view)

lemma coherent_drop: "coherent f c \<Longrightarrow> coherent f (drop_some c)"
  unfolding coherent_def by (blast dest: drop_view)

end

definition cache_view :: "cache \<Rightarrow> string \<Rightarrow> R option" where
  "cache_view c = (\<lambda>k. map_option ce_result (c k))"

lemma cache_view_get: "fst (cache_get now k c) = cache_view c k" "cache_view (snd (cache_get now k c)) = cache_view c"
  by (cases "c k"; auto simp: cache_view_def cache_get_def)+

lemma cache_view_set: "cache_view (cache_set now k v c) = (cache_view c)(k \<mapsto> v)"
  by (simp add: cache_view_def cache_set_def fun_eq_iff)

lemma cache_view_clean: "cache_view (cache_clean clk d c) k = Some v \<Longrightarrow> cache_view c k = Some v"
  by (cases "c k") (simp_all add: cache_view_def cache_clean_def split: if_splits)

interpretation mc: memo_cache cache_view "cache_get now" "cache_set now'" "cache_clean clk d" for now now' clk d
  by (unfold_locales; (rule cache_view_get cache_view_set | erule cache_view_clean))

section \<open>Runs of a matcher\<close>

datatype matcher_op =
  OpMatch int string
| OpParse "string list" "(ig_error, Pattern list) result"
| OpClean "string \<Rightarrow> Time" int

fun matcher_step :: "ig_env \<Rightarrow> matcher_op \<Rightarrow> Matcher \<Rightarrow> Matcher" where
  "matcher_step env (OpMatch now name) m = snd (Match env now name m)"
| "matcher_step env (OpParse lines parsed) m = fst (parseLocked env lines parsed m)"
| "matcher_step env (OpClean clk d) m = Matcher_clean clk d m"

definition patterns_ok :: "Pattern list \<Rightarrow> bool" where
  "patterns_ok ps \<longleftrightarrow> (\<forall>p \<in> set ps. p_pattern p \<noteq> [])"

fun op_ok :: "matcher_op \<Rightarrow> bool" where
  "op_ok (OpParse lines (Inr ps)) = patterns_ok ps"
| "op_ok _ = True"

definition the_match :: "ig_env \<Rightarrow> Pattern list \<Rightarrow> string \<Rightarrow> R" where
  "the_match env ps name = (case match_loop (env_lower env) name True ps of Some r \<Rightarrow> r | None \<Rightarrow> NotIgnored)"

definition matcher_inv :: "ig_env \<Rightarrow> Matcher \<Rightarrow> bool" where
  "matcher_inv env m \<longleftrightarrow> patterns_ok (m_patterns m) \<and> (m_matches m \<noteq> None \<longrightarrow> m_withCache m) \<and>
     (case m_matches m of None \<Rightarrow> True | Some c \<Rightarrow> mc.coherent (the_match env (m_patterns m)) c)"

lemma match_loop_total: "patterns_ok ps \<Longrightarrow> \<exists>r. match_loop lower name skip ps = Some r"
  by (induction ps arbitrary: skip)
    (auto simp: patterns_ok_def allowsSkippingIgnoredDirs_def Let_def split: option.splits)

lemma matcher_inv_Match:
  assumes "matcher_inv env m"
  shows "matcher_inv env (snd (Match env now name m))" and "m_patterns (snd (Match env now name m)) = m_patterns m"
    and "\<not> IsTemporary name \<Longrightarrow> \<not> IsInternal name \<Longrightarrow> name \<noteq> ''.'' \<Longrightarrow>
      fst (Match env now name m) = match_loop (env_lower env) name True (m_patterns m)"
proof -
  obtain r where r: "match_loop (env_lower env) name True (m_patterns m) = Some r"
    using assms match_loop_total by (fastforce simp: matcher_inv_def)
  then have tm: "the_match env (m_patterns m) name = r" by (simp add: the_match_def)
  have coh: "mc.coherent (the_match env (m_patterns m)) c" if "m_matches m = Some c" for c
    using assms that by (simp add: matcher_inv_def)
  show "m_patterns (snd (Match env now name m)) = m_patterns m"
    using r by (auto simp: Match_def split: option.splits prod.splits)
  have get: "mc.coherent (the_match env (m_patterns m)) c'"
    if "m_matches m = Some c" "cache_get now name c = (x, c')" for c x c'
    using mc.coherent_get [OF coh [OF that(1)], of now name] that(2) by simp
  show "matcher_inv env (snd (Match env now name m))"
    using assms r get tm mc.coherent_put [of "the_match env (m_patterns m)" _ now name]
    by (auto simp: Match_def matcher_inv_def split: option.splits prod.splits)
  show "fst (Match env now name m) = match_loop (env_lower env) name True (m_patterns m)"
    if "\<not> IsTemporary name" "\<not> IsInternal name" "name \<noteq> ''.''"
    using that r tm mc.coherent_hit [OF coh, of _ now name]
    by (cases "m_patterns m") (auto simp: Match_def split: option.splits prod.splits)
qed

lemma matcher_inv_step:
  assumes "matcher_inv env m" and "op_ok x"
  shows "matcher_inv env (matcher_step env x m)"
proof (cases x)
  case (OpMatch now name)
  then show ?thesis using matcher_inv_Match(1) [OF assms(1)] by simp
next
  case (OpParse lines parsed)
  have "patterns_ok (case parsed of Inl _ \<Rightarrow> [] | Inr ps \<Rightarrow> ps)"
    using assms(2) OpParse by (auto simp: patterns_ok_def split: sum.splits)
  then show ?thesis using assms(1) OpParse
    by (auto simp: parseLocked_def Let_def matcher_inv_def mc.coherent_def newCache_def cache_view_def
        split: option.splits)
next
  case (OpClean clk d)
  then show ?thesis using assms(1) mc.coherent_drop
    by (auto simp: Matcher_clean_def matcher_inv_def split: option.splits)
qed

lemma matcher_inv_run: "matcher_inv env m \<Longrightarrow> \<forall>x \<in> set ops. op_ok x \<Longrightarrow> matcher_inv env (fold (matcher_step env) ops m)"
  by (induction ops arbitrary: m) (simp_all add: matcher_inv_step)

section \<open>Includes end\<close>

text \<open>
  A line is acted on once over all files, so that an include line cannot be followed twice: the
  lines not yet seen bound the depth of includes.
\<close>

definition parse_good :: "nat \<Rightarrow> string set \<Rightarrow> ig_state \<Rightarrow> ig_state \<times> (ig_error, Pattern list) result \<Rightarrow> bool" where
  "parse_good fuel L st r \<longleftrightarrow> set (st_linesSeen st) \<subseteq> set (st_linesSeen (fst r)) \<and>
     (card (L - set (st_linesSeen st)) \<le> fuel \<longrightarrow> snd r \<noteq> Inl OutOfFuel)"

definition files_within :: "ig_env \<Rightarrow> string set \<Rightarrow> bool" where
  "files_within env L \<longleftrightarrow> (\<forall>fs n f ls. env_open env fs n = Inr f \<longrightarrow> igf_lines f = Inr ls \<longrightarrow> set (map (env_trim env) ls) \<subseteq> L)"

lemma parse_good_error: "e \<noteq> OutOfFuel \<Longrightarrow> parse_good fuel L st (st, Inl e)"
  by (simp add: parse_good_def)

lemma parse_good_mono:
  assumes "finite L" and "set (st_linesSeen st) \<subseteq> set (st_linesSeen st')" and "parse_good fuel L st' r"
  shows "parse_good fuel L st r"
proof -
  have "card (L - set (st_linesSeen st')) \<le> card (L - set (st_linesSeen st))"
    using assms(1,2) by (intro card_mono) auto
  then show ?thesis using assms(2,3) by (auto simp: parse_good_def)
qed

lemma card_seen_less:
  assumes "finite L" and "line \<in> L" and "line \<notin> set (st_linesSeen st)" and "line \<in> set (st_linesSeen st')"
    and "set (st_linesSeen st) \<subseteq> set (st_linesSeen st')"
  shows "card (L - set (st_linesSeen st')) < card (L - set (st_linesSeen st))"
  using assms by (intro psubset_card_mono) auto

lemma parseLine_error: "parseLine env line \<noteq> Inl OutOfFuel" "parseLine env line \<noteq> Inl (PlainErr e)"
  by (auto simp: parseLine_def compile_two_def compile_pattern_def Let_def split: sum.splits prod.splits)

lemma addPattern_error: "addPattern env line ps = Inl e \<Longrightarrow> e \<noteq> OutOfFuel"
  using parseLine_error by (auto simp: addPattern_def split: sum.splits ig_error.splits)

lemma include_target_seen: "include_target fs n st = (fs', n', st') \<Longrightarrow> st_linesSeen st' = st_linesSeen st"
  by (auto simp: include_target_def Let_def split: if_splits)

lemma parse_include_good:
  assumes L: "finite L" "files_within env L"
    and line: "line \<in> L" "line \<notin> set (st_linesSeen st)" "st1 = st\<lparr>st_linesSeen := line # st_linesSeen st\<rparr>"
    and inner: "\<And>fuel' fs n ls st. fuel = Suc fuel' \<Longrightarrow> set ls \<subseteq> L \<Longrightarrow>
      parse_good fuel' L st (parse_lines fuel' env fs n [CHR 0x5C] False 0 ls [] st)"
    and rest: "\<And>ps st. parse_good fuel L st (parse_lines fuel env fs cf esc es own lines ps st)"
  shows "parse_good fuel L st
    (case fuel of
       0 \<Rightarrow> (st1, Inl OutOfFuel)
     | Suc fuel' \<Rightarrow>
         (let (fs', name', st2) = include_target fs inc st1 in
          if cd_Seen fs' name' st2 then (st2, Inl (ParseErr m1))
          else
            (case env_open env fs' name' of
               Inl (e, notExist) \<Rightarrow> (st2, Inl (ParseErr (m2 e notExist)))
             | Inr f \<Rightarrow>
                 (let st3 = cd_Remember fs' name' (igf_modtime f) st2 in
                  case igf_lines f of
                    Inl e \<Rightarrow> (st3, Inl (ParseErr (m3 e)))
                  | Inr ls \<Rightarrow>
                      (case parse_lines fuel' env fs' name' [CHR 0x5C] False 0 (map (env_trim env) ls) [] st3 of
                         (st4, Inl OutOfFuel) \<Rightarrow> (st4, Inl OutOfFuel)
                       | (st4, Inl _) \<Rightarrow> (st4, Inl (ParseErr m4))
                       | (st4, Inr ps) \<Rightarrow> parse_lines fuel env fs cf esc es own lines (patterns @ ps) st4)))))"
proof (cases fuel)
  case 0
  have "card (L - set (st_linesSeen st)) \<noteq> 0" using L(1) line(1,2) by auto
  then show ?thesis using 0 line(3) by (auto simp: parse_good_def)
next
  case (Suc fuel')
  obtain fs' name' st2 where t: "include_target fs inc st1 = (fs', name', st2)" by (cases "include_target fs inc st1")
  have s2: "st_linesSeen st2 = line # st_linesSeen st" using include_target_seen [OF t] line(3) by simp
  show ?thesis
  proof (cases "cd_Seen fs' name' st2 \<or> (\<exists>e. env_open env fs' name' = Inl e)")
    case True
    then show ?thesis using Suc t s2 by (auto simp: parse_good_def)
  next
    case False
    then obtain f where f: "\<not> cd_Seen fs' name' st2" "env_open env fs' name' = Inr f"
      by (cases "env_open env fs' name'") auto
    define st3 where "st3 = cd_Remember fs' name' (igf_modtime f) st2"
    have s3: "st_linesSeen st3 = line # st_linesSeen st" using s2 by (simp add: st3_def cd_Remember_def)
    show ?thesis
    proof (cases "igf_lines f")
      case (Inl e)
      then show ?thesis using Suc t f s3 by (auto simp: parse_good_def st3_def [symmetric])
    next
      case (Inr ls)
      obtain st4 r where r: "parse_lines fuel' env fs' name' [CHR 0x5C] False 0 (map (env_trim env) ls) [] st3 = (st4, r)"
        by (cases "parse_lines fuel' env fs' name' [CHR 0x5C] False 0 (map (env_trim env) ls) [] st3")
      have "set (map (env_trim env) ls) \<subseteq> L" using L(2) f(2) Inr by (auto simp: files_within_def)
      from inner [OF Suc this, of st3 fs' name'] have g: "parse_good fuel' L st3 (st4, r)" unfolding r .
      have sub: "set (st_linesSeen st) \<subseteq> set (st_linesSeen st4)" using g s3 by (auto simp: parse_good_def)
      have "card (L - set (st_linesSeen st3)) < card (L - set (st_linesSeen st))"
        by (rule card_seen_less [OF L(1) line(1,2)]) (auto simp: s3)
      then have nf: "card (L - set (st_linesSeen st)) \<le> fuel \<longrightarrow> r \<noteq> Inl OutOfFuel"
        using g Suc by (auto simp: parse_good_def)
      show ?thesis
      proof (cases r)
        case (Inl e)
        then show ?thesis using Suc t f r Inr sub nf
          by (cases e) (auto simp: parse_good_def st3_def [symmetric])
      next
        case ps: (Inr ps)
        then show ?thesis using Suc t f r Inr parse_good_mono [OF L(1) sub rest, of "patterns @ ps"]
          by (simp add: st3_def [symmetric])
      qed
    qed
  qed
qed

lemma parse_lines_good:
  assumes L: "finite L" "files_within env L"
  shows "set lines \<subseteq> L \<Longrightarrow> parse_good fuel L st (parse_lines fuel env fs cf esc es own lines ps st)"
proof (induction fuel arbitrary: fs cf esc es own lines ps st)
  have step: "parse_good fuel L st (parse_lines fuel env fs cf esc es own (line # lines) ps st)"
    if line: "line \<in> L"
      and inner: "\<And>fuel' fs n ls st. fuel = Suc fuel' \<Longrightarrow> set ls \<subseteq> L \<Longrightarrow>
        parse_good fuel' L st (parse_lines fuel' env fs n [CHR 0x5C] False 0 ls [] st)"
      and rest: "\<And>esc es own ps st. parse_good fuel L st (parse_lines fuel env fs cf esc es own lines ps st)"
    for fuel fs cf esc es own line lines ps st
  proof -
    let ?st1 = "st\<lparr>st_linesSeen := line # st_linesSeen st\<rparr>"
    have sub: "set (st_linesSeen st) \<subseteq> set (st_linesSeen ?st1)" by auto
    note rest1 = parse_good_mono [OF L(1) sub rest]
    have err1: "parse_good fuel L st (?st1, Inl e)" if "e \<noteq> OutOfFuel" for e
      using that by (auto simp: parse_good_def)
    consider (esc) "go_HasPrefix line escapePrefix"
      | (seen) "\<not> go_HasPrefix line escapePrefix" "line \<in> set (st_linesSeen st)"
      | (new) "\<not> go_HasPrefix line escapePrefix" "line \<notin> set (st_linesSeen st)" by blast
    then show ?thesis
    proof cases
      case esc
      then show ?thesis using rest parse_good_error by (auto split: option.splits)
    next
      case seen
      then show ?thesis using rest by simp
    next
      case new
      note inc = parse_include_good [OF L line new(2) refl inner rest]
      show ?thesis
        using new rest1 err1 inc addPattern_error
        by (simp add: Let_def [of ?st1] Let_def [of "unescape_line esc line"] split: sum.splits option.splits)
    qed
  qed
  have lines: "parse_good fuel L st (parse_lines fuel env fs cf esc es own lines ps st)"
    if "set lines \<subseteq> L"
      and "\<And>fuel' fs n ls st. fuel = Suc fuel' \<Longrightarrow> set ls \<subseteq> L \<Longrightarrow>
        parse_good fuel' L st (parse_lines fuel' env fs n [CHR 0x5C] False 0 ls [] st)"
    for fuel fs cf esc es own lines ps st
    using that(1)
  proof (induction lines arbitrary: esc es own ps st)
    case Nil
    then show ?case by (simp add: parse_good_def)
  next
    case (Cons line lines)
    from Cons.prems have "line \<in> L" "set lines \<subseteq> L" by simp_all
    with Cons.IH that(2) show ?case by (intro step) blast+
  qed
  {
    case 0
    show ?case by (rule lines [OF 0]) simp
  next
    case (Suc fuel)
    show ?case by (rule lines [OF Suc.prems]) (use Suc.IH in blast)
  }
qed

section \<open>First match\<close>

definition pattern_matches :: "ig_env \<Rightarrow> string \<Rightarrow> Pattern \<Rightarrow> bool" where
  "pattern_matches env name p \<longleftrightarrow> p_match p (if R_IsCaseFolded (p_result p) then env_lower env name else name)"

lemma allows_total: "p_pattern p \<noteq> [] \<Longrightarrow> \<exists>b. allowsSkippingIgnoredDirs p = Some b"
  by (auto simp: allowsSkippingIgnoredDirs_def Let_def)

lemma match_loop_first:
  assumes "patterns_ok (pre @ p # post)" and "\<forall>q \<in> set pre. \<not> pattern_matches env name q" and "pattern_matches env name p"
  shows "match_loop (env_lower env) name skip (pre @ p # post) =
    Some (if skip \<and> (\<forall>q \<in> set (pre @ [p]). allowsSkippingIgnoredDirs q = Some True)
          then WithSkipDir (p_result p) else p_result p)"
  using assms
proof (induction pre arbitrary: skip)
  case Nil
  then have "\<exists>b. allowsSkippingIgnoredDirs p = Some b" by (intro allows_total) (simp add: patterns_ok_def)
  then show ?case using Nil.prems by (auto simp: pattern_matches_def Let_def)
next
  case (Cons q pre)
  then obtain b where "allowsSkippingIgnoredDirs q = Some b" using allows_total [of q] by (auto simp: patterns_ok_def)
  moreover have "patterns_ok (pre @ p # post)" "\<forall>q \<in> set pre. \<not> pattern_matches env name q"
    "\<not> pattern_matches env name q"
    using Cons.prems by (auto simp: patterns_ok_def)
  ultimately show ?case using Cons.IH [of "skip \<and> b"] Cons.prems(3)
    by (cases skip; cases b) (simp_all add: pattern_matches_def Let_def)
qed

section \<open>Properties\<close>


definition example_pattern :: "string \<Rightarrow> R \<Rightarrow> Pattern" where
  "example_pattern s r = \<lparr>p_pattern = s, p_match = (\<lambda>n. n = s), p_result = r\<rparr>"

text \<open>A glob library that only knows literal names, and two directories that include a file of the
  same relative name.\<close>

definition example_env :: ig_env where
  "example_env = \<lparr>
     env_open = (\<lambda>fs n.
       (case map_of [(''a/one'', [''#include common'']), (''b/two'', [''#include common'']),
                     (''a/common'', [''x'']), (''b/common'', [''y''])] n of
          Some ls \<Rightarrow> Inr \<lparr>igf_lines = Inr ls, igf_modtime = time_Unix 0 0\<rparr>
        | None \<Rightarrow> Inl (''not found'', True))),
     env_glob = (\<lambda>g. Inr (\<lambda>n. n = g)), env_norm = (\<lambda>s. s), env_lower = (\<lambda>s. s), env_trim = trim_ascii,
     env_oneRune = (\<lambda>s. length s = 1), env_sha256 = (\<lambda>_. [1]), env_foldOS = False\<rparr>"


text \<open>C35. Parsing an ignore file always ends, also when files include each other: with as many levels of
  fuel as there are different lines in all the files that can be read, it never runs out.\<close>

theorem parse_fuel_enough:
  assumes "finite L" and "files_within env L" and "set (map (env_trim env) raw) \<subseteq> L"
  shows "snd (snd (parseIgnoreFile (card L) env fs (Inr raw) currentFile st)) \<noteq> Inl OutOfFuel"
proof -
  have "card (L - set (st_linesSeen st)) \<le> card L" using assms(1) by (intro card_mono) auto
  then have "snd (parse_lines (card L) env fs currentFile [CHR 0x5C] False 0 (map (env_trim env) raw) [] st) \<noteq> Inl OutOfFuel"
    using parse_lines_good [OF assms(1,2,3), of "card L" st fs currentFile "[CHR 0x5C]" False 0 "[]"]
    by (simp add: parse_good_def)
  then show ?thesis by (simp add: parseIgnoreFile_def case_prod_beta Let_def)
qed

definition example_lines :: "string list" where
  "example_lines = [''#include common'', ''x'', ''y'', ''#include a/one'', ''#include b/two'']"

lemma example_trim: "s \<in> set example_lines \<Longrightarrow> trim_ascii s = s"
  by (auto simp: example_lines_def trim_ascii_def is_space_def char_code_def)

theorem parse_fuel_enough_witness:
  "snd (snd (parseIgnoreFile (card (set example_lines)) example_env \<lparr>igfs_id = 0, igfs_basic = False, igfs_uri = []\<rparr>
     (Inr [''#include a/one'']) ''.stignore'' \<lparr>st_linesSeen = [], st_modtimes = [], st_nextfs = 1\<rparr>)) \<noteq> Inl OutOfFuel"
proof -
  have "files_within example_env (set example_lines)"
    by (auto simp: files_within_def example_env_def example_trim example_lines_def split: option.splits if_splits)
  moreover have "set (map (env_trim example_env) [''#include a/one'']) \<subseteq> set example_lines"
    using example_trim by (simp add: example_env_def example_lines_def)
  ultimately show ?thesis by (intro parse_fuel_enough) simp_all
qed

text \<open>
  The memory of seen lines compares include lines as text although they are relative to the file
  they are in: the second include of \<open>common\<close> is skipped although it is another file.
\<close>

lemma include_of_other_directory_skipped:
  "map_sum id (map p_pattern) (snd (snd (parseIgnoreFile 9 example_env
     \<lparr>igfs_id = 0, igfs_basic = False, igfs_uri = []\<rparr> (Inr [''#include a/one'', ''#include b/two'']) ''.stignore''
     \<lparr>st_linesSeen = [], st_modtimes = [], st_nextfs = 1\<rparr>)))
   = Inr [''x'', ''**/x'', ''x/**'', ''**/x/**'']"
  by code_simp

text \<open>
  A negated pattern written with \<open>/**\<close> only (\<open>!/foo/**\<close> followed by \<open>*\<close>) does not match the directory
  itself: the directory is reported as ignored and safe to skip although its contents are not
  ignored.
\<close>

lemma skip_hides_included_child:
  assumes "ps = [\<lparr>p_pattern = ''/foo/**'', p_match = (\<lambda>n. go_HasPrefix n ''foo/''), p_result = NotIgnored\<rparr>,
     \<lparr>p_pattern = ''*'', p_match = (\<lambda>n. CHR ''/'' \<notin> set n), p_result = ignoreBit\<rparr>]"
  shows "map_option R_CanSkipDir (match_loop lower ''foo'' True ps) = Some True \<and>
    map_option R_IsIgnored (match_loop lower ''foo/bar'' True ps) = Some False"
proof -
  have a: "allowsSkippingIgnoredDirs (ps ! 0) = Some True" "allowsSkippingIgnoredDirs (ps ! 1) = Some True"
    by (simp_all add: assms allowsSkippingIgnoredDirs_def trim_suffix_def go_HasSuffix_def R_defs sublist_code)
  then show ?thesis
    by (simp add: assms go_HasPrefix_def R_defs)
qed

end
